(* ===== verification/R9P_Prelude.thy ===== *)
theory R9P_Prelude
  imports Main "HOL-Library.Word" "HOL-Library.Finite_Map"
begin

text \<open>
  Shared ground of the development: the Rust integer types as words, \<open>usize\<close> as a natural
  number with its bound written out, byte strings, little-endian conversion, decimal rendering
  (Rust's \<^verbatim>\<open>Display\<close> of an unsigned integer), the result type with the propagation of the
  \<^verbatim>\<open>?\<close> operator, and the same propagation for code that also updates a state through
  \<^verbatim>\<open>&mut self\<close> (an error keeps the updates made before it).
  The target is a 64-bit one: \<open>usize_max\<close> is \<open>2 ^ 64 - 1\<close>.
\<close>

unbundle bit_operations_syntax

section \<open>Integers and byte strings\<close>

type_synonym u8 = "8 word"
type_synonym u16 = "16 word"
type_synonym u32 = "32 word"
type_synonym u64 = "64 word"
type_synonym usize = nat
type_synonym bytes = "u8 list"

definition usize_max :: usize where
  "usize_max = 2 ^ 64 - 1"

definition u16_max :: nat where
  "u16_max = 2 ^ 16 - 1"

definition u32_max :: nat where
  "u32_max = 2 ^ 32 - 1"

text \<open>The bytes of a string literal; the sources only use ASCII literals.\<close>

definition str :: "string \<Rightarrow> bytes" where
  "str s = map of_char s"

definition saturating_add :: "'a::len word \<Rightarrow> 'a word \<Rightarrow> 'a word" where
  "saturating_add a b = (if unat a + unat b < 2 ^ LENGTH('a) then a + b else - 1)"

definition saturating_sub :: "'a::len word \<Rightarrow> 'a word \<Rightarrow> 'a word" where
  "saturating_sub a b = (if b \<le> a then a - b else 0)"

definition checked_add :: "'a::len word \<Rightarrow> 'a word \<Rightarrow> 'a word option" where
  "checked_add a b = (if unat a + unat b < 2 ^ LENGTH('a) then Some (a + b) else None)"

definition usize_checked_add :: "usize \<Rightarrow> usize \<Rightarrow> usize option" where
  "usize_checked_add a b = (if a + b \<le> usize_max then Some (a + b) else None)"

definition usize_saturating_add :: "usize \<Rightarrow> usize \<Rightarrow> usize" where
  "usize_saturating_add a b = min (a + b) usize_max"

lemma unat_less_exp: "unat w < 2 ^ LENGTH('a)" for w :: "'a::len word"
  by (fact unsigned_less)

lemma unat_saturating_sub [simp]: "unat (saturating_sub a b) = unat a - unat b"
  by (auto simp: saturating_sub_def unat_sub word_le_nat_alt)

lemma unat_saturating_add:
  "unat (saturating_add a b) = min (unat a + unat b) (2 ^ LENGTH('a) - 1)"
  for a b :: "'a::len word"
  by (auto simp: saturating_add_def unat_word_ariths unsigned_minus_1_eq_mask mask_eq_exp_minus_1)

lemma saturating_add_ge: "a \<le> saturating_add a b"
proof -
  have "unat a \<le> 2 ^ LENGTH('a) - 1"
    using unat_less_exp [of a] by linarith
  then show ?thesis
    by (simp add: word_le_nat_alt unat_saturating_add)
qed

lemma checked_add_Some_iff:
  "checked_add a b = Some c \<longleftrightarrow> unat a + unat b < 2 ^ LENGTH('a) \<and> unat c = unat a + unat b"
  for a b c :: "'a::len word"
  by (auto simp: checked_add_def unat_word_ariths word_unat_eq_iff)

lemma unat_min: "unat (min a b) = min (unat a) (unat b)"
  for a b :: "'a::len word"
  by (auto simp: min_def word_le_nat_alt)

subsection \<open>Little-endian bytes\<close>

fun le_bytes :: "nat \<Rightarrow> nat \<Rightarrow> bytes" where
  "le_bytes 0 v = []"
| "le_bytes (Suc n) v = word_of_nat v # le_bytes n (v div 256)"

fun le_val :: "bytes \<Rightarrow> nat" where
  "le_val [] = 0"
| "le_val (b # bs) = unat b + 256 * le_val bs"

definition to_le_bytes :: "'a::len word \<Rightarrow> bytes" where
  "to_le_bytes w = le_bytes (LENGTH('a) div 8) (unat w)"

definition from_le_bytes :: "bytes \<Rightarrow> 'a::len word" where
  "from_le_bytes bs = word_of_nat (le_val bs)"

lemma le_bytes_numeral [simp]:
  "le_bytes (numeral k) v = word_of_nat v # le_bytes (pred_numeral k) (v div 256)"
  unfolding numeral_eq_Suc [of k] by (rule le_bytes.simps)

lemma length_le_bytes [simp]: "length (le_bytes n v) = n"
  by (induction n arbitrary: v) auto

lemma le_val_le_bytes: "le_val (le_bytes n v) = v mod 256 ^ n"
proof (induction n arbitrary: v)
  case 0
  then show ?case by simp
next
  case (Suc n)
  have "unat (word_of_nat v :: u8) = v mod 256"
    by (simp add: unat_of_nat)
  then show ?case
    using Suc by (simp add: mod_mult2_eq)
qed

lemma le_bytes_le_val: "le_bytes (length bs) (le_val bs) = bs"
proof (induction bs)
  case Nil
  then show ?case by simp
next
  case (Cons b bs)
  have b: "unat b < 256"
    using unat_less_exp [of b] by simp
  have "(unat b + 256 * le_val bs) div 256 = le_val bs"
    using b by simp
  moreover have "(word_of_nat (unat b + 256 * le_val bs) :: u8) = b"
  proof -
    have "(256 :: u8) = 0" by simp
    then show ?thesis by (simp only: of_nat_add of_nat_mult of_nat_numeral) simp
  qed
  ultimately show ?case using Cons by simp
qed

lemma le_val_less: "le_val bs < 256 ^ length bs"
proof (induction bs)
  case Nil
  then show ?case by simp
next
  case (Cons b bs)
  have "unat b < 256"
    using unat_less_exp [of b] by simp
  with Cons show ?case by simp
qed

lemma length_to_le_bytes: "length (to_le_bytes (w :: 'a::len word)) = LENGTH('a) div 8"
  by (simp add: to_le_bytes_def)

lemma length_to_le_bytes_ws [simp]:
  "length (to_le_bytes (a :: u16)) = 2"
  "length (to_le_bytes (b :: u32)) = 4"
  "length (to_le_bytes (c :: u64)) = 8"
  by (simp_all add: length_to_le_bytes)

lemma to_le_bytes_nonempty [simp]:
  "to_le_bytes (a :: u16) \<noteq> []"
  "to_le_bytes (b :: u32) \<noteq> []"
  "to_le_bytes (c :: u64) \<noteq> []"
  by (simp_all flip: length_0_conv)

lemma pow256: "(256 :: nat) ^ n = 2 ^ (8 * n)"
  by (simp add: power_mult)

lemma from_to_le_bytes:
  assumes "8 dvd LENGTH('a)"
  shows "from_le_bytes (to_le_bytes (w :: 'a::len word)) = w"
proof -
  have "(256 :: nat) ^ (LENGTH('a) div 8) = 2 ^ LENGTH('a)"
    using assms by (simp add: pow256)
  then have "le_val (le_bytes (LENGTH('a) div 8) (unat w)) = unat w"
    by (simp add: le_val_le_bytes)
  then show ?thesis
    by (simp add: from_le_bytes_def to_le_bytes_def)
qed

lemma from_to_le_bytes_ws [simp]:
  "from_le_bytes (to_le_bytes (a :: u16)) = a"
  "from_le_bytes (to_le_bytes (b :: u32)) = b"
  "from_le_bytes (to_le_bytes (c :: u64)) = c"
  by (simp_all add: from_to_le_bytes)

lemma to_from_le_bytes:
  assumes "8 * length bs = LENGTH('a)"
  shows "to_le_bytes (from_le_bytes bs :: 'a::len word) = bs"
proof -
  have "le_val bs < 2 ^ LENGTH('a)"
    using le_val_less [of bs] assms by (simp add: pow256)
  then have "unat (word_of_nat (le_val bs) :: 'a word) = le_val bs"
    by (simp add: unat_of_nat)
  moreover have "LENGTH('a) div 8 = length bs"
    using assms by simp
  ultimately show ?thesis
    by (simp add: from_le_bytes_def to_le_bytes_def le_bytes_le_val)
qed

lemma to_from_le_bytes_ws:
  "length bs = 2 \<Longrightarrow> to_le_bytes (from_le_bytes bs :: u16) = bs"
  "length bs = 4 \<Longrightarrow> to_le_bytes (from_le_bytes bs :: u32) = bs"
  "length bs = 8 \<Longrightarrow> to_le_bytes (from_le_bytes bs :: u64) = bs"
  by (simp_all add: to_from_le_bytes)

subsection \<open>Decimal rendering\<close>

fun dec :: "nat \<Rightarrow> bytes" where
  "dec n = (if n < 10 then [word_of_nat (48 + n)] else dec (n div 10) @ [word_of_nat (48 + n mod 10)])"

declare dec.simps [simp del]

lemma dec_nonempty [simp]: "dec n \<noteq> []"
  by (subst dec.simps) simp

section \<open>Results\<close>

text \<open>\<^verbatim>\<open>r9p::Error\<close> wraps the bytes of a message; \<^verbatim>\<open>Result<T>\<close> is the sum of an error and
  a value. \<open>and_then\<close> is what \<^verbatim>\<open>?\<close> does between two fallible calls.\<close>

datatype error = Error (error_message: bytes)

type_synonym 'a result = "error + 'a"

definition Error_from :: "string \<Rightarrow> error" where
  "Error_from s = Error (str s)"

definition and_then :: "'a result \<Rightarrow> ('a \<Rightarrow> 'b result) \<Rightarrow> 'b result" where
  "and_then m f = (case m of Inl e \<Rightarrow> Inl e | Inr x \<Rightarrow> f x)"

definition ok_or :: "'a option \<Rightarrow> error \<Rightarrow> 'a result" where
  "ok_or x e = (case x of None \<Rightarrow> Inl e | Some v \<Rightarrow> Inr v)"

definition ensure :: "bool \<Rightarrow> error \<Rightarrow> unit result" where
  "ensure b e = (if b then Inr () else Inl e)"

definition map_ok :: "('a \<Rightarrow> 'b) \<Rightarrow> 'a result \<Rightarrow> 'b result" where
  "map_ok f m = and_then m (\<lambda>x. Inr (f x))"

fun for_each :: "('a \<Rightarrow> unit result) \<Rightarrow> 'a list \<Rightarrow> unit result" where
  "for_each f [] = Inr ()"
| "for_each f (x # xs) = and_then (f x) (\<lambda>_. for_each f xs)"

named_theorems result_simps \<open>rewriting through the propagation of errors\<close>

lemma and_then_simps [simp, result_simps]:
  "and_then (Inl e) f = Inl e"
  "and_then (Inr x) f = f x"
  by (simp_all add: and_then_def)

lemma and_then_Inr_iff [result_simps]:
  "and_then m f = Inr y \<longleftrightarrow> (\<exists>x. m = Inr x \<and> f x = Inr y)"
  by (cases m) simp_all

lemma and_then_cong [fundef_cong]:
  "m = m' \<Longrightarrow> (\<And>x. m' = Inr x \<Longrightarrow> f x = g x) \<Longrightarrow> and_then m f = and_then m' g"
  by (cases m') simp_all

lemma map_ok_simps [simp, result_simps]:
  "map_ok f (Inl e) = Inl e"
  "map_ok f (Inr x) = Inr (f x)"
  by (simp_all add: map_ok_def)

lemma map_ok_Inr_iff [result_simps]: "map_ok f m = Inr y \<longleftrightarrow> (\<exists>x. m = Inr x \<and> y = f x)"
  by (cases m) auto

lemma ensure_simps [simp, result_simps]:
  "ensure b e = Inr u \<longleftrightarrow> b"
  "ensure True e = Inr ()"
  "ensure False e = Inl e"
  by (simp_all add: ensure_def)

lemma ok_or_simps [simp, result_simps]:
  "ok_or (Some v) e = Inr v"
  "ok_or None e = Inl e"
  "ok_or x e = Inr w \<longleftrightarrow> x = Some w"
  by (auto simp: ok_or_def split: option.splits)

lemma for_each_Inr_iff [simp, result_simps]:
  "for_each f xs = Inr u \<longleftrightarrow> (\<forall>x \<in> set xs. f x = Inr ())"
  by (induction xs) (auto simp: and_then_Inr_iff)

section \<open>Stateful results\<close>

text \<open>A method taking \<^verbatim>\<open>&mut self\<close> and returning \<^verbatim>\<open>Result<T>\<close>: the state after the call
  is returned in both cases, since Rust keeps the mutations made before an early return.\<close>

type_synonym ('s, 'a) fallible = "'s \<Rightarrow> 'a result \<times> 's"

definition return_s :: "'a \<Rightarrow> ('s, 'a) fallible" where
  "return_s x = (\<lambda>s. (Inr x, s))"

definition throw_s :: "error \<Rightarrow> ('s, 'a) fallible" where
  "throw_s e = (\<lambda>s. (Inl e, s))"

definition bind_s :: "('s, 'a) fallible \<Rightarrow> ('a \<Rightarrow> ('s, 'b) fallible) \<Rightarrow> ('s, 'b) fallible" where
  "bind_s m f = (\<lambda>s. case m s of (Inl e, s') \<Rightarrow> (Inl e, s') | (Inr x, s') \<Rightarrow> f x s')"

definition lift_s :: "'a result \<Rightarrow> ('s, 'a) fallible" where
  "lift_s r = (\<lambda>s. (r, s))"

definition read_s :: "('s \<Rightarrow> 'a result) \<Rightarrow> ('s, 'a) fallible" where
  "read_s f = (\<lambda>s. (f s, s))"

definition modify_s :: "('s \<Rightarrow> 's) \<Rightarrow> ('s, unit) fallible" where
  "modify_s f = (\<lambda>s. (Inr (), f s))"

lemma bind_s_Inr_iff [result_simps]:
  "bind_s m f s = (Inr y, t) \<longleftrightarrow> (\<exists>x s'. m s = (Inr x, s') \<and> f x s' = (Inr y, t))"
  by (auto simp: bind_s_def split: prod.splits sum.splits)

lemma bind_s_Inl_iff:
  "bind_s m f s = (Inl e, t) \<longleftrightarrow>
     m s = (Inl e, t) \<or> (\<exists>x s'. m s = (Inr x, s') \<and> f x s' = (Inl e, t))"
  by (auto simp: bind_s_def split: prod.splits sum.splits)

lemma bind_s_eval:
  "m s = (Inr x, s') \<Longrightarrow> bind_s m f s = f x s'"
  "m s = (Inl e, s') \<Longrightarrow> bind_s m f s = (Inl e, s')"
  by (simp_all add: bind_s_def)

lemma bind_s_cong [fundef_cong]:
  "m s = m' s' \<Longrightarrow> (\<And>x t. m' s' = (Inr x, t) \<Longrightarrow> f x t = g x t) \<Longrightarrow> s = s'
   \<Longrightarrow> bind_s m f s = bind_s m' g s'"
  by (auto simp: bind_s_def split: prod.splits sum.splits)

lemma stateful_simps [result_simps]:
  "return_s x s = (Inr x, s)"
  "throw_s e s = (Inl e, s)"
  "lift_s r s = (r, s)"
  "read_s h s = (h s, s)"
  "modify_s g s = (Inr (), g s)"
  by (simp_all add: return_s_def throw_s_def lift_s_def read_s_def modify_s_def)

lemma bind_return_s [simp]: "bind_s (return_s x) f = f x"
  by (simp add: bind_s_def stateful_simps)

lemma bind_throw_s [simp]: "bind_s (throw_s e) f = throw_s e"
  by (simp add: bind_s_def stateful_simps fun_eq_iff)

lemma bind_lift_s [simp]:
  "bind_s (lift_s (Inr x)) f = f x"
  "bind_s (lift_s (Inl e)) f = throw_s e"
  by (simp_all add: bind_s_def stateful_simps fun_eq_iff)

lemma bind_modify_s [simp]: "bind_s (modify_s g) f s = f () (g s)"
  by (simp add: bind_s_def stateful_simps)

section \<open>Finite maps as the ordered maps of the sources\<close>

lemma fmdom_fmfilter [simp]: "fmdom (fmfilter P m) = ffilter P (fmdom m)"
  by (simp add: fmfilter_alt_defs)

lemma fcard_finsert_new: "x |\<notin>| A \<Longrightarrow> fcard (finsert x A) = Suc (fcard A)"
  by (simp add: fcard_finsert_disjoint)

lemma fcard_fminus_one: "x |\<in>| A \<Longrightarrow> Suc (fcard (A |-| {|x|})) = fcard A"
  by (metis fcard_Suc_fminus1)

end
