(* ===== verification/R9P_Types.thy ===== *)
theory R9P_Types
  imports R9P_Prelude
begin

text \<open>
  The data of the protocol core: error strings (\<^verbatim>\<open>error.rs\<close>), qids and their type bits
  (\<^verbatim>\<open>qid.rs\<close>), open modes (\<^verbatim>\<open>mode.rs\<close>), fids (\<^verbatim>\<open>fid.rs\<close>), stat records (\<^verbatim>\<open>stat.rs\<close>),
  namespace referrals as data (\<^verbatim>\<open>referral.rs\<close>) and the two message types (\<^verbatim>\<open>message.rs\<close>).
\<close>

section \<open>Error strings\<close>

definition EPERM :: bytes where "EPERM = str ''permission denied''"
definition ENOENT :: bytes where "ENOENT = str ''file does not exist''"
definition ENOTDIR :: bytes where "ENOTDIR = str ''not a directory''"
definition EBADTAG :: bytes where "EBADTAG = str ''invalid tag''"
definition EDUPTAG :: bytes where "EDUPTAG = str ''duplicate tag''"
definition EBADFID :: bytes where "EBADFID = str ''unknown fid''"
definition EFIDINUSE :: bytes where "EFIDINUSE = str ''fid already in use''"
definition EFIDLIMIT :: bytes where "EFIDLIMIT = str ''fid limit exceeded''"
definition EFIDBUSY :: bytes where "EFIDBUSY = str ''fid busy''"
definition EFIDOPEN :: bytes where "EFIDOPEN = str ''fid already open''"
definition EFIDNOTOPEN :: bytes where
  "EFIDNOTOPEN = str ''fid not open for requested operation''"
definition EBADWNAME :: bytes where "EBADWNAME = str ''bad walk name''"
definition EBADMODE :: bytes where "EBADMODE = str ''invalid open mode''"
definition EBADDIROFFSET :: bytes where "EBADDIROFFSET = str ''invalid directory offset''"
definition EBADMSIZE :: bytes where "EBADMSIZE = str ''version: message size too small''"
definition ENOAUTH :: bytes where "ENOAUTH = str ''authentication not required''"
definition EWSTATTYPE :: bytes where "EWSTATTYPE = str ''wstat -- attempt to change type''"
definition EWSTATDEV :: bytes where "EWSTATDEV = str ''wstat -- attempt to change dev''"
definition EWSTATQID :: bytes where "EWSTATQID = str ''wstat -- attempt to change qid''"
definition EWSTATATIME :: bytes where "EWSTATATIME = str ''wstat -- attempt to change atime''"
definition EWSTATUID :: bytes where "EWSTATUID = str ''wstat -- attempt to change uid''"
definition EWSTATMUID :: bytes where "EWSTATMUID = str ''wstat -- attempt to change muid''"
definition EWSTATDMDIR :: bytes where
  "EWSTATDMDIR = str ''wstat -- attempt to change DMDIR bit''"
definition EWSTATDMSYMLINK :: bytes where
  "EWSTATDMSYMLINK = str ''wstat -- attempt to change DMSYMLINK bit''"
definition EWSTATDIRLENGTH :: bytes where
  "EWSTATDIRLENGTH = str ''wstat -- attempt to set non-zero directory length''"
definition ESYMLINKDIALECT :: bytes where
  "ESYMLINKDIALECT = str ''symlink metadata requires negotiated 9P2000.R''"

section \<open>Qids\<close>

definition QTFILE :: u8 where "QTFILE = 0x00"
definition QTDIR :: u8 where "QTDIR = 0x80"
definition QTAPPEND :: u8 where "QTAPPEND = 0x40"
definition QTAUTH :: u8 where "QTAUTH = 0x08"
definition QTSYMLINK :: u8 where "QTSYMLINK = 0x02"
definition DMDIR :: u32 where "DMDIR = 0x80000000"
definition DMSYMLINK :: u32 where "DMSYMLINK = 0x02000000"

record qid =
  qtype :: u8
  qversion :: u32
  qpath :: u64

definition Qid_new :: "u8 \<Rightarrow> u32 \<Rightarrow> u64 \<Rightarrow> qid" where
  "Qid_new t v p = \<lparr>qtype = t, qversion = v, qpath = p\<rparr>"

definition Qid_file :: "u64 \<Rightarrow> qid" where "Qid_file p = Qid_new QTFILE 0 p"
definition Qid_dir :: "u64 \<Rightarrow> qid" where "Qid_dir p = Qid_new QTDIR 0 p"
definition Qid_append :: "u64 \<Rightarrow> qid" where "Qid_append p = Qid_new QTAPPEND 0 p"
definition Qid_auth :: "u64 \<Rightarrow> qid" where "Qid_auth p = Qid_new QTAUTH 0 p"

definition is_dir :: "qid \<Rightarrow> bool" where "is_dir q \<longleftrightarrow> qtype q AND QTDIR \<noteq> 0"
definition is_auth :: "qid \<Rightarrow> bool" where "is_auth q \<longleftrightarrow> qtype q AND QTAUTH \<noteq> 0"
definition is_symlink :: "qid \<Rightarrow> bool" where "is_symlink q \<longleftrightarrow> qtype q AND QTSYMLINK \<noteq> 0"

section \<open>Open modes\<close>

definition OREAD :: u8 where "OREAD = 0"
definition OWRITE :: u8 where "OWRITE = 1"
definition ORDWR :: u8 where "ORDWR = 2"
definition OEXEC :: u8 where "OEXEC = 3"
definition OTRUNC :: u8 where "OTRUNC = 0x10"
definition ORCLOSE :: u8 where "ORCLOSE = 0x40"
definition ACCESS_MASK :: u8 where "ACCESS_MASK = 0x03"
definition KNOWN_MODE_BITS :: u8 where "KNOWN_MODE_BITS = ACCESS_MASK OR OTRUNC OR ORCLOSE"

definition mode_is_valid :: "u8 \<Rightarrow> bool" where
  "mode_is_valid m \<longleftrightarrow> m AND NOT KNOWN_MODE_BITS = 0"

definition permits_read :: "u8 \<Rightarrow> bool" where
  "permits_read m \<longleftrightarrow> m AND ACCESS_MASK \<in> {OREAD, ORDWR, OEXEC}"

definition permits_write :: "u8 \<Rightarrow> bool" where
  "permits_write m \<longleftrightarrow> m AND ACCESS_MASK \<in> {OWRITE, ORDWR}"

definition is_directory_mode :: "u8 \<Rightarrow> bool" where
  "is_directory_mode m \<longleftrightarrow> mode_is_valid m \<and> m AND NOT ORCLOSE = OREAD"

lemmas mode_defs = OREAD_def OWRITE_def ORDWR_def OEXEC_def OTRUNC_def ORCLOSE_def ACCESS_MASK_def
  KNOWN_MODE_BITS_def mode_is_valid_def permits_read_def permits_write_def is_directory_mode_def

section \<open>Fids\<close>

type_synonym fid = u32

definition NOFID :: fid where "NOFID = - 1"

record fid_state =
  fid_qid :: qid
  open_mode :: "u8 option"
  directory_offset :: u64

definition FidState_new :: "qid \<Rightarrow> fid_state" where
  "FidState_new q = \<lparr>fid_qid = q, open_mode = None, directory_offset = 0\<rparr>"

definition FidState_opened :: "qid \<Rightarrow> u8 \<Rightarrow> fid_state" where
  "FidState_opened q m = \<lparr>fid_qid = q, open_mode = Some m, directory_offset = 0\<rparr>"

definition with_directory_offset :: "fid_state \<Rightarrow> u64 \<Rightarrow> fid_state" where
  "with_directory_offset s off = s\<lparr>directory_offset := off\<rparr>"

lemma FidState_simps [simp]:
  "fid_qid (FidState_new q) = q" "open_mode (FidState_new q) = None"
  "directory_offset (FidState_new q) = 0"
  "fid_qid (FidState_opened q m) = q" "open_mode (FidState_opened q m) = Some m"
  "directory_offset (FidState_opened q m) = 0"
  "fid_qid (with_directory_offset s off) = fid_qid s"
  "open_mode (with_directory_offset s off) = open_mode s"
  "directory_offset (with_directory_offset s off) = off"
  by (simp_all add: FidState_new_def FidState_opened_def with_directory_offset_def)

section \<open>Stat records and referrals\<close>

record stat =
  stat_type :: u16
  stat_dev :: u32
  stat_qid :: qid
  stat_mode :: u32
  stat_atime :: u32
  stat_mtime :: u32
  stat_length :: u64
  stat_name :: bytes
  stat_uid :: bytes
  stat_gid :: bytes
  stat_muid :: bytes

definition Stat_new :: "bytes \<Rightarrow> qid \<Rightarrow> u32 \<Rightarrow> stat" where
  "Stat_new name q mode =
     \<lparr>stat_type = 0, stat_dev = 0, stat_qid = q, stat_mode = mode, stat_atime = 0,
      stat_mtime = 0, stat_length = 0, stat_name = name, stat_uid = str ''none'',
      stat_gid = str ''none'', stat_muid = str ''none''\<rparr>"

definition null_wstat :: stat where
  "null_wstat =
     \<lparr>stat_type = - 1, stat_dev = - 1, stat_qid = Qid_new (- 1) (- 1) (- 1), stat_mode = - 1,
      stat_atime = - 1, stat_mtime = - 1, stat_length = - 1, stat_name = [], stat_uid = [],
      stat_gid = [], stat_muid = []\<rparr>"

record namespace_referral =
  mount_path :: bytes
  endpoint :: bytes
  ref_uname :: bytes
  ref_aname :: bytes
  exported_root :: bytes
  authority_boundary :: bytes
  generation :: u64
  valid_for_ms :: u64

section \<open>Messages\<close>

type_synonym tag = u16

definition NOTAG :: tag where "NOTAG = - 1"
definition MAXWELEM :: usize where "MAXWELEM = 16"

definition TRENAMEAT :: u8 where "TRENAMEAT = 74"
definition RRENAMEAT :: u8 where "RRENAMEAT = 75"
definition TVERSION :: u8 where "TVERSION = 100"
definition RVERSION :: u8 where "RVERSION = 101"
definition TAUTH :: u8 where "TAUTH = 102"
definition RAUTH :: u8 where "RAUTH = 103"
definition TATTACH :: u8 where "TATTACH = 104"
definition RATTACH :: u8 where "RATTACH = 105"
definition RERROR :: u8 where "RERROR = 107"
definition TFLUSH :: u8 where "TFLUSH = 108"
definition RFLUSH :: u8 where "RFLUSH = 109"
definition TWALK :: u8 where "TWALK = 110"
definition RWALK :: u8 where "RWALK = 111"
definition TOPEN :: u8 where "TOPEN = 112"
definition ROPEN :: u8 where "ROPEN = 113"
definition TCREATE :: u8 where "TCREATE = 114"
definition RCREATE :: u8 where "RCREATE = 115"
definition TREAD :: u8 where "TREAD = 116"
definition RREAD :: u8 where "RREAD = 117"
definition TWRITE :: u8 where "TWRITE = 118"
definition RWRITE :: u8 where "RWRITE = 119"
definition TCLUNK :: u8 where "TCLUNK = 120"
definition RCLUNK :: u8 where "RCLUNK = 121"
definition TREMOVE :: u8 where "TREMOVE = 122"
definition RREMOVE :: u8 where "RREMOVE = 123"
definition TSTAT :: u8 where "TSTAT = 124"
definition RSTAT :: u8 where "RSTAT = 125"
definition TWSTAT :: u8 where "TWSTAT = 126"
definition RWSTAT :: u8 where "RWSTAT = 127"
definition TREFERRALS :: u8 where "TREFERRALS = 200"
definition RREFERRALS :: u8 where "RREFERRALS = 201"

lemmas t_type_defs = TVERSION_def TAUTH_def TATTACH_def TFLUSH_def TWALK_def TOPEN_def TCREATE_def
  TREAD_def TWRITE_def TCLUNK_def TREMOVE_def TSTAT_def TWSTAT_def TRENAMEAT_def TREFERRALS_def

lemmas r_type_defs = RVERSION_def RAUTH_def RATTACH_def RERROR_def RFLUSH_def RWALK_def ROPEN_def
  RCREATE_def RREAD_def RWRITE_def RCLUNK_def RREMOVE_def RSTAT_def RWSTAT_def RRENAMEAT_def
  RREFERRALS_def

datatype tmessage =
    T_Version tag u32 bytes
  | T_Auth tag fid bytes bytes
  | T_Attach tag fid fid bytes bytes
  | T_Flush tag tag
  | T_Walk tag fid fid "bytes list"
  | T_Open tag fid u8
  | T_Create tag fid bytes u32 u8
  | T_Read tag fid u64 u32
  | T_Write tag fid u64 bytes
  | T_Clunk tag fid
  | T_Remove tag fid
  | T_Stat tag fid
  | T_Wstat tag fid stat
  | T_RenameAt tag fid bytes fid bytes
  | T_Referrals tag fid

fun t_tag :: "tmessage \<Rightarrow> tag" where
  "t_tag (T_Version tag _ _) = tag"
| "t_tag (T_Auth tag _ _ _) = tag"
| "t_tag (T_Attach tag _ _ _ _) = tag"
| "t_tag (T_Flush tag _) = tag"
| "t_tag (T_Walk tag _ _ _) = tag"
| "t_tag (T_Open tag _ _) = tag"
| "t_tag (T_Create tag _ _ _ _) = tag"
| "t_tag (T_Read tag _ _ _) = tag"
| "t_tag (T_Write tag _ _ _) = tag"
| "t_tag (T_Clunk tag _) = tag"
| "t_tag (T_Remove tag _) = tag"
| "t_tag (T_Stat tag _) = tag"
| "t_tag (T_Wstat tag _ _) = tag"
| "t_tag (T_RenameAt tag _ _ _ _) = tag"
| "t_tag (T_Referrals tag _) = tag"

fun t_message_type :: "tmessage \<Rightarrow> u8" where
  "t_message_type (T_Version _ _ _) = TVERSION"
| "t_message_type (T_Auth _ _ _ _) = TAUTH"
| "t_message_type (T_Attach _ _ _ _ _) = TATTACH"
| "t_message_type (T_Flush _ _) = TFLUSH"
| "t_message_type (T_Walk _ _ _ _) = TWALK"
| "t_message_type (T_Open _ _ _) = TOPEN"
| "t_message_type (T_Create _ _ _ _ _) = TCREATE"
| "t_message_type (T_Read _ _ _ _) = TREAD"
| "t_message_type (T_Write _ _ _ _) = TWRITE"
| "t_message_type (T_Clunk _ _) = TCLUNK"
| "t_message_type (T_Remove _ _) = TREMOVE"
| "t_message_type (T_Stat _ _) = TSTAT"
| "t_message_type (T_Wstat _ _ _) = TWSTAT"
| "t_message_type (T_RenameAt _ _ _ _ _) = TRENAMEAT"
| "t_message_type (T_Referrals _ _) = TREFERRALS"

datatype rmessage =
    R_Version tag u32 bytes
  | R_Auth tag qid
  | R_Attach tag qid
  | R_Error tag bytes
  | R_Flush tag
  | R_Walk tag "qid list"
  | R_Open tag qid u32
  | R_Create tag qid u32
  | R_Read tag bytes
  | R_Write tag u32
  | R_Clunk tag
  | R_Remove tag
  | R_Stat tag stat
  | R_Wstat tag
  | R_RenameAt tag
  | R_Referrals tag "namespace_referral list"

fun r_tag :: "rmessage \<Rightarrow> tag" where
  "r_tag (R_Version tag _ _) = tag"
| "r_tag (R_Auth tag _) = tag"
| "r_tag (R_Attach tag _) = tag"
| "r_tag (R_Error tag _) = tag"
| "r_tag (R_Flush tag) = tag"
| "r_tag (R_Walk tag _) = tag"
| "r_tag (R_Open tag _ _) = tag"
| "r_tag (R_Create tag _ _) = tag"
| "r_tag (R_Read tag _) = tag"
| "r_tag (R_Write tag _) = tag"
| "r_tag (R_Clunk tag) = tag"
| "r_tag (R_Remove tag) = tag"
| "r_tag (R_Stat tag _) = tag"
| "r_tag (R_Wstat tag) = tag"
| "r_tag (R_RenameAt tag) = tag"
| "r_tag (R_Referrals tag _) = tag"

fun r_message_type :: "rmessage \<Rightarrow> u8" where
  "r_message_type (R_Version _ _ _) = RVERSION"
| "r_message_type (R_Auth _ _) = RAUTH"
| "r_message_type (R_Attach _ _) = RATTACH"
| "r_message_type (R_Error _ _) = RERROR"
| "r_message_type (R_Flush _) = RFLUSH"
| "r_message_type (R_Walk _ _) = RWALK"
| "r_message_type (R_Open _ _ _) = ROPEN"
| "r_message_type (R_Create _ _ _) = RCREATE"
| "r_message_type (R_Read _ _) = RREAD"
| "r_message_type (R_Write _ _) = RWRITE"
| "r_message_type (R_Clunk _) = RCLUNK"
| "r_message_type (R_Remove _) = RREMOVE"
| "r_message_type (R_Stat _ _) = RSTAT"
| "r_message_type (R_Wstat _) = RWSTAT"
| "r_message_type (R_RenameAt _) = RRENAMEAT"
| "r_message_type (R_Referrals _ _) = RREFERRALS"

end
