(* ===== verification/R9P_Request_Table.thy ===== *)
theory R9P_Request_Table
  imports R9P_Types
begin

text \<open>
  The table of live requests (\<^verbatim>\<open>flush.rs\<close>): a tag is live from \<open>begin\<close> to \<open>finish\<close>,
  \<open>flush\<close> or \<open>reset\<close>, and the generation in its key tells a late completion from the request
  that reused the tag. The locale \<open>single_use_keys\<close> is what the server relies on: a key that has
  been retired stays retired whatever happens to the table next.
\<close>

section \<open>The table\<close>

record request_key =
  key_tag :: tag
  key_generation :: u64

datatype flush_outcome = Cancelled request_key | Unknown

record request_table =
  next_generation :: u64
  live :: "(tag, request_key) fmap"

definition RequestTable_new :: request_table where
  "RequestTable_new = \<lparr>next_generation = 0, live = fmempty\<rparr>"

definition is_live :: "request_table \<Rightarrow> tag \<Rightarrow> bool" where
  "is_live t tag \<longleftrightarrow> fmlookup (live t) tag \<noteq> None"

definition table_begin :: "tag \<Rightarrow> (request_table, request_key) fallible" where
  "table_begin tag t =
     (if tag = NOTAG then (Inl (Error EBADTAG), t)
      else if fmlookup (live t) tag \<noteq> None then (Inl (Error EDUPTAG), t)
      else let key = \<lparr>key_tag = tag, key_generation = next_generation t\<rparr> in
        (Inr key, t\<lparr>next_generation := saturating_add (next_generation t) 1,
                    live := fmupd tag key (live t)\<rparr>))"

definition table_finish :: "request_key \<Rightarrow> request_table \<Rightarrow> bool \<times> request_table" where
  "table_finish key t =
     (if fmlookup (live t) (key_tag key) = Some key
      then (True, t\<lparr>live := fmdrop (key_tag key) (live t)\<rparr>)
      else (False, t))"

definition table_flush :: "tag \<Rightarrow> (request_table, flush_outcome) fallible" where
  "table_flush oldtag t =
     (if oldtag = NOTAG then (Inl (Error EBADTAG), t)
      else (Inr (case fmlookup (live t) oldtag of Some key \<Rightarrow> Cancelled key | None \<Rightarrow> Unknown),
            t\<lparr>live := fmdrop oldtag (live t)\<rparr>))"

definition table_reset :: "request_table \<Rightarrow> request_table" where
  "table_reset t = t\<lparr>live := fmempty, next_generation := saturating_add (next_generation t) 1\<rparr>"

lemmas table_defs = table_begin_def table_finish_def table_flush_def table_reset_def

section \<open>Invariant\<close>

definition current :: "request_table \<Rightarrow> request_key \<Rightarrow> bool" where
  "current t k \<longleftrightarrow> fmlookup (live t) (key_tag k) = Some k"

text \<open>Every live key is filed under its own tag, no live tag is \<open>NOTAG\<close>, and no live key is newer
  than the counter.\<close>

definition table_ok :: "request_table \<Rightarrow> bool" where
  "table_ok t \<longleftrightarrow>
     (\<forall>tag k. fmlookup (live t) tag = Some k \<longrightarrow>
        key_tag k = tag \<and> tag \<noteq> NOTAG \<and> key_generation k \<le> next_generation t)"

definition retired :: "request_table \<Rightarrow> request_key \<Rightarrow> bool" where
  "retired t k \<longleftrightarrow> \<not> current t k \<and> key_generation k < next_generation t"

lemma table_ok_new: "table_ok RequestTable_new"
  by (simp add: table_ok_def RequestTable_new_def)

lemma saturating_succ_mono: "g \<le> n \<Longrightarrow> g \<le> saturating_add n (1 :: u64)"
  using saturating_add_ge [of n 1] by simp

lemma saturating_succ_less: "g < n \<Longrightarrow> g < saturating_add n (1 :: u64)"
  using saturating_add_ge [of n 1] by simp

lemma saturating_succ_gt: "n \<noteq> - 1 \<Longrightarrow> n < saturating_add n (1 :: u64)"
proof -
  assume "n \<noteq> - 1"
  then have "unat n < 2 ^ 64 - 1"
    using unat_less_exp [of n] by (simp add: word_unat_eq_iff unsigned_minus_1_eq_mask mask_eq_exp_minus_1)
  then show ?thesis
    by (simp add: word_less_nat_alt unat_saturating_add)
qed

lemma table_okI:
  "(\<And>tag k. fmlookup (live t) tag = Some k \<Longrightarrow>
     key_tag k = tag \<and> tag \<noteq> NOTAG \<and> key_generation k \<le> next_generation t) \<Longrightarrow> table_ok t"
  by (simp add: table_ok_def)

lemma table_okD:
  "table_ok t \<Longrightarrow> fmlookup (live t) tag = Some k \<Longrightarrow>
     key_tag k = tag \<and> tag \<noteq> NOTAG \<and> key_generation k \<le> next_generation t"
  unfolding table_ok_def by blast

lemma table_ok_begin: "table_ok t \<Longrightarrow> table_ok (snd (table_begin tag t))"
  by (rule table_okI)
    (auto simp: table_begin_def Let_def saturating_add_ge split: if_splits
      dest: table_okD intro: saturating_succ_mono)

lemma table_ok_finish: "table_ok t \<Longrightarrow> table_ok (snd (table_finish k t))"
  by (rule table_okI) (auto simp: table_finish_def split: if_splits dest: table_okD)

lemma table_ok_flush: "table_ok t \<Longrightarrow> table_ok (snd (table_flush tag t))"
  by (rule table_okI) (auto simp: table_flush_def split: if_splits dest: table_okD)

lemma table_ok_reset: "table_ok (table_reset t)"
  by (simp add: table_ok_def table_reset_def)

section \<open>Keys are used once\<close>

text \<open>The operations of the table as one alphabet.\<close>

datatype table_op = Begin_op tag | Finish_op request_key | Flush_op tag | Reset_op

fun table_step :: "table_op \<Rightarrow> request_table \<Rightarrow> request_table" where
  "table_step (Begin_op tag) t = snd (table_begin tag t)"
| "table_step (Finish_op k) t = snd (table_finish k t)"
| "table_step (Flush_op tag) t = snd (table_flush tag t)"
| "table_step Reset_op t = table_reset t"

locale single_use_keys =
  fixes step :: "'op \<Rightarrow> 't \<Rightarrow> 't"
    and used :: "'t \<Rightarrow> 'k \<Rightarrow> bool"
    and accepts :: "'t \<Rightarrow> 'k \<Rightarrow> bool"
  assumes used_step: "used t k \<Longrightarrow> used (step op t) k"
    and used_rejected: "used t k \<Longrightarrow> \<not> accepts t k"
begin

lemma used_run: "used t k \<Longrightarrow> used (fold step ops t) k"
  by (induction ops arbitrary: t) (auto intro: used_step)

lemma rejected_forever: "used t k \<Longrightarrow> \<not> accepts (fold step ops t) k"
  by (rule used_rejected, rule used_run)

end

lemma retired_step:
  assumes "retired t k"
  shows "retired (table_step op t) k"
proof (cases op)
  case (Begin_op tag)
  have "k \<noteq> \<lparr>key_tag = tag, key_generation = next_generation t\<rparr>"
    using assms by (auto simp: retired_def)
  then show ?thesis
    using assms Begin_op
    by (auto simp: retired_def current_def table_begin_def Let_def saturating_succ_less)
next
  case (Finish_op k')
  then show ?thesis
    using assms by (auto simp: retired_def current_def table_finish_def)
next
  case (Flush_op tag)
  then show ?thesis
    using assms by (auto simp: retired_def current_def table_flush_def)
next
  case Reset_op
  then show ?thesis
    using assms by (auto simp: retired_def current_def table_reset_def saturating_succ_less)
qed

interpretation table_keys: single_use_keys table_step retired "\<lambda>t k. fst (table_finish k t)"
  by unfold_locales (auto simp: retired_step, simp add: retired_def current_def table_finish_def)

text \<open>How keys come to be live and how they are retired.\<close>

lemma begin_current:
  assumes "table_begin tag t = (Inr k, t')"
  shows "key_tag k = tag" and "tag \<noteq> NOTAG" and "current t' k" and "\<not> is_live t tag"
    and "key_generation k = next_generation t"
    and "next_generation t \<noteq> - 1 \<Longrightarrow> key_generation k < next_generation t'"
  using assms
  by (auto simp: table_begin_def current_def is_live_def Let_def saturating_succ_gt split: if_splits)

lemma finish_retires:
  "fst (table_finish k t) \<longleftrightarrow> current t k"
  "\<not> current (snd (table_finish k t)) k"
  by (auto simp: table_finish_def current_def)

lemma finish_others: "k' \<noteq> k \<Longrightarrow> current (snd (table_finish k t)) k' \<longleftrightarrow> current t k'"
  by (auto simp: table_finish_def current_def)

lemma flush_retires: "oldtag \<noteq> NOTAG \<Longrightarrow> key_tag k = oldtag \<Longrightarrow> \<not> current (snd (table_flush oldtag t)) k"
  by (simp add: table_flush_def current_def)

end
