(* ===== verification/R9P_Wire.thy ===== *)
theory R9P_Wire
  imports R9P_Types
begin

text \<open>
  The field level of the wire format (\<^verbatim>\<open>stat.rs\<close>, lines 157 to 246): the \<open>push_*\<close> writers,
  the \<open>Cursor\<close> reader, and the contract between a writer and a reader as the locale
  \<open>field_codec\<close>. The contract has both directions: what a writer produced is read back, and
  what a reader accepted is exactly what the writer produces for the value it returned.
  Sequences of fields (the \<^verbatim>\<open>for\<close> loops of the codec) satisfy it once their element does.
\<close>

section \<open>Writers\<close>

definition push_u8 :: "bytes \<Rightarrow> u8 \<Rightarrow> bytes" where
  "push_u8 out v = out @ [v]"

definition push_u16 :: "bytes \<Rightarrow> u16 \<Rightarrow> bytes" where
  "push_u16 out v = out @ to_le_bytes v"

definition push_u32 :: "bytes \<Rightarrow> u32 \<Rightarrow> bytes" where
  "push_u32 out v = out @ to_le_bytes v"

definition push_u64 :: "bytes \<Rightarrow> u64 \<Rightarrow> bytes" where
  "push_u64 out v = out @ to_le_bytes v"

definition push_qid :: "bytes \<Rightarrow> qid \<Rightarrow> bytes" where
  "push_qid out q = push_u64 (push_u32 (push_u8 out (qtype q)) (qversion q)) (qpath q)"

text \<open>\<^verbatim>\<open>u16::try_from(n)\<close> and \<^verbatim>\<open>u32::try_from(n)\<close> on a \<open>usize\<close>.\<close>

definition u16_try_from :: "usize \<Rightarrow> u16 option" where
  "u16_try_from n = (if n \<le> u16_max then Some (word_of_nat n) else None)"

definition u32_try_from :: "usize \<Rightarrow> u32 option" where
  "u32_try_from n = (if n \<le> u32_max then Some (word_of_nat n) else None)"

definition push_string :: "bytes \<Rightarrow> bytes \<Rightarrow> bytes result" where
  "push_string out v =
     and_then (ok_or (u16_try_from (length v)) (Error_from ''string too large''))
       (\<lambda>len. Inr (push_u16 out len @ v))"

fun push_each :: "(bytes \<Rightarrow> 'a \<Rightarrow> bytes result) \<Rightarrow> bytes \<Rightarrow> 'a list \<Rightarrow> bytes result" where
  "push_each f out [] = Inr out"
| "push_each f out (x # xs) = and_then (f out x) (\<lambda>out. push_each f out xs)"

section \<open>The cursor\<close>

record cursor =
  cur_data :: bytes
  cur_position :: usize

definition Cursor_new :: "bytes \<Rightarrow> cursor" where
  "Cursor_new d = \<lparr>cur_data = d, cur_position = 0\<rparr>"

definition remaining :: "cursor \<Rightarrow> usize" where
  "remaining c = length (cur_data c) - cur_position c"

definition cursor_take :: "usize \<Rightarrow> (cursor, bytes) fallible" where
  "cursor_take len c =
     (case usize_checked_add (cur_position c) len of
        None \<Rightarrow> (Inl (Error_from ''frame offset overflow''), c)
      | Some e \<Rightarrow>
          (if e \<le> length (cur_data c)
           then (Inr (take len (drop (cur_position c) (cur_data c))), c\<lparr>cur_position := e\<rparr>)
           else (Inl (Error_from ''truncated frame''), c)))"

definition cursor_u8 :: "(cursor, u8) fallible" where
  "cursor_u8 = bind_s (cursor_take 1) (\<lambda>b. return_s (b ! 0))"

definition cursor_u16 :: "(cursor, u16) fallible" where
  "cursor_u16 = bind_s (cursor_take 2) (\<lambda>b. return_s (from_le_bytes b))"

definition cursor_u32 :: "(cursor, u32) fallible" where
  "cursor_u32 = bind_s (cursor_take 4) (\<lambda>b. return_s (from_le_bytes b))"

definition cursor_u64 :: "(cursor, u64) fallible" where
  "cursor_u64 = bind_s (cursor_take 8) (\<lambda>b. return_s (from_le_bytes b))"

definition cursor_qid :: "(cursor, qid) fallible" where
  "cursor_qid =
     bind_s cursor_u8 (\<lambda>t. bind_s cursor_u32 (\<lambda>v. bind_s cursor_u64 (\<lambda>p.
       return_s (Qid_new t v p))))"

definition cursor_string :: "(cursor, bytes) fallible" where
  "cursor_string = bind_s cursor_u16 (\<lambda>len. cursor_take (unat len))"

definition cursor_bytes :: "usize \<Rightarrow> (cursor, bytes) fallible" where
  "cursor_bytes len = cursor_take len"

fun repeat_s :: "nat \<Rightarrow> ('s, 'a) fallible \<Rightarrow> ('s, 'a list) fallible" where
  "repeat_s 0 p = return_s []"
| "repeat_s (Suc n) p = bind_s p (\<lambda>x. bind_s (repeat_s n p) (\<lambda>xs. return_s (x # xs)))"

text \<open>The last check of every decoder: nothing may be left behind the value.\<close>

definition then_exhausted :: "(cursor, 'a) fallible \<Rightarrow> error \<Rightarrow> (cursor, 'a) fallible" where
  "then_exhausted p e =
     bind_s p (\<lambda>v. bind_s (read_s (\<lambda>c. ensure (remaining c = 0) e)) (\<lambda>_. return_s v))"

section \<open>Reading as consumption of a prefix\<close>

definition rest :: "cursor \<Rightarrow> bytes" where
  "rest c = drop (cur_position c) (cur_data c)"

definition cursor_ok :: "cursor \<Rightarrow> bool" where
  "cursor_ok c \<longleftrightarrow> cur_position c \<le> length (cur_data c) \<and> length (cur_data c) \<le> usize_max"

definition advance :: "nat \<Rightarrow> cursor \<Rightarrow> cursor" where
  "advance n c = c\<lparr>cur_position := cur_position c + n\<rparr>"

text \<open>\<open>parses p bs v\<close>: on any input that starts with \<open>bs\<close>, \<open>p\<close> returns \<open>v\<close> and consumes
  exactly \<open>bs\<close>. \<open>reads p Q\<close>: whenever \<open>p\<close> succeeds, the bytes it consumed are related by
  \<open>Q\<close> to the value it returned.\<close>

definition parses :: "(cursor, 'a) fallible \<Rightarrow> bytes \<Rightarrow> 'a \<Rightarrow> bool" where
  "parses p bs v \<longleftrightarrow>
     (\<forall>c r. cursor_ok c \<longrightarrow> rest c = bs @ r \<longrightarrow> p c = (Inr v, advance (length bs) c))"

definition reads :: "(cursor, 'a) fallible \<Rightarrow> ('a \<Rightarrow> bytes \<Rightarrow> bool) \<Rightarrow> bool" where
  "reads p Q \<longleftrightarrow>
     (\<forall>c v c'. p c = (Inr v, c') \<longrightarrow>
        (\<exists>bs. rest c = bs @ rest c' \<and> c' = advance (length bs) c \<and> Q v bs))"

lemma advance_simps [simp]:
  "cur_data (advance n c) = cur_data c"
  "cur_position (advance n c) = cur_position c + n"
  "advance 0 c = c"
  "advance m (advance n c) = advance (n + m) c"
  by (simp_all add: advance_def add.assoc)

lemma rest_advance: "rest c = bs @ r \<Longrightarrow> rest (advance (length bs) c) = r"
  by (simp add: rest_def add.commute drop_drop [symmetric])

lemma rest_length_le: "cursor_ok c \<Longrightarrow> cur_position c + length (rest c) = length (cur_data c)"
  by (simp add: cursor_ok_def rest_def)

lemma cursor_ok_advance: "cursor_ok c \<Longrightarrow> rest c = bs @ r \<Longrightarrow> cursor_ok (advance (length bs) c)"
  using rest_length_le [of c] by (simp add: cursor_ok_def)

lemma remaining_rest: "remaining c = length (rest c)"
  by (simp add: remaining_def rest_def)

lemma Cursor_new_simps [simp]: "rest (Cursor_new d) = d"
  by (simp add: Cursor_new_def rest_def)

lemma cursor_ok_new: "length d \<le> usize_max \<Longrightarrow> cursor_ok (Cursor_new d)"
  by (simp add: Cursor_new_def cursor_ok_def)

lemma parses_return: "parses (return_s v) [] v"
  by (simp add: parses_def stateful_simps)

lemma parses_bind:
  assumes "parses p bs v" and "parses (f v) bs' w"
  shows "parses (bind_s p f) (bs @ bs') w"
  unfolding parses_def
proof (intro allI impI)
  fix c r
  assume c: "cursor_ok c" and r: "rest c = (bs @ bs') @ r"
  then have "p c = (Inr v, advance (length bs) c)"
    using assms(1) by (simp add: parses_def)
  moreover have "f v (advance (length bs) c) = (Inr w, advance (length (bs @ bs')) c)"
    using assms(2) cursor_ok_advance [OF c] rest_advance r by (simp add: parses_def)
  ultimately show "bind_s p f c = (Inr w, advance (length (bs @ bs')) c)"
    by (simp add: bind_s_eval)
qed

lemma parses_bind_last:
  assumes "parses p bs v" and "parses (f v) [] w"
  shows "parses (bind_s p f) bs w"
  using parses_bind [of p bs v f "[]" w] assms by simp

lemma parsesD: "parses p bs v \<Longrightarrow> cursor_ok c \<Longrightarrow> rest c = bs @ r \<Longrightarrow> p c = (Inr v, advance (length bs) c)"
  by (simp add: parses_def)

lemma reads_return: "Q v [] \<Longrightarrow> reads (return_s v) Q"
  by (simp add: reads_def stateful_simps)

lemma reads_throw: "reads (throw_s e) Q"
  by (simp add: reads_def stateful_simps)

lemma reads_bind:
  assumes "reads p Q" and "\<And>v bs. Q v bs \<Longrightarrow> reads (f v) (\<lambda>w bs'. R w (bs @ bs'))"
  shows "reads (bind_s p f) R"
  unfolding reads_def
proof (intro allI impI)
  fix c w c'
  assume "bind_s p f c = (Inr w, c')"
  then obtain v d where p: "p c = (Inr v, d)" and f: "f v d = (Inr w, c')"
    by (auto simp: bind_s_Inr_iff)
  from assms(1) p obtain bs where bs: "rest c = bs @ rest d" "d = advance (length bs) c" "Q v bs"
    unfolding reads_def by blast
  from f assms(2) [OF bs(3)] obtain bs' where
    bs': "rest d = bs' @ rest c'" "c' = advance (length bs') d" "R w (bs @ bs')"
    unfolding reads_def by blast
  have "rest c = (bs @ bs') @ rest c'"
    using bs bs' by simp
  moreover have "c' = advance (length (bs @ bs')) c"
    using bs(2) bs'(2) by simp
  ultimately show "\<exists>bs. rest c = bs @ rest c' \<and> c' = advance (length bs) c \<and> R w bs"
    using bs'(3) by blast
qed

lemma readsD:
  "reads p Q \<Longrightarrow> p c = (Inr v, c') \<Longrightarrow>
     \<exists>bs. rest c = bs @ rest c' \<and> c' = advance (length bs) c \<and> Q v bs"
  unfolding reads_def by blast

lemma reads_lift: "(\<And>v. r = Inr v \<Longrightarrow> Q v []) \<Longrightarrow> reads (lift_s r) Q"
  by (simp add: reads_def stateful_simps)

lemma reads_weaken: "reads p Q \<Longrightarrow> (\<And>v bs. Q v bs \<Longrightarrow> R v bs) \<Longrightarrow> reads p R"
  unfolding reads_def by blast

lemma exhausted_parses:
  assumes "parses p bs v" and "cursor_ok c" and "rest c = bs"
  shows "then_exhausted p e c = (Inr v, advance (length bs) c)"
proof -
  have "p c = (Inr v, advance (length bs) c)"
    using assms by (simp add: parses_def)
  moreover have "remaining (advance (length bs) c) = 0"
    using rest_advance [of c bs "[]"] assms(3) by (simp add: remaining_rest)
  ultimately show ?thesis
    by (simp add: then_exhausted_def bind_s_eval bind_s_def stateful_simps)
qed

lemma exhausted_reads:
  assumes "reads p Q" and "then_exhausted p e c = (Inr v, c')"
  shows "Q v (rest c)"
proof -
  from assms(2) have p: "p c = (Inr v, c')" and "remaining c' = 0"
    by (auto simp: then_exhausted_def result_simps)
  then have "rest c' = []"
    by (simp add: remaining_rest)
  with p assms(1) show ?thesis
    unfolding reads_def by fastforce
qed

section \<open>The contract of a field\<close>

locale field_codec =
  fixes push :: "bytes \<Rightarrow> 'a \<Rightarrow> bytes result"
    and get :: "(cursor, 'a) fallible"
  assumes push_append: "push out v = map_ok (\<lambda>bs. out @ bs) (push [] v)"
    and parses_push: "push [] v = Inr bs \<Longrightarrow> parses get bs v"
    and reads_push: "reads get (\<lambda>v bs. push [] v = Inr bs)"
begin

lemma push_Inr: "push out v = Inr out' \<longleftrightarrow> (\<exists>bs. push [] v = Inr bs \<and> out' = out @ bs)"
  by (subst push_append) (auto simp: map_ok_Inr_iff)

lemma push_each_append:
  "push_each push out vs = map_ok (\<lambda>bs. out @ bs) (push_each push [] vs)"
proof (induction vs arbitrary: out)
  case Nil
  then show ?case by simp
next
  case (Cons v vs)
  show ?case
  proof (cases "push [] v")
    case (Inl e)
    then show ?thesis
      by (subst push_each.simps, subst push_append) simp
  next
    case (Inr bs)
    then have "push_each push out (v # vs) = push_each push (out @ bs) vs"
      by (subst push_each.simps, subst push_append) simp
    also have "\<dots> = map_ok ((@) (out @ bs)) (push_each push [] vs)"
      by (rule Cons.IH)
    also have "\<dots> = map_ok ((@) out) (map_ok ((@) bs) (push_each push [] vs))"
      by (cases "push_each push [] vs") simp_all
    also have "\<dots> = map_ok ((@) out) (push_each push [] (v # vs))"
      using Inr Cons.IH [of bs] by simp
    finally show ?thesis .
  qed
qed

lemma push_each_shift: "push_each push (out @ x) vs = map_ok (\<lambda>bs. out @ bs) (push_each push x vs)"
  using push_each_append [of "out @ x" vs] push_each_append [of x vs]
  by (cases "push_each push [] vs") simp_all

lemma push_each_Inr:
  "out \<noteq> [] \<Longrightarrow> push_each push out vs = Inr bs \<longleftrightarrow> (\<exists>b. push_each push [] vs = Inr b \<and> bs = out @ b)"
  using push_each_append [of out vs] by (auto simp: map_ok_Inr_iff)

lemma push_each_Cons_Inr:
  "push_each push [] (v # vs) = Inr bs \<longleftrightarrow>
     (\<exists>b bs'. push [] v = Inr b \<and> push_each push [] vs = Inr bs' \<and> bs = b @ bs')"
proof -
  have "push_each push [] (v # vs) = and_then (push [] v) (\<lambda>b. map_ok ((@) b) (push_each push [] vs))"
    by (simp add: push_each_append [symmetric])
  then show ?thesis
    by (auto simp: and_then_Inr_iff map_ok_Inr_iff)
qed

lemma parses_each:
  "push_each push [] vs = Inr bs \<Longrightarrow> parses (repeat_s (length vs) get) bs vs"
proof (induction vs arbitrary: bs)
  case Nil
  then show ?case by (simp add: parses_return)
next
  case (Cons v vs)
  then obtain b bs' where "push [] v = Inr b" and "push_each push [] vs = Inr bs'" and bs: "bs = b @ bs'"
    by (auto simp: push_each_Cons_Inr simp del: push_each.simps)
  with Cons.IH have "parses get b v" and "parses (repeat_s (length vs) get) bs' vs"
    by (auto intro: parses_push)
  moreover have "parses (return_s (v # vs)) [] (v # vs)"
    by (rule parses_return)
  ultimately show ?case
    unfolding bs by (auto intro: parses_bind parses_bind_last)
qed

lemma reads_each:
  "reads (repeat_s n get) (\<lambda>vs bs. length vs = n \<and> push_each push [] vs = Inr bs)"
proof (induction n)
  case 0
  then show ?case by (simp add: reads_return)
next
  case (Suc n)
  show ?case
    unfolding repeat_s.simps
    by (rule reads_bind [OF reads_push], rule reads_bind [OF Suc], rule reads_return)
      (auto simp: push_each_Cons_Inr simp del: push_each.simps)
qed

end

section \<open>The fields of the protocol\<close>

lemma u16_try_from_Some_iff:
  "u16_try_from n = Some w \<longleftrightarrow> n \<le> u16_max \<and> unat w = n"
  by (auto simp: u16_try_from_def u16_max_def word_unat_eq_iff unat_of_nat)

lemma u32_try_from_Some_iff:
  "u32_try_from n = Some w \<longleftrightarrow> n \<le> u32_max \<and> unat w = n"
  by (auto simp: u32_try_from_def u32_max_def word_unat_eq_iff unat_of_nat)

lemma unat_u16_le_max [simp]: "unat (w :: u16) \<le> u16_max"
  using unat_less_exp [of w] by (simp add: u16_max_def)

lemma unat_u32_le_max [simp]: "unat (w :: u32) \<le> u32_max"
  using unat_less_exp [of w] by (simp add: u32_max_def)

lemma u16_try_from_unat [simp]: "u16_try_from (unat w) = Some w"
  by (simp add: u16_try_from_def)

lemma u32_try_from_unat [simp]: "u32_try_from (unat w) = Some w"
  by (simp add: u32_try_from_def)

lemma parses_take: "length bs = n \<Longrightarrow> parses (cursor_take n) bs bs"
proof (unfold parses_def, intro allI impI)
  fix c r
  assume n: "length bs = n" and c: "cursor_ok c" and r: "rest c = bs @ r"
  then have "cur_position c + n \<le> length (cur_data c)" and "length (cur_data c) \<le> usize_max"
    using rest_length_le [OF c] by (simp_all add: cursor_ok_def)
  with n r show "cursor_take n c = (Inr bs, advance (length bs) c)"
    by (simp add: cursor_take_def usize_checked_add_def advance_def rest_def [symmetric])
qed

lemma reads_take: "reads (cursor_take n) (\<lambda>v bs. v = bs \<and> length bs = n)"
proof (unfold reads_def, intro allI impI)
  fix c v c'
  assume "cursor_take n c = (Inr v, c')"
  then have le: "cur_position c + n \<le> length (cur_data c)"
    and v: "v = take n (rest c)" and c': "c' = advance n c"
    by (auto simp: cursor_take_def usize_checked_add_def rest_def advance_def
        split: if_splits option.splits)
  have "length (take n (rest c)) = n"
    using le by (simp add: rest_def)
  moreover have "rest c = take n (rest c) @ rest c'"
    unfolding c' rest_def advance_simps by (simp add: add.commute flip: drop_drop)
  ultimately show "\<exists>bs. rest c = bs @ rest c' \<and> c' = advance (length bs) c \<and> v = bs \<and> length bs = n"
    unfolding v using c' by (intro exI [of _ "take n (rest c)"]) simp
qed

lemma parses_u16: "parses cursor_u16 (to_le_bytes v) v"
  unfolding cursor_u16_def by (rule parses_bind_last [OF parses_take]) (simp_all add: parses_return)

lemma parses_u32: "parses cursor_u32 (to_le_bytes v) v"
  unfolding cursor_u32_def by (rule parses_bind_last [OF parses_take]) (simp_all add: parses_return)

lemma parses_u64: "parses cursor_u64 (to_le_bytes v) v"
  unfolding cursor_u64_def by (rule parses_bind_last [OF parses_take]) (simp_all add: parses_return)

lemma reads_u16: "reads cursor_u16 (\<lambda>v bs. bs = to_le_bytes v)"
  unfolding cursor_u16_def
  by (rule reads_bind [OF reads_take], rule reads_return) (simp add: to_from_le_bytes_ws)

lemma reads_u32: "reads cursor_u32 (\<lambda>v bs. bs = to_le_bytes v)"
  unfolding cursor_u32_def
  by (rule reads_bind [OF reads_take], rule reads_return) (simp add: to_from_le_bytes_ws)

lemma reads_u64: "reads cursor_u64 (\<lambda>v bs. bs = to_le_bytes v)"
  unfolding cursor_u64_def
  by (rule reads_bind [OF reads_take], rule reads_return) (simp add: to_from_le_bytes_ws)

lemma parses_u8: "parses cursor_u8 [v] v"
  unfolding cursor_u8_def
  by (rule parses_bind_last, rule parses_take, simp) (use parses_return [of v] in simp)

lemma reads_u8: "reads cursor_u8 (\<lambda>v bs. bs = [v])"
  unfolding cursor_u8_def
  by (rule reads_bind [OF reads_take], rule reads_return) (auto simp: length_Suc_conv)

interpretation u8_field: field_codec "\<lambda>out v. Inr (push_u8 out v)" cursor_u8
  by unfold_locales (auto simp: push_u8_def parses_u8 intro: reads_weaken [OF reads_u8])

interpretation u16_field: field_codec "\<lambda>out v. Inr (push_u16 out v)" cursor_u16
  by unfold_locales (auto simp: push_u16_def parses_u16 intro: reads_weaken [OF reads_u16])

interpretation u32_field: field_codec "\<lambda>out v. Inr (push_u32 out v)" cursor_u32
  by unfold_locales (auto simp: push_u32_def parses_u32 intro: reads_weaken [OF reads_u32])

interpretation u64_field: field_codec "\<lambda>out v. Inr (push_u64 out v)" cursor_u64
  by unfold_locales (auto simp: push_u64_def parses_u64 intro: reads_weaken [OF reads_u64])

text \<open>One rule per field for each direction; a message body is read by chaining them.\<close>

named_theorems parse_rules \<open>reading back what was pushed\<close>
named_theorems read_rules \<open>accepting only what would be pushed\<close>

lemma parses_bind_u8 [parse_rules]:
  "parses (f v) bs w \<Longrightarrow> parses (bind_s cursor_u8 f) (v # bs) w"
  using parses_bind [where p = cursor_u8 and bs = "[v]" and v = v] parses_u8 by simp

lemma parses_bind_u16 [parse_rules]:
  "parses (f v) bs w \<Longrightarrow> parses (bind_s cursor_u16 f) (to_le_bytes v @ bs) w"
  by (rule parses_bind [OF parses_u16])

lemma parses_bind_u32 [parse_rules]:
  "parses (f v) bs w \<Longrightarrow> parses (bind_s cursor_u32 f) (to_le_bytes v @ bs) w"
  by (rule parses_bind [OF parses_u32])

lemma parses_bind_u64 [parse_rules]:
  "parses (f v) bs w \<Longrightarrow> parses (bind_s cursor_u64 f) (to_le_bytes v @ bs) w"
  by (rule parses_bind [OF parses_u64])

lemma parses_bind_take [parse_rules]:
  "n = length v \<Longrightarrow> parses (f v) bs w \<Longrightarrow> parses (bind_s (cursor_take n) f) (v @ bs) w"
  by (rule parses_bind [OF parses_take]) simp_all

lemma reads_bind_u8 [read_rules]:
  "(\<And>v. reads (f v) (\<lambda>w bs. R w (v # bs))) \<Longrightarrow> reads (bind_s cursor_u8 f) R"
  by (rule reads_bind [OF reads_u8]) simp

lemma reads_bind_u16 [read_rules]:
  "(\<And>v. reads (f v) (\<lambda>w bs. R w (to_le_bytes v @ bs))) \<Longrightarrow> reads (bind_s cursor_u16 f) R"
  by (rule reads_bind [OF reads_u16]) simp

lemma reads_bind_u32 [read_rules]:
  "(\<And>v. reads (f v) (\<lambda>w bs. R w (to_le_bytes v @ bs))) \<Longrightarrow> reads (bind_s cursor_u32 f) R"
  by (rule reads_bind [OF reads_u32]) simp

lemma reads_bind_u64 [read_rules]:
  "(\<And>v. reads (f v) (\<lambda>w bs. R w (to_le_bytes v @ bs))) \<Longrightarrow> reads (bind_s cursor_u64 f) R"
  by (rule reads_bind [OF reads_u64]) simp

lemma reads_bind_take [read_rules]:
  "(\<And>v. length v = n \<Longrightarrow> reads (f v) (\<lambda>w bs. R w (v @ bs))) \<Longrightarrow> reads (bind_s (cursor_take n) f) R"
  by (rule reads_bind [OF reads_take]) simp

subsection \<open>Qids and strings\<close>

definition qid_bytes :: "qid \<Rightarrow> bytes" where
  "qid_bytes q = qtype q # to_le_bytes (qversion q) @ to_le_bytes (qpath q)"

definition string_bytes :: "bytes \<Rightarrow> bytes" where
  "string_bytes v = to_le_bytes (word_of_nat (length v) :: u16) @ v"

lemma push_qid_eq: "push_qid out q = out @ qid_bytes q"
  by (simp add: push_qid_def qid_bytes_def push_u8_def push_u32_def push_u64_def)

lemma length_qid_bytes [simp]: "length (qid_bytes q) = 13"
  by (simp add: qid_bytes_def)

lemma push_string_eq:
  "push_string out v =
     (if length v \<le> u16_max then Inr (out @ string_bytes v) else Inl (Error_from ''string too large''))"
  by (simp add: push_string_def u16_try_from_def string_bytes_def push_u16_def)

lemma length_string_bytes [simp]: "length (string_bytes v) = 2 + length v"
  by (simp add: string_bytes_def)

lemma string_bytes_cong: "length v = unat (len :: u16) \<Longrightarrow> to_le_bytes len @ v = string_bytes v"
  by (simp add: string_bytes_def)

lemma Qid_new_eta [simp]: "Qid_new (qtype q) (qversion q) (qpath q) = q"
  by (cases q) (simp add: Qid_new_def)

lemma parses_qid: "parses cursor_qid (qid_bytes q) q"
proof -
  have "parses cursor_qid (qtype q # to_le_bytes (qversion q) @ to_le_bytes (qpath q) @ []) q"
    unfolding cursor_qid_def by (intro parse_rules) (simp add: parses_return)
  then show ?thesis by (simp add: qid_bytes_def)
qed

lemma reads_qid: "reads cursor_qid (\<lambda>v bs. bs = qid_bytes v)"
  unfolding cursor_qid_def
  by (intro read_rules reads_return) (simp add: qid_bytes_def Qid_new_def)

lemma parses_string: "length v \<le> u16_max \<Longrightarrow> parses cursor_string (string_bytes v) v"
  unfolding cursor_string_def string_bytes_def
  by (rule parses_bind_u16, rule parses_take) (simp add: unat_of_nat u16_max_def)

lemma reads_string: "reads cursor_string (\<lambda>v bs. bs = string_bytes v \<and> length v \<le> u16_max)"
  unfolding cursor_string_def
  by (rule reads_bind_u16, rule reads_weaken [OF reads_take]) (simp add: string_bytes_cong)

interpretation qid_field: field_codec "\<lambda>out v. Inr (push_qid out v)" cursor_qid
proof unfold_locales
  show "Inr (push_qid out v) = map_ok ((@) out) (Inr (push_qid [] v))" for out v
    by (simp add: push_qid_eq)
  show "parses cursor_qid bs v" if "Inr (push_qid [] v) = Inr bs" for v bs
    using that parses_qid [of v] by (simp add: push_qid_eq)
  show "reads cursor_qid (\<lambda>v bs. Inr (push_qid [] v) = Inr bs)"
    by (rule reads_weaken [OF reads_qid]) (simp add: push_qid_eq)
qed

interpretation string_field: field_codec push_string cursor_string
proof unfold_locales
  show "push_string out v = map_ok ((@) out) (push_string [] v)" for out v
    by (simp add: push_string_eq)
  show "parses cursor_string bs v" if "push_string [] v = Inr bs" for v bs
    using that by (auto simp: push_string_eq parses_string split: if_splits)
  show "reads cursor_string (\<lambda>v bs. push_string [] v = Inr bs)"
    by (rule reads_weaken [OF reads_string]) (auto simp: push_string_eq)
qed

lemma parses_bind_qid [parse_rules]:
  "parses (f v) bs w \<Longrightarrow> parses (bind_s cursor_qid f) (qid_bytes v @ bs) w"
  by (rule parses_bind [OF parses_qid])

lemma parses_bind_string [parse_rules]:
  "length v \<le> u16_max \<Longrightarrow> parses (f v) bs w \<Longrightarrow> parses (bind_s cursor_string f) (string_bytes v @ bs) w"
  by (rule parses_bind [OF parses_string])

lemma reads_bind_qid [read_rules]:
  "(\<And>v. reads (f v) (\<lambda>w bs. R w (qid_bytes v @ bs))) \<Longrightarrow> reads (bind_s cursor_qid f) R"
  by (rule reads_bind [OF reads_qid]) simp

lemma reads_bind_string [read_rules]:
  "(\<And>v. length v \<le> u16_max \<Longrightarrow> reads (f v) (\<lambda>w bs. R w (string_bytes v @ bs)))
   \<Longrightarrow> reads (bind_s cursor_string f) R"
  by (rule reads_bind [OF reads_string]) simp

lemmas push_eqs = push_u8_def push_u16_def push_u32_def push_u64_def push_qid_eq push_string_eq

section \<open>The contract of a complete encoding\<close>

text \<open>An encoder and a decoder of whole values: decoding inverts encoding, and a byte string is
  accepted only if it is the encoding of the value it decodes to.\<close>

locale wire_format =
  fixes encode :: "'a \<Rightarrow> bytes result"
    and decode :: "bytes \<Rightarrow> 'a result"
  assumes decode_encode: "encode v = Inr bs \<Longrightarrow> decode bs = Inr v"
    and encode_decode: "decode bs = Inr v \<Longrightarrow> encode v = Inr bs"
begin

lemma decode_iff_encode: "decode bs = Inr v \<longleftrightarrow> encode v = Inr bs"
  using decode_encode encode_decode by blast

lemma encode_inj: "encode v = Inr bs \<Longrightarrow> encode w = Inr bs \<Longrightarrow> v = w"
  using decode_encode [of v bs] decode_encode [of w bs] by simp

lemma decode_inj: "decode bs = Inr v \<Longrightarrow> decode cs = Inr v \<Longrightarrow> bs = cs"
  using encode_decode [of bs v] encode_decode [of cs v] by simp

end

end
