(* ===== verification/R9P_Stat.thy ===== *)
theory R9P_Stat
  imports R9P_Wire
begin

text \<open>
  Stat records on the wire and directory reads (\<^verbatim>\<open>stat.rs\<close>, lines 56 to 155): \<open>Stat::encode\<close>,
  \<open>Stat::decode\<close>, \<open>dirread_chunk\<close> and \<open>decode_dir_entries\<close>. The lemmas show that the stat
  encoding is a bijection onto the accepted byte strings, that a directory chunk is a greedy run
  of whole entries starting at an entry boundary, and that a stream of entries decodes to exactly
  the records it was built from.
\<close>

section \<open>Encoding and decoding one record\<close>

definition Stat_push_fields :: "bytes \<Rightarrow> stat \<Rightarrow> bytes result" where
  "Stat_push_fields body st =
     (let body = push_u16 body (stat_type st);
          body = push_u32 body (stat_dev st);
          body = push_qid body (stat_qid st);
          body = push_u32 body (stat_mode st);
          body = push_u32 body (stat_atime st);
          body = push_u32 body (stat_mtime st);
          body = push_u64 body (stat_length st)
      in and_then (push_string body (stat_name st)) (\<lambda>body.
         and_then (push_string body (stat_uid st)) (\<lambda>body.
         and_then (push_string body (stat_gid st)) (\<lambda>body.
                   push_string body (stat_muid st)))))"

definition Stat_encode :: "stat \<Rightarrow> bytes result" where
  "Stat_encode st =
     and_then (Stat_push_fields [] st) (\<lambda>body.
     and_then (ok_or (u16_try_from (length body)) (Error_from ''stat too large'')) (\<lambda>size.
       Inr (push_u16 [] size @ body)))"

definition cursor_stat_fields :: "(cursor, stat) fallible" where
  "cursor_stat_fields =
     bind_s cursor_u16 (\<lambda>ty. bind_s cursor_u32 (\<lambda>dev. bind_s cursor_qid (\<lambda>q.
     bind_s cursor_u32 (\<lambda>mode. bind_s cursor_u32 (\<lambda>atime. bind_s cursor_u32 (\<lambda>mtime.
     bind_s cursor_u64 (\<lambda>length. bind_s cursor_string (\<lambda>name. bind_s cursor_string (\<lambda>uid.
     bind_s cursor_string (\<lambda>gid. bind_s cursor_string (\<lambda>muid.
       return_s \<lparr>stat_type = ty, stat_dev = dev, stat_qid = q, stat_mode = mode,
         stat_atime = atime, stat_mtime = mtime, stat_length = length, stat_name = name,
         stat_uid = uid, stat_gid = gid, stat_muid = muid\<rparr>)))))))))))"

definition Stat_decode :: "bytes \<Rightarrow> stat result" where
  "Stat_decode encoded =
     fst (bind_s cursor_u16 (\<lambda>size.
          bind_s (read_s (\<lambda>c. ensure (unat size = remaining c) (Error_from ''stat size mismatch''))) (\<lambda>_.
          then_exhausted cursor_stat_fields (Error_from ''trailing stat bytes'')))
       (Cursor_new encoded))"

section \<open>Directory reads\<close>

fun dirread_loop :: "u64 \<Rightarrow> usize \<Rightarrow> stat list \<Rightarrow> u64 \<Rightarrow> bytes \<Rightarrow> bytes result" where
  "dirread_loop offset limit [] position out = Inr out"
| "dirread_loop offset limit (st # sts) position out =
     and_then (Stat_encode st) (\<lambda>encoded.
       let next = saturating_add position (word_of_nat (length encoded)) in
       if next \<le> offset then dirread_loop offset limit sts next out
       else if position < offset then Inr out
       else if usize_saturating_add (length out) (length encoded) > limit then Inr out
       else dirread_loop offset limit sts next (out @ encoded))"

definition dirread_chunk :: "stat list \<Rightarrow> u64 \<Rightarrow> u32 \<Rightarrow> bytes result" where
  "dirread_chunk stats offset count = dirread_loop offset (unat count) stats 0 []"

function decode_dir_loop :: "bytes \<Rightarrow> usize \<Rightarrow> stat list \<Rightarrow> stat list result" where
  "decode_dir_loop data offset entries =
     (if offset < length data then
        (if length data - offset < 2 then Inl (Error_from ''truncated directory stat'')
         else let size = unat (from_le_bytes [data ! offset, data ! (offset + 1)] :: u16) in
           (case usize_checked_add offset (size + 2) of
              None \<Rightarrow> Inl (Error_from ''directory stat overflow'')
            | Some e \<Rightarrow>
                (if e \<le> length data then
                   and_then (Stat_decode (take (e - offset) (drop offset data))) (\<lambda>st.
                     decode_dir_loop data e (entries @ [st]))
                 else Inl (Error_from ''truncated directory stat''))))
      else Inr entries)"
  by pat_completeness auto
termination
  by (relation "measure (\<lambda>(data, offset, entries). length data - offset)")
    (auto simp: usize_checked_add_def split: if_splits)

definition decode_dir_entries :: "bytes \<Rightarrow> stat list result" where
  "decode_dir_entries data = decode_dir_loop data 0 []"

declare decode_dir_loop.simps [simp del]

section \<open>The record encoding is exact\<close>

definition stat_fields_bytes :: "stat \<Rightarrow> bytes" where
  "stat_fields_bytes st =
     to_le_bytes (stat_type st) @ to_le_bytes (stat_dev st) @ qid_bytes (stat_qid st) @
     to_le_bytes (stat_mode st) @ to_le_bytes (stat_atime st) @ to_le_bytes (stat_mtime st) @
     to_le_bytes (stat_length st) @ string_bytes (stat_name st) @ string_bytes (stat_uid st) @
     string_bytes (stat_gid st) @ string_bytes (stat_muid st) @ []"

definition stat_strings_ok :: "stat \<Rightarrow> bool" where
  "stat_strings_ok st \<longleftrightarrow>
     length (stat_name st) \<le> u16_max \<and> length (stat_uid st) \<le> u16_max \<and>
     length (stat_gid st) \<le> u16_max \<and> length (stat_muid st) \<le> u16_max"

lemma Stat_push_fields_Inr:
  "Stat_push_fields out st = Inr body \<longleftrightarrow> stat_strings_ok st \<and> body = out @ stat_fields_bytes st"
  by (auto simp: Stat_push_fields_def push_eqs stat_fields_bytes_def stat_strings_ok_def Let_def
      and_then_Inr_iff)

lemma length_stat_fields_bytes:
  "length (stat_fields_bytes st) =
     47 + length (stat_name st) + length (stat_uid st) + length (stat_gid st) + length (stat_muid st)"
  by (simp add: stat_fields_bytes_def)

lemma Stat_encode_Inr:
  "Stat_encode st = Inr bs \<longleftrightarrow>
     length (stat_fields_bytes st) \<le> u16_max \<and>
     bs = to_le_bytes (word_of_nat (length (stat_fields_bytes st)) :: u16) @ stat_fields_bytes st"
  by (auto simp: Stat_encode_def and_then_Inr_iff Stat_push_fields_Inr u16_try_from_def push_u16_def
      stat_strings_ok_def length_stat_fields_bytes split: if_splits)

lemma parses_stat_fields: "stat_strings_ok st \<Longrightarrow> parses cursor_stat_fields (stat_fields_bytes st) st"
  unfolding cursor_stat_fields_def stat_fields_bytes_def
  by (intro parse_rules, simp_all add: stat_strings_ok_def) (cases st, simp add: parses_return)

lemma reads_stat_fields:
  "reads cursor_stat_fields (\<lambda>st bs. bs = stat_fields_bytes st \<and> stat_strings_ok st)"
  unfolding cursor_stat_fields_def
  by (intro read_rules reads_return) (simp add: stat_fields_bytes_def stat_strings_ok_def)

lemma usize_max_ge: "u16_max + 2 \<le> usize_max" "u32_max \<le> usize_max"
  by (simp_all add: u16_max_def u32_max_def usize_max_def)

lemma Stat_decode_encode:
  assumes "Stat_encode st = Inr bs"
  shows "Stat_decode bs = Inr st"
proof -
  let ?F = "stat_fields_bytes st" and ?size = "word_of_nat (length (stat_fields_bytes st)) :: u16"
  let ?c = "Cursor_new bs"
  have len: "length ?F \<le> u16_max" and bs: "bs = to_le_bytes ?size @ ?F"
    using assms by (simp_all add: Stat_encode_Inr)
  have ok: "cursor_ok ?c"
    using len usize_max_ge by (simp add: cursor_ok_new bs)
  have size: "cursor_u16 ?c = (Inr ?size, advance 2 ?c)"
    using parsesD [OF parses_u16 ok, of ?size ?F] by (simp add: bs)
  have rest2: "rest (advance 2 ?c) = ?F" and ok2: "cursor_ok (advance 2 ?c)"
    using rest_advance [of ?c "to_le_bytes ?size" ?F] cursor_ok_advance [OF ok, of "to_le_bytes ?size" ?F]
    by (simp_all add: bs)
  have "unat ?size = remaining (advance 2 ?c)"
    using len by (simp add: remaining_rest rest2 unat_of_nat u16_max_def)
  moreover have "stat_strings_ok st"
    using len by (simp add: stat_strings_ok_def length_stat_fields_bytes)
  ultimately show ?thesis
    using exhausted_parses [OF parses_stat_fields ok2 rest2]
    by (simp add: Stat_decode_def bind_s_def size stateful_simps)
qed

lemma Stat_encode_decode:
  assumes "Stat_decode bs = Inr st"
  shows "Stat_encode st = Inr bs"
proof -
  let ?c = "Cursor_new bs"
  obtain size c1 c2 where size: "cursor_u16 ?c = (Inr size, c1)"
    and rem: "unat size = remaining c1"
    and flds: "then_exhausted cursor_stat_fields (Error_from ''trailing stat bytes'') c1 = (Inr st, c2)"
  proof -
    from assms obtain d where
      "bind_s cursor_u16 (\<lambda>size.
          bind_s (read_s (\<lambda>c. ensure (unat size = remaining c) (Error_from ''stat size mismatch''))) (\<lambda>_.
          then_exhausted cursor_stat_fields (Error_from ''trailing stat bytes''))) ?c = (Inr st, d)"
      by (metis Stat_decode_def prod.collapse)
    then show thesis
      using that by (auto simp: bind_s_Inr_iff stateful_simps)
  qed
  have F: "rest c1 = stat_fields_bytes st" and strs: "stat_strings_ok st"
    using exhausted_reads [OF reads_stat_fields flds] by simp_all
  obtain b where "rest ?c = b @ rest c1" and "b = to_le_bytes size"
    using readsD [OF reads_u16 size] by blast
  then have "bs = to_le_bytes size @ stat_fields_bytes st"
    by (simp add: F)
  moreover have len: "length (stat_fields_bytes st) = unat size"
    using rem by (simp add: remaining_rest F)
  ultimately show ?thesis
    by (simp add: Stat_encode_Inr len)
qed

interpretation stat_format: wire_format Stat_encode Stat_decode
  by unfold_locales (fact Stat_decode_encode, fact Stat_encode_decode)

lemma Stat_encode_length: "Stat_encode st = Inr bs \<Longrightarrow> 49 \<le> length bs \<and> length bs \<le> u16_max + 2"
  by (auto simp: Stat_encode_Inr length_stat_fields_bytes)

section \<open>Directory chunks\<close>

text \<open>The entries of a listing, encoded one by one, and the run of entries that fits a byte
  budget.\<close>

definition encodes :: "stat list \<Rightarrow> bytes list \<Rightarrow> bool" where
  "encodes = list_all2 (\<lambda>st e. Stat_encode st = Inr e)"

fun fit_entries :: "nat \<Rightarrow> bytes list \<Rightarrow> bytes list" where
  "fit_entries n [] = []"
| "fit_entries n (e # es) = (if length e \<le> n then e # fit_entries (n - length e) es else [])"

lemma encodes_simps [simp]:
  "encodes [] es \<longleftrightarrow> es = []"
  "encodes sts [] \<longleftrightarrow> sts = []"
  "encodes (st # sts) (e # es) \<longleftrightarrow> Stat_encode st = Inr e \<and> encodes sts es"
  by (simp_all add: encodes_def)

lemma encodes_Cons1: "encodes (st # sts) es \<longleftrightarrow> (\<exists>e es'. es = e # es' \<and> Stat_encode st = Inr e \<and> encodes sts es')"
  by (simp add: encodes_def list_all2_Cons1)

lemma encodes_length: "encodes sts es \<Longrightarrow> length sts = length es"
  by (simp add: encodes_def list_all2_lengthD)

lemma encodes_take: "encodes sts es \<Longrightarrow> encodes (take i sts) (take i es)"
  by (simp add: encodes_def)

lemma encodes_drop: "encodes sts es \<Longrightarrow> encodes (drop i sts) (drop i es)"
  by (simp add: encodes_def)

lemma fit_entries_take: "fit_entries n es = take (length (fit_entries n es)) es"
  by (induction n es rule: fit_entries.induct) auto

lemma fit_entries_size: "length (concat (fit_entries n es)) \<le> n"
  by (induction n es rule: fit_entries.induct) auto

lemma fit_entries_maximal:
  "k \<le> length es \<Longrightarrow> length (concat (take k es)) \<le> n \<Longrightarrow> k \<le> length (fit_entries n es)"
proof (induction n es arbitrary: k rule: fit_entries.induct)
  case (1 n)
  then show ?case by simp
next
  case (2 n e es)
  show ?case
  proof (cases k)
    case 0
    then show ?thesis by simp
  next
    case (Suc j)
    with 2 show ?thesis by auto
  qed
qed

lemma fit_entries_nonempty: "es \<noteq> [] \<Longrightarrow> length (hd es) \<le> n \<Longrightarrow> fit_entries n es \<noteq> []"
  by (cases es) auto

lemma saturating_add_pos:
  assumes "unat (p :: u64) + n < 2 ^ 64"
  shows "unat (saturating_add p (word_of_nat n)) = unat p + n"
  using assms by (simp add: unat_saturating_add unat_of_nat)

lemma dirread_loop_fill:
  assumes "encodes sts es" and "offset \<le> position" and "length out \<le> limit" and "limit \<le> u32_max"
    and "unat position + length (concat es) < 2 ^ 64"
  shows "dirread_loop offset limit sts position out = Inr (out @ concat (fit_entries (limit - length out) es))"
  using assms
proof (induction sts arbitrary: es position out)
  case Nil
  then show ?case by simp
next
  case (Cons st sts)
  then obtain e es' where es: "es = e # es'" and e: "Stat_encode st = Inr e" and es': "encodes sts es'"
    by (auto simp: encodes_Cons1)
  let ?next = "saturating_add position (word_of_nat (length e))"
  have e0: "0 < length e"
    using Stat_encode_length [OF e] by linarith
  have nx: "unat ?next = unat position + length e"
    using Cons.prems(5) es by (intro saturating_add_pos) simp
  then have gt: "offset < ?next"
    using Cons.prems(2) e0 unfolding word_less_nat_alt word_le_nat_alt by linarith
  have sat: "(limit < usize_saturating_add (length out) (length e)) = (limit < length out + length e)"
    using Cons.prems(4) by (simp add: usize_saturating_add_def u32_max_def usize_max_def)
  have branch: "\<not> ?next \<le> offset" "\<not> position < offset"
    using gt Cons.prems(2) by (simp_all add: not_le not_less)
  show ?case
  proof (cases "length out + length e \<le> limit")
    case True
    have "dirread_loop offset limit sts ?next (out @ e) =
      Inr ((out @ e) @ concat (fit_entries (limit - length (out @ e)) es'))"
      by (rule Cons.IH [OF es']) (use Cons.prems True nx gt es in auto)
    moreover have "fit_entries (limit - length out) es = e # fit_entries (limit - length (out @ e)) es'"
      using True by (simp add: es)
    ultimately show ?thesis
      using True by (simp add: e Let_def sat branch)
  next
    case False
    then have "fit_entries (limit - length out) es = []"
      using Cons.prems(3) by (auto simp: es)
    then show ?thesis
      using False by (simp add: e Let_def sat branch)
  qed
qed

lemma dirread_loop_skip:
  assumes "encodes sts es" and "unat position + length (concat es) < 2 ^ 64"
    and "i \<le> length es" and "unat offset = unat position + length (concat (take i es))"
  shows "dirread_loop offset limit sts position out = dirread_loop offset limit (drop i sts) offset out"
  using assms
proof (induction i arbitrary: sts es position)
  case 0
  then have "position = offset"
    by (simp add: word_unat_eq_iff)
  then show ?case by simp
next
  case (Suc i)
  then obtain e es' where es: "es = e # es'"
    by (cases es) auto
  with Suc.prems(1) obtain st sts' where sts: "sts = st # sts'" and e: "Stat_encode st = Inr e"
    and es': "encodes sts' es'"
    by (cases sts) auto
  let ?next = "saturating_add position (word_of_nat (length e))"
  have nx: "unat ?next = unat position + length e"
    using Suc.prems(2) es by (intro saturating_add_pos) simp
  then have "?next \<le> offset"
    using Suc.prems(4) es unfolding word_le_nat_alt by simp
  then have "dirread_loop offset limit sts position out = dirread_loop offset limit sts' ?next out"
    by (simp add: sts e Let_def)
  also have "\<dots> = dirread_loop offset limit (drop i sts') offset out"
    by (rule Suc.IH [OF es']) (use Suc.prems es nx in auto)
  finally show ?case by (simp add: sts)
qed

lemma dirread_chunk_boundary:
  assumes "encodes sts es" and "length (concat es) < 2 ^ 64" and "i \<le> length es"
    and "unat offset = length (concat (take i es))"
  shows "dirread_chunk sts offset count = Inr (concat (fit_entries (unat count) (drop i es)))"
proof -
  have "length (concat (take i es)) + length (concat (drop i es)) = length (concat es)"
    by (metis append_take_drop_id concat_append length_append)
  then have fits: "unat offset + length (concat (drop i es)) < 2 ^ 64"
    using assms(2,4) by simp
  have count: "unat count \<le> u32_max"
    using unat_less_exp [of count] by (simp add: u32_max_def)
  have "dirread_loop offset (unat count) (drop i sts) offset [] =
    Inr (concat (fit_entries (unat count) (drop i es)))"
    using dirread_loop_fill [OF encodes_drop [OF assms(1)] order.refl _ count fits, of "[]"] by simp
  then show ?thesis
    using dirread_loop_skip [OF assms(1), of 0 i offset "unat count" "[]"] assms
    by (simp add: dirread_chunk_def)
qed

section \<open>Streams of entries\<close>

lemma Stat_encode_size_prefix:
  assumes "Stat_encode st = Inr e"
  shows "unat (from_le_bytes [e ! 0, e ! 1] :: u16) + 2 = length e"
proof -
  let ?size = "word_of_nat (length (stat_fields_bytes st)) :: u16"
  have len: "length (stat_fields_bytes st) \<le> u16_max" and e: "e = to_le_bytes ?size @ stat_fields_bytes st"
    using assms by (simp_all add: Stat_encode_Inr)
  have "take 2 e = to_le_bytes ?size"
    by (simp add: e)
  moreover have "take 2 e = [e ! 0, e ! 1]"
    using Stat_encode_length [OF assms] by (cases e; cases "tl e") auto
  ultimately have "from_le_bytes [e ! 0, e ! 1] = ?size"
    using from_to_le_bytes_ws(1) [of ?size] by simp
  then show ?thesis
    using len by (simp add: e unat_of_nat u16_max_def)
qed

lemma decode_dir_loop_encodes:
  assumes "encodes sts es" and "length (pre @ concat es) \<le> usize_max"
  shows "decode_dir_loop (pre @ concat es) (length pre) acc = Inr (acc @ sts)"
  using assms
proof (induction sts arbitrary: es pre acc)
  case Nil
  then show ?case by (simp add: decode_dir_loop.simps)
next
  case (Cons st sts)
  then obtain e es' where es: "es = e # es'" and e: "Stat_encode st = Inr e" and es': "encodes sts es'"
    by (auto simp: encodes_Cons1)
  let ?data = "pre @ concat es"
  have le: "2 \<le> length e"
    using Stat_encode_length [OF e] by linarith
  have idx: "?data ! length pre = e ! 0" "?data ! (length pre + 1) = e ! 1"
    using le by (auto simp: es nth_append)
  have size: "unat (from_le_bytes [?data ! length pre, ?data ! (length pre + 1)] :: u16) + 2 = length e"
    unfolding idx by (rule Stat_encode_size_prefix [OF e])
  have add: "usize_checked_add (length pre) (length e) = Some (length (pre @ e))"
    using Cons.prems(2) by (simp add: usize_checked_add_def es)
  have entry: "take (length (pre @ e) - length pre) (drop (length pre) ?data) = e"
    by (simp add: es)
  have "decode_dir_loop ((pre @ e) @ concat es') (length (pre @ e)) (acc @ [st]) = Inr ((acc @ [st]) @ sts)"
    by (rule Cons.IH [OF es']) (use Cons.prems(2) es in simp)
  moreover have "decode_dir_loop ?data (length pre) acc =
    decode_dir_loop ?data (length (pre @ e)) (acc @ [st])"
  proof -
    have "length pre < length ?data" "\<not> length ?data - length pre < 2" "length (pre @ e) \<le> length ?data"
      using le by (auto simp: es)
    then show ?thesis
      by (subst decode_dir_loop.simps) (simp only: if_True if_False Let_def size add option.case
        entry Stat_decode_encode [OF e] and_then_simps)
  qed
  ultimately show ?case
    by (simp add: es)
qed

lemma decode_dir_entries_encodes:
  "encodes sts es \<Longrightarrow> length (concat es) \<le> usize_max \<Longrightarrow> decode_dir_entries (concat es) = Inr sts"
  using decode_dir_loop_encodes [of sts es "[]" "[]"] by (simp add: decode_dir_entries_def)

lemma decode_dir_loop_sound:
  "decode_dir_loop data offset acc = Inr sts \<Longrightarrow> offset \<le> length data \<Longrightarrow>
   \<exists>new es. sts = acc @ new \<and> encodes new es \<and> drop offset data = concat es"
proof (induction data offset acc rule: decode_dir_loop.induct)
  case (1 data offset acc)
  show ?case
  proof (cases "offset < length data")
    case False
    with "1.prems" show ?thesis
      by (intro exI [of _ "[]"]) (simp add: decode_dir_loop.simps [of data offset acc])
  next
    case True
    let ?size = "unat (from_le_bytes [data ! offset, data ! (offset + 1)] :: u16)"
    obtain e st where long: "\<not> length data - offset < 2"
      and e: "usize_checked_add offset (?size + 2) = Some e" "e \<le> length data"
      and st: "Stat_decode (take (e - offset) (drop offset data)) = Inr st"
      and rec: "decode_dir_loop data e (acc @ [st]) = Inr sts"
      using "1.prems"(1) True
      by (subst (asm) decode_dir_loop.simps)
        (auto simp: Let_def and_then_Inr_iff split: if_splits option.splits)
    from "1.IH" [OF True long refl e st] rec e(2) obtain new es where
      new: "sts = (acc @ [st]) @ new" "encodes new es" "drop e data = concat es"
      by blast
    have "offset \<le> e"
      using e(1) by (auto simp: usize_checked_add_def split: if_splits)
    then have "drop offset data = take (e - offset) (drop offset data) @ drop e data"
      by (metis append_take_drop_id drop_drop le_add_diff_inverse2)
    with new Stat_encode_decode [OF st] show ?thesis
      by (intro exI [of _ "st # new"] exI [of _ "take (e - offset) (drop offset data) # es"]) simp
  qed
qed

lemma decode_dir_entries_sound:
  "decode_dir_entries data = Inr sts \<Longrightarrow> \<exists>es. encodes sts es \<and> data = concat es"
  using decode_dir_loop_sound [of data 0 "[]" sts] by (auto simp: decode_dir_entries_def)

end
