(* ===== verification/R9P_Referral.thy ===== *)
theory R9P_Referral
  imports R9P_Types
begin

text \<open>
  Namespace referrals (\<^verbatim>\<open>referral.rs\<close>): the admission check of a referral record, and the
  rebasing of a namespace path from the referral's mount point onto the root the target exports.
  The byte-string methods of Rust the checks use (\<open>split\<close>, \<open>starts_with\<close>, \<open>strip_prefix\<close>,
  \<open>String::from_utf8_lossy\<close>) come first.
\<close>

section \<open>Byte-string methods\<close>

definition SLASH :: u8 where "SLASH = 0x2F"
definition DOT :: u8 where "DOT = 0x2E"

fun split_on :: "u8 \<Rightarrow> bytes \<Rightarrow> bytes list" where
  "split_on c [] = [[]]"
| "split_on c (b # bs) =
     (if b = c then [] # split_on c bs
      else (b # hd (split_on c bs)) # tl (split_on c bs))"

fun strip_prefix :: "bytes \<Rightarrow> bytes \<Rightarrow> bytes option" where
  "strip_prefix [] path = Some path"
| "strip_prefix (m # ms) [] = None"
| "strip_prefix (m # ms) (p # ps) = (if m = p then strip_prefix ms ps else None)"

definition starts_with :: "bytes \<Rightarrow> bytes \<Rightarrow> bool" where
  "starts_with s pre \<longleftrightarrow> strip_prefix pre s \<noteq> None"

definition ends_with :: "bytes \<Rightarrow> bytes \<Rightarrow> bool" where
  "ends_with s suf \<longleftrightarrow> length suf \<le> length s \<and> drop (length s - length suf) s = suf"

definition is_ascii_control :: "u8 \<Rightarrow> bool" where
  "is_ascii_control b \<longleftrightarrow> b < 0x20 \<or> b = 0x7F"

text \<open>One step of \<^verbatim>\<open>String::from_utf8_lossy\<close>: how many bytes the next chunk has, and whether it
  is a well-formed character.\<close>

definition utf8_continuation :: "u8 \<Rightarrow> bool" where
  "utf8_continuation b \<longleftrightarrow> 0x80 \<le> b \<and> b \<le> 0xBF"

definition utf8_second :: "u8 \<Rightarrow> u8 \<Rightarrow> bool" where
  "utf8_second a b \<longleftrightarrow>
     (if 0xC2 \<le> a \<and> a \<le> 0xDF then utf8_continuation b
      else if a = 0xE0 then 0xA0 \<le> b \<and> b \<le> 0xBF
      else if a = 0xED then 0x80 \<le> b \<and> b \<le> 0x9F
      else if 0xE1 \<le> a \<and> a \<le> 0xEF then utf8_continuation b
      else if a = 0xF0 then 0x90 \<le> b \<and> b \<le> 0xBF
      else if 0xF1 \<le> a \<and> a \<le> 0xF3 then utf8_continuation b
      else if a = 0xF4 then 0x80 \<le> b \<and> b \<le> 0x8F
      else False)"

definition utf8_width :: "u8 \<Rightarrow> nat" where
  "utf8_width a =
     (if a < 0x80 then 1 else if a < 0xC2 then 0 else if a < 0xE0 then 2
      else if a < 0xF0 then 3 else if a < 0xF5 then 4 else 0)"

fun utf8_step :: "bytes \<Rightarrow> nat \<times> bool" where
  "utf8_step [] = (0, True)"
| "utf8_step (a # bs) =
     (if utf8_width a = 1 then (1, True)
      else if utf8_width a = 0 then (1, False)
      else case bs of
        [] \<Rightarrow> (1, False)
      | b # cs \<Rightarrow>
          (if \<not> utf8_second a b then (1, False)
           else if utf8_width a = 2 then (2, True)
           else case cs of
             [] \<Rightarrow> (2, False)
           | c # ds \<Rightarrow>
               (if \<not> utf8_continuation c then (2, False)
                else if utf8_width a = 3 then (3, True)
                else case ds of
                  [] \<Rightarrow> (3, False)
                | d # _ \<Rightarrow> (if utf8_continuation d then (4, True) else (3, False)))))"

lemma utf8_step_pos: "s \<noteq> [] \<Longrightarrow> (n, ok) = utf8_step s \<Longrightarrow> 0 < n"
  by (cases s) (auto split: list.splits if_splits)

function from_utf8_lossy :: "bytes \<Rightarrow> bytes" where
  "from_utf8_lossy s =
     (if s = [] then []
      else let (n, ok) = utf8_step s in
        (if ok then take n s else [0xEF, 0xBF, 0xBD]) @ from_utf8_lossy (drop n s))"
  by pat_completeness auto
termination
proof (relation "measure length")
  fix s :: bytes and p n ok
  assume "s \<noteq> []" and "p = utf8_step s" and "(n, ok) = p"
  then show "(drop n s, s) \<in> measure length"
    using utf8_step_pos [of s n ok] by simp
qed simp

declare from_utf8_lossy.simps [simp del]

section \<open>Validation and rebasing\<close>

definition validate_nonempty :: "string \<Rightarrow> bytes \<Rightarrow> unit result" where
  "validate_nonempty field v =
     ensure (v \<noteq> []) (Error_from (''namespace referral '' @ field @ '' must not be empty''))"

definition absolute_path_valid :: "bytes \<Rightarrow> bool \<Rightarrow> bool" where
  "absolute_path_valid path allow_root \<longleftrightarrow>
     (if path = [SLASH] then allow_root
      else starts_with path [SLASH] \<and> \<not> ends_with path [SLASH]
        \<and> list_all (\<lambda>segment. segment \<noteq> [] \<and> segment \<noteq> [DOT] \<and> segment \<noteq> [DOT, DOT])
            (drop 1 (split_on SLASH path))
        \<and> \<not> list_ex (\<lambda>b. b = 0 \<or> is_ascii_control b) path)"

definition validate_absolute_path :: "string \<Rightarrow> bytes \<Rightarrow> bool \<Rightarrow> unit result" where
  "validate_absolute_path field path allow_root =
     ensure (absolute_path_valid path allow_root)
       (Error_from (''namespace referral '' @ field @ '' must be a canonical absolute path''))"

definition validate_text_field :: "string \<times> bytes \<Rightarrow> unit result" where
  "validate_text_field fv =
     (case fv of (field, v) \<Rightarrow>
        and_then (validate_nonempty field v) (\<lambda>_.
          ensure (\<not> list_ex (\<lambda>b. b = 0 \<or> is_ascii_control b) v)
            (Error_from (''namespace referral '' @ field @ '' contains a control byte''))))"

definition referral_validate :: "namespace_referral \<Rightarrow> unit result" where
  "referral_validate r =
     and_then (validate_absolute_path ''mount_path'' (mount_path r) False) (\<lambda>_.
     and_then (validate_absolute_path ''exported_root'' (exported_root r) True) (\<lambda>_.
     and_then (for_each validate_text_field
       [(''endpoint'', endpoint r), (''uname'', ref_uname r), (''aname'', ref_aname r),
        (''authority_boundary'', authority_boundary r)]) (\<lambda>_.
     and_then (ensure (generation r \<noteq> 0)
       (Error_from ''namespace referral generation must be positive'')) (\<lambda>_.
     ensure (valid_for_ms r \<noteq> 0)
       (Error_from ''namespace referral valid_for_ms must be positive'')))))"

definition mounted_suffix :: "bytes \<Rightarrow> bytes \<Rightarrow> bytes option" where
  "mounted_suffix path mount =
     (if path = mount then Some []
      else case strip_prefix mount path of
        None \<Rightarrow> None
      | Some suffix \<Rightarrow> if starts_with suffix [SLASH] then Some suffix else None)"

definition join_namespace_path :: "bytes \<Rightarrow> bytes \<Rightarrow> bytes" where
  "join_namespace_path root suffix =
     (if root = [SLASH] \<and> suffix = [] then [SLASH]
      else if root = [SLASH] then suffix
      else if suffix = [] then root
      else root @ suffix)"

definition routed_path :: "namespace_referral \<Rightarrow> bytes \<Rightarrow> bytes result" where
  "routed_path r namespace_path =
     and_then (validate_absolute_path ''namespace_path'' namespace_path True) (\<lambda>_.
     and_then (ok_or (mounted_suffix namespace_path (mount_path r))
       (Error (str ''namespace path '' @ from_utf8_lossy namespace_path
          @ str '' is outside referral mount '' @ from_utf8_lossy (mount_path r)))) (\<lambda>suffix.
     Inr (join_namespace_path (exported_root r) suffix)))"

section \<open>Rebasing keeps paths canonical and confined\<close>

lemma split_on_nonempty [simp]: "split_on c s \<noteq> []"
  by (cases s) auto

lemma split_on_append: "split_on c (a @ c # b) = split_on c a @ split_on c b"
  by (induction a) auto

lemma strip_prefix_Some_iff: "strip_prefix m p = Some s \<longleftrightarrow> p = m @ s"
  by (induction m p rule: strip_prefix.induct) auto

lemma starts_with_slash: "starts_with s [SLASH] \<longleftrightarrow> (\<exists>r. s = SLASH # r)"
  by (cases s) (auto simp: starts_with_def)

lemma ends_with_slash: "ends_with s [SLASH] \<longleftrightarrow> s \<noteq> [] \<and> last s = SLASH"
  by (cases s rule: rev_cases) (auto simp: ends_with_def)

lemma strip_prefix_None_iff: "strip_prefix m p = None \<longleftrightarrow> (\<forall>s. p \<noteq> m @ s)"
  by (induction m p rule: strip_prefix.induct) auto

lemma mounted_suffix_Some_iff:
  "mounted_suffix p m = Some s \<longleftrightarrow> p = m @ s \<and> (s = [] \<or> (\<exists>r. s = SLASH # r))"
  by (auto simp: mounted_suffix_def strip_prefix_Some_iff strip_prefix_None_iff starts_with_slash
      split: option.splits if_splits)

definition good_segment :: "bytes \<Rightarrow> bool" where
  "good_segment s \<longleftrightarrow> s \<noteq> [] \<and> s \<noteq> [DOT] \<and> s \<noteq> [DOT, DOT]"

definition clean :: "bytes \<Rightarrow> bool" where
  "clean s \<longleftrightarrow> (\<forall>b \<in> set s. b \<noteq> 0 \<and> \<not> is_ascii_control b)"

lemma absolute_path_valid_iff:
  "p \<noteq> [SLASH] \<Longrightarrow> absolute_path_valid p root \<longleftrightarrow>
     (\<exists>r. p = SLASH # r \<and> last p \<noteq> SLASH \<and> (\<forall>s \<in> set (split_on SLASH r). good_segment s) \<and> clean p)"
  by (cases p) (simp_all add: absolute_path_valid_def starts_with_slash ends_with_slash
      good_segment_def clean_def list_all_iff list_ex_iff cong: conj_cong)

lemma join_valid:
  assumes m: "absolute_path_valid m False" and p: "absolute_path_valid p True"
    and root: "absolute_path_valid root True" and s: "p = m @ s" "s = [] \<or> (\<exists>r. s = SLASH # r)"
  shows "absolute_path_valid (join_namespace_path root s) True"
proof (cases "s = []")
  case True
  then show ?thesis using root by (auto simp: join_namespace_path_def)
next
  case False
  then obtain r where r: "s = SLASH # r" using s(2) by blast
  have mS: "m \<noteq> [SLASH]" using m by (auto simp: absolute_path_valid_def)
  then obtain m' where m': "m = SLASH # m'" using m by (auto simp: absolute_path_valid_iff)
  have pS: "p \<noteq> [SLASH]" using s(1) r m' by simp
  then have segs: "\<forall>x \<in> set (split_on SLASH r). good_segment x" and cl: "clean s" and la: "last s \<noteq> SLASH"
    using p s(1) r m' by (auto simp: absolute_path_valid_iff split_on_append clean_def)
  show ?thesis
  proof (cases "root = [SLASH]")
    case True
    have "s \<noteq> [SLASH]" using la by auto
    then show ?thesis
      using True r segs cl la by (simp add: join_namespace_path_def absolute_path_valid_iff)
  next
    case False
    then obtain t where t: "root = SLASH # t" "\<forall>x \<in> set (split_on SLASH t). good_segment x" "clean root"
      using root by (auto simp: absolute_path_valid_iff)
    have "absolute_path_valid (root @ s) True"
      using t r segs cl la by (subst absolute_path_valid_iff) (auto simp: split_on_append clean_def)
    then show ?thesis
      using False r by (simp add: join_namespace_path_def)
  qed
qed

text \<open>The part of a rebased path behind the exported root: everything for the root itself.\<close>

definition exported_suffix :: "bytes \<Rightarrow> bytes \<Rightarrow> bytes option" where
  "exported_suffix root path =
     (if root = [SLASH] then (if path = [SLASH] then Some [] else Some path)
      else mounted_suffix path root)"

lemma routed_path_Inr_iff:
  "routed_path r p = Inr q \<longleftrightarrow>
     absolute_path_valid p True \<and> (\<exists>s. mounted_suffix p (mount_path r) = Some s
       \<and> q = join_namespace_path (exported_root r) s)"
  by (auto simp: routed_path_def validate_absolute_path_def result_simps)

lemma referral_validate_Inr:
  "referral_validate r = Inr u \<longleftrightarrow>
     absolute_path_valid (mount_path r) False \<and> absolute_path_valid (exported_root r) True
     \<and> (\<forall>v \<in> {endpoint r, ref_uname r, ref_aname r, authority_boundary r}. v \<noteq> [] \<and> clean v)
     \<and> generation r \<noteq> 0 \<and> valid_for_ms r \<noteq> 0"
  by (auto simp: referral_validate_def validate_absolute_path_def validate_text_field_def
      validate_nonempty_def clean_def list_ex_iff result_simps)

lemma exported_suffix_join:
  assumes "absolute_path_valid p True" and "mounted_suffix p m = Some s" and "absolute_path_valid m False"
  shows "exported_suffix root (join_namespace_path root s) = Some s"
proof -
  have s: "p = m @ s" "s = [] \<or> (\<exists>r. s = SLASH # r)"
    using assms(2) by (simp_all add: mounted_suffix_Some_iff)
  have "s \<noteq> [SLASH]"
  proof
    assume "s = [SLASH]"
    moreover have "m \<noteq> []"
      using assms(3) by (auto simp: absolute_path_valid_def starts_with_slash)
    ultimately show False
      using assms(1) s by (auto simp: absolute_path_valid_def ends_with_slash split: if_splits)
  qed
  then show ?thesis
    using s by (auto simp: exported_suffix_def join_namespace_path_def mounted_suffix_Some_iff)
qed

end
