(* ===== verification/R9P_Codec.thy ===== *)
theory R9P_Codec
  imports R9P_Stat R9P_Referral
begin

text \<open>
  The message codec (\<^verbatim>\<open>codec.rs\<close>): protocol variants and the size helpers, the two encoders
  and the two decoders. The locale \<open>message_codec\<close> states what a body writer and a body reader
  promise each other; from it the frame level (size prefix, type byte, tag, trailing-byte check)
  is proved once and instantiated for requests and for responses, which makes both pairs of
  functions instances of \<open>wire_format\<close>.
\<close>

section \<open>Variants and sizes\<close>

definition FRAME_HEADER_SIZE :: u32 where "FRAME_HEADER_SIZE = 7"
definition RREAD_HEADER_SIZE :: u32 where "RREAD_HEADER_SIZE = 11"
definition TWRITE_HEADER_SIZE :: u32 where "TWRITE_HEADER_SIZE = 23"
definition IOUNIT_HEADER_SIZE :: u32 where "IOUNIT_HEADER_SIZE = 24"
definition DEFAULT_MSIZE :: u32 where "DEFAULT_MSIZE = 8192"
definition MIN_MSIZE :: u32 where "MIN_MSIZE = 256"
definition MAX_MSIZE :: u32 where "MAX_MSIZE = 1024 * 1024"

lemmas size_defs = FRAME_HEADER_SIZE_def RREAD_HEADER_SIZE_def TWRITE_HEADER_SIZE_def
  IOUNIT_HEADER_SIZE_def DEFAULT_MSIZE_def MIN_MSIZE_def MAX_MSIZE_def

datatype variant = Plain | R

fun wire_name :: "variant \<Rightarrow> bytes" where
  "wire_name Plain = str ''9P2000''"
| "wire_name R = str ''9P2000.R''"

definition plain_request :: "bytes \<Rightarrow> bool" where
  "plain_request requested \<longleftrightarrow>
     requested = wire_name Plain
     \<or> (case strip_prefix (wire_name Plain) requested of
          None \<Rightarrow> False
        | Some suffix \<Rightarrow> starts_with suffix [DOT])"

definition variant_accept :: "variant \<Rightarrow> bytes \<Rightarrow> variant option" where
  "variant_accept v requested =
     (if v = R \<and> requested = wire_name R then Some R
      else if plain_request requested then Some Plain else None)"

definition supports_symlinks :: "variant \<Rightarrow> bool" where "supports_symlinks v \<longleftrightarrow> v = R"
definition supports_referrals :: "variant \<Rightarrow> bool" where "supports_referrals v \<longleftrightarrow> v = R"
definition supports_rename_at :: "variant \<Rightarrow> bool" where "supports_rename_at v \<longleftrightarrow> v = R"

definition accept_response :: "variant \<Rightarrow> bytes \<Rightarrow> variant option" where
  "accept_response v response =
     (if v = R \<and> response = wire_name R then Some R
      else if response = wire_name Plain then Some Plain else None)"

definition clamp_read_count :: "u32 \<Rightarrow> u32 \<Rightarrow> u32" where
  "clamp_read_count msize requested = min requested (saturating_sub msize RREAD_HEADER_SIZE)"

definition max_write_payload :: "u32 \<Rightarrow> u32" where
  "max_write_payload msize = saturating_sub msize TWRITE_HEADER_SIZE"

definition max_iounit :: "u32 \<Rightarrow> u32" where
  "max_iounit msize = saturating_sub msize IOUNIT_HEADER_SIZE"

section \<open>Frames\<close>

definition frame_prefix :: "u8 \<Rightarrow> u16 \<Rightarrow> bytes" where
  "frame_prefix message_type tag = push_u16 (push_u8 (push_u32 [] 0) message_type) tag"

definition finish_frame :: "bytes \<Rightarrow> bytes result" where
  "finish_frame frame =
     and_then (ok_or (u32_try_from (length frame)) (Error_from ''frame too large'')) (\<lambda>size.
       Inr (to_le_bytes size @ drop 4 frame))"

definition validate_frame_size :: "bytes \<Rightarrow> unit result" where
  "validate_frame_size frame =
     (if length frame < unat FRAME_HEADER_SIZE then Inl (Error_from ''truncated frame'')
      else let size = from_le_bytes [frame ! 0, frame ! 1, frame ! 2, frame ! 3] :: u32 in
        and_then (ok_or (u32_try_from (length frame)) (Error_from ''frame too large'')) (\<lambda>actual.
          ensure (size = actual) (Error_from ''frame size mismatch'')))"

section \<open>Referral records\<close>

definition encode_referral :: "bytes \<Rightarrow> namespace_referral \<Rightarrow> bytes result" where
  "encode_referral out r =
     and_then (referral_validate r) (\<lambda>_.
     and_then (push_each push_string out
       [mount_path r, endpoint r, ref_uname r, ref_aname r, exported_root r, authority_boundary r]) (\<lambda>out.
     Inr (push_u64 (push_u64 out (generation r)) (valid_for_ms r))))"

definition decode_referral :: "(cursor, namespace_referral) fallible" where
  "decode_referral =
     bind_s cursor_string (\<lambda>mount. bind_s cursor_string (\<lambda>ep. bind_s cursor_string (\<lambda>un.
     bind_s cursor_string (\<lambda>an. bind_s cursor_string (\<lambda>root. bind_s cursor_string (\<lambda>auth.
     bind_s cursor_u64 (\<lambda>gen. bind_s cursor_u64 (\<lambda>valid.
     let r = \<lparr>mount_path = mount, endpoint = ep, ref_uname = un, ref_aname = an,
              exported_root = root, authority_boundary = auth, generation = gen,
              valid_for_ms = valid\<rparr> in
     bind_s (lift_s (referral_validate r)) (\<lambda>_. return_s r)))))))))"

section \<open>Requests\<close>

fun push_t_body :: "bytes \<Rightarrow> tmessage \<Rightarrow> bytes result" where
  "push_t_body f (T_Version tag msize version) = push_string (push_u32 f msize) version"
| "push_t_body f (T_Auth tag afid uname aname) =
     and_then (push_string (push_u32 f afid) uname) (\<lambda>f. push_string f aname)"
| "push_t_body f (T_Attach tag fid afid uname aname) =
     and_then (push_string (push_u32 (push_u32 f fid) afid) uname) (\<lambda>f. push_string f aname)"
| "push_t_body f (T_Flush tag oldtag) = Inr (push_u16 f oldtag)"
| "push_t_body f (T_Walk tag fid newfid wnames) =
     (if length wnames > MAXWELEM then Inl (Error_from ''name too long'')
      else let f = push_u32 (push_u32 f fid) newfid in
        and_then (ok_or (u16_try_from (length wnames)) (Error_from ''name too long'')) (\<lambda>n.
          push_each push_string (push_u16 f n) wnames))"
| "push_t_body f (T_Open tag fid mode) = Inr (push_u8 (push_u32 f fid) mode)"
| "push_t_body f (T_Create tag fid name perm mode) =
     and_then (push_string (push_u32 f fid) name) (\<lambda>f. Inr (push_u8 (push_u32 f perm) mode))"
| "push_t_body f (T_Read tag fid offset count) =
     Inr (push_u32 (push_u64 (push_u32 f fid) offset) count)"
| "push_t_body f (T_Write tag fid offset data) =
     and_then (ok_or (u32_try_from (length data)) (Error_from ''write too large'')) (\<lambda>count.
       Inr (push_u32 (push_u64 (push_u32 f fid) offset) count @ data))"
| "push_t_body f (T_Clunk tag fid) = Inr (push_u32 f fid)"
| "push_t_body f (T_Remove tag fid) = Inr (push_u32 f fid)"
| "push_t_body f (T_Stat tag fid) = Inr (push_u32 f fid)"
| "push_t_body f (T_Wstat tag fid st) =
     and_then (Stat_encode st) (\<lambda>encoded. let f = push_u32 f fid in
     and_then (ok_or (u16_try_from (length encoded)) (Error_from ''stat too large'')) (\<lambda>n.
       Inr (push_u16 f n @ encoded)))"
| "push_t_body f (T_RenameAt tag olddirfid oldname newdirfid newname) =
     and_then (push_string (push_u32 f olddirfid) oldname) (\<lambda>f.
       push_string (push_u32 f newdirfid) newname)"
| "push_t_body f (T_Referrals tag fid) = Inr (push_u32 f fid)"

definition encode_tmessage :: "tmessage \<Rightarrow> bytes result" where
  "encode_tmessage m = and_then (push_t_body (frame_prefix (t_message_type m) (t_tag m)) m) finish_frame"

definition encode_tmessage_checked :: "tmessage \<Rightarrow> u32 \<Rightarrow> bytes result" where
  "encode_tmessage_checked m msize =
     and_then (encode_tmessage m) (\<lambda>frame.
     and_then (ok_or (u32_try_from (length frame)) (Error_from ''frame too large'')) (\<lambda>len.
     if len > msize then Inl (Error_from ''frame exceeds msize'') else Inr frame))"

definition get_t_body :: "u8 \<Rightarrow> u16 \<Rightarrow> (cursor, tmessage) fallible" where
  "get_t_body message_type tag =
    (if message_type = TVERSION then
       bind_s cursor_u32 (\<lambda>msize. bind_s cursor_string (\<lambda>version. return_s (T_Version tag msize version)))
     else if message_type = TAUTH then
       bind_s cursor_u32 (\<lambda>afid. bind_s cursor_string (\<lambda>uname. bind_s cursor_string (\<lambda>aname.
         return_s (T_Auth tag afid uname aname))))
     else if message_type = TATTACH then
       bind_s cursor_u32 (\<lambda>fid. bind_s cursor_u32 (\<lambda>afid. bind_s cursor_string (\<lambda>uname.
         bind_s cursor_string (\<lambda>aname. return_s (T_Attach tag fid afid uname aname)))))
     else if message_type = TFLUSH then
       bind_s cursor_u16 (\<lambda>oldtag. return_s (T_Flush tag oldtag))
     else if message_type = TWALK then
       bind_s cursor_u32 (\<lambda>fid. bind_s cursor_u32 (\<lambda>newfid. bind_s cursor_u16 (\<lambda>nwname.
         if unat nwname > MAXWELEM then throw_s (Error_from ''name too long'')
         else bind_s (repeat_s (unat nwname) cursor_string) (\<lambda>wnames.
           return_s (T_Walk tag fid newfid wnames)))))
     else if message_type = TOPEN then
       bind_s cursor_u32 (\<lambda>fid. bind_s cursor_u8 (\<lambda>mode. return_s (T_Open tag fid mode)))
     else if message_type = TCREATE then
       bind_s cursor_u32 (\<lambda>fid. bind_s cursor_string (\<lambda>name. bind_s cursor_u32 (\<lambda>perm.
         bind_s cursor_u8 (\<lambda>mode. return_s (T_Create tag fid name perm mode)))))
     else if message_type = TREAD then
       bind_s cursor_u32 (\<lambda>fid. bind_s cursor_u64 (\<lambda>offset. bind_s cursor_u32 (\<lambda>count.
         return_s (T_Read tag fid offset count))))
     else if message_type = TWRITE then
       bind_s cursor_u32 (\<lambda>fid. bind_s cursor_u64 (\<lambda>offset. bind_s cursor_u32 (\<lambda>count.
         bind_s (cursor_bytes (unat count)) (\<lambda>data. return_s (T_Write tag fid offset data)))))
     else if message_type = TCLUNK then bind_s cursor_u32 (\<lambda>fid. return_s (T_Clunk tag fid))
     else if message_type = TREMOVE then bind_s cursor_u32 (\<lambda>fid. return_s (T_Remove tag fid))
     else if message_type = TSTAT then bind_s cursor_u32 (\<lambda>fid. return_s (T_Stat tag fid))
     else if message_type = TWSTAT then
       bind_s cursor_u32 (\<lambda>fid. bind_s cursor_u16 (\<lambda>nstat.
         bind_s (cursor_bytes (unat nstat)) (\<lambda>data. bind_s (lift_s (Stat_decode data)) (\<lambda>st.
           return_s (T_Wstat tag fid st)))))
     else if message_type = TRENAMEAT then
       bind_s cursor_u32 (\<lambda>olddirfid. bind_s cursor_string (\<lambda>oldname. bind_s cursor_u32 (\<lambda>newdirfid.
         bind_s cursor_string (\<lambda>newname.
           return_s (T_RenameAt tag olddirfid oldname newdirfid newname)))))
     else if message_type = TREFERRALS then
       bind_s cursor_u32 (\<lambda>fid. return_s (T_Referrals tag fid))
     else throw_s (Error_from ''unknown message type''))"

definition decode_tmessage :: "bytes \<Rightarrow> tmessage result" where
  "decode_tmessage frame =
     and_then (validate_frame_size frame) (\<lambda>_.
       let message_type = frame ! 4; tag = from_le_bytes [frame ! 5, frame ! 6] in
       fst (then_exhausted (get_t_body message_type tag) (Error_from ''trailing frame bytes'')
         (Cursor_new (drop (unat FRAME_HEADER_SIZE) frame))))"

section \<open>Responses\<close>

fun push_r_body :: "bytes \<Rightarrow> rmessage \<Rightarrow> bytes result" where
  "push_r_body f (R_Version tag msize version) = push_string (push_u32 f msize) version"
| "push_r_body f (R_Auth tag aqid) = Inr (push_qid f aqid)"
| "push_r_body f (R_Attach tag q) = Inr (push_qid f q)"
| "push_r_body f (R_Error tag ename) = push_string f ename"
| "push_r_body f (R_Flush tag) = Inr f"
| "push_r_body f (R_Walk tag qids) =
     (if length qids > MAXWELEM then Inl (Error_from ''name too long'')
      else and_then (ok_or (u16_try_from (length qids)) (Error_from ''name too long'')) (\<lambda>n.
        push_each (\<lambda>out q. Inr (push_qid out q)) (push_u16 f n) qids))"
| "push_r_body f (R_Open tag q iounit) = Inr (push_u32 (push_qid f q) iounit)"
| "push_r_body f (R_Create tag q iounit) = Inr (push_u32 (push_qid f q) iounit)"
| "push_r_body f (R_Read tag data) =
     and_then (ok_or (u32_try_from (length data)) (Error_from ''read too large'')) (\<lambda>count.
       Inr (push_u32 f count @ data))"
| "push_r_body f (R_Write tag count) = Inr (push_u32 f count)"
| "push_r_body f (R_Clunk tag) = Inr f"
| "push_r_body f (R_Remove tag) = Inr f"
| "push_r_body f (R_Stat tag st) =
     and_then (Stat_encode st) (\<lambda>encoded.
     and_then (ok_or (u16_try_from (length encoded)) (Error_from ''stat too large'')) (\<lambda>n.
       Inr (push_u16 f n @ encoded)))"
| "push_r_body f (R_Wstat tag) = Inr f"
| "push_r_body f (R_RenameAt tag) = Inr f"
| "push_r_body f (R_Referrals tag referrals) =
     and_then (ok_or (u16_try_from (length referrals)) (Error_from ''too many namespace referrals'')) (\<lambda>n.
       push_each encode_referral (push_u16 f n) referrals)"

definition encode_rmessage :: "rmessage \<Rightarrow> bytes result" where
  "encode_rmessage m = and_then (push_r_body (frame_prefix (r_message_type m) (r_tag m)) m) finish_frame"

definition encode_rmessage_checked :: "rmessage \<Rightarrow> u32 \<Rightarrow> bytes result" where
  "encode_rmessage_checked m msize =
     and_then (encode_rmessage m) (\<lambda>frame.
     and_then (ok_or (u32_try_from (length frame)) (Error_from ''frame too large'')) (\<lambda>len.
     if len > msize then Inl (Error_from ''frame exceeds msize'') else Inr frame))"

definition get_r_body :: "u8 \<Rightarrow> u16 \<Rightarrow> (cursor, rmessage) fallible" where
  "get_r_body message_type tag =
    (if message_type = RVERSION then
       bind_s cursor_u32 (\<lambda>msize. bind_s cursor_string (\<lambda>version. return_s (R_Version tag msize version)))
     else if message_type = RAUTH then bind_s cursor_qid (\<lambda>aqid. return_s (R_Auth tag aqid))
     else if message_type = RATTACH then bind_s cursor_qid (\<lambda>q. return_s (R_Attach tag q))
     else if message_type = RERROR then bind_s cursor_string (\<lambda>ename. return_s (R_Error tag ename))
     else if message_type = RFLUSH then return_s (R_Flush tag)
     else if message_type = RWALK then
       bind_s cursor_u16 (\<lambda>nwqid.
         if unat nwqid > MAXWELEM then throw_s (Error_from ''name too long'')
         else bind_s (repeat_s (unat nwqid) cursor_qid) (\<lambda>qids. return_s (R_Walk tag qids)))
     else if message_type = ROPEN then
       bind_s cursor_qid (\<lambda>q. bind_s cursor_u32 (\<lambda>iounit. return_s (R_Open tag q iounit)))
     else if message_type = RCREATE then
       bind_s cursor_qid (\<lambda>q. bind_s cursor_u32 (\<lambda>iounit. return_s (R_Create tag q iounit)))
     else if message_type = RREAD then
       bind_s cursor_u32 (\<lambda>count. bind_s (cursor_bytes (unat count)) (\<lambda>data.
         return_s (R_Read tag data)))
     else if message_type = RWRITE then bind_s cursor_u32 (\<lambda>count. return_s (R_Write tag count))
     else if message_type = RCLUNK then return_s (R_Clunk tag)
     else if message_type = RREMOVE then return_s (R_Remove tag)
     else if message_type = RSTAT then
       bind_s cursor_u16 (\<lambda>nstat. bind_s (cursor_bytes (unat nstat)) (\<lambda>data.
         bind_s (lift_s (Stat_decode data)) (\<lambda>st. return_s (R_Stat tag st))))
     else if message_type = RWSTAT then return_s (R_Wstat tag)
     else if message_type = RRENAMEAT then return_s (R_RenameAt tag)
     else if message_type = RREFERRALS then
       bind_s cursor_u16 (\<lambda>count. bind_s (repeat_s (unat count) decode_referral) (\<lambda>referrals.
         return_s (R_Referrals tag referrals)))
     else throw_s (Error_from ''unknown message type''))"

definition decode_rmessage :: "bytes \<Rightarrow> rmessage result" where
  "decode_rmessage frame =
     and_then (validate_frame_size frame) (\<lambda>_.
       let message_type = frame ! 4; tag = from_le_bytes [frame ! 5, frame ! 6] in
       fst (then_exhausted (get_r_body message_type tag) (Error_from ''trailing frame bytes'')
         (Cursor_new (drop (unat FRAME_HEADER_SIZE) frame))))"

section \<open>From bodies to frames\<close>

lemma frame_prefix_eq: "frame_prefix ty tag = to_le_bytes (0 :: u32) @ ty # to_le_bytes tag"
  by (simp add: frame_prefix_def push_eqs)

lemma finish_frame_Inr:
  "finish_frame (frame_prefix ty tag @ body) = Inr frame \<longleftrightarrow>
     7 + length body \<le> u32_max \<and>
     frame = to_le_bytes (word_of_nat (7 + length body) :: u32) @ ty # to_le_bytes tag @ body"
  by (auto simp: finish_frame_def frame_prefix_eq and_then_Inr_iff u32_try_from_def split: if_splits)

lemma u16_from_le_bytes_exact: "to_le_bytes (from_le_bytes [a, b] :: u16) = [a, b]"
  by (rule to_from_le_bytes_ws) simp

lemma u32_from_le_bytes_exact: "to_le_bytes (from_le_bytes [a, b, c, d] :: u32) = [a, b, c, d]"
  by (rule to_from_le_bytes_ws) simp

lemma list_of_length_2: "length xs = 2 \<Longrightarrow> xs = [xs ! 0, xs ! 1]"
  by (rule nth_equalityI) (auto simp: less_Suc_eq numeral_2_eq_2)

lemma list_of_length_4: "length xs = 4 \<Longrightarrow> xs = [xs ! 0, xs ! 1, xs ! 2, xs ! 3]"
  by (rule nth_equalityI) (auto simp: less_Suc_eq eval_nat_numeral)

text \<open>The frame as it lies on the wire.\<close>

definition framed :: "u8 \<Rightarrow> u16 \<Rightarrow> bytes \<Rightarrow> bytes" where
  "framed ty tag body = to_le_bytes (word_of_nat (7 + length body) :: u32) @ ty # to_le_bytes tag @ body"

lemma length_framed [simp]: "length (framed ty tag body) = 7 + length body"
  by (simp add: framed_def)

lemma framed_parts:
  "[framed ty tag body ! 0, framed ty tag body ! 1, framed ty tag body ! 2, framed ty tag body ! 3]
     = to_le_bytes (word_of_nat (7 + length body) :: u32)"
  "framed ty tag body ! 4 = ty"
  "[framed ty tag body ! 5, framed ty tag body ! 6] = to_le_bytes tag"
  "drop 7 (framed ty tag body) = body"
proof -
  let ?s = "to_le_bytes (word_of_nat (7 + length body) :: u32)"
  show "[framed ty tag body ! 0, framed ty tag body ! 1, framed ty tag body ! 2, framed ty tag body ! 3] = ?s"
    using list_of_length_4 [of ?s] by (simp add: framed_def nth_append)
  show "framed ty tag body ! 4 = ty"
    by (simp add: framed_def nth_append)
  show "[framed ty tag body ! 5, framed ty tag body ! 6] = to_le_bytes tag"
    using list_of_length_2 [of "to_le_bytes tag"] by (simp add: framed_def nth_append)
  show "drop 7 (framed ty tag body) = body"
    by (simp add: framed_def)
qed

lemma validate_framed: "7 + length body \<le> u32_max \<Longrightarrow> validate_frame_size (framed ty tag body) = Inr ()"
  by (simp only: validate_frame_size_def framed_parts Let_def)
    (simp add: u32_try_from_def FRAME_HEADER_SIZE_def)

lemma FRAME_HEADER_SIZE_nat: "unat FRAME_HEADER_SIZE = 7"
  by (simp add: FRAME_HEADER_SIZE_def)

lemmas decode_framed_simps = validate_framed framed_parts FRAME_HEADER_SIZE_nat and_then_simps Let_def
  from_to_le_bytes_ws

lemma validate_frame_size_Inr:
  assumes "validate_frame_size frame = Inr ()"
  shows "\<exists>ty tag body. frame = framed ty tag body \<and> 7 + length body \<le> u32_max
    \<and> ty = frame ! 4 \<and> tag = from_le_bytes [frame ! 5, frame ! 6] \<and> body = drop 7 frame"
proof -
  let ?h = "[frame ! 0, frame ! 1, frame ! 2, frame ! 3]"
  have len: "7 \<le> length frame" and size: "u32_try_from (length frame) = Some (from_le_bytes ?h)"
    using assms by (auto simp: validate_frame_size_def FRAME_HEADER_SIZE_def Let_def result_simps
        split: if_splits)
  have max: "length frame \<le> u32_max" and u: "unat (from_le_bytes ?h :: u32) = length frame"
    using size by (simp_all add: u32_try_from_Some_iff)
  have "word_of_nat (length frame) = (from_le_bytes ?h :: u32)"
    unfolding u [symmetric] by simp
  then have h: "to_le_bytes (word_of_nat (length frame) :: u32) = ?h"
    by (simp only: u32_from_le_bytes_exact)
  have "frame = ?h @ frame ! 4 # [frame ! 5, frame ! 6] @ drop 7 frame"
  proof -
    have "frame = take 7 frame @ drop 7 frame" by simp
    moreover have "take 7 frame = map ((!) frame) [0..<7]"
      using len by (intro nth_equalityI) auto
    moreover have "[0..<7] = [0, 1, 2, 3, 4, 5, 6 :: nat]"
      by (simp add: upt_rec)
    ultimately show ?thesis by simp
  qed
  then have "frame = framed (frame ! 4) (from_le_bytes [frame ! 5, frame ! 6]) (drop 7 frame)"
    unfolding framed_def u16_from_le_bytes_exact using h len by simp
  then show ?thesis using max len
    by (intro exI [of _ "frame ! 4"] exI [of _ "from_le_bytes [frame ! 5, frame ! 6]"] exI [of _ "drop 7 frame"])
      simp
qed

text \<open>The contract between a body writer and a body reader: the writer appends, what it appends
  is read back under the message's own type and tag, and whatever the reader accepts under a type
  and a tag is what the writer would append for a message of that type and tag.\<close>

locale message_codec =
  fixes push :: "bytes \<Rightarrow> 'm \<Rightarrow> bytes result"
    and get :: "u8 \<Rightarrow> u16 \<Rightarrow> (cursor, 'm) fallible"
    and mtype :: "'m \<Rightarrow> u8"
    and mtag :: "'m \<Rightarrow> u16"
  assumes push_append: "push out m = map_ok (\<lambda>bs. out @ bs) (push [] m)"
    and parses_body: "push [] m = Inr bs \<Longrightarrow> parses (get (mtype m) (mtag m)) bs m"
    and reads_body: "reads (get ty tg) (\<lambda>m bs. push [] m = Inr bs \<and> mtype m = ty \<and> mtag m = tg)"
begin

lemma encode_Inr:
  "and_then (push (frame_prefix (mtype m) (mtag m)) m) finish_frame = Inr frame \<longleftrightarrow>
     (\<exists>body. push [] m = Inr body \<and> 7 + length body \<le> u32_max \<and> frame = framed (mtype m) (mtag m) body)"
  by (subst push_append) (auto simp: result_simps finish_frame_Inr framed_def)

lemma frame_decode_encode:
  assumes "push [] m = Inr body" and "7 + length body \<le> u32_max"
  shows "fst (then_exhausted (get (mtype m) (mtag m)) e (Cursor_new body)) = Inr m"
  using exhausted_parses [OF parses_body [OF assms(1)] cursor_ok_new, of body e] assms(2) usize_max_ge
  by simp

lemma frame_encode_decode:
  assumes "fst (then_exhausted (get ty tag) e (Cursor_new body)) = Inr m"
  shows "push [] m = Inr body \<and> mtype m = ty \<and> mtag m = tag"
proof -
  obtain c where "then_exhausted (get ty tag) e (Cursor_new body) = (Inr m, c)"
    using assms by (metis prod.collapse)
  from exhausted_reads [OF reads_body this] show ?thesis by simp
qed

end

section \<open>Field rules for the composite fields\<close>

lemma parses_bind_bytes [parse_rules]:
  "n = length v \<Longrightarrow> parses (f v) bs w \<Longrightarrow> parses (bind_s (cursor_bytes n) f) (v @ bs) w"
  unfolding cursor_bytes_def by (rule parses_bind_take)

lemma reads_bind_bytes [read_rules]:
  "(\<And>v. length v = n \<Longrightarrow> reads (f v) (\<lambda>w bs. Q w (v @ bs))) \<Longrightarrow> reads (bind_s (cursor_bytes n) f) Q"
  unfolding cursor_bytes_def by (rule reads_bind_take)

lemma parses_bind_lift:
  "r = Inr v \<Longrightarrow> parses (f v) bs w \<Longrightarrow> parses (bind_s (lift_s r) f) bs w"
  by simp

lemma reads_bind_lift [read_rules]:
  "(\<And>v. r = Inr v \<Longrightarrow> reads (f v) Q) \<Longrightarrow> reads (bind_s (lift_s r) f) Q"
  by (cases r) (auto intro: reads_throw)

lemma reads_if [read_rules]:
  "(b \<Longrightarrow> reads p Q) \<Longrightarrow> (\<not> b \<Longrightarrow> reads q Q) \<Longrightarrow> reads (if b then p else q) Q"
  by simp

lemma parses_if [parse_rules]: "\<not> b \<Longrightarrow> parses q bs v \<Longrightarrow> parses (if b then p else q) bs v"
  by simp

lemma parses_append_NilI: "parses p (bs @ []) v \<Longrightarrow> parses p bs v"
  by simp

subsection \<open>Referrals\<close>

definition referral_bytes :: "namespace_referral \<Rightarrow> bytes" where
  "referral_bytes r =
     string_bytes (mount_path r) @ string_bytes (endpoint r) @ string_bytes (ref_uname r) @
     string_bytes (ref_aname r) @ string_bytes (exported_root r) @
     string_bytes (authority_boundary r) @ to_le_bytes (generation r) @ to_le_bytes (valid_for_ms r) @ []"

definition referral_ok :: "namespace_referral \<Rightarrow> bool" where
  "referral_ok r \<longleftrightarrow> referral_validate r = Inr () \<and> length (mount_path r) \<le> u16_max
     \<and> length (endpoint r) \<le> u16_max \<and> length (ref_uname r) \<le> u16_max
     \<and> length (ref_aname r) \<le> u16_max \<and> length (exported_root r) \<le> u16_max
     \<and> length (authority_boundary r) \<le> u16_max"

lemma encode_referral_Inr:
  "encode_referral out r = Inr bs \<longleftrightarrow> referral_ok r \<and> bs = out @ referral_bytes r"
  by (auto simp: encode_referral_def result_simps push_eqs referral_ok_def referral_bytes_def
      split: if_splits)

lemma encode_referral_append:
  "encode_referral out r = map_ok (\<lambda>bs. out @ bs) (encode_referral [] r)"
  by (simp add: encode_referral_def push_eqs and_then_def map_ok_def split: sum.split)

lemma parses_referral: "referral_ok r \<Longrightarrow> parses decode_referral (referral_bytes r) r"
  unfolding decode_referral_def referral_bytes_def Let_def referral_ok_def
  by (intro parse_rules parses_bind_lift; cases r; auto intro: parses_return)

lemma reads_referral: "reads decode_referral (\<lambda>r bs. bs = referral_bytes r \<and> referral_ok r)"
  unfolding decode_referral_def Let_def
  by (intro read_rules reads_return) (simp add: referral_ok_def referral_bytes_def)

interpretation referral_field: field_codec encode_referral decode_referral
proof unfold_locales
  show "encode_referral out r = map_ok ((@) out) (encode_referral [] r)" for out r
    by (rule encode_referral_append)
  show "parses decode_referral bs r" if "encode_referral [] r = Inr bs" for r bs
    using that by (auto simp: encode_referral_Inr parses_referral)
  show "reads decode_referral (\<lambda>r bs. encode_referral [] r = Inr bs)"
    by (rule reads_weaken [OF reads_referral]) (simp add: encode_referral_Inr)
qed

subsection \<open>Sequences\<close>

lemmas each_shift = string_field.push_each_shift qid_field.push_each_shift referral_field.push_each_shift
lemmas each_Inr = string_field.push_each_Inr qid_field.push_each_Inr referral_field.push_each_Inr

lemma parses_bind_each [parse_rules]:
  "push_each push_string [] ss = Inr b1 \<Longrightarrow> n = length ss \<Longrightarrow> parses (f1 ss) bs w
   \<Longrightarrow> parses (bind_s (repeat_s n cursor_string) f1) (b1 @ bs) w"
  "push_each (\<lambda>out q. Inr (push_qid out q)) [] qs = Inr b2 \<Longrightarrow> n = length qs \<Longrightarrow> parses (f2 qs) bs w
   \<Longrightarrow> parses (bind_s (repeat_s n cursor_qid) f2) (b2 @ bs) w"
  "push_each encode_referral [] rs = Inr b3 \<Longrightarrow> n = length rs \<Longrightarrow> parses (f3 rs) bs w
   \<Longrightarrow> parses (bind_s (repeat_s n decode_referral) f3) (b3 @ bs) w"
  by (auto intro: parses_bind string_field.parses_each qid_field.parses_each referral_field.parses_each)

lemma reads_bind_each [read_rules]:
  "(\<And>vs b. push_each push_string [] vs = Inr b \<Longrightarrow> length vs = n \<Longrightarrow> reads (f1 vs) (\<lambda>w bs. Q w (b @ bs)))
   \<Longrightarrow> reads (bind_s (repeat_s n cursor_string) f1) Q"
  "(\<And>vs b. push_each (\<lambda>out q. Inr (push_qid out q)) [] vs = Inr b \<Longrightarrow> length vs = n
      \<Longrightarrow> reads (f2 vs) (\<lambda>w bs. Q w (b @ bs)))
   \<Longrightarrow> reads (bind_s (repeat_s n cursor_qid) f2) Q"
  "(\<And>vs b. push_each encode_referral [] vs = Inr b \<Longrightarrow> length vs = n \<Longrightarrow> reads (f3 vs) (\<lambda>w bs. Q w (b @ bs)))
   \<Longrightarrow> reads (bind_s (repeat_s n decode_referral) f3) Q"
  by (auto intro!: reads_bind [OF string_field.reads_each] reads_bind [OF qid_field.reads_each]
      reads_bind [OF referral_field.reads_each])

section \<open>The two message codecs\<close>

lemma MAXWELEM_u16: "\<not> MAXWELEM < n \<Longrightarrow> n \<le> u16_max"
  by (simp add: MAXWELEM_def u16_max_def)

lemma push_t_body_append: "push_t_body out m = map_ok (\<lambda>bs. out @ bs) (push_t_body [] m)"
proof (cases m)
  case (T_Walk tag fid newfid wnames)
  then show ?thesis
    by (simp add: push_eqs Let_def u16_try_from_def MAXWELEM_u16 each_shift(1) [of out, symmetric])
qed (simp_all add: push_eqs and_then_def map_ok_def Let_def split: sum.split)

lemmas body_Inr = result_simps u16_try_from_Some_iff u32_try_from_Some_iff Let_def

lemma MAXWELEM_unat: "\<not> MAXWELEM < n \<Longrightarrow> unat (word_of_nat n :: u16) = n"
  by (simp add: MAXWELEM_def unat_of_nat)

lemma parses_t_walk:
  assumes "push_t_body [] (T_Walk tag fid newfid wnames) = Inr bs"
  shows "parses (get_t_body TWALK tag) bs (T_Walk tag fid newfid wnames)"
proof -
  let ?n = "word_of_nat (length wnames) :: u16"
  have n: "\<not> MAXWELEM < length wnames"
    using assms by (simp split: if_splits)
  then have "push_each push_string (to_le_bytes fid @ to_le_bytes newfid @ to_le_bytes ?n) wnames = Inr bs"
    using assms by (simp add: push_eqs u16_try_from_def MAXWELEM_u16)
  then obtain b where b: "push_each push_string [] wnames = Inr b"
    and bs: "bs = (to_le_bytes fid @ to_le_bytes newfid @ to_le_bytes ?n) @ b"
    using string_field.push_each_Inr [of "to_le_bytes fid @ to_le_bytes newfid @ to_le_bytes ?n" wnames bs]
    by auto
  have "parses (get_t_body TWALK tag) (to_le_bytes fid @ to_le_bytes newfid @ to_le_bytes ?n @ b @ [])
    (T_Walk tag fid newfid wnames)"
    unfolding get_t_body_def t_type_defs
    by (simp del: append_Nil2) (rule parses_bind_u32, rule parses_bind_u32, rule parses_bind_u16,
      rule parses_if, simp add: n MAXWELEM_unat, rule parses_bind_each(1) [OF b],
      simp add: n MAXWELEM_unat, rule parses_return)
  then show ?thesis by (simp add: bs)
qed

lemma parses_t_body:
  assumes "push_t_body [] m = Inr bs"
  shows "parses (get_t_body (t_message_type m) (t_tag m)) bs m"
proof (cases "t_message_type m = TWALK")
  case True
  with assms show ?thesis
    by (cases m) (simp_all add: t_type_defs parses_t_walk [unfolded TWALK_def] del: push_t_body.simps)
next
  case False
  show ?thesis
  proof (rule parses_append_NilI)
    show "parses (get_t_body (t_message_type m) (t_tag m)) (bs @ []) m"
      using assms False
      by (cases m; clarsimp simp: get_t_body_def t_type_defs body_Inr push_eqs
          stat_format.decode_iff_encode [symmetric]
          simp del: append_Nil2 split: if_splits)
        (intro parse_rules parses_return; simp add: parses_return)+
  qed
qed

lemma reads_t_body:
  "reads (get_t_body ty tg) (\<lambda>m bs. push_t_body [] m = Inr bs \<and> t_message_type m = ty \<and> t_tag m = tg)"
  unfolding get_t_body_def
  by (intro read_rules reads_throw reads_return)
    (simp_all add: push_eqs each_Inr Let_def Stat_encode_decode)

interpretation t_codec: message_codec push_t_body get_t_body t_message_type t_tag
  by unfold_locales (fact push_t_body_append, fact parses_t_body, fact reads_t_body)

lemma push_r_body_append: "push_r_body out m = map_ok (\<lambda>bs. out @ bs) (push_r_body [] m)"
proof (cases m)
  case (R_Walk tag qids)
  then show ?thesis
    by (simp add: push_u16_def u16_try_from_def MAXWELEM_u16 each_shift(2) [of out, symmetric])
next
  case (R_Referrals tag rs)
  then show ?thesis
    by (simp add: push_u16_def u16_try_from_def each_shift(3) [of out, symmetric])
qed (simp_all add: push_eqs and_then_def map_ok_def Let_def split: sum.split)

lemma parses_r_walk:
  assumes "push_r_body [] (R_Walk tag qids) = Inr bs"
  shows "parses (get_r_body RWALK tag) bs (R_Walk tag qids)"
proof -
  let ?n = "word_of_nat (length qids) :: u16"
  have n: "\<not> MAXWELEM < length qids"
    using assms by (simp split: if_splits)
  then have "push_each (\<lambda>out q. Inr (push_qid out q)) (to_le_bytes ?n) qids = Inr bs"
    using assms by (simp add: push_u16_def u16_try_from_def MAXWELEM_u16)
  then obtain b where b: "push_each (\<lambda>out q. Inr (push_qid out q)) [] qids = Inr b"
    and bs: "bs = to_le_bytes ?n @ b"
    using qid_field.push_each_Inr [of "to_le_bytes ?n" qids bs] by auto
  have "parses (get_r_body RWALK tag) (to_le_bytes ?n @ b @ []) (R_Walk tag qids)"
    unfolding get_r_body_def r_type_defs
    by (simp del: append_Nil2) (rule parses_bind_u16, rule parses_if, simp add: n MAXWELEM_unat,
      rule parses_bind_each(2) [OF b], simp add: n MAXWELEM_unat, rule parses_return)
  then show ?thesis by (simp add: bs)
qed

lemma parses_r_referrals:
  assumes "push_r_body [] (R_Referrals tag rs) = Inr bs"
  shows "parses (get_r_body RREFERRALS tag) bs (R_Referrals tag rs)"
proof -
  let ?n = "word_of_nat (length rs) :: u16"
  have "length rs \<le> u16_max" and "push_each encode_referral (to_le_bytes ?n) rs = Inr bs"
    using assms by (simp_all add: push_u16_def u16_try_from_def split: if_splits)
  then obtain b where n: "unat ?n = length rs" and b: "push_each encode_referral [] rs = Inr b"
    and bs: "bs = to_le_bytes ?n @ b"
    using referral_field.push_each_Inr [of "to_le_bytes ?n" rs bs] by (auto simp: unat_of_nat u16_max_def)
  have "parses (get_r_body RREFERRALS tag) (to_le_bytes ?n @ b @ []) (R_Referrals tag rs)"
    unfolding get_r_body_def r_type_defs
    by (simp del: append_Nil2) (rule parses_bind_u16, rule parses_bind_each(3) [OF b],
      simp add: n, rule parses_return)
  then show ?thesis by (simp add: bs)
qed

lemma parses_r_body:
  assumes "push_r_body [] m = Inr bs"
  shows "parses (get_r_body (r_message_type m) (r_tag m)) bs m"
proof (cases "r_message_type m \<in> {RWALK, RREFERRALS}")
  case True
  with assms show ?thesis
    by (cases m) (simp_all add: r_type_defs parses_r_walk [unfolded RWALK_def]
        parses_r_referrals [unfolded RREFERRALS_def] del: push_r_body.simps)
next
  case False
  show ?thesis
  proof (rule parses_append_NilI)
    show "parses (get_r_body (r_message_type m) (r_tag m)) (bs @ []) m"
      using assms False
      by (cases m; clarsimp simp: get_r_body_def r_type_defs body_Inr push_eqs
          stat_format.decode_iff_encode [symmetric]
          simp del: append_Nil2 split: if_splits)
        (intro parse_rules parses_return; simp add: parses_return)+
  qed
qed

lemma reads_r_body:
  "reads (get_r_body ty tg) (\<lambda>m bs. push_r_body [] m = Inr bs \<and> r_message_type m = ty \<and> r_tag m = tg)"
  unfolding get_r_body_def
  by (intro read_rules reads_throw reads_return)
    (simp_all add: push_u16_def push_u32_def push_string_eq each_Inr push_qid_eq [of "[]"]
      push_qid_eq [of "x @ y" for x y] Let_def Stat_encode_decode)

interpretation r_codec: message_codec push_r_body get_r_body r_message_type r_tag
  by unfold_locales (fact push_r_body_append, fact parses_r_body, fact reads_r_body)

section \<open>The codec is exact\<close>

lemma encode_tmessage_Inr:
  "encode_tmessage m = Inr frame \<longleftrightarrow>
     (\<exists>body. push_t_body [] m = Inr body \<and> 7 + length body \<le> u32_max
       \<and> frame = framed (t_message_type m) (t_tag m) body)"
  unfolding encode_tmessage_def by (rule t_codec.encode_Inr)

lemma encode_rmessage_Inr:
  "encode_rmessage m = Inr frame \<longleftrightarrow>
     (\<exists>body. push_r_body [] m = Inr body \<and> 7 + length body \<le> u32_max
       \<and> frame = framed (r_message_type m) (r_tag m) body)"
  unfolding encode_rmessage_def by (rule r_codec.encode_Inr)

lemma decode_tmessage_framed:
  "7 + length body \<le> u32_max \<Longrightarrow> decode_tmessage (framed ty tag body) =
     fst (then_exhausted (get_t_body ty tag) (Error_from ''trailing frame bytes'') (Cursor_new body))"
  by (simp only: decode_tmessage_def decode_framed_simps)

lemma decode_rmessage_framed:
  "7 + length body \<le> u32_max \<Longrightarrow> decode_rmessage (framed ty tag body) =
     fst (then_exhausted (get_r_body ty tag) (Error_from ''trailing frame bytes'') (Cursor_new body))"
  by (simp only: decode_rmessage_def decode_framed_simps)

interpretation t_format: wire_format encode_tmessage decode_tmessage
proof unfold_locales
  show "decode_tmessage frame = Inr m" if "encode_tmessage m = Inr frame" for m frame
    using that by (auto simp: encode_tmessage_Inr decode_tmessage_framed intro: t_codec.frame_decode_encode)
  show "encode_tmessage m = Inr frame" if dec: "decode_tmessage frame = Inr m" for m frame
  proof -
    have "validate_frame_size frame = Inr ()"
      using dec by (auto simp: decode_tmessage_def result_simps)
    then obtain ty tag body where f: "frame = framed ty tag body" and len: "7 + length body \<le> u32_max"
      using validate_frame_size_Inr by blast
    show ?thesis
      using t_codec.frame_encode_decode [OF dec [unfolded f decode_tmessage_framed [OF len]]] len f
      by (auto simp: encode_tmessage_Inr)
  qed
qed

interpretation r_format: wire_format encode_rmessage decode_rmessage
proof unfold_locales
  show "decode_rmessage frame = Inr m" if "encode_rmessage m = Inr frame" for m frame
    using that by (auto simp: encode_rmessage_Inr decode_rmessage_framed intro: r_codec.frame_decode_encode)
  show "encode_rmessage m = Inr frame" if dec: "decode_rmessage frame = Inr m" for m frame
  proof -
    have "validate_frame_size frame = Inr ()"
      using dec by (auto simp: decode_rmessage_def result_simps)
    then obtain ty tag body where f: "frame = framed ty tag body" and len: "7 + length body \<le> u32_max"
      using validate_frame_size_Inr by blast
    show ?thesis
      using r_codec.frame_encode_decode [OF dec [unfolded f decode_rmessage_framed [OF len]]] len f
      by (auto simp: encode_rmessage_Inr)
  qed
qed

section \<open>Sizes of frames\<close>

lemma len_gt_msize: "n \<le> u32_max \<Longrightarrow> (msize < (word_of_nat n :: u32)) \<longleftrightarrow> \<not> n \<le> unat msize"
  by (simp add: word_less_nat_alt unat_of_nat u32_max_def not_le)

lemma encoded_length_le:
  "encode_tmessage m = Inr frame \<Longrightarrow> length frame \<le> u32_max"
  "encode_rmessage r = Inr frame \<Longrightarrow> length frame \<le> u32_max"
  by (auto simp: encode_tmessage_Inr encode_rmessage_Inr)

lemma encode_tmessage_checked_Inr:
  "encode_tmessage_checked m msize = Inr frame \<longleftrightarrow> encode_tmessage m = Inr frame \<and> length frame \<le> unat msize"
proof (cases "encode_tmessage m")
  case (Inr f)
  then show ?thesis
    using encoded_length_le(1) [OF Inr]
    by (auto simp: encode_tmessage_checked_def u32_try_from_def len_gt_msize)
qed (simp add: encode_tmessage_checked_def)

lemma encode_rmessage_checked_Inr:
  "encode_rmessage_checked m msize = Inr frame \<longleftrightarrow> encode_rmessage m = Inr frame \<and> length frame \<le> unat msize"
proof (cases "encode_rmessage m")
  case (Inr f)
  then show ?thesis
    using encoded_length_le(2) [OF Inr]
    by (auto simp: encode_rmessage_checked_def u32_try_from_def len_gt_msize)
qed (simp add: encode_rmessage_checked_def)

lemma framed_valid:
  "encode_tmessage m = Inr frame \<Longrightarrow> validate_frame_size frame = Inr ()"
  "encode_rmessage r = Inr frame \<Longrightarrow> validate_frame_size frame = Inr ()"
  by (auto simp: encode_tmessage_Inr encode_rmessage_Inr validate_framed)

lemma encode_read_reply:
  assumes "11 + length data \<le> u32_max"
  shows "\<exists>frame. encode_rmessage (R_Read tag data) = Inr frame \<and> length frame = 11 + length data"
proof -
  have "u32_try_from (length data) = Some (word_of_nat (length data))"
    using assms by (simp add: u32_try_from_def)
  then show ?thesis
    using assms by (simp add: encode_rmessage_Inr push_u32_def)
qed

lemma encode_write_request:
  assumes "23 + length data \<le> u32_max"
  shows "\<exists>frame. encode_tmessage (T_Write tag fid offset data) = Inr frame \<and> length frame = 23 + length data"
proof -
  have "u32_try_from (length data) = Some (word_of_nat (length data))"
    using assms by (simp add: u32_try_from_def)
  then show ?thesis
    using assms by (simp add: encode_tmessage_Inr push_u32_def push_u64_def)
qed

lemma clamped_read_fits:
  assumes "RREAD_HEADER_SIZE \<le> msize" and "length data \<le> unat (clamp_read_count msize requested)"
  shows "\<exists>frame. encode_rmessage_checked (R_Read tag data) msize = Inr frame"
proof -
  have "11 + length data \<le> unat msize"
    using assms by (auto simp: clamp_read_count_def unat_min word_le_nat_alt RREAD_HEADER_SIZE_def)
  moreover from this have "11 + length data \<le> u32_max"
    using unat_u32_le_max [of msize] by linarith
  ultimately show ?thesis
    using encode_read_reply [of data tag] by (auto simp: encode_rmessage_checked_Inr)
qed

lemma write_payload_fits:
  assumes "TWRITE_HEADER_SIZE \<le> msize" and "length data \<le> unat (max_write_payload msize)"
  shows "\<exists>frame. encode_tmessage_checked (T_Write tag fid offset data) msize = Inr frame"
proof -
  have "23 + length data \<le> unat msize"
    using assms by (auto simp: max_write_payload_def word_le_nat_alt TWRITE_HEADER_SIZE_def)
  moreover from this have "23 + length data \<le> u32_max"
    using unat_u32_le_max [of msize] by linarith
  ultimately show ?thesis
    using encode_write_request [of data tag fid offset] by (auto simp: encode_tmessage_checked_Inr)
qed

end
