(* ===== verification/R9P_Client.thy ===== *)
theory R9P_Client
  imports R9P_Request_Table R9P_Codec
begin

text \<open>
  The client's protocol state (\<^verbatim>\<open>client.rs\<close>): tag and fid allocation, the pending requests (the
  same table the server uses), flush targets, and the acceptance of responses.
\<close>

section \<open>State\<close>

datatype completion =
    Done_Version u32 bytes
  | Done_Attach qid
  | Done_Auth qid
  | Done_Flush
  | Done_Walk "qid list"
  | Done_Open qid u32
  | Done_Create qid u32
  | Done_Read bytes
  | Done_Write u32
  | Done_Clunk
  | Done_Remove
  | Done_Stat stat
  | Done_Wstat
  | Done_RenameAt
  | Done_Referrals "namespace_referral list"

datatype client_response = Resp_Completion tag completion | Resp_Error tag bytes

record client =
  cl_msize :: u32
  cl_version :: bytes
  requested_msize :: "u32 option"
  next_tag :: tag
  next_fid :: fid
  pending :: request_table
  flush_targets :: "(tag, tag) fmap"

record op =
  op_tag :: tag
  op_fid_opt :: "fid option"
  op_message :: tmessage

definition Client_new :: client where
  "Client_new =
     \<lparr>cl_msize = DEFAULT_MSIZE, cl_version = str ''9P2000'', requested_msize = None, next_tag = 0,
      next_fid = 1, pending = RequestTable_new, flush_targets = fmempty\<rparr>"

section \<open>Allocation\<close>

text \<open>The \<^verbatim>\<open>for\<close> loop of \<open>alloc_tag\<close>: it runs at most \<open>u16::MAX\<close> times.\<close>

fun alloc_tag_loop :: "nat \<Rightarrow> (client, tag) fallible" where
  "alloc_tag_loop 0 c = (Inl (Error EDUPTAG), c)"
| "alloc_tag_loop (Suc n) c =
     (let tag = next_tag c; c = c\<lparr>next_tag := tag + 1\<rparr> in
      if tag = NOTAG then alloc_tag_loop n c
      else if \<not> is_live (pending c) tag then
        (case table_begin tag (pending c) of
           (Inr _, t) \<Rightarrow> (Inr tag, c\<lparr>pending := t\<rparr>)
         | (Inl e, t) \<Rightarrow> (Inl e, c\<lparr>pending := t\<rparr>))
      else alloc_tag_loop n c)"

definition alloc_tag :: "(client, tag) fallible" where
  "alloc_tag = alloc_tag_loop u16_max"

definition alloc_fid :: "client \<Rightarrow> fid \<times> client" where
  "alloc_fid c =
     (let f = next_fid c; nxt = next_fid c + 1 in
      (f, c\<lparr>next_fid := (if nxt = NOFID then 1 else nxt)\<rparr>))"

section \<open>Requests\<close>

definition version_request_for :: "u32 \<Rightarrow> variant \<Rightarrow> client \<Rightarrow> tmessage \<times> client" where
  "version_request_for msz variant c =
     (T_Version NOTAG msz (wire_name variant),
      c\<lparr>pending := table_reset (pending c), flush_targets := fmempty, cl_version := str ''unknown'',
        requested_msize := Some msz\<rparr>)"

definition version_request :: "u32 \<Rightarrow> client \<Rightarrow> tmessage \<times> client" where
  "version_request msz = version_request_for msz Plain"

text \<open>An operation that allocates a tag, and one that allocates a tag and a new fid.\<close>

definition tagged_op :: "fid option \<Rightarrow> (tag \<Rightarrow> tmessage) \<Rightarrow> (client, op) fallible" where
  "tagged_op f msg =
     bind_s alloc_tag (\<lambda>tag. return_s \<lparr>op_tag = tag, op_fid_opt = f, op_message = msg tag\<rparr>)"

definition new_fid_op :: "(tag \<Rightarrow> fid \<Rightarrow> tmessage) \<Rightarrow> (client, op) fallible" where
  "new_fid_op msg =
     bind_s alloc_tag (\<lambda>tag c. case alloc_fid c of
       (f, c) \<Rightarrow> (Inr \<lparr>op_tag = tag, op_fid_opt = Some f, op_message = msg tag f\<rparr>, c))"

definition client_attach :: "bytes \<Rightarrow> bytes \<Rightarrow> (client, op) fallible" where
  "client_attach uname aname = new_fid_op (\<lambda>tag f. T_Attach tag f NOFID uname aname)"

definition client_walk :: "fid \<Rightarrow> bytes list \<Rightarrow> (client, op) fallible" where
  "client_walk f wnames = new_fid_op (\<lambda>tag newfid. T_Walk tag f newfid wnames)"

definition client_open :: "fid \<Rightarrow> u8 \<Rightarrow> (client, op) fallible" where
  "client_open f mode = tagged_op (Some f) (\<lambda>tag. T_Open tag f mode)"

definition client_read :: "fid \<Rightarrow> u64 \<Rightarrow> u32 \<Rightarrow> (client, op) fallible" where
  "client_read f offset count = tagged_op (Some f) (\<lambda>tag. T_Read tag f offset count)"

definition client_write :: "fid \<Rightarrow> u64 \<Rightarrow> bytes \<Rightarrow> (client, op) fallible" where
  "client_write f offset data = tagged_op (Some f) (\<lambda>tag. T_Write tag f offset data)"

definition client_create :: "fid \<Rightarrow> bytes \<Rightarrow> u32 \<Rightarrow> u8 \<Rightarrow> (client, op) fallible" where
  "client_create f name perm mode = tagged_op (Some f) (\<lambda>tag. T_Create tag f name perm mode)"

definition client_clunk :: "fid \<Rightarrow> (client, op) fallible" where
  "client_clunk f = tagged_op (Some f) (\<lambda>tag. T_Clunk tag f)"

definition client_remove :: "fid \<Rightarrow> (client, op) fallible" where
  "client_remove f = tagged_op (Some f) (\<lambda>tag. T_Remove tag f)"

definition client_stat :: "fid \<Rightarrow> (client, op) fallible" where
  "client_stat f = tagged_op (Some f) (\<lambda>tag. T_Stat tag f)"

definition client_wstat :: "fid \<Rightarrow> stat \<Rightarrow> (client, op) fallible" where
  "client_wstat f st = tagged_op (Some f) (\<lambda>tag. T_Wstat tag f st)"

definition client_rename_at :: "fid \<Rightarrow> bytes \<Rightarrow> fid \<Rightarrow> bytes \<Rightarrow> (client, op) fallible" where
  "client_rename_at olddirfid oldname newdirfid newname =
     tagged_op (Some olddirfid) (\<lambda>tag. T_RenameAt tag olddirfid oldname newdirfid newname)"

definition client_referrals :: "fid \<Rightarrow> (client, op) fallible" where
  "client_referrals f = tagged_op (Some f) (\<lambda>tag. T_Referrals tag f)"

definition client_flush :: "tag \<Rightarrow> (client, op) fallible" where
  "client_flush oldtag =
     (if oldtag = NOTAG then throw_s (Error EBADTAG)
      else bind_s alloc_tag (\<lambda>tag.
        bind_s (modify_s (\<lambda>c. c\<lparr>flush_targets := fmupd tag oldtag (flush_targets c)\<rparr>)) (\<lambda>_.
        return_s \<lparr>op_tag = tag, op_fid_opt = None, op_message = T_Flush tag oldtag\<rparr>)))"

definition abandon :: "tag \<Rightarrow> client \<Rightarrow> client" where
  "abandon tag c =
     (if tag = NOTAG then c\<lparr>requested_msize := None\<rparr>
      else c\<lparr>pending := snd (table_flush tag (pending c)), flush_targets := fmdrop tag (flush_targets c)\<rparr>)"

section \<open>Responses\<close>

definition client_finish :: "tag \<Rightarrow> (client, unit) fallible" where
  "client_finish tag c =
     (case table_flush tag (pending c) of
        (Inl e, t) \<Rightarrow> (Inl e, c\<lparr>pending := t\<rparr>)
      | (Inr outcome, t) \<Rightarrow>
          ((case outcome of Cancelled _ \<Rightarrow> Inr () | Unknown \<Rightarrow> Inl (Error_from ''unknown response tag'')),
           c\<lparr>pending := t\<rparr>))"

definition validate_iounit :: "u32 \<Rightarrow> u32 \<Rightarrow> unit result" where
  "validate_iounit msz iounit =
     ensure (\<not> (iounit \<noteq> 0 \<and> iounit > max_iounit msz))
       (Error (str ''iounit '' @ dec (unat iounit) @ str '' exceeds negotiated msize '' @ dec (unat msz)))"

definition receive_done :: "tag \<Rightarrow> completion \<Rightarrow> (client, client_response) fallible" where
  "receive_done tag completion =
     bind_s (client_finish tag) (\<lambda>_. return_s (Resp_Completion tag completion))"

definition receive_opened :: "tag \<Rightarrow> u32 \<Rightarrow> completion \<Rightarrow> (client, client_response) fallible" where
  "receive_opened tag iounit completion =
     bind_s (client_finish tag) (\<lambda>_.
     bind_s (read_s (\<lambda>c. validate_iounit (cl_msize c) iounit)) (\<lambda>_.
     return_s (Resp_Completion tag completion)))"

definition receive_version :: "tag \<Rightarrow> u32 \<Rightarrow> bytes \<Rightarrow> (client, client_response) fallible" where
  "receive_version tag msz ver c =
     (if tag \<noteq> NOTAG then (Inl (Error_from ''Rversion did not use NOTAG''), c)
      else case requested_msize c of
        None \<Rightarrow> (Inl (Error_from ''unsolicited Rversion''), c)
      | Some requested \<Rightarrow>
          let c = c\<lparr>requested_msize := None\<rparr> in
          if msz < MIN_MSIZE \<or> msz > requested
          then (Inl (Error (str ''invalid negotiated msize '' @ dec (unat msz) @ str '' for request ''
                 @ dec (unat requested))), c)
          else (Inr (Resp_Completion tag (Done_Version msz ver)),
                c\<lparr>cl_msize := msz, cl_version := ver, pending := table_reset (pending c),
                  flush_targets := fmempty\<rparr>))"

definition receive_error :: "tag \<Rightarrow> bytes \<Rightarrow> (client, client_response) fallible" where
  "receive_error tag ename =
     bind_s (if tag = NOTAG then
         (\<lambda>c. case requested_msize c of
            None \<Rightarrow> (Inl (Error_from ''unknown response tag''), c)
          | Some _ \<Rightarrow> (Inr (), c\<lparr>requested_msize := None\<rparr>))
       else client_finish tag) (\<lambda>_.
     bind_s (modify_s (\<lambda>c. c\<lparr>flush_targets := fmdrop tag (flush_targets c)\<rparr>)) (\<lambda>_.
     return_s (Resp_Error tag ename)))"

definition receive_flush :: "tag \<Rightarrow> (client, client_response) fallible" where
  "receive_flush tag =
     bind_s (client_finish tag) (\<lambda>_.
     bind_s (modify_s (\<lambda>c. case fmlookup (flush_targets c) tag of
         None \<Rightarrow> c
       | Some oldtag \<Rightarrow> c\<lparr>flush_targets := fmdrop tag (flush_targets c),
           pending := snd (table_flush oldtag (pending c))\<rparr>)) (\<lambda>_.
     return_s (Resp_Completion tag Done_Flush)))"

fun receive :: "rmessage \<Rightarrow> (client, client_response) fallible" where
  "receive (R_Version tag msz ver) = receive_version tag msz ver"
| "receive (R_Error tag ename) = receive_error tag ename"
| "receive (R_Attach tag q) = receive_done tag (Done_Attach q)"
| "receive (R_Auth tag aq) = receive_done tag (Done_Auth aq)"
| "receive (R_Flush tag) = receive_flush tag"
| "receive (R_Walk tag qids) = receive_done tag (Done_Walk qids)"
| "receive (R_Open tag q iounit) = receive_opened tag iounit (Done_Open q iounit)"
| "receive (R_Create tag q iounit) = receive_opened tag iounit (Done_Create q iounit)"
| "receive (R_Read tag data) = receive_done tag (Done_Read data)"
| "receive (R_Write tag count) = receive_done tag (Done_Write count)"
| "receive (R_Clunk tag) = receive_done tag Done_Clunk"
| "receive (R_Remove tag) = receive_done tag Done_Remove"
| "receive (R_Stat tag st) = receive_done tag (Done_Stat st)"
| "receive (R_Wstat tag) = receive_done tag Done_Wstat"
| "receive (R_RenameAt tag) = receive_done tag Done_RenameAt"
| "receive (R_Referrals tag rs) = receive_done tag (Done_Referrals rs)"

section \<open>Tags are allocated fresh\<close>

lemma alloc_tag_loop_Inr:
  "alloc_tag_loop n c = (Inr tag, c') \<Longrightarrow>
     tag \<noteq> NOTAG \<and> \<not> is_live (pending c) tag \<and> is_live (pending c') tag
     \<and> (\<forall>t. t \<noteq> tag \<longrightarrow> is_live (pending c') t = is_live (pending c) t)
     \<and> pending c' = snd (table_begin tag (pending c))"
proof (induction n arbitrary: c)
  case 0
  then show ?case by simp
next
  case (Suc n)
  let ?c = "c\<lparr>next_tag := next_tag c + 1\<rparr>"
  show ?case
  proof (cases "next_tag c = NOTAG \<or> is_live (pending c) (next_tag c)")
    case True
    then have "alloc_tag_loop n ?c = (Inr tag, c')"
      using Suc.prems by (auto simp: Let_def split: if_splits)
    from Suc.IH [OF this] show ?thesis by auto
  next
    case False
    then show ?thesis
      using Suc.prems by (auto simp: Let_def table_begin_def is_live_def split: if_splits)
  qed
qed

lemma alloc_tag_loop_Inl:
  "alloc_tag_loop n c = (Inl e, c') \<Longrightarrow>
     e = Error EDUPTAG
     \<and> (\<forall>i < n. next_tag c + word_of_nat i = NOTAG \<or> is_live (pending c) (next_tag c + word_of_nat i))"
proof (induction n arbitrary: c)
  case 0
  then show ?case by simp
next
  case (Suc n)
  let ?c = "c\<lparr>next_tag := next_tag c + 1\<rparr>"
  have busy: "next_tag c = NOTAG \<or> is_live (pending c) (next_tag c)"
    using Suc.prems by (auto simp: Let_def table_begin_def is_live_def split: if_splits)
  then have "alloc_tag_loop n ?c = (Inl e, c')"
    using Suc.prems by (auto simp: Let_def split: if_splits)
  from Suc.IH [OF this] have e: "e = Error EDUPTAG"
    and rest: "\<forall>i < n. next_tag c + 1 + word_of_nat i = NOTAG \<or> is_live (pending c) (next_tag c + 1 + word_of_nat i)"
    by simp_all
  have "next_tag c + word_of_nat i = NOTAG \<or> is_live (pending c) (next_tag c + word_of_nat i)" if "i < Suc n" for i
  proof (cases i)
    case 0
    then show ?thesis using busy by simp
  next
    case (Suc j)
    then show ?thesis using rest that by (simp add: add.assoc)
  qed
  with e show ?case by blast
qed

lemma alloc_fid_not_NOFID:
  assumes "next_fid c \<noteq> NOFID"
  shows "fst (alloc_fid c) \<noteq> NOFID" and "next_fid (snd (alloc_fid c)) \<noteq> NOFID"
  using assms by (auto simp: alloc_fid_def Let_def NOFID_def)

section \<open>Responses are accepted for live tags only\<close>

lemma client_finish_Inr:
  "client_finish tag c = (Inr u, c') \<longleftrightarrow>
     tag \<noteq> NOTAG \<and> is_live (pending c) tag \<and> c' = c\<lparr>pending := snd (table_flush tag (pending c))\<rparr>"
  by (auto simp: client_finish_def table_flush_def is_live_def split: option.splits)

lemma flush_not_live: "tag \<noteq> NOTAG \<Longrightarrow> \<not> is_live (snd (table_flush tag t)) tag"
  by (simp add: table_flush_def is_live_def)

lemma flush_live_other: "tag' \<noteq> tag \<Longrightarrow> is_live (snd (table_flush tag t)) tag' = is_live t tag'"
  by (auto simp: table_flush_def is_live_def)

end
