(* ===== verification/R9P_Frame_IO.thy ===== *)
theory R9P_Frame_IO
  imports R9P_Codec
begin

text \<open>
  Frames over byte streams (\<^verbatim>\<open>codec.rs\<close>, \<open>read_frame_checked\<close> and the \<open>read_*\<close> and
  \<open>write_*\<close> functions around it). A reader is the script of what its \<^verbatim>\<open>read\<close> calls deliver: chunks
  of any size, or an I/O error, then end of stream. A writer is the bytes it has accepted
  and the script of the outcomes of its next \<^verbatim>\<open>write_all\<close> and \<^verbatim>\<open>flush\<close> calls.
\<close>

section \<open>Readers\<close>

datatype io_kind = Interrupted | ConnectionReset | BrokenPipe | UnexpectedEof | TimedOut | WouldBlock | Other_kind

datatype io_error = Io_error (io_kind: io_kind) (io_display: bytes)

datatype read_event = Chunk bytes | Fail io_error

type_synonym reader = "read_event list"

text \<open>\<^verbatim>\<open>Read::read\<close> into a buffer of \<open>n\<close> bytes.\<close>

fun reader_read :: "usize \<Rightarrow> reader \<Rightarrow> (io_error + bytes) \<times> reader" where
  "reader_read n [] = (Inr [], [])"
| "reader_read n (Fail e # es) = (Inl e, es)"
| "reader_read n (Chunk c # es) =
     (if length c \<le> n then (Inr c, es) else (Inr (take n c), Chunk (drop n c) # es))"

fun reader_size :: "reader \<Rightarrow> nat" where
  "reader_size [] = 0"
| "reader_size (Fail e # es) = Suc (reader_size es)"
| "reader_size (Chunk c # es) = Suc (length c + reader_size es)"

lemma reader_read_Inl_size: "reader_read n r = (Inl e, r') \<Longrightarrow> reader_size r' < reader_size r"
  by (cases "(n, r)" rule: reader_read.cases) (auto split: if_splits)

lemma reader_read_Inr_size: "reader_read n r = (Inr got, r') \<Longrightarrow> got \<noteq> [] \<Longrightarrow> reader_size r' < reader_size r"
  by (cases "(n, r)" rule: reader_read.cases) (auto split: if_splits)

text \<open>The loop that fills the four bytes of the size prefix; \<open>None\<close> is a clean end.\<close>

function read_prefix :: "bytes \<Rightarrow> reader \<Rightarrow> bytes option result \<times> reader" where
  "read_prefix pre r =
     (if length pre < 4 then
        (case reader_read (4 - length pre) r of
           (Inr got, r') \<Rightarrow>
             (if got = [] then
                (if pre = [] then (Inr None, r') else (Inl (Error_from ''truncated 9P frame size''), r'))
              else read_prefix (pre @ got) r')
         | (Inl e, r') \<Rightarrow>
             (if io_kind e = Interrupted then read_prefix pre r'
              else if pre = [] \<and> io_kind e \<in> {ConnectionReset, BrokenPipe} then (Inr None, r')
              else (Inl (Error (str ''read 9P frame size: '' @ io_display e)), r')))
      else (Inr (Some pre), r))"
  by pat_completeness auto
termination
  by (relation "measure (\<lambda>(pre, r). reader_size r)")
    (auto dest: reader_read_Inr_size reader_read_Inl_size simp: eq_commute [of _ "reader_read _ _"])

text \<open>\<^verbatim>\<open>Read::read_exact\<close>: interruptions are retried, an early end is an error.\<close>

function read_exact :: "usize \<Rightarrow> bytes \<Rightarrow> reader \<Rightarrow> (io_error + bytes) \<times> reader" where
  "read_exact n got r =
     (if n = 0 then (Inr got, r)
      else case reader_read n r of
        (Inr c, r') \<Rightarrow>
          (if c = [] then (Inl (Io_error UnexpectedEof (str ''failed to fill whole buffer'')), r')
           else read_exact (n - length c) (got @ c) r')
      | (Inl e, r') \<Rightarrow>
          (if io_kind e = Interrupted then read_exact n got r' else (Inl e, r')))"
  by pat_completeness auto
termination
  by (relation "measure (\<lambda>(n, got, r). reader_size r)")
    (auto dest: reader_read_Inr_size reader_read_Inl_size simp: eq_commute [of _ "reader_read _ _"])

declare read_prefix.simps [simp del] read_exact.simps [simp del]

definition read_frame_checked :: "u32 \<Rightarrow> (reader, bytes option) fallible" where
  "read_frame_checked max_frame_size =
     bind_s (read_prefix []) (\<lambda>pre. case pre of
       None \<Rightarrow> return_s None
     | Some pre \<Rightarrow>
         let size = from_le_bytes pre :: u32 in
         if size < FRAME_HEADER_SIZE
         then throw_s (Error (str ''short 9P frame size '' @ dec (unat size)))
         else if size > max_frame_size
         then throw_s (Error (str ''9P frame size '' @ dec (unat size) @ str '' exceeds msize ''
                @ dec (unat max_frame_size)))
         else (\<lambda>r. case read_exact (unat (size - 4)) [] r of
             (Inl e, r') \<Rightarrow> (Inl (Error (str ''read 9P frame body: '' @ io_display e)), r')
           | (Inr body, r') \<Rightarrow> (Inr (Some (pre @ body)), r')))"

definition decode_opt :: "(bytes \<Rightarrow> 'm result) \<Rightarrow> bytes option \<Rightarrow> 'm option result" where
  "decode_opt decode frame =
     (case frame of None \<Rightarrow> Inr None | Some f \<Rightarrow> map_ok Some (decode f))"

definition read_tmessage_checked :: "u32 \<Rightarrow> (reader, tmessage option) fallible" where
  "read_tmessage_checked max_frame_size =
     bind_s (read_frame_checked max_frame_size) (\<lambda>frame. lift_s (decode_opt decode_tmessage frame))"

definition read_rmessage_checked :: "u32 \<Rightarrow> (reader, rmessage option) fallible" where
  "read_rmessage_checked max_frame_size =
     bind_s (read_frame_checked max_frame_size) (\<lambda>frame. lift_s (decode_opt decode_rmessage frame))"

section \<open>Writers\<close>

text \<open>The script lists the outcomes of the next calls: \<open>None\<close> succeeds, \<open>Some (n, e)\<close> fails with
  \<open>e\<close> after \<open>n\<close> bytes were accepted; calls beyond the script succeed.\<close>

record writer =
  sent :: bytes
  script :: "(nat \<times> io_error) option list"

definition write_all :: "bytes \<Rightarrow> writer \<Rightarrow> (io_error + unit) \<times> writer" where
  "write_all data w =
     (case script w of
        Some (n, e) # s \<Rightarrow> (Inl e, w\<lparr>sent := sent w @ take n data, script := s\<rparr>)
      | _ \<Rightarrow> (Inr (), w\<lparr>sent := sent w @ data, script := tl (script w)\<rparr>))"

definition writer_flush :: "writer \<Rightarrow> (io_error + unit) \<times> writer" where
  "writer_flush w =
     (case script w of
        Some (n, e) # s \<Rightarrow> (Inl e, w\<lparr>script := s\<rparr>)
      | _ \<Rightarrow> (Inr (), w\<lparr>script := tl (script w)\<rparr>))"

definition write_frame :: "string \<Rightarrow> bytes \<Rightarrow> (writer, unit) fallible" where
  "write_frame what frame w =
     (case (case write_all frame w of (Inl e, w') \<Rightarrow> (Inl e, w') | (Inr _, w') \<Rightarrow> writer_flush w') of
        (Inl e, w') \<Rightarrow> (Inl (Error (str what @ io_display e)), w')
      | (Inr u, w') \<Rightarrow> (Inr (), w'))"

definition write_tmessage_checked :: "u32 \<Rightarrow> tmessage \<Rightarrow> (writer, unit) fallible" where
  "write_tmessage_checked msize m =
     bind_s (lift_s (encode_tmessage_checked m msize)) (write_frame ''write 9P request frame: '')"

definition write_rmessage_checked :: "u32 \<Rightarrow> rmessage \<Rightarrow> (writer, unit) fallible" where
  "write_rmessage_checked msize m =
     bind_s (lift_s (encode_rmessage_checked m msize)) (write_frame ''write 9P response frame: '')"

section \<open>Fragmentation is invisible\<close>

text \<open>A healthy reader delivers non-empty chunks and interruptions only; \<open>stream\<close> is what it
  delivers in total.\<close>

fun healthy :: "reader \<Rightarrow> bool" where
  "healthy [] \<longleftrightarrow> True"
| "healthy (Fail e # es) \<longleftrightarrow> io_kind e = Interrupted \<and> healthy es"
| "healthy (Chunk c # es) \<longleftrightarrow> c \<noteq> [] \<and> healthy es"

fun stream :: "reader \<Rightarrow> bytes" where
  "stream [] = []"
| "stream (Fail e # es) = stream es"
| "stream (Chunk c # es) = c @ stream es"

lemma reader_read_healthy:
  assumes "healthy r" and "0 < n"
  shows "reader_read n r = (Inl e, r') \<Longrightarrow> io_kind e = Interrupted \<and> healthy r' \<and> stream r' = stream r"
    and "reader_read n r = (Inr got, r') \<Longrightarrow> healthy r' \<and> stream r = got @ stream r' \<and> length got \<le> n
      \<and> (got = [] \<longleftrightarrow> stream r = [])"
  using assms by (cases "(n, r)" rule: reader_read.cases; auto split: if_splits)+

lemma shorter_prefix: "a @ b = c @ d \<Longrightarrow> length c \<le> length a \<Longrightarrow> \<exists>a'. a = c @ a'"
  by (auto simp: append_eq_append_conv2)

lemma read_prefix_healthy:
  assumes "healthy r" and "length pre \<le> 4" and "stream r = a @ b" and "length (pre @ a) = 4"
  shows "\<exists>r'. read_prefix pre r = (Inr (Some (pre @ a)), r') \<and> healthy r' \<and> stream r' = b"
  using assms
proof (induction pre r arbitrary: a rule: read_prefix.induct)
  case (1 pre r)
  show ?case
  proof (cases "length pre < 4")
    case False
    with 1(4,5,6) show ?thesis
      by (intro exI [of _ r]) (simp add: read_prefix.simps [of pre r] "1.prems"(1))
  next
    case True
    let ?n = "4 - length pre"
    obtain res r' where rd: "reader_read ?n r = (res, r')" by fastforce
    show ?thesis
    proof (cases res)
      case (Inl e)
      with rd have e: "io_kind e = Interrupted" "healthy r'" "stream r' = stream r"
        using reader_read_healthy(1) [OF "1.prems"(1), of ?n e r'] True by auto
      then show ?thesis
        using "1.IH"(1) [OF True rd [symmetric] Inl e(1), of a] "1.prems" True rd Inl
        by (simp add: read_prefix.simps [of pre r])
    next
      case (Inr got)
      have got: "healthy r'" "stream r = got @ stream r'" "length got \<le> ?n" "got \<noteq> []"
        using reader_read_healthy(2) [OF "1.prems"(1), of ?n got r'] rd Inr True "1.prems"(3,4) by auto
      have "length got \<le> length a"
        using got(3) "1.prems"(4) unfolding length_append by arith
      then obtain a' where a': "a = got @ a'"
        using shorter_prefix [of a b got "stream r'"] "1.prems"(3) got(2) by auto
      then show ?thesis
        using "1.IH"(2) [OF True rd [symmetric] Inr got(4), of a'] "1.prems" True rd Inr got
        by (simp add: read_prefix.simps [of pre r])
    qed
  qed
qed

lemma read_exact_healthy:
  assumes "healthy r" and "stream r = a @ b" and "length a = n"
  shows "\<exists>r'. read_exact n got r = (Inr (got @ a), r') \<and> healthy r' \<and> stream r' = b"
  using assms
proof (induction n got r arbitrary: a rule: read_exact.induct)
  case (1 n got r)
  show ?case
  proof (cases "n = 0")
    case True
    with "1.prems" show ?thesis
      by (intro exI [of _ r]) (simp add: read_exact.simps [of 0 got r])
  next
    case False
    obtain res r' where rd: "reader_read n r = (res, r')" by fastforce
    show ?thesis
    proof (cases res)
      case (Inl e)
      with rd have e: "io_kind e = Interrupted" "healthy r'" "stream r' = stream r"
        using reader_read_healthy(1) [OF "1.prems"(1), of n e r'] False by auto
      then show ?thesis
        using "1.IH"(1) [OF False rd [symmetric] Inl e(1), of a] "1.prems" False rd Inl
        by (simp add: read_exact.simps [of n got r])
    next
      case (Inr c)
      have c: "healthy r'" "stream r = c @ stream r'" "length c \<le> n" "c \<noteq> []"
        using reader_read_healthy(2) [OF "1.prems"(1), of n c r'] rd Inr False "1.prems"(2,3) by auto
      then obtain a' where a': "a = c @ a'"
        using shorter_prefix [of a b c "stream r'"] "1.prems"(2,3) by auto
      then show ?thesis
        using "1.IH"(2) [OF False rd [symmetric] Inr c(4), of a'] "1.prems" False rd Inr c
        by (simp add: read_exact.simps [of n got r])
    qed
  qed
qed

lemma read_frame_healthy:
  assumes "healthy r" and "validate_frame_size frame = Inr ()" and "stream r = frame @ tail"
    and "length frame \<le> unat max_frame_size"
  shows "\<exists>r'. read_frame_checked max_frame_size r = (Inr (Some frame), r') \<and> healthy r' \<and> stream r' = tail"
proof -
  let ?pre = "take 4 frame" and ?body = "drop 4 frame"
  obtain ty tag body where f: "frame = framed ty tag body" and len: "7 + length body \<le> u32_max"
    using validate_frame_size_Inr [OF assms(2)] by blast
  let ?size = "word_of_nat (length frame) :: u32"
  have pre: "from_le_bytes ?pre = ?size"
    by (simp add: f framed_def)
  have long: "7 \<le> length frame" and "length frame \<le> u32_max"
    using len by (simp_all add: f)
  then have size: "unat ?size = length frame"
    by (simp add: unat_of_nat u32_max_def)
  have "stream r = ?pre @ (?body @ tail)"
    using assms(3) by simp
  then obtain r1 where r1: "read_prefix [] r = (Inr (Some ?pre), r1)" "healthy r1" "stream r1 = ?body @ tail"
    using read_prefix_healthy [OF assms(1), of "[]" ?pre "?body @ tail"] long by auto
  have "length ?body = unat (?size - 4)"
    using size long by (simp add: unat_sub word_le_nat_alt)
  then obtain r2 where r2: "read_exact (unat (?size - 4)) [] r1 = (Inr ?body, r2)" "healthy r2" "stream r2 = tail"
    using read_exact_healthy [OF r1(2,3), of _ "[]"] by auto
  have "\<not> ?size < FRAME_HEADER_SIZE" "\<not> max_frame_size < ?size"
    using size long assms(4) by (simp_all add: word_less_nat_alt FRAME_HEADER_SIZE_nat)
  then show ?thesis
    using r1 r2 by (simp add: read_frame_checked_def bind_s_def Let_def pre)
qed

text \<open>Sequences of messages: reading one message after the other returns them in order.\<close>

fun read_tmessages :: "nat \<Rightarrow> u32 \<Rightarrow> reader \<Rightarrow> tmessage list result" where
  "read_tmessages 0 max_frame_size r = Inr []"
| "read_tmessages (Suc n) max_frame_size r =
     (case read_tmessage_checked max_frame_size r of
        (Inl e, _) \<Rightarrow> Inl e
      | (Inr None, _) \<Rightarrow> Inr []
      | (Inr (Some m), r') \<Rightarrow> map_ok (\<lambda>ms. m # ms) (read_tmessages n max_frame_size r'))"

lemma read_tmessage_healthy:
  assumes "healthy r" and "encode_tmessage_checked m max_frame_size = Inr frame" and "stream r = frame @ tail"
  shows "\<exists>r'. read_tmessage_checked max_frame_size r = (Inr (Some m), r') \<and> healthy r' \<and> stream r' = tail"
proof -
  have m: "encode_tmessage m = Inr frame" "length frame \<le> unat max_frame_size"
    using assms(2) by (simp_all add: encode_tmessage_checked_Inr)
  from read_frame_healthy [OF assms(1) framed_valid(1) [OF m(1)] assms(3) m(2)]
  show ?thesis
    using t_format.decode_encode [OF m(1)]
    by (auto simp: read_tmessage_checked_def bind_s_def stateful_simps decode_opt_def)
qed

lemma read_rmessage_healthy:
  assumes "healthy r" and "encode_rmessage_checked m max_frame_size = Inr frame" and "stream r = frame @ tail"
  shows "\<exists>r'. read_rmessage_checked max_frame_size r = (Inr (Some m), r') \<and> healthy r' \<and> stream r' = tail"
proof -
  have m: "encode_rmessage m = Inr frame" "length frame \<le> unat max_frame_size"
    using assms(2) by (simp_all add: encode_rmessage_checked_Inr)
  from read_frame_healthy [OF assms(1) framed_valid(2) [OF m(1)] assms(3) m(2)]
  show ?thesis
    using r_format.decode_encode [OF m(1)]
    by (auto simp: read_rmessage_checked_def bind_s_def stateful_simps decode_opt_def)
qed

lemma read_prefix_end: "healthy r \<Longrightarrow> stream r = [] \<Longrightarrow> \<exists>r'. read_prefix [] r = (Inr None, r')"
proof (induction r)
  case Nil
  then show ?case by (simp add: read_prefix.simps)
next
  case (Cons ev es)
  then show ?case
    by (cases ev) (auto simp: read_prefix.simps [of "[]" "Fail e # es" for e es])
qed

lemma read_frame_end: "healthy r \<Longrightarrow> stream r = [] \<Longrightarrow> \<exists>r'. read_frame_checked m r = (Inr None, r')"
  using read_prefix_end [of r] by (auto simp: read_frame_checked_def bind_s_def stateful_simps)

lemma read_tmessages_healthy:
  assumes "list_all2 (\<lambda>m frame. encode_tmessage_checked m max_frame_size = Inr frame) ms frames"
    and "healthy r" and "stream r = concat frames"
  shows "read_tmessages (Suc (length ms)) max_frame_size r = Inr ms"
  using assms
proof (induction ms frames arbitrary: r rule: list_all2_induct)
  case Nil
  then obtain r' where "read_frame_checked max_frame_size r = (Inr None, r')"
    using read_frame_end by fastforce
  then show ?case
    by (simp add: read_tmessage_checked_def bind_s_def stateful_simps decode_opt_def)
next
  case (Cons m ms frame frames)
  then obtain r' where "read_tmessage_checked max_frame_size r = (Inr (Some m), r')"
    and "healthy r'" and "stream r' = concat frames"
    using read_tmessage_healthy [of r m max_frame_size frame "concat frames"] by auto
  with Cons.IH show ?case by simp
qed

section \<open>What is sent fits the negotiated size\<close>

lemma write_frame_ok: "script w = [] \<Longrightarrow> write_frame what frame w = (Inr (), w\<lparr>sent := sent w @ frame\<rparr>)"
  by (simp add: write_frame_def write_all_def writer_flush_def)

lemma write_all_cases:
  obtains n e where "fst (write_all frame w) = Inl e" "sent (snd (write_all frame w)) = sent w @ take n frame"
  | "fst (write_all frame w) = Inr ()" "sent (snd (write_all frame w)) = sent w @ frame"
  by (cases "script w"; cases "hd (script w)") (auto simp: write_all_def)

lemma writer_flush_sent: "sent (snd (writer_flush v)) = sent v"
  by (simp add: writer_flush_def split: list.split option.split prod.split)

lemma write_frame_sent: "sent (snd (write_frame what frame w)) = sent (snd (write_all frame w))"
  using writer_flush_sent by (auto simp: write_frame_def split: prod.splits sum.splits) (metis snd_conv)+

lemma write_frame_Inr: "fst (write_frame what frame w) = Inr () \<Longrightarrow> fst (write_all frame w) = Inr ()"
  by (auto simp: write_frame_def split: prod.splits sum.splits)

lemma write_frame_prefix:
  "\<exists>n. sent (snd (write_frame what frame w)) = sent w @ take n frame
     \<and> (fst (write_frame what frame w) = Inr () \<longrightarrow> sent (snd (write_frame what frame w)) = sent w @ frame)"
  using write_frame_sent [of what frame w] write_frame_Inr [of what frame w]
  by (cases rule: write_all_cases [of frame w]) (auto intro: exI [of _ "length frame"])

end
