(* ===== verification/R9P_Client_Support.thy ===== *)
theory R9P_Client_Support
  imports R9P_Client R9P_Frame_IO
begin

text \<open>
  What the clients share (\<^verbatim>\<open>client_support.rs\<close>): error texts, the checks on counts and offsets a
  peer reports, and the two transfer loops, which take the single transfer as a closure. A
  closure is a function on the caller's state. Text that Rust's derived \<^verbatim>\<open>Debug\<close> renders is a
  parameter.
\<close>

section \<open>Errors and checks\<close>

definition op_fid :: "op \<Rightarrow> fid result" where
  "op_fid op = ok_or (op_fid_opt op) (Error_from ''9P operation did not allocate a fid'')"

definition protocol_error :: "error \<Rightarrow> error" where
  "protocol_error e = Error (str ''9P client state: '' @ from_utf8_lossy (error_message e))"

definition io_error :: "bytes \<Rightarrow> io_error \<Rightarrow> error" where
  "io_error context e =
     (if io_kind e \<in> {TimedOut, WouldBlock}
      then Error (context @ str '': 9P transport timeout or would-block: '' @ io_display e)
      else Error (context @ str '': '' @ io_display e))"

definition unexpected :: "string \<Rightarrow> bytes \<Rightarrow> error" where
  "unexpected expected got = Error (str ''expected '' @ str expected @ str '', got '' @ got)"

definition partial_walk :: "(bytes \<Rightarrow> bytes) \<Rightarrow> bytes list \<Rightarrow> usize \<Rightarrow> error option \<Rightarrow> error" where
  "partial_walk debug_str names walked reason =
     (let stopped = (if walked < length names then from_utf8_lossy (names ! walked) else str ''?'');
          position = usize_saturating_add walked 1;
          total = length names;
          head = str ''partial walk: stopped at '' @ debug_str stopped @ str '' ('' @ dec position
            @ str '' of '' @ dec total @ str '')''
      in case reason of
           Some reason \<Rightarrow> Error (head @ str '': '' @ from_utf8_lossy (error_message reason))
         | None \<Rightarrow> Error (head @ str '', and walking it alone did not say why''))"

definition checked_read_data :: "bytes \<Rightarrow> u32 \<Rightarrow> bytes result" where
  "checked_read_data data requested =
     and_then (ok_or (u32_try_from (length data)) (Error_from ''read count overflow'')) (\<lambda>actual.
       if actual > requested then Inl (Error_from ''9P server reported more bytes read than requested'')
       else Inr data)"

definition checked_write_count :: "u32 \<Rightarrow> usize \<Rightarrow> u32 result" where
  "checked_write_count count requested =
     (if unat count > requested then Inl (Error_from ''9P server reported more bytes written than requested'')
      else Inr count)"

definition checked_advance_offset :: "u64 \<Rightarrow> u64 \<Rightarrow> u64 result" where
  "checked_advance_offset offset count = ok_or (checked_add offset count) (Error_from ''9P offset overflow'')"

lemma checked_read_data_Inr:
  "checked_read_data data requested = Inr data' \<longleftrightarrow> data' = data \<and> length data \<le> unat requested"
proof -
  have "unat requested \<le> u32_max"
    using unat_less_exp [of requested] by (simp add: u32_max_def)
  moreover have "unat (word_of_nat (length data) :: u32) = length data" if "length data \<le> u32_max"
    using that by (simp add: unat_of_nat u32_max_def)
  moreover have "length data \<le> unat requested \<Longrightarrow> length data \<le> u32_max"
    using calculation(1) by (rule order.trans [rotated])
  ultimately show ?thesis
    by (auto simp: checked_read_data_def and_then_Inr_iff u32_try_from_def word_less_nat_alt not_less)
qed

lemma checked_write_count_Inr:
  "checked_write_count count requested = Inr n \<longleftrightarrow> n = count \<and> unat count \<le> requested"
  by (auto simp: checked_write_count_def)

lemma checked_advance_offset_Inr:
  "checked_advance_offset offset count = Inr next \<longleftrightarrow>
     unat offset + unat count < 2 ^ 64 \<and> unat next = unat offset + unat count"
  by (auto simp: checked_advance_offset_def checked_add_Some_iff)

lemma unat_ucast_u64 [simp]: "unat (ucast n :: u64) = unat n" for n :: u32
  by (simp add: unsigned_ucast_eq take_bit_nat_eq_self order.strict_trans2 [OF unat_less_exp [of n]])

section \<open>Reading up to a delimiter\<close>

definition position :: "u8 \<Rightarrow> bytes \<Rightarrow> usize option" where
  "position d data = (if d \<in> set data then Some (length (takeWhile (\<lambda>b. b \<noteq> d) data)) else None)"

lemma u32_try_from_pos: "u32_try_from (length data) = Some n \<Longrightarrow> data \<noteq> [] \<Longrightarrow> 0 < unat n"
  by (auto simp: u32_try_from_def unat_of_nat u32_max_def split: if_splits)

lemma u32_try_from_Some: "u32_try_from k = Some n \<Longrightarrow> unat n = k"
  by (auto simp: u32_try_from_def unat_of_nat u32_max_def split: if_splits)

function read_delimited_loop ::
  "(u64 \<Rightarrow> u32 \<Rightarrow> ('s, bytes) fallible) \<Rightarrow> u8 \<Rightarrow> u64 \<Rightarrow> u32 \<Rightarrow> bytes \<Rightarrow> ('s, bytes) fallible" where
  "read_delimited_loop read_once delimiter offset left out s =
     (if left = 0
      then (Inl (Error_from ''9P read reached its byte bound before the record delimiter''), s)
      else case read_once offset left s of
        (Inl e, s) \<Rightarrow> (Inl e, s)
      | (Inr data, s) \<Rightarrow>
          (case checked_read_data data left of
             Inl e \<Rightarrow> (Inl e, s)
           | Inr data \<Rightarrow>
               (if data = [] then (Inl (Error_from ''9P read reached EOF before the record delimiter''), s)
                else case position delimiter data of
                  Some p \<Rightarrow>
                    (if p + 1 \<noteq> length data
                     then (Inl (Error_from ''9P read returned bytes after the record delimiter''), s)
                     else (Inr (out @ data), s))
                | None \<Rightarrow>
                    (case u32_try_from (length data) of
                       None \<Rightarrow> (Inl (Error_from ''read count overflow''), s)
                     | Some n \<Rightarrow>
                         (case checked_advance_offset offset (ucast n) of
                            Inl e \<Rightarrow> (Inl e, s)
                          | Inr offset \<Rightarrow>
                              read_delimited_loop read_once delimiter offset (saturating_sub left n) (out @ data) s)))))"
  by pat_completeness auto
termination
  by (relation "measure (\<lambda>(_, _, _, left, _, _). unat left)")
    (auto dest!: u32_try_from_pos simp: checked_read_data_Inr unat_gt_0 eq_commute [of _ "u32_try_from _"])

declare read_delimited_loop.simps [simp del]

definition read_delimited_with ::
  "u64 \<Rightarrow> u32 \<Rightarrow> u8 \<Rightarrow> (u64 \<Rightarrow> u32 \<Rightarrow> ('s, bytes) fallible) \<Rightarrow> ('s, bytes) fallible" where
  "read_delimited_with offset count delimiter read_once =
     (if count = 0 then throw_s (Error_from ''delimiter-terminated 9P read requires a nonzero byte bound'')
      else read_delimited_loop read_once delimiter offset count [])"

section \<open>Writing in chunks\<close>

function write_in_chunks_loop ::
  "usize \<Rightarrow> (u64 \<Rightarrow> bytes \<Rightarrow> ('s, u32) fallible) \<Rightarrow> u64 \<Rightarrow> bytes \<Rightarrow> u32 \<Rightarrow> ('s, u32) fallible" where
  "write_in_chunks_loop mx write_once offset data written s =
     (if data = [] then (Inr written, s)
      else let chunk_len = min (length data) mx; chunk = take chunk_len data in
        (case write_once offset chunk s of
           (Inl e, s) \<Rightarrow> (Inl e, s)
         | (Inr count, s) \<Rightarrow>
             (if count = 0 then (Inl (Error_from ''zero-length 9P write progress''), s)
              else case checked_write_count count chunk_len of
                Inl e \<Rightarrow> (Inl e, s)
              | Inr count \<Rightarrow>
                  (case checked_add written count of
                     None \<Rightarrow> (Inl (Error_from ''aggregate write count overflow''), s)
                   | Some written \<Rightarrow>
                       (case checked_advance_offset offset (ucast count) of
                          Inl e \<Rightarrow> (Inl e, s)
                        | Inr offset \<Rightarrow>
                            (if unat count < chunk_len then (Inr written, s)
                             else write_in_chunks_loop mx write_once offset (drop (unat count) data) written s))))))"
  by pat_completeness auto
termination
  by (relation "measure (\<lambda>(_, _, _, data, _, _). length data)")
    (auto simp: checked_write_count_Inr unat_gt_0 eq_commute [of _ "checked_write_count _ _"])

declare write_in_chunks_loop.simps [simp del]

definition write_in_chunks ::
  "u32 \<Rightarrow> u64 \<Rightarrow> bytes \<Rightarrow> (u64 \<Rightarrow> bytes \<Rightarrow> ('s, u32) fallible) \<Rightarrow> ('s, u32) fallible" where
  "write_in_chunks max_payload offset data write_once =
     (if data = [] then write_once offset data
      else write_in_chunks_loop (unat max_payload) write_once offset data 0)"

section \<open>What the loops transfer\<close>

text \<open>A file as the bytes at its positions; \<open>overlay\<close> is the effect of a positional write.\<close>

definition overlay :: "(nat \<Rightarrow> u8) \<Rightarrow> nat \<Rightarrow> bytes \<Rightarrow> nat \<Rightarrow> u8" where
  "overlay f off bs = (\<lambda>i. if off \<le> i \<and> i < off + length bs then bs ! (i - off) else f i)"

lemma overlay_Nil [simp]: "overlay f off [] = f"
  by (auto simp: overlay_def fun_eq_iff)

lemma overlay_append: "overlay (overlay f off a) (off + length a) b = overlay f off (a @ b)"
  by (auto simp: overlay_def fun_eq_iff nth_append)

definition writes_at :: "('s \<Rightarrow> nat \<Rightarrow> u8) \<Rightarrow> (u64 \<Rightarrow> bytes \<Rightarrow> ('s, u32) fallible) \<Rightarrow> bool" where
  "writes_at file write_once \<longleftrightarrow>
     (\<forall>off chunk s n s'. write_once off chunk s = (Inr n, s') \<longrightarrow>
        file s' = overlay (file s) (unat off) (take (unat n) chunk))"

lemma write_in_chunks_loop_overlay:
  assumes "writes_at file write_once"
    and "write_in_chunks_loop mx write_once offset data written s = (Inr n, s')"
  shows "\<exists>k \<le> length data. unat n = unat written + k \<and> file s' = overlay (file s) (unat offset) (take k data)"
  using assms
proof (induction mx write_once offset data written s rule: write_in_chunks_loop.induct)
  case (1 mx write_once offset data written s)
  show ?case
  proof (cases "data = []")
    case True
    with "1.prems" show ?thesis by (simp add: write_in_chunks_loop.simps [of mx write_once offset "[]"])
  next
    case False
    let ?len = "min (length data) mx"
    obtain r s1 where w: "write_once offset (take ?len data) s = (r, s1)" by fastforce
    from "1.prems" False w obtain count written' offset' where r: "r = Inr count" and nz: "count \<noteq> 0"
      and c: "checked_write_count count ?len = Inr count" and t: "checked_add written count = Some written'"
      and a: "checked_advance_offset offset (ucast count) = Inr offset'"
      and rest: "if unat count < ?len then n = written' \<and> s' = s1
        else write_in_chunks_loop mx write_once offset' (drop (unat count) data) written' s1 = (Inr n, s')"
      by (auto simp: write_in_chunks_loop.simps [of mx write_once offset data] Let_def checked_write_count_def
          split: sum.splits if_splits option.splits)
    have len: "unat count \<le> ?len" using c by (simp add: checked_write_count_Inr)
    have tot: "unat written' = unat written + unat count" using t by (simp add: checked_add_Some_iff)
    have off: "unat offset' = unat offset + unat count"
      using a by (simp add: checked_advance_offset_Inr)
    have f1: "file s1 = overlay (file s) (unat offset) (take (unat count) data)"
      using "1.prems"(1) w r len unfolding writes_at_def by (auto simp: min_def)
    show ?thesis
    proof (cases "unat count < ?len")
      case True
      then show ?thesis using rest f1 tot by (intro exI [of _ "unat count"]) simp
    next
      case more: False
      then have "write_in_chunks_loop mx write_once offset' (drop (unat count) data) written' s1 = (Inr n, s')"
        using rest by simp
      from "1.IH" [OF False refl refl w [symmetric] r nz c t a more "1.prems"(1) this]
      obtain k where k: "k \<le> length data - unat count" "unat n = unat written' + k"
        "file s' = overlay (file s1) (unat offset') (take k (drop (unat count) data))" by auto
      have "file s' = overlay (file s) (unat offset) (take (unat count) data @ take k (drop (unat count) data))"
        using k(3) f1 off len overlay_append [of "file s" "unat offset" "take (unat count) data"]
        by (simp add: min_absorb2)
      then show ?thesis
        using k(1,2) tot len by (intro exI [of _ "unat count + k"]) (auto simp: take_add)
    qed
  qed
qed

lemma take_drop_glue:
  assumes "a = take (length a) (drop n f)" and "b = take (length b) (drop (n + length a) f)"
  shows "a @ b = take (length (a @ b)) (drop n f)"
proof -
  have "take (length a + length b) (drop n f) = take (length a) (drop n f) @ take (length b) (drop (n + length a) f)"
    by (simp add: take_add add.commute)
  with assms show ?thesis by simp
qed

lemma take_length_take: "take (length (take n xs)) xs = take n xs"
  by (simp add: min_def)

definition reads_from :: "bytes \<Rightarrow> (u64 \<Rightarrow> u32 \<Rightarrow> ('s, bytes) fallible) \<Rightarrow> bool" where
  "reads_from file read_once \<longleftrightarrow>
     (\<forall>off n s data s'. read_once off n s = (Inr data, s') \<longrightarrow>
        data = take (length data) (drop (unat off) file))"

lemma position_last:
  assumes "position d data = Some p" and "p + 1 = length data"
  shows "last data = d" and "d \<notin> set (butlast data)"
proof -
  have d: "d \<in> set data" and p: "p = length (takeWhile (\<lambda>b. b \<noteq> d) data)"
    using assms(1) by (auto simp: position_def split: if_splits)
  have "takeWhile (\<lambda>b. b \<noteq> d) data = take p data"
    using p by (metis takeWhile_eq_take)
  then have "butlast data = takeWhile (\<lambda>b. b \<noteq> d) data"
    using assms(2) by (simp add: butlast_conv_take flip: assms(2))
  then show "d \<notin> set (butlast data)" by (auto dest: set_takeWhileD)
  have "data ! p = d"
    using nth_length_takeWhile [of "\<lambda>b. b \<noteq> d" data] p assms(2) by simp
  then show "last data = d"
    using assms(2) d by (metis add_diff_cancel_right' last_conv_nth list.size(3) add_eq_0_iff_both_eq_0 zero_neq_one)
qed

lemma position_None: "position d data = None \<longleftrightarrow> d \<notin> set data"
  by (simp add: position_def)

lemma read_delimited_loop_Inr:
  assumes "read_delimited_loop read_once d offset left out s = (Inr rec, s')" and "d \<notin> set out"
  shows "\<exists>more. rec = out @ more \<and> more \<noteq> [] \<and> last rec = d \<and> d \<notin> set (butlast rec)
    \<and> length more \<le> unat left \<and> (reads_from file read_once \<longrightarrow> more = take (length more) (drop (unat offset) file))"
  using assms
proof (induction read_once d offset left out s rule: read_delimited_loop.induct)
  case (1 read_once d offset left out s)
  have left: "left \<noteq> 0"
    using "1.prems"(1) by (auto simp: read_delimited_loop.simps [of read_once d offset left])
  obtain r s1 where rd: "read_once offset left s = (r, s1)" by fastforce
  from "1.prems"(1) left rd obtain data where r: "r = Inr data" and c: "checked_read_data data left = Inr data"
    and ne: "data \<noteq> []"
    by (auto simp: read_delimited_loop.simps [of read_once d offset left] checked_read_data_Inr split: sum.splits if_splits)
  have len: "length data \<le> unat left" using c by (simp add: checked_read_data_Inr)
  have src: "reads_from file read_once \<longrightarrow> data = take (length data) (drop (unat offset) file)"
    using rd r unfolding reads_from_def by blast
  show ?case
  proof (cases "position d data")
    case (Some p)
    then have "p + 1 = length data" "rec = out @ data"
      using "1.prems"(1) left rd r c ne
      by (auto simp: read_delimited_loop.simps [of read_once d offset left] split: if_splits)
    then show ?thesis
      using position_last [OF Some] ne len src "1.prems"(2)
      by (intro exI [of _ data]) (auto simp: butlast_append)
  next
    case None
    then obtain n offset' where n: "u32_try_from (length data) = Some n"
      and a: "checked_advance_offset offset (ucast n) = Inr offset'"
      and rest: "read_delimited_loop read_once d offset' (saturating_sub left n) (out @ data) s1 = (Inr rec, s')"
      using "1.prems"(1) left rd r c ne
      by (auto simp: read_delimited_loop.simps [of read_once d offset left] split: option.splits sum.splits)
    have un: "unat n = length data" by (rule u32_try_from_Some [OF n])
    have off: "unat offset' = unat offset + length data"
      using a un by (simp add: checked_advance_offset_Inr)
    have "d \<notin> set (out @ data)" using None "1.prems"(2) by (simp add: position_None)
    from "1.IH" [OF left rd [symmetric] r c ne None n a rest this]
    obtain more where m: "rec = (out @ data) @ more" "more \<noteq> []" "last rec = d" "d \<notin> set (butlast rec)"
      "length more \<le> unat left - length data"
      "reads_from file read_once \<longrightarrow> more = take (length more) (drop (unat offset') file)"
      by (auto simp: un)
    have glue: "reads_from file read_once \<longrightarrow> data @ more = take (length (data @ more)) (drop (unat offset) file)"
      using src m(6) off take_drop_glue by metis
    have "length (data @ more) \<le> unat left" using m(5) len by simp
    with m(1-4) glue show ?thesis by (intro exI [of _ "data @ more"]) (simp only: append_assoc append_is_Nil_conv simp_thms)
  qed
qed

text \<open>A chunked write is one write. However the payload limit cuts the data, the file afterwards is the
  old one overlaid at the offset with the first \<open>n\<close> bytes of the data, where \<open>n\<close> is the count returned:
  no chunk is lost, repeated or written elsewhere, even when the server accepts less than it was sent.\<close>

theorem chunked_write_is_one_write:
  assumes "writes_at file write_once" and "data \<noteq> []"
    and "write_in_chunks max_payload offset data write_once s = (Inr n, s')"
  shows "unat n \<le> length data \<and> file s' = overlay (file s) (unat offset) (take (unat n) data)"
proof -
  have "write_in_chunks_loop (unat max_payload) write_once offset data 0 s = (Inr n, s')"
    using assms(2,3) by (simp add: write_in_chunks_def)
  from write_in_chunks_loop_overlay [OF assms(1) this] show ?thesis by auto
qed

definition sample_write :: "u64 \<Rightarrow> bytes \<Rightarrow> (nat \<Rightarrow> u8, u32) fallible" where
  "sample_write off chunk f = (Inr (word_of_nat (min 2 (length chunk))), overlay f (unat off) (take 2 chunk))"

lemma sample_writes_at: "writes_at id sample_write"
  by (auto simp: writes_at_def sample_write_def unat_of_nat take_bit_nat_eq_self min_def split: if_splits)

lemma sample_write_in_chunks:
  "\<exists>f. write_in_chunks 2 5 [1, 2, 3] sample_write (\<lambda>_. 0) = (Inr 3, f)"
  by (simp add: write_in_chunks_def write_in_chunks_loop.simps Let_def sample_write_def checked_write_count_def
      checked_add_def checked_advance_offset_def)

theorem chunked_write_is_one_write_witness:
  "\<exists>f. write_in_chunks 2 5 [1, 2, 3] sample_write (\<lambda>_. 0) = (Inr 3, f) \<and> f = overlay (\<lambda>_. 0) 5 [1, 2, 3]"
proof -
  obtain f where f: "write_in_chunks 2 5 [1, 2, 3] sample_write (\<lambda>_. 0) = (Inr 3, f)"
    using sample_write_in_chunks by blast
  from chunked_write_is_one_write [OF sample_writes_at _ this] have "f = overlay (\<lambda>_. 0) 5 [1, 2, 3]" by simp
  with f show ?thesis by blast
qed

text \<open>A delimited read returns exactly one record: the delimiter is its last byte and occurs nowhere
  before, the record is no longer than the bound, and when the closure reads a file positionally the record
  is what the file has at the offset.\<close>

theorem delimited_read_returns_one_record:
  assumes "read_delimited_with offset count delimiter read_once s = (Inr record, s')"
    and "reads_from file read_once"
  shows "record \<noteq> [] \<and> last record = delimiter \<and> delimiter \<notin> set (butlast record) \<and> length record \<le> unat count
    \<and> record = take (length record) (drop (unat offset) file)"
proof -
  have "read_delimited_loop read_once delimiter offset count [] s = (Inr record, s')"
    using assms(1) by (simp add: read_delimited_with_def stateful_simps split: if_splits)
  from read_delimited_loop_Inr [OF this] assms(2) show ?thesis by fastforce
qed

definition sample_read_at :: "u64 \<Rightarrow> u32 \<Rightarrow> (unit, bytes) fallible" where
  "sample_read_at off n s = (Inr (take 1 (drop (unat off) [7, 8, 10, 9])), s)"

lemma sample_reads_from: "reads_from [7, 8, 10, 9] sample_read_at"
  unfolding reads_from_def sample_read_at_def by (auto simp only: prod.inject sum.inject take_length_take)

theorem delimited_read_returns_one_record_witness:
  "read_delimited_with 1 8 10 sample_read_at () = (Inr [8, 10], ()) \<and> [8, 10] = take 2 (drop 1 [7, 8, 10, 9 :: u8])"
proof -
  have run: "read_delimited_with 1 8 10 sample_read_at () = (Inr [8, 10], ())"
    by (simp add: read_delimited_with_def read_delimited_loop.simps sample_read_at_def checked_read_data_def
        u32_try_from_def u32_max_def position_def checked_advance_offset_def checked_add_def saturating_sub_def)
  from delimited_read_returns_one_record [OF this sample_reads_from] run show ?thesis by simp
qed

end
