(* ===== verification/R9P_Blocking.thy ===== *)
theory R9P_Blocking
  imports R9P_Client_Support
begin

text \<open>
  The blocking client (\<^verbatim>\<open>blocking.rs\<close>): one request on the wire at a time. The stream is the pair of
  a writer and a reader; the peer behind it is a parameter, a function from the bytes it receives
  to what the reader delivers next, so that a server can be put there. The other parameters of
  the environment are the texts of derived \<^verbatim>\<open>Debug\<close> implementations.
\<close>

section \<open>The client and its stream\<close>

record 'p env =
  peer :: "bytes \<Rightarrow> 'p \<Rightarrow> reader \<times> 'p"
  debug_completion :: "completion \<Rightarrow> bytes"
  debug_response :: "client_response \<Rightarrow> bytes"
  debug_str :: "bytes \<Rightarrow> bytes"

record 'p bclient =
  bc_out :: writer
  bc_in :: reader
  bc_peer :: 'p
  protocol :: client
  bc_variant :: variant
  root_fid :: fid
  root_qid :: qid

definition DEFAULT_READ_CHUNK :: u32 where "DEFAULT_READ_CHUNK = 65536"

text \<open>Running a method of the protocol state; \<open>protocol_op\<close> also applies \<^verbatim>\<open>map_err(protocol_error)\<close>.\<close>

definition protocol_op :: "(client, 'a) fallible \<Rightarrow> ('p bclient, 'a) fallible" where
  "protocol_op f c =
     (case f (protocol c) of
        (Inl e, p) \<Rightarrow> (Inl (protocol_error e), c\<lparr>protocol := p\<rparr>)
      | (Inr x, p) \<Rightarrow> (Inr x, c\<lparr>protocol := p\<rparr>))"

text \<open>What was written reaches the peer before the client blocks in \<^verbatim>\<open>read\<close>.\<close>

definition exchange :: "'p env \<Rightarrow> 'p bclient \<Rightarrow> 'p bclient" where
  "exchange env c =
     (case peer env (sent (bc_out c)) (bc_peer c) of
        (events, p) \<Rightarrow> c\<lparr>bc_out := (bc_out c)\<lparr>sent := []\<rparr>, bc_in := bc_in c @ events, bc_peer := p\<rparr>)"

definition read_response :: "('p bclient, rmessage) fallible" where
  "read_response c =
     (case read_rmessage_checked (cl_msize (protocol c)) (bc_in c) of
        (Inl e, r) \<Rightarrow> (Inl e, c\<lparr>bc_in := r\<rparr>)
      | (Inr m, r) \<Rightarrow> (ok_or m (Error_from ''9P transport closed before response''), c\<lparr>bc_in := r\<rparr>))"

definition call_message :: "'p env \<Rightarrow> tmessage \<Rightarrow> ('p bclient, client_response) fallible" where
  "call_message env m c =
     (case write_tmessage_checked (cl_msize (protocol c)) m (bc_out c) of
        (Inl e, w) \<Rightarrow> (Inl e, c\<lparr>bc_out := w, protocol := abandon (t_tag m) (protocol c)\<rparr>)
      | (Inr _, w) \<Rightarrow>
          bind_s read_response (\<lambda>response. protocol_op (receive response)) (exchange env (c\<lparr>bc_out := w\<rparr>)))"

definition call_op :: "'p env \<Rightarrow> op \<Rightarrow> ('p bclient, completion) fallible" where
  "call_op env op =
     bind_s (call_message env (op_message op)) (\<lambda>response.
       case response of
         Resp_Completion tag completion \<Rightarrow>
           (if tag = op_tag op then return_s completion
            else throw_s (Error (str ''response tag mismatch or unexpected response: '' @ debug_response env response)))
       | Resp_Error tag ename \<Rightarrow>
           (if tag = op_tag op then throw_s (Error ename)
            else throw_s (Error (str ''response tag mismatch or unexpected response: '' @ debug_response env response))))"

text \<open>\<^verbatim>\<open>let _ = m\<close> and \<^verbatim>\<open>let r = m\<close> without \<^verbatim>\<open>?\<close>.\<close>

definition ignore_s :: "('s, 'a) fallible \<Rightarrow> ('s, unit) fallible" where
  "ignore_s m s = (Inr (), snd (m s))"

definition attempt_s :: "('s, 'a) fallible \<Rightarrow> ('s, 'a result) fallible" where
  "attempt_s m s = (case m s of (r, s') \<Rightarrow> (Inr r, s'))"

section \<open>Requests\<close>

definition bc_max_write_payload :: "'p bclient \<Rightarrow> u32" where
  "bc_max_write_payload c = max (max_write_payload (cl_msize (protocol c))) 1"

definition bc_clunk :: "'p env \<Rightarrow> fid \<Rightarrow> ('p bclient, unit) fallible" where
  "bc_clunk env f =
     bind_s (protocol_op (client_clunk f)) (\<lambda>op.
     bind_s (call_op env op) (\<lambda>done_with. case done_with of
       Done_Clunk \<Rightarrow> return_s ()
     | other \<Rightarrow> throw_s (unexpected ''Rclunk'' (debug_completion env other))))"

text \<open>\<open>walk_short\<close> returns \<open>Inl\<close> of how many elements the server accepted, or \<open>Inr\<close> of the new fid.\<close>

definition walk_short :: "'p env \<Rightarrow> fid \<Rightarrow> bytes list \<Rightarrow> ('p bclient, usize + fid) fallible" where
  "walk_short env f names =
     bind_s (protocol_op (client_walk f names)) (\<lambda>op.
     bind_s (lift_s (op_fid op)) (\<lambda>newfid.
     bind_s (call_op env op) (\<lambda>completion. case completion of
       Done_Walk qids \<Rightarrow>
         (if length qids = length names then return_s (Inr newfid)
          else bind_s (ignore_s (bc_clunk env newfid)) (\<lambda>_. return_s (Inl (length qids))))
     | other \<Rightarrow>
         bind_s (ignore_s (bc_clunk env newfid)) (\<lambda>_.
         throw_s (unexpected ''Rwalk'' (debug_completion env other))))))"

definition walk_refusal :: "'p env \<Rightarrow> fid \<Rightarrow> bytes list \<Rightarrow> usize \<Rightarrow> 'p bclient \<Rightarrow> error option \<times> 'p bclient" where
  "walk_refusal env f names walked c =
     (if \<not> walked < length names then (None, c)
      else let stopped = names ! walked in
        case walk_short env f (take walked names) c of
          (Inr (Inr prefix), c) \<Rightarrow>
            (case walk_short env prefix [stopped] c of
               (r, c) \<Rightarrow>
                 let (refusal, c) =
                       (case r of
                          Inr (Inr reached) \<Rightarrow> (None, snd (bc_clunk env reached c))
                        | Inr (Inl _) \<Rightarrow> (None, c)
                        | Inl e \<Rightarrow> (Some e, c))
                 in (refusal, snd (bc_clunk env prefix c)))
        | (_, c) \<Rightarrow> (None, c))"

definition bc_walk :: "'p env \<Rightarrow> fid \<Rightarrow> bytes list \<Rightarrow> ('p bclient, fid) fallible" where
  "bc_walk env f names =
     bind_s (walk_short env f names) (\<lambda>r. case r of
       Inr newfid \<Rightarrow> return_s newfid
     | Inl walked \<Rightarrow> (\<lambda>c. case walk_refusal env f names walked c of
         (refusal, c) \<Rightarrow> (Inl (partial_walk (debug_str env) names walked refusal), c)))"

definition clone_fid :: "'p env \<Rightarrow> fid \<Rightarrow> ('p bclient, fid) fallible" where
  "clone_fid env f = bc_walk env f []"

definition path_names :: "bytes \<Rightarrow> bytes list" where
  "path_names path = filter (\<lambda>name. name \<noteq> [] \<and> name \<noteq> [DOT]) (split_on SLASH path)"

definition walk_path :: "'p env \<Rightarrow> bytes \<Rightarrow> ('p bclient, fid) fallible" where
  "walk_path env path c =
     (let names = path_names path in
      if names = [] then clone_fid env (root_fid c) c else bc_walk env (root_fid c) names c)"

definition walk_one :: "'p env \<Rightarrow> fid \<Rightarrow> bytes \<Rightarrow> ('p bclient, fid) fallible" where
  "walk_one env f name = bc_walk env f [name]"

definition bc_open :: "'p env \<Rightarrow> fid \<Rightarrow> u8 \<Rightarrow> ('p bclient, qid) fallible" where
  "bc_open env f mode =
     bind_s (protocol_op (client_open f mode)) (\<lambda>op.
     bind_s (call_op env op) (\<lambda>completion. case completion of
       Done_Open q _ \<Rightarrow> return_s q
     | other \<Rightarrow> throw_s (unexpected ''Ropen'' (debug_completion env other))))"

definition bc_create :: "'p env \<Rightarrow> fid \<Rightarrow> bytes \<Rightarrow> u32 \<Rightarrow> u8 \<Rightarrow> ('p bclient, fid \<times> qid) fallible" where
  "bc_create env parent_fid name perm mode =
     bind_s (clone_fid env parent_fid) (\<lambda>f.
     bind_s (protocol_op (client_create f name perm mode)) (\<lambda>op.
     bind_s (attempt_s (call_op env op)) (\<lambda>reply. case reply of
       Inr (Done_Create q _) \<Rightarrow> return_s (f, q)
     | Inr other \<Rightarrow>
         bind_s (ignore_s (bc_clunk env f)) (\<lambda>_.
         throw_s (unexpected ''Rcreate'' (debug_completion env other)))
     | Inl e \<Rightarrow> bind_s (ignore_s (bc_clunk env f)) (\<lambda>_. throw_s e))))"

definition bc_read :: "'p env \<Rightarrow> fid \<Rightarrow> u64 \<Rightarrow> u32 \<Rightarrow> ('p bclient, bytes) fallible" where
  "bc_read env f offset count c =
     (let count = clamp_read_count (cl_msize (protocol c)) count in
      bind_s (protocol_op (client_read f offset count)) (\<lambda>op.
      bind_s (call_op env op) (\<lambda>completion. case completion of
        Done_Read data \<Rightarrow> lift_s (checked_read_data data count)
      | other \<Rightarrow> throw_s (unexpected ''Rread'' (debug_completion env other)))) c)"

definition write_once :: "'p env \<Rightarrow> fid \<Rightarrow> u64 \<Rightarrow> bytes \<Rightarrow> ('p bclient, u32) fallible" where
  "write_once env f offset data =
     bind_s (protocol_op (client_write f offset data)) (\<lambda>op.
     bind_s (call_op env op) (\<lambda>completion. case completion of
       Done_Write count \<Rightarrow> lift_s (checked_write_count count (length data))
     | other \<Rightarrow> throw_s (unexpected ''Rwrite'' (debug_completion env other))))"

definition bc_write :: "'p env \<Rightarrow> fid \<Rightarrow> u64 \<Rightarrow> bytes \<Rightarrow> ('p bclient, u32) fallible" where
  "bc_write env f offset data c =
     write_in_chunks (bc_max_write_payload c) offset data (write_once env f) c"

definition bc_remove :: "'p env \<Rightarrow> fid \<Rightarrow> ('p bclient, unit) fallible" where
  "bc_remove env f =
     bind_s (protocol_op (client_remove f)) (\<lambda>op.
     bind_s (call_op env op) (\<lambda>completion. case completion of
       Done_Remove \<Rightarrow> return_s ()
     | other \<Rightarrow> throw_s (unexpected ''Rremove'' (debug_completion env other))))"

definition bc_stat :: "'p env \<Rightarrow> fid \<Rightarrow> ('p bclient, stat) fallible" where
  "bc_stat env f =
     bind_s (protocol_op (client_stat f)) (\<lambda>op.
     bind_s (call_op env op) (\<lambda>completion. case completion of
       Done_Stat st \<Rightarrow> return_s st
     | other \<Rightarrow> throw_s (unexpected ''Rstat'' (debug_completion env other))))"

definition bc_wstat :: "'p env \<Rightarrow> fid \<Rightarrow> stat \<Rightarrow> ('p bclient, unit) fallible" where
  "bc_wstat env f st =
     bind_s (protocol_op (client_wstat f st)) (\<lambda>op.
     bind_s (call_op env op) (\<lambda>completion. case completion of
       Done_Wstat \<Rightarrow> return_s ()
     | other \<Rightarrow> throw_s (unexpected ''Rwstat'' (debug_completion env other))))"

definition bc_rename_at :: "'p env \<Rightarrow> fid \<Rightarrow> bytes \<Rightarrow> fid \<Rightarrow> bytes \<Rightarrow> ('p bclient, unit) fallible" where
  "bc_rename_at env olddirfid oldname newdirfid newname c =
     (if \<not> supports_rename_at (bc_variant c)
      then (Inl (Error_from ''server did not negotiate atomic renameat''), c)
      else bind_s (protocol_op (client_rename_at olddirfid oldname newdirfid newname)) (\<lambda>op.
        bind_s (call_op env op) (\<lambda>completion. case completion of
          Done_RenameAt \<Rightarrow> return_s ()
        | other \<Rightarrow> throw_s (unexpected ''Rrenameat'' (debug_completion env other)))) c)"

section \<open>Connecting\<close>

definition connect_with_variant ::
  "'p env \<Rightarrow> bytes \<Rightarrow> bytes \<Rightarrow> u32 \<Rightarrow> variant \<Rightarrow> writer \<Rightarrow> reader \<Rightarrow> 'p \<Rightarrow> unit result \<times> 'p bclient" where
  "connect_with_variant env uname aname msz requested_variant w r p =
     (let fresh = \<lparr>bc_out = w, bc_in = r, bc_peer = p, protocol = Client_new, bc_variant = Plain,
                   root_fid = NOFID, root_qid = Qid_file 0\<rparr>;
          (version_msg, proto) = version_request_for msz requested_variant (protocol fresh) in
      bind_s (call_message env version_msg) (\<lambda>response.
      bind_s (case response of
          Resp_Completion _ (Done_Version _ ver) \<Rightarrow>
            lift_s (ok_or (accept_response requested_variant ver)
              (Error (str ''server negotiated unsupported version '' @ from_utf8_lossy ver)))
        | other \<Rightarrow> throw_s (unexpected ''Rversion'' (debug_response env other))) (\<lambda>negotiated_variant.
      bind_s (modify_s (\<lambda>c. c\<lparr>bc_variant := negotiated_variant\<rparr>)) (\<lambda>_.
      bind_s (protocol_op (client_attach uname aname)) (\<lambda>attach.
      bind_s (lift_s (op_fid attach)) (\<lambda>f.
      bind_s (call_op env attach) (\<lambda>completion. case completion of
        Done_Attach q \<Rightarrow> modify_s (\<lambda>c. c\<lparr>root_fid := f, root_qid := q\<rparr>)
      | other \<Rightarrow> throw_s (unexpected ''Rattach'' (debug_completion env other)))))))) (fresh\<lparr>protocol := proto\<rparr>))"

section \<open>Whole files\<close>

text \<open>\<^verbatim>\<open>u64::try_from(n)\<close> on a \<open>usize\<close>.\<close>

definition u64_try_from :: "usize \<Rightarrow> u64 option" where
  "u64_try_from n = (if n < 2 ^ 64 then Some (word_of_nat n) else None)"

lemma u64_try_from_Some: "u64_try_from n = Some k \<Longrightarrow> unat k = n"
  by (auto simp: u64_try_from_def unat_of_nat split: if_splits)

text \<open>The loop of \<open>read_all\<close>: it ends because the offset grows with every page and cannot pass
  \<open>u64::MAX\<close>.\<close>

function read_all_loop :: "'p env \<Rightarrow> fid \<Rightarrow> u64 \<Rightarrow> bytes \<Rightarrow> ('p bclient, bytes) fallible" where
  "read_all_loop env f offset out c =
     (case bc_read env f offset DEFAULT_READ_CHUNK c of
        (Inl e, c) \<Rightarrow> (Inl e, c)
      | (Inr data, c) \<Rightarrow>
          (if data = [] then (Inr out, c)
           else case u64_try_from (length data) of
             None \<Rightarrow> (Inl (Error_from ''read count overflow''), c)
           | Some n \<Rightarrow>
               (case checked_advance_offset offset n of
                  Inl e \<Rightarrow> (Inl e, c)
                | Inr offset \<Rightarrow> read_all_loop env f offset (out @ data) c)))"
  by pat_completeness auto
termination
  by (relation "measure (\<lambda>(_, _, offset, _, _). 2 ^ 64 - unat offset)")
    (auto dest!: u64_try_from_Some simp: checked_advance_offset_Inr eq_commute [of _ "u64_try_from _"]
      eq_commute [of _ "checked_advance_offset _ _"] intro!: diff_less_mono2)

declare read_all_loop.simps [simp del]

definition read_all :: "'p env \<Rightarrow> fid \<Rightarrow> ('p bclient, bytes) fallible" where
  "read_all env f = read_all_loop env f 0 []"

definition read_dir_stats :: "'p env \<Rightarrow> fid \<Rightarrow> ('p bclient, stat list) fallible" where
  "read_dir_stats env f = bind_s (read_all env f) (\<lambda>data. lift_s (decode_dir_entries data))"

section \<open>Paths\<close>

text \<open>\<open>finally_clunk\<close> is \<^verbatim>\<open>let result = m; let _ = self.clunk(fid); result\<close>; \<open>then_clunk\<close> also reports the
  error of the clunk when \<open>m\<close> succeeded.\<close>

definition finally_clunk :: "'p env \<Rightarrow> fid \<Rightarrow> ('p bclient, 'a) fallible \<Rightarrow> ('p bclient, 'a) fallible" where
  "finally_clunk env f m =
     bind_s (attempt_s m) (\<lambda>result. bind_s (ignore_s (bc_clunk env f)) (\<lambda>_. lift_s result))"

definition then_clunk :: "'p env \<Rightarrow> fid \<Rightarrow> ('p bclient, 'a) fallible \<Rightarrow> ('p bclient, 'a) fallible" where
  "then_clunk env f m =
     bind_s (attempt_s m) (\<lambda>result. case result of
       Inr x \<Rightarrow> bind_s (bc_clunk env f) (\<lambda>_. return_s x)
     | Inl e \<Rightarrow> bind_s (ignore_s (bc_clunk env f)) (\<lambda>_. throw_s e))"

definition stat_path :: "'p env \<Rightarrow> bytes \<Rightarrow> ('p bclient, stat) fallible" where
  "stat_path env path = bind_s (walk_path env path) (\<lambda>f. finally_clunk env f (bc_stat env f))"

definition list_path :: "'p env \<Rightarrow> bytes \<Rightarrow> ('p bclient, stat list) fallible" where
  "list_path env path =
     bind_s (walk_path env path) (\<lambda>f.
     bind_s (bc_stat env f) (\<lambda>st.
     bind_s (if stat_mode st AND DMDIR \<noteq> 0 then
         bind_s (bc_open env f OREAD) (\<lambda>_. attempt_s (read_dir_stats env f))
       else return_s (Inl (Error ENOTDIR))) (\<lambda>result.
     bind_s (ignore_s (bc_clunk env f)) (\<lambda>_. lift_s result))))"

definition read_path :: "'p env \<Rightarrow> bytes \<Rightarrow> ('p bclient, bytes) fallible" where
  "read_path env path =
     bind_s (walk_path env path) (\<lambda>f.
     finally_clunk env f (bind_s (bc_open env f OREAD) (\<lambda>_. read_all env f)))"

definition read_path_range :: "'p env \<Rightarrow> bytes \<Rightarrow> u64 \<Rightarrow> u32 \<Rightarrow> ('p bclient, bytes) fallible" where
  "read_path_range env path offset count =
     bind_s (walk_path env path) (\<lambda>f.
     finally_clunk env f (bind_s (bc_open env f OREAD) (\<lambda>_. bc_read env f offset count)))"

definition write_path :: "'p env \<Rightarrow> bytes \<Rightarrow> u64 \<Rightarrow> bytes \<Rightarrow> ('p bclient, u32) fallible" where
  "write_path env path offset data =
     bind_s (walk_path env path) (\<lambda>f.
     then_clunk env f (bind_s (bc_open env f OWRITE) (\<lambda>_. bc_write env f offset data)))"

definition write_file :: "'p env \<Rightarrow> bytes \<Rightarrow> bytes \<Rightarrow> ('p bclient, u32) fallible" where
  "write_file env path data =
     bind_s (walk_path env path) (\<lambda>f.
     then_clunk env f (bind_s (bc_open env f (OWRITE OR OTRUNC)) (\<lambda>_. bc_write env f 0 data)))"

definition create_at :: "'p env \<Rightarrow> bytes \<Rightarrow> bytes \<Rightarrow> u32 \<Rightarrow> u8 \<Rightarrow> ('p bclient, qid) fallible" where
  "create_at env parent name perm mode =
     bind_s (walk_path env parent) (\<lambda>parent_fid.
     then_clunk env parent_fid
       (bind_s (bc_create env parent_fid name perm mode) (\<lambda>(f, q).
        bind_s (bc_clunk env f) (\<lambda>_. return_s q))))"

definition create_write_at ::
  "'p env \<Rightarrow> bytes \<Rightarrow> bytes \<Rightarrow> u32 \<Rightarrow> u8 \<Rightarrow> u64 \<Rightarrow> bytes \<Rightarrow> ('p bclient, u32) fallible" where
  "create_write_at env parent name perm mode offset data =
     bind_s (walk_path env parent) (\<lambda>parent_fid.
     bind_s (attempt_s (bc_create env parent_fid name perm mode)) (\<lambda>created.
     bind_s (attempt_s (bc_clunk env parent_fid)) (\<lambda>parent_clunk.
     bind_s (lift_s created) (\<lambda>(f, _).
     case parent_clunk of
       Inl e \<Rightarrow> bind_s (ignore_s (bc_clunk env f)) (\<lambda>_. throw_s e)
     | Inr _ \<Rightarrow>
         bind_s (attempt_s (bc_write env f offset data)) (\<lambda>written.
         bind_s (attempt_s (bc_clunk env f)) (\<lambda>clunked.
         case written of
           Inr count \<Rightarrow> bind_s (lift_s clunked) (\<lambda>_. return_s count)
         | Inl e \<Rightarrow> throw_s e))))))"

definition remove_path :: "'p env \<Rightarrow> bytes \<Rightarrow> ('p bclient, unit) fallible" where
  "remove_path env path = bind_s (walk_path env path) (\<lambda>f. bc_remove env f)"

definition rpc_path :: "'p env \<Rightarrow> bytes \<Rightarrow> bytes \<Rightarrow> ('p bclient, bytes) fallible" where
  "rpc_path env path data =
     bind_s (walk_path env path) (\<lambda>f.
     bind_s (attempt_s (bc_open env f ORDWR)) (\<lambda>opened.
     bind_s (case opened of
         Inr _ \<Rightarrow>
           bind_s (bc_write env f 0 data) (\<lambda>count.
             if unat count \<noteq> length data then return_s (Inl (Error_from ''short rpc request write''))
             else attempt_s (read_all env f))
       | Inl e \<Rightarrow> return_s (Inl e)) (\<lambda>result.
     bind_s (ignore_s (bc_clunk env f)) (\<lambda>_. lift_s result))))"

section \<open>Addresses and timeouts\<close>

definition BANG :: u8 where "BANG = 0x21"
definition COLON :: u8 where "COLON = 0x3A"

definition parse_tcp_address :: "bytes \<Rightarrow> bytes result" where
  "parse_tcp_address address =
     (case strip_prefix (str ''tcp!'') address of
        Some parts \<Rightarrow>
          (let parts = split_on BANG parts in
           if length parts = 2 \<and> parts ! 0 \<noteq> [] \<and> parts ! 1 \<noteq> []
           then Inr (parts ! 0 @ [COLON] @ parts ! 1)
           else Inl (Error (str ''invalid tcp address '' @ address)))
      | None \<Rightarrow>
          (if BANG \<in> set address then Inl (Error (str ''unsupported 9P address '' @ address))
           else if COLON \<in> set address then Inr address
           else Inr (address @ str '':564'')))"

text \<open>A \<^verbatim>\<open>Duration\<close> as its nanoseconds.\<close>

record connection_timeouts =
  connect_timeout :: nat
  read_timeout :: nat
  write_timeout :: nat

definition validate_nonzero_timeout :: "string \<Rightarrow> nat \<Rightarrow> unit result" where
  "validate_nonzero_timeout label timeout =
     ensure (timeout \<noteq> 0) (Error_from (label @ '' timeout must be greater than zero''))"

definition ConnectionTimeouts_validate :: "connection_timeouts \<Rightarrow> connection_timeouts result" where
  "ConnectionTimeouts_validate t =
     and_then (validate_nonzero_timeout ''connect'' (connect_timeout t)) (\<lambda>_.
     and_then (validate_nonzero_timeout ''read'' (read_timeout t)) (\<lambda>_.
     and_then (validate_nonzero_timeout ''write'' (write_timeout t)) (\<lambda>_.
     Inr t)))"

end
