(* ===== verification/R9P_Endpoint.thy ===== *)
theory R9P_Endpoint
  imports R9P_Blocking
begin

text \<open>
  TCP endpoints (\<^verbatim>\<open>endpoint.rs\<close>): a host and a port, parsed from text and rendered again. A \<^verbatim>\<open>&str\<close>
  is its UTF-8 bytes. The string methods and the integer parser of the standard library the code uses
  come first.
\<close>

section \<open>String methods\<close>

fun split_once :: "u8 \<Rightarrow> bytes \<Rightarrow> (bytes \<times> bytes) option" where
  "split_once c [] = None"
| "split_once c (b # bs) =
     (if b = c then Some ([], bs)
      else map_option (\<lambda>(x, y). (b # x, y)) (split_once c bs))"

definition rsplit_once :: "u8 \<Rightarrow> bytes \<Rightarrow> (bytes \<times> bytes) option" where
  "rsplit_once c bs = map_option (\<lambda>(x, y). (rev y, rev x)) (split_once c (rev bs))"

definition is_ascii_whitespace :: "u8 \<Rightarrow> bool" where
  "is_ascii_whitespace b \<longleftrightarrow> b \<in> {0x20, 0x09, 0x0A, 0x0C, 0x0D}"

definition is_ascii_digit :: "u8 \<Rightarrow> bool" where
  "is_ascii_digit b \<longleftrightarrow> 0x30 \<le> b \<and> b \<le> 0x39"

definition decimal_value :: "bytes \<Rightarrow> nat" where
  "decimal_value ds = foldl (\<lambda>acc d. acc * 10 + (unat d - 48)) 0 ds"

text \<open>\<^verbatim>\<open>str::parse::<u16>\<close>: one leading plus sign is allowed, and any number of zeros.\<close>

definition u16_from_str :: "bytes \<Rightarrow> u16 option" where
  "u16_from_str s =
     (let ds = (if s \<noteq> [] \<and> hd s = 0x2B \<and> tl s \<noteq> [] then tl s else s) in
      if ds \<noteq> [] \<and> list_all is_ascii_digit ds \<and> decimal_value ds \<le> u16_max
      then Some (word_of_nat (decimal_value ds)) else None)"

section \<open>Endpoints\<close>

definition MAX_HOST_BYTES :: usize where "MAX_HOST_BYTES = 255"

record tcp_endpoint =
  ep_host :: bytes
  ep_port :: u16

definition OPEN_BRACKET :: u8 where "OPEN_BRACKET = 0x5B"
definition CLOSE_BRACKET :: u8 where "CLOSE_BRACKET = 0x5D"

definition split_host_port :: "bytes \<Rightarrow> (bytes \<times> bytes) result" where
  "split_host_port s =
     (case strip_prefix [OPEN_BRACKET] s of
        Some v \<Rightarrow>
          and_then (ok_or (split_once CLOSE_BRACKET v) (Error (str ''invalid TCP endpoint '' @ v))) (\<lambda>(host, suffix).
          map_ok (\<lambda>port. (host, port))
            (ok_or (strip_prefix [COLON] suffix) (Error (str ''invalid TCP endpoint '' @ v))))
      | None \<Rightarrow>
          and_then (ok_or (rsplit_once COLON s) (Error (str ''invalid TCP endpoint '' @ s))) (\<lambda>(host, port).
          if COLON \<in> set host then Inl (Error (str ''IPv6 TCP endpoint must be bracketed: '' @ s))
          else Inr (host, port)))"

definition TcpEndpoint_parse :: "bytes \<Rightarrow> tcp_endpoint result" where
  "TcpEndpoint_parse s =
     (if s = [] \<or> length s > MAX_HOST_BYTES + 8 \<or> list_ex (\<lambda>b. is_ascii_control b \<or> is_ascii_whitespace b) s
      then Inl (Error (str ''invalid TCP endpoint '' @ s))
      else and_then (split_host_port s) (\<lambda>(host, port).
        if host = [] \<or> length host > MAX_HOST_BYTES \<or> list_ex (\<lambda>b. b \<in> {SLASH, OPEN_BRACKET, CLOSE_BRACKET}) host
        then Inl (Error (str ''invalid TCP endpoint host '' @ host))
        else map_ok (\<lambda>p. \<lparr>ep_host = host, ep_port = p\<rparr>)
          (ok_or (case u16_from_str port of Some p \<Rightarrow> if p > 0 then Some p else None | None \<Rightarrow> None)
             (Error (str ''invalid TCP endpoint port '' @ port)))))"

definition TcpEndpoint_display :: "tcp_endpoint \<Rightarrow> bytes" where
  "TcpEndpoint_display e =
     (if COLON \<in> set (ep_host e)
      then [OPEN_BRACKET] @ ep_host e @ [CLOSE_BRACKET, COLON] @ dec (unat (ep_port e))
      else ep_host e @ [COLON] @ dec (unat (ep_port e)))"

section \<open>Decimal numbers are parsed back\<close>

lemma decimal_value_snoc: "decimal_value (ds @ [d]) = decimal_value ds * 10 + (unat d - 48)"
  by (simp add: decimal_value_def)

lemma digit_word [simp]: "n < 10 \<Longrightarrow> unat (48 + word_of_nat n :: u8) = 48 + n"
proof -
  assume "n < 10"
  then have "unat (word_of_nat (48 + n) :: u8) = 48 + n"
    by (simp only: unat_of_nat) simp
  then show ?thesis by simp
qed

lemma dec_digits: "list_all is_ascii_digit (dec n)"
proof (induction n rule: dec.induct)
  case (1 n)
  have "is_ascii_digit (word_of_nat (48 + m))" if "m < 10" for m
    using that by (simp add: is_ascii_digit_def word_le_nat_alt)
  then show ?case using 1 by (subst dec.simps) auto
qed

lemma dec_value: "decimal_value (dec n) = n"
proof (induction n rule: dec.induct)
  case (1 n)
  then show ?case
    by (subst dec.simps) (auto simp: decimal_value_snoc decimal_value_def)
qed

lemma dec_length: "n < 10 ^ k \<Longrightarrow> 0 < k \<Longrightarrow> length (dec n) \<le> k"
proof (induction n arbitrary: k rule: dec.induct)
  case (1 n)
  show ?case
  proof (cases "n < 10")
    case False
    then obtain j where j: "k = Suc j" "0 < j"
      using 1(2,3) by (cases k; cases "k - 1") auto
    then have "length (dec (n div 10)) \<le> j"
      using 1 False by (intro 1(1)) auto
    with False j show ?thesis by (subst dec.simps) simp
  qed (use 1(3) in \<open>subst dec.simps, simp\<close>)
qed

lemma u16_from_str_dec: "u16_from_str (dec (unat p)) = Some p"
proof -
  have "hd (dec n) \<noteq> 0x2B" for n
    using dec_digits [of n] by (cases "dec n") (auto simp: is_ascii_digit_def)
  moreover have "unat p \<le> u16_max"
    using unat_less_exp [of p] by (simp add: u16_max_def)
  ultimately show ?thesis
    by (simp add: u16_from_str_def Let_def dec_digits dec_value)
qed

lemma split_once_first: "c \<notin> set a \<Longrightarrow> split_once c (a @ c # b) = Some (a, b)"
  by (induction a) auto

lemma rsplit_once_last: "c \<notin> set b \<Longrightarrow> rsplit_once c (a @ c # b) = Some (a, b)"
  using split_once_first [of c "rev b" "rev a"] by (simp add: rsplit_once_def)

lemma split_once_Some: "split_once c s = Some (a, b) \<Longrightarrow> s = a @ c # b \<and> c \<notin> set a"
  by (induction s arbitrary: a) (auto split: if_splits)

lemma digit_plain: "is_ascii_digit b \<Longrightarrow> \<not> is_ascii_control b \<and> \<not> is_ascii_whitespace b"
  by (auto simp: is_ascii_digit_def is_ascii_control_def is_ascii_whitespace_def word_le_nat_alt word_less_nat_alt)

lemma bracket_plain:
  "b \<in> {OPEN_BRACKET, CLOSE_BRACKET, COLON} \<Longrightarrow> \<not> is_ascii_control b \<and> \<not> is_ascii_whitespace b"
  by (auto simp: OPEN_BRACKET_def CLOSE_BRACKET_def COLON_def is_ascii_control_def is_ascii_whitespace_def)

lemma split_host_port_host:
  assumes "split_host_port s = Inr (host, port)"
  shows "set host \<subseteq> set s"
proof (cases "strip_prefix [OPEN_BRACKET] s")
  case None
  then have "split_once COLON (rev s) = Some (rev port, rev host)"
    using assms by (auto simp: split_host_port_def and_then_Inr_iff rsplit_once_def split: if_splits)
  then have "rev s = rev port @ COLON # rev host" using split_once_Some by blast
  then have "set (rev s) = set (rev port @ COLON # rev host)" by simp
  then show ?thesis by auto
next
  case (Some v)
  then obtain suffix where "split_once CLOSE_BRACKET v = Some (host, suffix)"
    using assms by (auto simp: split_host_port_def and_then_Inr_iff map_ok_Inr_iff)
  moreover have "s = OPEN_BRACKET # v" using Some by (cases s) (auto split: if_splits)
  ultimately show ?thesis using split_once_Some by fastforce
qed

text \<open>An endpoint that was accepted can be written down and read back: the text of every parsed endpoint
  parses to the same host and port, also when the original was bracketed, padded or signed.\<close>

theorem endpoint_text_parses_back:
  assumes "TcpEndpoint_parse s = Inr e"
  shows "TcpEndpoint_parse (TcpEndpoint_display e) = Inr e"
proof -
  from assms obtain port where split: "split_host_port s = Inr (ep_host e, port)"
    and host: "ep_host e \<noteq> []" "length (ep_host e) \<le> MAX_HOST_BYTES"
      "\<And>b. b \<in> set (ep_host e) \<Longrightarrow> b \<noteq> SLASH \<and> b \<noteq> OPEN_BRACKET \<and> b \<noteq> CLOSE_BRACKET"
    and clean: "\<And>b. b \<in> set s \<Longrightarrow> \<not> is_ascii_control b \<and> \<not> is_ascii_whitespace b" and p: "ep_port e > 0"
    by (auto simp: TcpEndpoint_parse_def and_then_Inr_iff map_ok_Inr_iff list_ex_iff split: if_splits option.splits)
  let ?d = "dec (unat (ep_port e))"
  have d: "b \<in> set ?d \<Longrightarrow> is_ascii_digit b" for b
    using dec_digits [of "unat (ep_port e)"] by (auto simp: list_all_iff)
  have len: "length ?d \<le> 5"
    using unat_less_exp [of "ep_port e"] by (intro dec_length) simp_all
  have "b \<in> set (TcpEndpoint_display e) \<Longrightarrow> \<not> is_ascii_control b \<and> \<not> is_ascii_whitespace b" for b
    using split_host_port_host [OF split] clean d [of b] digit_plain [of b]
    by (auto simp: TcpEndpoint_display_def bracket_plain split: if_splits)
  moreover have "TcpEndpoint_display e \<noteq> []" "length (TcpEndpoint_display e) \<le> MAX_HOST_BYTES + 8"
    using host len by (auto simp: TcpEndpoint_display_def)
  moreover have "split_host_port (TcpEndpoint_display e) = Inr (ep_host e, ?d)"
  proof (cases "COLON \<in> set (ep_host e)")
    case True
    have "CLOSE_BRACKET \<notin> set (ep_host e)" using host(3) by blast
    then show ?thesis
      using True split_once_first [of CLOSE_BRACKET "ep_host e" "COLON # ?d"]
      by (simp add: TcpEndpoint_display_def split_host_port_def)
  next
    case False
    have "strip_prefix [OPEN_BRACKET] (ep_host e @ COLON # ?d) = None"
      using host(1,3) by (cases "ep_host e") auto
    moreover have "COLON \<notin> set ?d" using d [of COLON] digit_plain [of COLON] by (auto simp: COLON_def is_ascii_digit_def)
    ultimately show ?thesis
      using False rsplit_once_last [of COLON ?d "ep_host e"]
      by (simp add: TcpEndpoint_display_def split_host_port_def)
  qed
  ultimately show ?thesis
    using host p by (auto simp: TcpEndpoint_parse_def list_ex_iff u16_from_str_dec)
qed

theorem endpoint_text_parses_back_witness:
  "TcpEndpoint_parse (str ''[::1]:+0564'') = Inr \<lparr>ep_host = str ''::1'', ep_port = 564\<rparr>
   \<and> TcpEndpoint_parse (TcpEndpoint_display \<lparr>ep_host = str ''::1'', ep_port = 564\<rparr>) = Inr \<lparr>ep_host = str ''::1'', ep_port = 564\<rparr>"
proof -
  have "TcpEndpoint_parse (str ''[::1]:+0564'') = Inr \<lparr>ep_host = str ''::1'', ep_port = 564\<rparr>"
    by (simp add: TcpEndpoint_parse_def str_def MAX_HOST_BYTES_def is_ascii_control_def is_ascii_whitespace_def
        split_host_port_def OPEN_BRACKET_def CLOSE_BRACKET_def COLON_def SLASH_def u16_from_str_def Let_def
        is_ascii_digit_def decimal_value_def u16_max_def)
  then show ?thesis using endpoint_text_parses_back by blast
qed

end
