(* ===== verification/R9P_Session.thy ===== *)
theory R9P_Session
  imports R9P_Request_Table R9P_Codec
begin

text \<open>
  The server's session (\<^verbatim>\<open>server/config.rs\<close>, \<^verbatim>\<open>server/session.rs\<close>, \<^verbatim>\<open>server/validation.rs\<close>):
  the negotiated parameters, the fid table, the reservations pending requests hold on fids, and
  the request table. Reservations are exclusive (open, create, wstat, directory read, walk onto the same
  fid, the afid of an attach, a fid being clunked, a fid about to be created) or shared.
\<close>

section \<open>Configuration and validation\<close>

record server_config =
  default_msize :: u32
  max_msize :: u32
  max_fids :: usize
  max_async_requests :: usize
  cfg_variant :: variant
  session_uname :: "bytes option"

definition ServerConfig_default :: server_config where
  "ServerConfig_default =
     \<lparr>default_msize = DEFAULT_MSIZE, max_msize = MAX_MSIZE, max_fids = 4096,
      max_async_requests = 256, cfg_variant = Plain, session_uname = None\<rparr>"

definition validate_walk_names :: "bytes list \<Rightarrow> unit result" where
  "validate_walk_names wnames =
     (if length wnames > MAXWELEM then Inl (Error_from ''name too long'')
      else for_each (\<lambda>name. ensure (\<not> (name = [] \<or> SLASH \<in> set name \<or> 0 \<in> set name
             \<or> length name > u16_max)) (Error EBADWNAME)) wnames)"

definition validate_wstat :: "qid \<Rightarrow> stat \<Rightarrow> variant \<Rightarrow> unit result" where
  "validate_wstat q st variant =
     (if stat_type st \<noteq> - 1 then Inl (Error EWSTATTYPE)
      else if stat_dev st \<noteq> - 1 then Inl (Error EWSTATDEV)
      else if stat_qid st \<noteq> Qid_new (- 1) (- 1) (- 1) then Inl (Error EWSTATQID)
      else if stat_atime st \<noteq> - 1 then Inl (Error EWSTATATIME)
      else if stat_uid st \<noteq> [] then Inl (Error EWSTATUID)
      else if stat_muid st \<noteq> [] then Inl (Error EWSTATMUID)
      else if stat_mode st \<noteq> - 1 \<and> (stat_mode st AND DMDIR \<noteq> 0) \<noteq> is_dir q
      then Inl (Error EWSTATDMDIR)
      else if stat_mode st \<noteq> - 1
        \<and> ((stat_mode st AND DMSYMLINK \<noteq> 0) \<noteq> is_symlink q
           \<or> (stat_mode st AND DMSYMLINK \<noteq> 0) \<and> \<not> supports_symlinks variant)
      then Inl (Error EWSTATDMSYMLINK)
      else if is_dir q \<and> stat_length st \<noteq> - 1 \<and> stat_length st \<noteq> 0 then Inl (Error EWSTATDIRLENGTH)
      else Inr ())"

definition take_count :: "bytes \<Rightarrow> u32 \<Rightarrow> bytes result" where
  "take_count bs count = Inr (if length bs > unat count then take (unat count) bs else bs)"

definition error_reply :: "tag \<Rightarrow> error \<Rightarrow> rmessage" where
  "error_reply tag e =
     R_Error tag (if tag = NOTAG \<and> error_message e = EBADTAG then EBADTAG else error_message e)"

section \<open>The session\<close>

record fid_reservation =
  res_request :: request_key
  new_fid :: bool

record fid_reservations =
  exclusive :: "fid_reservation option"
  shared :: "request_key fset"

definition reservations_default :: fid_reservations where
  "reservations_default = \<lparr>exclusive = None, shared = {||}\<rparr>"

definition reservations_empty :: "fid_reservations \<Rightarrow> bool" where
  "reservations_empty r \<longleftrightarrow> exclusive r = None \<and> shared r = {||}"

definition holds_new_fid :: "fid_reservations \<Rightarrow> bool" where
  "holds_new_fid r \<longleftrightarrow> (case exclusive r of None \<Rightarrow> False | Some x \<Rightarrow> new_fid x)"

datatype version_negotiation = Accepted | Unknown_version

record session =
  config :: server_config
  msize :: u32
  version :: bytes
  sess_variant :: "variant option"
  negotiated :: bool
  fids :: "(fid, fid_state) fmap"
  reservations :: "(fid, fid_reservations) fmap"
  requests :: request_table

definition Session_new :: "server_config \<Rightarrow> session" where
  "Session_new cfg =
     \<lparr>config = cfg, msize = default_msize cfg, version = str ''unknown'', sess_variant = None,
      negotiated = False, fids = fmempty, reservations = fmempty, requests = RequestTable_new\<rparr>"

definition new_fid_reservations :: "session \<Rightarrow> fid fset" where
  "new_fid_reservations s = fmdom (fmfilter (\<lambda>f. case fmlookup (reservations s) f of
     None \<Rightarrow> False | Some r \<Rightarrow> holds_new_fid r) (reservations s))"

definition fid_count :: "session \<Rightarrow> usize" where
  "fid_count s = fcard (fmdom (fids s)) + fcard (new_fid_reservations s)"

definition authorize_uname :: "bytes \<Rightarrow> session \<Rightarrow> unit result" where
  "authorize_uname uname s =
     (case session_uname (config s) of
        Some authenticated \<Rightarrow> ensure (authenticated = uname) (Error ENOAUTH)
      | None \<Rightarrow> Inr ())"

definition contains_fid :: "session \<Rightarrow> fid \<Rightarrow> bool" where
  "contains_fid s f \<longleftrightarrow>
     fmlookup (fids s) f \<noteq> None
     \<or> (case fmlookup (reservations s) f of None \<Rightarrow> False | Some r \<Rightarrow> holds_new_fid r)"

definition invalidate :: "session \<Rightarrow> session" where
  "invalidate s = s\<lparr>fids := fmempty, reservations := fmempty, requests := table_reset (requests s),
     msize := MIN_MSIZE, version := str ''unknown'', sess_variant := None, negotiated := False\<rparr>"

definition reset_for_version :: "u32 \<Rightarrow> bytes \<Rightarrow> (session, version_negotiation) fallible" where
  "reset_for_version requested_msize requested s =
     (let s = invalidate s in
      if requested_msize < MIN_MSIZE then (Inl (Error EBADMSIZE), s)
      else case variant_accept (cfg_variant (config s)) requested of
        Some accepted \<Rightarrow>
          (Inr Accepted, s\<lparr>msize := min requested_msize (max_msize (config s)),
             version := wire_name accepted, sess_variant := Some accepted, negotiated := True\<rparr>)
      | None \<Rightarrow> (Inr Unknown_version, s))"

definition ensure_available :: "fid \<Rightarrow> session \<Rightarrow> unit result" where
  "ensure_available f s =
     (case fmlookup (reservations s) f of
        Some r \<Rightarrow> if exclusive r \<noteq> None then Inl (Error EFIDBUSY) else Inr ()
      | None \<Rightarrow> Inr ())"

definition ensure_unreserved :: "fid \<Rightarrow> session \<Rightarrow> unit result" where
  "ensure_unreserved f s =
     (case fmlookup (reservations s) f of
        Some r \<Rightarrow> if \<not> reservations_empty r then Inl (Error EFIDBUSY) else Inr ()
      | None \<Rightarrow> Inr ())"

definition bind_fid :: "fid \<Rightarrow> fid_state \<Rightarrow> (session, unit) fallible" where
  "bind_fid f st =
     bind_s (read_s (ensure_unreserved f)) (\<lambda>_.
     bind_s (read_s (\<lambda>s. ensure (\<not> (fmlookup (fids s) f = None
         \<and> fcard (fmdom (fids s)) \<ge> max_fids (config s))) (Error EFIDLIMIT))) (\<lambda>_.
     modify_s (\<lambda>s. s\<lparr>fids := fmupd f st (fids s)\<rparr>)))"

definition insert_new_fid :: "fid \<Rightarrow> fid_state \<Rightarrow> (session, unit) fallible" where
  "insert_new_fid f st =
     bind_s (read_s (\<lambda>s. ensure (fmlookup (fids s) f = None) (Error EFIDINUSE))) (\<lambda>_. bind_fid f st)"

definition retire_fid :: "request_key \<Rightarrow> fid \<Rightarrow> (session, fid_state) fallible" where
  "retire_fid request f =
     bind_s (read_s (ensure_unreserved f)) (\<lambda>_.
     bind_s (read_s (\<lambda>s. ok_or (fmlookup (fids s) f) (Error EBADFID))) (\<lambda>state.
     bind_s (modify_s (\<lambda>s. s\<lparr>fids := fmdrop f (fids s),
       reservations := fmupd f
         \<lparr>exclusive = Some \<lparr>res_request = request, new_fid = False\<rparr>, shared = {||}\<rparr>
         (reservations s)\<rparr>)) (\<lambda>_.
     return_s state)))"

definition get_fid :: "fid \<Rightarrow> session \<Rightarrow> fid_state result" where
  "get_fid f s =
     and_then (ensure_available f s) (\<lambda>_. ok_or (fmlookup (fids s) f) (Error EBADFID))"

text \<open>\<^verbatim>\<open>entry(fid).or_default()\<close>: the entry is created before the check that follows.\<close>

definition reservation_entry :: "fid \<Rightarrow> session \<Rightarrow> fid_reservations" where
  "reservation_entry f s =
     (case fmlookup (reservations s) f of Some r \<Rightarrow> r | None \<Rightarrow> reservations_default)"

definition set_entry :: "fid \<Rightarrow> fid_reservations \<Rightarrow> session \<Rightarrow> session" where
  "set_entry f r s = s\<lparr>reservations := fmupd f r (reservations s)\<rparr>"

definition reserve_existing_fid :: "request_key \<Rightarrow> fid \<Rightarrow> (session, unit) fallible" where
  "reserve_existing_fid request f s =
     (if fmlookup (fids s) f = None then (Inl (Error EBADFID), s)
      else let r = reservation_entry f s; s = set_entry f r s in
        if \<not> reservations_empty r then (Inl (Error EFIDBUSY), s)
        else (Inr (), set_entry f
          (r\<lparr>exclusive := Some \<lparr>res_request = request, new_fid = False\<rparr>\<rparr>) s))"

definition reserve_shared_fid :: "request_key \<Rightarrow> fid \<Rightarrow> (session, unit) fallible" where
  "reserve_shared_fid request f s =
     (if fmlookup (fids s) f = None then (Inl (Error EBADFID), s)
      else let r = reservation_entry f s; s = set_entry f r s in
        if exclusive r \<noteq> None then (Inl (Error EFIDBUSY), s)
        else (Inr (), set_entry f (r\<lparr>shared := finsert request (shared r)\<rparr>) s))"

definition reserve_new_fid :: "request_key \<Rightarrow> fid \<Rightarrow> (session, unit) fallible" where
  "reserve_new_fid request f s =
     (if contains_fid s f \<or> fmlookup (reservations s) f \<noteq> None then (Inl (Error EFIDINUSE), s)
      else if fid_count s \<ge> max_fids (config s) then (Inl (Error EFIDLIMIT), s)
      else (Inr (), set_entry f
        \<lparr>exclusive = Some \<lparr>res_request = request, new_fid = True\<rparr>, shared = {||}\<rparr> s))"

definition release_one :: "request_key \<Rightarrow> fid_reservations \<Rightarrow> fid_reservations" where
  "release_one request r =
     (let r = (case exclusive r of
                 Some x \<Rightarrow> if res_request x = request then r\<lparr>exclusive := None\<rparr> else r
               | None \<Rightarrow> r) in
      r\<lparr>shared := shared r |-| {|request|}\<rparr>)"

definition release_reservations :: "request_key \<Rightarrow> session \<Rightarrow> session" where
  "release_reservations request s =
     (let m = fmmap (release_one request) (reservations s) in
      s\<lparr>reservations := fmfilter (\<lambda>f. case fmlookup m f of
          Some r \<Rightarrow> \<not> reservations_empty r | None \<Rightarrow> False) m\<rparr>)"

end
