(* ===== verification/R9P_Server.thy ===== *)
theory R9P_Server
  imports R9P_Session
begin

text \<open>
  The server core (\<^verbatim>\<open>server/types.rs\<close>, \<^verbatim>\<open>server/handlers.rs\<close>, \<^verbatim>\<open>server/mod.rs\<close>). A request is
  admitted (validated, its fids reserved, then either answered at once or dispatched), performed by
  the file tree or by another thread, and completed (its reservations released, the fid table
  updated, the reply built). The file tree is application code: a record of
  operations over a tree state, of which the methods with a default body are given by
  \<open>file_tree_defaults\<close>.
\<close>

section \<open>Requests and completions\<close>

record open_file =
  of_qid :: qid
  of_iounit :: u32

datatype read_data = Read_Bytes bytes | Read_Directory "stat list"

datatype server_request_kind =
    K_Auth fid bytes bytes
  | K_Attach fid fid bytes bytes
  | K_Walk fid fid qid "bytes list"
  | K_Open fid qid u8
  | K_Create fid qid bytes u32 u8
  | K_Read fid qid u64 u32
  | K_Write fid qid u64 bytes
  | K_Clunk fid qid
  | K_Remove fid qid
  | K_Stat fid qid
  | K_Wstat fid qid stat
  | K_RenameAt fid qid bytes fid qid bytes
  | K_Referrals fid qid

record server_request =
  rq_key :: request_key
  rq_kind :: server_request_kind

definition rq_tag :: "server_request \<Rightarrow> tag" where
  "rq_tag rq = key_tag (rq_key rq)"

datatype server_event =
    Ev_Reply rmessage
  | Ev_Dispatch server_request
  | Ev_Flush rmessage flush_outcome

datatype server_completion =
    C_Auth qid
  | C_Attach qid
  | C_Walk "qid list"
  | C_Open open_file
  | C_Create open_file
  | C_Read read_data
  | C_Write u32
  | C_Clunk
  | C_Remove
  | C_Stat stat
  | C_Wstat
  | C_RenameAt
  | C_Referrals "namespace_referral list"

section \<open>Checks\<close>

definition validate_qid_variant :: "variant \<Rightarrow> qid \<Rightarrow> unit result" where
  "validate_qid_variant variant q =
     ensure (\<not> (is_symlink q \<and> \<not> supports_symlinks variant)) (Error ESYMLINKDIALECT)"

definition validate_stat_variant :: "variant \<Rightarrow> stat \<Rightarrow> unit result" where
  "validate_stat_variant variant st =
     and_then (validate_qid_variant variant (stat_qid st)) (\<lambda>_.
       ensure (\<not> (stat_mode st AND DMSYMLINK \<noteq> 0 \<and> \<not> supports_symlinks variant)) (Error ESYMLINKDIALECT))"

definition validate_open :: "fid_state \<Rightarrow> u8 \<Rightarrow> unit result" where
  "validate_open state mode =
     (if open_mode state \<noteq> None then Inl (Error EFIDOPEN)
      else if \<not> mode_is_valid mode then Inl (Error EBADMODE)
      else if is_dir (fid_qid state) \<and> \<not> is_directory_mode mode then Inl (Error EBADMODE)
      else Inr ())"

definition validate_create :: "fid_state \<Rightarrow> u32 \<Rightarrow> u8 \<Rightarrow> unit result" where
  "validate_create state perm mode =
     (if open_mode state \<noteq> None then Inl (Error EFIDOPEN)
      else if \<not> is_dir (fid_qid state) then Inl (Error ENOTDIR)
      else if \<not> mode_is_valid mode then Inl (Error EBADMODE)
      else if perm AND DMDIR \<noteq> 0 \<and> \<not> is_directory_mode mode then Inl (Error EBADMODE)
      else Inr ())"

definition validate_read :: "fid_state \<Rightarrow> u64 \<Rightarrow> unit result" where
  "validate_read state offset =
     (if is_auth (fid_qid state) then Inr ()
      else and_then (ok_or (open_mode state) (Error EFIDNOTOPEN)) (\<lambda>mode.
        if \<not> permits_read mode then Inl (Error EFIDNOTOPEN)
        else if is_dir (fid_qid state) \<and> offset \<noteq> 0 \<and> offset \<noteq> directory_offset state
        then Inl (Error EBADDIROFFSET)
        else Inr ()))"

definition validate_write :: "fid_state \<Rightarrow> unit result" where
  "validate_write state =
     (if is_auth (fid_qid state) then Inr ()
      else and_then (ok_or (open_mode state) (Error EFIDNOTOPEN)) (\<lambda>mode.
        if is_dir (fid_qid state) \<or> \<not> permits_write mode then Inl (Error EFIDNOTOPEN) else Inr ()))"

definition clamp_iounit :: "u32 \<Rightarrow> u32 \<Rightarrow> u32" where
  "clamp_iounit msz iounit = (if iounit = 0 then 0 else min iounit (max_iounit msz))"

section \<open>Admission\<close>

definition dispatch :: "request_key \<Rightarrow> server_request_kind \<Rightarrow> (session, server_event) fallible" where
  "dispatch key kind = return_s (Ev_Dispatch \<lparr>rq_key = key, rq_kind = kind\<rparr>)"

definition negotiated_variant :: "session \<Rightarrow> variant result" where
  "negotiated_variant s = ok_or (sess_variant s) (Error_from ''version not negotiated'')"

definition admit_auth :: "request_key \<Rightarrow> fid \<Rightarrow> bytes \<Rightarrow> bytes \<Rightarrow> (session, server_event) fallible" where
  "admit_auth key afid uname aname =
     bind_s (read_s (authorize_uname uname)) (\<lambda>_.
     if afid = NOFID then throw_s (Error ENOAUTH)
     else bind_s (reserve_new_fid key afid) (\<lambda>_.
     dispatch key (K_Auth afid uname aname)))"

definition admit_attach ::
  "request_key \<Rightarrow> fid \<Rightarrow> fid \<Rightarrow> bytes \<Rightarrow> bytes \<Rightarrow> (session, server_event) fallible" where
  "admit_attach key f afid uname aname =
     bind_s (read_s (authorize_uname uname)) (\<lambda>_.
     bind_s (if afid \<noteq> NOFID then
         bind_s (read_s (get_fid afid)) (\<lambda>auth_state.
         if \<not> is_auth (fid_qid auth_state) then throw_s (Error ENOAUTH)
         else reserve_existing_fid key afid)
       else return_s ()) (\<lambda>_.
     bind_s (reserve_new_fid key f) (\<lambda>_.
     dispatch key (K_Attach f afid uname aname))))"

definition admit_flush :: "request_key \<Rightarrow> tag \<Rightarrow> (session, server_event) fallible" where
  "admit_flush key oldtag s =
     (case table_flush oldtag (requests s) of
        (Inl e, t) \<Rightarrow> (Inl e, s\<lparr>requests := t\<rparr>)
      | (Inr outcome, t) \<Rightarrow>
          let s = s\<lparr>requests := t\<rparr>;
              s = (case outcome of Cancelled cancelled \<Rightarrow> release_reservations cancelled s | Unknown \<Rightarrow> s);
              s = s\<lparr>requests := snd (table_finish key (requests s))\<rparr>
          in (Inr (Ev_Flush (R_Flush (key_tag key)) outcome), s))"

definition admit_walk ::
  "request_key \<Rightarrow> fid \<Rightarrow> fid \<Rightarrow> bytes list \<Rightarrow> (session, server_event) fallible" where
  "admit_walk key f newfid wnames =
     bind_s (lift_s (validate_walk_names wnames)) (\<lambda>_.
     bind_s (read_s (get_fid f)) (\<lambda>source.
     if open_mode source \<noteq> None then throw_s (Error EFIDOPEN)
     else if wnames \<noteq> [] \<and> \<not> is_dir (fid_qid source) then throw_s (Error ENOTDIR)
     else bind_s (if newfid = f then reserve_existing_fid key f
         else bind_s (reserve_shared_fid key f) (\<lambda>_. reserve_new_fid key newfid)) (\<lambda>_.
     dispatch key (K_Walk f newfid (fid_qid source) wnames))))"

definition admit_open :: "request_key \<Rightarrow> fid \<Rightarrow> u8 \<Rightarrow> (session, server_event) fallible" where
  "admit_open key f mode =
     bind_s (read_s (get_fid f)) (\<lambda>state.
     bind_s (lift_s (validate_open state mode)) (\<lambda>_.
     bind_s (reserve_existing_fid key f) (\<lambda>_.
     dispatch key (K_Open f (fid_qid state) mode))))"

definition admit_create ::
  "request_key \<Rightarrow> fid \<Rightarrow> bytes \<Rightarrow> u32 \<Rightarrow> u8 \<Rightarrow> (session, server_event) fallible" where
  "admit_create key f name perm mode =
     bind_s (read_s (get_fid f)) (\<lambda>state.
     bind_s (lift_s (validate_create state perm mode)) (\<lambda>_.
     bind_s (reserve_existing_fid key f) (\<lambda>_.
     dispatch key (K_Create f (fid_qid state) name perm mode))))"

definition admit_read :: "request_key \<Rightarrow> fid \<Rightarrow> u64 \<Rightarrow> u32 \<Rightarrow> (session, server_event) fallible" where
  "admit_read key f offset count =
     bind_s (read_s (get_fid f)) (\<lambda>state.
     bind_s (lift_s (validate_read state offset)) (\<lambda>_.
     bind_s (if is_dir (fid_qid state) then reserve_existing_fid key f else return_s ()) (\<lambda>_.
     (\<lambda>s. dispatch key (K_Read f (fid_qid state) offset (clamp_read_count (msize s) count)) s))))"

definition admit_write :: "request_key \<Rightarrow> fid \<Rightarrow> u64 \<Rightarrow> bytes \<Rightarrow> (session, server_event) fallible" where
  "admit_write key f offset data =
     bind_s (read_s (\<lambda>s. ensure (\<not> length data > unat (max_write_payload (msize s)))
       (Error_from ''write exceeds msize''))) (\<lambda>_.
     bind_s (read_s (get_fid f)) (\<lambda>state.
     bind_s (lift_s (validate_write state)) (\<lambda>_.
     dispatch key (K_Write f (fid_qid state) offset data))))"

definition admit_clunk :: "request_key \<Rightarrow> fid \<Rightarrow> (session, server_event) fallible" where
  "admit_clunk key f = bind_s (retire_fid key f) (\<lambda>state. dispatch key (K_Clunk f (fid_qid state)))"

definition admit_remove :: "request_key \<Rightarrow> fid \<Rightarrow> (session, server_event) fallible" where
  "admit_remove key f = bind_s (retire_fid key f) (\<lambda>state. dispatch key (K_Remove f (fid_qid state)))"

definition admit_stat :: "request_key \<Rightarrow> fid \<Rightarrow> (session, server_event) fallible" where
  "admit_stat key f = bind_s (read_s (get_fid f)) (\<lambda>state. dispatch key (K_Stat f (fid_qid state)))"

definition admit_wstat :: "request_key \<Rightarrow> fid \<Rightarrow> stat \<Rightarrow> (session, server_event) fallible" where
  "admit_wstat key f st =
     bind_s (read_s (get_fid f)) (\<lambda>state.
     bind_s (read_s negotiated_variant) (\<lambda>variant.
     bind_s (lift_s (validate_wstat (fid_qid state) st variant)) (\<lambda>_.
     bind_s (reserve_existing_fid key f) (\<lambda>_.
     dispatch key (K_Wstat f (fid_qid state) st)))))"

definition admit_rename_at ::
  "request_key \<Rightarrow> fid \<Rightarrow> bytes \<Rightarrow> fid \<Rightarrow> bytes \<Rightarrow> (session, server_event) fallible" where
  "admit_rename_at key olddirfid oldname newdirfid newname =
     bind_s (read_s negotiated_variant) (\<lambda>variant.
     if \<not> supports_rename_at variant then throw_s (Error_from ''renameat requires negotiated 9P2000.R'')
     else bind_s (lift_s (validate_walk_names [oldname, newname])) (\<lambda>_.
     bind_s (read_s (get_fid olddirfid)) (\<lambda>olddir.
     bind_s (read_s (get_fid newdirfid)) (\<lambda>newdir.
     if \<not> is_dir (fid_qid olddir) \<or> \<not> is_dir (fid_qid newdir) then throw_s (Error ENOTDIR)
     else bind_s (reserve_shared_fid key olddirfid) (\<lambda>_.
     bind_s (if newdirfid \<noteq> olddirfid then reserve_shared_fid key newdirfid else return_s ()) (\<lambda>_.
     dispatch key (K_RenameAt olddirfid (fid_qid olddir) oldname newdirfid (fid_qid newdir) newname)))))))"

definition admit_referrals :: "request_key \<Rightarrow> fid \<Rightarrow> (session, server_event) fallible" where
  "admit_referrals key f =
     bind_s (read_s negotiated_variant) (\<lambda>variant.
     if \<not> supports_referrals variant
     then throw_s (Error_from ''namespace referrals require negotiated 9P2000.R'')
     else bind_s (read_s (get_fid f)) (\<lambda>state.
     bind_s (reserve_shared_fid key f) (\<lambda>_.
     dispatch key (K_Referrals f (fid_qid state)))))"

text \<open>The \<open>T_Version\<close> arm is \<^verbatim>\<open>unreachable!\<close> in the source: \<open>admit\<close> never passes one on.\<close>

fun admit_after_begin :: "tmessage \<Rightarrow> request_key \<Rightarrow> (session, server_event) fallible" where
  "admit_after_begin (T_Version _ _ _) key = throw_s (Error_from ''unreachable'')"
| "admit_after_begin (T_Auth _ afid uname aname) key = admit_auth key afid uname aname"
| "admit_after_begin (T_Attach _ f afid uname aname) key = admit_attach key f afid uname aname"
| "admit_after_begin (T_Flush _ oldtag) key = admit_flush key oldtag"
| "admit_after_begin (T_Walk _ f newfid wnames) key = admit_walk key f newfid wnames"
| "admit_after_begin (T_Open _ f mode) key = admit_open key f mode"
| "admit_after_begin (T_Create _ f name perm mode) key = admit_create key f name perm mode"
| "admit_after_begin (T_Read _ f offset count) key = admit_read key f offset count"
| "admit_after_begin (T_Write _ f offset data) key = admit_write key f offset data"
| "admit_after_begin (T_Clunk _ f) key = admit_clunk key f"
| "admit_after_begin (T_Remove _ f) key = admit_remove key f"
| "admit_after_begin (T_Stat _ f) key = admit_stat key f"
| "admit_after_begin (T_Wstat _ f st) key = admit_wstat key f st"
| "admit_after_begin (T_RenameAt _ olddirfid oldname newdirfid newname) key =
     admit_rename_at key olddirfid oldname newdirfid newname"
| "admit_after_begin (T_Referrals _ f) key = admit_referrals key f"

definition finish_with_reply :: "request_key \<Rightarrow> rmessage \<Rightarrow> session \<Rightarrow> server_event \<times> session" where
  "finish_with_reply key reply s =
     (let s = s\<lparr>requests := snd (table_finish key (requests s))\<rparr>;
          s = release_reservations key s
      in (Ev_Reply reply, s))"

definition admit_version :: "tag \<Rightarrow> u32 \<Rightarrow> bytes \<Rightarrow> session \<Rightarrow> server_event \<times> session" where
  "admit_version tag msz ver s =
     (case reset_for_version msz ver s of
        (Inr _, s) \<Rightarrow> (Ev_Reply (R_Version tag (msize s) (version s)), s)
      | (Inl e, s) \<Rightarrow> (Ev_Reply (error_reply tag e), s))"

definition admit_request :: "tmessage \<Rightarrow> session \<Rightarrow> server_event \<times> session" where
  "admit_request m s =
     (if \<not> negotiated s
      then (Ev_Reply (error_reply (t_tag m) (Error_from ''version not negotiated'')), s)
      else case table_begin (t_tag m) (requests s) of
        (Inl e, t) \<Rightarrow> (Ev_Reply (error_reply (t_tag m) e), s\<lparr>requests := t\<rparr>)
      | (Inr key, t) \<Rightarrow>
          (case admit_after_begin m key (s\<lparr>requests := t\<rparr>) of
             (Inr event, s) \<Rightarrow> (event, s)
           | (Inl e, s) \<Rightarrow> finish_with_reply key (error_reply (t_tag m) e) s))"

definition admit :: "tmessage \<Rightarrow> session \<Rightarrow> server_event \<times> session" where
  "admit m s =
     (case m of
        T_Version tag msz ver \<Rightarrow> admit_version tag msz ver s
      | _ \<Rightarrow> admit_request m s)"

section \<open>Completion\<close>

definition complete_auth :: "variant \<Rightarrow> tag \<Rightarrow> fid \<Rightarrow> qid \<Rightarrow> (session, rmessage) fallible" where
  "complete_auth variant tag afid q =
     (if \<not> is_auth q then throw_s (Error ENOAUTH)
      else bind_s (lift_s (validate_qid_variant variant q)) (\<lambda>_.
        bind_s (insert_new_fid afid (FidState_opened q ORDWR)) (\<lambda>_.
        return_s (R_Auth tag q))))"

definition complete_attach :: "variant \<Rightarrow> tag \<Rightarrow> fid \<Rightarrow> qid \<Rightarrow> (session, rmessage) fallible" where
  "complete_attach variant tag f q =
     bind_s (lift_s (validate_qid_variant variant q)) (\<lambda>_.
     bind_s (insert_new_fid f (FidState_new q)) (\<lambda>_.
     return_s (R_Attach tag q)))"

definition complete_walk ::
  "variant \<Rightarrow> tag \<Rightarrow> fid \<Rightarrow> fid \<Rightarrow> qid \<Rightarrow> bytes list \<Rightarrow> qid list \<Rightarrow> (session, rmessage) fallible" where
  "complete_walk variant tag f newfid start wnames qids =
     (if length qids > length wnames then throw_s (Error_from ''walk returned too many qids'')
      else bind_s (lift_s (for_each (validate_qid_variant variant) qids)) (\<lambda>_.
        if wnames = [] then
          bind_s (if newfid \<noteq> f then insert_new_fid newfid (FidState_new start) else return_s ()) (\<lambda>_.
          return_s (R_Walk tag []))
        else if qids = [] then throw_s (Error ENOENT)
        else
          bind_s (if length qids = length wnames then
              (let q = qids ! (length qids - 1) in
               if newfid = f then bind_fid f (FidState_new q) else insert_new_fid newfid (FidState_new q))
            else return_s ()) (\<lambda>_.
          return_s (R_Walk tag qids))))"

definition complete_open :: "variant \<Rightarrow> fid \<Rightarrow> u8 \<Rightarrow> open_file \<Rightarrow> (session, u32) fallible" where
  "complete_open variant f mode opened =
     bind_s (lift_s (validate_qid_variant variant (of_qid opened))) (\<lambda>_.
     bind_s (bind_fid f (FidState_opened (of_qid opened) mode)) (\<lambda>_.
     (\<lambda>s. (Inr (clamp_iounit (msize s) (of_iounit opened)), s))))"

definition read_payload :: "variant \<Rightarrow> u64 \<Rightarrow> u32 \<Rightarrow> read_data \<Rightarrow> bytes result" where
  "read_payload variant offset count rd =
     (case rd of
        Read_Bytes bs \<Rightarrow> take_count bs count
      | Read_Directory stats \<Rightarrow>
          and_then (for_each (validate_stat_variant variant) stats) (\<lambda>_.
            dirread_chunk stats offset count))"

definition complete_read ::
  "variant \<Rightarrow> tag \<Rightarrow> fid \<Rightarrow> qid \<Rightarrow> u64 \<Rightarrow> u32 \<Rightarrow> read_data \<Rightarrow> (session, rmessage) fallible" where
  "complete_read variant tag f q offset count rd =
     bind_s (lift_s (read_payload variant offset count rd)) (\<lambda>data.
     bind_s (if is_dir q then
         bind_s (read_s (get_fid f)) (\<lambda>state.
         bind_s (lift_s (ok_or (checked_add offset (word_of_nat (length data)))
           (Error_from ''directory offset overflow''))) (\<lambda>next_offset.
         bind_fid f (with_directory_offset state next_offset)))
       else return_s ()) (\<lambda>_.
     return_s (R_Read tag data)))"

definition complete_write :: "tag \<Rightarrow> bytes \<Rightarrow> u32 \<Rightarrow> rmessage result" where
  "complete_write tag data count =
     (if unat count > length data then Inl (Error_from ''write completion exceeds request count'')
      else Inr (R_Write tag count))"

definition completion_mismatch :: error where
  "completion_mismatch = Error_from ''completion kind does not match request''"

definition match_completion ::
  "variant \<Rightarrow> tag \<Rightarrow> server_request_kind \<Rightarrow> server_completion \<Rightarrow> (session, rmessage) fallible" where
  "match_completion v tag kind completion =
     (case kind of
        K_Auth afid _ _ \<Rightarrow>
          (case completion of C_Auth q \<Rightarrow> complete_auth v tag afid q | _ \<Rightarrow> throw_s completion_mismatch)
      | K_Attach f _ _ _ \<Rightarrow>
          (case completion of C_Attach q \<Rightarrow> complete_attach v tag f q | _ \<Rightarrow> throw_s completion_mismatch)
      | K_Walk f newfid start wnames \<Rightarrow>
          (case completion of C_Walk qids \<Rightarrow> complete_walk v tag f newfid start wnames qids
           | _ \<Rightarrow> throw_s completion_mismatch)
      | K_Open f _ mode \<Rightarrow>
          (case completion of
             C_Open opened \<Rightarrow>
               bind_s (complete_open v f mode opened) (\<lambda>iounit. return_s (R_Open tag (of_qid opened) iounit))
           | _ \<Rightarrow> throw_s completion_mismatch)
      | K_Create f _ _ _ mode \<Rightarrow>
          (case completion of
             C_Create opened \<Rightarrow>
               bind_s (complete_open v f mode opened) (\<lambda>iounit. return_s (R_Create tag (of_qid opened) iounit))
           | _ \<Rightarrow> throw_s completion_mismatch)
      | K_Read f q offset count \<Rightarrow>
          (case completion of C_Read rd \<Rightarrow> complete_read v tag f q offset count rd
           | _ \<Rightarrow> throw_s completion_mismatch)
      | K_Write _ _ _ data \<Rightarrow>
          (case completion of C_Write count \<Rightarrow> lift_s (complete_write tag data count)
           | _ \<Rightarrow> throw_s completion_mismatch)
      | K_Clunk _ _ \<Rightarrow>
          (case completion of C_Clunk \<Rightarrow> return_s (R_Clunk tag) | _ \<Rightarrow> throw_s completion_mismatch)
      | K_Remove _ _ \<Rightarrow>
          (case completion of C_Remove \<Rightarrow> return_s (R_Remove tag) | _ \<Rightarrow> throw_s completion_mismatch)
      | K_Stat _ _ \<Rightarrow>
          (case completion of
             C_Stat st \<Rightarrow> bind_s (lift_s (validate_stat_variant v st)) (\<lambda>_. return_s (R_Stat tag st))
           | _ \<Rightarrow> throw_s completion_mismatch)
      | K_Wstat _ _ _ \<Rightarrow>
          (case completion of C_Wstat \<Rightarrow> return_s (R_Wstat tag) | _ \<Rightarrow> throw_s completion_mismatch)
      | K_RenameAt _ _ _ _ _ _ \<Rightarrow>
          (case completion of C_RenameAt \<Rightarrow> return_s (R_RenameAt tag) | _ \<Rightarrow> throw_s completion_mismatch)
      | K_Referrals _ _ \<Rightarrow>
          (case completion of
             C_Referrals rs \<Rightarrow>
               bind_s (lift_s (for_each referral_validate rs)) (\<lambda>_. return_s (R_Referrals tag rs))
           | _ \<Rightarrow> throw_s completion_mismatch))"

definition apply_completion ::
  "tag \<Rightarrow> server_request_kind \<Rightarrow> server_completion \<Rightarrow> (session, rmessage) fallible" where
  "apply_completion tag kind completion =
     bind_s (read_s negotiated_variant) (\<lambda>v. match_completion v tag kind completion)"

definition complete :: "server_request \<Rightarrow> server_completion result \<Rightarrow> session \<Rightarrow> rmessage option \<times> session" where
  "complete rq completion s =
     (case table_finish (rq_key rq) (requests s) of
        (False, t) \<Rightarrow> (None, s\<lparr>requests := t\<rparr>)
      | (True, t) \<Rightarrow>
          let s = release_reservations (rq_key rq) (s\<lparr>requests := t\<rparr>) in
          (case (case completion of
                   Inr c \<Rightarrow> apply_completion (rq_tag rq) (rq_kind rq) c s
                 | Inl e \<Rightarrow> (Inl e, s)) of
             (Inr reply, s) \<Rightarrow> (Some reply, s)
           | (Inl e, s) \<Rightarrow> (Some (error_reply (rq_tag rq) e), s)))"

section \<open>File trees\<close>

record 't file_tree =
  ft_attach :: "fid \<Rightarrow> bytes \<Rightarrow> bytes \<Rightarrow> ('t, qid) fallible"
  ft_walk :: "fid \<Rightarrow> fid \<Rightarrow> qid \<Rightarrow> bytes list \<Rightarrow> ('t, qid list) fallible"
  ft_open :: "fid \<Rightarrow> qid \<Rightarrow> u8 \<Rightarrow> ('t, open_file) fallible"
  ft_read :: "fid \<Rightarrow> qid \<Rightarrow> u64 \<Rightarrow> u32 \<Rightarrow> ('t, read_data) fallible"
  ft_stat :: "qid \<Rightarrow> ('t, stat) fallible"
  ft_referrals :: "fid \<Rightarrow> qid \<Rightarrow> ('t, namespace_referral list) fallible"
  ft_reset :: "('t, unit) fallible"
  ft_auth :: "fid \<Rightarrow> bytes \<Rightarrow> bytes \<Rightarrow> ('t, qid) fallible"
  ft_attach_with_auth :: "fid \<Rightarrow> fid \<Rightarrow> bytes \<Rightarrow> bytes \<Rightarrow> ('t, qid) fallible"
  ft_create :: "fid \<Rightarrow> qid \<Rightarrow> bytes \<Rightarrow> u32 \<Rightarrow> u8 \<Rightarrow> ('t, open_file) fallible"
  ft_write :: "fid \<Rightarrow> qid \<Rightarrow> u64 \<Rightarrow> bytes \<Rightarrow> ('t, u32) fallible"
  ft_clunk :: "fid \<Rightarrow> qid \<Rightarrow> ('t, unit) fallible"
  ft_remove :: "fid \<Rightarrow> qid \<Rightarrow> ('t, unit) fallible"
  ft_wstat :: "fid \<Rightarrow> qid \<Rightarrow> stat \<Rightarrow> ('t, unit) fallible"
  ft_rename_at :: "fid \<Rightarrow> qid \<Rightarrow> bytes \<Rightarrow> fid \<Rightarrow> qid \<Rightarrow> bytes \<Rightarrow> ('t, unit) fallible"

definition file_tree_defaults ::
  "(fid \<Rightarrow> bytes \<Rightarrow> bytes \<Rightarrow> ('t, qid) fallible) \<Rightarrow>
   (fid \<Rightarrow> fid \<Rightarrow> qid \<Rightarrow> bytes list \<Rightarrow> ('t, qid list) fallible) \<Rightarrow>
   (fid \<Rightarrow> qid \<Rightarrow> u8 \<Rightarrow> ('t, open_file) fallible) \<Rightarrow>
   (fid \<Rightarrow> qid \<Rightarrow> u64 \<Rightarrow> u32 \<Rightarrow> ('t, read_data) fallible) \<Rightarrow>
   (qid \<Rightarrow> ('t, stat) fallible) \<Rightarrow> 't file_tree" where
  "file_tree_defaults attach walk open_op read_op stat_op =
     \<lparr>ft_attach = attach, ft_walk = walk, ft_open = open_op, ft_read = read_op, ft_stat = stat_op,
      ft_referrals = (\<lambda>_ _. return_s []), ft_reset = return_s (),
      ft_auth = (\<lambda>_ _ _. throw_s (Error ENOAUTH)),
      ft_attach_with_auth = (\<lambda>_ _ _ _. throw_s (Error ENOAUTH)),
      ft_create = (\<lambda>_ _ _ _ _. throw_s (Error EPERM)),
      ft_write = (\<lambda>_ _ _ _. throw_s (Error EPERM)),
      ft_clunk = (\<lambda>_ _. return_s ()), ft_remove = (\<lambda>_ _. throw_s (Error EPERM)),
      ft_wstat = (\<lambda>_ _ _. throw_s (Error EPERM)),
      ft_rename_at = (\<lambda>_ _ _ _ _ _. throw_s (Error EPERM))\<rparr>"

definition map_s :: "('a \<Rightarrow> 'b) \<Rightarrow> ('s, 'a) fallible \<Rightarrow> ('s, 'b) fallible" where
  "map_s g m = bind_s m (\<lambda>x. return_s (g x))"

fun perform_file_tree_request :: "'t file_tree \<Rightarrow> server_request_kind \<Rightarrow> ('t, server_completion) fallible" where
  "perform_file_tree_request ft (K_Auth afid uname aname) = map_s C_Auth (ft_auth ft afid uname aname)"
| "perform_file_tree_request ft (K_Attach f afid uname aname) =
     map_s C_Attach (if afid = NOFID then ft_attach ft f uname aname
       else ft_attach_with_auth ft f afid uname aname)"
| "perform_file_tree_request ft (K_Walk f newfid start wnames) =
     map_s C_Walk (ft_walk ft f newfid start wnames)"
| "perform_file_tree_request ft (K_Open f q mode) = map_s C_Open (ft_open ft f q mode)"
| "perform_file_tree_request ft (K_Create f q name perm mode) =
     map_s C_Create (ft_create ft f q name perm mode)"
| "perform_file_tree_request ft (K_Read f q offset count) = map_s C_Read (ft_read ft f q offset count)"
| "perform_file_tree_request ft (K_Write f q offset data) = map_s C_Write (ft_write ft f q offset data)"
| "perform_file_tree_request ft (K_Clunk f q) = map_s (\<lambda>_. C_Clunk) (ft_clunk ft f q)"
| "perform_file_tree_request ft (K_Remove f q) = map_s (\<lambda>_. C_Remove) (ft_remove ft f q)"
| "perform_file_tree_request ft (K_Stat _ q) = map_s C_Stat (ft_stat ft q)"
| "perform_file_tree_request ft (K_Wstat f q st) = map_s (\<lambda>_. C_Wstat) (ft_wstat ft f q st)"
| "perform_file_tree_request ft (K_RenameAt olddirfid oldq oldname newdirfid newq newname) =
     map_s (\<lambda>_. C_RenameAt) (ft_rename_at ft olddirfid oldq oldname newdirfid newq newname)"
| "perform_file_tree_request ft (K_Referrals f q) = map_s C_Referrals (ft_referrals ft f q)"

record 't server =
  sv_session :: session
  sv_tree :: 't

definition Server_with_config :: "'t \<Rightarrow> server_config \<Rightarrow> 't server" where
  "Server_with_config t cfg = \<lparr>sv_session = Session_new cfg, sv_tree = t\<rparr>"

fun is_version :: "tmessage \<Rightarrow> bool" where
  "is_version (T_Version _ _ _) = True"
| "is_version _ = False"

definition handle_event :: "'t file_tree \<Rightarrow> server_event \<Rightarrow> 't server \<Rightarrow> rmessage \<times> 't server" where
  "handle_event ft event sv =
     (case event of
        Ev_Reply reply \<Rightarrow> (reply, sv)
      | Ev_Flush reply _ \<Rightarrow> (reply, sv)
      | Ev_Dispatch rq \<Rightarrow>
          (case perform_file_tree_request ft (rq_kind rq) (sv_tree sv) of
             (result, t) \<Rightarrow>
               (case complete rq result (sv_session sv) of
                  (Some reply, s) \<Rightarrow> (reply, sv\<lparr>sv_session := s, sv_tree := t\<rparr>)
                | (None, s) \<Rightarrow> (error_reply (rq_tag rq) (Error_from ''stale server completion''),
                    sv\<lparr>sv_session := s, sv_tree := t\<rparr>))))"

definition handle :: "'t file_tree \<Rightarrow> tmessage \<Rightarrow> 't server \<Rightarrow> rmessage \<times> 't server" where
  "handle ft m sv =
     (case admit m (sv_session sv) of
        (event, s) \<Rightarrow>
          let sv = sv\<lparr>sv_session := s\<rparr> in
          if is_version m then
            (case ft_reset ft (sv_tree sv) of
               (Inl e, t) \<Rightarrow> (error_reply (t_tag m) e, sv\<lparr>sv_session := invalidate s, sv_tree := t\<rparr>)
             | (Inr _, t) \<Rightarrow> handle_event ft event (sv\<lparr>sv_tree := t\<rparr>))
          else handle_event ft event sv)"

end
