(* ===== verification/R9P_Reservations.thy ===== *)
theory R9P_Reservations
  imports R9P_Session
begin

text \<open>
  What the reservations of a session promise. The reservation map is read through the total
  function \<open>reservation_entry\<close> (no entry is the empty entry); \<open>release_reservations\<close> undoes every
  reservation one request made, which the locale \<open>rollback\<close> states for any
  sequence of reserving operations. \<open>session_ok\<close> is the session's invariant.
\<close>

section \<open>Reading the reservation map\<close>

lemma reservations_empty_default: "reservations_empty r \<longleftrightarrow> r = reservations_default"
  by (cases r) (auto simp: reservations_empty_def reservations_default_def)

lemma default_simps [simp]:
  "exclusive reservations_default = None" "shared reservations_default = {||}"
  "reservations_empty reservations_default" "\<not> holds_new_fid reservations_default"
  by (simp_all add: reservations_default_def reservations_empty_def holds_new_fid_def)

lemma entry_set_entry [simp]:
  "reservation_entry f (set_entry g r s) = (if f = g then r else reservation_entry f s)"
  by (simp add: reservation_entry_def set_entry_def)

lemma set_entry_simps [simp]:
  "config (set_entry f r s) = config s" "msize (set_entry f r s) = msize s"
  "version (set_entry f r s) = version s" "sess_variant (set_entry f r s) = sess_variant s"
  "negotiated (set_entry f r s) = negotiated s" "fids (set_entry f r s) = fids s"
  "requests (set_entry f r s) = requests s"
  "reservations (set_entry f r s) = fmupd f r (reservations s)"
  by (simp_all add: set_entry_def)

lemma entry_update [simp]:
  "reservation_entry f (s\<lparr>requests := t\<rparr>) = reservation_entry f s"
  "reservation_entry f (s\<lparr>fids := m\<rparr>) = reservation_entry f s"
  by (simp_all add: reservation_entry_def)

definition compact :: "session \<Rightarrow> bool" where
  "compact s \<longleftrightarrow> (\<forall>f. fmlookup (reservations s) f \<noteq> Some reservations_default)"

lemma lookup_entry: "compact s \<Longrightarrow>
  fmlookup (reservations s) f =
    (if reservation_entry f s = reservations_default then None else Some (reservation_entry f s))"
  by (auto simp: compact_def reservation_entry_def split: option.splits)

lemma release_one_default [simp]: "release_one k reservations_default = reservations_default"
  by (simp add: release_one_def reservations_default_def)

lemma release_one_simps:
  "exclusive (release_one k r) =
     (case exclusive r of Some x \<Rightarrow> if res_request x = k then None else Some x | None \<Rightarrow> None)"
  "shared (release_one k r) = shared r |-| {|k|}"
  by (simp_all add: release_one_def Let_def split: option.split)

lemma fid_reservations_eqI:
  "exclusive r = exclusive r' \<Longrightarrow> shared r = shared r' \<Longrightarrow> r = (r' :: fid_reservations)"
  by (cases r; cases r') simp

lemma release_simps [simp]:
  "config (release_reservations k s) = config s" "msize (release_reservations k s) = msize s"
  "version (release_reservations k s) = version s"
  "sess_variant (release_reservations k s) = sess_variant s"
  "negotiated (release_reservations k s) = negotiated s" "fids (release_reservations k s) = fids s"
  "requests (release_reservations k s) = requests s"
  by (simp_all add: release_reservations_def Let_def)

lemma release_lookup:
  "fmlookup (reservations (release_reservations k s)) f =
     (case fmlookup (reservations s) f of
        None \<Rightarrow> None
      | Some r \<Rightarrow> if release_one k r = reservations_default then None else Some (release_one k r))"
  by (auto simp: release_reservations_def Let_def reservations_empty_default split: option.splits)

lemma entry_release [simp]:
  "reservation_entry f (release_reservations k s) = release_one k (reservation_entry f s)"
  by (simp add: reservation_entry_def release_lookup split: option.split)

lemma compact_release: "compact (release_reservations k s)"
  by (simp add: compact_def release_lookup split: option.split)

lemma session_eqI:
  assumes "config s = config t" "msize s = msize t" "version s = version t"
    "sess_variant s = sess_variant t" "negotiated s = negotiated t" "fids s = fids t"
    "requests s = requests t" "reservations s = reservations t"
  shows "s = (t :: session)"
  using assms by (cases s; cases t) simp

lemma release_eqI:
  assumes "\<And>f. release_one k (reservation_entry f s) = release_one k (reservation_entry f t)"
    and "config s = config t" "msize s = msize t" "version s = version t"
    "sess_variant s = sess_variant t" "negotiated s = negotiated t" "fids s = fids t" "requests s = requests t"
  shows "release_reservations k s = release_reservations k t"
proof (rule session_eqI)
  show "reservations (release_reservations k s) = reservations (release_reservations k t)"
  proof (rule fmap_ext)
    fix f
    show "fmlookup (reservations (release_reservations k s)) f = fmlookup (reservations (release_reservations k t)) f"
      using assms(1) [of f] by (simp add: lookup_entry [OF compact_release])
  qed
qed (use assms in simp_all)

section \<open>Undoing the reservations of a request\<close>

definition absorbed :: "('s \<Rightarrow> 's) \<Rightarrow> ('s, 'a) fallible \<Rightarrow> bool" where
  "absorbed undo p \<longleftrightarrow> (\<forall>s. undo (snd (p s)) = undo s)"

named_theorems absorb_rules \<open>operations a rollback undoes\<close>

lemma absorbed_bind [absorb_rules]:
  "absorbed undo p \<Longrightarrow> (\<And>x. absorbed undo (f x)) \<Longrightarrow> absorbed undo (bind_s p f)"
  by (auto simp: absorbed_def bind_s_def split: prod.split sum.split) (metis snd_conv)+

lemma absorbed_pure [absorb_rules]:
  "absorbed undo (return_s x)" "absorbed undo (throw_s e)" "absorbed undo (lift_s r)" "absorbed undo (read_s h)"
  by (simp_all add: absorbed_def stateful_simps)

lemma absorbed_if [absorb_rules]:
  "absorbed undo p \<Longrightarrow> absorbed undo q \<Longrightarrow> absorbed undo (if b then p else q)"
  by simp

locale rollback =
  fixes undo :: "'k \<Rightarrow> 's \<Rightarrow> 's"
    and exclusively :: "'k \<Rightarrow> 'f \<Rightarrow> ('s, unit) fallible"
    and sharing :: "'k \<Rightarrow> 'f \<Rightarrow> ('s, unit) fallible"
    and creating :: "'k \<Rightarrow> 'f \<Rightarrow> ('s, unit) fallible"
  assumes exclusively_undone: "absorbed (undo k) (exclusively k f)"
    and sharing_undone: "absorbed (undo k) (sharing k f)"
    and creating_undone: "absorbed (undo k) (creating k f)"
begin

lemmas undone = exclusively_undone sharing_undone creating_undone

lemma clone_undone: "absorbed (undo k) (bind_s (sharing k f) (\<lambda>_. creating k g))"
  by (intro absorb_rules undone)

lemma guarded_create_undone:
  "absorbed (undo k) p \<Longrightarrow> absorbed (undo k) (bind_s p (\<lambda>_. creating k g))"
  by (intro absorb_rules undone)

lemma undo_after: "absorbed (undo k) p \<Longrightarrow> p s = (r, s') \<Longrightarrow> undo k s' = undo k s"
  by (metis absorbed_def snd_conv)

end

lemma existing_absorbed: "absorbed (release_reservations k) (reserve_existing_fid k f)"
  unfolding absorbed_def
proof
  fix s
  show "release_reservations k (snd (reserve_existing_fid k f s)) = release_reservations k s"
    by (rule release_eqI)
      (auto simp: reserve_existing_fid_def Let_def reservations_empty_default
        intro!: fid_reservations_eqI simp: release_one_simps)
qed

lemma shared_absorbed: "absorbed (release_reservations k) (reserve_shared_fid k f)"
  unfolding absorbed_def
proof
  fix s
  show "release_reservations k (snd (reserve_shared_fid k f s)) = release_reservations k s"
    by (rule release_eqI)
      (auto simp: reserve_shared_fid_def Let_def intro!: fid_reservations_eqI simp: release_one_simps)
qed

lemma entry_None: "fmlookup (reservations s) f = None \<Longrightarrow> reservation_entry f s = reservations_default"
  by (simp add: reservation_entry_def)

lemma new_absorbed: "absorbed (release_reservations k) (reserve_new_fid k f)"
  unfolding absorbed_def
proof
  fix s
  show "release_reservations k (snd (reserve_new_fid k f s)) = release_reservations k s"
    by (rule release_eqI)
      (auto simp: reserve_new_fid_def entry_None intro!: fid_reservations_eqI simp: release_one_simps)
qed

interpretation fid_rollback: rollback release_reservations reserve_existing_fid reserve_shared_fid reserve_new_fid
  by unfold_locales (rule existing_absorbed shared_absorbed new_absorbed)+

section \<open>Claims of a request\<close>

datatype claim = Excl bool | Share

fun claims :: "session \<Rightarrow> request_key \<Rightarrow> fid \<Rightarrow> claim \<Rightarrow> bool" where
  "claims s k f (Excl b) \<longleftrightarrow> exclusive (reservation_entry f s) = Some \<lparr>res_request = k, new_fid = b\<rparr>"
| "claims s k f Share \<longleftrightarrow> k |\<in>| shared (reservation_entry f s)"

definition unheld :: "request_key \<Rightarrow> session \<Rightarrow> bool" where
  "unheld k s \<longleftrightarrow> (\<forall>f c. \<not> claims s k f c)"

text \<open>Nothing request \<open>k\<close> relies on has changed.\<close>

definition undisturbed :: "request_key \<Rightarrow> session \<Rightarrow> session \<Rightarrow> bool" where
  "undisturbed k s s' \<longleftrightarrow>
     config s' = config s \<and> msize s' = msize s \<and> sess_variant s' = sess_variant s
     \<and> (\<forall>f c. claims s k f c \<longrightarrow> claims s' k f c \<and> fmlookup (fids s') f = fmlookup (fids s) f)"

definition keeps :: "request_key \<Rightarrow> (session, 'a) fallible \<Rightarrow> bool" where
  "keeps k p \<longleftrightarrow> (\<forall>s. undisturbed k s (snd (p s)))"

named_theorems keep_rules \<open>operations that leave the claims of another request alone\<close>

lemma undisturbed_refl [simp]: "undisturbed k s s"
  by (simp add: undisturbed_def)

lemma undisturbed_trans: "undisturbed k s t \<Longrightarrow> undisturbed k t u \<Longrightarrow> undisturbed k s u"
  unfolding undisturbed_def by metis

lemma keeps_bind [keep_rules]:
  assumes "keeps k p" and "\<And>x. keeps k (f x)"
  shows "keeps k (bind_s p f)"
  unfolding keeps_def
proof
  fix s
  obtain r t where p: "p s = (r, t)" by fastforce
  with assms(1) have t: "undisturbed k s t"
    unfolding keeps_def by (metis snd_conv)
  show "undisturbed k s (snd (bind_s p f s))"
  proof (cases r)
    case (Inl e)
    then show ?thesis using p t by (simp add: bind_s_def)
  next
    case (Inr x)
    then show ?thesis
      using p t undisturbed_trans assms(2) [of x] by (auto simp: bind_s_def keeps_def)
  qed
qed

lemma keeps_pure [keep_rules]:
  "keeps k (return_s x)" "keeps k (throw_s e)" "keeps k (lift_s r)" "keeps k (read_s h)"
  by (simp_all add: keeps_def stateful_simps)

lemma keeps_if [keep_rules]: "keeps k p \<Longrightarrow> keeps k q \<Longrightarrow> keeps k (if b then p else q)"
  by simp

lemma default_claims: "reservation_entry f s = reservations_default \<Longrightarrow> \<not> claims s k f c"
  by (cases c) simp_all

lemma claims_cong:
  "reservation_entry f s = reservation_entry f s' \<Longrightarrow> claims s k f c = claims s' k f c"
  by (cases c) simp_all

lemma claims_update [simp]:
  "claims (s\<lparr>requests := t\<rparr>) k f c = claims s k f c" "claims (s\<lparr>fids := m\<rparr>) k f c = claims s k f c"
  by (rule claims_cong, simp)+

lemma keeps_existing [keep_rules]: "keeps k (reserve_existing_fid k' f)"
  unfolding keeps_def undisturbed_def reserve_existing_fid_def
  by (auto simp: Let_def reservations_empty_default default_claims elim!: claims.elims split: if_splits)

lemma keeps_shared [keep_rules]: "keeps k (reserve_shared_fid k' f)"
  unfolding keeps_def undisturbed_def reserve_shared_fid_def
  by (auto simp: Let_def elim!: claims.elims split: if_splits)

lemma keeps_new [keep_rules]: "keeps k (reserve_new_fid k' f)"
  unfolding keeps_def undisturbed_def reserve_new_fid_def
  by (auto simp: entry_None elim!: claims.elims split: if_splits)

lemma ensure_unreserved_Inr: "ensure_unreserved f s = Inr u \<longleftrightarrow> reservation_entry f s = reservations_default"
  by (auto simp: ensure_unreserved_def reservation_entry_def reservations_empty_default split: option.splits)

lemma ensure_available_Inr: "ensure_available f s = Inr u \<longleftrightarrow> exclusive (reservation_entry f s) = None"
  by (auto simp: ensure_available_def reservation_entry_def split: option.splits)

lemma bind_fid_cases:
  obtains e where "bind_fid f st s = (Inl e, s)"
  | "bind_fid f st s = (Inr (), s\<lparr>fids := fmupd f st (fids s)\<rparr>)"
    "reservation_entry f s = reservations_default"
    "fmlookup (fids s) f \<noteq> None \<or> fcard (fmdom (fids s)) < max_fids (config s)"
proof (cases "ensure_unreserved f s")
  case (Inl e)
  then show ?thesis using that(1) by (simp add: bind_fid_def bind_s_def stateful_simps)
next
  case (Inr u)
  then have e: "reservation_entry f s = reservations_default"
    by (simp add: ensure_unreserved_Inr)
  show ?thesis
  proof (cases "fmlookup (fids s) f = None \<and> fcard (fmdom (fids s)) \<ge> max_fids (config s)")
    case True
    then show ?thesis using that(1) Inr by (simp add: bind_fid_def bind_s_def stateful_simps)
  next
    case False
    then show ?thesis
      using that(2) [OF _ e] Inr by (auto simp: bind_fid_def bind_s_def stateful_simps)
  qed
qed

lemma keeps_bind_fid [keep_rules]: "keeps k (bind_fid f st)"
  unfolding keeps_def
proof
  fix s
  show "undisturbed k s (snd (bind_fid f st s))"
    by (rule bind_fid_cases [of f st s])
      (auto simp: undisturbed_def default_claims simp del: claims.simps)
qed

lemma keeps_insert_new_fid [keep_rules]: "keeps k (insert_new_fid f st)"
  unfolding insert_new_fid_def by (intro keep_rules)

lemma retire_fid_cases:
  obtains e where "retire_fid k f s = (Inl e, s)"
  | state where "retire_fid k f s = (Inr state, s\<lparr>fids := fmdrop f (fids s),
       reservations := fmupd f \<lparr>exclusive = Some \<lparr>res_request = k, new_fid = False\<rparr>, shared = {||}\<rparr>
         (reservations s)\<rparr>)"
    "reservation_entry f s = reservations_default" "fmlookup (fids s) f = Some state"
proof (cases "ensure_unreserved f s")
  case (Inl e)
  then show ?thesis using that(1) by (simp add: retire_fid_def bind_s_def stateful_simps)
next
  case (Inr u)
  then have e: "reservation_entry f s = reservations_default"
    by (simp add: ensure_unreserved_Inr)
  show ?thesis
    using that e Inr by (cases "fmlookup (fids s) f") (auto simp: retire_fid_def bind_s_def stateful_simps)
qed

lemma keeps_retire [keep_rules]: "keeps k (retire_fid k' f)"
  unfolding keeps_def
proof
  fix s
  show "undisturbed k s (snd (retire_fid k' f s))"
    by (rule retire_fid_cases [of k' f s])
      (auto simp: undisturbed_def default_claims reservation_entry_def elim!: claims.elims)
qed

lemma release_keeps: "k \<noteq> k' \<Longrightarrow> undisturbed k s (release_reservations k' s)"
  by (auto simp: undisturbed_def release_one_simps elim!: claims.elims)

lemma undisturbed_requests: "undisturbed k s s' \<Longrightarrow> undisturbed k s (s'\<lparr>requests := t\<rparr>)"
  by (simp add: undisturbed_def del: claims.simps)

lemma release_unheld:
  assumes "compact s" and "unheld k s"
  shows "release_reservations k s = s"
proof (rule session_eqI)
  have one: "release_one k (reservation_entry f s) = reservation_entry f s" for f
  proof (rule fid_reservations_eqI)
    have "\<not> claims s k f (Excl b)" "\<not> claims s k f Share" for b
      using assms(2) by (auto simp: unheld_def simp del: claims.simps)
    then show "exclusive (release_one k (reservation_entry f s)) = exclusive (reservation_entry f s)"
      and "shared (release_one k (reservation_entry f s)) = shared (reservation_entry f s)"
      by (auto simp: release_one_simps split: option.split) (metis fid_reservation.surjective old.unit.exhaust)
  qed
  show "reservations (release_reservations k s) = reservations s"
    by (rule fmap_ext) (simp add: lookup_entry [OF compact_release] lookup_entry [OF assms(1)] one)
qed simp_all

section \<open>Outcomes of the reserving operations\<close>

lemma set_entry_same: "compact s \<Longrightarrow> reservation_entry f s \<noteq> reservations_default \<Longrightarrow>
  set_entry f (reservation_entry f s) s = s"
  by (rule session_eqI) (auto intro!: fmap_ext simp: lookup_entry)

lemma set_entry_twice [simp]: "set_entry f r (set_entry f r' s) = set_entry f r s"
  by (rule session_eqI) (simp_all add: fmap_ext)

lemma reserve_existing_cases:
  assumes "compact s"
  obtains e where "reserve_existing_fid k f s = (Inl e, s)"
  | "reserve_existing_fid k f s =
       (Inr (), set_entry f \<lparr>exclusive = Some \<lparr>res_request = k, new_fid = False\<rparr>, shared = {||}\<rparr> s)"
    "reservation_entry f s = reservations_default" "fmlookup (fids s) f \<noteq> None"
proof (cases "fmlookup (fids s) f = None")
  case True
  then show ?thesis using that(1) by (simp add: reserve_existing_fid_def)
next
  case False
  show ?thesis
  proof (cases "reservation_entry f s = reservations_default")
    case True
    then show ?thesis
      using that(2) False
      by (simp add: reserve_existing_fid_def Let_def reservations_default_def reservations_empty_def)
  next
    case busy: False
    then show ?thesis
      using that(1) False set_entry_same [OF assms busy]
      by (simp add: reserve_existing_fid_def Let_def reservations_empty_default)
  qed
qed

lemma reserve_shared_cases:
  assumes "compact s"
  obtains e where "reserve_shared_fid k f s = (Inl e, s)"
  | "reserve_shared_fid k f s =
       (Inr (), set_entry f \<lparr>exclusive = None, shared = finsert k (shared (reservation_entry f s))\<rparr> s)"
    "exclusive (reservation_entry f s) = None" "fmlookup (fids s) f \<noteq> None"
proof (cases "fmlookup (fids s) f = None")
  case True
  then show ?thesis using that(1) by (simp add: reserve_shared_fid_def)
next
  case False
  show ?thesis
  proof (cases "exclusive (reservation_entry f s) = None")
    case True
    have r: "(reservation_entry f s)\<lparr>shared := finsert k (shared (reservation_entry f s))\<rparr> =
      \<lparr>exclusive = None, shared = finsert k (shared (reservation_entry f s))\<rparr>"
      using True by (intro fid_reservations_eqI) simp_all
    have "reserve_shared_fid k f s =
      (Inr (), set_entry f \<lparr>exclusive = None, shared = finsert k (shared (reservation_entry f s))\<rparr> s)"
      unfolding r [symmetric] using False True by (simp add: reserve_shared_fid_def Let_def)
    then show ?thesis
      using that(2) True False by simp
  next
    case busy: False
    then have "reservation_entry f s \<noteq> reservations_default" by auto
    from set_entry_same [OF assms this] show ?thesis
      using that(1) False busy by (simp add: reserve_shared_fid_def Let_def)
  qed
qed

lemma reserve_new_cases:
  obtains e where "reserve_new_fid k f s = (Inl e, s)"
  | "reserve_new_fid k f s =
       (Inr (), set_entry f \<lparr>exclusive = Some \<lparr>res_request = k, new_fid = True\<rparr>, shared = {||}\<rparr> s)"
    "reservation_entry f s = reservations_default" "fmlookup (fids s) f = None"
    "fid_count s < max_fids (config s)"
proof (cases "contains_fid s f \<or> fmlookup (reservations s) f \<noteq> None")
  case True
  then show ?thesis using that(1) by (simp add: reserve_new_fid_def)
next
  case free: False
  then have "reservation_entry f s = reservations_default" and "fmlookup (fids s) f = None"
    by (simp_all add: entry_None contains_fid_def)
  with free show ?thesis
    using that by (cases "max_fids (config s) \<le> fid_count s") (simp_all add: reserve_new_fid_def)
qed

section \<open>The invariant\<close>

definition held_ok :: "request_table \<Rightarrow> bool \<Rightarrow> fid_reservations \<Rightarrow> bool" where
  "held_ok t present r \<longleftrightarrow>
     (\<forall>x. exclusive r = Some x \<longrightarrow>
        shared r = {||} \<and> current t (res_request x) \<and> (new_fid x \<longrightarrow> \<not> present))
     \<and> (\<forall>k. k |\<in>| shared r \<longrightarrow> current t k \<and> present)"

definition session_ok :: "session \<Rightarrow> bool" where
  "session_ok s \<longleftrightarrow>
     table_ok (requests s) \<and> compact s
     \<and> (\<forall>f. held_ok (requests s) (fmlookup (fids s) f \<noteq> None) (reservation_entry f s))
     \<and> fid_count s \<le> max_fids (config s)
     \<and> (negotiated s \<longleftrightarrow> sess_variant s \<noteq> None)
     \<and> (\<not> negotiated s \<longrightarrow>
          fids s = fmempty \<and> reservations s = fmempty \<and> live (requests s) = fmempty)"

lemma session_okD:
  assumes "session_ok s"
  shows "table_ok (requests s)" and "compact s"
    and "held_ok (requests s) (fmlookup (fids s) f \<noteq> None) (reservation_entry f s)"
    and "fid_count s \<le> max_fids (config s)" and "negotiated s \<longleftrightarrow> sess_variant s \<noteq> None"
  using assms by (auto simp: session_ok_def)

lemma session_okI:
  assumes "negotiated s" and "sess_variant s \<noteq> None" and "table_ok (requests s)" and "compact s"
    and "\<And>f. held_ok (requests s) (fmlookup (fids s) f \<noteq> None) (reservation_entry f s)"
    and "fid_count s \<le> max_fids (config s)"
  shows "session_ok s"
  using assms by (auto simp: session_ok_def)

lemma in_new_fid_reservations [simp]:
  "f |\<in>| new_fid_reservations s \<longleftrightarrow> holds_new_fid (reservation_entry f s)"
  by (auto simp: new_fid_reservations_def reservation_entry_def fmlookup_dom_iff split: option.splits)

lemma new_fids_set_entry:
  "new_fid_reservations (set_entry f r s) =
     (if holds_new_fid r then finsert f (new_fid_reservations s) else new_fid_reservations s |-| {|f|})"
  by (rule fset_eqI) auto

lemma fid_count_requests [simp]: "fid_count (s\<lparr>requests := t\<rparr>) = fid_count s"
  by (simp add: fid_count_def new_fid_reservations_def)

lemma fid_count_set_entry:
  "\<not> holds_new_fid r \<Longrightarrow> fid_count (set_entry f r s) \<le> fid_count s"
  "holds_new_fid r \<Longrightarrow> \<not> holds_new_fid (reservation_entry f s) \<Longrightarrow> fid_count (set_entry f r s) = Suc (fid_count s)"
  by (auto simp: fid_count_def new_fids_set_entry fcard_finsert_new intro: fcard_mono)

lemma fid_count_release: "fid_count (release_reservations k s) \<le> fid_count s"
proof -
  have "new_fid_reservations (release_reservations k s) |\<subseteq>| new_fid_reservations s"
    by (auto simp: holds_new_fid_def release_one_simps split: option.splits if_splits)
  then show ?thesis
    by (simp add: fid_count_def fcard_mono)
qed

lemma compact_set_entry: "compact s \<Longrightarrow> r \<noteq> reservations_default \<Longrightarrow> compact (set_entry f r s)"
  by (simp add: compact_def)

lemma session_ok_set_entry:
  assumes "session_ok s" and "negotiated s" and "r \<noteq> reservations_default"
    and "held_ok (requests s) (fmlookup (fids s) f \<noteq> None) r"
    and "fid_count (set_entry f r s) \<le> max_fids (config s)"
  shows "session_ok (set_entry f r s)"
  using assms by (simp add: session_ok_def compact_set_entry)

lemma fid_count_empty: "fids s = fmempty \<Longrightarrow> reservations s = fmempty \<Longrightarrow> fid_count s = 0"
  by (simp add: fid_count_def new_fid_reservations_def fcard.rep_eq)

lemma session_ok_empty:
  assumes "table_ok (requests s)" and "fids s = fmempty" and "reservations s = fmempty"
    and "live (requests s) = fmempty" and "negotiated s \<longleftrightarrow> sess_variant s \<noteq> None"
  shows "session_ok s"
  using assms by (simp add: session_ok_def compact_def reservation_entry_def held_ok_def fid_count_empty)

lemma session_ok_new: "session_ok (Session_new cfg)"
  by (rule session_ok_empty) (simp_all add: Session_new_def table_ok_new, simp add: RequestTable_new_def)

lemma session_ok_invalidate: "session_ok (invalidate s)"
  by (rule session_ok_empty) (simp_all add: invalidate_def table_ok_reset, simp add: table_reset_def)

lemma session_ok_reset: "session_ok (snd (reset_for_version msz ver s))"
  by (rule session_ok_empty)
    (auto simp: reset_for_version_def invalidate_def table_ok_reset Let_def split: option.split,
      simp_all add: table_reset_def)

end
