(* ===== verification/R9P_Server_Inv.thy ===== *)
theory R9P_Server_Inv
  imports R9P_Server R9P_Reservations
begin

text \<open>
  The invariant of the server core. \<open>pending_ok\<close> says what a dispatched request may rely on until
  it completes: the reservations its admission took and the state of the fids under them.
  Admission establishes it, no other request disturbs it, and completion uses it: the
  bookkeeping of a live completion cannot fail. The step relation \<open>server_step\<close> interleaves
  admissions and completions in any order.
\<close>

section \<open>What a pending request relies on\<close>

definition holds_fid :: "session \<Rightarrow> request_key \<Rightarrow> fid \<Rightarrow> claim \<Rightarrow> (fid_state \<Rightarrow> bool) \<Rightarrow> bool" where
  "holds_fid s k f c P \<longleftrightarrow> claims s k f c \<and> (\<exists>st. fmlookup (fids s) f = Some st \<and> P st)"

definition holds_new :: "session \<Rightarrow> request_key \<Rightarrow> fid \<Rightarrow> bool" where
  "holds_new s k f \<longleftrightarrow> claims s k f (Excl True) \<and> fmlookup (fids s) f = None"

fun pending_ok :: "session \<Rightarrow> request_key \<Rightarrow> server_request_kind \<Rightarrow> bool" where
  "pending_ok s k (K_Auth afid _ _) \<longleftrightarrow> holds_new s k afid"
| "pending_ok s k (K_Attach f afid _ _) \<longleftrightarrow>
     holds_new s k f
     \<and> (afid \<noteq> NOFID \<longrightarrow> holds_fid s k afid (Excl False) (\<lambda>st. is_auth (fid_qid st)))"
| "pending_ok s k (K_Walk f newfid start wnames) \<longleftrightarrow>
     validate_walk_names wnames = Inr () \<and> (wnames \<noteq> [] \<longrightarrow> is_dir start)
     \<and> holds_fid s k f (if newfid = f then Excl False else Share)
          (\<lambda>st. fid_qid st = start \<and> open_mode st = None)
     \<and> (newfid \<noteq> f \<longrightarrow> holds_new s k newfid)"
| "pending_ok s k (K_Open f q mode) \<longleftrightarrow>
     holds_fid s k f (Excl False) (\<lambda>st. fid_qid st = q \<and> validate_open st mode = Inr ())"
| "pending_ok s k (K_Create f q name perm mode) \<longleftrightarrow>
     holds_fid s k f (Excl False) (\<lambda>st. fid_qid st = q \<and> validate_create st perm mode = Inr ())"
| "pending_ok s k (K_Read f q offset count) \<longleftrightarrow>
     count \<le> saturating_sub (msize s) RREAD_HEADER_SIZE
     \<and> (is_dir q \<longrightarrow>
          holds_fid s k f (Excl False) (\<lambda>st. fid_qid st = q \<and> validate_read st offset = Inr ()))"
| "pending_ok s k (K_Write f q offset data) \<longleftrightarrow> length data \<le> unat (max_write_payload (msize s))"
| "pending_ok s k (K_Clunk f q) \<longleftrightarrow> claims s k f (Excl False) \<and> fmlookup (fids s) f = None"
| "pending_ok s k (K_Remove f q) \<longleftrightarrow> claims s k f (Excl False) \<and> fmlookup (fids s) f = None"
| "pending_ok s k (K_Stat f q) \<longleftrightarrow> True"
| "pending_ok s k (K_Wstat f q st) \<longleftrightarrow>
     holds_fid s k f (Excl False) (\<lambda>state. fid_qid state = q)
     \<and> (\<exists>v. sess_variant s = Some v \<and> validate_wstat q st v = Inr ())"
| "pending_ok s k (K_RenameAt olddirfid oldq oldname newdirfid newq newname) \<longleftrightarrow>
     sess_variant s = Some R \<and> is_dir oldq \<and> is_dir newq
     \<and> holds_fid s k olddirfid Share (\<lambda>st. fid_qid st = oldq)
     \<and> holds_fid s k newdirfid Share (\<lambda>st. fid_qid st = newq)"
| "pending_ok s k (K_Referrals f q) \<longleftrightarrow>
     sess_variant s = Some R \<and> holds_fid s k f Share (\<lambda>st. fid_qid st = q)"

lemma holds_fid_undisturbed: "undisturbed k s s' \<Longrightarrow> holds_fid s k f c P \<Longrightarrow> holds_fid s' k f c P"
  unfolding undisturbed_def holds_fid_def by metis

lemma holds_new_undisturbed: "undisturbed k s s' \<Longrightarrow> holds_new s k f \<Longrightarrow> holds_new s' k f"
  unfolding undisturbed_def holds_new_def by metis

lemma undisturbed_same: "undisturbed k s s' \<Longrightarrow> msize s' = msize s \<and> sess_variant s' = sess_variant s"
  by (simp add: undisturbed_def)

lemma undisturbed_retired: "undisturbed k s s' \<Longrightarrow> claims s k f c \<Longrightarrow> claims s' k f c \<and> fmlookup (fids s') f = fmlookup (fids s) f"
  unfolding undisturbed_def by blast

lemma pending_undisturbed: "undisturbed k s s' \<Longrightarrow> pending_ok s k kind \<Longrightarrow> pending_ok s' k kind"
  by (cases kind)
    (auto simp: undisturbed_same simp del: claims.simps
      dest: undisturbed_retired holds_fid_undisturbed holds_new_undisturbed)

section \<open>Table steps of the session\<close>

definition finished :: "request_key \<Rightarrow> session \<Rightarrow> session" where
  "finished k s = release_reservations k (s\<lparr>requests := snd (table_finish k (requests s))\<rparr>)"

lemma finished_simps [simp]:
  "config (finished k s) = config s" "msize (finished k s) = msize s" "version (finished k s) = version s"
  "sess_variant (finished k s) = sess_variant s" "negotiated (finished k s) = negotiated s"
  "fids (finished k s) = fids s" "requests (finished k s) = snd (table_finish k (requests s))"
  "reservation_entry f (finished k s) = release_one k (reservation_entry f s)"
  by (simp_all add: finished_def)

lemma held_ok_current: "held_ok t p r \<Longrightarrow> exclusive r = Some x \<Longrightarrow> current t (res_request x)"
  "held_ok t p r \<Longrightarrow> k |\<in>| shared r \<Longrightarrow> current t k"
  by (simp_all add: held_ok_def)

lemma held_ok_release:
  assumes "held_ok t p r"
  shows "held_ok (snd (table_finish k t)) p (release_one k r)"
  using assms by (auto simp: held_ok_def release_one_simps finish_others split: option.splits if_splits)

lemma session_ok_finished:
  assumes "session_ok s"
  shows "session_ok (finished k s)"
proof -
  have "fid_count (finished k s) \<le> fid_count s"
    unfolding finished_def using fid_count_release [of k "s\<lparr>requests := snd (table_finish k (requests s))\<rparr>"] by simp
  moreover have "reservations (finished k s) = fmempty" if "reservations s = fmempty"
    using that by (intro fmap_ext) (simp add: finished_def release_lookup)
  ultimately show ?thesis
    using assms unfolding session_ok_def
    by (auto simp: held_ok_release table_ok_finish) (auto simp: finished_def compact_release table_finish_def)
qed

lemma session_ok_claims: "session_ok s \<Longrightarrow> claims s k f c \<Longrightarrow> current (requests s) k"
  using session_okD(3) [of s f] by (cases c) (auto dest: held_ok_current)

lemma unheld_if_not_current: "session_ok s \<Longrightarrow> \<not> current (requests s) k \<Longrightarrow> unheld k s"
  using session_ok_claims by (auto simp: unheld_def simp del: claims.simps)

lemma begin_keeps_current:
  "table_begin tag t = (Inr k, t') \<Longrightarrow> current t k' \<Longrightarrow> table_ok t \<Longrightarrow> current t' k'"
  by (auto simp: table_begin_def current_def Let_def split: if_splits)

lemma held_ok_mono: "held_ok t p r \<Longrightarrow> (\<And>k. current t k \<Longrightarrow> current t' k) \<Longrightarrow> held_ok t' p r"
  by (auto simp: held_ok_def)

lemma session_ok_begin:
  assumes "session_ok s" and "negotiated s" and "table_begin tag (requests s) = (Inr k, t)"
  shows "session_ok (s\<lparr>requests := t\<rparr>)" and "current t k" and "unheld k s"
proof -
  have t: "t = snd (table_begin tag (requests s))"
    using assms(3) by simp
  show "session_ok (s\<lparr>requests := t\<rparr>)"
  proof (rule session_okI)
    show "held_ok (requests (s\<lparr>requests := t\<rparr>)) (fmlookup (fids (s\<lparr>requests := t\<rparr>)) f \<noteq> None)
      (reservation_entry f (s\<lparr>requests := t\<rparr>))" for f
      using held_ok_mono [OF session_okD(3) [OF assms(1)] begin_keeps_current [OF assms(3)]]
        session_okD(1) [OF assms(1)] by simp
  qed (use session_okD [OF assms(1)] assms(2) table_ok_begin [of "requests s" tag] in
      \<open>simp_all add: t compact_def\<close>)
  show "current t k"
    using begin_current(3) [OF assms(3)] .
  have "\<not> current (requests s) k"
    using begin_current(1,4) [OF assms(3)] by (auto simp: current_def is_live_def)
  with assms(1) show "unheld k s"
    by (rule unheld_if_not_current)
qed

lemma flush_is_finish:
  "table_ok t \<Longrightarrow> fmlookup (live t) oldtag = Some kc \<Longrightarrow> snd (table_flush oldtag t) = snd (table_finish kc t)"
  using table_okD [of t oldtag kc] by (simp add: table_flush_def table_finish_def)

section \<open>Admission keeps the invariant\<close>

definition maintains :: "('s \<Rightarrow> bool) \<Rightarrow> ('s, 'a) fallible \<Rightarrow> bool" where
  "maintains P p \<longleftrightarrow> (\<forall>s. P s \<longrightarrow> P (snd (p s)))"

named_theorems maintain_rules \<open>operations that maintain a predicate\<close>

lemma maintains_bind [maintain_rules]:
  assumes "maintains P p" and "\<And>x. maintains P (f x)"
  shows "maintains P (bind_s p f)"
  unfolding maintains_def
proof (intro allI impI)
  fix s
  assume s: "P s"
  obtain r t where p: "p s = (r, t)" by fastforce
  with assms(1) s have "P t"
    unfolding maintains_def by (metis snd_conv)
  then show "P (snd (bind_s p f s))"
    using p assms(2) by (cases r) (auto simp: bind_s_def maintains_def)
qed

lemma maintains_pure [maintain_rules]:
  "maintains P (return_s x)" "maintains P (throw_s e)" "maintains P (lift_s r)" "maintains P (read_s h)"
  by (simp_all add: maintains_def stateful_simps)

lemma maintains_if [maintain_rules]: "maintains P p \<Longrightarrow> maintains P q \<Longrightarrow> maintains P (if b then p else q)"
  by simp

definition active :: "request_table \<Rightarrow> request_key \<Rightarrow> session \<Rightarrow> bool" where
  "active t k s \<longleftrightarrow> session_ok s \<and> negotiated s \<and> requests s = t \<and> current t k"

lemma held_ok_simps [simp]:
  "held_ok t p \<lparr>exclusive = Some x, shared = {||}\<rparr> \<longleftrightarrow> current t (res_request x) \<and> (new_fid x \<longrightarrow> \<not> p)"
  "held_ok t p \<lparr>exclusive = None, shared = S\<rparr> \<longleftrightarrow> (\<forall>k. k |\<in>| S \<longrightarrow> current t k \<and> p)"
  by (auto simp: held_ok_def)

lemma holds_new_fid_simps [simp]:
  "holds_new_fid \<lparr>exclusive = Some x, shared = S\<rparr> \<longleftrightarrow> new_fid x"
  "\<not> holds_new_fid \<lparr>exclusive = None, shared = S\<rparr>"
  by (simp_all add: holds_new_fid_def)

lemma nondefault [simp]:
  "\<lparr>exclusive = Some x, shared = S\<rparr> \<noteq> reservations_default"
  "\<lparr>exclusive = None, shared = finsert k S\<rparr> \<noteq> reservations_default"
  by (simp_all add: reservations_default_def)

lemma active_existing [maintain_rules]: "maintains (active t k) (reserve_existing_fid k f)"
  unfolding maintains_def
proof (intro allI impI)
  fix s
  assume a: "active t k s"
  then have ok: "session_ok s" by (simp add: active_def)
  show "active t k (snd (reserve_existing_fid k f s))"
    by (rule reserve_existing_cases [OF session_okD(2) [OF ok], of k f])
      (use a in \<open>auto simp: active_def intro!: session_ok_set_entry
        order.trans [OF fid_count_set_entry(1) session_okD(4)]\<close>)
qed

lemma active_shared [maintain_rules]: "maintains (active t k) (reserve_shared_fid k f)"
  unfolding maintains_def
proof (intro allI impI)
  fix s
  assume a: "active t k s"
  then have ok: "session_ok s" by (simp add: active_def)
  have "held_ok t (fmlookup (fids s) f \<noteq> None) (reservation_entry f s)"
    using session_okD(3) [OF ok, of f] a by (simp add: active_def)
  then have cur: "current t k'" if "k' |\<in>| shared (reservation_entry f s)" for k'
    using that by (rule held_ok_current(2))
  show "active t k (snd (reserve_shared_fid k f s))"
    by (rule reserve_shared_cases [OF session_okD(2) [OF ok], of k f])
      (use a cur in \<open>auto simp: active_def intro!: session_ok_set_entry
        order.trans [OF fid_count_set_entry(1) session_okD(4)]\<close>)
qed

lemma active_new [maintain_rules]: "maintains (active t k) (reserve_new_fid k f)"
  unfolding maintains_def
proof (intro allI impI)
  fix s
  assume a: "active t k s"
  then have ok: "session_ok s" by (simp add: active_def)
  show "active t k (snd (reserve_new_fid k f s))"
    by (rule reserve_new_cases [of k f s])
      (use a in \<open>auto simp: active_def fid_count_set_entry(2) intro!: session_ok_set_entry\<close>)
qed

lemma new_fids_fids [simp]: "new_fid_reservations (s\<lparr>fids := m\<rparr>) = new_fid_reservations s"
  by (simp add: new_fid_reservations_def)

lemma active_retire [maintain_rules]: "maintains (active t k) (retire_fid k f)"
  unfolding maintains_def
proof (intro allI impI)
  fix s
  assume a: "active t k s"
  then have ok: "session_ok s" "negotiated s" by (simp_all add: active_def)
  let ?r = "\<lparr>exclusive = Some \<lparr>res_request = k, new_fid = False\<rparr>, shared = {||}\<rparr>"
  have "session_ok (set_entry f ?r s)"
    using a by (auto simp: active_def intro!: session_ok_set_entry
        order.trans [OF fid_count_set_entry(1) session_okD(4)])
  then have "session_ok ((set_entry f ?r s)\<lparr>fids := fmdrop f (fids s)\<rparr>)" (is "session_ok ?s'")
  proof (intro session_okI)
    assume ok': "session_ok (set_entry f ?r s)"
    show "held_ok (requests ?s') (fmlookup (fids ?s') g \<noteq> None) (reservation_entry g ?s')" for g
      using session_okD(3) [OF ok', of g] a by (auto simp: active_def)
    have "fcard (fmdom (fmdrop f (fids s))) \<le> fcard (fmdom (fids s))"
      by (auto intro: fcard_mono)
    then show "fid_count ?s' \<le> max_fids (config ?s')"
      using session_okD(4) [OF ok'] by (simp add: fid_count_def)
  qed (use ok session_okD(1,5) [OF ok(1)] in \<open>auto simp: session_ok_def compact_def\<close>)
  moreover have "?s' = s\<lparr>fids := fmdrop f (fids s), reservations := fmupd f ?r (reservations s)\<rparr>"
    by (simp add: set_entry_def)
  ultimately have ok': "session_ok (s\<lparr>fids := fmdrop f (fids s), reservations := fmupd f ?r (reservations s)\<rparr>)"
    by simp
  show "active t k (snd (retire_fid k f s))"
    by (rule retire_fid_cases [of k f s]) (use a ok' in \<open>simp_all add: active_def\<close>)
qed

lemmas admit_defs = admit_auth_def admit_attach_def admit_walk_def admit_open_def admit_create_def
  admit_read_def admit_write_def admit_clunk_def admit_remove_def admit_stat_def admit_wstat_def
  admit_rename_at_def admit_referrals_def dispatch_def

fun is_flush :: "tmessage \<Rightarrow> bool" where
  "is_flush (T_Flush _ _) = True"
| "is_flush _ = False"

lemma maintains_dispatch_fun [maintain_rules]: "maintains P (\<lambda>s. return_s (h s) s)"
  by (simp add: maintains_def stateful_simps)

lemma admit_active: "\<not> is_flush m \<Longrightarrow> maintains (active t k) (admit_after_begin m k)"
  by (cases m) (simp_all only: admit_after_begin.simps admit_defs is_flush.simps not_True_eq_False, (intro maintain_rules)+)

lemma keeps_fun [keep_rules]: "keeps k (\<lambda>s. return_s (h s) s)"
  by (simp add: keeps_def stateful_simps)

lemma admit_keeps: "\<not> is_flush m \<Longrightarrow> keeps k (admit_after_begin m k')"
  by (cases m) (simp_all only: admit_after_begin.simps admit_defs is_flush.simps not_True_eq_False, (intro keep_rules)+)

section \<open>Admission establishes what the request relies on\<close>

abbreviation excl_entry :: "request_key \<Rightarrow> bool \<Rightarrow> fid_reservations" where
  "excl_entry k b \<equiv> \<lparr>exclusive = Some \<lparr>res_request = k, new_fid = b\<rparr>, shared = {||}\<rparr>"

lemma reserve_existing_Inr: "compact s \<Longrightarrow> reserve_existing_fid k f s = (Inr u, s') \<longleftrightarrow>
  reservation_entry f s = reservations_default \<and> fmlookup (fids s) f \<noteq> None \<and> s' = set_entry f (excl_entry k False) s"
  by (auto simp: reserve_existing_fid_def Let_def reservations_empty_default) (simp add: reservations_default_def)+

lemma reserve_shared_Inr:
  assumes "compact s" and "reserve_shared_fid k f s = (Inr u, s')"
  shows "exclusive (reservation_entry f s) = None" and "fmlookup (fids s) f \<noteq> None"
    and "s' = set_entry f \<lparr>exclusive = None, shared = finsert k (shared (reservation_entry f s))\<rparr> s"
  by (rule reserve_shared_cases [OF assms(1), of k f]; use assms(2) in simp)+

lemma reserve_new_Inr: "reserve_new_fid k f s = (Inr u, s') \<Longrightarrow>
  reservation_entry f s = reservations_default \<and> fmlookup (fids s) f = None \<and> s' = set_entry f (excl_entry k True) s"
  by (rule reserve_new_cases [of k f s]) auto

lemma retire_Inr: "retire_fid k f s = (Inr st, s') \<Longrightarrow>
  reservation_entry f s = reservations_default \<and> fmlookup (fids s) f = Some st
  \<and> s' = (set_entry f (excl_entry k False) s)\<lparr>fids := fmdrop f (fids s)\<rparr>"
  by (rule retire_fid_cases [of k f s]) (auto simp: set_entry_def)

lemma get_fid_Inr: "get_fid f s = Inr st \<longleftrightarrow>
  exclusive (reservation_entry f s) = None \<and> fmlookup (fids s) f = Some st"
  by (auto simp: get_fid_def result_simps ensure_available_Inr)

lemma negotiated_variant_Inr: "negotiated_variant s = Inr v \<longleftrightarrow> sess_variant s = Some v"
  by (simp add: negotiated_variant_def)

lemmas admit_Inr = result_simps dispatch_def get_fid_Inr negotiated_variant_Inr holds_fid_def holds_new_def

lemma attach_dispatched:
  assumes "compact s" and "admit_attach k f afid uname aname s = (Inr (Ev_Dispatch rq), s')"
  shows "rq_key rq = k \<and> pending_ok s' k (rq_kind rq)"
proof (cases "afid = NOFID")
  case True
  with assms(2) show ?thesis
    by (auto simp: admit_attach_def admit_Inr dest!: reserve_new_Inr)
next
  case False
  with assms obtain st where st: "fmlookup (fids s) afid = Some st" "is_auth (fid_qid st)"
    and s': "reserve_new_fid k f (set_entry afid (excl_entry k False) s) = (Inr (), s')"
    and rq: "rq = \<lparr>rq_key = k, rq_kind = K_Attach f afid uname aname\<rparr>"
    by (auto simp: admit_attach_def admit_Inr reserve_existing_Inr split: if_splits)
  from reserve_new_Inr [OF s'] have "f \<noteq> afid"
    by (auto split: if_splits)
  with reserve_new_Inr [OF s'] st rq show ?thesis
    by (auto simp: holds_fid_def holds_new_def)
qed

lemma auth_dispatched:
  assumes "admit_auth k afid uname aname s = (Inr (Ev_Dispatch rq), s')"
  shows "rq_key rq = k \<and> pending_ok s' k (rq_kind rq)"
proof -
  have "afid \<noteq> NOFID"
    using assms by (auto simp: admit_auth_def result_simps)
  then have s': "reserve_new_fid k afid s = (Inr (), s')"
    and rq: "rq = \<lparr>rq_key = k, rq_kind = K_Auth afid uname aname\<rparr>"
    using assms by (auto simp: admit_auth_def result_simps dispatch_def)
  show ?thesis
    using reserve_new_Inr [OF s'] rq by (simp add: holds_new_def)
qed

lemma read_dispatched:
  assumes "compact s" and "admit_read k f offset count s = (Inr (Ev_Dispatch rq), s')"
  shows "rq_key rq = k \<and> pending_ok s' k (rq_kind rq)"
proof -
  obtain st where st: "fmlookup (fids s) f = Some st" "validate_read st offset = Inr ()"
    and s': "is_dir (fid_qid st) \<and> reserve_existing_fid k f s = (Inr (), s') \<or> \<not> is_dir (fid_qid st) \<and> s' = s"
    and rq: "rq = \<lparr>rq_key = k, rq_kind = K_Read f (fid_qid st) offset (clamp_read_count (msize s') count)\<rparr>"
    using assms(2) by (fastforce simp: admit_read_def admit_Inr split: if_splits)
  then show ?thesis
    using reserve_existing_Inr [OF assms(1)]
    by (cases "is_dir (fid_qid st)") (simp_all add: clamp_read_count_def holds_fid_def)
qed

lemma walk_dispatched:
  assumes "compact s" and "admit_walk k f newfid wnames s = (Inr (Ev_Dispatch rq), s')"
  shows "rq_key rq = k \<and> pending_ok s' k (rq_kind rq)"
proof (cases "newfid = f")
  case True
  with assms show ?thesis
    by (auto simp: admit_walk_def admit_Inr reserve_existing_Inr split: if_splits)
next
  case False
  then obtain st s1 where w: "validate_walk_names wnames = Inr ()" "wnames \<noteq> [] \<longrightarrow> is_dir (fid_qid st)"
    and st: "fmlookup (fids s) f = Some st" "open_mode st = None"
    and s1: "reserve_shared_fid k f s = (Inr (), s1)" and s': "reserve_new_fid k newfid s1 = (Inr (), s')"
    and rq: "rq = \<lparr>rq_key = k, rq_kind = K_Walk f newfid (fid_qid st) wnames\<rparr>"
    using assms(2) by (auto simp: admit_walk_def admit_Inr split: if_splits)
  show ?thesis
    using reserve_shared_Inr(3) [OF assms(1) s1] reserve_new_Inr [OF s'] w st rq False
    by (auto simp: holds_fid_def holds_new_def)
qed

lemma rename_at_dispatched:
  assumes "compact s" and "admit_rename_at k f1 n1 f2 n2 s = (Inr (Ev_Dispatch rq), s')"
  shows "rq_key rq = k \<and> pending_ok s' k (rq_kind rq)"
proof -
  obtain st1 st2 s1 where v: "sess_variant s = Some R"
    and st: "fmlookup (fids s) f1 = Some st1" "fmlookup (fids s) f2 = Some st2" "is_dir (fid_qid st1)" "is_dir (fid_qid st2)"
    and s1: "reserve_shared_fid k f1 s = (Inr (), s1)"
    and s': "f2 \<noteq> f1 \<and> reserve_shared_fid k f2 s1 = (Inr (), s') \<or> f2 = f1 \<and> s' = s1"
    and rq: "rq = \<lparr>rq_key = k, rq_kind = K_RenameAt f1 (fid_qid st1) n1 f2 (fid_qid st2) n2\<rparr>"
    using assms(2) by (auto simp: admit_rename_at_def admit_Inr supports_rename_at_def split: if_splits)
  have s1': "s1 = set_entry f1 \<lparr>exclusive = None, shared = finsert k (shared (reservation_entry f1 s))\<rparr> s"
    by (rule reserve_shared_Inr(3) [OF assms(1) s1])
  then have "compact s1"
    using compact_set_entry [OF assms(1)] by simp
  from reserve_shared_Inr(3) [OF this, of k f2 "()" s'] s' s1' v st rq show ?thesis
    by (auto simp: holds_fid_def)
qed

lemma admit_dispatched:
  assumes "compact s" and "admit_after_begin m k s = (Inr (Ev_Dispatch rq), s')"
  shows "rq_key rq = k \<and> pending_ok s' k (rq_kind rq)"
proof (cases m)
  case (T_Attach tag f afid uname aname)
  then have "admit_attach k f afid uname aname s = (Inr (Ev_Dispatch rq), s')"
    using assms(2) by simp
  then show ?thesis by (rule attach_dispatched [OF assms(1)])
next
  case (T_Walk tag f newfid wnames)
  then have "admit_walk k f newfid wnames s = (Inr (Ev_Dispatch rq), s')"
    using assms(2) by simp
  then show ?thesis by (rule walk_dispatched [OF assms(1)])
next
  case (T_RenameAt tag f1 n1 f2 n2)
  then have "admit_rename_at k f1 n1 f2 n2 s = (Inr (Ev_Dispatch rq), s')"
    using assms(2) by simp
  then show ?thesis by (rule rename_at_dispatched [OF assms(1)])
next
  case (T_Auth tag afid uname aname)
  then have "admit_auth k afid uname aname s = (Inr (Ev_Dispatch rq), s')"
    using assms(2) by simp
  then show ?thesis by (rule auth_dispatched)
next
  case (T_Flush tag oldtag)
  with assms(2) show ?thesis
    by (cases "table_flush oldtag (requests s)"; cases "fst (table_flush oldtag (requests s))")
      (simp_all add: admit_flush_def Let_def)
next
  case (T_Read tag f offset count)
  then have "admit_read k f offset count s = (Inr (Ev_Dispatch rq), s')"
    using assms(2) by simp
  then show ?thesis by (rule read_dispatched [OF assms(1)])
next
  case (T_Clunk tag f)
  with assms show ?thesis
    by (auto simp: admit_clunk_def admit_Inr dest!: retire_Inr)
next
  case (T_Remove tag f)
  with assms show ?thesis
    by (auto simp: admit_remove_def admit_Inr dest!: retire_Inr)
next
  case (T_Referrals tag f)
  with assms show ?thesis
    by (auto simp: admit_referrals_def admit_Inr supports_referrals_def split: if_splits dest!: reserve_shared_Inr(3))
qed (use assms in \<open>auto simp: admit_open_def admit_create_def admit_write_def admit_stat_def admit_wstat_def
      admit_Inr reserve_existing_Inr split: if_splits\<close>)

end
