(* ===== verification/R9P_Server_Step.thy ===== *)
theory R9P_Server_Step
  imports R9P_Server_Inv
begin

text \<open>
  Completions, and the server core as a transition system: \<open>server_step\<close> admits any message or
  completes any outstanding request, in any order, over a session and the set of requests
  handed out and not yet completed. \<open>server_inv\<close> is inductive for it.
\<close>

section \<open>What a completion may change\<close>

definition rebinds :: "fid option \<Rightarrow> session \<Rightarrow> session \<Rightarrow> bool" where
  "rebinds target s s' \<longleftrightarrow>
     s'\<lparr>fids := fids s\<rparr> = s
     \<and> (\<forall>g. fmlookup (fids s') g = fmlookup (fids s) g
           \<or> target = Some g \<and> fmlookup (fids s') g \<noteq> None \<and> reservation_entry g s = reservations_default)"

definition rebinding :: "fid option \<Rightarrow> (session, 'a) fallible \<Rightarrow> bool" where
  "rebinding target p \<longleftrightarrow> (\<forall>s. rebinds target s (snd (p s)))"

named_theorems rebind_rules \<open>operations that change at most one fid\<close>

lemma rebinds_refl [simp]: "rebinds target s s"
  by (simp add: rebinds_def)

lemma rebinds_same:
  assumes "rebinds target s s'"
  shows "config s' = config s" "msize s' = msize s" "version s' = version s"
    "sess_variant s' = sess_variant s" "negotiated s' = negotiated s" "requests s' = requests s"
    "reservations s' = reservations s" "reservation_entry f s' = reservation_entry f s"
proof -
  obtain m where "s' = s\<lparr>fids := m\<rparr>"
    using assms unfolding rebinds_def by (cases s; cases s') auto
  then show "config s' = config s" "msize s' = msize s" "version s' = version s"
    "sess_variant s' = sess_variant s" "negotiated s' = negotiated s" "requests s' = requests s"
    "reservations s' = reservations s" "reservation_entry f s' = reservation_entry f s"
    by simp_all
qed

lemma rebinds_trans:
  assumes a: "rebinds target s t" and b: "rebinds target t u"
  shows "rebinds target s u"
proof -
  have "u\<lparr>fids := fids s\<rparr> = s"
    using a b unfolding rebinds_def by (cases s; cases t; cases u) auto
  moreover have "reservation_entry g t = reservation_entry g s" for g
    by (rule rebinds_same(8) [OF a])
  ultimately show ?thesis
    using a b unfolding rebinds_def by metis
qed

lemma rebinding_bind [rebind_rules]:
  assumes "rebinding target p" and "\<And>x. rebinding target (f x)"
  shows "rebinding target (bind_s p f)"
  unfolding rebinding_def
proof
  fix s
  obtain r t where p: "p s = (r, t)" by fastforce
  with assms(1) have t: "rebinds target s t"
    unfolding rebinding_def by (metis snd_conv)
  show "rebinds target s (snd (bind_s p f s))"
    using p t rebinds_trans assms(2) by (cases r) (auto simp: bind_s_def rebinding_def)
qed

lemma rebinding_pure [rebind_rules]:
  "rebinding target (return_s x)" "rebinding target (throw_s e)" "rebinding target (lift_s r)"
  "rebinding target (read_s h)" "rebinding target (\<lambda>s. (r' s, s))"
  by (simp_all add: rebinding_def stateful_simps)

lemma rebinding_if [rebind_rules]: "rebinding target p \<Longrightarrow> rebinding target q \<Longrightarrow> rebinding target (if b then p else q)"
  by simp

lemma rebinding_bind_fid [rebind_rules]: "rebinding (Some f) (bind_fid f st)"
  unfolding rebinding_def
proof
  fix s
  show "rebinds (Some f) s (snd (bind_fid f st s))"
    by (rule bind_fid_cases [of f st s]) (simp_all add: rebinds_def)
qed

lemma rebinding_insert_new_fid [rebind_rules]: "rebinding (Some f) (insert_new_fid f st)"
  unfolding insert_new_fid_def by (intro rebind_rules)

fun bound_fid :: "server_request_kind \<Rightarrow> fid option" where
  "bound_fid (K_Auth afid _ _) = Some afid"
| "bound_fid (K_Attach f _ _ _) = Some f"
| "bound_fid (K_Walk _ newfid _ _) = Some newfid"
| "bound_fid (K_Open f _ _) = Some f"
| "bound_fid (K_Create f _ _ _ _) = Some f"
| "bound_fid (K_Read f q _ _) = (if is_dir q then Some f else None)"
| "bound_fid _ = None"

lemmas complete_defs = complete_auth_def complete_attach_def complete_walk_def complete_open_def complete_read_def

lemma rebinding_walk: "rebinding (Some newfid) (complete_walk v tag f newfid start wnames qids)"
proof (cases "newfid = f")
  case True
  show ?thesis
    unfolding complete_walk_def Let_def True by (simp only: refl not_True_eq_False if_True if_False) (intro rebind_rules)
next
  case False
  then show ?thesis
    unfolding complete_walk_def Let_def by (simp only: not_False_eq_True if_True if_False) (intro rebind_rules)
qed

lemma rebinding_read: "rebinding (if is_dir q then Some f else None) (complete_read v tag f q offset count rd)"
  unfolding complete_read_def by (cases "is_dir q"; simp only: if_True if_False; intro rebind_rules)

lemma rebinding_match: "rebinding (bound_fid kind) (match_completion v tag kind c)"
proof (cases kind)
  case (K_Walk f newfid start wnames)
  then show ?thesis
    by (cases c) (simp_all add: match_completion_def rebinding_pure rebinding_walk)
next
  case (K_Read f q offset count)
  then show ?thesis
    by (cases c) (simp_all only: match_completion_def server_request_kind.case server_completion.case
        bound_fid.simps rebinding_pure rebinding_read)
qed (cases c; simp only: match_completion_def server_request_kind.case server_completion.case
    bound_fid.simps complete_defs; intro rebind_rules)+

section \<open>Completion keeps the invariant\<close>

lemma released_entry:
  assumes "session_ok s" and "claims s k f (Excl b)"
  shows "reservation_entry f (finished k s) = reservations_default"
  using session_okD(3) [OF assms(1), of f] assms(2)
  by (auto simp: held_ok_def release_one_simps intro!: fid_reservations_eqI)

lemma released_count:
  assumes "session_ok s" and "claims s k f (Excl True)"
  shows "fid_count (finished k s) < max_fids (config s)"
proof -
  have f: "f |\<in>| new_fid_reservations s"
    using assms(2) by (simp add: holds_new_fid_def)
  have "new_fid_reservations (finished k s) |\<subseteq>| new_fid_reservations s |-| {|f|}"
    using assms(2) by (auto simp: holds_new_fid_def release_one_simps split: option.splits if_splits)
  then have "fcard (new_fid_reservations (finished k s)) \<le> fcard (new_fid_reservations s |-| {|f|})"
    by (rule fcard_mono)
  then have "Suc (fcard (new_fid_reservations (finished k s))) \<le> fcard (new_fid_reservations s)"
    using fcard_fminus_one [OF f] by linarith
  then show ?thesis
    using session_okD(4) [OF assms(1)] by (simp add: fid_count_def)
qed

lemma rebinds_fids:
  assumes "rebinds target s s'"
  shows "fids s' = fids s \<or> (\<exists>f st. target = Some f \<and> reservation_entry f s = reservations_default
    \<and> fids s' = fmupd f st (fids s))"
proof (cases "fids s' = fids s")
  case False
  then obtain f where "fmlookup (fids s') f \<noteq> fmlookup (fids s) f"
    by (metis fmap_ext)
  with assms have f: "target = Some f" "reservation_entry f s = reservations_default"
    and "fmlookup (fids s') f \<noteq> None"
    unfolding rebinds_def by metis+
  then obtain st where "fmlookup (fids s') f = Some st" by blast
  moreover have "fmlookup (fids s') g = fmlookup (fids s) g" if "g \<noteq> f" for g
    using assms f(1) that unfolding rebinds_def by (metis option.inject)
  ultimately have "fids s' = fmupd f st (fids s)"
    by (intro fmap_ext) auto
  with f show ?thesis by blast
qed simp

lemma session_ok_rebinds:
  assumes ok: "session_ok s" and neg: "negotiated s" and re: "rebinds target s s'"
    and room: "\<And>f. target = Some f \<Longrightarrow> fmlookup (fids s) f \<noteq> None \<or> fid_count s < max_fids (config s)"
  shows "session_ok s'"
proof (rule session_okI)
  note same = rebinds_same [OF re]
  show "fid_count s' \<le> max_fids (config s')"
    using rebinds_fids [OF re]
  proof (elim disjE exE conjE)
    fix f st
    assume f: "target = Some f" "fids s' = fmupd f st (fids s)"
    have new: "new_fid_reservations s' = new_fid_reservations s"
      by (rule fset_eqI) (simp add: same)
    show ?thesis
    proof (cases "fmlookup (fids s) f")
      case None
      then have "f |\<notin>| fmdom (fids s)" by (simp add: fmdom_notI)
      then show ?thesis
        using None room [OF f(1)] f(2) by (simp add: fid_count_def new same fcard_finsert_new)
    next
      case (Some st')
      then have "finsert f (fmdom (fids s)) = fmdom (fids s)"
        by (simp add: finsert_absorb fmdomI)
      then show ?thesis
        using session_okD(4) [OF ok] f(2) by (simp add: fid_count_def new same)
    qed
  next
    assume "fids s' = fids s"
    moreover have "new_fid_reservations s' = new_fid_reservations s"
      by (rule fset_eqI) (simp add: same)
    ultimately show ?thesis
      using session_okD(4) [OF ok] by (simp add: fid_count_def same)
  qed
  show "held_ok (requests s') (fmlookup (fids s') g \<noteq> None) (reservation_entry g s')" for g
    using session_okD(3) [OF ok, of g] rebinds_fids [OF re]
    by (auto simp: same held_ok_def split: if_splits)
qed (use session_okD [OF ok] neg rebinds_same [OF re] in \<open>simp_all add: compact_def\<close>)

lemma pending_bound:
  assumes "pending_ok s k kind" and "bound_fid kind = Some f"
  shows "\<exists>b. claims s k f (Excl b) \<and> (b \<or> fmlookup (fids s) f \<noteq> None)"
  using assms by (cases kind) (auto simp: holds_new_def holds_fid_def simp del: claims.simps split: if_splits)

lemma released_room:
  assumes "session_ok s" and "pending_ok s k kind" and "bound_fid kind = Some f"
  shows "reservation_entry f (finished k s) = reservations_default"
    and "fmlookup (fids s) f \<noteq> None \<or> fid_count (finished k s) < max_fids (config s)"
proof -
  obtain b where b: "claims s k f (Excl b)" "b \<or> fmlookup (fids s) f \<noteq> None"
    using pending_bound [OF assms(2,3)] by blast
  show "reservation_entry f (finished k s) = reservations_default"
    by (rule released_entry [OF assms(1) b(1)])
  show "fmlookup (fids s) f \<noteq> None \<or> fid_count (finished k s) < max_fids (config s)"
  proof (cases b)
    case True
    with b(1) have "claims s k f (Excl True)" by (simp del: claims.simps)
    from released_count [OF assms(1) this] show ?thesis by simp
  qed (use b in simp)
qed

text \<open>The session a completion leaves behind, whatever the completion is.\<close>

lemma complete_cases:
  obtains "\<not> current (requests s) (rq_key rq)" "complete rq c s = (None, s)"
  | reply s' where "current (requests s) (rq_key rq)" "complete rq c s = (Some reply, s')"
      "rebinds (bound_fid (rq_kind rq)) (finished (rq_key rq) s) s'"
proof (cases "current (requests s) (rq_key rq)")
  case False
  then have "complete rq c s = (None, s)"
    by (simp add: complete_def table_finish_def current_def)
  with False that(1) show ?thesis by blast
next
  case True
  let ?s = "finished (rq_key rq) s"
  obtain t where fin: "table_finish (rq_key rq) (requests s) = (True, t)"
    using True by (auto simp: current_def table_finish_def)
  let ?p = "case c of Inr c \<Rightarrow> apply_completion (rq_tag rq) (rq_kind rq) c | Inl e \<Rightarrow> throw_s e"
  have "rebinding (bound_fid (rq_kind rq)) ?p"
    by (cases c) (simp_all only: sum.case apply_completion_def, (intro rebind_rules rebinding_match)+)
  then have re: "rebinds (bound_fid (rq_kind rq)) ?s (snd (?p ?s))"
    by (simp add: rebinding_def)
  have "complete rq c s = (case ?p ?s of
      (Inr reply, s) \<Rightarrow> (Some reply, s) | (Inl e, s) \<Rightarrow> (Some (error_reply (rq_tag rq) e), s))"
    by (cases c) (simp_all add: complete_def fin Let_def finished_def stateful_simps)
  then have comp: "\<exists>reply. complete rq c s = (Some reply, snd (?p ?s))"
    by (cases "?p ?s"; cases "fst (?p ?s)") simp_all
  then obtain reply where "complete rq c s = (Some reply, snd (?p ?s))" ..
  from that(2) [OF True this re] show ?thesis .
qed

section \<open>The transition system\<close>

fun dispatched :: "server_event \<Rightarrow> server_request set" where
  "dispatched (Ev_Dispatch rq) = {rq}"
| "dispatched _ = {}"

text \<open>The counter of the request table saturates; the steps stop one short of that (an admission per
  nanosecond would take five centuries to get there).\<close>

inductive server_step :: "session \<times> server_request set \<Rightarrow> session \<times> server_request set \<Rightarrow> bool" where
  step_admit: "next_generation (requests s) \<noteq> - 1 \<Longrightarrow> admit m s = (event, s') \<Longrightarrow>
     server_step (s, out) (s', out \<union> dispatched event)"
| step_complete: "rq \<in> out \<Longrightarrow> complete rq c s = (reply, s') \<Longrightarrow> server_step (s, out) (s', out - {rq})"

inductive_cases server_stepE: "server_step (s, out) sys'"

definition reachable :: "server_config \<Rightarrow> session \<times> server_request set \<Rightarrow> bool" where
  "reachable cfg sys \<longleftrightarrow> server_step\<^sup>*\<^sup>* (Session_new cfg, {}) sys"

definition covered :: "session \<Rightarrow> server_request set \<Rightarrow> request_key set \<Rightarrow> bool" where
  "covered s out extra \<longleftrightarrow>
     session_ok s \<and> inj_on rq_key out
     \<and> (\<forall>rq \<in> out. key_generation (rq_key rq) < next_generation (requests s)
           \<and> (current (requests s) (rq_key rq) \<longrightarrow> pending_ok s (rq_key rq) (rq_kind rq)))
     \<and> (\<forall>k. current (requests s) k \<longrightarrow> k \<in> extra \<or> k \<in> rq_key ` out)"

definition server_inv :: "session \<times> server_request set \<Rightarrow> bool" where
  "server_inv sys \<longleftrightarrow> covered (fst sys) (snd sys) {}"

lemma server_inv_init: "server_inv (Session_new cfg, {})"
  by (simp add: server_inv_def covered_def session_ok_new current_def Session_new_def RequestTable_new_def)
    (metis Session_new_def RequestTable_new_def session_ok_new)

lemma covered_finished:
  assumes "covered s out extra"
  shows "covered (finished k s) out (extra - {k})"
proof -
  have pend: "pending_ok (finished k s) (rq_key rq) (rq_kind rq)"
    if "rq \<in> out" and "current (snd (table_finish k (requests s))) (rq_key rq)" for rq
  proof -
    have ne: "rq_key rq \<noteq> k"
      using that(2) finish_retires(2) by auto
    then have "pending_ok s (rq_key rq) (rq_kind rq)"
      using that assms finish_others [OF ne] by (auto simp: covered_def)
    moreover have "undisturbed (rq_key rq) s (finished k s)"
      unfolding finished_def
      by (rule undisturbed_trans [OF undisturbed_requests [OF undisturbed_refl] release_keeps [OF ne]])
    ultimately show ?thesis
      by (rule pending_undisturbed [rotated])
  qed
  have "next_generation (snd (table_finish k (requests s))) = next_generation (requests s)"
    by (simp add: table_finish_def)
  moreover have "k' \<in> extra - {k} \<or> k' \<in> rq_key ` out"
    if "current (snd (table_finish k (requests s))) k'" for k'
    using that assms finish_retires(2) [of k "requests s"] finish_others [of k' k "requests s"]
    unfolding covered_def by (cases "k' = k") auto
  ultimately show ?thesis
    using assms pend session_ok_finished by (auto simp: covered_def)
qed

lemma covered_begin:
  assumes "covered s out {}" and "negotiated s" and "table_begin tag (requests s) = (Inr k, t)"
    and "next_generation (requests s) \<noteq> - 1"
  shows "covered (s\<lparr>requests := t\<rparr>) out {k}" and "active t k (s\<lparr>requests := t\<rparr>)"
    and "k \<notin> rq_key ` out" and "key_generation k < next_generation t" and "unheld k s"
proof -
  have ok: "session_ok s" using assms(1) by (simp add: covered_def)
  note opened = session_ok_begin [OF ok assms(2,3)]
  show "active t k (s\<lparr>requests := t\<rparr>)"
    using opened assms(2) by (simp add: active_def)
  show "key_generation k < next_generation t" "unheld k s"
    using begin_current(6) [OF assms(3,4)] opened(3) by blast+
  have gen: "key_generation k = next_generation (requests s)"
    by (rule begin_current(5) [OF assms(3)])
  show new: "k \<notin> rq_key ` out"
    using assms(1) gen by (auto simp: covered_def)
  have "live t = fmupd tag k (live (requests s))" "fmlookup (live (requests s)) tag = None" "key_tag k = tag"
    using assms(3) by (auto simp: table_begin_def Let_def split: if_splits)
  then have cur: "current t k' \<longleftrightarrow> k' = k \<or> current (requests s) k'" for k'
    by (auto simp: current_def)
  have pend: "pending_ok (s\<lparr>requests := t\<rparr>) (rq_key rq) (rq_kind rq)"
    if "pending_ok s (rq_key rq) (rq_kind rq)" for rq
    by (rule pending_undisturbed [OF undisturbed_requests [OF undisturbed_refl] that])
  have "next_generation (requests s) < next_generation t"
    using begin_current(6) [OF assms(3,4)] gen by simp
  then show "covered (s\<lparr>requests := t\<rparr>) out {k}"
    using assms(1) opened(1) new cur pend by (fastforce simp: covered_def)
qed

lemma covered_undisturbed:
  assumes "covered s out extra" and "session_ok s'" and "requests s' = requests s"
    and "\<And>k. undisturbed k s s'"
  shows "covered s' out extra"
  using assms(1-3) pending_undisturbed [OF assms(4)] by (auto simp: covered_def)

lemma rebinds_undisturbed: "rebinds target s s' \<Longrightarrow> undisturbed k s s'"
proof -
  assume re: "rebinds target s s'"
  have "claims s' k f c \<and> fmlookup (fids s') f = fmlookup (fids s) f" if "claims s k f c" for f c
    using that default_claims [of f s k c] re rebinds_same(8) [OF re, of f]
    by (metis claims_cong rebinds_def)
  then show ?thesis
    using rebinds_same [OF re] by (simp add: undisturbed_def)
qed

section \<open>Every step keeps the invariant\<close>

lemma admit_event:
  assumes "\<not> is_flush m" and "admit_after_begin m k s = (Inr event, s')"
  shows "\<exists>rq. event = Ev_Dispatch rq"
  using assms
  by (cases m) (auto simp: admit_defs result_simps split: if_splits)

lemma finish_with_reply_finished: "finish_with_reply k reply s = (Ev_Reply reply, finished k s)"
  by (simp add: finish_with_reply_def Let_def finished_def)

lemma unheld_finished: "unheld k s \<Longrightarrow> unheld k (finished k' s)"
  unfolding unheld_def
proof (intro allI notI)
  fix f c
  assume none: "\<forall>f c. \<not> claims s k f c" and "claims (finished k' s) k f c"
  then have "claims s k f c"
    by (cases c) (auto simp: release_one_simps split: option.splits if_splits)
  with none show False by blast
qed

lemma finished_unheld:
  "compact s \<Longrightarrow> unheld k s \<Longrightarrow> finished k s = s\<lparr>requests := snd (table_finish k (requests s))\<rparr>"
  unfolding finished_def by (rule release_unheld) (simp_all add: compact_def unheld_def del: claims.simps)

text \<open>An admitted flush leaves the session as if the flushed request, and then the flush itself, had
  been finished with their reservations released.\<close>

lemma flush_outcome:
  assumes ok: "session_ok s" and un: "unheld k s" and fl: "admit_flush k oldtag s = (r, s')"
  obtains "r = Inl (Error EBADTAG)" "s' = s"
  | "r = Inr (Ev_Flush (R_Flush (key_tag k)) Unknown)" "s' = finished k s"
  | kc where "r = Inr (Ev_Flush (R_Flush (key_tag k)) (Cancelled kc))" "key_tag kc = oldtag"
      "current (requests s) kc" "s' = finished k (finished kc s)"
proof (cases "oldtag = NOTAG")
  case True
  then have "r = Inl (Error EBADTAG) \<and> s' = s"
    using fl by (simp add: admit_flush_def table_flush_def)
  then show ?thesis using that(1) by blast
next
  case notag: False
  show ?thesis
  proof (cases "fmlookup (live (requests s)) oldtag")
    case None
    then have "fmdrop oldtag (live (requests s)) = live (requests s)"
      by (intro fmap_ext) simp
    then have "s' = s\<lparr>requests := snd (table_finish k (requests s))\<rparr>"
      and r: "r = Inr (Ev_Flush (R_Flush (key_tag k)) Unknown)"
      using fl notag None by (auto simp: admit_flush_def table_flush_def Let_def)
    then have "s' = finished k s"
      using finished_unheld [OF session_okD(2) [OF ok] un] by simp
    from that(2) [OF r this] show ?thesis .
  next
    case (Some kc)
    have kc: "key_tag kc = oldtag" "current (requests s) kc"
      using table_okD [OF session_okD(1) [OF ok] Some] Some by (simp_all add: current_def)
    have flush: "snd (table_flush oldtag (requests s)) = snd (table_finish kc (requests s))"
      by (rule flush_is_finish [OF session_okD(1) [OF ok] Some])
    have "s' = (finished kc s)\<lparr>requests := snd (table_finish k (requests (finished kc s)))\<rparr>"
      and r: "r = Inr (Ev_Flush (R_Flush (key_tag k)) (Cancelled kc))"
      using fl notag Some flush
      by (simp_all add: admit_flush_def table_flush_def Let_def finished_def)
    then have "s' = finished k (finished kc s)"
      using finished_unheld [OF session_okD(2) [OF session_ok_finished [OF ok]] unheld_finished [OF un]] by simp
    from that(3) [OF r kc this] show ?thesis .
  qed
qed

subsection \<open>Refused admissions\<close>

lemma absorbed_fun [absorb_rules]: "absorbed undo (\<lambda>s. return_s (h s) s)"
  by (simp add: absorbed_def stateful_simps)

fun is_retire :: "tmessage \<Rightarrow> bool" where
  "is_retire (T_Clunk _ _) = True"
| "is_retire (T_Remove _ _) = True"
| "is_retire _ = False"

lemma admit_absorbed:
  "\<not> is_flush m \<Longrightarrow> \<not> is_retire m \<Longrightarrow> absorbed (release_reservations k) (admit_after_begin m k)"
  by (cases m) (simp_all only: admit_after_begin.simps admit_defs is_flush.simps is_retire.simps
      not_True_eq_False, (intro absorb_rules fid_rollback.undone)+)

lemma refused_release:
  assumes "admit_after_begin m k s = (Inl e, s')"
  shows "release_reservations k s' = release_reservations k s"
proof (cases "is_flush m \<or> is_retire m")
  case False
  then show ?thesis
    using fid_rollback.undo_after [OF admit_absorbed assms] by blast
next
  case True
  have "s' = s"
    using True assms
  proof (cases m)
    case (T_Flush tag oldtag)
    then show ?thesis
      using assms by (cases "oldtag = NOTAG") (simp_all add: admit_flush_def table_flush_def Let_def)
  next
    case (T_Clunk tag f)
    show ?thesis
      by (rule retire_fid_cases [of k f s])
        (use assms T_Clunk in \<open>simp_all add: admit_clunk_def dispatch_def bind_s_def stateful_simps\<close>)
  next
    case (T_Remove tag f)
    show ?thesis
      by (rule retire_fid_cases [of k f s])
        (use assms T_Remove in \<open>simp_all add: admit_remove_def dispatch_def bind_s_def stateful_simps\<close>)
  qed simp_all
  then show ?thesis by simp
qed

lemma release_requests: "release_reservations k (s\<lparr>requests := t\<rparr>) = (release_reservations k s)\<lparr>requests := t\<rparr>"
  by (simp add: release_reservations_def Let_def)

lemma refused_finished:
  assumes "session_ok s" and "unheld k s" and "admit_after_begin m k (s\<lparr>requests := t\<rparr>) = (Inl e, s2)"
  shows "finished k s2 = s\<lparr>requests := snd (table_finish k t)\<rparr>"
proof -
  have rel: "release_reservations k s2 = release_reservations k (s\<lparr>requests := t\<rparr>)"
    by (rule refused_release [OF assms(3)])
  have req: "requests s2 = t"
    using arg_cong [OF rel, of requests] by simp
  have "release_reservations k s = s"
    by (rule release_unheld [OF session_okD(2) [OF assms(1)] assms(2)])
  then show ?thesis
    using rel by (simp add: finished_def release_requests req)
qed

lemma drop_fresh: "fmlookup m x = None \<Longrightarrow> fmdrop x (fmupd x y m) = m"
  by (intro fmap_ext) simp

lemma begin_finish: "table_begin tag t = (Inr k, t') \<Longrightarrow>
  snd (table_finish k t') = t\<lparr>next_generation := saturating_add (next_generation t) 1\<rparr>"
  by (cases t) (auto simp: table_begin_def table_finish_def Let_def drop_fresh split: if_splits)

subsection \<open>Steps\<close>

lemma admit_version_covered:
  assumes "covered s out {}" and "admit_version tag msz ver s = (event, s')"
  shows "covered s' out {} \<and> dispatched event = {}"
proof -
  have s': "s' = snd (reset_for_version msz ver s)" and ev: "dispatched event = {}"
    using assms(2) by (auto simp: admit_version_def split: prod.splits sum.splits)
  have req: "requests s' = table_reset (requests s)"
    by (simp add: s' reset_for_version_def invalidate_def Let_def split: option.split)
  have "key_generation (rq_key rq) < next_generation (requests s')" if "rq \<in> out" for rq
    using assms(1) that by (auto simp: covered_def req table_reset_def saturating_succ_less)
  moreover have "\<not> current (requests s') k" for k
    by (simp add: req table_reset_def current_def)
  moreover have "session_ok s'"
    unfolding s' by (rule session_ok_reset)
  ultimately show ?thesis
    using assms(1) ev by (simp add: covered_def)
qed

lemma admit_flush_covered:
  assumes "covered s1 out {k}" and "unheld k s1" and "admit_flush k oldtag s1 = (Inr event, s')"
  shows "covered s' out {} \<and> dispatched event = {}"
proof -
  have ok: "session_ok s1" using assms(1) by (simp add: covered_def)
  show ?thesis
  proof (rule flush_outcome [OF ok assms(2,3)])
    assume "Inr event = (Inr (Ev_Flush (R_Flush (key_tag k)) Unknown) :: server_event result)" "s' = finished k s1"
    then show ?thesis using covered_finished [OF assms(1), of k] by simp
  next
    fix kc
    assume ev: "Inr event = (Inr (Ev_Flush (R_Flush (key_tag k)) (Cancelled kc)) :: server_event result)"
      and s': "s' = finished k (finished kc s1)"
    have "covered s' out ({k} - {kc} - {k})"
      unfolding s' by (intro covered_finished assms(1))
    moreover have "{k} - {kc} - {k} = {}" by blast
    ultimately show ?thesis using ev by simp
  qed simp
qed

lemma admit_dispatch_covered:
  assumes cov: "covered s1 out {k}" and act: "active t k s1" and new: "k \<notin> rq_key ` out"
    and gen: "key_generation k < next_generation t" and nf: "\<not> is_flush m"
    and adm: "admit_after_begin m k s1 = (Inr event, s2)"
  shows "covered s2 (out \<union> dispatched event) {}"
proof -
  obtain rq where rq: "event = Ev_Dispatch rq"
    using admit_event [OF nf adm] by blast
  have act2: "active t k s2"
    using admit_active [OF nf, of t k] act adm unfolding maintains_def by (metis snd_conv)
  have und: "undisturbed k' s1 s2" for k'
    using admit_keeps [OF nf, of k' k] adm unfolding keeps_def by (metis snd_conv)
  have cov2: "covered s2 out {k}"
    by (rule covered_undisturbed [OF cov _ _ und]) (use act act2 in \<open>simp_all add: active_def\<close>)
  have "compact s1"
    using act session_okD(2) by (simp add: active_def)
  then have post: "rq_key rq = k" "pending_ok s2 k (rq_kind rq)"
    using admit_dispatched [of s1 m k rq s2] adm rq by simp_all
  have "inj_on rq_key (insert rq out)"
    using cov2 new post(1) by (auto simp: covered_def)
  then show ?thesis
    using cov2 post gen act2 by (auto simp: covered_def rq active_def)
qed

lemma admit_request_covered:
  assumes cov: "covered s out {}" and gen: "next_generation (requests s) \<noteq> - 1"
    and adm: "admit_request m s = (event, s')"
  shows "covered s' (out \<union> dispatched event) {}"
proof (cases "negotiated s")
  case False
  then show ?thesis using cov adm by (auto simp: admit_request_def)
next
  case neg: True
  have ok: "session_ok s" using cov by (simp add: covered_def)
  show ?thesis
  proof (cases "table_begin (t_tag m) (requests s)")
    case (Pair r t)
    show ?thesis
    proof (cases r)
      case (Inl e)
      then have "t = requests s" and "event = Ev_Reply (error_reply (t_tag m) e)" and "s' = s\<lparr>requests := t\<rparr>"
        using Pair adm neg by (auto simp: table_begin_def admit_request_def Let_def split: if_splits)
      then show ?thesis using cov by simp
    next
      case (Inr k)
      let ?s1 = "s\<lparr>requests := t\<rparr>"
      note bg = covered_begin [OF cov neg Pair [unfolded Inr] gen]
      obtain r2 s2 where after: "admit_after_begin m k ?s1 = (r2, s2)" by fastforce
      show ?thesis
      proof (cases r2)
        case (Inl e)
        then have ev: "event = Ev_Reply (error_reply (t_tag m) e)" and s': "s' = finished k s2"
          using adm neg Pair Inr after by (simp_all add: admit_request_def finish_with_reply_finished)
        have "s' = s\<lparr>requests := snd (table_finish k t)\<rparr>"
          unfolding s' by (rule refused_finished [OF ok bg(5) after [unfolded Inl]])
        also have "\<dots> = finished k ?s1"
          using finished_unheld [of ?s1 k] bg(5) session_okD(2) [OF ok]
          by (simp add: compact_def unheld_def del: claims.simps)
        finally show ?thesis
          using covered_finished [OF bg(1), of k] ev by simp
      next
        case (Inr event')
        then have ev: "event = event'" "s' = s2"
          using adm neg Pair \<open>r = Inr k\<close> after by (simp_all add: admit_request_def)
        show ?thesis
        proof (cases m)
          case (T_Flush tag oldtag)
          have "unheld k ?s1" using bg(5) by (simp add: unheld_def del: claims.simps)
          then show ?thesis
            using admit_flush_covered [OF bg(1)] after Inr ev T_Flush by auto
        qed (use admit_dispatch_covered [OF bg(1-4) _ after [unfolded Inr]] ev in simp_all)
      qed
    qed
  qed
qed

lemma admit_covered:
  assumes "covered s out {}" and "next_generation (requests s) \<noteq> - 1" and "admit m s = (event, s')"
  shows "covered s' (out \<union> dispatched event) {}"
proof (cases m)
  case (T_Version tag msz ver)
  then show ?thesis
    using admit_version_covered [OF assms(1)] assms(3) by (auto simp: admit_def)
qed (use admit_request_covered [OF assms(1,2), of m event s'] assms(3) in \<open>simp_all add: admit_def\<close>)

lemma session_ok_current_negotiated: "session_ok s \<Longrightarrow> current (requests s) k \<Longrightarrow> negotiated s"
  by (auto simp: session_ok_def current_def)

lemma coveredD:
  assumes "covered s out extra"
  shows "session_ok s" and "inj_on rq_key out"
    and "\<And>rq. rq \<in> out \<Longrightarrow> key_generation (rq_key rq) < next_generation (requests s)"
    and "\<And>rq. rq \<in> out \<Longrightarrow> current (requests s) (rq_key rq) \<Longrightarrow> pending_ok s (rq_key rq) (rq_kind rq)"
    and "\<And>k. current (requests s) k \<Longrightarrow> k \<in> extra \<or> k \<in> rq_key ` out"
  using assms unfolding covered_def by simp_all

lemma covered_drop:
  assumes cov: "covered s out {}" and nc: "\<not> current (requests s) (rq_key rq)"
  shows "covered s (out - {rq}) {}"
  unfolding covered_def
proof (intro conjI ballI allI impI)
  show "session_ok s" by (rule coveredD(1) [OF cov])
  show "inj_on rq_key (out - {rq})"
    by (rule inj_on_subset [OF coveredD(2) [OF cov]]) simp
next
  fix k
  assume k: "current (requests s) k"
  then obtain rq' where rq': "rq' \<in> out" "k = rq_key rq'"
    using coveredD(5) [OF cov] by auto
  with k nc have "rq' \<noteq> rq" by auto
  with rq' show "k \<in> {} \<or> k \<in> rq_key ` (out - {rq})" by simp
qed (use coveredD [OF cov] in simp_all)

lemma complete_covered:
  assumes cov: "covered s out {}" and rq: "rq \<in> out" and comp: "complete rq c s = (reply, s')"
  shows "covered s' (out - {rq}) {}"
proof (rule complete_cases [where rq = rq and c = c and s = s])
  assume nc: "\<not> current (requests s) (rq_key rq)" and "complete rq c s = (None, s)"
  then have "s' = s" using comp by simp
  then show ?thesis
    using covered_drop [OF cov nc] by simp
next
  fix reply' s''
  let ?k = "rq_key rq" and ?f = "finished (rq_key rq) s"
  assume cur: "current (requests s) ?k" and comp': "complete rq c s = (Some reply', s'')"
    and re: "rebinds (bound_fid (rq_kind rq)) ?f s''"
  have s': "s'' = s'" using comp comp' by simp
  have ok: "session_ok s" and pend: "pending_ok s ?k (rq_kind rq)"
    using cov rq cur by (auto simp: covered_def)
  have covf: "covered ?f out {}"
    using covered_finished [OF cov, of ?k] by simp
  have ok'': "session_ok s''"
    by (rule session_ok_rebinds [OF session_ok_finished [OF ok] _ re])
      (use session_ok_current_negotiated [OF ok cur] released_room(2) [OF ok pend] in simp_all)
  have "covered s'' out {}"
    by (rule covered_undisturbed [OF covf ok'' rebinds_same(6) [OF re] rebinds_undisturbed [OF re]])
  moreover have "\<not> current (requests s'') ?k"
    using rebinds_same(6) [OF re] finish_retires(2) by simp
  ultimately show ?thesis
    using covered_drop s' by blast
qed

lemma server_inv_step: "server_step sys sys' \<Longrightarrow> server_inv sys \<Longrightarrow> server_inv sys'"
proof (induction rule: server_step.induct)
  case (step_admit s m event s' out)
  then show ?case using admit_covered by (simp add: server_inv_def)
next
  case (step_complete rq out c s reply s')
  then show ?case using complete_covered by (simp add: server_inv_def)
qed

lemma server_inv_reachable: "reachable cfg sys \<Longrightarrow> server_inv sys"
  unfolding reachable_def
  by (induction rule: rtranclp_induct) (auto intro: server_inv_init server_inv_step)

end
