(* ===== verification/R9P_Server_Frame.thy ===== *)
theory R9P_Server_Frame
  imports R9P_Server_Step
begin

text \<open>
  The frame of the server's steps: admissions and completions change the request table by its own
  operations only, and the settings of the session only when a version is negotiated. The theory
  also holds a concrete run (version, attach, completion, flush) for the witnesses.
\<close>

section \<open>What a step does to the request table and the configuration\<close>

definition settings :: "session \<Rightarrow> server_config \<times> u32 \<times> bytes \<times> variant option \<times> bool" where
  "settings s = (config s, msize s, version s, sess_variant s, negotiated s)"

lemma settings_update [simp]:
  "settings (s\<lparr>requests := t\<rparr>) = settings s" "settings (s\<lparr>fids := m\<rparr>) = settings s"
  "settings (set_entry f r s) = settings s" "settings (release_reservations k s) = settings s"
  "settings (finished k s) = settings s"
  by (simp_all add: settings_def set_entry_def release_reservations_def Let_def)

lemma settings_reservations [simp]: "settings (s\<lparr>reservations := m\<rparr>) = settings s"
  by (simp add: settings_def)

lemma settings_eq:
  "settings s = settings s' \<longleftrightarrow>
     config s = config s' \<and> msize s = msize s' \<and> version s = version s' \<and> sess_variant s = sess_variant s'
     \<and> negotiated s = negotiated s'"
  by (simp add: settings_def)

lemma set_entry_requests [simp]: "requests (set_entry f r s) = requests s"
  by (simp add: set_entry_def)

abbreviation framing :: "request_table \<Rightarrow> server_config \<times> u32 \<times> bytes \<times> variant option \<times> bool \<Rightarrow> session \<Rightarrow> bool" where
  "framing t c \<equiv> \<lambda>s. requests s = t \<and> settings s = c"

lemma framing_reserve [maintain_rules]:
  "maintains (framing t c) (reserve_existing_fid k f)" "maintains (framing t c) (reserve_shared_fid k f)"
  "maintains (framing t c) (reserve_new_fid k f)"
  by (auto simp: maintains_def reserve_existing_fid_def reserve_shared_fid_def reserve_new_fid_def Let_def)

lemma framing_retire [maintain_rules]: "maintains (framing t c) (retire_fid k f)"
  unfolding maintains_def
proof (intro allI impI)
  fix s
  assume s: "framing t c s"
  show "framing t c (snd (retire_fid k f s))"
    by (rule retire_fid_cases [of k f s]) (use s in simp_all)
qed

lemma admit_framing: "\<not> is_flush m \<Longrightarrow> maintains (framing t c) (admit_after_begin m k)"
  by (cases m) (simp_all only: admit_after_begin.simps admit_defs is_flush.simps not_True_eq_False, (intro maintain_rules)+)


lemma flush_framing:
  "settings (snd (admit_flush k oldtag s)) = settings s \<and>
   (\<exists>ops. requests (snd (admit_flush k oldtag s)) = fold table_step ops (requests s))"
proof -
  have "requests (snd (admit_flush k oldtag s)) =
      fold table_step (if oldtag = NOTAG then [] else [Flush_op oldtag, Finish_op k]) (requests s)"
    by (auto simp: admit_flush_def table_flush_def Let_def release_reservations_def split: option.splits)
  moreover have "settings (snd (admit_flush k oldtag s)) = settings s"
    by (auto simp: admit_flush_def table_flush_def Let_def split: option.splits)
  ultimately show ?thesis by blast
qed

lemma admit_after_begin_framing:
  assumes "admit_after_begin m k s = (r, s')"
  shows "settings s' = settings s \<and> (\<exists>ops. requests s' = fold table_step ops (requests s))"
proof (cases "is_flush m")
  case True
  then obtain tag oldtag where "m = T_Flush tag oldtag" by (cases m) auto
  then show ?thesis
    using flush_framing [of k oldtag s] assms by simp
next
  case False
  then have "framing (requests s) (settings s) s'"
    using admit_framing [OF False, of "requests s" "settings s" k] assms unfolding maintains_def
    by (metis (mono_tags, lifting) snd_conv)
  then show ?thesis by (metis fold_simps(1))
qed

lemma table_run_trans:
  "\<exists>ops. t' = fold table_step ops t \<Longrightarrow> \<exists>ops. t'' = fold table_step ops t' \<Longrightarrow>
   \<exists>ops. t'' = fold table_step ops t"
  by (metis comp_apply fold_append)

lemma table_run_step: "\<exists>ops. table_step op t = fold table_step ops t"
  by (rule exI [of _ "[op]"]) simp

lemmas table_run_steps = table_run_step [of "Begin_op tag" for tag, simplified]
  table_run_step [of "Finish_op k" for k, simplified] table_run_step [of Reset_op, simplified]

lemma admit_request_framing:
  assumes "admit_request m s = (event, s')"
  shows "settings s' = settings s \<and> (\<exists>ops. requests s' = fold table_step ops (requests s))"
proof (cases "negotiated s")
  case False
  then show ?thesis
    using assms by (auto simp: admit_request_def intro: exI [of _ "[]"])
next
  case True
  obtain rk t where b: "table_begin (t_tag m) (requests s) = (rk, t)" by fastforce
  have t: "\<exists>ops. t = fold table_step ops (requests s)"
    using table_run_steps(1) [of "t_tag m" "requests s"] b by simp
  show ?thesis
  proof (cases rk)
    case (Inl e)
    then show ?thesis using assms b True t by (auto simp: admit_request_def)
  next
    case (Inr k)
    obtain r s2 where a: "admit_after_begin m k (s\<lparr>requests := t\<rparr>) = (r, s2)" by fastforce
    from admit_after_begin_framing [OF this] have s2: "settings s2 = settings s"
      and "\<exists>ops. requests s2 = fold table_step ops t" by simp_all
    with t have run: "\<exists>ops. requests s2 = fold table_step ops (requests s)"
      using table_run_trans by blast
    moreover have "\<exists>ops. requests (finished k s2) = fold table_step ops (requests s)"
      using run table_run_trans table_run_steps(2) [of k "requests s2"] by simp
    ultimately show ?thesis
      using assms b True Inr a s2
      by (cases r) (auto simp: admit_request_def finish_with_reply_finished)
  qed
qed

lemma admit_version_framing:
  assumes "admit_version tag msz ver s = (event, s')"
  shows "config s' = config s" and "requests s' = table_reset (requests s)"
    and "negotiated s' \<Longrightarrow> msize s' = min msz (max_msize (config s)) \<and> MIN_MSIZE \<le> msz"
    and "fids s' = fmempty" and "reservations s' = fmempty"
  using assms
  by (auto simp: admit_version_def reset_for_version_def invalidate_def Let_def not_less split: option.splits if_splits)

lemma admit_cases:
  assumes "admit m s = (event, s')"
  obtains tag msz ver where "m = T_Version tag msz ver" "admit_version tag msz ver s = (event, s')"
  | "\<not> is_version m" "admit_request m s = (event, s')"
proof (cases m)
  case (T_Version tag msz ver)
  show ?thesis by (rule that(1) [OF T_Version]) (use assms T_Version in \<open>simp add: admit_def\<close>)
qed (use that(2) assms in \<open>simp_all add: admit_def\<close>)

lemma admit_requests:
  assumes "admit m s = (event, s')"
  shows "\<exists>ops. requests s' = fold table_step ops (requests s)"
proof (rule admit_cases [OF assms])
  fix tag msz ver
  assume "admit_version tag msz ver s = (event, s')"
  from admit_version_framing(2) [OF this] table_run_steps(3) show ?thesis by metis
qed (use admit_request_framing in blast)

lemma complete_framing:
  assumes "complete rq c s = (reply, s')"
  shows "settings s' = settings s \<and> (\<exists>ops. requests s' = fold table_step ops (requests s))"
proof (rule complete_cases [where rq = rq and c = c and s = s])
  assume "complete rq c s = (None, s)"
  then show ?thesis using assms by (auto intro: exI [of _ "[]"])
next
  fix r s2
  assume "complete rq c s = (Some r, s2)"
    and re: "rebinds (bound_fid (rq_kind rq)) (finished (rq_key rq) s) s2"
  then have "s2 = s'" using assms by simp
  with rebinds_same [OF re] table_run_steps(2) [of "rq_key rq" "requests s"] show ?thesis
    by (simp add: settings_eq)
qed


lemma server_step_cases:
  assumes "server_step (s, out) (s', out')"
  obtains m event where "next_generation (requests s) \<noteq> - 1" "admit m s = (event, s')" "out' = out \<union> dispatched event"
  | rq c reply where "rq \<in> out" "complete rq c s = (reply, s')" "out' = out - {rq}"
  by (rule server_stepE [OF assms]) (use that in blast)+

section \<open>A concrete run\<close>

text \<open>The run behind the witnesses, for either variant: version negotiation, an attach, an open of the root
  directory and a read of it; and a flush of the attach.\<close>

definition sample_config :: "variant \<Rightarrow> server_config" where
  "sample_config v = ServerConfig_default\<lparr>cfg_variant := v\<rparr>"

definition sample_negotiated :: "variant \<Rightarrow> session" where
  "sample_negotiated v =
     \<lparr>config = sample_config v, msize = 8192, version = wire_name v, sess_variant = Some v, negotiated = True,
      fids = fmempty, reservations = fmempty, requests = \<lparr>next_generation = 1, live = fmempty\<rparr>\<rparr>"

definition sample_attach :: server_request where
  "sample_attach = \<lparr>rq_key = \<lparr>key_tag = 3, key_generation = 1\<rparr>, rq_kind = K_Attach 5 NOFID (str ''glenda'') []\<rparr>"

definition sample_attaching :: "variant \<Rightarrow> session" where
  "sample_attaching v = (sample_negotiated v)
     \<lparr>reservations := fmupd 5 (excl_entry (rq_key sample_attach) True) fmempty,
      requests := \<lparr>next_generation = 2, live = fmupd 3 (rq_key sample_attach) fmempty\<rparr>\<rparr>"

definition sample_attached :: "variant \<Rightarrow> session" where
  "sample_attached v = (sample_negotiated v)
     \<lparr>fids := fmupd 5 (FidState_new (Qid_dir 1)) fmempty, requests := \<lparr>next_generation = 2, live = fmempty\<rparr>\<rparr>"

definition sample_open :: server_request where
  "sample_open = \<lparr>rq_key = \<lparr>key_tag = 4, key_generation = 2\<rparr>, rq_kind = K_Open 5 (Qid_dir 1) OREAD\<rparr>"

definition sample_opening :: "variant \<Rightarrow> session" where
  "sample_opening v = (sample_attached v)
     \<lparr>reservations := fmupd 5 (excl_entry (rq_key sample_open) False) fmempty,
      requests := \<lparr>next_generation = 3, live = fmupd 4 (rq_key sample_open) fmempty\<rparr>\<rparr>"

definition sample_opened :: "variant \<Rightarrow> session" where
  "sample_opened v = (sample_negotiated v)
     \<lparr>fids := fmupd 5 (FidState_opened (Qid_dir 1) OREAD) fmempty, requests := \<lparr>next_generation = 3, live = fmempty\<rparr>\<rparr>"

definition sample_read :: server_request where
  "sample_read = \<lparr>rq_key = \<lparr>key_tag = 6, key_generation = 3\<rparr>, rq_kind = K_Read 5 (Qid_dir 1) 0 8181\<rparr>"

definition sample_reading :: "variant \<Rightarrow> session" where
  "sample_reading v = (sample_opened v)
     \<lparr>reservations := fmupd 5 (excl_entry (rq_key sample_read) False) fmempty,
      requests := \<lparr>next_generation = 4, live = fmupd 6 (rq_key sample_read) fmempty\<rparr>\<rparr>"

definition sample_flushed :: "variant \<Rightarrow> session" where
  "sample_flushed v = (sample_negotiated v)\<lparr>requests := \<lparr>next_generation = 3, live = fmempty\<rparr>\<rparr>"

lemmas sample_defs = sample_config_def sample_negotiated_def sample_attach_def sample_attaching_def
  sample_attached_def sample_open_def sample_opening_def sample_opened_def sample_read_def sample_reading_def
  sample_flushed_def

lemmas admit_eval = admit_def admit_request_def table_begin_def NOTAG_def Let_def saturating_add_def set_entry_def
  dispatch_def bind_s_def stateful_simps ensure_def get_fid_def ensure_available_def and_then_def ok_or_def
  reservation_entry_def reservations_default_def reservations_empty_def

lemma sample_version:
  "admit (T_Version NOTAG 8192 (wire_name v)) (Session_new (sample_config v)) =
     (Ev_Reply (R_Version NOTAG 8192 (wire_name v)), sample_negotiated v)"
  by (cases v) (simp_all add: sample_defs admit_def admit_version_def reset_for_version_def invalidate_def Let_def
      Session_new_def ServerConfig_default_def variant_accept_def plain_request_def MIN_MSIZE_def MAX_MSIZE_def table_reset_def
      RequestTable_new_def saturating_add_def)

lemma sample_admit_attach:
  "admit (T_Attach 3 5 NOFID (str ''glenda'') []) (sample_negotiated v) = (Ev_Dispatch sample_attach, sample_attaching v)"
  by (simp add: sample_defs admit_eval admit_attach_def authorize_uname_def ServerConfig_default_def reserve_new_fid_def
      contains_fid_def fid_count_empty)

lemma sample_admit_open:
  "admit (T_Open 4 5 OREAD) (sample_attached v) = (Ev_Dispatch sample_open, sample_opening v)"
  by (simp add: sample_defs admit_eval admit_open_def reserve_existing_fid_def validate_open_def FidState_new_def
      mode_is_valid_def OREAD_def KNOWN_MODE_BITS_def is_directory_mode_def is_dir_def Qid_dir_def Qid_new_def QTDIR_def
      ACCESS_MASK_def OTRUNC_def)

lemma sample_admit_read:
  "admit (T_Read 6 5 0 9000) (sample_opened v) = (Ev_Dispatch sample_read, sample_reading v)"
  by (simp add: sample_defs admit_eval admit_read_def reserve_existing_fid_def validate_read_def FidState_opened_def
      OREAD_def permits_read_def is_dir_def is_auth_def Qid_dir_def Qid_new_def QTDIR_def QTAUTH_def ACCESS_MASK_def
      clamp_read_count_def saturating_sub_def RREAD_HEADER_SIZE_def)

lemma sample_finished:
  "finished (rq_key sample_attach) (sample_attaching v) = (sample_negotiated v)\<lparr>requests := \<lparr>next_generation = 2, live = fmempty\<rparr>\<rparr>"
  "finished (rq_key sample_open) (sample_opening v) =
     (sample_attached v)\<lparr>requests := \<lparr>next_generation = 3, live = fmempty\<rparr>\<rparr>"
  by (auto simp: finished_def sample_defs table_finish_def release_reservations_def Let_def release_one_def
      reservations_empty_def intro!: fmap_ext)

lemmas complete_eval = complete_def table_finish_def finished_def rq_tag_def apply_completion_def
  negotiated_variant_def match_completion_def validate_qid_variant_def insert_new_fid_def bind_fid_def
  ensure_unreserved_def bind_s_def stateful_simps ensure_def

lemma sample_complete_attach:
  "complete sample_attach (Inr (C_Attach (Qid_dir 1))) (sample_attaching v) = (Some (R_Attach 3 (Qid_dir 1)), sample_attached v)"
  using sample_finished(1) [of v]
  by (simp add: sample_defs complete_eval complete_attach_def ServerConfig_default_def fcard.rep_eq is_symlink_def
      Qid_dir_def Qid_new_def QTDIR_def QTSYMLINK_def)

lemma sample_complete_open:
  "complete sample_open (Inr (C_Open \<lparr>of_qid = Qid_dir 1, of_iounit = 0\<rparr>)) (sample_opening v) =
     (Some (R_Open 4 (Qid_dir 1) 0), sample_opened v)"
proof -
  have "fmupd 5 a (fmupd 5 b fmempty) = fmupd 5 a fmempty" for a b :: fid_state
    by (intro fmap_ext) simp
  then show ?thesis
    using sample_finished(2) [of v]
    by (simp add: sample_defs complete_eval complete_open_def clamp_iounit_def is_symlink_def
        Qid_dir_def Qid_new_def QTDIR_def QTSYMLINK_def)
qed

lemma sample_flush:
  "admit (T_Flush 8 3) (sample_attaching v) = (Ev_Flush (R_Flush 8) (Cancelled (rq_key sample_attach)), sample_flushed v)"
proof -
  have "fmdrop 8 (fmdrop 3 (fmupd 8 k8 (fmupd 3 k3 fmempty))) = (fmempty :: (tag, request_key) fmap)" for k8 k3
    by (intro fmap_ext) simp
  moreover have "fmfilter P (fmmap g (fmupd 5 x fmempty)) = fmempty" if "\<not> P (5 :: fid)" for P g x
    using that by (intro fmap_ext) simp
  ultimately show ?thesis
    by (simp add: sample_defs admit_eval admit_flush_def table_flush_def table_finish_def release_reservations_def
        release_one_def)
qed

lemma reachable_admit:
  "reachable cfg (s, out) \<Longrightarrow> next_generation (requests s) \<noteq> - 1 \<Longrightarrow> admit m s = (event, s') \<Longrightarrow>
   reachable cfg (s', out \<union> dispatched event)"
  using step_admit [of s m event s' out] by (auto simp: reachable_def)

lemma reachable_complete:
  "reachable cfg (s, out) \<Longrightarrow> rq \<in> out \<Longrightarrow> complete rq c s = (reply, s') \<Longrightarrow> reachable cfg (s', out - {rq})"
  using step_complete [of rq out c s reply s'] by (auto simp: reachable_def)

lemma sample_reachable:
  "reachable (sample_config v) (sample_negotiated v, {})"
  "reachable (sample_config v) (sample_attaching v, {sample_attach})"
  "reachable (sample_config v) (sample_attached v, {})"
  "reachable (sample_config v) (sample_opening v, {sample_open})"
  "reachable (sample_config v) (sample_opened v, {})"
  "reachable (sample_config v) (sample_reading v, {sample_read})"
proof -
  have "reachable (sample_config v) (Session_new (sample_config v), {})"
    by (simp add: reachable_def)
  from reachable_admit [OF this _ sample_version] show r1: "reachable (sample_config v) (sample_negotiated v, {})"
    by (simp add: Session_new_def RequestTable_new_def)
  from reachable_admit [OF this _ sample_admit_attach]
  show r2: "reachable (sample_config v) (sample_attaching v, {sample_attach})"
    by (simp add: sample_negotiated_def)
  from reachable_complete [OF this _ sample_complete_attach] show r3: "reachable (sample_config v) (sample_attached v, {})"
    by simp
  from reachable_admit [OF this _ sample_admit_open] show r4: "reachable (sample_config v) (sample_opening v, {sample_open})"
    by (simp add: sample_attached_def)
  from reachable_complete [OF this _ sample_complete_open] show r5: "reachable (sample_config v) (sample_opened v, {})"
    by simp
  from reachable_admit [OF this _ sample_admit_read] show "reachable (sample_config v) (sample_reading v, {sample_read})"
    by (simp add: sample_opened_def)
qed

end
