(* ===== verification/R9P_Server_Spec.thy ===== *)
theory R9P_Server_Spec
  imports R9P_Server_Frame
begin

text \<open>
  What a completion means, without bookkeeping: \<open>completion_spec\<close> gives the reply and the fid
  that is bound, from the completion alone. In a session where the request's fids are free for it,
  the server's \<open>match_completion\<close> is exactly that.
\<close>

section \<open>Live completions\<close>

text \<open>What a completion means to the client, without any bookkeeping: the reply and the fid it binds, or
  the reason why the completion itself is not acceptable. Fids are looked up by a total
  function: there is no table, no reservation and no limit that could get in the way.\<close>

definition opened_spec ::
  "variant \<Rightarrow> u32 \<Rightarrow> fid \<Rightarrow> u8 \<Rightarrow> open_file \<Rightarrow> (qid \<Rightarrow> u32 \<Rightarrow> rmessage) \<Rightarrow> (rmessage \<times> (fid \<times> fid_state) option) result" where
  "opened_spec v msz f mode opened reply =
     map_ok (\<lambda>_. (reply (of_qid opened) (clamp_iounit msz (of_iounit opened)),
         Some (f, FidState_opened (of_qid opened) mode)))
       (validate_qid_variant v (of_qid opened))"

definition walk_spec ::
  "variant \<Rightarrow> tag \<Rightarrow> fid \<Rightarrow> fid \<Rightarrow> qid \<Rightarrow> bytes list \<Rightarrow> qid list \<Rightarrow> (rmessage \<times> (fid \<times> fid_state) option) result" where
  "walk_spec v tag f newfid start wnames qids =
     (if length qids > length wnames then Inl (Error_from ''walk returned too many qids'')
      else and_then (for_each (validate_qid_variant v) qids) (\<lambda>_.
        if wnames = [] then Inr (R_Walk tag [], if newfid = f then None else Some (newfid, FidState_new start))
        else if qids = [] then Inl (Error ENOENT)
        else Inr (R_Walk tag qids,
          if length qids = length wnames then Some (newfid, FidState_new (last qids)) else None)))"

definition read_spec ::
  "variant \<Rightarrow> tag \<Rightarrow> fid_state \<Rightarrow> fid \<Rightarrow> qid \<Rightarrow> u64 \<Rightarrow> u32 \<Rightarrow> read_data \<Rightarrow> (rmessage \<times> (fid \<times> fid_state) option) result" where
  "read_spec v tag st f q offset count rd =
     and_then (read_payload v offset count rd) (\<lambda>data.
       if is_dir q then
         map_ok (\<lambda>next_offset. (R_Read tag data, Some (f, with_directory_offset st next_offset)))
           (ok_or (checked_add offset (word_of_nat (length data))) (Error_from ''directory offset overflow''))
       else Inr (R_Read tag data, None))"

definition completion_spec ::
  "variant \<Rightarrow> u32 \<Rightarrow> (fid \<Rightarrow> fid_state) \<Rightarrow> tag \<Rightarrow> server_request_kind \<Rightarrow> server_completion \<Rightarrow>
    (rmessage \<times> (fid \<times> fid_state) option) result" where
  "completion_spec v msz state tag kind c =
     (case (kind, c) of
        (K_Auth afid _ _, C_Auth q) \<Rightarrow>
          and_then (ensure (is_auth q) (Error ENOAUTH)) (\<lambda>_.
            map_ok (\<lambda>_. (R_Auth tag q, Some (afid, FidState_opened q ORDWR))) (validate_qid_variant v q))
      | (K_Attach f _ _ _, C_Attach q) \<Rightarrow>
          map_ok (\<lambda>_. (R_Attach tag q, Some (f, FidState_new q))) (validate_qid_variant v q)
      | (K_Walk f newfid start wnames, C_Walk qids) \<Rightarrow> walk_spec v tag f newfid start wnames qids
      | (K_Open f _ mode, C_Open opened) \<Rightarrow> opened_spec v msz f mode opened (R_Open tag)
      | (K_Create f _ _ _ mode, C_Create opened) \<Rightarrow> opened_spec v msz f mode opened (R_Create tag)
      | (K_Read f q offset count, C_Read rd) \<Rightarrow> read_spec v tag (state f) f q offset count rd
      | (K_Write _ _ _ data, C_Write count) \<Rightarrow> map_ok (\<lambda>r. (r, None)) (complete_write tag data count)
      | (K_Clunk _ _, C_Clunk) \<Rightarrow> Inr (R_Clunk tag, None)
      | (K_Remove _ _, C_Remove) \<Rightarrow> Inr (R_Remove tag, None)
      | (K_Stat _ _, C_Stat st) \<Rightarrow> map_ok (\<lambda>_. (R_Stat tag st, None)) (validate_stat_variant v st)
      | (K_Wstat _ _ _, C_Wstat) \<Rightarrow> Inr (R_Wstat tag, None)
      | (K_RenameAt _ _ _ _ _ _, C_RenameAt) \<Rightarrow> Inr (R_RenameAt tag, None)
      | (K_Referrals _ _, C_Referrals rs) \<Rightarrow>
          map_ok (\<lambda>_. (R_Referrals tag rs, None)) (for_each referral_validate rs)
      | _ \<Rightarrow> Inl completion_mismatch)"

definition apply_spec :: "(rmessage \<times> (fid \<times> fid_state) option) result \<Rightarrow> (session, rmessage) fallible" where
  "apply_spec r s =
     (case r of
        Inl e \<Rightarrow> (Inl e, s)
      | Inr (reply, None) \<Rightarrow> (Inr reply, s)
      | Inr (reply, Some (f, st)) \<Rightarrow> (Inr reply, s\<lparr>fids := fmupd f st (fids s)\<rparr>))"

text \<open>With the fid free of reservations and room in the table, binding succeeds.\<close>

definition free_for :: "fid \<Rightarrow> session \<Rightarrow> bool" where
  "free_for f s \<longleftrightarrow>
     reservation_entry f s = reservations_default
     \<and> (fmlookup (fids s) f \<noteq> None \<or> fid_count s < max_fids (config s))"

lemma bind_free: "free_for f s \<Longrightarrow> bind_fid f st s = (Inr (), s\<lparr>fids := fmupd f st (fids s)\<rparr>)"
proof -
  assume free: "free_for f s"
  then have "ensure_unreserved f s = Inr ()"
    using ensure_unreserved_Inr [of f s "()"] by (simp add: free_for_def)
  moreover have "\<not> (fmlookup (fids s) f = None \<and> fcard (fmdom (fids s)) \<ge> max_fids (config s))"
    using free by (auto simp: free_for_def fid_count_def)
  ultimately show ?thesis
    by (simp add: bind_fid_def bind_s_def stateful_simps ensure_def del: de_Morgan_conj)
qed

lemma insert_free:
  "free_for f s \<Longrightarrow> fmlookup (fids s) f = None \<Longrightarrow> insert_new_fid f st s = (Inr (), s\<lparr>fids := fmupd f st (fids s)\<rparr>)"
  by (simp add: insert_new_fid_def bind_free bind_s_def stateful_simps ensure_def)


text \<open>What completion needs of the session it runs in.\<close>

definition ready :: "server_request_kind \<Rightarrow> session \<Rightarrow> bool" where
  "ready kind s \<longleftrightarrow>
     (\<forall>f. bound_fid kind = Some f \<longrightarrow> free_for f s)
     \<and> (case kind of
          K_Auth afid _ _ \<Rightarrow> fmlookup (fids s) afid = None
        | K_Attach f _ _ _ \<Rightarrow> fmlookup (fids s) f = None
        | K_Walk f newfid _ _ \<Rightarrow> newfid \<noteq> f \<longrightarrow> fmlookup (fids s) newfid = None
        | K_Read f q _ _ \<Rightarrow> is_dir q \<longrightarrow> fmlookup (fids s) f \<noteq> None
        | _ \<Rightarrow> True)"

lemmas spec_simps = apply_spec_def map_ok_def and_then_def bind_s_def stateful_simps ensure_def

lemma complete_walk_spec:
  assumes "ready (K_Walk f newfid start wnames) s"
  shows "complete_walk v tag f newfid start wnames qids s = apply_spec (walk_spec v tag f newfid start wnames qids) s"
proof -
  have free: "free_for newfid s" and new: "newfid \<noteq> f \<Longrightarrow> fmlookup (fids s) newfid = None"
    using assms by (simp_all add: ready_def)
  have last: "qids ! (length qids - 1) = last qids" if "qids \<noteq> []"
    using that by (simp add: last_conv_nth)
  have bind: "(if newfid = f then bind_fid f st else insert_new_fid newfid st) s =
      (Inr (), s\<lparr>fids := fmupd newfid st (fids s)\<rparr>)" for st
    using bind_free [OF free] insert_free [OF free new] by (cases "newfid = f") simp_all
  show ?thesis
  proof (cases "for_each (validate_qid_variant v) qids")
    case (Inl e)
    then show ?thesis
      by (simp add: complete_walk_def walk_spec_def spec_simps)
  next
    case (Inr u)
    show ?thesis
    proof (cases "wnames = [] \<or> qids = [] \<or> length qids \<noteq> length wnames")
      case True
      then show ?thesis
        using Inr insert_free [OF free new]
        by (auto simp: complete_walk_def walk_spec_def spec_simps simp del: for_each_Inr_iff)
    next
      case False
      then show ?thesis
        using Inr bind last
        by (simp add: complete_walk_def walk_spec_def Let_def spec_simps del: for_each_Inr_iff)
    qed
  qed
qed

lemma complete_read_spec:
  assumes "ready (K_Read f q offset count) s"
  shows "complete_read v tag f q offset count rd s =
    apply_spec (read_spec v tag (the (fmlookup (fids s) f)) f q offset count rd) s"
proof (cases "is_dir q")
  case True
  then have free: "free_for f s" and "fmlookup (fids s) f \<noteq> None"
    using assms by (simp_all add: ready_def)
  then obtain st where st: "fmlookup (fids s) f = Some st" by blast
  have get: "get_fid f s = Inr st"
    using free st by (simp add: get_fid_Inr free_for_def reservations_default_def)
  show ?thesis
    using True free get st
    by (auto simp: complete_read_def read_spec_def spec_simps bind_free ok_or_def split: sum.split option.split)
next
  case False
  then show ?thesis
    by (auto simp: complete_read_def read_spec_def spec_simps split: sum.split)
qed

lemma match_completion_spec:
  assumes "ready kind s"
  shows "match_completion v tag kind c s =
    apply_spec (completion_spec v (msize s) (\<lambda>f. the (fmlookup (fids s) f)) tag kind c) s"
proof (cases kind)
  case (K_Walk f newfid start wnames)
  then show ?thesis
    using complete_walk_spec assms
    by (cases c) (simp_all add: match_completion_def completion_spec_def spec_simps)
next
  case (K_Read f q offset count)
  then show ?thesis
    using complete_read_spec assms
    by (cases c) (simp_all add: match_completion_def completion_spec_def spec_simps)
next
  case (K_Auth afid uname aname)
  then have "free_for afid s" "fmlookup (fids s) afid = None"
    using assms by (simp_all add: ready_def)
  then show ?thesis
    using K_Auth by (cases c)
      (auto simp: match_completion_def completion_spec_def complete_auth_def spec_simps insert_free split: sum.split)
next
  case (K_Attach f afid uname aname)
  then have "free_for f s" "fmlookup (fids s) f = None"
    using assms by (simp_all add: ready_def)
  then show ?thesis
    using K_Attach by (cases c)
      (auto simp: match_completion_def completion_spec_def complete_attach_def spec_simps insert_free split: sum.split)
next
  case (K_Open f q mode)
  then have "free_for f s"
    using assms by (simp add: ready_def)
  then show ?thesis
    using K_Open by (cases c)
      (auto simp: match_completion_def completion_spec_def complete_open_def opened_spec_def spec_simps bind_free split: sum.split)
next
  case (K_Create f q name perm mode)
  then have "free_for f s"
    using assms by (simp add: ready_def)
  then show ?thesis
    using K_Create by (cases c)
      (auto simp: match_completion_def completion_spec_def complete_open_def opened_spec_def spec_simps bind_free split: sum.split)
next
  case (K_Stat f q)
  then show ?thesis
  proof (cases c)
    case (C_Stat st)
    with K_Stat show ?thesis
      by (cases "validate_stat_variant v st") (simp_all add: match_completion_def completion_spec_def spec_simps)
  qed (simp_all add: match_completion_def completion_spec_def spec_simps)
next
  case (K_Referrals f q)
  then show ?thesis
  proof (cases c)
    case (C_Referrals rs)
    with K_Referrals show ?thesis
      by (cases "for_each referral_validate rs")
        (simp_all add: match_completion_def completion_spec_def spec_simps del: for_each_Inr_iff)
  qed (simp_all add: match_completion_def completion_spec_def spec_simps)
qed (cases c; simp add: match_completion_def completion_spec_def complete_write_def spec_simps)+

lemma pending_ready:
  assumes "session_ok s" and "pending_ok s k kind"
  shows "ready kind (finished k s)"
proof -
  have "free_for f (finished k s)" if "bound_fid kind = Some f" for f
    using released_room [OF assms that] by (simp add: free_for_def)
  then show ?thesis
    using assms(2) by (cases kind) (auto simp: ready_def holds_new_def holds_fid_def)
qed

lemma complete_live:
  assumes ok: "session_ok s" and pend: "pending_ok s (rq_key rq) (rq_kind rq)"
    and live: "current (requests s) (rq_key rq)" and v: "sess_variant s = Some v"
  shows "complete rq (Inr c) s =
    (case apply_spec (completion_spec v (msize s) (\<lambda>f. the (fmlookup (fids s) f)) (rq_tag rq) (rq_kind rq) c)
        (finished (rq_key rq) s) of
       (Inr reply, s') \<Rightarrow> (Some reply, s')
     | (Inl e, s') \<Rightarrow> (Some (error_reply (rq_tag rq) e), s'))"
proof -
  have tf: "table_finish (rq_key rq) (requests s) = (True, snd (table_finish (rq_key rq) (requests s)))"
    using live by (simp add: table_finish_def current_def)
  have "complete rq (Inr c) s =
    (case apply_completion (rq_tag rq) (rq_kind rq) c (finished (rq_key rq) s) of
       (Inr reply, s') \<Rightarrow> (Some reply, s')
     | (Inl e, s') \<Rightarrow> (Some (error_reply (rq_tag rq) e), s'))"
    unfolding complete_def by (subst tf) (simp add: finished_def Let_def)
  also have "apply_completion (rq_tag rq) (rq_kind rq) c (finished (rq_key rq) s) =
    match_completion v (rq_tag rq) (rq_kind rq) c (finished (rq_key rq) s)"
    using v by (simp add: apply_completion_def negotiated_variant_def bind_s_def stateful_simps)
  finally show ?thesis
    by (simp add: match_completion_spec [OF pending_ready [OF ok pend]])
qed

end
