(* ===== verification/R9P_Server_Props.thy ===== *)
theory R9P_Server_Props
  imports R9P_Server_Spec
begin

text \<open>
  What the server core promises, for every interleaving of admissions and completions: fids are
  reserved by live requests only and never by two requests that exclude each other, a refused
  request leaves no trace, a flushed request is never answered, the bookkeeping of a live
  completion cannot fail, replies respect the message size and the dialect, and the synchronous
  server answers every request once and is then at rest.
\<close>

section \<open>Invariants of every interleaving\<close>

lemma reachable_covered: "reachable cfg (s, out) \<Longrightarrow> covered s out {}"
  using server_inv_reachable [of cfg "(s, out)"] by (simp add: server_inv_def)

text \<open>C1: In every state the server can reach, by any interleaving of admitted messages and completed
  requests, a reservation on a fid belongs to a live request, an exclusive reservation excludes all
  others, a fid reserved for a new file does not exist yet and one shared does, the fids in
  use and reserved stay within the limit, and every live request has been dispatched exactly once.\<close>

theorem reservations_belong_to_live_requests:
  assumes "reachable cfg (s, out)"
  shows "(case exclusive (reservation_entry f s) of
        None \<Rightarrow> True
      | Some x \<Rightarrow> shared (reservation_entry f s) = {||} \<and> current (requests s) (res_request x)
          \<and> (new_fid x \<longrightarrow> fmlookup (fids s) f = None))
    \<and> (\<forall>k. k |\<in>| shared (reservation_entry f s) \<longrightarrow> current (requests s) k \<and> fmlookup (fids s) f \<noteq> None)
    \<and> fid_count s \<le> max_fids (config s)
    \<and> (\<forall>k. current (requests s) k \<longrightarrow> (\<exists>!rq. rq \<in> out \<and> rq_key rq = k))"
proof -
  note cov = reachable_covered [OF assms]
  note ok = coveredD(1) [OF cov]
  have "\<exists>!rq. rq \<in> out \<and> rq_key rq = k" if "current (requests s) k" for k
    using coveredD(5) [OF cov that] inj_onD [OF coveredD(2) [OF cov]] by (auto intro!: ex1I)
  then show ?thesis
    using session_okD(3) [OF ok, of f] session_okD(4) [OF ok]
    by (auto simp: held_ok_def split: option.splits)
qed

theorem reservations_belong_to_live_requests_witness:
  "current (requests (sample_attaching R)) (rq_key sample_attach) \<and> fid_count (sample_attaching R) \<le> max_fids (sample_config R)"
  using reservations_belong_to_live_requests [OF sample_reachable(2) [of R], of 5]
  by (simp add: sample_defs reservation_entry_def)

lemma covered_quiescent:
  assumes cov: "covered s {} {}"
  shows "live (requests s) = fmempty" and "reservations s = fmempty"
proof -
  note ok = coveredD(1) [OF cov]
  have none: "\<not> current (requests s) k" for k
    using coveredD(5) [OF cov, of k] by auto
  have live: "fmlookup (live (requests s)) tag = None" for tag
    using none table_okD [OF session_okD(1) [OF ok], of tag]
    by (cases "fmlookup (live (requests s)) tag") (auto simp: current_def)
  have "reservation_entry f s = reservations_default" for f
    using session_okD(3) [OF ok, of f] none
    by (auto simp: held_ok_def intro!: fid_reservations_eqI)
  then have "fmlookup (reservations s) f = None" for f
    using lookup_entry [OF session_okD(2) [OF ok], of f] by simp
  with live show "live (requests s) = fmempty" and "reservations s = fmempty"
    by (auto intro!: fmap_ext)
qed

text \<open>Once every dispatched request has been completed, nothing is left behind: no tag is live and no
  fid is reserved.\<close>

theorem quiescent_server_is_clean:
  assumes "reachable cfg (s, {})"
  shows "live (requests s) = fmempty \<and> reservations s = fmempty"
  using covered_quiescent [OF reachable_covered [OF assms]] by blast

theorem quiescent_server_is_clean_witness:
  "fids (sample_attached R) \<noteq> fmempty \<and> live (requests (sample_attached R)) = fmempty \<and> reservations (sample_attached R) = fmempty"
proof -
  have "fmlookup (fids (sample_attached R)) 5 \<noteq> None" by (simp add: sample_defs)
  then have "fids (sample_attached R) \<noteq> fmempty" by auto
  then show ?thesis
    using quiescent_server_is_clean [OF sample_reachable(3)] by blast
qed

section \<open>Refusal leaves no trace\<close>

lemma admitted_not_reply:
  assumes "admit_after_begin m k s = (Inr event, s')"
  shows "event \<noteq> Ev_Reply reply"
proof (cases "is_flush m")
  case True
  then obtain tag oldtag where "m = T_Flush tag oldtag" by (cases m) auto
  then show ?thesis
    using assms by (auto simp: admit_flush_def table_flush_def Let_def split: if_splits)
next
  case False
  then show ?thesis
    using admit_event [OF False assms] by blast
qed

lemma same_generation: "\<exists>g. s = s\<lparr>requests := (requests s)\<lparr>next_generation := g\<rparr>\<rparr>"
  by (rule exI [of _ "next_generation (requests s)"]) simp

text \<open>C24: A request that the server refuses is answered with an error on its own tag and changes nothing:
  the fids, the reservations, the live requests and the negotiated settings are as before, only the
  generation counter may have moved on.\<close>

theorem refused_request_changes_nothing:
  assumes "reachable cfg (s, out)" and "\<not> is_version m" and "admit m s = (Ev_Reply reply, s')"
  shows "(\<exists>g. s' = s\<lparr>requests := (requests s)\<lparr>next_generation := g\<rparr>\<rparr>)
    \<and> (\<exists>ename. reply = R_Error (t_tag m) ename)"
proof -
  have ok: "session_ok s"
    by (rule coveredD(1) [OF reachable_covered [OF assms(1)]])
  have adm: "admit_request m s = (Ev_Reply reply, s')"
    by (rule admit_cases [OF assms(3)]) (use assms(2) in auto)
  obtain rk t where b: "table_begin (t_tag m) (requests s) = (rk, t)" by fastforce
  show ?thesis
  proof (cases "negotiated s \<and> (\<exists>k. rk = Inr k)")
    case False
    have "\<exists>e. reply = error_reply (t_tag m) e \<and> s' = s"
    proof (cases "negotiated s")
      case True
      then obtain e where "rk = Inl e" using False by (cases rk) auto
      moreover from this have "t = requests s"
        using b by (auto simp: table_begin_def Let_def split: if_splits)
      ultimately show ?thesis using adm b True by (auto simp: admit_request_def)
    qed (use adm in \<open>auto simp: admit_request_def\<close>)
    then show ?thesis
      using same_generation by (auto simp: error_reply_def)
  next
    case True
    then obtain k where neg: "negotiated s" and b': "table_begin (t_tag m) (requests s) = (Inr k, t)"
      using b by auto
    obtain r s2 where a: "admit_after_begin m k (s\<lparr>requests := t\<rparr>) = (r, s2)" by fastforce
    have "\<exists>e. r = Inl e"
      using adm a b' neg admitted_not_reply [of m k "s\<lparr>requests := t\<rparr>"] by (cases r) (auto simp: admit_request_def)
    then obtain e where r: "r = Inl e" by blast
    have "finished k s2 = s\<lparr>requests := snd (table_finish k t)\<rparr>"
      using refused_finished [OF ok session_ok_begin(3) [OF ok neg b']] a r by blast
    also have "snd (table_finish k t) =
        (requests s)\<lparr>next_generation := saturating_add (next_generation (requests s)) 1\<rparr>"
      by (rule begin_finish [OF b'])
    finally have "\<exists>g. finished k s2 = s\<lparr>requests := (requests s)\<lparr>next_generation := g\<rparr>\<rparr>" by blast
    then show ?thesis
      using adm a b' neg r by (simp add: admit_request_def finish_with_reply_finished error_reply_def) blast
  qed
qed

theorem refused_request_changes_nothing_witness:
  "admit (T_Open 4 9 OREAD) (sample_attached R) =
     (Ev_Reply (R_Error 4 EBADFID), (sample_attached R)\<lparr>requests := \<lparr>next_generation = 3, live = fmempty\<rparr>\<rparr>)
   \<and> (\<exists>g. snd (admit (T_Open 4 9 OREAD) (sample_attached R))
         = (sample_attached R)\<lparr>requests := (requests (sample_attached R))\<lparr>next_generation := g\<rparr>\<rparr>)"
proof -
  have "admit (T_Open 4 9 OREAD) (sample_attached R) =
     (Ev_Reply (R_Error 4 EBADFID), (sample_attached R)\<lparr>requests := \<lparr>next_generation = 3, live = fmempty\<rparr>\<rparr>)"
    by (simp add: sample_defs admit_def admit_request_def table_begin_def NOTAG_def Let_def saturating_add_def
        admit_open_def get_fid_def ensure_available_def finish_with_reply_def table_finish_def release_reservations_def
        error_reply_def and_then_def ok_or_def bind_s_def stateful_simps drop_fresh)
  with refused_request_changes_nothing [OF sample_reachable(3) _ this] show ?thesis
    by simp
qed


section \<open>Flush\<close>

lemma server_step_requests: "server_step (s, out) (s', out') \<Longrightarrow> \<exists>ops. requests s' = fold table_step ops (requests s)"
  by (erule server_stepE) (use admit_requests complete_framing in blast)+

lemma server_run_retired:
  assumes "server_step\<^sup>*\<^sup>* (s, out) (s', out')" and "retired (requests s) k"
  shows "retired (requests s') k"
  using assms
proof (induction rule: rtranclp_induct2)
  case (step s1 out1 s2 out2)
  then show ?case
    using server_step_requests [OF step(2)] table_keys.used_run by metis
qed

lemma flush_retires_request:
  assumes cov: "covered s out {}" and rq: "rq \<in> out" and m: "is_flush m"
    and adm: "admit m s = (Ev_Flush reply outcome, s')" and old: "m = T_Flush tag (rq_tag rq)"
  shows "retired (requests s') (rq_key rq)"
proof -
  have gen: "key_generation (rq_key rq) < next_generation (requests s)"
    by (rule coveredD(3) [OF cov rq])
  obtain k t where b: "table_begin tag (requests s) = (Inr k, t)" "negotiated s"
    and fl: "admit_flush k (rq_tag rq) (s\<lparr>requests := t\<rparr>) = (Inr (Ev_Flush reply outcome), s')"
    using adm old by (auto simp: admit_def admit_request_def finish_with_reply_def Let_def
        split: if_splits prod.splits sum.splits)
  then have no: "rq_tag rq \<noteq> NOTAG" and req: "requests s' = snd (table_finish k (snd (table_flush (rq_tag rq) t)))"
    by (auto simp: admit_flush_def table_flush_def Let_def release_reservations_def split: if_splits option.splits)
  have "key_generation (rq_key rq) < next_generation t"
    using b(1) gen by (auto simp: table_begin_def Let_def saturating_succ_less split: if_splits)
  moreover have "\<not> current (snd (table_flush (rq_tag rq) t)) (rq_key rq)"
    using flush_retires [OF no] by (simp add: rq_tag_def)
  ultimately have "retired (snd (table_flush (rq_tag rq) t)) (rq_key rq)"
    using no by (simp add: retired_def table_flush_def)
  from retired_step [OF this, of "Finish_op k"] show ?thesis by (simp add: req)
qed

text \<open>C3: After a flush has been answered, the flushed request is never answered: whatever is admitted and
  completed afterwards, and even when its tag is used again, the completion of the flushed request
  is dropped and changes nothing.\<close>

theorem flushed_request_never_answered:
  assumes "reachable cfg (s, out)" and "rq \<in> out"
    and "admit (T_Flush tag (rq_tag rq)) s = (Ev_Flush reply outcome, s')"
    and "server_step\<^sup>*\<^sup>* (s', out) (s'', out'')"
  shows "complete rq c s'' = (None, s'')"
proof -
  have "retired (requests s') (rq_key rq)"
    by (rule flush_retires_request [OF reachable_covered [OF assms(1)] assms(2) _ assms(3) refl]) simp
  from server_run_retired [OF assms(4) this] show ?thesis
    by (simp add: complete_def table_finish_def retired_def current_def)
qed

theorem flushed_request_never_answered_witness:
  "complete sample_attach (Inr (C_Attach (Qid_dir 1))) (sample_flushed R) = (None, (sample_flushed R))"
proof -
  have "rq_tag sample_attach = 3" by (simp add: rq_tag_def sample_defs)
  then have "admit (T_Flush 8 (rq_tag sample_attach)) (sample_attaching R) = (Ev_Flush (R_Flush 8) (Cancelled (rq_key sample_attach)), (sample_flushed R))"
    using sample_flush by simp
  from flushed_request_never_answered [OF sample_reachable(2) _ this rtranclp.rtrancl_refl] show ?thesis
    by simp
qed


section \<open>Completion\<close>

text \<open>C2: Completing a live request does what the completion means and nothing else. In every reachable
  state, for every dispatched request that is still live, the server answers with the reply that
  \<open>completion_spec\<close> derives from the completion alone, binds at most the fid it names, releases
  the reservations and the tag, and fails only where the completion itself is unacceptable: no
  reservation, limit or fid conflict can make the bookkeeping fail.\<close>

theorem live_completion_refines_spec:
  assumes "reachable cfg (s, out)" and "rq \<in> out" and "current (requests s) (rq_key rq)"
    and "sess_variant s = Some v"
  shows "complete rq (Inr c) s =
    (case completion_spec v (msize s) (\<lambda>f. the (fmlookup (fids s) f)) (rq_tag rq) (rq_kind rq) c of
       Inl e \<Rightarrow> (Some (error_reply (rq_tag rq) e), finished (rq_key rq) s)
     | Inr (reply, None) \<Rightarrow> (Some reply, finished (rq_key rq) s)
     | Inr (reply, Some (f, st)) \<Rightarrow> (Some reply, (finished (rq_key rq) s)\<lparr>fids := fmupd f st (fids s)\<rparr>))"
proof -
  note cov = reachable_covered [OF assms(1)]
  show ?thesis
    unfolding complete_live [OF coveredD(1) [OF cov] coveredD(4) [OF cov assms(2,3)] assms(3,4)] apply_spec_def
    by (simp split: sum.split option.split prod.split)
qed

theorem live_completion_refines_spec_witness:
  "fst (complete sample_attach (Inr (C_Attach (Qid_dir 1))) (sample_attaching R)) = Some (R_Attach 3 (Qid_dir 1))
   \<and> fmlookup (fids (snd (complete sample_attach (Inr (C_Attach (Qid_dir 1))) (sample_attaching R)))) 5
      = Some (FidState_new (Qid_dir 1))"
proof -
  have "current (requests (sample_attaching R)) (rq_key sample_attach)" "sess_variant (sample_attaching R) = Some R"
    by (simp_all add: sample_defs current_def)
  from live_completion_refines_spec [OF sample_reachable(2) _ this, of "C_Attach (Qid_dir 1)"]
  show ?thesis
    by (simp add: completion_spec_def sample_attach_def validate_qid_variant_def supports_symlinks_def rq_tag_def)
qed


section \<open>Replies respect the message size and the dialect\<close>

definition settings_ok :: "server_config \<Rightarrow> session \<Rightarrow> bool" where
  "settings_ok cfg s \<longleftrightarrow> config s = cfg \<and> (negotiated s \<longrightarrow> min MIN_MSIZE (max_msize cfg) \<le> msize s)"

lemma settings_ok_step:
  assumes "server_step (s, out) (s', out')" and "settings_ok cfg s"
  shows "settings_ok cfg s'"
proof (rule server_step_cases [OF assms(1)])
  fix m event
  assume adm: "admit m s = (event, s')"
  show ?thesis
  proof (rule admit_cases [OF adm])
    fix tag msz ver
    assume v: "admit_version tag msz ver s = (event, s')"
    show ?thesis
      using admit_version_framing(1,3) [OF v] assms(2) by (auto simp: settings_ok_def min_def)
  next
    assume "admit_request m s = (event, s')"
    from admit_request_framing [OF this] assms(2) show ?thesis by (simp add: settings_ok_def settings_eq)
  qed
next
  fix rq c reply
  assume "complete rq c s = (reply, s')"
  from complete_framing [OF this] assms(2) show ?thesis by (simp add: settings_ok_def settings_eq)
qed

lemma settings_ok_reachable: "reachable cfg (s, out) \<Longrightarrow> settings_ok cfg s"
proof -
  have "server_step\<^sup>*\<^sup>* (s0, out0) (s, out) \<Longrightarrow> settings_ok cfg s0 \<Longrightarrow> settings_ok cfg s" for s0 out0
    by (induction rule: rtranclp_induct2) (auto dest: settings_ok_step)
  then show "reachable cfg (s, out) \<Longrightarrow> settings_ok cfg s"
    by (simp add: reachable_def settings_ok_def Session_new_def)
qed

lemma dirread_loop_bound:
  "dirread_loop offset limit sts position out = Inr page \<Longrightarrow> length out \<le> limit \<Longrightarrow> limit \<le> u32_max \<Longrightarrow>
   length page \<le> limit"
proof (induction sts arbitrary: position out)
  case (Cons st sts)
  obtain e where e: "Stat_encode st = Inr e"
    using Cons.prems(1) by (cases "Stat_encode st") simp_all
  have "length out + length e \<le> limit" if "\<not> limit < usize_saturating_add (length out) (length e)"
    using that Cons.prems(3) by (simp add: usize_saturating_add_def u32_max_def usize_max_def split: if_splits)
  then show ?case
    using Cons.prems Cons.IH by (auto simp: e Let_def not_less split: if_splits)
qed simp

lemma read_payload_bound:
  assumes "read_payload v offset count rd = Inr data"
  shows "length data \<le> unat count"
proof (cases rd)
  case (Read_Bytes bs)
  then show ?thesis using assms by (auto simp: read_payload_def take_count_def split: if_splits)
next
  case (Read_Directory stats)
  then have "dirread_loop offset (unat count) stats 0 [] = Inr data"
    using assms by (simp add: read_payload_def dirread_chunk_def and_then_Inr_iff)
  then show ?thesis
    by (rule dirread_loop_bound) (use unat_u32_le_max [of count] in simp_all)
qed

lemma spec_read_reply:
  assumes "completion_spec v msz state tag kind c = Inr (R_Read tag' data, b)"
  shows "\<exists>f q offset count rd. kind = K_Read f q offset count \<and> read_payload v offset count rd = Inr data"
proof (cases kind)
  case (K_Read f q offset count)
  then show ?thesis
    using assms by (cases c) (auto simp: completion_spec_def read_spec_def and_then_Inr_iff map_ok_Inr_iff split: if_splits)
qed (use assms in \<open>cases c; auto simp: completion_spec_def opened_spec_def walk_spec_def complete_write_def
    and_then_Inr_iff map_ok_Inr_iff split: if_splits\<close>)+

lemma complete_Some:
  assumes "reachable cfg (s, out)" and "rq \<in> out" and "complete rq c s = (Some reply, s')"
  shows "current (requests s) (rq_key rq)"
    and "pending_ok s (rq_key rq) (rq_kind rq)"
    and "\<exists>v. sess_variant s = Some v"
    and "sess_variant s = Some v \<Longrightarrow>
      (\<exists>e. reply = error_reply (rq_tag rq) e)
      \<or> (\<exists>c' b. c = Inr c'
          \<and> completion_spec v (msize s) (\<lambda>f. the (fmlookup (fids s) f)) (rq_tag rq) (rq_kind rq) c' = Inr (reply, b))"
proof -
  note cov = reachable_covered [OF assms(1)]
  note ok = coveredD(1) [OF cov]
  show cur: "current (requests s) (rq_key rq)"
    using assms(3) by (auto simp: complete_def table_finish_def current_def split: if_splits)
  show pend: "pending_ok s (rq_key rq) (rq_kind rq)"
    by (rule coveredD(4) [OF cov assms(2) cur])
  show "\<exists>v. sess_variant s = Some v"
    using session_ok_current_negotiated [OF ok cur] session_okD(5) [OF ok] by auto
  assume v: "sess_variant s = Some v"
  show "(\<exists>e. reply = error_reply (rq_tag rq) e)
      \<or> (\<exists>c' b. c = Inr c'
          \<and> completion_spec v (msize s) (\<lambda>f. the (fmlookup (fids s) f)) (rq_tag rq) (rq_kind rq) c' = Inr (reply, b))"
  proof (cases c)
    case (Inl e)
    then show ?thesis
      using assms(3) cur by (auto simp: complete_def table_finish_def current_def Let_def)
  next
    case (Inr c')
    then show ?thesis
      using assms(3) unfolding Inr complete_live [OF ok pend cur v] apply_spec_def
      by (auto split: sum.splits option.splits prod.splits)
  qed
qed

text \<open>C30: Every read reply fits: with a configured limit that leaves room for the header of a read reply,
  the reply to any read, whatever the file tree returned, is encodable within the negotiated
  message size.\<close>

theorem read_reply_fits_message_size:
  assumes "reachable cfg (s, out)" and "rq \<in> out" and "RREAD_HEADER_SIZE \<le> max_msize cfg"
    and "complete rq c s = (Some (R_Read tag data), s')"
  shows "\<exists>frame. encode_rmessage_checked (R_Read tag data) (msize s') = Inr frame"
proof -
  note answered = complete_Some [OF assms(1,2,4)]
  obtain v where v: "sess_variant s = Some v" using answered(3) by blast
  obtain c' b where
    "completion_spec v (msize s) (\<lambda>f. the (fmlookup (fids s) f)) (rq_tag rq) (rq_kind rq) c' = Inr (R_Read tag data, b)"
    using answered(4) [OF v] by (auto simp: error_reply_def)
  from spec_read_reply [OF this] obtain f q offset count rd where
    kind: "rq_kind rq = K_Read f q offset count" and data: "read_payload v offset count rd = Inr data"
    by blast
  have ok: "session_ok s"
    by (rule coveredD(1) [OF reachable_covered [OF assms(1)]])
  have "negotiated s"
    by (rule session_ok_current_negotiated [OF ok answered(1)])
  then have "min MIN_MSIZE (max_msize cfg) \<le> msize s"
    using settings_ok_reachable [OF assms(1)] by (simp add: settings_ok_def)
  moreover have "RREAD_HEADER_SIZE \<le> min MIN_MSIZE (max_msize cfg)"
    using assms(3) by (simp add: RREAD_HEADER_SIZE_def MIN_MSIZE_def)
  ultimately have room: "RREAD_HEADER_SIZE \<le> msize s" by (rule order.trans [rotated])
  have "count \<le> saturating_sub (msize s) RREAD_HEADER_SIZE"
    using answered(2) kind by simp
  then have "count = clamp_read_count (msize s) count"
    by (simp add: clamp_read_count_def min_def)
  then have "length data \<le> unat (clamp_read_count (msize s) count)"
    using read_payload_bound [OF data] by simp
  from clamped_read_fits [OF room this, of tag] show ?thesis
    using complete_framing [OF assms(4)] by (simp add: settings_eq)
qed

lemma sample_read_reply:
  "fst (complete sample_read (Inr (C_Read (Read_Directory []))) (sample_reading v)) = Some (R_Read 6 [])"
proof -
  have cur: "current (requests (sample_reading v)) (rq_key sample_read)"
    and var: "sess_variant (sample_reading v) = Some v"
    by (simp_all add: sample_defs current_def)
  note cov = reachable_covered [OF sample_reachable(6) [of v]]
  show ?thesis
    unfolding complete_live [OF coveredD(1) [OF cov] coveredD(4) [OF cov singletonI cur] cur var] apply_spec_def
    by (simp add: completion_spec_def sample_read_def read_spec_def read_payload_def dirread_chunk_def checked_add_def
        rq_tag_def)
qed

theorem read_reply_fits_message_size_witness:
  "\<exists>frame s'. complete sample_read (Inr (C_Read (Read_Directory []))) (sample_reading R) = (Some (R_Read 6 []), s')
     \<and> encode_rmessage_checked (R_Read 6 []) (msize s') = Inr frame"
proof -
  have room: "RREAD_HEADER_SIZE \<le> max_msize (sample_config R)"
    by (simp add: sample_config_def ServerConfig_default_def RREAD_HEADER_SIZE_def MAX_MSIZE_def)
  obtain s' where c: "complete sample_read (Inr (C_Read (Read_Directory []))) (sample_reading R) = (Some (R_Read 6 []), s')"
    using sample_read_reply [of R] by (metis prod.collapse)
  from read_reply_fits_message_size [OF sample_reachable(6) singletonI room c] c show ?thesis by blast
qed

text \<open>What a peer that negotiated plain 9P2000 may be sent: no symlinks, no referrals, no renames.\<close>

fun plain_reply :: "rmessage \<Rightarrow> bool" where
  "plain_reply (R_Auth _ q) \<longleftrightarrow> \<not> is_symlink q"
| "plain_reply (R_Attach _ q) \<longleftrightarrow> \<not> is_symlink q"
| "plain_reply (R_Walk _ qs) \<longleftrightarrow> list_all (\<lambda>q. \<not> is_symlink q) qs"
| "plain_reply (R_Open _ q _) \<longleftrightarrow> \<not> is_symlink q"
| "plain_reply (R_Create _ q _) \<longleftrightarrow> \<not> is_symlink q"
| "plain_reply (R_Stat _ st) \<longleftrightarrow> \<not> is_symlink (stat_qid st) \<and> stat_mode st AND DMSYMLINK = 0"
| "plain_reply (R_RenameAt _) \<longleftrightarrow> False"
| "plain_reply (R_Referrals _ _) \<longleftrightarrow> False"
| "plain_reply _ \<longleftrightarrow> True"

lemma plain_qid: "validate_qid_variant Plain q = Inr u \<longleftrightarrow> \<not> is_symlink q"
  by (simp add: validate_qid_variant_def supports_symlinks_def)

lemma plain_stat: "validate_stat_variant Plain st = Inr u \<longleftrightarrow> \<not> is_symlink (stat_qid st) \<and> stat_mode st AND DMSYMLINK = 0"
  by (simp add: validate_stat_variant_def plain_qid and_then_Inr_iff supports_symlinks_def)

lemma spec_plain_reply:
  assumes "completion_spec Plain msz state tag kind c = Inr (reply, b)"
    and "\<And>a b c d e f. kind \<noteq> K_RenameAt a b c d e f" and "\<And>a b. kind \<noteq> K_Referrals a b"
  shows "plain_reply reply"
proof (cases kind)
  case (K_Walk f newfid start wnames)
  then show ?thesis
    using assms(1) by (cases c) (auto simp: completion_spec_def walk_spec_def and_then_Inr_iff plain_qid list_all_iff split: if_splits)
qed (use assms in \<open>cases c; auto simp: completion_spec_def opened_spec_def read_spec_def complete_write_def
    and_then_Inr_iff map_ok_Inr_iff plain_qid plain_stat split: if_splits\<close>)+



section \<open>Mutual exclusion\<close>

text \<open>The fids a request reserves until it completes; \<open>True\<close> marks an exclusive reservation.\<close>

fun reserved_fids :: "server_request_kind \<Rightarrow> (fid \<times> bool) list" where
  "reserved_fids (K_Auth afid _ _) = [(afid, True)]"
| "reserved_fids (K_Attach f afid _ _) = (f, True) # (if afid = NOFID then [] else [(afid, True)])"
| "reserved_fids (K_Walk f newfid _ _) = (if newfid = f then [(f, True)] else [(f, False), (newfid, True)])"
| "reserved_fids (K_Open f _ _) = [(f, True)]"
| "reserved_fids (K_Create f _ _ _ _) = [(f, True)]"
| "reserved_fids (K_Read f q _ _) = (if is_dir q then [(f, True)] else [])"
| "reserved_fids (K_Write _ _ _ _) = []"
| "reserved_fids (K_Clunk f _) = [(f, True)]"
| "reserved_fids (K_Remove f _) = [(f, True)]"
| "reserved_fids (K_Stat _ _) = []"
| "reserved_fids (K_Wstat f _ _) = [(f, True)]"
| "reserved_fids (K_RenameAt olddirfid _ _ newdirfid _ _) = [(olddirfid, False), (newdirfid, False)]"
| "reserved_fids (K_Referrals f _) = [(f, False)]"

lemma reserved_claims:
  assumes "pending_ok s k kind" and "(f, x) \<in> set (reserved_fids kind)"
  shows "\<exists>c. claims s k f c \<and> (x \<longrightarrow> (\<exists>b. c = Excl b))"
  using assms by (cases kind) (auto simp: holds_fid_def holds_new_def simp del: claims.simps split: if_splits)

lemma claims_exclude:
  assumes "session_ok s" and "claims s k f (Excl b)" and "claims s k' f c"
  shows "k = k'"
  using session_okD(3) [OF assms(1), of f] assms(2,3) by (cases c) (auto simp: held_ok_def)

text \<open>Two live requests never work on the same fid when one of them needs it for itself: in every
  reachable state, a fid that a live request opens, creates under, walks, removes, clunks, changes
  or lists is reserved by no other live request.\<close>

theorem exclusive_fids_are_exclusive:
  assumes "reachable cfg (s, out)" and "rq \<in> out" and "rq' \<in> out" and "rq \<noteq> rq'"
    and "current (requests s) (rq_key rq)" and "current (requests s) (rq_key rq')"
    and "(f, True) \<in> set (reserved_fids (rq_kind rq))"
  shows "(f, x) \<notin> set (reserved_fids (rq_kind rq'))"
proof
  assume other: "(f, x) \<in> set (reserved_fids (rq_kind rq'))"
  note cov = reachable_covered [OF assms(1)]
  obtain c where "claims s (rq_key rq') f c"
    using reserved_claims [OF coveredD(4) [OF cov assms(3,6)] other] by blast
  moreover obtain b where "claims s (rq_key rq) f (Excl b)"
    using reserved_claims [OF coveredD(4) [OF cov assms(2,5)] assms(7)] by blast
  ultimately have "rq_key rq = rq_key rq'"
    using claims_exclude [OF coveredD(1) [OF cov]] by blast
  then show False
    using inj_onD [OF coveredD(2) [OF cov]] assms(2-4) by blast
qed

definition sample_second :: server_request where
  "sample_second = \<lparr>rq_key = \<lparr>key_tag = 9, key_generation = 2\<rparr>, rq_kind = K_Attach 6 NOFID [] []\<rparr>"

lemma sample_admit_second:
  "admit (T_Attach 9 6 NOFID [] []) (sample_attaching v) =
     (Ev_Dispatch sample_second, (sample_attaching v)
        \<lparr>reservations := fmupd 6 (excl_entry (rq_key sample_second) True) (reservations (sample_attaching v)),
         requests := \<lparr>next_generation = 3, live = fmupd 9 (rq_key sample_second) (live (requests (sample_attaching v)))\<rparr>\<rparr>)"
proof -
  have "new_fid_reservations (sample_attaching v) = {|5|}"
    by (rule fset_eqI) (simp add: sample_defs reservation_entry_def holds_new_fid_def reservations_default_def)
  then have "fid_count (sample_attaching v) = 1"
    by (simp add: fid_count_def sample_defs fcard.rep_eq)
  then have room: "fid_count ((sample_attaching v)\<lparr>requests := t\<rparr>) = 1" for t by simp
  show ?thesis
    using room [of "\<lparr>next_generation = 3, live = fmupd 9 (rq_key sample_second) (live (requests (sample_attaching v)))\<rparr>"]
    by (simp add: sample_defs sample_second_def admit_eval admit_attach_def authorize_uname_def ServerConfig_default_def
        reserve_new_fid_def contains_fid_def)
qed

theorem exclusive_fids_are_exclusive_witness:
  "(5, True) \<in> set (reserved_fids (rq_kind sample_attach)) \<and> (5, True) \<notin> set (reserved_fids (rq_kind sample_second))"
proof -
  have "reachable (sample_config R) (snd (admit (T_Attach 9 6 NOFID [] []) (sample_attaching R)), {sample_attach, sample_second})"
    using reachable_admit [OF sample_reachable(2) _ sample_admit_second [of R]]
    unfolding sample_admit_second by (simp add: sample_attaching_def insert_commute)
  from exclusive_fids_are_exclusive [OF this, of sample_attach sample_second 5 True] show ?thesis
    unfolding sample_admit_second by (simp add: sample_defs sample_second_def current_def)
qed

section \<open>Access\<close>

lemma admit_dispatch_cases:
  assumes "admit m s = (Ev_Dispatch rq, s')"
  obtains k t where "negotiated s" "table_begin (t_tag m) (requests s) = (Inr k, t)"
    "admit_after_begin m k (s\<lparr>requests := t\<rparr>) = (Inr (Ev_Dispatch rq), s')"
proof -
  have adm: "admit_request m s = (Ev_Dispatch rq, s')"
    by (rule admit_cases [OF assms])
      (auto simp: admit_version_def split: prod.splits sum.splits)
  then have "negotiated s"
    by (auto simp: admit_request_def split: if_splits)
  moreover obtain k t where "table_begin (t_tag m) (requests s) = (Inr k, t)"
      "admit_after_begin m k (s\<lparr>requests := t\<rparr>) = (Inr (Ev_Dispatch rq), s')"
    using adm by (auto simp: admit_request_def finish_with_reply_def Let_def split: if_splits prod.splits sum.splits)
  ultimately show ?thesis by (rule that)
qed

text \<open>C32: Data moves only through a fid that was opened for it. A read or write is dispatched only when the
  fid exists and is either an authentication fid or open in a mode that permits the transfer; a
  directory is never written, and read only from its start or where the last read ended.\<close>

theorem transfers_need_an_open_fid:
  assumes "admit m s = (Ev_Dispatch rq, s')"
  shows "case rq_kind rq of
      K_Write f q offset data \<Rightarrow>
        (\<exists>st. fmlookup (fids s) f = Some st \<and> fid_qid st = q
          \<and> (is_auth q \<or> \<not> is_dir q \<and> (\<exists>mode. open_mode st = Some mode \<and> permits_write mode)))
    | K_Read f q offset count \<Rightarrow>
        (\<exists>st. fmlookup (fids s) f = Some st \<and> fid_qid st = q
          \<and> (is_auth q \<or> (\<exists>mode. open_mode st = Some mode \<and> permits_read mode)
                        \<and> (is_dir q \<longrightarrow> offset = 0 \<or> offset = directory_offset st)))
    | _ \<Rightarrow> True"
proof (rule admit_dispatch_cases [OF assms])
  fix k t
  assume a: "admit_after_begin m k (s\<lparr>requests := t\<rparr>) = (Inr (Ev_Dispatch rq), s')"
  show ?thesis
  proof (cases m)
    case (T_Read tag f offset count)
    then have "admit_read k f offset count (s\<lparr>requests := t\<rparr>) = (Inr (Ev_Dispatch rq), s')"
      using a by simp
    then obtain st where "fmlookup (fids s) f = Some st" "validate_read st offset = Inr ()"
      and "\<exists>n. rq_kind rq = K_Read f (fid_qid st) offset n"
      by (fastforce simp: admit_read_def admit_Inr split: if_splits)
    then show ?thesis
      by (auto simp: validate_read_def and_then_Inr_iff split: if_splits)
  next
    case (T_Write tag f offset data)
    then have "admit_write k f offset data (s\<lparr>requests := t\<rparr>) = (Inr (Ev_Dispatch rq), s')"
      using a by simp
    then obtain st where "fmlookup (fids s) f = Some st" "validate_write st = Inr ()"
      and "rq_kind rq = K_Write f (fid_qid st) offset data"
      by (fastforce simp: admit_write_def admit_Inr split: if_splits)
    then show ?thesis
      by (auto simp: validate_write_def and_then_Inr_iff split: if_splits)
  next
    case (T_Flush tag oldtag)
    then show ?thesis
      using a by (auto simp: admit_flush_def table_flush_def Let_def split: if_splits)
  qed (use a in \<open>auto simp: admit_defs admit_Inr split: if_splits\<close>)
qed

theorem transfers_need_an_open_fid_witness:
  "admit (T_Read 6 5 0 9000) (sample_opened R) = (Ev_Dispatch sample_read, sample_reading R)
   \<and> (\<exists>st mode. fmlookup (fids (sample_opened R)) 5 = Some st \<and> open_mode st = Some mode \<and> permits_read mode)"
proof -
  have "\<not> is_auth (Qid_dir 1)" by (simp add: is_auth_def Qid_dir_def Qid_new_def QTAUTH_def QTDIR_def)
  then show ?thesis
    using sample_admit_read [of R] transfers_need_an_open_fid [OF sample_admit_read [of R]]
    by (auto simp: sample_read_def)
qed

section \<open>Identity\<close>

definition identity :: "server_request_kind \<Rightarrow> bytes option" where
  "identity kind = (case kind of K_Attach _ _ uname _ \<Rightarrow> Some uname | K_Auth _ uname _ \<Rightarrow> Some uname | _ \<Rightarrow> None)"

lemma admitted_identity:
  assumes "admit m s = (Ev_Dispatch rq, s')" and "session_uname (config s) = Some u" and "identity (rq_kind rq) = Some uname"
  shows "uname = u"
proof (rule admit_dispatch_cases [OF assms(1)])
  fix k t
  assume a: "admit_after_begin m k (s\<lparr>requests := t\<rparr>) = (Inr (Ev_Dispatch rq), s')"
  show ?thesis
  proof (cases m)
    case (T_Flush tag oldtag)
    then show ?thesis
      using a by (auto simp: admit_flush_def table_flush_def Let_def split: if_splits)
  qed (use a assms(2,3) in \<open>auto simp: admit_defs admit_Inr identity_def authorize_uname_def split: if_splits\<close>)
qed

text \<open>C33: A connection whose user was authenticated by the transport cannot assume another identity: every
  attach and authentication request that is ever dispatched on it names that user.\<close>

theorem identity_is_pinned:
  assumes "reachable cfg (s, out)" and "session_uname cfg = Some u" and "rq \<in> out" and "identity (rq_kind rq) = Some uname"
  shows "uname = u"
proof -
  have "server_step\<^sup>*\<^sup>* (Session_new cfg, {}) (s, out) \<Longrightarrow>
      settings_ok cfg s \<and> (\<forall>rq \<in> out. \<forall>uname. identity (rq_kind rq) = Some uname \<longrightarrow> uname = u)"
  proof (induction rule: rtranclp_induct2)
    case refl
    then show ?case by (simp add: settings_ok_def Session_new_def)
  next
    case (step s out s' out')
    have "\<forall>rq \<in> out'. \<forall>uname. identity (rq_kind rq) = Some uname \<longrightarrow> uname = u"
    proof (rule server_step_cases [OF step(2)])
      fix m event
      assume "admit m s = (event, s')" "out' = out \<union> dispatched event"
      then show ?thesis
        using step.IH admitted_identity [of m s _ s' u] assms(2)
        by (cases event) (auto simp: settings_ok_def)
    qed (use step.IH in auto)
    then show ?case using settings_ok_step [OF step(2)] step.IH by blast
  qed
  then show ?thesis
    using assms by (auto simp: reachable_def)
qed

definition pinned_config :: server_config where
  "pinned_config = (sample_config R)\<lparr>session_uname := Some (str ''glenda'')\<rparr>"

lemma pinned_reachable: "reachable pinned_config ((sample_attaching R)\<lparr>config := pinned_config\<rparr>, {sample_attach})"
proof -
  have r0: "reachable pinned_config (Session_new pinned_config, {})"
    by (simp add: reachable_def)
  have "admit (T_Version NOTAG 8192 (wire_name R)) (Session_new pinned_config) =
     (Ev_Reply (R_Version NOTAG 8192 (wire_name R)), (sample_negotiated R)\<lparr>config := pinned_config\<rparr>)"
    by (simp add: sample_defs pinned_config_def admit_def admit_version_def reset_for_version_def invalidate_def Let_def
        Session_new_def ServerConfig_default_def variant_accept_def MIN_MSIZE_def MAX_MSIZE_def table_reset_def
        RequestTable_new_def saturating_add_def)
  from reachable_admit [OF r0 _ this] have r1: "reachable pinned_config ((sample_negotiated R)\<lparr>config := pinned_config\<rparr>, {})"
    by (simp add: Session_new_def RequestTable_new_def)
  have "admit (T_Attach 3 5 NOFID (str ''glenda'') []) ((sample_negotiated R)\<lparr>config := pinned_config\<rparr>) =
      (Ev_Dispatch sample_attach, (sample_attaching R)\<lparr>config := pinned_config\<rparr>)"
    by (simp add: sample_defs pinned_config_def admit_eval admit_attach_def authorize_uname_def ServerConfig_default_def
        reserve_new_fid_def contains_fid_def fid_count_empty)
  from reachable_admit [OF r1 _ this] show ?thesis
    by (simp add: sample_negotiated_def)
qed

theorem identity_is_pinned_witness:
  "identity (rq_kind sample_attach) = Some (str ''glenda'') \<and> session_uname pinned_config = Some (str ''glenda'')"
proof -
  have u: "session_uname pinned_config = Some (str ''glenda'')" by (simp add: pinned_config_def)
  have "identity (rq_kind sample_attach) = Some n \<Longrightarrow> n = str ''glenda''" for n
    by (rule identity_is_pinned [OF pinned_reachable u singletonI])
  then show ?thesis using u by (simp add: identity_def sample_attach_def)
qed

section \<open>Session boundaries\<close>

text \<open>C34: A version message starts a new session: no fid, reservation or live request survives it, and the
  requests of the old session are never answered, whatever happens afterwards.\<close>

theorem version_starts_afresh:
  assumes "reachable cfg (s, out)" and "admit (T_Version tag msz ver) s = (event, s')"
    and "server_step\<^sup>*\<^sup>* (s', out) (s'', out'')" and "rq \<in> out"
  shows "fids s' = fmempty \<and> reservations s' = fmempty \<and> live (requests s') = fmempty
    \<and> complete rq c s'' = (None, s'')"
proof -
  have v: "admit_version tag msz ver s = (event, s')"
    using assms(2) by (simp add: admit_def)
  note fresh = admit_version_framing [OF v]
  have "key_generation (rq_key rq) < next_generation (requests s)"
    by (rule coveredD(3) [OF reachable_covered [OF assms(1)] assms(4)])
  then have "retired (requests s') (rq_key rq)"
    by (simp add: fresh(2) retired_def current_def table_reset_def saturating_succ_less)
  from server_run_retired [OF assms(3) this] have "complete rq c s'' = (None, s'')"
    by (simp add: complete_def table_finish_def retired_def current_def)
  then show ?thesis
    using fresh by (simp add: table_reset_def)
qed

theorem version_starts_afresh_witness:
  "complete sample_attach (Inr (C_Attach (Qid_dir 1)))
      (snd (admit (T_Version NOTAG 8192 (wire_name R)) (sample_attaching R)))
    = (None, snd (admit (T_Version NOTAG 8192 (wire_name R)) (sample_attaching R)))"
  by (rule version_starts_afresh [OF sample_reachable(2) prod.collapse [symmetric] rtranclp.rtrancl_refl singletonI,
        THEN conjunct2, THEN conjunct2, THEN conjunct2])

lemma dispatched_current:
  assumes "session_ok s" and "admit m s = (Ev_Dispatch rq, s')"
  shows "current (requests s') (rq_key rq)"
proof (rule admit_dispatch_cases [OF assms(2)])
  fix k t
  assume neg: "negotiated s" and b: "table_begin (t_tag m) (requests s) = (Inr k, t)"
    and a: "admit_after_begin m k (s\<lparr>requests := t\<rparr>) = (Inr (Ev_Dispatch rq), s')"
  have nf: "\<not> is_flush m"
    using a by (cases m) (auto simp: admit_flush_def table_flush_def Let_def split: if_splits)
  have "framing t (settings s) (snd (admit_after_begin m k (s\<lparr>requests := t\<rparr>)))"
    using admit_framing [OF nf] unfolding maintains_def by simp
  moreover have "rq_key rq = k"
    using admit_dispatched [OF session_okD(2) [OF session_ok_begin(1) [OF assms(1) neg b]] a] by blast
  ultimately show ?thesis
    using begin_current(3) [OF b] a by simp
qed

lemma complete_unbound:
  assumes "current (requests s) (rq_key rq)" and "bound_fid (rq_kind rq) = None"
  shows "\<exists>reply. complete rq c s = (Some reply, finished (rq_key rq) s)"
proof (rule complete_cases [where rq = rq and c = c and s = s])
  fix reply s'
  assume c: "complete rq c s = (Some reply, s')"
    and re: "rebinds (bound_fid (rq_kind rq)) (finished (rq_key rq) s) s'"
  then have "fids s' = fids (finished (rq_key rq) s)"
    using rebinds_fids [OF re] assms(2) by simp
  then have "s' = finished (rq_key rq) s"
    using re by (intro session_eqI) (simp_all add: rebinds_same [OF re])
  with c show ?thesis by blast
qed (use assms(1) in simp)

text \<open>Clunk and remove take the fid away for good. From the moment one of them is admitted the fid is gone
  and reserved, so no other request can use or reuse it, and once it completes, even with an
  error, the fid is free for a new file.\<close>

theorem clunk_and_remove_retire_the_fid:
  assumes "reachable cfg (s, out)" and "next_generation (requests s) \<noteq> - 1"
    and "admit m s = (Ev_Dispatch rq, s')" and "rq_kind rq = K_Clunk f q \<or> rq_kind rq = K_Remove f q"
  shows "fmlookup (fids s') f = None \<and> get_fid f s' = Inl (Error EFIDBUSY)
    \<and> (\<exists>reply s''. complete rq c s' = (Some reply, s'') \<and> fids s'' = fids s'
          \<and> reservation_entry f s'' = reservations_default)"
proof -
  have "reachable cfg (s', out \<union> {rq})"
    using reachable_admit [OF assms(1-3)] by simp
  note cov = reachable_covered [OF this]
  have cur: "current (requests s') (rq_key rq)"
    by (rule dispatched_current [OF coveredD(1) [OF reachable_covered [OF assms(1)]] assms(3)])
  have pend: "pending_ok s' (rq_key rq) (rq_kind rq)"
    by (rule coveredD(4) [OF cov _ cur]) simp
  then have gone: "fmlookup (fids s') f = None" and held: "claims s' (rq_key rq) f (Excl False)"
    using assms(4) by auto
  have busy: "get_fid f s' = Inl (Error EFIDBUSY)"
    using held by (auto simp: get_fid_def ensure_available_def reservation_entry_def reservations_default_def
        split: option.splits)
  have "bound_fid (rq_kind rq) = None" using assms(4) by auto
  from complete_unbound [OF cur this, of c] released_entry [OF coveredD(1) [OF cov] held] show ?thesis
    using gone busy by auto
qed

definition sample_clunk :: server_request where
  "sample_clunk = \<lparr>rq_key = \<lparr>key_tag = 4, key_generation = 2\<rparr>, rq_kind = K_Clunk 5 (Qid_dir 1)\<rparr>"

theorem clunk_and_remove_retire_the_fid_witness:
  "fst (admit (T_Clunk 4 5) (sample_attached R)) = Ev_Dispatch sample_clunk
   \<and> get_fid 5 (snd (admit (T_Clunk 4 5) (sample_attached R))) = Inl (Error EFIDBUSY)"
proof -
  have fst: "fst (admit (T_Clunk 4 5) (sample_attached R)) = Ev_Dispatch sample_clunk"
    by (simp add: sample_defs sample_clunk_def admit_eval admit_clunk_def retire_fid_def ensure_unreserved_def FidState_new_def)
  then have a: "admit (T_Clunk 4 5) (sample_attached R) = (Ev_Dispatch sample_clunk, snd (admit (T_Clunk 4 5) (sample_attached R)))"
    by (metis prod.collapse)
  have "next_generation (requests (sample_attached R)) \<noteq> - 1" by (simp add: sample_defs)
  from clunk_and_remove_retire_the_fid [OF sample_reachable(3) this a, of 5 "Qid_dir 1"] show ?thesis
    using fst by (simp add: sample_clunk_def)
qed

section \<open>The synchronous server\<close>

lemma spec_reply_tag:
  assumes "completion_spec v msz state tag kind c = Inr (reply, b)"
  shows "r_tag reply = tag"
  using assms by (cases kind; cases c)
    (auto simp: completion_spec_def opened_spec_def walk_spec_def read_spec_def complete_write_def
      and_then_Inr_iff map_ok_Inr_iff split: if_splits)

lemma error_reply_tag [simp]: "r_tag (error_reply tag e) = tag"
  by (simp add: error_reply_def)

lemma complete_reply_tag:
  assumes cov: "covered s {rq} {}" and cur: "current (requests s) (rq_key rq)"
  obtains reply s' where "complete rq c s = (Some reply, s')" "r_tag reply = rq_tag rq" "covered s' {} {}"
proof -
  note ok = coveredD(1) [OF cov]
  have pend: "pending_ok s (rq_key rq) (rq_kind rq)"
    by (rule coveredD(4) [OF cov _ cur]) simp
  obtain v where v: "sess_variant s = Some v"
    using session_ok_current_negotiated [OF ok cur] session_okD(5) [OF ok] by auto
  have "\<exists>reply s'. complete rq c s = (Some reply, s') \<and> r_tag reply = rq_tag rq"
  proof (cases c)
    case (Inl e)
    then show ?thesis using cur by (simp add: complete_def table_finish_def current_def Let_def)
  next
    case (Inr c')
    show ?thesis
      unfolding Inr complete_live [OF ok pend cur v] apply_spec_def
      by (auto split: sum.split option.split prod.split dest: spec_reply_tag)
  qed
  then obtain reply s' where c: "complete rq c s = (Some reply, s')" and t: "r_tag reply = rq_tag rq" by blast
  have "covered s' {} {}"
    using complete_covered [OF cov singletonI c] by simp
  with c t that show ?thesis by blast
qed

lemma admit_tags:
  assumes "admit m s = (event, s')" and "session_ok s"
  shows "case event of Ev_Reply reply \<Rightarrow> r_tag reply = t_tag m | Ev_Flush reply _ \<Rightarrow> r_tag reply = t_tag m
    | Ev_Dispatch rq \<Rightarrow> rq_tag rq = t_tag m \<and> \<not> is_version m"
proof (rule admit_cases [OF assms(1)])
  fix tag msz ver
  assume "m = T_Version tag msz ver" "admit_version tag msz ver s = (event, s')"
  then show ?thesis
    by (auto simp: admit_version_def split: prod.splits sum.splits)
next
  assume nv: "\<not> is_version m" and adm: "admit_request m s = (event, s')"
  show ?thesis
  proof (cases event)
    case (Ev_Reply reply)
    then show ?thesis
      using adm admitted_not_reply by (fastforce simp: admit_request_def finish_with_reply_def Let_def split: if_splits prod.splits sum.splits)
  next
    case (Ev_Dispatch rq)
    show ?thesis
    proof (rule admit_dispatch_cases [OF assms(1) [unfolded Ev_Dispatch]])
      fix k t
      assume neg: "negotiated s" and b: "table_begin (t_tag m) (requests s) = (Inr k, t)"
        and a: "admit_after_begin m k (s\<lparr>requests := t\<rparr>) = (Inr (Ev_Dispatch rq), s')"
      have "rq_key rq = k"
        using admit_dispatched [OF session_okD(2) [OF session_ok_begin(1) [OF assms(2) neg b]] a] by blast
      then show ?thesis
        using Ev_Dispatch nv begin_current(1) [OF b] by (simp add: rq_tag_def)
    qed
  next
    case (Ev_Flush reply outcome)
    then obtain k t where b: "table_begin (t_tag m) (requests s) = (Inr k, t)"
      and a: "admit_after_begin m k (s\<lparr>requests := t\<rparr>) = (Inr event, s')"
      using adm by (auto simp: admit_request_def finish_with_reply_def Let_def split: if_splits prod.splits sum.splits)
    have "is_flush m"
      using admit_event [OF _ a] Ev_Flush by blast
    then obtain tag oldtag where "m = T_Flush tag oldtag" by (cases m) auto
    then show ?thesis
      using a b Ev_Flush begin_current(1) [OF b]
      by (auto simp: admit_flush_def table_flush_def Let_def split: if_splits)
  qed
qed

text \<open>C25: The synchronous server answers every message exactly once, on its own tag, and is at rest
  afterwards: starting from a state with nothing outstanding, handling any message with any file
  tree leaves no live request and no reservation, and the invariant still holds.\<close>

theorem handle_answers_and_rests:
  assumes "server_inv (sv_session sv, {})" and "next_generation (requests (sv_session sv)) \<noteq> - 1"
    and "handle ft m sv = (reply, sv')"
  shows "r_tag reply = t_tag m \<and> server_inv (sv_session sv', {})
    \<and> live (requests (sv_session sv')) = fmempty \<and> reservations (sv_session sv') = fmempty"
proof -
  have cov: "covered (sv_session sv) {} {}" using assms(1) by (simp add: server_inv_def)
  note ok = coveredD(1) [OF cov]
  obtain event s1 where adm: "admit m (sv_session sv) = (event, s1)" by fastforce
  note tags = admit_tags [OF adm ok]
  have cov1: "covered s1 (dispatched event) {}"
    using admit_covered [OF cov assms(2) adm] by simp
  have "r_tag reply = t_tag m \<and> covered (sv_session sv') {} {}"
  proof (cases event)
    case (Ev_Dispatch rq)
    obtain result t where p: "perform_file_tree_request ft (rq_kind rq) (sv_tree sv) = (result, t)" by fastforce
    obtain reply' s2 where "complete rq result s1 = (Some reply', s2)" "r_tag reply' = rq_tag rq" "covered s2 {} {}"
      by (rule complete_reply_tag [of s1 rq result])
        (use cov1 dispatched_current [OF ok] adm Ev_Dispatch in simp_all)
    then show ?thesis
      using assms(3) adm Ev_Dispatch tags p by (auto simp: handle_def handle_event_def Let_def)
  qed (use assms(3) adm tags cov1 session_ok_invalidate in
      \<open>auto simp: handle_def handle_event_def Let_def covered_def invalidate_def table_reset_def current_def
        split: if_splits prod.splits sum.splits\<close>)
  then show ?thesis
    using covered_quiescent [of "sv_session sv'"] by (simp add: server_inv_def)
qed

definition sample_tree :: "unit file_tree" where
  "sample_tree = file_tree_defaults (\<lambda>_ _ _. return_s (Qid_dir 1)) (\<lambda>_ _ _ _. return_s [])
     (\<lambda>_ q _. return_s \<lparr>of_qid = q, of_iounit = 0\<rparr>) (\<lambda>_ _ _ _. return_s (Read_Directory [])) (\<lambda>_. throw_s (Error ENOENT))"

theorem handle_answers_and_rests_witness:
  "r_tag (fst (handle sample_tree (T_Clunk 4 5) \<lparr>sv_session = sample_attached R, sv_tree = ()\<rparr>)) = 4
   \<and> reservations (sv_session (snd (handle sample_tree (T_Clunk 4 5) \<lparr>sv_session = sample_attached R, sv_tree = ()\<rparr>))) = fmempty"
proof -
  let ?sv = "\<lparr>sv_session = sample_attached R, sv_tree = ()\<rparr>"
  have "server_inv (sv_session ?sv, {})"
    using server_inv_reachable [OF sample_reachable(3) [of R]] by simp
  moreover have "next_generation (requests (sv_session ?sv)) \<noteq> - 1"
    by (simp add: sample_defs)
  ultimately show ?thesis
    using handle_answers_and_rests [of ?sv sample_tree "T_Clunk 4 5", OF _ _ prod.collapse [symmetric]] by simp
qed

end
