(* ===== verification/R9P_Connection.thy ===== *)
theory R9P_Connection
  imports R9P_Frame_IO R9P_Server_Props
begin

text \<open>
  One served connection (\<^verbatim>\<open>server/connection.rs\<close>): the thread of \<open>serve_loop\<close>, one worker thread per
  asynchronous request, and what they share under mutexes: the server session, the writer, the
  map of cancellable requests and the worker count. Every step of \<open>conn_step\<close> is one region that a
  lock protects, taken by one thread, so that runs of steps are the interleavings of the threads.
  The writer lock is the only one held across two regions and is explicit. What handlers
  compute is arbitrary.
\<close>

section \<open>Shared state\<close>

record pending_cancel =
  pc_fid :: "fid option"

type_synonym cancel_map = "(request_key, pending_cancel) fmap"

text \<open>\<open>cancel_key\<close>, \<open>cancel_fid\<close> and \<open>cancel_all\<close> return the keys whose flag they set; the boolean of the
  source is whether there are any.\<close>

definition cancel_key :: "request_key \<Rightarrow> cancel_map \<Rightarrow> request_key fset \<times> cancel_map" where
  "cancel_key key pending =
     (case fmlookup pending key of
        Some _ \<Rightarrow> ({|key|}, fmdrop key pending)
      | None \<Rightarrow> ({||}, pending))"

definition cancel_fid :: "fid \<Rightarrow> cancel_map \<Rightarrow> request_key fset \<times> cancel_map" where
  "cancel_fid f pending =
     (let keys = ffilter (\<lambda>key. \<exists>pc. fmlookup pending key = Some pc \<and> pc_fid pc = Some f) (fmdom pending)
      in (keys, fmdrop_fset keys pending))"

definition cancel_all :: "cancel_map \<Rightarrow> request_key fset \<times> cancel_map" where
  "cancel_all pending = (fmdom pending, fmempty)"

text \<open>The count inside \<open>AsyncWorkerTracker\<close>.\<close>

definition try_acquire :: "usize \<Rightarrow> nat \<Rightarrow> bool \<times> nat" where
  "try_acquire limit running = (if running \<ge> limit then (False, running) else (True, running + 1))"

definition tracker_release :: "nat \<Rightarrow> nat" where
  "tracker_release running = running - 1"

text \<open>\<open>serve_connection\<close> calls \<open>is_async\<close> and \<open>cancellation_fid\<close> of its handler for its own decisions.\<close>

record handler =
  is_async :: "server_request \<Rightarrow> bool"
  cancellation_fid :: "server_request \<Rightarrow> fid option"

text \<open>Where the loop thread and a worker are. \<open>L_Writing\<close> and \<open>W_Writing\<close> hold the writer lock, with
  the reply that \<open>complete\<close> gave.\<close>

datatype loop_pc =
    L_Read
  | L_Reset tmessage
  | L_Idle tmessage
  | L_Admit tmessage
  | L_Reply tmessage request_key rmessage
  | L_Dispatch server_request
  | L_Spawn server_request
  | L_Perform server_request
  | L_Complete server_request "server_completion result"
  | L_Writing server_request "rmessage option"
  | L_Closing "unit result"
  | L_Closing_Idle "unit result"
  | L_Done "unit result"

datatype worker_pc =
    W_Perform
  | W_Complete "server_completion result"
  | W_Writing "rmessage option"
  | W_Drop
  | W_Release

record worker =
  w_request :: server_request
  w_pc :: worker_pc

datatype lock_owner = Loop_Thread | Worker_Thread request_key

text \<open>\<open>cn_log\<close> records what was written, in order: the answers to dispatched requests, and the replies
  that admission gave at once, with the message and the key it had or would have had.\<close>

datatype log_entry =
    Answered request_key rmessage
  | Immediate tmessage request_key rmessage

record conn =
  cn_session :: session
  cn_input :: reader
  cn_writer :: writer
  cn_lock :: "lock_owner option"
  cn_pending :: cancel_map
  cn_cancelled :: "request_key fset"
  cn_active :: nat
  cn_loop :: loop_pc
  cn_workers :: "(request_key, worker) fmap"
  cn_log :: "log_entry list"

definition conn_new :: "server_config \<Rightarrow> reader \<Rightarrow> writer \<Rightarrow> conn" where
  "conn_new cfg r w =
     \<lparr>cn_session = Session_new cfg, cn_input = r, cn_writer = w, cn_lock = None, cn_pending = fmempty,
      cn_cancelled = {||}, cn_active = 0, cn_loop = L_Read, cn_workers = fmempty, cn_log = []\<rparr>"

section \<open>The regions\<close>

definition conn_read :: "conn \<Rightarrow> conn" where
  "conn_read c =
     (case read_tmessage_checked (msize (cn_session c)) (cn_input c) of
        (Inr (Some m), r) \<Rightarrow> c\<lparr>cn_input := r, cn_loop := (if is_version m then L_Reset m else L_Admit m)\<rparr>
      | (Inr None, r) \<Rightarrow> c\<lparr>cn_input := r, cn_loop := L_Closing (Inr ())\<rparr>
      | (Inl e, r) \<Rightarrow> c\<lparr>cn_input := r, cn_loop := L_Closing (Inl e)\<rparr>)"

text \<open>The first region of \<open>reset_connection\<close>: the request table is reset and everything is cancelled while
  the session is locked.\<close>

definition reset_region :: "conn \<Rightarrow> conn" where
  "reset_region c =
     (case cancel_all (cn_pending c) of
        (keys, pending) \<Rightarrow>
          c\<lparr>cn_session := (cn_session c)\<lparr>requests := table_reset (requests (cn_session c))\<rparr>,
            cn_pending := pending, cn_cancelled := cn_cancelled c |\<union>| keys\<rparr>)"

text \<open>The key a message gets or would have got, for the log.\<close>

definition request_key_of :: "tmessage \<Rightarrow> session \<Rightarrow> request_key" where
  "request_key_of m s = \<lparr>key_tag = t_tag m, key_generation = next_generation (requests s)\<rparr>"

definition conn_admit :: "handler \<Rightarrow> tmessage \<Rightarrow> conn \<Rightarrow> conn" where
  "conn_admit h m c =
     (case admit m (cn_session c) of
        (event, s) \<Rightarrow>
          let (keys, pending) =
                (case event of
                   Ev_Flush _ (Cancelled key) \<Rightarrow> cancel_key key (cn_pending c)
                 | Ev_Dispatch rq \<Rightarrow>
                     (case rq_kind rq of K_Clunk f _ \<Rightarrow> cancel_fid f (cn_pending c) | _ \<Rightarrow> ({||}, cn_pending c))
                 | _ \<Rightarrow> ({||}, cn_pending c));
              loop =
                (case event of
                   Ev_Reply reply \<Rightarrow> L_Reply m (request_key_of m (cn_session c)) reply
                 | Ev_Flush reply _ \<Rightarrow> L_Reply m (request_key_of m (cn_session c)) reply
                 | Ev_Dispatch rq \<Rightarrow> (if is_async h rq then L_Dispatch rq else L_Perform rq))
          in c\<lparr>cn_session := s, cn_pending := pending, cn_cancelled := cn_cancelled c |\<union>| keys, cn_loop := loop\<rparr>)"

text \<open>\<open>write_rmessage_checked\<close> under the writer lock, with the entry in the log when it succeeds.\<close>

definition write_logged :: "log_entry \<Rightarrow> rmessage \<Rightarrow> (conn, unit) fallible" where
  "write_logged entry reply c =
     (case write_rmessage_checked (msize (cn_session c)) reply (cn_writer c) of
        (Inr _, w) \<Rightarrow> (Inr (), c\<lparr>cn_writer := w, cn_log := cn_log c @ [entry]\<rparr>)
      | (Inl e, w) \<Rightarrow> (Inl e, c\<lparr>cn_writer := w\<rparr>))"

definition write_reply :: "tmessage \<Rightarrow> request_key \<Rightarrow> rmessage \<Rightarrow> conn \<Rightarrow> conn" where
  "write_reply m key reply c =
     (case write_logged (Immediate m key reply) reply c of
        (Inr _, c) \<Rightarrow> c\<lparr>cn_loop := L_Read\<rparr>
      | (Inl e, c) \<Rightarrow> c\<lparr>cn_loop := L_Closing (Inl e)\<rparr>)"

text \<open>The region of \<open>dispatch_async\<close> that holds the cancellation map and asks the tracker.\<close>

definition dispatch_async :: "handler \<Rightarrow> server_request \<Rightarrow> conn \<Rightarrow> conn" where
  "dispatch_async h rq c =
     (case try_acquire (max_async_requests (config (cn_session c))) (cn_active c) of
        (False, running) \<Rightarrow>
          c\<lparr>cn_active := running, cn_loop := L_Complete rq (Inl (Error_from ''too many asynchronous 9P requests''))\<rparr>
      | (True, running) \<Rightarrow>
          c\<lparr>cn_active := running, cn_pending := fmupd (rq_key rq) \<lparr>pc_fid = cancellation_fid h rq\<rparr> (cn_pending c),
            cn_loop := L_Spawn rq\<rparr>)"

definition spawned :: "server_request \<Rightarrow> conn \<Rightarrow> conn" where
  "spawned rq c =
     c\<lparr>cn_workers := fmupd (rq_key rq) \<lparr>w_request = rq, w_pc = W_Perform\<rparr> (cn_workers c), cn_loop := L_Read\<rparr>"

definition spawn_failed :: "server_request \<Rightarrow> bytes \<Rightarrow> conn \<Rightarrow> conn" where
  "spawn_failed rq text c =
     c\<lparr>cn_pending := fmdrop (rq_key rq) (cn_pending c), cn_active := tracker_release (cn_active c),
       cn_loop := L_Complete rq (Inl (Error (str ''spawn 9P request worker: '' @ text)))\<rparr>"

text \<open>\<open>complete_and_write\<close>: the writer is locked, then the session; the reply is written after the session
  is released.\<close>

definition complete_region :: "server_request \<Rightarrow> server_completion result \<Rightarrow> conn \<Rightarrow> rmessage option \<times> conn" where
  "complete_region rq completion c =
     (case complete rq completion (cn_session c) of
        (reply, s) \<Rightarrow> (reply, c\<lparr>cn_session := s\<rparr>))"

definition write_region :: "server_request \<Rightarrow> rmessage option \<Rightarrow> (conn, unit) fallible" where
  "write_region rq reply c =
     (case reply of
        None \<Rightarrow> (Inr (), c\<lparr>cn_lock := None\<rparr>)
      | Some r \<Rightarrow> (case write_logged (Answered (rq_key rq) r) r c of (res, c) \<Rightarrow> (res, c\<lparr>cn_lock := None\<rparr>)))"

definition set_worker :: "request_key \<Rightarrow> server_request \<Rightarrow> worker_pc \<Rightarrow> conn \<Rightarrow> conn" where
  "set_worker key rq pc c = c\<lparr>cn_workers := fmupd key \<lparr>w_request = rq, w_pc = pc\<rparr> (cn_workers c)\<rparr>"

section \<open>The interleavings\<close>

text \<open>The result of \<open>serve_connection\<close> from the result of the loop and that of the cleanup.\<close>

definition serve_result :: "unit result \<Rightarrow> unit result \<Rightarrow> unit result" where
  "serve_result result cleanup = (case result of Inl e \<Rightarrow> Inl e | Inr _ \<Rightarrow> cleanup)"

text \<open>The steps of the loop thread. As for \<open>server_step\<close>, admissions stop one short of the saturation of the
  generation counter.\<close>

inductive loop_step :: "handler \<Rightarrow> conn \<Rightarrow> conn \<Rightarrow> bool" for h where
  loop_read: "cn_loop c = L_Read \<Longrightarrow> loop_step h c (conn_read c)"
| loop_reset: "cn_loop c = L_Reset m \<Longrightarrow> loop_step h c ((reset_region c)\<lparr>cn_loop := L_Idle m\<rparr>)"
| loop_idle: "cn_loop c = L_Idle m \<Longrightarrow> cn_active c = 0 \<Longrightarrow>
    loop_step h c (c\<lparr>cn_loop := (case (handler_reset :: unit result) of Inr _ \<Rightarrow> L_Admit m | Inl e \<Rightarrow> L_Closing (Inl e))\<rparr>)"
| loop_admit: "cn_loop c = L_Admit m \<Longrightarrow> next_generation (requests (cn_session c)) \<noteq> - 1 \<Longrightarrow>
    loop_step h c (conn_admit h m c)"
| loop_reply: "cn_loop c = L_Reply m key reply \<Longrightarrow> cn_lock c = None \<Longrightarrow>
    loop_step h c (write_reply m key reply c)"
| loop_dispatch: "cn_loop c = L_Dispatch rq \<Longrightarrow> loop_step h c (dispatch_async h rq c)"
| loop_spawn: "cn_loop c = L_Spawn rq \<Longrightarrow> loop_step h c (spawned rq c)"
| loop_spawn_failed: "cn_loop c = L_Spawn rq \<Longrightarrow> loop_step h c (spawn_failed rq text c)"
| loop_perform: "cn_loop c = L_Perform rq \<Longrightarrow> loop_step h c (c\<lparr>cn_loop := L_Complete rq completion\<rparr>)"
| loop_complete: "cn_loop c = L_Complete rq completion \<Longrightarrow> cn_lock c = None \<Longrightarrow>
    complete_region rq completion c = (reply, c') \<Longrightarrow>
    loop_step h c (c'\<lparr>cn_lock := Some Loop_Thread, cn_loop := L_Writing rq reply\<rparr>)"
| loop_write: "cn_loop c = L_Writing rq reply \<Longrightarrow> write_region rq reply c = (res, c') \<Longrightarrow>
    loop_step h c (c'\<lparr>cn_loop := (case res of Inr _ \<Rightarrow> L_Read | Inl e \<Rightarrow> L_Closing (Inl e))\<rparr>)"
| loop_closing: "cn_loop c = L_Closing result \<Longrightarrow>
    loop_step h c ((reset_region c)\<lparr>cn_loop := L_Closing_Idle result\<rparr>)"
| loop_closed: "cn_loop c = L_Closing_Idle result \<Longrightarrow> cn_active c = 0 \<Longrightarrow>
    loop_step h c (c\<lparr>cn_loop := L_Done (serve_result result (handler_reset :: unit result))\<rparr>)"

text \<open>The steps of a worker: \<open>perform\<close>, the two regions of \<open>complete_and_write\<close>, whose result it ignores, and
  the two of the guard that is dropped at the end.\<close>

inductive worker_step :: "request_key \<Rightarrow> conn \<Rightarrow> conn \<Rightarrow> bool" for key where
  worker_perform: "fmlookup (cn_workers c) key = Some \<lparr>w_request = rq, w_pc = W_Perform\<rparr> \<Longrightarrow>
    worker_step key c (set_worker key rq (W_Complete completion) c)"
| worker_complete: "fmlookup (cn_workers c) key = Some \<lparr>w_request = rq, w_pc = W_Complete completion\<rparr> \<Longrightarrow>
    cn_lock c = None \<Longrightarrow> complete_region rq completion c = (reply, c') \<Longrightarrow>
    worker_step key c (set_worker key rq (W_Writing reply) (c'\<lparr>cn_lock := Some (Worker_Thread key)\<rparr>))"
| worker_write: "fmlookup (cn_workers c) key = Some \<lparr>w_request = rq, w_pc = W_Writing reply\<rparr> \<Longrightarrow>
    write_region rq reply c = (res, c') \<Longrightarrow> worker_step key c (set_worker key rq W_Drop c')"
| worker_drop: "fmlookup (cn_workers c) key = Some \<lparr>w_request = rq, w_pc = W_Drop\<rparr> \<Longrightarrow>
    worker_step key c (set_worker key rq W_Release (c\<lparr>cn_pending := fmdrop key (cn_pending c)\<rparr>))"
| worker_release: "fmlookup (cn_workers c) key = Some \<lparr>w_request = rq, w_pc = W_Release\<rparr> \<Longrightarrow>
    worker_step key c (c\<lparr>cn_active := tracker_release (cn_active c), cn_workers := fmdrop key (cn_workers c)\<rparr>)"

definition conn_step :: "handler \<Rightarrow> conn \<Rightarrow> conn \<Rightarrow> bool" where
  "conn_step h c c' \<longleftrightarrow> loop_step h c c' \<or> (\<exists>key. worker_step key c c')"

definition conn_reachable :: "handler \<Rightarrow> server_config \<Rightarrow> reader \<Rightarrow> writer \<Rightarrow> conn \<Rightarrow> bool" where
  "conn_reachable h cfg r w c \<longleftrightarrow> (conn_step h)\<^sup>*\<^sup>* (conn_new cfg r w) c"

inductive_cases loop_stepE: "loop_step h c c'"
inductive_cases worker_stepE: "worker_step key c c'"

end
