(* ===== verification/R9P_Connection_Inv.thy ===== *)
theory R9P_Connection_Inv
  imports R9P_Connection
begin

text \<open>
  Invariants of a served connection: the writer lock and its owner, the count of workers, the keys
  of the requests in flight, and the server invariant of \<open>R9P_Server_Step\<close> for the requests the
  threads hold. Between the reset of the request table and the next version message the session
  still has the reservations of dead requests; nothing is live then.
\<close>

section \<open>Induction over reachable states\<close>

lemma conn_induct:
  assumes "conn_reachable h cfg r w c" and "P (conn_new cfg r w)"
    and "\<And>c c'. conn_reachable h cfg r w c \<Longrightarrow> P c \<Longrightarrow> conn_step h c c' \<Longrightarrow> P c'"
  shows "P c"
  using assms(1) unfolding conn_reachable_def
proof (induction rule: rtranclp_induct)
  case base
  then show ?case using assms(2) .
next
  case (step c c')
  then show ?case using assms(3) unfolding conn_reachable_def by blast
qed

lemma conn_step_cases:
  assumes "conn_step h c c'"
  obtains "loop_step h c c'" | key where "worker_step key c c'"
  using assms unfolding conn_step_def by blast

section \<open>What the regions change\<close>

lemma write_logged_fields:
  assumes "write_logged entry reply c = (res, c')"
  shows "cn_session c' = cn_session c" and "cn_lock c' = cn_lock c" and "cn_pending c' = cn_pending c"
    and "cn_active c' = cn_active c" and "cn_loop c' = cn_loop c" and "cn_workers c' = cn_workers c"
    and "cn_cancelled c' = cn_cancelled c" and "cn_input c' = cn_input c"
    and "cn_log c' = cn_log c @ (case res of Inr _ \<Rightarrow> [entry] | Inl _ \<Rightarrow> [])"
  using assms by (auto simp: write_logged_def split: prod.splits sum.splits)

lemma write_region_fields:
  assumes "write_region rq reply c = (res, c')"
  shows "cn_session c' = cn_session c" and "cn_lock c' = None" and "cn_pending c' = cn_pending c"
    and "cn_active c' = cn_active c" and "cn_loop c' = cn_loop c" and "cn_workers c' = cn_workers c"
    and "cn_cancelled c' = cn_cancelled c" and "cn_input c' = cn_input c"
    and "\<exists>entries. (entries = [] \<or> (\<exists>r. reply = Some r \<and> entries = [Answered (rq_key rq) r]))
      \<and> cn_log c' = cn_log c @ entries"
  using assms write_logged_fields
  by (auto simp: write_region_def split: option.splits prod.splits sum.splits)

lemma write_reply_fields:
  "cn_session (write_reply m key reply c) = cn_session c" "cn_lock (write_reply m key reply c) = cn_lock c"
  "cn_pending (write_reply m key reply c) = cn_pending c" "cn_active (write_reply m key reply c) = cn_active c"
  "cn_workers (write_reply m key reply c) = cn_workers c"
  "cn_cancelled (write_reply m key reply c) = cn_cancelled c"
  "cn_loop (write_reply m key reply c) = L_Read \<and> cn_log (write_reply m key reply c) = cn_log c @ [Immediate m key reply]
   \<or> (\<exists>e. cn_loop (write_reply m key reply c) = L_Closing (Inl e)) \<and> cn_log (write_reply m key reply c) = cn_log c"
  by (auto simp: write_reply_def write_logged_def split: prod.splits sum.splits)

lemma conn_read_fields:
  "cn_session (conn_read c) = cn_session c" "cn_lock (conn_read c) = cn_lock c"
  "cn_pending (conn_read c) = cn_pending c" "cn_active (conn_read c) = cn_active c"
  "cn_workers (conn_read c) = cn_workers c" "cn_cancelled (conn_read c) = cn_cancelled c"
  "cn_log (conn_read c) = cn_log c"
  "(\<exists>m. cn_loop (conn_read c) = (if is_version m then L_Reset m else L_Admit m))
   \<or> (\<exists>r. cn_loop (conn_read c) = L_Closing r)"
  by (auto simp: conn_read_def split: prod.splits sum.splits option.splits)

lemma reset_region_fields:
  "cn_session (reset_region c) = (cn_session c)\<lparr>requests := table_reset (requests (cn_session c))\<rparr>"
  "cn_lock (reset_region c) = cn_lock c" "cn_pending (reset_region c) = fmempty"
  "cn_active (reset_region c) = cn_active c" "cn_workers (reset_region c) = cn_workers c"
  "cn_log (reset_region c) = cn_log c" "cn_cancelled (reset_region c) = cn_cancelled c |\<union>| fmdom (cn_pending c)"
  by (simp_all add: reset_region_def cancel_all_def)

lemma conn_admit_fields:
  assumes "admit m (cn_session c) = (event, s')"
  shows "cn_session (conn_admit h m c) = s'" and "cn_lock (conn_admit h m c) = cn_lock c"
    and "cn_active (conn_admit h m c) = cn_active c" and "cn_workers (conn_admit h m c) = cn_workers c"
    and "cn_log (conn_admit h m c) = cn_log c"
    and "fmdom (cn_pending (conn_admit h m c)) |\<subseteq>| fmdom (cn_pending c)"
    and "cn_loop (conn_admit h m c) =
      (case event of
         Ev_Reply reply \<Rightarrow> L_Reply m (request_key_of m (cn_session c)) reply
       | Ev_Flush reply _ \<Rightarrow> L_Reply m (request_key_of m (cn_session c)) reply
       | Ev_Dispatch rq \<Rightarrow> (if is_async h rq then L_Dispatch rq else L_Perform rq))"
  using assms
  by (auto simp: conn_admit_def Let_def cancel_key_def cancel_fid_def
      split: prod.splits server_event.splits flush_outcome.splits option.splits server_request_kind.splits)

lemma complete_region_fields:
  assumes "complete_region rq completion c = (reply, c')"
  shows "complete rq completion (cn_session c) = (reply, cn_session c')" and "cn_lock c' = cn_lock c"
    and "cn_pending c' = cn_pending c" and "cn_active c' = cn_active c" and "cn_loop c' = cn_loop c"
    and "cn_workers c' = cn_workers c" and "cn_log c' = cn_log c" and "cn_cancelled c' = cn_cancelled c"
  using assms by (auto simp: complete_region_def split: prod.splits)

lemma dispatch_async_fields:
  "cn_session (dispatch_async h rq c) = cn_session c" "cn_lock (dispatch_async h rq c) = cn_lock c"
  "cn_workers (dispatch_async h rq c) = cn_workers c" "cn_log (dispatch_async h rq c) = cn_log c"
  "cn_cancelled (dispatch_async h rq c) = cn_cancelled c"
  "cn_loop (dispatch_async h rq c) = L_Spawn rq \<and> cn_active (dispatch_async h rq c) = cn_active c + 1
     \<and> cn_active c < max_async_requests (config (cn_session c))
     \<and> fmdom (cn_pending (dispatch_async h rq c)) = finsert (rq_key rq) (fmdom (cn_pending c))
   \<or> (\<exists>e. cn_loop (dispatch_async h rq c) = L_Complete rq (Inl e)) \<and> cn_active (dispatch_async h rq c) = cn_active c
     \<and> cn_pending (dispatch_async h rq c) = cn_pending c"
  by (auto simp: dispatch_async_def try_acquire_def)

lemma spawn_fields:
  "cn_session (spawned rq c) = cn_session c" "cn_lock (spawned rq c) = cn_lock c"
  "cn_pending (spawned rq c) = cn_pending c" "cn_active (spawned rq c) = cn_active c"
  "cn_log (spawned rq c) = cn_log c" "cn_loop (spawned rq c) = L_Read" "cn_cancelled (spawned rq c) = cn_cancelled c"
  "cn_workers (spawned rq c) = fmupd (rq_key rq) \<lparr>w_request = rq, w_pc = W_Perform\<rparr> (cn_workers c)"
  "cn_session (spawn_failed rq text c) = cn_session c" "cn_lock (spawn_failed rq text c) = cn_lock c"
  "cn_pending (spawn_failed rq text c) = fmdrop (rq_key rq) (cn_pending c)"
  "cn_active (spawn_failed rq text c) = cn_active c - 1" "cn_workers (spawn_failed rq text c) = cn_workers c"
  "cn_log (spawn_failed rq text c) = cn_log c" "cn_cancelled (spawn_failed rq text c) = cn_cancelled c"
  "\<exists>e. cn_loop (spawn_failed rq text c) = L_Complete rq (Inl e)"
  by (simp_all add: spawned_def spawn_failed_def tracker_release_def)

lemma set_worker_fields [simp]:
  "cn_session (set_worker key rq pc c) = cn_session c" "cn_lock (set_worker key rq pc c) = cn_lock c"
  "cn_pending (set_worker key rq pc c) = cn_pending c" "cn_active (set_worker key rq pc c) = cn_active c"
  "cn_log (set_worker key rq pc c) = cn_log c" "cn_loop (set_worker key rq pc c) = cn_loop c"
  "cn_cancelled (set_worker key rq pc c) = cn_cancelled c"
  "cn_workers (set_worker key rq pc c) = fmupd key \<lparr>w_request = rq, w_pc = pc\<rparr> (cn_workers c)"
  by (simp_all add: set_worker_def)

lemmas region_fields = write_reply_fields(1-6) conn_read_fields(1-7) reset_region_fields dispatch_async_fields(1-5)
  spawn_fields(1-15)

section \<open>Requests in flight\<close>

fun loop_request :: "loop_pc \<Rightarrow> server_request option" where
  "loop_request (L_Dispatch rq) = Some rq"
| "loop_request (L_Spawn rq) = Some rq"
| "loop_request (L_Perform rq) = Some rq"
| "loop_request (L_Complete rq _) = Some rq"
| "loop_request _ = None"

fun unfinished :: "worker_pc \<Rightarrow> bool" where
  "unfinished W_Perform = True"
| "unfinished (W_Complete _) = True"
| "unfinished _ = False"

definition held :: "conn \<Rightarrow> server_request set" where
  "held c = set_option (loop_request (cn_loop c))
     \<union> {rq. \<exists>key w. fmlookup (cn_workers c) key = Some w \<and> rq = w_request w \<and> unfinished (w_pc w)}"

text \<open>When nothing may be live: from the reset of the table to the version message that follows it, or to
  the end.\<close>

fun window :: "loop_pc \<Rightarrow> bool" where
  "window (L_Idle _) = True"
| "window (L_Admit m) = is_version m"
| "window (L_Closing _) = True"
| "window (L_Closing_Idle _) = True"
| "window (L_Done _) = True"
| "window _ = False"

definition session_inv :: "conn \<Rightarrow> bool" where
  "session_inv c \<longleftrightarrow>
     covered (cn_session c) (held c) {} \<or> window (cn_loop c) \<and> live (requests (cn_session c)) = fmempty"

text \<open>The keys of workers and of the loop's request are old and pairwise different.\<close>

definition keys_inv :: "conn \<Rightarrow> bool" where
  "keys_inv c \<longleftrightarrow>
     (\<forall>key w. fmlookup (cn_workers c) key = Some w \<longrightarrow>
        rq_key (w_request w) = key \<and> key_generation key < next_generation (requests (cn_session c)))
     \<and> (\<forall>rq. loop_request (cn_loop c) = Some rq \<longrightarrow>
        fmlookup (cn_workers c) (rq_key rq) = None
        \<and> key_generation (rq_key rq) < next_generation (requests (cn_session c)))"

fun loop_writing :: "loop_pc \<Rightarrow> bool" where
  "loop_writing (L_Writing _ _) = True"
| "loop_writing _ = False"

fun worker_writing :: "worker_pc \<Rightarrow> bool" where
  "worker_writing (W_Writing _) = True"
| "worker_writing _ = False"

definition writing_at :: "conn \<Rightarrow> request_key \<Rightarrow> bool" where
  "writing_at c key \<longleftrightarrow> (case fmlookup (cn_workers c) key of None \<Rightarrow> False | Some w \<Rightarrow> worker_writing (w_pc w))"

definition lock_inv :: "conn \<Rightarrow> bool" where
  "lock_inv c \<longleftrightarrow>
     (cn_lock c = Some Loop_Thread \<longleftrightarrow> loop_writing (cn_loop c))
     \<and> (\<forall>key. cn_lock c = Some (Worker_Thread key) \<longleftrightarrow> writing_at c key)"

definition spawning :: "loop_pc \<Rightarrow> request_key fset" where
  "spawning pc = (case pc of L_Spawn rq \<Rightarrow> {|rq_key rq|} | _ \<Rightarrow> {||})"

definition count_inv :: "server_config \<Rightarrow> conn \<Rightarrow> bool" where
  "count_inv cfg c \<longleftrightarrow>
     cn_active c = fcard (fmdom (cn_workers c) |\<union>| spawning (cn_loop c))
     \<and> cn_active c \<le> max_async_requests cfg
     \<and> config (cn_session c) = cfg"

definition pending_inv :: "conn \<Rightarrow> bool" where
  "pending_inv c \<longleftrightarrow>
     (\<forall>key. key |\<in>| fmdom (cn_pending c) \<longrightarrow>
        key |\<in>| spawning (cn_loop c) \<or> (\<exists>w. fmlookup (cn_workers c) key = Some w \<and> w_pc w \<noteq> W_Release))"

fun phase_ok :: "loop_pc \<Rightarrow> bool" where
  "phase_ok (L_Reset m) = is_version m"
| "phase_ok (L_Idle m) = is_version m"
| "phase_ok _ = True"

section \<open>The request table under admission and completion\<close>

lemma finished_requests: "requests (finished k s) = snd (table_finish k (requests s))"
  by simp

lemma admit_request_table:
  assumes "admit_request m s = (event, s')"
  obtains e where "requests s' = requests s" "event = Ev_Reply (error_reply (t_tag m) e)"
  | k t rq where "table_begin (t_tag m) (requests s) = (Inr k, t)" "requests s' = t" "event = Ev_Dispatch rq" "\<not> is_flush m"
  | k t e where "table_begin (t_tag m) (requests s) = (Inr k, t)" "requests s' = snd (table_finish k t)"
      "event = Ev_Reply (error_reply (t_tag m) e)"
  | k t tag old outcome where "m = T_Flush tag old" "table_begin (t_tag m) (requests s) = (Inr k, t)" "old \<noteq> NOTAG"
      "requests s' = snd (table_finish k (snd (table_flush old t)))" "event = Ev_Flush (R_Flush tag) outcome"
proof (cases "negotiated s")
  case False
  then show ?thesis using assms that(1) by (auto simp: admit_request_def)
next
  case True
  obtain rk t where b: "table_begin (t_tag m) (requests s) = (rk, t)" by fastforce
  show ?thesis
  proof (cases rk)
    case (Inl e)
    then have "t = requests s" using b by (auto simp: table_begin_def Let_def split: if_splits)
    then show ?thesis using assms b True Inl that(1) by (auto simp: admit_request_def)
  next
    case (Inr k)
    obtain r s2 where a: "admit_after_begin m k (s\<lparr>requests := t\<rparr>) = (r, s2)" by fastforce
    show ?thesis
    proof (cases "is_flush m")
      case True
      then obtain tag old where m: "m = T_Flush tag old" by (cases m) auto
      have "key_tag k = tag" using begin_current(1) b Inr m by fastforce
      then show ?thesis
        using a assms b Inr \<open>negotiated s\<close> m that(3) [of k t] that(4) [of tag old k t]
        by (auto simp: admit_request_def admit_flush_def table_flush_def Let_def finish_with_reply_finished
            release_reservations_def split: option.splits if_splits)
    next
      case False
      have "framing t (settings s) (snd (admit_after_begin m k (s\<lparr>requests := t\<rparr>)))"
        using admit_framing [OF False, of t "settings s" k] unfolding maintains_def
        by (auto dest: spec [of _ "s\<lparr>requests := t\<rparr>"])
      then have "requests s2 = t" using a by simp
      then show ?thesis
        using a assms b Inr True False that(3) [of k t] that(2) [of k t] admit_event [OF False, of k "s\<lparr>requests := t\<rparr>"]
        by (cases r) (auto simp: admit_request_def finish_with_reply_finished)
    qed
  qed
qed

lemma begin_table:
  assumes "table_begin tag t = (Inr k, t')"
  shows "live t' = fmupd tag k (live t)" and "fmlookup (live t) tag = None" and "next_generation t \<le> next_generation t'"
    and "next_generation t \<noteq> - 1 \<Longrightarrow> next_generation t < next_generation t'"
    and "k = \<lparr>key_tag = tag, key_generation = next_generation t\<rparr>" and "tag \<noteq> NOTAG"
  using assms by (auto simp: table_begin_def Let_def saturating_add_ge saturating_succ_gt split: if_splits)

lemma next_generation_steps [simp]:
  "next_generation (snd (table_finish k t)) = next_generation t"
  "next_generation (snd (table_flush old t)) = next_generation t"
  by (simp_all add: table_finish_def table_flush_def)

lemma live_steps:
  "fmlookup (live (snd (table_finish k t))) tag = Some k' \<Longrightarrow> fmlookup (live t) tag = Some k'"
  "fmlookup (live (snd (table_flush old t))) tag = Some k' \<Longrightarrow> fmlookup (live t) tag = Some k'"
  "fmlookup (live (table_reset t)) tag = None"
  by (auto simp: table_finish_def table_flush_def table_reset_def split: if_splits)

lemma request_key_begin: "table_begin (t_tag m) (requests s) = (Inr k, t) \<Longrightarrow> k = request_key_of m s"
  by (simp add: begin_table(5) request_key_of_def)

lemma admit_table_cases:
  assumes "admit m s = (event, s')"
  obtains reply where "is_version m" "requests s' = table_reset (requests s)" "event = Ev_Reply reply" "\<And>tag. reply \<noteq> R_Flush tag"
  | e where "\<not> is_version m" "requests s' = requests s" "event = Ev_Reply (error_reply (t_tag m) e)"
  | k t rq where "\<not> is_version m" "table_begin (t_tag m) (requests s) = (Inr k, t)" "requests s' = t" "event = Ev_Dispatch rq"
  | k t e where "\<not> is_version m" "table_begin (t_tag m) (requests s) = (Inr k, t)" "requests s' = snd (table_finish k t)"
      "event = Ev_Reply (error_reply (t_tag m) e)"
  | k t tag old outcome where "m = T_Flush tag old" "table_begin (t_tag m) (requests s) = (Inr k, t)" "old \<noteq> NOTAG"
      "requests s' = snd (table_finish k (snd (table_flush old t)))" "event = Ev_Flush (R_Flush tag) outcome"
proof (rule admit_cases [OF assms])
  fix vtag msz ver
  assume m: "m = T_Version vtag msz ver" and v: "admit_version vtag msz ver s = (event, s')"
  obtain reply where "event = Ev_Reply reply" "\<And>tag. reply \<noteq> R_Flush tag"
    using v unfolding admit_version_def error_reply_def by (fastforce split: prod.splits sum.splits)
  with m admit_version_framing(2) [OF v] show ?thesis by (intro that(1)) simp_all
next
  assume nv: "\<not> is_version m" and "admit_request m s = (event, s')"
  then show ?thesis using that(2-) by (elim admit_request_table) blast+
qed

lemma admit_generation:
  assumes "admit m s = (event, s')"
  shows "next_generation (requests s) \<le> next_generation (requests s')"
  by (rule admit_table_cases [OF assms])
    (auto simp: table_reset_def saturating_add_ge dest: begin_table(3))

lemma admit_live:
  assumes "admit m s = (event, s')" and "next_generation (requests s) \<noteq> - 1"
    and "fmlookup (live (requests s')) tag = Some k"
  shows "fmlookup (live (requests s)) tag = Some k
      \<or> k = request_key_of m s \<and> tag = t_tag m \<and> next_generation (requests s) < next_generation (requests s')"
proof -
  have new: ?thesis if b: "table_begin (t_tag m) (requests s) = (Inr k', t)" and "fmlookup (live t) tag = Some k"
    and "next_generation (requests s') = next_generation t" for k' t
    using that(2,3) begin_table [OF b] request_key_begin [OF b] assms(2) by (auto split: if_splits)
  show ?thesis
    by (rule admit_table_cases [OF assms(1)]) (use assms(3) live_steps(3) new in \<open>auto dest: live_steps(1,2)\<close>)
qed

lemma admit_flush_table:
  assumes "admit m s = (Ev_Flush reply outcome, s')" and "next_generation (requests s) \<noteq> - 1"
  obtains tag old where "m = T_Flush tag old" "reply = R_Flush tag"
    "fmlookup (live (requests s')) old = None" "next_generation (requests s) < next_generation (requests s')"
proof (rule admit_table_cases [OF assms(1)])
  fix k t tag old outcome'
  assume m: "m = T_Flush tag old" and b: "table_begin (t_tag m) (requests s) = (Inr k, t)" and old: "old \<noteq> NOTAG"
    and r: "requests s' = snd (table_finish k (snd (table_flush old t)))"
    and e: "Ev_Flush reply outcome = Ev_Flush (R_Flush tag) outcome'"
  have "fmlookup (live (requests s')) old = None"
    using old unfolding r by (auto simp: table_finish_def table_flush_def)
  moreover have "next_generation (requests s) < next_generation (requests s')"
    using begin_table(4) [OF b assms(2)] r by simp
  ultimately show ?thesis using that m e by simp
qed simp_all

lemma admit_reply_not_flush:
  assumes "admit m s = (Ev_Reply reply, s')"
  shows "reply \<noteq> R_Flush tag"
  by (rule admit_table_cases [OF assms]) (auto simp: error_reply_def)

lemma admit_dispatch_table:
  assumes "admit m s = (Ev_Dispatch rq, s')" and "next_generation (requests s) \<noteq> - 1"
  shows "next_generation (requests s) < next_generation (requests s')" and "\<not> is_version m"
proof -
  have "next_generation (requests s) < next_generation (requests s') \<and> \<not> is_version m"
    by (rule admit_table_cases [OF assms(1)]) (auto dest: begin_table(4) [OF _ assms(2)])
  then show "next_generation (requests s) < next_generation (requests s')" and "\<not> is_version m" by blast+
qed

lemma complete_table:
  assumes "complete rq c s = (reply, s')"
  shows "requests s' = snd (table_finish (rq_key rq) (requests s))"
    and "reply \<noteq> None \<longleftrightarrow> current (requests s) (rq_key rq)"
proof -
  have "requests s' = snd (table_finish (rq_key rq) (requests s)) \<and> (reply \<noteq> None \<longleftrightarrow> current (requests s) (rq_key rq))"
  proof (rule complete_cases [where rq = rq and c = c and s = s])
    assume "complete rq c s = (None, s)" "\<not> current (requests s) (rq_key rq)"
    then show ?thesis using assms by (auto simp: table_finish_def current_def)
  next
    fix r s2
    assume "complete rq c s = (Some r, s2)" "current (requests s) (rq_key rq)"
      and re: "rebinds (bound_fid (rq_kind rq)) (finished (rq_key rq) s) s2"
    then show ?thesis using assms rebinds_same [OF re] by simp
  qed
  then show "requests s' = snd (table_finish (rq_key rq) (requests s))"
    and "reply \<noteq> None \<longleftrightarrow> current (requests s) (rq_key rq)" by blast+
qed

section \<open>The steps, field by field\<close>

text \<open>What a step leaves alone besides the position of the loop, as one tuple, and the steps as equations on
  it.\<close>

definition conn_view :: "conn \<Rightarrow> session \<times> lock_owner option \<times> request_key fset \<times> nat \<times> (request_key, worker) fmap \<times> log_entry list" where
  "conn_view c = (cn_session c, cn_lock c, fmdom (cn_pending c), cn_active c, cn_workers c, cn_log c)"

lemma conn_view_eq:
  "conn_view c = (s, l, p, n, w, g) \<longleftrightarrow>
     cn_session c = s \<and> cn_lock c = l \<and> fmdom (cn_pending c) = p \<and> cn_active c = n \<and> cn_workers c = w \<and> cn_log c = g"
  by (auto simp: conn_view_def)

lemma loop_step_cases:
  assumes "loop_step h c c'"
  obtains (read) m where "cn_loop c = L_Read" "cn_loop c' = (if is_version m then L_Reset m else L_Admit m)" "conn_view c' = conn_view c"
  | (read_end) r where "cn_loop c = L_Read" "cn_loop c' = L_Closing r" "conn_view c' = conn_view c"
  | (reset) m where "cn_loop c = L_Reset m" "cn_loop c' = L_Idle m" "conn_view c' = conn_view (reset_region c)"
  | (idle) m where "cn_loop c = L_Idle m" "cn_active c = 0" "cn_loop c' = L_Admit m" "conn_view c' = conn_view c"
  | (idle_failed) m e where "cn_loop c = L_Idle m" "cn_active c = 0" "cn_loop c' = L_Closing (Inl e)" "conn_view c' = conn_view c"
  | (admit) m where "cn_loop c = L_Admit m" "next_generation (requests (cn_session c)) \<noteq> - 1" "c' = conn_admit h m c"
  | (reply) m key reply where "cn_loop c = L_Reply m key reply" "cn_lock c = None" "cn_loop c' = L_Read"
      "conn_view c' = conn_view (c\<lparr>cn_log := cn_log c @ [Immediate m key reply]\<rparr>)"
  | (reply_failed) m key reply e where "cn_loop c = L_Reply m key reply" "cn_lock c = None" "cn_loop c' = L_Closing (Inl e)"
      "conn_view c' = conn_view c"
  | (dispatch) rq where "cn_loop c = L_Dispatch rq" "cn_loop c' = L_Spawn rq"
      "cn_active c < max_async_requests (config (cn_session c))"
      "conn_view c' = (cn_session c, cn_lock c, finsert (rq_key rq) (fmdom (cn_pending c)), cn_active c + 1, cn_workers c, cn_log c)"
  | (dispatch_refused) rq e where "cn_loop c = L_Dispatch rq" "cn_loop c' = L_Complete rq (Inl e)" "conn_view c' = conn_view c"
  | (spawn) rq where "cn_loop c = L_Spawn rq" "cn_loop c' = L_Read"
      "conn_view c' = conn_view (c\<lparr>cn_workers := fmupd (rq_key rq) \<lparr>w_request = rq, w_pc = W_Perform\<rparr> (cn_workers c)\<rparr>)"
  | (spawn_failed) rq e where "cn_loop c = L_Spawn rq" "cn_loop c' = L_Complete rq (Inl e)"
      "conn_view c' = conn_view (c\<lparr>cn_pending := fmdrop (rq_key rq) (cn_pending c), cn_active := cn_active c - 1\<rparr>)"
  | (perform) rq completion where "cn_loop c = L_Perform rq" "cn_loop c' = L_Complete rq completion" "conn_view c' = conn_view c"
  | (complete) rq completion reply s' where "cn_loop c = L_Complete rq completion" "cn_lock c = None"
      "complete rq completion (cn_session c) = (reply, s')" "cn_loop c' = L_Writing rq reply"
      "conn_view c' = conn_view (c\<lparr>cn_session := s', cn_lock := Some Loop_Thread\<rparr>)"
  | (written) rq reply entries pc where "cn_loop c = L_Writing rq reply" "cn_loop c' = pc" "pc = L_Read \<or> (\<exists>e. pc = L_Closing (Inl e))"
      "entries = [] \<or> (\<exists>r. reply = Some r \<and> entries = [Answered (rq_key rq) r])"
      "conn_view c' = conn_view (c\<lparr>cn_lock := None, cn_log := cn_log c @ entries\<rparr>)"
  | (closing) r where "cn_loop c = L_Closing r" "cn_loop c' = L_Closing_Idle r" "conn_view c' = conn_view (reset_region c)"
  | (closed) r r' where "cn_loop c = L_Closing_Idle r" "cn_active c = 0" "cn_loop c' = L_Done r'" "conn_view c' = conn_view c"
  using assms
proof cases
  case loop_read
  have "conn_view (conn_read c) = conn_view c" by (simp add: conn_view_def conn_read_fields)
  with loop_read conn_read_fields(8) [of c] show ?thesis using that(1,2) by metis
next
  case (loop_reset m)
  then show ?thesis by (intro that(3)) (auto simp: conn_view_def)
next
  case (loop_idle m handler_reset)
  then show ?thesis using that(4,5) by (cases handler_reset) (auto simp: conn_view_def)
next
  case (loop_admit m)
  then show ?thesis using that(6) by blast
next
  case (loop_reply m key reply)
  from write_reply_fields(7) [of m key reply c] show ?thesis
  proof (elim disjE conjE exE)
    assume l: "cn_loop (write_reply m key reply c) = L_Read"
      "cn_log (write_reply m key reply c) = cn_log c @ [Immediate m key reply]"
    show ?thesis by (rule that(7) [OF loop_reply(2,3)]) (simp_all add: loop_reply(1) conn_view_def write_reply_fields(1-6) l)
  next
    fix e
    assume l: "cn_loop (write_reply m key reply c) = L_Closing (Inl e)" "cn_log (write_reply m key reply c) = cn_log c"
    show ?thesis by (rule that(8) [OF loop_reply(2,3)]) (simp_all add: loop_reply(1) conn_view_def write_reply_fields(1-6) l)
  qed
next
  case (loop_dispatch rq)
  from dispatch_async_fields(6) [of h rq c] show ?thesis
  proof (elim disjE conjE exE)
    assume l: "cn_loop (dispatch_async h rq c) = L_Spawn rq" "cn_active (dispatch_async h rq c) = cn_active c + 1"
      "cn_active c < max_async_requests (config (cn_session c))"
      "fmdom (cn_pending (dispatch_async h rq c)) = finsert (rq_key rq) (fmdom (cn_pending c))"
    show ?thesis
      by (rule that(9) [OF loop_dispatch(2) _ l(3)]) (simp_all add: loop_dispatch(1) conn_view_def dispatch_async_fields(1-5) l)
  next
    fix e
    assume l: "cn_loop (dispatch_async h rq c) = L_Complete rq (Inl e)" "cn_active (dispatch_async h rq c) = cn_active c"
      "cn_pending (dispatch_async h rq c) = cn_pending c"
    show ?thesis
      by (rule that(10) [OF loop_dispatch(2)]) (simp_all add: loop_dispatch(1) conn_view_def dispatch_async_fields(1-5) l)
  qed
next
  case (loop_spawn rq)
  show ?thesis by (rule that(11) [OF loop_spawn(2)]) (simp_all add: loop_spawn(1) conn_view_def spawn_fields(1-8))
next
  case (loop_spawn_failed rq msg)
  obtain e where "cn_loop (spawn_failed rq msg c) = L_Complete rq (Inl e)" using spawn_fields(16) [of rq msg c] by blast
  then show ?thesis
    by (intro that(12) [OF loop_spawn_failed(2)]) (simp_all add: loop_spawn_failed(1) conn_view_def spawn_fields(9-15))
next
  case (loop_perform rq completion)
  show ?thesis by (rule that(13) [OF loop_perform(2)]) (simp_all add: loop_perform(1) conn_view_def)
next
  case (loop_complete rq completion reply c1)
  show ?thesis
    by (rule that(14) [OF loop_complete(2,3) complete_region_fields(1) [OF loop_complete(4)]])
      (simp_all add: loop_complete(1) conn_view_def complete_region_fields(2-7) [OF loop_complete(4)])
next
  case (loop_write rq reply res c1)
  from write_region_fields(9) [OF loop_write(3)] obtain entries where
    e: "entries = [] \<or> (\<exists>r. reply = Some r \<and> entries = [Answered (rq_key rq) r])" and "cn_log c1 = cn_log c @ entries" by blast
  then show ?thesis
    by (intro that(15) [OF loop_write(2) refl _ e])
      (simp_all add: loop_write(1) conn_view_def write_region_fields(1-8) [OF loop_write(3)] split: sum.split)
next
  case (loop_closing result)
  show ?thesis by (rule that(16) [OF loop_closing(2)]) (simp_all add: loop_closing(1) conn_view_def)
next
  case (loop_closed result handler_reset)
  show ?thesis by (rule that(17) [OF loop_closed(2,3)]) (simp_all add: loop_closed(1) conn_view_def)
qed

lemma worker_step_cases:
  assumes "worker_step key c c'"
  obtains (perform) rq completion where "fmlookup (cn_workers c) key = Some \<lparr>w_request = rq, w_pc = W_Perform\<rparr>"
      "conn_view c' = conn_view (set_worker key rq (W_Complete completion) c)" "cn_loop c' = cn_loop c"
  | (complete) rq completion reply s' where
      "fmlookup (cn_workers c) key = Some \<lparr>w_request = rq, w_pc = W_Complete completion\<rparr>" "cn_lock c = None"
      "complete rq completion (cn_session c) = (reply, s')" "cn_loop c' = cn_loop c"
      "conn_view c' = conn_view (set_worker key rq (W_Writing reply) (c\<lparr>cn_session := s', cn_lock := Some (Worker_Thread key)\<rparr>))"
  | (written) rq reply entries where "fmlookup (cn_workers c) key = Some \<lparr>w_request = rq, w_pc = W_Writing reply\<rparr>"
      "entries = [] \<or> (\<exists>r. reply = Some r \<and> entries = [Answered (rq_key rq) r])" "cn_loop c' = cn_loop c"
      "conn_view c' = conn_view (set_worker key rq W_Drop (c\<lparr>cn_lock := None, cn_log := cn_log c @ entries\<rparr>))"
  | (drop_guard) rq where "fmlookup (cn_workers c) key = Some \<lparr>w_request = rq, w_pc = W_Drop\<rparr>" "cn_loop c' = cn_loop c"
      "conn_view c' = conn_view (set_worker key rq W_Release (c\<lparr>cn_pending := fmdrop key (cn_pending c)\<rparr>))"
  | (release) rq where "fmlookup (cn_workers c) key = Some \<lparr>w_request = rq, w_pc = W_Release\<rparr>" "cn_loop c' = cn_loop c"
      "conn_view c' = conn_view (c\<lparr>cn_active := cn_active c - 1, cn_workers := fmdrop key (cn_workers c)\<rparr>)"
  using assms
proof cases
  case (worker_perform rq completion)
  show ?thesis by (rule that(1) [OF worker_perform(2)]) (simp_all add: worker_perform(1))
next
  case (worker_complete rq completion reply c1)
  show ?thesis
    by (rule that(2) [OF worker_complete(2,3) complete_region_fields(1) [OF worker_complete(4)]])
      (simp_all add: worker_complete(1) conn_view_def complete_region_fields(2-7) [OF worker_complete(4)])
next
  case (worker_write rq reply res c1)
  from write_region_fields(9) [OF worker_write(3)] obtain entries where
    e: "entries = [] \<or> (\<exists>r. reply = Some r \<and> entries = [Answered (rq_key rq) r])" and "cn_log c1 = cn_log c @ entries" by blast
  then show ?thesis
    by (intro that(3) [OF worker_write(2) e])
      (simp_all add: worker_write(1) conn_view_def write_region_fields(1-8) [OF worker_write(3)])
next
  case (worker_drop rq)
  show ?thesis by (rule that(4) [OF worker_drop(2)]) (simp_all add: worker_drop(1))
next
  case (worker_release rq)
  show ?thesis
    by (rule that(5) [OF worker_release(2)]) (simp_all add: worker_release(1) tracker_release_def conn_view_def)
qed

section \<open>Phases, lock and count\<close>

lemma conn_admit_loop:
  obtains (immediate) reply where "cn_loop (conn_admit h m c) = L_Reply m (request_key_of m (cn_session c)) reply"
  | (requested) rq where "cn_loop (conn_admit h m c) = L_Dispatch rq \<or> cn_loop (conn_admit h m c) = L_Perform rq"
      "fst (admit m (cn_session c)) = Ev_Dispatch rq"
proof -
  obtain event s' where a: "admit m (cn_session c) = (event, s')" by fastforce
  show ?thesis
    using conn_admit_fields(7) [OF a, of h] that a by (cases event) auto
qed

lemma phase_step:
  assumes "loop_step h c c'" and "phase_ok (cn_loop c)"
  shows "phase_ok (cn_loop c')"
  using assms(1)
proof (cases rule: loop_step_cases)
  case (admit m)
  then show ?thesis by (cases rule: conn_admit_loop [of h m c]) auto
qed (use assms(2) in auto)

section \<open>Keys and the session\<close>

lemma dispatched_key:
  assumes "session_ok s" and "admit m s = (Ev_Dispatch rq, s')"
  shows "rq_key rq = request_key_of m s"
proof (rule admit_dispatch_cases [OF assms(2)])
  fix k t
  assume neg: "negotiated s" and b: "table_begin (t_tag m) (requests s) = (Inr k, t)"
    and a: "admit_after_begin m k (s\<lparr>requests := t\<rparr>) = (Inr (Ev_Dispatch rq), s')"
  have "rq_key rq = k"
    using admit_dispatched [OF session_okD(2) [OF session_ok_begin(1) [OF assms(1) neg b]] a] by blast
  then show ?thesis using request_key_begin [OF b] by simp
qed

lemma keys_invD:
  assumes "keys_inv c"
  shows "fmlookup (cn_workers c) key = Some w \<Longrightarrow>
      rq_key (w_request w) = key \<and> key_generation key < next_generation (requests (cn_session c))"
    and "loop_request (cn_loop c) = Some rq \<Longrightarrow>
      fmlookup (cn_workers c) (rq_key rq) = None \<and> key_generation (rq_key rq) < next_generation (requests (cn_session c))"
  using assms unfolding keys_inv_def by blast+

lemma held_iff:
  assumes "keys_inv c"
  shows "rq \<in> held c \<longleftrightarrow> loop_request (cn_loop c) = Some rq
    \<or> (\<exists>pc. fmlookup (cn_workers c) (rq_key rq) = Some \<lparr>w_request = rq, w_pc = pc\<rparr> \<and> unfinished pc)"
proof
  assume "rq \<in> held c"
  then consider "loop_request (cn_loop c) = Some rq"
    | key w where "fmlookup (cn_workers c) key = Some w" "rq = w_request w" "unfinished (w_pc w)"
    unfolding held_def by auto
  then show "loop_request (cn_loop c) = Some rq
    \<or> (\<exists>pc. fmlookup (cn_workers c) (rq_key rq) = Some \<lparr>w_request = rq, w_pc = pc\<rparr> \<and> unfinished pc)"
  proof cases
    case (2 key w)
    then show ?thesis using keys_invD(1) [OF assms 2(1)] by (intro disjI2 exI [of _ "w_pc w"]) simp
  qed simp
next
  assume "loop_request (cn_loop c) = Some rq
    \<or> (\<exists>pc. fmlookup (cn_workers c) (rq_key rq) = Some \<lparr>w_request = rq, w_pc = pc\<rparr> \<and> unfinished pc)"
  then show "rq \<in> held c"
  proof (elim disjE exE conjE)
    fix pc
    assume w: "fmlookup (cn_workers c) (rq_key rq) = Some \<lparr>w_request = rq, w_pc = pc\<rparr>" and "unfinished pc"
    then show "rq \<in> held c"
      unfolding held_def by (intro UnI2 CollectI exI [of _ "rq_key rq"] exI [of _ "\<lparr>w_request = rq, w_pc = pc\<rparr>"]) simp
  qed (simp add: held_def)
qed

lemma held_keys:
  assumes "keys_inv c"
  shows "inj_on rq_key (held c)" and "rq \<in> held c \<Longrightarrow> key_generation (rq_key rq) < next_generation (requests (cn_session c))"
proof -
  have loop: "fmlookup (cn_workers c) (rq_key a) = None" if "loop_request (cn_loop c) = Some a" for a
    using keys_invD(2) [OF assms that] by blast
  show "inj_on rq_key (held c)"
  proof (rule inj_onI)
    fix a b
    assume ab: "a \<in> held c" "b \<in> held c" "rq_key a = rq_key b"
    note a = ab(1) [unfolded held_iff [OF assms]] and b = ab(2) [unfolded held_iff [OF assms], folded ab(3)]
    from a b show "a = b"
      by (elim disjE exE conjE) (auto dest: loop simp: ab(3))
  qed
  show "rq \<in> held c \<Longrightarrow> key_generation (rq_key rq) < next_generation (requests (cn_session c))"
    unfolding held_iff [OF assms]
  proof (elim disjE exE conjE)
    fix pc
    assume "fmlookup (cn_workers c) (rq_key rq) = Some \<lparr>w_request = rq, w_pc = pc\<rparr>"
    from keys_invD(1) [OF assms this] show ?thesis by simp
  qed (rule keys_invD(2) [OF assms, THEN conjunct2])
qed

lemma session_inv_live: "session_inv c \<Longrightarrow> \<not> window (cn_loop c) \<Longrightarrow> covered (cn_session c) (held c) {}"
  by (auto simp: session_inv_def)

lemma keys_inv_step:
  assumes "conn_step h c c'" and "keys_inv c" and "session_inv c"
  shows "keys_inv c'"
  using assms(1)
proof (cases rule: conn_step_cases)
  case 1
  then show ?thesis
  proof (cases rule: loop_step_cases)
    case (admit m)
    obtain event s' where a: "admit m (cn_session c) = (event, s')" by fastforce
    note f = conn_admit_fields [OF a, of h]
    have old: "key_generation key < next_generation (requests s')"
      if "key_generation key < next_generation (requests (cn_session c))" for key
      using that admit_generation [OF a] by (rule order.strict_trans2)
    have new: "fmlookup (cn_workers c) (rq_key rq) = None \<and> key_generation (rq_key rq) < next_generation (requests s')"
      if ev: "event = Ev_Dispatch rq" for rq
    proof -
      note t = admit_dispatch_table [OF a [unfolded ev] admit(2)]
      have "session_ok (cn_session c)"
        using session_inv_live [OF assms(3)] admit(1) t(2) coveredD(1) by auto
      from dispatched_key [OF this a [unfolded ev]]
      have g: "key_generation (rq_key rq) = next_generation (requests (cn_session c))"
        by (simp add: request_key_of_def)
      have "fmlookup (cn_workers c) (rq_key rq) = None"
      proof (rule ccontr)
        assume "fmlookup (cn_workers c) (rq_key rq) \<noteq> None"
        then obtain w where "fmlookup (cn_workers c) (rq_key rq) = Some w" by blast
        from keys_invD(1) [OF assms(2) this] g show False by simp
      qed
      with t(1) g show ?thesis by simp
    qed
    show ?thesis
      unfolding keys_inv_def admit(3) f(1,4,7)
      using keys_invD(1) [OF assms(2)] old new by (auto split: server_event.splits if_splits)
  next
    case (complete rq completion reply s')
    then show ?thesis
      using assms(2) complete_table(1) [OF complete(3)] by (auto simp: keys_inv_def conn_view_def)
  next
    case (reset m)
    then show ?thesis
      using assms(2) by (auto simp: keys_inv_def conn_view_def region_fields table_reset_def saturating_succ_less)
  next
    case (closing r)
    then show ?thesis
      using assms(2) by (auto simp: keys_inv_def conn_view_def region_fields table_reset_def saturating_succ_less)
  qed (use assms(2) in \<open>auto simp: keys_inv_def conn_view_def\<close>)
next
  case (2 key)
  have wk: "rq_key rq = key" if "fmlookup (cn_workers c) key = Some \<lparr>w_request = rq, w_pc = pc\<rparr>" for rq pc
    using keys_invD(1) [OF assms(2) that] by simp
  from 2 show ?thesis
  proof (cases rule: worker_step_cases)
    case (complete rq completion reply s')
    then show ?thesis
      using assms(2) complete_table(1) [OF complete(3)] wk [OF complete(1)] by (auto simp: keys_inv_def conn_view_def)
  qed (use assms(2) in \<open>auto simp: keys_inv_def conn_view_def dest: wk\<close>)
qed

lemma version_covers:
  assumes "admit m s = (event, s')" and "is_version m" and "inj_on rq_key out"
    and "\<And>rq. rq \<in> out \<Longrightarrow> key_generation (rq_key rq) < next_generation (requests s)"
  shows "covered s' out {} \<and> dispatched event = {}"
proof -
  from assms(1,2) obtain tag msz ver where v: "admit_version tag msz ver s = (event, s')"
    by (cases m) (auto simp: admit_def)
  have s': "s' = snd (reset_for_version msz ver s)" and ev: "dispatched event = {}"
    using v by (auto simp: admit_version_def split: prod.splits sum.splits)
  have "session_ok s'" unfolding s' by (rule session_ok_reset)
  moreover have "key_generation (rq_key rq) < next_generation (requests s')" if "rq \<in> out" for rq
    using order.strict_trans2 [OF assms(4) [OF that] admit_generation [OF assms(1)]] .
  moreover have "\<not> current (requests s') k" for k
    by (simp add: admit_version_framing(2) [OF v] table_reset_def current_def)
  ultimately show ?thesis
    using assms(3) ev by (simp add: covered_def)
qed

lemma held_same:
  assumes "conn_view c' = conn_view c" and "loop_request (cn_loop c') = loop_request (cn_loop c)"
  shows "held c' = held c"
  using assms by (simp add: held_def conn_view_def)

lemma session_inv_same:
  assumes "session_inv c" and "conn_view c' = conn_view c" and "loop_request (cn_loop c') = loop_request (cn_loop c)"
    and "window (cn_loop c) \<Longrightarrow> window (cn_loop c')"
  shows "session_inv c'"
  using assms(1,4) held_same [OF assms(2,3)] assms(2) by (auto simp: session_inv_def conn_view_def)

lemma held_finish:
  assumes "keys_inv c" and "keys_inv c'" and "rq \<in> held c"
    and "\<And>key. key \<noteq> rq_key rq \<Longrightarrow> fmlookup (cn_workers c') key = fmlookup (cn_workers c) key"
    and "\<And>x pc. fmlookup (cn_workers c') (rq_key rq) = Some \<lparr>w_request = x, w_pc = pc\<rparr> \<Longrightarrow> \<not> unfinished pc"
    and "\<And>rq'. loop_request (cn_loop c') = Some rq' \<longleftrightarrow> loop_request (cn_loop c) = Some rq' \<and> rq' \<noteq> rq"
  shows "held c' = held c - {rq}"
proof (rule set_eqI)
  fix x
  show "x \<in> held c' \<longleftrightarrow> x \<in> held c - {rq}"
  proof (cases "rq_key x = rq_key rq")
    case True
    have "x \<notin> held c'"
      using assms(5,6) inj_onD [OF held_keys(1) [OF assms(1)] True _ assms(3)]
      by (auto simp: held_iff [OF assms(2)] True) (auto simp: held_iff [OF assms(1)])
    then show ?thesis
      using inj_onD [OF held_keys(1) [OF assms(1)] True _ assms(3)] by auto
  next
    case False
    then have "x \<noteq> rq" by auto
    then show ?thesis using assms(6) assms(4) [OF False] by (simp add: held_iff [OF assms(1)] held_iff [OF assms(2)])
  qed
qed

lemma held_set_worker:
  assumes "fmlookup (cn_workers c) key = Some \<lparr>w_request = rq, w_pc = pc\<rparr>"
    and "cn_workers c' = fmupd key \<lparr>w_request = rq, w_pc = pc'\<rparr> (cn_workers c)" and "cn_loop c' = cn_loop c"
    and "unfinished pc' = unfinished pc"
  shows "held c' = held c"
proof -
  have "(\<exists>w. fmlookup (cn_workers c') k = Some w \<and> x = w_request w \<and> unfinished (w_pc w))
    = (\<exists>w. fmlookup (cn_workers c) k = Some w \<and> x = w_request w \<and> unfinished (w_pc w))" for k x
    using assms(1,4) by (cases "k = key") (simp_all add: assms(2))
  then show ?thesis using assms(3) by (simp add: held_def)
qed

lemma session_inv_loop:
  assumes "loop_step h c c'" and "keys_inv c" and "session_inv c" and "phase_ok (cn_loop c)" and "keys_inv c'"
  shows "session_inv c'"
  using assms(1)
proof (cases rule: loop_step_cases)
  case (reset m)
  then show ?thesis by (simp add: session_inv_def conn_view_def reset_region_fields table_reset_def)
next
  case (closing r)
  then show ?thesis by (simp add: session_inv_def conn_view_def reset_region_fields table_reset_def)
next
  case (admit m)
  obtain event s' where a: "admit m (cn_session c) = (event, s')" by fastforce
  note f = conn_admit_fields [OF a, of h]
  have held: "held c' = held c \<union> dispatched event"
    unfolding held_def admit(3) f(4,7) using admit(1) by (cases event) auto
  have "covered s' (held c \<union> dispatched event) {}"
  proof (cases "is_version m")
    case True
    then show ?thesis using version_covers [OF a True held_keys [OF assms(2)]] by simp
  next
    case False
    then show ?thesis
      using admit_covered [OF session_inv_live [OF assms(3)] admit(2) a] admit(1) by simp
  qed
  then show ?thesis
    unfolding session_inv_def held using f(1) admit(3) by simp
next
  case (dispatch rq)
  then show ?thesis
    using assms(3) by (simp add: session_inv_def held_def conn_view_def)
next
  case (spawn rq)
  have "held c' = held c"
    using spawn keys_invD(2) [OF assms(2), of rq]
    by (auto simp: held_iff [OF assms(2)] held_iff [OF assms(5)] conn_view_def split: if_splits)
  then show ?thesis
    using session_inv_live [OF assms(3)] spawn by (simp add: session_inv_def conn_view_def)
next
  case (complete rq completion reply s')
  have rq: "rq \<in> held c" using complete(1) by (simp add: held_def)
  have "held c' = held c - {rq}"
    by (rule held_finish [OF assms(2,5) rq])
      (use complete keys_invD(2) [OF assms(2), of rq] in \<open>auto simp: conn_view_def\<close>)
  moreover have "covered s' (held c - {rq}) {}"
    using complete_covered [OF session_inv_live [OF assms(3)] rq complete(3)] complete(1) by simp
  ultimately show ?thesis
    using complete(5) by (simp add: session_inv_def conn_view_def)
next
  case (written rq reply entries pc)
  then show ?thesis
    using session_inv_live [OF assms(3)] by (auto simp: session_inv_def conn_view_def held_def)
next
  case (reply m key reply)
  then show ?thesis
    using session_inv_live [OF assms(3)] by (auto simp: session_inv_def conn_view_def held_def)
next
  case (spawn_failed rq e)
  then show ?thesis
    using session_inv_live [OF assms(3)] by (auto simp: session_inv_def conn_view_def held_def)
qed (rule session_inv_same [OF assms(3)]; use assms(4) in simp)+

lemma session_inv_worker:
  assumes "worker_step key c c'" and "keys_inv c" and "session_inv c" and "keys_inv c'"
  shows "session_inv c'"
  using assms(1)
proof (cases rule: worker_step_cases)
  case (complete rq completion reply s')
  have k: "rq_key rq = key" using keys_invD(1) [OF assms(2) complete(1)] by simp
  have rq: "rq \<in> held c" using complete(1) k by (simp add: held_iff [OF assms(2)])
  have w: "cn_workers c' = fmupd key \<lparr>w_request = rq, w_pc = W_Writing reply\<rparr> (cn_workers c)"
    using complete(5) by (simp add: conn_view_def)
  have nl: "loop_request (cn_loop c) \<noteq> Some rq" using complete(1) k keys_invD(2) [OF assms(2), of rq] by auto
  have h: "held c' = held c - {rq}"
  proof (rule held_finish [OF assms(2,4) rq])
    fix x pc
    assume "fmlookup (cn_workers c') (rq_key rq) = Some \<lparr>w_request = x, w_pc = pc\<rparr>"
    then have "pc = W_Writing reply" by (simp add: w k)
    then show "\<not> unfinished pc" by simp
  qed (use nl in \<open>auto simp: w k complete(4)\<close>)
  show ?thesis
    using assms(3) unfolding session_inv_def [of c]
  proof
    assume "covered (cn_session c) (held c) {}"
    from complete_covered [OF this rq complete(3)] show ?thesis
      using h complete(5) by (simp add: session_inv_def conn_view_def)
  next
    assume q: "window (cn_loop c) \<and> live (requests (cn_session c)) = fmempty"
    then have "\<not> current (requests (cn_session c)) (rq_key rq)" by (simp add: current_def)
    then have "requests s' = requests (cn_session c)"
      using complete_table(1) [OF complete(3)] by (simp add: table_finish_def current_def)
    moreover have "cn_session c' = s'" using complete(5) by (simp add: conn_view_def)
    ultimately show ?thesis
      unfolding session_inv_def [of c'] using q complete(4) by simp
  qed
next
  case (perform rq completion)
  then have "cn_workers c' = fmupd key \<lparr>w_request = rq, w_pc = W_Complete completion\<rparr> (cn_workers c)" and "cn_session c' = cn_session c"
    by (simp_all add: conn_view_def)
  with held_set_worker [OF perform(1)] perform assms(3) show ?thesis by (simp add: session_inv_def)
next
  case (written rq reply entries)
  then have "cn_workers c' = fmupd key \<lparr>w_request = rq, w_pc = W_Drop\<rparr> (cn_workers c)" and "cn_session c' = cn_session c"
    by (simp_all add: conn_view_def)
  with held_set_worker [OF written(1)] written assms(3) show ?thesis by (simp add: session_inv_def)
next
  case (drop_guard rq)
  then have "cn_workers c' = fmupd key \<lparr>w_request = rq, w_pc = W_Release\<rparr> (cn_workers c)" and "cn_session c' = cn_session c"
    by (simp_all add: conn_view_def)
  with held_set_worker [OF drop_guard(1)] drop_guard assms(3) show ?thesis by (simp add: session_inv_def)
next
  case (release rq)
  then have w: "cn_workers c' = fmdrop key (cn_workers c)" by (simp add: conn_view_def)
  have "(\<exists>w. fmlookup (cn_workers c') k = Some w \<and> x = w_request w \<and> unfinished (w_pc w))
    = (\<exists>w. fmlookup (cn_workers c) k = Some w \<and> x = w_request w \<and> unfinished (w_pc w))" for k x
    using release(1) by (cases "k = key") (simp_all add: w)
  then have "held c' = held c" using release(2) by (simp add: held_def)
  then show ?thesis using assms(3) release by (simp add: session_inv_def conn_view_def)
qed

section \<open>Lock and count\<close>

lemma lock_inv_same:
  assumes "lock_inv c" and "cn_workers c' = cn_workers c" and "cn_lock c' = cn_lock c"
    and "loop_writing (cn_loop c') = loop_writing (cn_loop c)"
  shows "lock_inv c'"
  using assms by (simp add: lock_inv_def writing_at_def)

lemma lock_inv_loop:
  assumes "loop_step h c c'" and "keys_inv c" and "lock_inv c"
  shows "lock_inv c'"
  using assms(1)
proof (cases rule: loop_step_cases)
  case (admit m)
  obtain event s' where a: "admit m (cn_session c) = (event, s')" by fastforce
  have "\<not> loop_writing (cn_loop c')"
    by (cases rule: conn_admit_loop [of h m c]) (use admit in auto)
  then show ?thesis
    using assms(3) admit conn_admit_fields [OF a, of h] by (simp add: lock_inv_def writing_at_def)
next
  case (spawn rq)
  then have "writing_at c' key = writing_at c key" for key
    using keys_invD(2) [OF assms(2), of rq] by (auto simp: writing_at_def conn_view_def)
  then show ?thesis
    using assms(3) spawn by (simp add: lock_inv_def conn_view_def)
next
  case (complete rq completion reply s')
  have "writing_at c' key = writing_at c key" for key
    using complete(5) by (simp add: writing_at_def conn_view_def)
  then show ?thesis
    using assms(3) complete(1,2,4,5) by (simp add: lock_inv_def conn_view_def)
next
  case (written rq reply entries pc)
  have "writing_at c' key = writing_at c key" for key
    using written(5) by (simp add: writing_at_def conn_view_def)
  then show ?thesis
    using assms(3) written(1,2,3,5) by (auto simp: lock_inv_def conn_view_def)
qed (rule lock_inv_same [OF assms(3)]; simp add: conn_view_def region_fields)+

lemma lock_inv_set_worker:
  assumes "lock_inv c" and "cn_workers c' = fmupd key \<lparr>w_request = rq, w_pc = pc\<rparr> (cn_workers c)" and "cn_loop c' = cn_loop c"
    and "cn_lock c' = (if worker_writing pc then Some (Worker_Thread key) else if writing_at c key then None else cn_lock c)"
    and "worker_writing pc \<Longrightarrow> cn_lock c = None"
  shows "lock_inv c'"
proof -
  have w: "writing_at c' k = (if k = key then worker_writing pc else writing_at c k)" for k
    using assms(2) by (simp add: writing_at_def)
  have loop: "loop_writing (cn_loop c') \<longleftrightarrow> cn_lock c = Some Loop_Thread"
    and at: "writing_at c k \<longleftrightarrow> cn_lock c = Some (Worker_Thread k)" for k
    using assms(1,3) by (auto simp: lock_inv_def)
  show ?thesis
    unfolding lock_inv_def w loop assms(4)
    using assms(5) by (cases "worker_writing pc"; cases "cn_lock c = Some (Worker_Thread key)") (auto simp: at)
qed

lemma lock_inv_worker:
  assumes "worker_step key c c'" and "lock_inv c"
  shows "lock_inv c'"
  using assms(1)
proof (cases rule: worker_step_cases)
  case (release rq)
  then have "writing_at c' k = writing_at c k" for k
    by (simp add: writing_at_def conn_view_def)
  then show ?thesis using assms(2) release by (simp add: lock_inv_def conn_view_def)
next
  case (perform rq completion)
  then show ?thesis
    by (intro lock_inv_set_worker [OF assms(2), of c' key rq "W_Complete completion"])
      (simp_all add: conn_view_def writing_at_def)
next
  case (complete rq completion reply s')
  then show ?thesis
    by (intro lock_inv_set_worker [OF assms(2), of c' key rq "W_Writing reply"]) (simp_all add: conn_view_def)
next
  case (written rq reply entries)
  then show ?thesis
    by (intro lock_inv_set_worker [OF assms(2), of c' key rq W_Drop]) (simp_all add: conn_view_def writing_at_def)
next
  case (drop_guard rq)
  then show ?thesis
    by (intro lock_inv_set_worker [OF assms(2), of c' key rq W_Release]) (simp_all add: conn_view_def writing_at_def)
qed

lemma admit_config: "admit m s = (event, s') \<Longrightarrow> config s' = config s"
  by (erule admit_cases) (use admit_version_framing(1) admit_request_framing in \<open>auto simp: settings_eq\<close>)

lemma complete_config: "complete rq c s = (reply, s') \<Longrightarrow> config s' = config s"
  using complete_framing by (auto simp: settings_eq)

lemma count_inv_loop:
  assumes "loop_step h c c'" and "keys_inv c" and "count_inv cfg c"
  shows "count_inv cfg c'"
  using assms(1)
proof (cases rule: loop_step_cases)
  case (admit m)
  obtain event s' where a: "admit m (cn_session c) = (event, s')" by fastforce
  have "spawning (cn_loop c') = {||}"
    by (cases rule: conn_admit_loop [of h m c]) (use admit in \<open>auto simp: spawning_def\<close>)
  then show ?thesis
    using assms(3) admit conn_admit_fields [OF a, of h] admit_config [OF a]
    by (auto simp: count_inv_def spawning_def)
next
  case (dispatch rq)
  then have "rq_key rq |\<notin>| fmdom (cn_workers c)"
    using keys_invD(2) [OF assms(2), of rq] by (auto simp: fmdom_notI)
  then show ?thesis
    using assms(3) dispatch by (auto simp: count_inv_def conn_view_def spawning_def fcard_finsert_disjoint)
next
  case (spawn_failed rq e)
  then have "rq_key rq |\<notin>| fmdom (cn_workers c)"
    using keys_invD(2) [OF assms(2), of rq] by (auto simp: fmdom_notI)
  then show ?thesis
    using assms(3) spawn_failed by (auto simp: count_inv_def conn_view_def spawning_def fcard_finsert_disjoint)
next
  case (complete rq completion reply s')
  then show ?thesis
    using assms(3) complete_config [OF complete(3)] by (auto simp: count_inv_def conn_view_def spawning_def)
next
  case (written rq reply entries pc)
  then show ?thesis
    using assms(3) by (auto simp: count_inv_def conn_view_def spawning_def)
qed (use assms(3) in \<open>auto simp: count_inv_def conn_view_def spawning_def region_fields\<close>)

lemma count_inv_worker:
  assumes "worker_step key c c'" and "keys_inv c" and "count_inv cfg c"
  shows "count_inv cfg c'"
  using assms(1)
proof (cases rule: worker_step_cases)
  case (complete rq completion reply s')
  then show ?thesis
    using assms(3) complete_config [OF complete(3)] by (auto simp: count_inv_def conn_view_def fmdomI finsert_absorb)
next
  case (release rq)
  have k: "key |\<in>| fmdom (cn_workers c)" using release(1) by (rule fmdomI)
  have "key |\<notin>| spawning (cn_loop c)"
    using release(1) keys_invD(2) [OF assms(2)] by (auto simp: spawning_def split: loop_pc.splits)
  then have u: "fmdom (cn_workers c) |-| {|key|} |\<union>| spawning (cn_loop c)
    = (fmdom (cn_workers c) |\<union>| spawning (cn_loop c)) |-| {|key|}" by auto
  have n: "fcard ((fmdom (cn_workers c) |\<union>| spawning (cn_loop c)) |-| {|key|})
    = fcard (fmdom (cn_workers c) |\<union>| spawning (cn_loop c)) - 1"
    using fcard_fminus_one [of key "fmdom (cn_workers c) |\<union>| spawning (cn_loop c)"] k by simp
  have f: "cn_active c' = cn_active c - 1" "cn_workers c' = fmdrop key (cn_workers c)" "cn_session c' = cn_session c"
    using release(3) by (simp_all add: conn_view_def)
  have "cn_active c \<le> max_async_requests cfg \<Longrightarrow> cn_active c - 1 \<le> max_async_requests cfg" by linarith
  with assms(3) show ?thesis
    unfolding count_inv_def release(2) f fmdom_drop u n by simp
next
  case (perform rq completion)
  then show ?thesis using assms(3) by (simp add: count_inv_def conn_view_def fmdomI finsert_absorb)
next
  case (written rq reply entries)
  then show ?thesis using assms(3) by (simp add: count_inv_def conn_view_def fmdomI finsert_absorb)
next
  case (drop_guard rq)
  then show ?thesis using assms(3) by (simp add: count_inv_def conn_view_def fmdomI finsert_absorb)
qed

lemma pending_inv_loop:
  assumes "loop_step h c c'" and "pending_inv c"
  shows "pending_inv c'"
  using assms(1)
proof (cases rule: loop_step_cases)
  case (admit m)
  obtain event s' where a: "admit m (cn_session c) = (event, s')" by fastforce
  note f = conn_admit_fields [OF a, of h]
  show ?thesis
    using assms(2) f(4) fsubsetD [OF f(6)] admit(1,3) unfolding pending_inv_def by (simp add: spawning_def)
qed (use assms(2) in \<open>auto simp: pending_inv_def conn_view_def region_fields spawning_def\<close>)

lemma pending_inv_worker:
  assumes "worker_step key c c'" and "pending_inv c"
  shows "pending_inv c'"
  using assms(1)
  by (cases rule: worker_step_cases) (use assms(2) in \<open>fastforce simp: pending_inv_def conn_view_def\<close>)+

section \<open>Together\<close>

definition conn_inv :: "server_config \<Rightarrow> conn \<Rightarrow> bool" where
  "conn_inv cfg c \<longleftrightarrow> phase_ok (cn_loop c) \<and> keys_inv c \<and> session_inv c \<and> lock_inv c \<and> count_inv cfg c \<and> pending_inv c"

lemma conn_inv_new: "conn_inv cfg (conn_new cfg r w)"
proof -
  have "covered (Session_new cfg) {} {}"
    using server_inv_init [of cfg] by (simp add: server_inv_def)
  then show ?thesis
    by (simp add: conn_inv_def conn_new_def keys_inv_def session_inv_def lock_inv_def count_inv_def pending_inv_def
        held_def spawning_def writing_at_def Session_new_def)
qed

lemma conn_inv_step:
  assumes "conn_step h c c'" and "conn_inv cfg c"
  shows "conn_inv cfg c'"
proof -
  note inv = assms(2) [unfolded conn_inv_def, THEN conjunct1] assms(2) [unfolded conn_inv_def, THEN conjunct2]
  have keys: "keys_inv c'" using keys_inv_step [OF assms(1)] inv(2) by blast
  show ?thesis
    using assms(1)
  proof (cases rule: conn_step_cases)
    case 1
    then show ?thesis
      using inv keys phase_step session_inv_loop lock_inv_loop count_inv_loop pending_inv_loop
      unfolding conn_inv_def by blast
  next
    case (2 key)
    moreover have "cn_loop c' = cn_loop c" using 2 by (cases rule: worker_step_cases) simp_all
    ultimately show ?thesis
      using inv keys session_inv_worker lock_inv_worker count_inv_worker pending_inv_worker
      unfolding conn_inv_def by metis
  qed
qed

lemma conn_inv_reachable: "conn_reachable h cfg r w c \<Longrightarrow> conn_inv cfg c"
  by (erule conn_induct) (auto simp: conn_inv_new intro: conn_inv_step)

lemmas conn_invD = conn_inv_def [THEN iffD1, THEN conjunct1] conn_inv_def [THEN iffD1, THEN conjunct2, THEN conjunct1]
  conn_inv_def [THEN iffD1, THEN conjunct2, THEN conjunct2, THEN conjunct1]
  conn_inv_def [THEN iffD1, THEN conjunct2, THEN conjunct2, THEN conjunct2, THEN conjunct1]
  conn_inv_def [THEN iffD1, THEN conjunct2, THEN conjunct2, THEN conjunct2, THEN conjunct2, THEN conjunct1]
  conn_inv_def [THEN iffD1, THEN conjunct2, THEN conjunct2, THEN conjunct2, THEN conjunct2, THEN conjunct2]

end
