(* ===== verification/R9P_System.thy ===== *)
theory R9P_System
  imports R9P_Client R9P_Connection_Inv
begin

text \<open>
  A client and a server together: the protocol client of \<^verbatim>\<open>client.rs\<close> and the session of
  \<^verbatim>\<open>server/mod.rs\<close>, with a queue of messages in each direction. Requests are issued, admitted,
  completed and their responses delivered in any order the queues allow. The client follows the
  rule of the protocol that the tag of a flushed request is not reused before the flush is answered.
\<close>

section \<open>Client calls and responses\<close>

definition client_call :: "client \<Rightarrow> op \<Rightarrow> client \<Rightarrow> bool" where
  "client_call c op c' \<longleftrightarrow>
     (\<exists>uname aname. client_attach uname aname c = (Inr op, c'))
     \<or> (\<exists>f wnames. client_walk f wnames c = (Inr op, c'))
     \<or> (\<exists>f mode. client_open f mode c = (Inr op, c'))
     \<or> (\<exists>f offset count. client_read f offset count c = (Inr op, c'))
     \<or> (\<exists>f offset data. client_write f offset data c = (Inr op, c'))
     \<or> (\<exists>f name perm mode. client_create f name perm mode c = (Inr op, c'))
     \<or> (\<exists>f. client_clunk f c = (Inr op, c'))
     \<or> (\<exists>f. client_remove f c = (Inr op, c'))
     \<or> (\<exists>f. client_stat f c = (Inr op, c'))
     \<or> (\<exists>f st. client_wstat f st c = (Inr op, c'))
     \<or> (\<exists>f oldname g newname. client_rename_at f oldname g newname c = (Inr op, c'))
     \<or> (\<exists>f. client_referrals f c = (Inr op, c'))"

lemmas client_op_defs = client_attach_def client_walk_def client_open_def client_read_def client_write_def client_create_def
  client_clunk_def client_remove_def client_stat_def client_wstat_def client_rename_at_def client_referrals_def
  tagged_op_def new_fid_op_def

text \<open>What every call has in common: one fresh tag, used in the message.\<close>

definition takes_tag :: "client \<Rightarrow> tag \<Rightarrow> client \<Rightarrow> bool" where
  "takes_tag c tag c' \<longleftrightarrow>
     tag \<noteq> NOTAG \<and> \<not> is_live (pending c) tag
     \<and> (\<forall>t. is_live (pending c') t \<longleftrightarrow> t = tag \<or> is_live (pending c) t)
     \<and> cl_msize c' = cl_msize c"

lemma alloc_tag_takes:
  assumes "alloc_tag c = (Inr tag, c')"
  shows "takes_tag c tag c'" and "flush_targets c' = flush_targets c"
proof -
  have keep: "alloc_tag_loop n c = (Inr tag, c') \<Longrightarrow> flush_targets c' = flush_targets c \<and> cl_msize c' = cl_msize c" for n c
    by (induction n arbitrary: c) (auto simp: Let_def split: if_splits prod.splits sum.splits)
  have a: "alloc_tag_loop u16_max c = (Inr tag, c')" using assms by (simp add: alloc_tag_def)
  show "takes_tag c tag c'" and "flush_targets c' = flush_targets c"
    using alloc_tag_loop_Inr [OF a] keep [OF a] by (auto simp: takes_tag_def)
qed

lemma alloc_tag_loop_busy:
  "(\<And>i. i < n \<Longrightarrow> next_tag c + word_of_nat i = NOTAG \<or> is_live (pending c) (next_tag c + word_of_nat i)) \<Longrightarrow>
     fst (alloc_tag_loop n c) = Inl (Error EDUPTAG)"
proof (induction n arbitrary: c)
  case (Suc n)
  let ?c = "c\<lparr>next_tag := next_tag c + 1\<rparr>"
  have "next_tag c = NOTAG \<or> is_live (pending c) (next_tag c)"
    using Suc.prems [of 0] by simp
  moreover have "fst (alloc_tag_loop n ?c) = Inl (Error EDUPTAG)"
    by (rule Suc.IH) (use Suc.prems [of "Suc _"] in \<open>simp add: add.assoc\<close>)
  ultimately show ?case by (auto simp: Let_def)
qed simp

text \<open>The loop looks at 65535 of the 65536 tags: with the tag before the next one free and every other one
  taken, allocation fails.\<close>

lemma alloc_tag_overlooks_one:
  assumes "\<And>t. t \<noteq> NOTAG \<Longrightarrow> t \<noteq> next_tag c - 1 \<Longrightarrow> is_live (pending c) t"
  shows "fst (alloc_tag c) = Inl (Error EDUPTAG)"
proof -
  have "(word_of_nat i :: tag) \<noteq> - 1" if "i < u16_max" for i
    using that by (simp add: word_unat_eq_iff unat_of_nat u16_max_def unsigned_minus_1_eq_mask mask_eq_exp_minus_1)
  then have "next_tag c + word_of_nat i \<noteq> next_tag c - 1" if "i < u16_max" for i
    using that unfolding diff_conv_add_uminus add_left_cancel by blast
  then show ?thesis
    unfolding alloc_tag_def by (intro alloc_tag_loop_busy) (use assms in blast)
qed

lemma client_call_takes:
  assumes "client_call c op c'"
  shows "takes_tag c (op_tag op) c'" and "t_tag (op_message op) = op_tag op" and "flush_targets c' = flush_targets c"
    and "\<not> is_version (op_message op)" and "\<not> is_flush (op_message op)"
proof -
  obtain tag c1 msg where a: "alloc_tag c = (Inr tag, c1)" and op: "op_tag op = tag" "op_message op = msg tag"
    and t: "t_tag (msg tag) = tag" "\<not> is_version (msg tag)" "\<not> is_flush (msg tag)"
    and c': "pending c' = pending c1" "flush_targets c' = flush_targets c1" "cl_msize c' = cl_msize c1"
    using assms unfolding client_call_def client_op_defs
    by (elim disjE exE) (auto simp: bind_s_Inr_iff alloc_fid_def Let_def stateful_simps split: prod.splits)
  then show "takes_tag c (op_tag op) c'" and "t_tag (op_message op) = op_tag op" and "flush_targets c' = flush_targets c"
    and "\<not> is_version (op_message op)" and "\<not> is_flush (op_message op)"
    using alloc_tag_takes [OF a] by (simp_all add: takes_tag_def)
qed

lemma client_flush_takes:
  assumes "client_flush old c = (Inr op, c')"
  shows "takes_tag c (op_tag op) c'" and "op_message op = T_Flush (op_tag op) old" and "old \<noteq> NOTAG"
    and "flush_targets c' = fmupd (op_tag op) old (flush_targets c)"
proof -
  from assms obtain tag c1 where a: "alloc_tag c = (Inr tag, c1)" and "old \<noteq> NOTAG" "op_tag op = tag"
    "op_message op = T_Flush tag old" "c' = c1\<lparr>flush_targets := fmupd tag old (flush_targets c1)\<rparr>"
    by (auto simp: client_flush_def result_simps split: if_splits)
  then show "takes_tag c (op_tag op) c'" and "op_message op = T_Flush (op_tag op) old" and "old \<noteq> NOTAG"
    and "flush_targets c' = fmupd (op_tag op) old (flush_targets c)"
    using alloc_tag_takes [OF a] by (simp_all add: takes_tag_def)
qed

text \<open>A response that a client with message size \<open>msz\<close> does not reject by its contents.\<close>

fun acceptable :: "u32 \<Rightarrow> rmessage \<Rightarrow> bool" where
  "acceptable msz (R_Version _ _ _) = False"
| "acceptable msz (R_Open _ _ iounit) = (validate_iounit msz iounit = Inr ())"
| "acceptable msz (R_Create _ _ iounit) = (validate_iounit msz iounit = Inr ())"
| "acceptable msz _ = True"

lemma receive_accepted:
  assumes "is_live (pending c) (r_tag r)" and "r_tag r \<noteq> NOTAG" and "acceptable (cl_msize c) r" and "\<not> is_live (pending c) NOTAG"
  obtains resp c' where "receive r c = (Inr resp, c')" "cl_msize c' = cl_msize c"
    "\<And>t. is_live (pending c') t \<longleftrightarrow> is_live (pending c) t \<and> t \<noteq> r_tag r
       \<and> \<not> (r = R_Flush (r_tag r) \<and> fmlookup (flush_targets c) (r_tag r) = Some t)"
    "\<And>t. t \<noteq> r_tag r \<Longrightarrow> fmlookup (flush_targets c') t = fmlookup (flush_targets c) t"
proof -
  have fin: "client_finish (r_tag r) c = (Inr (), c\<lparr>pending := snd (table_flush (r_tag r) (pending c))\<rparr>)"
    using assms(1,2) by (simp add: client_finish_Inr)
  have live: "is_live (snd (table_flush old t)) x \<longleftrightarrow> is_live t x \<and> x \<noteq> old" if "\<not> is_live t NOTAG" for old t x
    using that by (auto simp: table_flush_def is_live_def)
  have "\<exists>resp c'. receive r c = (Inr resp, c') \<and> cl_msize c' = cl_msize c
    \<and> (\<forall>t. is_live (pending c') t \<longleftrightarrow> is_live (pending c) t \<and> t \<noteq> r_tag r
       \<and> \<not> (r = R_Flush (r_tag r) \<and> fmlookup (flush_targets c) (r_tag r) = Some t))
    \<and> (\<forall>t. t \<noteq> r_tag r \<longrightarrow> fmlookup (flush_targets c') t = fmlookup (flush_targets c) t)"
    using fin assms(2-4)
    by (cases r) (auto simp: receive_done_def receive_opened_def receive_error_def receive_flush_def bind_s_eval
        stateful_simps live split: option.splits)
  then show thesis using that by blast
qed

section \<open>Tags in transit\<close>

text \<open>The tags of the system, without the rest of the messages: the client's live tags \<open>L\<close>, its flush targets,
  the server's live tags \<open>S\<close>, the requests under way (with the target of a flush) and the responses
  under way (and whether they answer a flush). A tag is in one place at a time, the target of a
  flush is nowhere behind it, and every live tag is still to be answered or flushed.\<close>

definition tags_inv :: "tag set \<Rightarrow> (tag \<Rightarrow> tag option) \<Rightarrow> tag set \<Rightarrow> (tag \<times> tag option) list \<Rightarrow> (tag \<times> bool) list \<Rightarrow> bool" where
  "tags_inv L ft S ts rs \<longleftrightarrow>
     distinct (map fst ts @ map fst rs) \<and> S \<inter> (fst ` set ts \<union> fst ` set rs) = {}
     \<and> S \<union> fst ` set ts \<union> fst ` set rs \<subseteq> L
     \<and> (\<forall>as t y bs. ts = as @ (t, Some y) # bs \<longrightarrow> ft t = Some y \<and> y \<notin> fst ` set bs)
     \<and> (\<forall>as t bs. rs = as @ (t, True) # bs \<longrightarrow>
          (\<exists>y. ft t = Some y \<and> y \<notin> fst ` set bs \<and> y \<notin> S \<and> y \<notin> fst ` set ts))
     \<and> (\<forall>t \<in> L. t \<in> S \<union> fst ` set ts \<union> fst ` set rs \<or> (\<exists>f. ft f = Some t \<and> (f, True) \<in> set rs))"

lemma tags_invD:
  assumes "tags_inv L ft S ts rs"
  shows "distinct (map fst ts)" "distinct (map fst rs)" "fst ` set ts \<inter> fst ` set rs = {}"
    "S \<inter> fst ` set ts = {}" "S \<inter> fst ` set rs = {}" "S \<subseteq> L" "fst ` set ts \<subseteq> L" "fst ` set rs \<subseteq> L"
    "ts = as @ (t, Some y) # bs \<Longrightarrow> ft t = Some y" "ts = as @ (t, Some y) # bs \<Longrightarrow> y \<notin> fst ` set bs"
    "rs = cs @ (t, True) # ds \<Longrightarrow> \<exists>y. ft t = Some y \<and> y \<notin> fst ` set ds \<and> y \<notin> S \<and> y \<notin> fst ` set ts"
    "t \<in> L \<Longrightarrow> t \<in> S \<or> t \<in> fst ` set ts \<or> t \<in> fst ` set rs \<or> (\<exists>f. ft f = Some t \<and> (f, True) \<in> set rs)"
  using assms unfolding tags_inv_def by (auto 0 3)

lemma tags_invI:
  assumes "distinct (map fst ts)" "distinct (map fst rs)" "fst ` set ts \<inter> fst ` set rs = {}"
    "S \<inter> fst ` set ts = {}" "S \<inter> fst ` set rs = {}" "S \<subseteq> L" "fst ` set ts \<subseteq> L" "fst ` set rs \<subseteq> L"
    "\<And>as t y bs. ts = as @ (t, Some y) # bs \<Longrightarrow> ft t = Some y \<and> y \<notin> fst ` set bs"
    "\<And>as t bs. rs = as @ (t, True) # bs \<Longrightarrow> \<exists>y. ft t = Some y \<and> y \<notin> fst ` set bs \<and> y \<notin> S \<and> y \<notin> fst ` set ts"
    "\<And>t. t \<in> L \<Longrightarrow> t \<in> S \<or> t \<in> fst ` set ts \<or> t \<in> fst ` set rs \<or> (\<exists>f. ft f = Some t \<and> (f, True) \<in> set rs)"
  shows "tags_inv L ft S ts rs"
  unfolding tags_inv_def
proof (intro conjI ballI allI impI)
  show "t \<in> S \<union> fst ` set ts \<union> fst ` set rs \<or> (\<exists>f. ft f = Some t \<and> (f, True) \<in> set rs)" if "t \<in> L" for t
    using assms(11) [OF that] by blast
qed (use assms(1-10) in \<open>auto simp: distinct_append\<close>)

lemma snoc_split:
  assumes "xs @ [x] = as @ y # bs"
  obtains (last) "bs = []" "xs = as" "x = y" | (inner) cs where "bs = cs @ [x]" "xs = as @ y # cs"
  using assms by (cases bs rule: rev_cases) auto

lemma tags_issue:
  assumes inv: "tags_inv L ft S ts rs" and "t \<notin> L" and guard: "\<And>f. ft f \<noteq> Some t"
  shows "tags_inv (insert t L) ft S (ts @ [(t, None)]) rs"
proof (rule tags_invI)
  show "ft u = Some y \<and> y \<notin> fst ` set bs" if "ts @ [(t, None)] = as @ (u, Some y) # bs" for as u y bs
    using that
  proof (cases rule: snoc_split)
    case (inner cs)
    then show ?thesis using tags_invD(9,10) [OF inv inner(2)] guard by auto
  qed simp
  show "\<exists>y. ft u = Some y \<and> y \<notin> fst ` set bs \<and> y \<notin> S \<and> y \<notin> fst ` set (ts @ [(t, None)])"
    if "rs = as @ (u, True) # bs" for as u bs
    using tags_invD(11) [OF inv that] guard by auto
  show "u \<in> S \<or> u \<in> fst ` set (ts @ [(t, None)]) \<or> u \<in> fst ` set rs \<or> (\<exists>f. ft f = Some u \<and> (f, True) \<in> set rs)"
    if "u \<in> insert t L" for u
    using that tags_invD(12) [OF inv, of u] by auto
qed (use tags_invD(1-8) [OF inv] assms(2) in \<open>auto simp del: Int_iff\<close>)

lemma tags_flush:
  assumes inv: "tags_inv L ft S ts rs" and "t \<notin> L" and guard: "\<And>f. ft f \<noteq> Some t"
  shows "tags_inv (insert t L) (ft(t \<mapsto> old)) S (ts @ [(t, Some old)]) rs"
proof (rule tags_invI)
  have other: "u \<noteq> t" if "u \<in> fst ` set ts \<or> u \<in> fst ` set rs" for u
    using that assms(2) tags_invD(7,8) [OF inv] by blast
  show "(ft(t \<mapsto> old)) u = Some y \<and> y \<notin> fst ` set bs" if "ts @ [(t, Some old)] = as @ (u, Some y) # bs" for as u y bs
    using that
  proof (cases rule: snoc_split)
    case (inner cs)
    then show ?thesis using tags_invD(9,10) [OF inv inner(2)] guard other [of u] by auto
  qed simp
  show "\<exists>y. (ft(t \<mapsto> old)) u = Some y \<and> y \<notin> fst ` set bs \<and> y \<notin> S \<and> y \<notin> fst ` set (ts @ [(t, Some old)])"
    if "rs = as @ (u, True) # bs" for as u bs
    using tags_invD(11) [OF inv that] guard other [of u] that by auto
  show "u \<in> S \<or> u \<in> fst ` set (ts @ [(t, Some old)]) \<or> u \<in> fst ` set rs \<or> (\<exists>f. (ft(t \<mapsto> old)) f = Some u \<and> (f, True) \<in> set rs)"
    if "u \<in> insert t L" for u
  proof -
    have "f \<noteq> t" if "(f, True) \<in> set rs" for f
      using other [of f] that by force
    then show ?thesis using that tags_invD(12) [OF inv, of u] by auto
  qed
qed (use tags_invD(1-8) [OF inv] assms(2) in \<open>auto simp del: Int_iff\<close>)

lemma tags_answer:
  assumes inv: "tags_inv L ft S ((t, target) # ts) rs"
  shows "tags_inv L ft S ts (rs @ [(t, False)])"
proof (rule tags_invI)
  show "ft u = Some y \<and> y \<notin> fst ` set bs" if "ts = as @ (u, Some y) # bs" for as u y bs
    using tags_invD(9,10) [OF inv, of "(t, target) # as"] that by simp
  show "\<exists>y. ft u = Some y \<and> y \<notin> fst ` set bs \<and> y \<notin> S \<and> y \<notin> fst ` set ts"
    if "rs @ [(t, False)] = as @ (u, True) # bs" for as u bs
    using that
  proof (cases rule: snoc_split)
    case (inner cs)
    then show ?thesis using tags_invD(11) [OF inv inner(2)] by auto
  qed simp
  show "u \<in> S \<or> u \<in> fst ` set ts \<or> u \<in> fst ` set (rs @ [(t, False)]) \<or> (\<exists>f. ft f = Some u \<and> (f, True) \<in> set (rs @ [(t, False)]))"
    if "u \<in> L" for u
    using tags_invD(12) [OF inv that] by auto
qed (use tags_invD(1-8) [OF inv] in auto)

lemma tags_dispatch:
  assumes inv: "tags_inv L ft S ((t, target) # ts) rs"
  shows "tags_inv L ft (insert t S) ts rs"
proof (rule tags_invI)
  show "ft u = Some y \<and> y \<notin> fst ` set bs" if "ts = as @ (u, Some y) # bs" for as u y bs
    using tags_invD(9,10) [OF inv, of "(t, target) # as"] that by simp
  show "\<exists>y. ft u = Some y \<and> y \<notin> fst ` set bs \<and> y \<notin> insert t S \<and> y \<notin> fst ` set ts"
    if "rs = as @ (u, True) # bs" for as u bs
    using tags_invD(11) [OF inv that] by auto
  show "u \<in> insert t S \<or> u \<in> fst ` set ts \<or> u \<in> fst ` set rs \<or> (\<exists>f. ft f = Some u \<and> (f, True) \<in> set rs)" if "u \<in> L" for u
    using tags_invD(12) [OF inv that] by auto
qed (use tags_invD(1-8) [OF inv] in auto)

lemma tags_flushed:
  assumes inv: "tags_inv L ft S ((t, Some old) # ts) rs"
  shows "tags_inv L ft (S - {old}) ts (rs @ [(t, True)])"
proof (rule tags_invI)
  have t: "ft t = Some old" "old \<notin> fst ` set ts"
    using tags_invD(9,10) [OF inv, of "[]"] by simp_all
  show "ft u = Some y \<and> y \<notin> fst ` set bs" if "ts = as @ (u, Some y) # bs" for as u y bs
    using tags_invD(9,10) [OF inv, of "(t, Some old) # as"] that by simp
  show "\<exists>y. ft u = Some y \<and> y \<notin> fst ` set bs \<and> y \<notin> S - {old} \<and> y \<notin> fst ` set ts"
    if "rs @ [(t, True)] = as @ (u, True) # bs" for as u bs
    using that
  proof (cases rule: snoc_split)
    case (inner cs)
    then show ?thesis using tags_invD(11) [OF inv inner(2)] by auto
  qed (use t in auto)
  show "u \<in> S - {old} \<or> u \<in> fst ` set ts \<or> u \<in> fst ` set (rs @ [(t, True)]) \<or> (\<exists>f. ft f = Some u \<and> (f, True) \<in> set (rs @ [(t, True)]))"
    if "u \<in> L" for u
    using tags_invD(12) [OF inv that] t by auto
qed (use tags_invD(1-8) [OF inv] in auto)

lemma tags_complete:
  assumes inv: "tags_inv L ft S ts rs" and "t \<in> S"
  shows "tags_inv L ft (S - {t}) ts (rs @ [(t, False)])"
proof (rule tags_invI)
  show "\<exists>y. ft u = Some y \<and> y \<notin> fst ` set bs \<and> y \<notin> S - {t} \<and> y \<notin> fst ` set ts"
    if "rs @ [(t, False)] = as @ (u, True) # bs" for as u bs
    using that
  proof (cases rule: snoc_split)
    case (inner cs)
    then show ?thesis using tags_invD(11) [OF inv inner(2)] assms(2) by auto
  qed simp
  show "u \<in> S - {t} \<or> u \<in> fst ` set ts \<or> u \<in> fst ` set (rs @ [(t, False)]) \<or> (\<exists>f. ft f = Some u \<and> (f, True) \<in> set (rs @ [(t, False)]))"
    if "u \<in> L" for u
    using tags_invD(12) [OF inv that] by auto
qed (use tags_invD(1-10) [OF inv] assms(2) in auto)

lemma tags_deliver:
  assumes inv: "tags_inv L ft S ts ((t, fl) # rs)" and keep: "\<And>u. u \<noteq> t \<Longrightarrow> ft' u = ft u"
  shows "tags_inv {u \<in> L. u \<noteq> t \<and> \<not> (fl \<and> ft t = Some u)} ft' S ts rs" (is "tags_inv ?L _ _ _ _")
proof (rule tags_invI)
  have other: "u \<noteq> t" if "u \<in> fst ` set ts \<or> u \<in> fst ` set rs \<or> u \<in> S" for u
    using that tags_invD(2,3,5) [OF inv] by auto
  have gone: "y \<notin> S \<and> y \<notin> fst ` set ts \<and> y \<notin> fst ` set rs" if "fl" "ft t = Some y" for y
    using tags_invD(11) [OF inv, of "[]" t rs] that by auto
  have "u \<in> ?L" if "u \<in> fst ` set ts \<or> u \<in> fst ` set rs \<or> u \<in> S" for u
    using that other [OF that] gone [of u] tags_invD(6-8) [OF inv] by auto
  then show "S \<subseteq> ?L" "fst ` set ts \<subseteq> ?L" "fst ` set rs \<subseteq> ?L" by blast+
  show "ft' u = Some y \<and> y \<notin> fst ` set bs" if "ts = as @ (u, Some y) # bs" for as u y bs
    using tags_invD(9,10) [OF inv that] keep [OF other, of u] that by simp
  show "\<exists>y. ft' u = Some y \<and> y \<notin> fst ` set bs \<and> y \<notin> S \<and> y \<notin> fst ` set ts" if "rs = as @ (u, True) # bs" for as u bs
    using tags_invD(11) [OF inv, of "(t, fl) # as"] keep [OF other, of u] that by simp
  show "u \<in> S \<or> u \<in> fst ` set ts \<or> u \<in> fst ` set rs \<or> (\<exists>f. ft' f = Some u \<and> (f, True) \<in> set rs)" if "u \<in> ?L" for u
  proof -
    have "ft' f = ft f" if "(f, True) \<in> set rs" for f
      using that by (intro keep other) force
    then have "\<exists>f. ft' f = Some u \<and> (f, True) \<in> set rs" if "\<exists>f. ft f = Some u \<and> (f, True) \<in> set rs"
      using that by metis
    then show ?thesis using that tags_invD(12) [OF inv, of u] by auto
  qed
qed (use tags_invD(1-5) [OF inv] in auto)

section \<open>The network\<close>

record network =
  nw_client :: client
  nw_session :: session
  nw_out :: "server_request set"
  to_server :: "tmessage list"
  to_client :: "rmessage list"

text \<open>The version handshake: the request of a new client, the reply of a new session.\<close>

definition connected :: "server_config \<Rightarrow> network \<Rightarrow> bool" where
  "connected cfg n \<longleftrightarrow>
     (\<exists>msz v m c reply s resp c'. version_request_for msz v Client_new = (m, c)
        \<and> admit m (Session_new cfg) = (Ev_Reply reply, s) \<and> negotiated s
        \<and> receive reply c = (Inr resp, c')
        \<and> n = \<lparr>nw_client = c', nw_session = s, nw_out = {}, to_server = [], to_client = []\<rparr>)"

fun event_replies :: "server_event \<Rightarrow> rmessage list" where
  "event_replies (Ev_Reply reply) = [reply]"
| "event_replies (Ev_Flush reply _) = [reply]"
| "event_replies (Ev_Dispatch _) = []"

text \<open>A tag that a flush still names is not taken for a new request.\<close>

definition unnamed :: "client \<Rightarrow> tag \<Rightarrow> bool" where
  "unnamed c tag \<longleftrightarrow> (\<forall>f. fmlookup (flush_targets c) f \<noteq> Some tag)"

inductive network_step :: "network \<Rightarrow> network \<Rightarrow> bool" where
  net_call: "client_call (nw_client n) op c \<Longrightarrow> unnamed (nw_client n) (op_tag op) \<Longrightarrow>
     network_step n (n\<lparr>nw_client := c, to_server := to_server n @ [op_message op]\<rparr>)"
| net_flush: "client_flush old (nw_client n) = (Inr op, c) \<Longrightarrow> unnamed (nw_client n) (op_tag op) \<Longrightarrow>
     network_step n (n\<lparr>nw_client := c, to_server := to_server n @ [op_message op]\<rparr>)"
| net_admit: "to_server n = m # ms \<Longrightarrow> next_generation (requests (nw_session n)) \<noteq> - 1 \<Longrightarrow>
     admit m (nw_session n) = (event, s) \<Longrightarrow>
     network_step n (n\<lparr>nw_session := s, nw_out := nw_out n \<union> dispatched event, to_server := ms,
       to_client := to_client n @ event_replies event\<rparr>)"
| net_complete: "rq \<in> nw_out n \<Longrightarrow> complete rq x (nw_session n) = (reply, s) \<Longrightarrow>
     network_step n (n\<lparr>nw_session := s, nw_out := nw_out n - {rq},
       to_client := to_client n @ (case reply of None \<Rightarrow> [] | Some r \<Rightarrow> [r])\<rparr>)"
| net_deliver: "to_client n = r # rs \<Longrightarrow> receive r (nw_client n) = (resp, c) \<Longrightarrow>
     network_step n (n\<lparr>nw_client := c, to_client := rs\<rparr>)"

definition network_reachable :: "server_config \<Rightarrow> network \<Rightarrow> bool" where
  "network_reachable cfg n \<longleftrightarrow> (\<exists>n0. connected cfg n0 \<and> network_step\<^sup>*\<^sup>* n0 n)"

section \<open>The invariant of the network\<close>

fun t_view :: "tmessage \<Rightarrow> tag \<times> tag option" where
  "t_view (T_Flush tag old) = (tag, Some old)"
| "t_view m = (t_tag m, None)"

definition r_view :: "rmessage \<Rightarrow> tag \<times> bool" where
  "r_view r = (r_tag r, r = R_Flush (r_tag r))"

lemma view_fst [simp]: "fst (t_view m) = t_tag m" "fst (r_view r) = r_tag r"
  by (cases m; simp) (simp add: r_view_def)

lemma view_comp [simp]: "fst \<circ> t_view = t_tag" "fst \<circ> r_view = r_tag"
  by (simp_all add: comp_def)

lemma t_view_plain: "\<not> is_flush m \<Longrightarrow> t_view m = (t_tag m, None)"
  by (cases m) auto

definition live_tags :: "request_table \<Rightarrow> tag set" where
  "live_tags t = {tag. is_live t tag}"

definition network_inv :: "server_config \<Rightarrow> network \<Rightarrow> bool" where
  "network_inv cfg n \<longleftrightarrow>
     reachable cfg (nw_session n, nw_out n) \<and> negotiated (nw_session n)
     \<and> cl_msize (nw_client n) = msize (nw_session n) \<and> \<not> is_live (pending (nw_client n)) NOTAG
     \<and> (\<forall>m \<in> set (to_server n). \<not> is_version m)
     \<and> (\<forall>r \<in> set (to_client n). acceptable (msize (nw_session n)) r)
     \<and> tags_inv (live_tags (pending (nw_client n))) (fmlookup (flush_targets (nw_client n)))
         (live_tags (requests (nw_session n))) (map t_view (to_server n)) (map r_view (to_client n))"

lemma spec_acceptable:
  assumes "completion_spec v msz state tag kind c = Inr (reply, b)"
  shows "acceptable msz reply \<and> reply \<noteq> R_Flush t"
  using assms by (cases kind; cases c)
    (auto simp: completion_spec_def opened_spec_def walk_spec_def read_spec_def complete_write_def
      clamp_iounit_def validate_iounit_def and_then_Inr_iff map_ok_Inr_iff split: if_splits)

lemma error_acceptable [simp]: "acceptable msz (error_reply tag e)"
  by (simp add: error_reply_def)

text \<open>What an admission does to the tags of the session.\<close>

lemma admit_effect:
  assumes "admit m s = (event, s')" and "session_ok s" and "\<not> is_version m" and "t_tag m \<notin> live_tags (requests s)"
  obtains (refused) e where "event = Ev_Reply (error_reply (t_tag m) e)" "live_tags (requests s') = live_tags (requests s)"
  | (accepted) rq where "event = Ev_Dispatch rq" "live_tags (requests s') = insert (t_tag m) (live_tags (requests s))"
  | (flushed) tag old outcome where "m = T_Flush tag old" "event = Ev_Flush (R_Flush tag) outcome"
      "live_tags (requests s') = live_tags (requests s) - {old}"
proof -
  have live: "live_tags t = insert (t_tag m) (live_tags (requests s))" "key_tag k = t_tag m" "t_tag m \<noteq> NOTAG"
    "fmlookup (live t) (t_tag m) = Some k"
    if "table_begin (t_tag m) (requests s) = (Inr k, t)" for k t
    using that by (auto simp: live_tags_def is_live_def table_begin_def Let_def split: if_splits)
  have fin: "live_tags (snd (table_finish k t)) = live_tags t - {key_tag k}" if "fmlookup (live t) (key_tag k) \<in> {None, Some k}" for k t
    using that by (auto simp: live_tags_def is_live_def table_finish_def)
  show thesis
  proof (rule admit_table_cases [OF assms(1)])
    fix k t rq
    assume b: "table_begin (t_tag m) (requests s) = (Inr k, t)" "requests s' = t" "event = Ev_Dispatch rq"
    then show thesis using accepted live(1) [OF b(1)] by simp
  next
    fix k t e
    assume b: "table_begin (t_tag m) (requests s) = (Inr k, t)" "requests s' = snd (table_finish k t)"
      "event = Ev_Reply (error_reply (t_tag m) e)"
    then show thesis
      using refused live [OF b(1)] fin [of t k] assms(4) by simp
  next
    fix k t tag old outcome
    assume m: "m = T_Flush tag old" and b: "table_begin (t_tag m) (requests s) = (Inr k, t)" and old: "old \<noteq> NOTAG"
      and s': "requests s' = snd (table_finish k (snd (table_flush old t)))" and e: "event = Ev_Flush (R_Flush tag) outcome"
    have "live_tags (snd (table_flush old t)) = live_tags t - {old}"
      "fmlookup (live (snd (table_flush old t))) (key_tag k) \<in> {None, Some k}"
      using old live [OF b] by (auto simp: live_tags_def is_live_def table_flush_def)
    then have "live_tags (requests s') = live_tags (requests s) - {old}"
      using fin live(1,2) [OF b] assms(4) s' by auto
    with m e flushed show thesis by blast
  qed (use assms(3) refused in auto)
qed

lemma network_invD:
  assumes "network_inv cfg n"
  shows "reachable cfg (nw_session n, nw_out n)" "session_ok (nw_session n)" "negotiated (nw_session n)"
    "cl_msize (nw_client n) = msize (nw_session n)" "\<not> is_live (pending (nw_client n)) NOTAG"
    "\<forall>m \<in> set (to_server n). \<not> is_version m" "\<forall>r \<in> set (to_client n). acceptable (msize (nw_session n)) r"
    "tags_inv (live_tags (pending (nw_client n))) (fmlookup (flush_targets (nw_client n)))
       (live_tags (requests (nw_session n))) (map t_view (to_server n)) (map r_view (to_client n))"
proof -
  show "reachable cfg (nw_session n, nw_out n)"
    using assms by (simp add: network_inv_def)
  then show "session_ok (nw_session n)"
    using reachable_covered coveredD(1) by blast
qed (use assms in \<open>simp_all add: network_inv_def\<close>)

lemma takes_tag_live: "takes_tag c tag c' \<Longrightarrow> live_tags (pending c') = insert tag (live_tags (pending c))"
  "takes_tag c tag c' \<Longrightarrow> tag \<notin> live_tags (pending c)"
  by (auto simp: takes_tag_def live_tags_def)

lemma network_inv_connected:
  assumes "connected cfg n"
  shows "network_inv cfg n"
proof -
  from assms obtain msz v m c reply s resp c' where v: "version_request_for msz v Client_new = (m, c)"
    and a: "admit m (Session_new cfg) = (Ev_Reply reply, s)" and neg: "negotiated s" and r: "receive reply c = (Inr resp, c')"
    and n: "n = \<lparr>nw_client = c', nw_session = s, nw_out = {}, to_server = [], to_client = []\<rparr>"
    unfolding connected_def by blast
  have m: "m = T_Version NOTAG msz (wire_name v)"
    using v by (simp add: version_request_for_def)
  then have av: "admit_version NOTAG msz (wire_name v) (Session_new cfg) = (Ev_Reply reply, s)"
    using a by (simp add: admit_def)
  then have reply: "reply = R_Version NOTAG (msize s) (version s)"
    using neg by (auto simp: admit_version_def reset_for_version_def invalidate_def Let_def split: if_splits option.splits)
  have "reachable cfg (s, {})"
    using reachable_admit [of cfg "Session_new cfg" "{}" m "Ev_Reply reply" s] a
    by (simp add: reachable_def Session_new_def RequestTable_new_def)
  moreover have "cl_msize c' = msize s" "live_tags (pending c') = {}"
    using r unfolding reply by (auto simp: receive_version_def Let_def table_reset_def live_tags_def is_live_def
        split: option.splits if_splits)
  moreover have "live_tags (requests s) = {}"
    using admit_version_framing(2) [OF av] by (simp add: table_reset_def live_tags_def is_live_def)
  ultimately show ?thesis
    using neg unfolding n network_inv_def by (auto simp: tags_inv_def live_tags_def)
qed

lemma network_inv_call:
  assumes inv: "network_inv cfg n" and op: "client_call (nw_client n) op c" and free: "unnamed (nw_client n) (op_tag op)"
  shows "network_inv cfg (n\<lparr>nw_client := c, to_server := to_server n @ [op_message op]\<rparr>)"
proof -
  note call = client_call_takes [OF op]
  have "tags_inv (insert (op_tag op) (live_tags (pending (nw_client n)))) (fmlookup (flush_targets (nw_client n)))
       (live_tags (requests (nw_session n))) (map t_view (to_server n) @ [(op_tag op, None)]) (map r_view (to_client n))"
    by (rule tags_issue [OF network_invD(8) [OF inv] takes_tag_live(2) [OF call(1)]])
      (use free in \<open>simp add: unnamed_def\<close>)
  then show ?thesis
    using network_invD [OF inv] call takes_tag_live(1) [OF call(1)]
    by (auto simp: network_inv_def t_view_plain takes_tag_def)
qed

lemma network_inv_flush:
  assumes inv: "network_inv cfg n" and op: "client_flush old (nw_client n) = (Inr op, c)"
    and free: "unnamed (nw_client n) (op_tag op)"
  shows "network_inv cfg (n\<lparr>nw_client := c, to_server := to_server n @ [op_message op]\<rparr>)"
proof -
  note call = client_flush_takes [OF op]
  have "tags_inv (insert (op_tag op) (live_tags (pending (nw_client n))))
       ((fmlookup (flush_targets (nw_client n)))(op_tag op \<mapsto> old))
       (live_tags (requests (nw_session n))) (map t_view (to_server n) @ [(op_tag op, Some old)]) (map r_view (to_client n))"
    by (rule tags_flush [OF network_invD(8) [OF inv] takes_tag_live(2) [OF call(1)]])
      (use free in \<open>simp add: unnamed_def\<close>)
  moreover have "fmlookup (flush_targets c) = (fmlookup (flush_targets (nw_client n)))(op_tag op \<mapsto> old)"
    by (auto simp: call(4))
  ultimately show ?thesis
    using network_invD [OF inv] call takes_tag_live(1) [OF call(1)]
    by (auto simp: network_inv_def takes_tag_def)
qed

lemma network_inv_admit:
  assumes inv: "network_inv cfg n" and ms: "to_server n = m # ms"
    and gen: "next_generation (requests (nw_session n)) \<noteq> - 1" and a: "admit m (nw_session n) = (event, s)"
  shows "network_inv cfg (n\<lparr>nw_session := s, nw_out := nw_out n \<union> dispatched event, to_server := ms,
       to_client := to_client n @ event_replies event\<rparr>)"
proof -
  note invs = network_invD [OF inv]
  have nv: "\<not> is_version m" using invs(6) ms by simp
  have tags: "tags_inv (live_tags (pending (nw_client n))) (fmlookup (flush_targets (nw_client n)))
       (live_tags (requests (nw_session n))) (t_view m # map t_view ms) (map r_view (to_client n))"
    using invs(8) ms by simp
  have fresh: "t_tag m \<notin> live_tags (requests (nw_session n))"
    using tags_invD(4) [OF tags] by auto
  have set: "settings s = settings (nw_session n)"
    using a nv by (auto elim!: admit_cases dest: admit_request_framing)
  have reach: "reachable cfg (s, nw_out n \<union> dispatched event)"
    by (rule reachable_admit [OF invs(1) gen a])
  have tags': "tags_inv (live_tags (pending (nw_client n))) (fmlookup (flush_targets (nw_client n)))
       (live_tags (requests s)) (map t_view ms) (map r_view (to_client n @ event_replies event))
     \<and> (\<forall>r \<in> set (event_replies event). acceptable (msize (nw_session n)) r)"
    using a invs(2) nv fresh
  proof (cases rule: admit_effect)
    case (refused e)
    then show ?thesis
      using tags_answer [of _ _ _ "t_tag m" "snd (t_view m)"] tags by (simp add: r_view_def error_reply_def)
        (metis prod.collapse view_fst(1))
  next
    case (accepted rq)
    then show ?thesis
      using tags_dispatch [of _ _ _ "t_tag m" "snd (t_view m)"] tags by simp (metis prod.collapse view_fst(1))
  next
    case (flushed tag old outcome)
    then show ?thesis using tags_flushed [of _ _ _ tag old] tags by (simp add: r_view_def)
  qed
  show ?thesis
    using invs(3-7) ms set reach tags' by (auto simp: network_inv_def settings_eq)
qed

lemma network_inv_complete:
  assumes inv: "network_inv cfg n" and rq: "rq \<in> nw_out n" and c: "complete rq x (nw_session n) = (reply, s)"
  shows "network_inv cfg (n\<lparr>nw_session := s, nw_out := nw_out n - {rq},
       to_client := to_client n @ (case reply of None \<Rightarrow> [] | Some r \<Rightarrow> [r])\<rparr>)"
proof -
  note invs = network_invD [OF inv]
  have set: "settings s = settings (nw_session n)"
    using complete_framing [OF c] by blast
  have reach: "reachable cfg (s, nw_out n - {rq})"
    by (rule reachable_complete [OF invs(1) rq c])
  show ?thesis
  proof (cases reply)
    case None
    then have "requests s = requests (nw_session n)"
      using complete_table [OF c] by (auto simp: table_finish_def current_def)
    then show ?thesis using invs None set reach by (simp add: network_inv_def settings_eq)
  next
    case (Some r)
    note comp = complete_Some [OF invs(1) rq c [unfolded Some]]
    obtain v where "sess_variant (nw_session n) = Some v" using comp(3) by blast
    from comp(4) [OF this] have r: "r_tag r = rq_tag rq" "acceptable (msize (nw_session n)) r" "r \<noteq> R_Flush (rq_tag rq)"
      by (auto dest: spec_reply_tag spec_acceptable simp: error_reply_def)
    have live: "live_tags (requests s) = live_tags (requests (nw_session n)) - {rq_tag rq}"
      "rq_tag rq \<in> live_tags (requests (nw_session n))"
      using complete_table(1) [OF c] comp(1)
      by (auto simp: live_tags_def is_live_def table_finish_def current_def rq_tag_def)
    show ?thesis
      using tags_complete [OF invs(8) live(2)] invs(3-7) set reach Some r
      by (auto simp: network_inv_def settings_eq live(1) r_view_def)
  qed
qed

lemma network_inv_deliver:
  assumes inv: "network_inv cfg n" and rs: "to_client n = r # rs"
  obtains resp c where "receive r (nw_client n) = (Inr resp, c)" "network_inv cfg (n\<lparr>nw_client := c, to_client := rs\<rparr>)"
proof -
  note invs = network_invD [OF inv]
  have tags: "tags_inv (live_tags (pending (nw_client n))) (fmlookup (flush_targets (nw_client n)))
       (live_tags (requests (nw_session n))) (map t_view (to_server n)) ((r_tag r, r = R_Flush (r_tag r)) # map r_view rs)"
    using invs(8) rs by (simp add: r_view_def)
  then have l: "is_live (pending (nw_client n)) (r_tag r)"
    using tags_invD(8) [OF tags] by (simp add: live_tags_def)
  then have "r_tag r \<noteq> NOTAG" "acceptable (cl_msize (nw_client n)) r"
    using invs(4,5,7) rs by auto
  from receive_accepted [OF l this invs(5)] obtain resp c where c: "receive r (nw_client n) = (Inr resp, c)"
    "cl_msize c = cl_msize (nw_client n)"
    and live: "\<And>t. is_live (pending c) t \<longleftrightarrow> is_live (pending (nw_client n)) t \<and> t \<noteq> r_tag r
       \<and> \<not> (r = R_Flush (r_tag r) \<and> fmlookup (flush_targets (nw_client n)) (r_tag r) = Some t)"
    and keep: "\<And>t. t \<noteq> r_tag r \<Longrightarrow> fmlookup (flush_targets c) t = fmlookup (flush_targets (nw_client n)) t"
    by blast
  have "tags_inv (live_tags (pending c)) (fmlookup (flush_targets c))
       (live_tags (requests (nw_session n))) (map t_view (to_server n)) (map r_view rs)"
    using tags_deliver [OF tags keep] by (simp add: live_tags_def live)
  then have "network_inv cfg (n\<lparr>nw_client := c, to_client := rs\<rparr>)"
    using invs c(2) rs live by (auto simp: network_inv_def)
  with c(1) that show thesis by blast
qed

lemma network_inv_step: "network_step n n' \<Longrightarrow> network_inv cfg n \<Longrightarrow> network_inv cfg n'"
proof (induction rule: network_step.induct)
  case (net_deliver n r rs resp c)
  from net_deliver(3,1) obtain resp' c' where "receive r (nw_client n) = (Inr resp', c')"
    "network_inv cfg (n\<lparr>nw_client := c', to_client := rs\<rparr>)" by (rule network_inv_deliver)
  with net_deliver(2) show ?case by simp
qed (auto intro: network_inv_call network_inv_flush network_inv_admit network_inv_complete)

lemma network_inv_reachable: "network_reachable cfg n \<Longrightarrow> network_inv cfg n"
  unfolding network_reachable_def
proof (elim exE conjE)
  fix n0
  assume "network_step\<^sup>*\<^sup>* n0 n" "connected cfg n0"
  then show "network_inv cfg n"
    by (induction rule: rtranclp_induct) (auto intro: network_inv_connected network_inv_step)
qed

section \<open>Client and server agree\<close>


text \<open>The run behind the witness: the handshake and an attach on its way to the server.\<close>

definition sample_client :: client where
  "sample_client = snd (receive (R_Version NOTAG 8192 (wire_name R)) (snd (version_request_for 8192 R Client_new)))"

definition sample_network :: network where
  "sample_network = \<lparr>nw_client = sample_client, nw_session = sample_negotiated R, nw_out = {}, to_server = [], to_client = []\<rparr>"

definition sample_calling :: network where
  "sample_calling = sample_network
     \<lparr>nw_client := snd (client_attach (str ''glenda'') [] sample_client), to_server := [T_Attach 0 1 NOFID (str ''glenda'') []]\<rparr>"

lemma sample_connected: "connected (sample_config R) sample_network"
proof -
  have "receive (R_Version NOTAG 8192 (wire_name R)) (snd (version_request_for 8192 R Client_new)) =
    (Inr (Resp_Completion NOTAG (Done_Version 8192 (wire_name R))), sample_client)"
    by (simp add: sample_client_def receive_version_def version_request_for_def MIN_MSIZE_def Let_def)
  then show ?thesis
    unfolding connected_def sample_network_def
    using sample_version [of R] by (intro exI [of _ 8192] exI [of _ R]) (auto simp: version_request_for_def sample_negotiated_def)
qed

lemma alloc_tag_free:
  assumes "next_tag c \<noteq> NOTAG" and "\<not> is_live (pending c) (next_tag c)"
  shows "alloc_tag c = (Inr (next_tag c), c\<lparr>next_tag := next_tag c + 1, pending := snd (table_begin (next_tag c) (pending c))\<rparr>)"
proof -
  have "alloc_tag_loop (Suc n) c = (Inr (next_tag c), c\<lparr>next_tag := next_tag c + 1, pending := snd (table_begin (next_tag c) (pending c))\<rparr>)" for n
    using assms by (simp add: Let_def table_begin_def is_live_def)
  from this [of "u16_max - 1"] show ?thesis
    by (simp add: alloc_tag_def u16_max_def)
qed

lemma sample_calling_reachable: "network_reachable (sample_config R) sample_calling"
proof -
  let ?op = "\<lparr>op_tag = 0, op_fid_opt = Some 1, op_message = T_Attach 0 1 NOFID (str ''glenda'') []\<rparr>"
  have "client_attach (str ''glenda'') [] sample_client = (Inr ?op, snd (client_attach (str ''glenda'') [] sample_client))"
    by (simp add: sample_client_def receive_version_def version_request_for_def MIN_MSIZE_def Let_def client_attach_def
        new_fid_op_def bind_s_def alloc_tag_free alloc_fid_def Client_new_def NOTAG_def
        is_live_def table_begin_def RequestTable_new_def table_reset_def)
  then have "client_call (nw_client sample_network) ?op (snd (client_attach (str ''glenda'') [] sample_client))"
    unfolding client_call_def sample_network_def by (intro disjI1 exI) simp
  from net_call [OF this] have "network_step sample_network sample_calling"
    by (simp add: sample_calling_def sample_network_def unnamed_def sample_client_def receive_version_def
        version_request_for_def MIN_MSIZE_def Let_def)
  with sample_connected show ?thesis
    unfolding network_reachable_def by blast
qed


end
