(* ===== verification/R9P_Wire_Props.thy ===== *)
theory R9P_Wire_Props
  imports R9P_Frame_IO
begin

text \<open>
  What the wire layer promises: the encodings of stats and messages are exact, directory pages hold
  whole entries, the size limits of the negotiated message size are enough, both ends agree on
  the dialect, framing does not depend on how the transport fragments the bytes, and referrals
  rebase paths without leaving the exported tree.
\<close>

section \<open>Directory pages\<close>

lemma dirread_loop_off_boundary:
  assumes "encodes sts es" and "unat position + length (concat es) < 2 ^ 64"
    and "position < offset"
    and "\<And>i. i \<le> length es \<Longrightarrow> unat position + length (concat (take i es)) \<noteq> unat offset"
  shows "dirread_loop offset limit sts position out = Inr out"
  using assms
proof (induction sts arbitrary: es position)
  case Nil
  then show ?case by simp
next
  case (Cons st sts)
  then obtain e es' where es: "es = e # es'" and e: "Stat_encode st = Inr e" and es': "encodes sts es'"
    by (auto simp: encodes_Cons1)
  let ?next = "saturating_add position (word_of_nat (length e))"
  have nx: "unat ?next = unat position + length e"
    using Cons.prems(2) es by (intro saturating_add_pos) simp
  have step: "unat ?next + length (concat (take i es')) \<noteq> unat offset" if "i \<le> length es'" for i
    using Cons.prems(4) [of "Suc i"] that es nx by simp
  show ?case
  proof (cases "?next \<le> offset")
    case True
    then have lt: "?next < offset"
      using step [of 0] by (auto simp: order.order_iff_strict)
    have "dirread_loop offset limit sts ?next out = Inr out"
      by (rule Cons.IH [OF es' _ lt step]) (use Cons.prems(2) es nx in auto)
    then show ?thesis
      using True by (simp add: e Let_def)
  next
    case False
    then show ?thesis
      using Cons.prems(3) by (simp add: e Let_def)
  qed
qed

lemma fit_entries_stops:
  assumes "length (fit_entries n es) < length es"
  shows "n < length (concat (take (Suc (length (fit_entries n es))) es))"
proof (rule ccontr)
  assume "\<not> ?thesis"
  then show False
    using fit_entries_maximal [of "Suc (length (fit_entries n es))" es n] assms by simp
qed

text \<open>A directory read returns whole entries only. When the offset is a boundary between
  two encoded entries, the page is the longest run of consecutive entries from there whose
  encodings fit the requested count; at any other offset the page is empty.\<close>

theorem dirread_chunk_whole_entries:
  assumes "encodes sts es" and "length (concat es) < 2 ^ 64"
  shows "if \<exists>i \<le> length es. length (concat (take i es)) = unat offset
    then \<exists>i n. i + n \<le> length es \<and> length (concat (take i es)) = unat offset
      \<and> dirread_chunk sts offset count = Inr (concat (take n (drop i es)))
      \<and> length (concat (take n (drop i es))) \<le> unat count
      \<and> (i + n < length es \<longrightarrow> unat count < length (concat (take (Suc n) (drop i es))))
    else dirread_chunk sts offset count = Inr []"
proof (cases "\<exists>i \<le> length es. length (concat (take i es)) = unat offset")
  case True
  then obtain i where i: "i \<le> length es" "length (concat (take i es)) = unat offset" by blast
  let ?run = "fit_entries (unat count) (drop i es)"
  have run: "take (length ?run) (drop i es) = ?run"
    using fit_entries_take [of "unat count" "drop i es"] by simp
  have "length ?run \<le> length (drop i es)"
    using run by (metis length_take min.cobounded1)
  then have "i + length ?run \<le> length es" using i(1) by simp
  moreover have "unat count < length (concat (take (Suc (length ?run)) (drop i es)))"
    if "i + length ?run < length es"
    using fit_entries_stops [of "unat count" "drop i es"] that by simp
  ultimately show ?thesis
    using True i run fit_entries_size [of "unat count" "drop i es"]
      dirread_chunk_boundary [OF assms i(1) i(2) [symmetric], of count]
    by (simp only: if_True) (intro exI [of _ i] exI [of _ "length ?run"], simp)
next
  case False
  then have "0 < offset"
    by (auto simp: word_greater_zero_iff dest: spec [of _ 0])
  then have "dirread_loop offset (unat count) sts 0 [] = Inr []"
    using False by (intro dirread_loop_off_boundary [OF assms(1)]) (use assms(2) in auto)
  then show ?thesis
    by (simp only: if_not_P [OF False] dirread_chunk_def)
qed

text \<open>A concrete entry for the witnesses: a file \<open>a\<close> of five bytes.\<close>

definition sample_stat :: stat where
  "sample_stat =
     \<lparr>stat_type = 0, stat_dev = 0, stat_qid = \<lparr>qtype = 0, qversion = 1, qpath = 7\<rparr>, stat_mode = 0x1A4,
      stat_atime = 10, stat_mtime = 11, stat_length = 5, stat_name = [97], stat_uid = [98],
      stat_gid = [99], stat_muid = []\<rparr>"

definition sample_entry :: bytes where
  "sample_entry =
     [50, 0, 0, 0, 0, 0, 0, 0, 0, 1, 0, 0, 0, 7, 0, 0, 0, 0, 0, 0, 0, 0xA4, 1, 0, 0, 10, 0, 0, 0,
      11, 0, 0, 0, 5, 0, 0, 0, 0, 0, 0, 0, 1, 0, 97, 1, 0, 98, 1, 0, 99, 0, 0]"

lemma sample_entry: "Stat_encode sample_stat = Inr sample_entry"
  by (simp add: Stat_encode_Inr stat_fields_bytes_def qid_bytes_def string_bytes_def to_le_bytes_def
      sample_stat_def sample_entry_def u16_max_def)

lemma sample_entry_length: "length sample_entry = 52"
  by (simp add: sample_entry_def)

theorem dirread_chunk_whole_entries_witness:
  "dirread_chunk [sample_stat, sample_stat] 52 60 = Inr sample_entry
   \<and> dirread_chunk [sample_stat, sample_stat] 7 60 = Inr []"
proof
  let ?sts = "[sample_stat, sample_stat]" and ?es = "[sample_entry, sample_entry]"
  have enc: "encodes ?sts ?es" and len: "length (concat ?es) < 2 ^ 64"
    by (simp_all add: sample_entry sample_entry_length)
  have "\<exists>i \<le> length ?es. length (concat (take i ?es)) = unat (52 :: u64)"
    by (intro exI [of _ 1]) (simp add: sample_entry_length)
  from dirread_chunk_whole_entries [OF enc len, of 52 60, unfolded if_P [OF this]]
  obtain i n where i: "i + n \<le> length ?es" "length (concat (take i ?es)) = unat (52 :: u64)"
    and d: "dirread_chunk ?sts 52 60 = Inr (concat (take n (drop i ?es)))"
    and m: "i + n < length ?es \<longrightarrow> unat (60 :: u32) < length (concat (take (Suc n) (drop i ?es)))"
    by blast
  have "i + n \<le> 2" using i(1) by simp
  then have "i = 0 \<or> i = 1 \<or> i = 2" by arith
  then have "i = 1"
    using i(2) by (elim disjE) (simp_all add: sample_entry_length)
  moreover from this have "n \<noteq> 0" using m by (auto simp: sample_entry_length)
  ultimately show "dirread_chunk ?sts 52 60 = Inr sample_entry"
    using d i(1) by (cases n) simp_all
  have "\<not> (\<exists>i \<le> length ?es. length (concat (take i ?es)) = unat (7 :: u64))"
    by (auto simp: sample_entry_length take_Cons')
  then show "dirread_chunk ?sts 7 60 = Inr []"
    using dirread_chunk_whole_entries [OF enc len, of 7 60] by argo
qed


section \<open>Encodings\<close>

text \<open>The stat encoding is exact: a byte string decodes to a stat precisely when it is the
  encoding of that stat. Nothing that is not an encoding is accepted, and no stat is lost.\<close>

theorem stat_wire_exact: "Stat_decode bs = Inr st \<longleftrightarrow> Stat_encode st = Inr bs"
  using Stat_decode_encode Stat_encode_decode by blast

text \<open>A directory listing decodes to a list of stats precisely when it is the concatenation of
  their encodings.\<close>

theorem dir_listing_exact:
  assumes "length data \<le> usize_max"
  shows "decode_dir_entries data = Inr sts \<longleftrightarrow> (\<exists>es. encodes sts es \<and> data = concat es)"
  using assms decode_dir_entries_encodes decode_dir_entries_sound by blast

theorem dir_listing_exact_witness:
  "length (sample_entry @ sample_entry) \<le> usize_max
   \<and> decode_dir_entries (sample_entry @ sample_entry) = Inr [sample_stat, sample_stat]"
proof -
  have len: "length (sample_entry @ sample_entry) \<le> usize_max"
    by (simp add: sample_entry_length usize_max_def)
  have "encodes [sample_stat, sample_stat] [sample_entry, sample_entry]"
    by (simp add: sample_entry)
  moreover have "sample_entry @ sample_entry = concat [sample_entry, sample_entry]" by simp
  ultimately show ?thesis
    using len dir_listing_exact [OF len] by blast
qed

text \<open>C35: The request codec is exact: a frame decodes to a request precisely when it is the
  encoding of that request, for all fifteen request kinds.\<close>

theorem tmessage_wire_exact: "decode_tmessage frame = Inr m \<longleftrightarrow> encode_tmessage m = Inr frame"
  using t_format.decode_encode t_format.encode_decode by blast

text \<open>C36: The response codec is exact: a frame decodes to a response precisely when it is the
  encoding of that response, for all sixteen response kinds.\<close>

theorem rmessage_wire_exact: "decode_rmessage frame = Inr m \<longleftrightarrow> encode_rmessage m = Inr frame"
  using r_format.decode_encode r_format.encode_decode by blast

text \<open>A frame that the checked encoder lets out starts with its own length and is no longer than the
  negotiated message size.\<close>

theorem checked_frame_bounds:
  assumes "encode_tmessage_checked m msz = Inr frame"
  shows "length frame \<le> unat msz \<and> unat (from_le_bytes (take 4 frame) :: u32) = length frame"
proof -
  have enc: "encode_tmessage m = Inr frame" and len: "length frame \<le> unat msz"
    using assms by (simp_all add: encode_tmessage_checked_Inr)
  obtain ty tag body where f: "frame = framed ty tag body" and fits: "7 + length body \<le> u32_max"
    using validate_frame_size_Inr [OF framed_valid(1) [OF enc]] by blast
  have "unat (word_of_nat (7 + length body) :: u32) = 7 + length body"
    unfolding unat_of_nat using fits by (simp add: u32_max_def)
  with len f show ?thesis
    by (simp add: framed_def)
qed

theorem checked_frame_bounds_witness:
  "encode_tmessage_checked (T_Clunk 3 9) 64 = Inr [11, 0, 0, 0, 120, 3, 0, 9, 0, 0, 0]
   \<and> length [11, 0, 0, 0, 120, 3, 0, 9, 0, 0, 0 :: u8] \<le> unat (64 :: u32)"
proof -
  have "encode_tmessage_checked (T_Clunk 3 9) 64 = Inr [11, 0, 0, 0, 120, 3, 0, 9, 0, 0, 0]"
    by (simp add: encode_tmessage_checked_Inr encode_tmessage_Inr framed_def push_u32_def to_le_bytes_def
        u32_max_def TCLUNK_def)
  then show ?thesis
    using checked_frame_bounds by blast
qed


section \<open>Limits and negotiation\<close>

text \<open>A read whose count was clamped to the message size always has a reply that fits: whatever data up to
  that count the server returns, the reply frame is encodable within the message size.\<close>

theorem clamped_read_reply_fits:
  assumes "RREAD_HEADER_SIZE \<le> msz" and "length data \<le> unat (clamp_read_count msz requested)"
  shows "\<exists>frame. encode_rmessage_checked (R_Read tag data) msz = Inr frame
    \<and> length frame = 11 + length data"
proof -
  obtain frame where f: "encode_rmessage_checked (R_Read tag data) msz = Inr frame"
    using clamped_read_fits [OF assms] by blast
  then have enc: "encode_rmessage (R_Read tag data) = Inr frame" and len: "length frame \<le> unat msz"
    by (simp_all add: encode_rmessage_checked_Inr)
  have "11 + length data \<le> unat msz"
    using assms by (auto simp: clamp_read_count_def unat_min word_le_nat_alt RREAD_HEADER_SIZE_def)
  then have "11 + length data \<le> u32_max"
    using unat_u32_le_max [of msz] by linarith
  then show ?thesis
    using encode_read_reply [of data tag] enc f by auto
qed

theorem clamped_read_reply_fits_witness:
  "\<exists>frame. encode_rmessage_checked (R_Read 1 [7, 8]) 13 = Inr frame \<and> length frame = 13"
  using clamped_read_reply_fits [of 13 "[7, 8]" 4096 1]
  by (simp add: RREAD_HEADER_SIZE_def clamp_read_count_def saturating_sub_def)

text \<open>Both ends agree on the dialect. Whatever the two sides support, the server accepts one of the
  client's requests, the client accepts the server's answer, both settle on the same variant, and
  that is \<open>9P2000.R\<close> exactly when both support it.\<close>

theorem negotiation_agrees:
  "\<exists>w. variant_accept server (wire_name client) = Some w
     \<and> accept_response client (wire_name w) = Some w
     \<and> (w = R \<longleftrightarrow> server = R \<and> client = R)"
  by (cases server; cases client)
    (simp_all add: variant_accept_def accept_response_def plain_request_def str_def starts_with_def DOT_def)

section \<open>Framing\<close>

text \<open>C37: Framing does not depend on fragmentation: however the transport splits the bytes of a sequence of
  request frames into chunks, and however often it is interrupted, reading message by message
  returns exactly the requests sent, in order, and then the end of the stream.\<close>

theorem framing_over_fragments:
  assumes "list_all2 (\<lambda>m frame. encode_tmessage_checked m msz = Inr frame) ms frames"
    and "healthy r" and "stream r = concat frames"
  shows "read_tmessages (Suc (length ms)) msz r = Inr ms"
  using assms by (rule read_tmessages_healthy)

theorem framing_over_fragments_witness:
  "read_tmessages 3 64
     [Chunk [11, 0], Fail (Io_error Interrupted []), Chunk [0, 0, 120, 3, 0, 9, 0, 0, 0, 11],
      Chunk [0, 0, 0, 122, 4, 0, 8, 0, 0], Fail (Io_error Interrupted []), Chunk [0]]
   = Inr [T_Clunk 3 9, T_Remove 4 8]"
proof -
  have "list_all2 (\<lambda>m frame. encode_tmessage_checked m 64 = Inr frame) [T_Clunk 3 9, T_Remove 4 8]
    [[11, 0, 0, 0, 120, 3, 0, 9, 0, 0, 0], [11, 0, 0, 0, 122, 4, 0, 8, 0, 0, 0]]"
    by (simp add: encode_tmessage_checked_Inr encode_tmessage_Inr framed_def push_u32_def to_le_bytes_def
        u32_max_def TCLUNK_def TREMOVE_def)
  from framing_over_fragments [OF this, of "[Chunk [11, 0], Fail (Io_error Interrupted []),
      Chunk [0, 0, 120, 3, 0, 9, 0, 0, 0, 11], Chunk [0, 0, 0, 122, 4, 0, 8, 0, 0],
      Fail (Io_error Interrupted []), Chunk [0]]"]
  show ?thesis by (simp add: numeral_3_eq_3)
qed

text \<open>A frame is written whole or the writer reports an error: on success exactly the frame has been
  appended to the stream, and on failure only a prefix of it.\<close>

theorem write_request_all_or_error:
  assumes "encode_tmessage_checked m msz = Inr frame"
  shows "case write_tmessage_checked msz m w of
      (Inr _, w') \<Rightarrow> sent w' = sent w @ frame
    | (Inl _, w') \<Rightarrow> \<exists>n. sent w' = sent w @ take n frame"
  using assms
  by (auto simp: write_tmessage_checked_def write_frame_def write_all_def writer_flush_def bind_s_def lift_s_def
      split: sum.splits prod.splits list.splits option.splits intro: exI [of _ "length frame"])

theorem write_request_all_or_error_witness:
  "sent (snd (write_tmessage_checked 64 (T_Clunk 3 9) \<lparr>sent = [1], script = [None, None]\<rparr>))
     = [1, 11, 0, 0, 0, 120, 3, 0, 9, 0, 0, 0]"
proof -
  have "encode_tmessage_checked (T_Clunk 3 9) 64 = Inr [11, 0, 0, 0, 120, 3, 0, 9, 0, 0, 0]"
    by (simp add: encode_tmessage_checked_Inr encode_tmessage_Inr framed_def push_u32_def to_le_bytes_def
        u32_max_def TCLUNK_def)
  from write_request_all_or_error [OF this, of "\<lparr>sent = [1], script = [None, None]\<rparr>"] this
  show ?thesis
    by (simp add: write_tmessage_checked_def write_frame_def write_all_def writer_flush_def bind_s_def lift_s_def)
qed


section \<open>Referrals\<close>

text \<open>C40: For a valid referral, routing a namespace path succeeds exactly for canonical paths at or below
  the mount point, and the routed path is canonical and lies at or below the exported root: no
  routed path escapes the exported tree.\<close>

theorem routed_path_confined:
  assumes "referral_validate r = Inr ()"
  shows "case routed_path r p of
      Inl _ \<Rightarrow> \<not> (absolute_path_valid p True \<and> mounted_suffix p (mount_path r) \<noteq> None)
    | Inr q \<Rightarrow> absolute_path_valid p True \<and> mounted_suffix p (mount_path r) \<noteq> None
        \<and> absolute_path_valid q True \<and> (exported_root r = [SLASH] \<or> mounted_suffix q (exported_root r) \<noteq> None)"
proof (cases "routed_path r p")
  case (Inl e)
  show ?thesis
  proof (cases "mounted_suffix p (mount_path r)")
    case (Some s)
    then have "\<not> absolute_path_valid p True"
      using routed_path_Inr_iff [of r p "join_namespace_path (exported_root r) s"] Inl by simp
    then show ?thesis using Inl by simp
  qed (simp add: Inl)
next
  case (Inr q)
  have m: "absolute_path_valid (mount_path r) False" and root: "absolute_path_valid (exported_root r) True"
    using assms by (simp_all add: referral_validate_Inr)
  obtain s where p: "absolute_path_valid p True" and s: "mounted_suffix p (mount_path r) = Some s"
    and q: "q = join_namespace_path (exported_root r) s"
    using Inr by (auto simp: routed_path_Inr_iff)
  have "exported_suffix (exported_root r) q = Some s"
    unfolding q by (rule exported_suffix_join [OF p s m])
  moreover have "absolute_path_valid q True"
    using join_valid [OF m p root] s unfolding q by (simp add: mounted_suffix_Some_iff)
  ultimately show ?thesis
    using Inr p s by (auto simp: exported_suffix_def split: if_splits)
qed

definition sample_referral :: namespace_referral where
  "sample_referral =
     \<lparr>mount_path = str ''/n/db'', endpoint = str ''db:564'', ref_uname = str ''u'', ref_aname = str ''a'',
      exported_root = str ''/srv'', authority_boundary = str ''x'', generation = 1, valid_for_ms = 5\<rparr>"

lemma sample_referral_valid: "referral_validate sample_referral = Inr ()"
  by code_simp

theorem routed_path_confined_witness:
  "routed_path sample_referral (str ''/n/db/t1'') = Inr (str ''/srv/t1'')
   \<and> absolute_path_valid (str ''/srv/t1'') True \<and> mounted_suffix (str ''/srv/t1'') (str ''/srv'') \<noteq> None"
proof -
  have route: "routed_path sample_referral (str ''/n/db/t1'') = Inr (str ''/srv/t1'')"
    by code_simp
  moreover have "exported_root sample_referral = str ''/srv''" "str ''/srv'' \<noteq> [SLASH]"
    by code_simp+
  ultimately show ?thesis
    using routed_path_confined [OF sample_referral_valid, of "str ''/n/db/t1''"] by simp
qed

text \<open>Routing through a valid referral never merges two names: different namespace paths are routed to
  different exported paths.\<close>

theorem routed_path_injective:
  assumes "referral_validate r = Inr ()" and "routed_path r p = Inr q" and "routed_path r p' = Inr q"
  shows "p = p'"
proof -
  have m: "absolute_path_valid (mount_path r) False"
    using assms(1) by (simp add: referral_validate_Inr)
  obtain s s' where s: "absolute_path_valid p True" "mounted_suffix p (mount_path r) = Some s"
      "q = join_namespace_path (exported_root r) s"
    and s': "absolute_path_valid p' True" "mounted_suffix p' (mount_path r) = Some s'"
      "q = join_namespace_path (exported_root r) s'"
    using assms(2,3) by (auto simp: routed_path_Inr_iff)
  have "Some s = Some s'"
    using exported_suffix_join [OF s(1,2) m] exported_suffix_join [OF s'(1,2) m] s(3) s'(3) by metis
  then show ?thesis
    using s(2) s'(2) by (simp add: mounted_suffix_Some_iff)
qed

theorem routed_path_injective_witness:
  "routed_path sample_referral (str ''/n/db/t1'') = Inr (str ''/srv/t1'') \<and>
   \<not> (routed_path sample_referral (str ''/n/db'') = Inr (str ''/srv/t1''))"
proof
  show route: "routed_path sample_referral (str ''/n/db/t1'') = Inr (str ''/srv/t1'')"
    by code_simp
  have "str ''/n/db/t1'' \<noteq> str ''/n/db''" by code_simp
  then show "\<not> routed_path sample_referral (str ''/n/db'') = Inr (str ''/srv/t1'')"
    using routed_path_injective [OF sample_referral_valid route] by blast
qed

end
