(* ===== verification/R9P_Stack.thy ===== *)
theory R9P_Stack
  imports R9P_Blocking R9P_System R9P_Wire_Props
begin

text \<open>
  The whole stack at once: the blocking client talks through encoded frames to a file tree served
  by \<open>serve_file_tree_connection\<close> (\<^verbatim>\<open>server/file_tree_handler.rs\<close> over \<^verbatim>\<open>server/connection.rs\<close>). The
  handler of a file tree is never asynchronous, so one round of the serving loop reads a message,
  admits it, performs it, completes it and writes the reply.
\<close>

section \<open>A served file tree\<close>

definition handler_perform :: "'t file_tree \<Rightarrow> server_request \<Rightarrow> ('t, server_completion) fallible" where
  "handler_perform ft rq = perform_file_tree_request ft (rq_kind rq)"

definition handler_reset :: "'t file_tree \<Rightarrow> ('t, unit) fallible" where
  "handler_reset ft = ft_reset ft"

text \<open>One round of the loop after the message was read; an error ends the connection.\<close>

definition serve_message :: "'t file_tree \<Rightarrow> tmessage \<Rightarrow> ('t server, rmessage option) fallible" where
  "serve_message ft m =
     bind_s (if is_version m then
         bind_s (modify_s (\<lambda>sv. sv\<lparr>sv_session := (sv_session sv)\<lparr>requests := table_reset (requests (sv_session sv))\<rparr>\<rparr>))
           (\<lambda>_ sv. case handler_reset ft (sv_tree sv) of (r, t) \<Rightarrow> (r, sv\<lparr>sv_tree := t\<rparr>))
       else return_s ()) (\<lambda>_ sv.
     case admit m (sv_session sv) of
       (Ev_Reply reply, s) \<Rightarrow> (Inr (Some reply), sv\<lparr>sv_session := s\<rparr>)
     | (Ev_Flush reply _, s) \<Rightarrow> (Inr (Some reply), sv\<lparr>sv_session := s\<rparr>)
     | (Ev_Dispatch rq, s) \<Rightarrow>
         (case handler_perform ft rq (sv_tree sv) of
            (completion, t) \<Rightarrow>
              (case complete rq completion s of
                 (reply, s) \<Rightarrow> (Inr reply, sv\<lparr>sv_session := s, sv_tree := t\<rparr>))))"

text \<open>The rounds that the bytes at hand allow: the frames written, and the server, or nothing once the
  connection has ended. A frame has at least seven bytes, so the bytes are never fewer than the rounds.\<close>

fun serve_requests :: "nat \<Rightarrow> 't file_tree \<Rightarrow> reader \<Rightarrow> 't server \<Rightarrow> reader \<times> 't server option" where
  "serve_requests 0 ft r sv = ([], Some sv)"
| "serve_requests (Suc n) ft r sv =
     (case read_tmessage_checked (msize (sv_session sv)) r of
        (Inl _, _) \<Rightarrow> ([], None)
      | (Inr None, _) \<Rightarrow> ([], Some sv)
      | (Inr (Some m), r) \<Rightarrow>
          (case serve_message ft m sv of
             (Inl _, _) \<Rightarrow> ([], None)
           | (Inr None, sv) \<Rightarrow> serve_requests n ft r sv
           | (Inr (Some reply), sv) \<Rightarrow>
               (case encode_rmessage_checked reply (msize (sv_session sv)) of
                  Inl _ \<Rightarrow> ([], None)
                | Inr frame \<Rightarrow>
                    (case serve_requests n ft r sv of (es, sv) \<Rightarrow> (Chunk frame # es, sv)))))"

definition serve_file_tree :: "'t file_tree \<Rightarrow> bytes \<Rightarrow> 't server option \<Rightarrow> reader \<times> 't server option" where
  "serve_file_tree ft input state =
     (case state of
        None \<Rightarrow> ([], None)
      | Some sv \<Rightarrow> serve_requests (length input) ft [Chunk input] sv)"

section \<open>One call\<close>

text \<open>Nothing is under way between the client and the server.\<close>

definition wired :: "'t server \<Rightarrow> 't server option bclient \<Rightarrow> bool" where
  "wired sv c \<longleftrightarrow>
     script (bc_out c) = [] \<and> sent (bc_out c) = [] \<and> healthy (bc_in c) \<and> stream (bc_in c) = []
     \<and> bc_peer c = Some sv \<and> msize (sv_session sv) = cl_msize (protocol c)"

definition at_rest :: "session \<Rightarrow> bool" where
  "at_rest s \<longleftrightarrow> negotiated s \<and> sess_variant s \<noteq> None \<and> live (requests s) = fmempty \<and> reservations s = fmempty"

definition linked :: "'t server \<Rightarrow> 't server option bclient \<Rightarrow> bool" where
  "linked sv c \<longleftrightarrow> wired sv c \<and> at_rest (sv_session sv) \<and> (\<forall>t. \<not> is_live (pending (protocol c)) t)"

lemma healthy_append [simp]: "healthy (a @ b) \<longleftrightarrow> healthy a \<and> healthy b" "stream (a @ b) = stream a @ stream b"
  by (induction a rule: healthy.induct) auto

lemma serve_requests_end:
  assumes "healthy r" and "stream r = []"
  shows "serve_requests n ft r sv = ([], Some sv)"
proof (cases n)
  case (Suc k)
  obtain r' where "read_frame_checked (msize (sv_session sv)) r = (Inr None, r')"
    using read_frame_end [OF assms] by blast
  then show ?thesis
    using Suc by (simp add: read_tmessage_checked_def bind_s_def stateful_simps decode_opt_def)
qed simp

lemma frame_nonempty:
  "encode_tmessage_checked m msz = Inr frame \<Longrightarrow> frame \<noteq> []" "encode_rmessage_checked r msz = Inr frame \<Longrightarrow> frame \<noteq> []"
  by (auto simp: encode_tmessage_checked_Inr encode_tmessage_Inr encode_rmessage_checked_Inr encode_rmessage_Inr framed_def)

lemma serve_one_request:
  assumes "encode_tmessage_checked m (msize (sv_session sv)) = Inr frame"
    and "serve_message ft m sv = (Inr (Some reply), sv')"
    and "encode_rmessage_checked reply (msize (sv_session sv')) = Inr rframe"
  shows "serve_file_tree ft frame (Some sv) = ([Chunk rframe], Some sv')"
proof -
  note ne = frame_nonempty(1) [OF assms(1)]
  then obtain n where n: "length frame = Suc n" by (cases frame) auto
  obtain r where r: "read_tmessage_checked (msize (sv_session sv)) [Chunk frame] = (Inr (Some m), r)" "healthy r" "stream r = []"
    using read_tmessage_healthy [OF _ assms(1), of "[Chunk frame]" "[]"] ne by auto
  show ?thesis
    using assms(2,3) r(1) by (simp add: serve_file_tree_def n serve_requests_end [OF r(2,3)])
qed

lemma call_message_served:
  assumes env: "peer env = serve_file_tree ft" and w: "wired sv c"
    and m: "encode_tmessage_checked m (cl_msize (protocol c)) = Inr frame"
    and s: "serve_message ft m sv = (Inr (Some reply), sv')"
    and r: "encode_rmessage_checked reply (cl_msize (protocol c)) = Inr rframe"
    and ms: "msize (sv_session sv') = msize (sv_session sv)"
  obtains c' where "call_message env m c = protocol_op (receive reply) c'" "wired sv' c'" "protocol c' = protocol c"
    "root_fid c' = root_fid c" "bc_variant c' = bc_variant c"
proof -
  note wd = w [unfolded wired_def]
  let ?out = "(bc_out c)\<lparr>sent := frame\<rparr>"
  have wr: "write_tmessage_checked (cl_msize (protocol c)) m (bc_out c) = (Inr (), ?out)"
    using m wd by (simp add: write_tmessage_checked_def write_frame_ok bind_s_def stateful_simps)
  have "serve_file_tree ft frame (Some sv) = ([Chunk rframe], Some sv')"
    by (rule serve_one_request) (use m s r ms wd in simp_all)
  then have ex: "exchange env (c\<lparr>bc_out := ?out\<rparr>) =
      c\<lparr>bc_out := ?out\<lparr>sent := []\<rparr>, bc_in := bc_in c @ [Chunk rframe], bc_peer := Some sv'\<rparr>" (is "_ = ?c")
    using wd by (simp add: exchange_def env)
  obtain r' where r': "read_rmessage_checked (cl_msize (protocol c)) (bc_in c @ [Chunk rframe]) = (Inr (Some reply), r')"
    "healthy r'" "stream r' = []"
    using read_rmessage_healthy [of "bc_in c @ [Chunk rframe]" reply "cl_msize (protocol c)" rframe "[]"] r wd
      frame_nonempty(2) [OF r] by auto
  have "call_message env m c = protocol_op (receive reply) (?c\<lparr>bc_in := r'\<rparr>)"
    unfolding call_message_def wr by (simp add: ex bind_s_def read_response_def r'(1))
  moreover have "wired sv' (?c\<lparr>bc_in := r'\<rparr>)"
    using wd r' ms by (simp add: wired_def)
  ultimately show thesis by (rule that) simp_all
qed

section \<open>One request\<close>

text \<open>With no request pending the client finds a tag: at most one of two successive tags is \<open>NOTAG\<close>.\<close>

lemma alloc_tag_idle:
  assumes "\<And>t. \<not> is_live (pending c) t"
  obtains tag c' where "alloc_tag c = (Inr tag, c')" "takes_tag c tag c'" "tag \<noteq> NOTAG"
proof (cases "fst (alloc_tag c)")
  case (Inl e)
  then have "\<forall>i < u16_max. next_tag c + word_of_nat i = NOTAG"
    using alloc_tag_loop_Inl [of u16_max c e "snd (alloc_tag c)"] assms by (simp add: alloc_tag_def prod_eq_iff)
  from this [rule_format, of 0] this [rule_format, of 1] show ?thesis by (simp add: u16_max_def)
next
  case (Inr tag)
  then have "alloc_tag c = (Inr tag, snd (alloc_tag c))" by (simp add: prod_eq_iff)
  with alloc_tag_takes(1) [OF this] that show ?thesis by (auto simp: takes_tag_def)
qed

lemma flush_only_tag:
  assumes "takes_tag c tag c'" and "\<And>t. \<not> is_live (pending c) t"
  shows "\<not> is_live (snd (table_flush tag (pending c'))) t"
  using assms by (cases "t = tag") (auto simp: takes_tag_def flush_not_live flush_live_other)

lemma request_served:
  assumes env: "peer env = serve_file_tree ft" and link: "linked sv c"
    and tag: "\<And>tag. t_tag (msg tag) = tag"
    and enc: "\<And>tag. \<exists>frame. encode_tmessage_checked (msg tag) (msize (sv_session sv)) = Inr frame"
    and srv: "\<And>tag. tag \<noteq> NOTAG \<Longrightarrow> serve_message ft (msg tag) sv = (Inr (Some (reply tag)), sv')"
    and rest: "at_rest (sv_session sv')" and ms: "msize (sv_session sv') = msize (sv_session sv)"
    and renc: "\<And>tag. \<exists>frame. encode_rmessage_checked (reply tag) (msize (sv_session sv)) = Inr frame"
    and rcv: "\<And>tag p. tag \<noteq> NOTAG \<Longrightarrow> is_live (pending p) tag \<Longrightarrow> cl_msize p = msize (sv_session sv) \<Longrightarrow>
      receive (reply tag) p = (Inr (Resp_Completion tag completion), p\<lparr>pending := snd (table_flush tag (pending p))\<rparr>)"
  obtains op c1 c' where "protocol_op (tagged_op f msg) c = (Inr op, c1)" "call_op env op c1 = (Inr completion, c')"
    "linked sv' c'" "root_fid c' = root_fid c" "bc_variant c' = bc_variant c"
proof -
  have w: "wired sv c" and idle: "\<And>t. \<not> is_live (pending (protocol c)) t"
    using link by (simp_all add: linked_def)
  from alloc_tag_idle [OF idle] obtain tg p where a: "alloc_tag (protocol c) = (Inr tg, p)"
    and t: "takes_tag (protocol c) tg p" and nt: "tg \<noteq> NOTAG" by blast
  let ?op = "\<lparr>op_tag = tg, op_fid_opt = f, op_message = msg tg\<rparr>" and ?c = "c\<lparr>protocol := p\<rparr>"
  have op: "protocol_op (tagged_op f msg) c = (Inr ?op, ?c)"
    by (simp add: protocol_op_def tagged_op_def a bind_s_def stateful_simps)
  have w1: "wired sv ?c" and msz: "cl_msize p = msize (sv_session sv)"
    using w t by (simp_all add: wired_def takes_tag_def)
  obtain frame rframe where "encode_tmessage_checked (msg tg) (cl_msize (protocol ?c)) = Inr frame"
    "encode_rmessage_checked (reply tg) (cl_msize (protocol ?c)) = Inr rframe"
    using enc [of tg] renc [of tg] msz by auto
  from call_message_served [OF env w1 this(1) srv [OF nt] this(2) ms] obtain c2
    where c2: "call_message env (msg tg) ?c = protocol_op (receive (reply tg)) c2" "wired sv' c2" "protocol c2 = protocol ?c"
      "root_fid c2 = root_fid ?c" "bc_variant c2 = bc_variant ?c" by blast
  have "is_live (pending p) tg" using t by (simp add: takes_tag_def)
  from rcv [OF nt this msz] have "call_op env ?op ?c = (Inr completion, c2\<lparr>protocol := p\<lparr>pending := snd (table_flush tg (pending p))\<rparr>\<rparr>)"
    (is "_ = (_, ?c')")
    by (simp add: call_op_def bind_s_def c2(1,3) protocol_op_def stateful_simps)
  moreover have "linked sv' ?c'"
    using c2 rest flush_only_tag [OF t idle] by (auto simp: linked_def wired_def)
  ultimately show thesis by (rule that [OF op]) (use c2(4,5) in simp_all)
qed

section \<open>Reading\<close>

text \<open>The session after a request that changed no fid: only the generation has moved.\<close>

definition ticked :: "session \<Rightarrow> session" where
  "ticked s = s\<lparr>requests := (requests s)\<lparr>next_generation := saturating_add (next_generation (requests s)) 1, live := fmempty\<rparr>,
     reservations := fmempty\<rparr>"

lemma ticked_simps [simp]:
  "fids (ticked s) = fids s" "msize (ticked s) = msize s" "sess_variant (ticked s) = sess_variant s"
  "at_rest (ticked s) \<longleftrightarrow> negotiated s \<and> sess_variant s \<noteq> None" "at_rest (s\<lparr>fids := m\<rparr>) \<longleftrightarrow> at_rest s"
  by (simp_all add: ticked_def at_rest_def)

lemma at_restD: "at_rest s \<Longrightarrow> negotiated s \<and> sess_variant s \<noteq> None"
  by (simp add: at_rest_def)

lemma fmdrop_only [simp]: "fmdrop x (fmupd x y fmempty) = fmempty"
  by (rule fmap_ext) simp

lemmas serve_eval = serve_message_def bind_s_def stateful_simps admit_def admit_request_def table_begin_def Let_def
  get_fid_def ensure_available_def dispatch_def handler_perform_def map_s_def complete_def table_finish_def
  reserve_existing_fid_def set_entry_def reservation_entry_def reservations_default_def
  release_reservations_def release_one_def reservations_empty_def bind_fid_def ensure_unreserved_def
  apply_completion_def negotiated_variant_def match_completion_def rq_tag_def ticked_def at_rest_def

lemma serve_read_file:
  assumes rest: "at_rest (sv_session sv)" and tag: "tag \<noteq> NOTAG"
    and st: "fmlookup (fids (sv_session sv)) f = Some st" "\<not> is_dir (fid_qid st)" "validate_read st offset = Inr ()"
    and rd: "ft_read ft f (fid_qid st) offset (clamp_read_count (msize (sv_session sv)) count) (sv_tree sv) = (Inr (Read_Bytes bs), t)"
    and len: "length bs \<le> unat (clamp_read_count (msize (sv_session sv)) count)"
  shows "serve_message ft (T_Read tag f offset count) sv = (Inr (Some (R_Read tag bs)), sv\<lparr>sv_session := ticked (sv_session sv), sv_tree := t\<rparr>)"
proof -
  obtain v where v: "sess_variant (sv_session sv) = Some v" using rest by (auto simp: at_rest_def)
  show ?thesis
    using rest tag st rd len v
    by (simp add: serve_eval admit_read_def complete_read_def read_payload_def take_count_def)
qed

lemma serve_read_directory:
  assumes rest: "at_rest (sv_session sv)" and tag: "tag \<noteq> NOTAG"
    and st: "fmlookup (fids (sv_session sv)) f = Some st" "is_dir (fid_qid st)" "validate_read st offset = Inr ()"
    and v: "sess_variant (sv_session sv) = Some v"
    and rd: "ft_read ft f (fid_qid st) offset (clamp_read_count (msize (sv_session sv)) count) (sv_tree sv) = (Inr rd, t)"
    and data: "read_payload v offset (clamp_read_count (msize (sv_session sv)) count) rd = Inr data"
    and nxt: "checked_add offset (word_of_nat (length data)) = Some nxt"
  shows "serve_message ft (T_Read tag f offset count) sv = (Inr (Some (R_Read tag data)),
    sv\<lparr>sv_session := ticked (sv_session sv)\<lparr>fids := fmupd f (with_directory_offset st nxt) (fids (sv_session sv))\<rparr>, sv_tree := t\<rparr>)"
  using assms
  by (simp add: serve_eval admit_read_def complete_read_def)

lemma read_request_fits:
  assumes "MIN_MSIZE \<le> msz"
  shows "\<exists>frame. encode_tmessage_checked (T_Read tag f offset count) msz = Inr frame"
proof -
  have "256 \<le> unat msz" using assms by (simp add: MIN_MSIZE_def word_le_nat_alt)
  moreover have "\<exists>frame. encode_tmessage (T_Read tag f offset count) = Inr frame \<and> length frame = 23"
    by (simp add: encode_tmessage_Inr push_u32_def push_u64_def u32_max_def)
  ultimately show ?thesis by (auto simp: encode_tmessage_checked_Inr)
qed

lemma receive_done_live:
  assumes "tag \<noteq> NOTAG" "is_live (pending p) tag"
  shows "receive_done tag completion p = (Inr (Resp_Completion tag completion), p\<lparr>pending := snd (table_flush tag (pending p))\<rparr>)"
proof -
  have "client_finish tag p = (Inr (), p\<lparr>pending := snd (table_flush tag (pending p))\<rparr>)"
    using assms by (simp add: client_finish_Inr)
  then show ?thesis by (simp add: receive_done_def bind_s_def stateful_simps)
qed

lemma bc_read_served:
  assumes env: "peer env = serve_file_tree ft" and link: "linked sv c" and msz: "MIN_MSIZE \<le> msize (sv_session sv)"
    and n: "n = clamp_read_count (msize (sv_session sv)) count"
    and srv: "\<And>tag. tag \<noteq> NOTAG \<Longrightarrow> serve_message ft (T_Read tag f offset n) sv = (Inr (Some (R_Read tag data)), sv')"
    and len: "length data \<le> unat n"
    and rest: "at_rest (sv_session sv')" and ms: "msize (sv_session sv') = msize (sv_session sv)"
  obtains c' where "bc_read env f offset count c = (Inr data, c')" "linked sv' c'" "root_fid c' = root_fid c"
    "bc_variant c' = bc_variant c"
proof -
  have fits: "\<exists>frame. encode_rmessage_checked (R_Read tag data) (msize (sv_session sv)) = Inr frame" for tag
    by (rule clamped_read_fits [where requested = count]) (use msz len n in \<open>simp_all add: MIN_MSIZE_def RREAD_HEADER_SIZE_def word_le_nat_alt\<close>)
  have rcv: "receive (R_Read tag data) p = (Inr (Resp_Completion tag (Done_Read data)), p\<lparr>pending := snd (table_flush tag (pending p))\<rparr>)"
    if "tag \<noteq> NOTAG" "is_live (pending p) tag" for tag p
    using receive_done_live [OF that] by simp
  obtain op c1 c' where op: "protocol_op (client_read f offset n) c = (Inr op, c1)" "call_op env op c1 = (Inr (Done_Read data), c')"
    and c': "linked sv' c'" "root_fid c' = root_fid c" "bc_variant c' = bc_variant c"
    unfolding client_read_def
    by (rule request_served [OF env link, where msg = "\<lambda>tag. T_Read tag f offset n" and reply = "\<lambda>tag. R_Read tag data"
        and sv' = sv' and completion = "Done_Read data" and f = "Some f"])
      (use srv rest ms read_request_fits [OF msz] fits rcv in simp_all)
  have "cl_msize (protocol c) = msize (sv_session sv)"
    using link by (simp add: linked_def wired_def)
  then have "bc_read env f offset count c = (Inr data, c')"
    using op len n checked_read_data_Inr [of data n data] by (simp add: bc_read_def Let_def bind_s_def stateful_simps)
  with c' show thesis by (rule that [rotated])
qed

section \<open>Reading page by page\<close>

lemma unat_u64: "n < 2 ^ 64 \<Longrightarrow> unat (word_of_nat n :: u64) = n"
  by (simp add: unat_of_nat)

text \<open>What \<open>read_all\<close> relies on: pages that continue where the last one ended, none empty before the end.\<close>

locale paged_file =
  fixes env :: "'p env" and f :: fid and contents :: bytes and good :: "nat \<Rightarrow> 'p bclient \<Rightarrow> bool"
  assumes page: "good n c \<Longrightarrow> n \<le> length contents \<Longrightarrow>
      \<exists>data c'. bc_read env f (word_of_nat n) DEFAULT_READ_CHUNK c = (Inr data, c') \<and> good (n + length data) c'
        \<and> drop n contents = data @ drop (n + length data) contents \<and> (data = [] \<longrightarrow> length contents \<le> n)"
    and bound: "good n c \<Longrightarrow> length contents < 2 ^ 64"
begin

lemma read_all_loop_contents:
  "good n c \<Longrightarrow> n \<le> length contents \<Longrightarrow>
    \<exists>c'. read_all_loop env f (word_of_nat n) out c = (Inr (out @ drop n contents), c') \<and> good (length contents) c'"
proof (induction "length contents - n" arbitrary: n out c rule: less_induct)
  case less
  from page [OF less.prems] obtain data c1 where rd: "bc_read env f (word_of_nat n) DEFAULT_READ_CHUNK c = (Inr data, c1)"
    and good: "good (n + length data) c1" and split: "drop n contents = data @ drop (n + length data) contents"
    and stop: "data = [] \<longrightarrow> length contents \<le> n" by blast
  note big = bound [OF less.prems(1)]
  show ?case
  proof (cases "data = []")
    case True
    then show ?thesis
      using rd good stop less.prems by (subst read_all_loop.simps) auto
  next
    case False
    have len: "n + length data \<le> length contents"
      using arg_cong [OF split, of length] less.prems(2) by simp
    have "u64_try_from (length data) = Some (word_of_nat (length data))"
      using big len by (simp add: u64_try_from_def)
    moreover have "checked_advance_offset (word_of_nat n) (word_of_nat (length data)) = Inr (word_of_nat (n + length data))"
      using big len unat_u64 [of "n + length data"] unat_u64 [of n] unat_u64 [of "length data"]
      by (simp add: checked_advance_offset_Inr del: of_nat_add)
    moreover have "length contents - (n + length data) < length contents - n"
      using False len by (cases data) auto
    from less.hyps [OF this good len, of "out @ data"] obtain c' where
      "read_all_loop env f (word_of_nat (n + length data)) (out @ data) c1 = (Inr ((out @ data) @ drop (n + length data) contents), c')"
      "good (length contents) c'" by blast
    ultimately show ?thesis
      using rd False split by (subst read_all_loop.simps) simp
  qed
qed

lemma read_all_contents: "good 0 c \<Longrightarrow> \<exists>c'. read_all env f c = (Inr contents, c') \<and> good (length contents) c'"
  using read_all_loop_contents [of 0 c "[]"] by (simp add: read_all_def)

end

section \<open>Files\<close>

text \<open>Writing \<open>d\<close> over the bytes at \<open>off\<close>, and a file of the tree that reads and writes like one: what the
  operations of the tree do with the fid \<open>f\<close> is to read and update \<open>content\<close>.\<close>

definition overwrite :: "bytes \<Rightarrow> nat \<Rightarrow> bytes \<Rightarrow> bytes" where
  "overwrite bs off d = take off bs @ d @ drop (off + length d) bs"

definition byte_file :: "'t file_tree \<Rightarrow> fid \<Rightarrow> qid \<Rightarrow> ('t \<Rightarrow> bytes) \<Rightarrow> bool" where
  "byte_file ft f q content \<longleftrightarrow>
     (\<forall>t offset count. \<exists>t'. ft_read ft f q offset count t = (Inr (Read_Bytes (take (unat count) (drop (unat offset) (content t)))), t')
        \<and> content t' = content t)
     \<and> (\<forall>t offset d. unat offset \<le> length (content t) \<longrightarrow>
        (\<exists>t'. ft_write ft f q offset d t = (Inr (word_of_nat (length d)), t') \<and> content t' = overwrite (content t) (unat offset) d))"

lemma overwrite_Nil [simp]: "overwrite bs off [] = bs"
  by (simp add: overwrite_def)

lemma overwrite_append:
  "off \<le> length bs \<Longrightarrow> overwrite (overwrite bs off a) (off + length a) b = overwrite bs off (a @ b)"
  by (simp add: overwrite_def min_absorb2 add.assoc add.commute [of "length b"])

lemma length_overwrite: "off \<le> length bs \<Longrightarrow> length (overwrite bs off d) = max (length bs) (off + length d)"
  by (simp add: overwrite_def min_absorb2)

text \<open>The fid is open for reading and writing on an ordinary file.\<close>

definition open_file_fid :: "session \<Rightarrow> fid \<Rightarrow> qid \<Rightarrow> bool" where
  "open_file_fid s f q \<longleftrightarrow>
     (\<exists>st. fmlookup (fids s) f = Some st \<and> fid_qid st = q \<and> \<not> is_dir q \<and> validate_read st 0 = Inr () \<and> validate_write st = Inr ())"

lemma validate_read_file: "\<not> is_dir (fid_qid st) \<Longrightarrow> validate_read st offset = validate_read st 0"
  by (simp add: validate_read_def)

definition file_linked :: "'t file_tree \<Rightarrow> fid \<Rightarrow> qid \<Rightarrow> ('t \<Rightarrow> bytes) \<Rightarrow> bytes \<Rightarrow> 't server option bclient \<Rightarrow> bool" where
  "file_linked ft f q content bs c \<longleftrightarrow>
     (\<exists>sv. linked sv c \<and> MIN_MSIZE \<le> msize (sv_session sv) \<and> open_file_fid (sv_session sv) f q
        \<and> byte_file ft f q content \<and> content (sv_tree sv) = bs \<and> length bs < 2 ^ 64)"

lemma clamp_twice [simp]: "clamp_read_count msz (clamp_read_count msz n) = clamp_read_count msz n"
  by (simp add: clamp_read_count_def)

lemma clamp_positive: "MIN_MSIZE \<le> msz \<Longrightarrow> 0 < unat (clamp_read_count msz DEFAULT_READ_CHUNK)"
  by (simp add: clamp_read_count_def MIN_MSIZE_def RREAD_HEADER_SIZE_def DEFAULT_READ_CHUNK_def unat_min word_le_nat_alt)

lemma page_split: "drop n bs = take m (drop n bs) @ drop (n + length (take m (drop n bs))) bs"
proof -
  have "drop (n + length (take m (drop n bs))) bs = drop m (drop n bs)"
    by (cases "m \<le> length (drop n bs)") (simp_all add: min_absorb2 add.commute min_absorb1)
  then show ?thesis by (metis append_take_drop_id)
qed

lemma file_page:
  assumes "file_linked ft f q content bs c" and "n \<le> length bs"
  shows "\<exists>data c'. bc_read (d\<lparr>peer := serve_file_tree ft\<rparr>) f (word_of_nat n) DEFAULT_READ_CHUNK c = (Inr data, c')
    \<and> file_linked ft f q content bs c' \<and> drop n bs = data @ drop (n + length data) bs \<and> (data = [] \<longrightarrow> length bs \<le> n)"
proof -
  from assms(1) obtain sv where link: "linked sv c" and msz: "MIN_MSIZE \<le> msize (sv_session sv)"
    and fid: "open_file_fid (sv_session sv) f q" and bf: "byte_file ft f q content"
    and bs: "content (sv_tree sv) = bs" "length bs < 2 ^ 64" unfolding file_linked_def by blast
  from fid obtain st where st: "fmlookup (fids (sv_session sv)) f = Some st" "fid_qid st = q" "\<not> is_dir q"
    "validate_read st 0 = Inr ()" by (auto simp: open_file_fid_def)
  let ?n = "clamp_read_count (msize (sv_session sv)) DEFAULT_READ_CHUNK"
  let ?data = "take (unat ?n) (drop n bs)"
  have n: "unat (word_of_nat n :: u64) = n" using assms(2) bs(2) by (intro unat_u64) simp
  obtain t where t: "ft_read ft f q (word_of_nat n) ?n (sv_tree sv) = (Inr (Read_Bytes ?data), t)" "content t = bs"
    using bf bs(1) n unfolding byte_file_def by metis
  let ?sv = "sv\<lparr>sv_session := ticked (sv_session sv), sv_tree := t\<rparr>"
  have rest: "at_rest (sv_session sv)" using link by (simp add: linked_def)
  have srv: "serve_message ft (T_Read tag f (word_of_nat n) ?n) sv = (Inr (Some (R_Read tag ?data)), ?sv)" if "tag \<noteq> NOTAG" for tag
    by (rule serve_read_file [OF rest that st(1)]) (use st t(1) validate_read_file [of st "word_of_nat n"] in simp_all)
  obtain c' where c': "bc_read (d\<lparr>peer := serve_file_tree ft\<rparr>) f (word_of_nat n) DEFAULT_READ_CHUNK c = (Inr ?data, c')"
    "linked ?sv c'"
    by (rule bc_read_served [where env = "d\<lparr>peer := serve_file_tree ft\<rparr>", OF _ link msz refl srv]) (use at_restD [OF rest] in simp_all)
  have "file_linked ft f q content bs c'"
    unfolding file_linked_def using c'(2) msz fid bf t(2) bs(2) by (intro exI [of _ ?sv]) (simp add: open_file_fid_def)
  moreover have "drop n bs = ?data @ drop (n + length ?data) bs"
    by (rule page_split)
  moreover have "length bs \<le> n" if "?data = []"
    using that clamp_positive [OF msz] by auto
  ultimately show ?thesis using c'(1) by blast
qed

interpretation file_pages: paged_file "d\<lparr>peer := serve_file_tree ft\<rparr>" f bs "\<lambda>_. file_linked ft f q content bs"
  for d ft f q content bs
proof unfold_locales
  show "file_linked ft f q content bs c \<Longrightarrow> length bs < 2 ^ 64" for c
    by (auto simp: file_linked_def)
qed (rule file_page)

section \<open>Writing\<close>

lemma serve_write_file:
  assumes rest: "at_rest (sv_session sv)" and tag: "tag \<noteq> NOTAG"
    and st: "fmlookup (fids (sv_session sv)) f = Some st" "validate_write st = Inr ()"
    and len: "length data \<le> unat (max_write_payload (msize (sv_session sv)))"
    and wr: "ft_write ft f (fid_qid st) offset data (sv_tree sv) = (Inr n, t)" and n: "unat n \<le> length data"
  shows "serve_message ft (T_Write tag f offset data) sv = (Inr (Some (R_Write tag n)), sv\<lparr>sv_session := ticked (sv_session sv), sv_tree := t\<rparr>)"
  using assms by (auto simp: serve_eval admit_write_def complete_write_def)

lemma write_reply_fits:
  assumes "MIN_MSIZE \<le> msz"
  shows "\<exists>frame. encode_rmessage_checked (R_Write tag n) msz = Inr frame"
proof -
  have "256 \<le> unat msz" using assms by (simp add: MIN_MSIZE_def word_le_nat_alt)
  moreover have "\<exists>frame. encode_rmessage (R_Write tag n) = Inr frame \<and> length frame = 11"
    by (simp add: encode_rmessage_Inr push_u32_def u32_max_def)
  ultimately show ?thesis by (auto simp: encode_rmessage_checked_Inr)
qed

lemma write_once_file:
  assumes fl: "file_linked ft f q content bs c" and off: "unat offset \<le> length bs"
    and fit: "length data \<le> unat (bc_max_write_payload c)" and big: "unat offset + length data < 2 ^ 64"
  shows "\<exists>c'. write_once (d\<lparr>peer := serve_file_tree ft\<rparr>) f offset data c = (Inr (word_of_nat (length data)), c')
    \<and> file_linked ft f q content (overwrite bs (unat offset) data) c' \<and> bc_max_write_payload c' = bc_max_write_payload c"
proof -
  let ?env = "d\<lparr>peer := serve_file_tree ft\<rparr>" and ?n = "word_of_nat (length data) :: u32"
  from fl obtain sv where link: "linked sv c" and msz: "MIN_MSIZE \<le> msize (sv_session sv)"
    and fid: "open_file_fid (sv_session sv) f q" and bf: "byte_file ft f q content"
    and bs: "content (sv_tree sv) = bs" "length bs < 2 ^ 64" unfolding file_linked_def by blast
  from fid obtain st where st: "fmlookup (fids (sv_session sv)) f = Some st" "fid_qid st = q" "validate_write st = Inr ()"
    by (auto simp: open_file_fid_def)
  obtain t where t: "ft_write ft f q offset data (sv_tree sv) = (Inr ?n, t)" "content t = overwrite bs (unat offset) data"
    using bf bs(1) off unfolding byte_file_def by metis
  let ?sv = "sv\<lparr>sv_session := ticked (sv_session sv), sv_tree := t\<rparr>"
  have rest: "at_rest (sv_session sv)" and cm: "cl_msize (protocol c) = msize (sv_session sv)"
    using link by (simp_all add: linked_def wired_def)
  have "1 \<le> max_write_payload (msize (sv_session sv))"
    using msz by (simp add: MIN_MSIZE_def TWRITE_HEADER_SIZE_def word_le_nat_alt max_write_payload_def)
  then have room: "TWRITE_HEADER_SIZE \<le> msize (sv_session sv)" "bc_max_write_payload c = max_write_payload (msize (sv_session sv))"
    using msz cm by (simp_all add: MIN_MSIZE_def TWRITE_HEADER_SIZE_def word_le_nat_alt bc_max_write_payload_def max_absorb1)
  have len: "length data \<le> unat (max_write_payload (msize (sv_session sv)))" using fit room(2) by simp
  then have n: "unat ?n = length data"
    using unat_less_exp [of "max_write_payload (msize (sv_session sv))"] by (simp add: unat_of_nat)
  have srv: "serve_message ft (T_Write tag f offset data) sv = (Inr (Some (R_Write tag ?n)), ?sv)" if "tag \<noteq> NOTAG" for tag
    by (rule serve_write_file [OF rest that st(1,3) len]) (use st(2) t(1) n in simp_all)
  obtain op c1 c' where op: "protocol_op (client_write f offset data) c = (Inr op, c1)" "call_op ?env op c1 = (Inr (Done_Write ?n), c')"
    and c': "linked ?sv c'"
    unfolding client_write_def
    by (rule request_served [where env = ?env and msg = "\<lambda>tag. T_Write tag f offset data" and reply = "\<lambda>tag. R_Write tag ?n"
        and sv' = ?sv and completion = "Done_Write ?n" and f = "Some f", OF _ link])
      (use srv at_restD [OF rest] write_payload_fits [OF room(1) len] write_reply_fits [OF msz] receive_done_live in simp_all)
  have "write_once ?env f offset data c = (Inr ?n, c')"
    using op n by (simp add: write_once_def bind_s_def stateful_simps checked_write_count_def)
  moreover have "file_linked ft f q content (overwrite bs (unat offset) data) c'"
    unfolding file_linked_def using c' msz fid bf t(2) bs(2) off big
    by (intro exI [of _ ?sv]) (simp add: open_file_fid_def length_overwrite)
  moreover have "bc_max_write_payload c' = bc_max_write_payload c"
    using c' cm by (simp add: bc_max_write_payload_def linked_def wired_def)
  ultimately show ?thesis by blast
qed

lemma write_loop_step:
  assumes "data \<noteq> []" and "min (length data) mx = k" and "w offset (take k data) s = (Inr n, s')" and "unat n = k" and "n \<noteq> 0"
    and "checked_add written n = Some written'" and "checked_advance_offset offset (ucast n) = Inr offset'"
  shows "write_in_chunks_loop mx w offset data written s = write_in_chunks_loop mx w offset' (drop k data) written' s'"
  using assms by (subst write_in_chunks_loop.simps) (simp add: Let_def checked_write_count_def)

lemma write_loop_file:
  assumes "file_linked ft f q content bs c" and "unat offset \<le> length bs" and "0 < mx" and "mx \<le> unat (bc_max_write_payload c)"
    and "unat offset + length data < 2 ^ 64" and "unat written + length data \<le> u32_max"
  shows "\<exists>c'. write_in_chunks_loop mx (write_once (d\<lparr>peer := serve_file_tree ft\<rparr>) f) offset data written c =
      (Inr (written + word_of_nat (length data)), c') \<and> file_linked ft f q content (overwrite bs (unat offset) data) c'"
  using assms
proof (induction "length data" arbitrary: data offset written bs c rule: less_induct)
  case less
  let ?w = "write_once (d\<lparr>peer := serve_file_tree ft\<rparr>) f"
  show ?case
  proof (cases "data = []")
    case True
    with less.prems(1) show ?thesis by (simp add: write_in_chunks_loop.simps [of mx ?w offset "[]"])
  next
    case False
    define k where "k = min (length data) mx"
    define a where "a = take k data"
    define b where "b = drop k data"
    let ?n = "word_of_nat k :: u32" and ?off = "offset + word_of_nat k"
    have k: "0 < k" "k \<le> length data" "k \<le> mx" "length a = k" "length b = length data - k" "data = a @ b"
      using False less.prems(3) by (auto simp: k_def a_def b_def)
    have "length a \<le> unat (bc_max_write_payload c)" "unat offset + length a < 2 ^ 64"
      using k(2-4) less.prems(4,5) by linarith+
    from write_once_file [OF less.prems(1,2) this, of d]
    obtain c1 where w: "?w offset a c = (Inr ?n, c1)" and fl: "file_linked ft f q content (overwrite bs (unat offset) a) c1"
      and pay: "bc_max_write_payload c1 = bc_max_write_payload c" unfolding k(4) by blast
    have n: "unat ?n = k"
      using k(2) less.prems(6) by (simp add: unat_of_nat u32_max_def)
    have off: "unat ?off = unat offset + k"
      using k(2) less.prems(5) by (simp add: unat_word_ariths unat_of_nat)
    have wr: "unat (written + ?n) = unat written + k"
      using k(2) less.prems(6) n by (simp add: unat_word_ariths u32_max_def)
    have "unat ?off \<le> length (overwrite bs (unat offset) a)"
      using off k(4) length_overwrite [OF less.prems(2), of a] by simp
    moreover have "mx \<le> unat (bc_max_write_payload c1)" using pay less.prems(4) by simp
    moreover have "unat ?off + length b < 2 ^ 64" "unat (written + ?n) + length b \<le> u32_max" "length b < length data"
      using k(1,2,5) less.prems(5,6) off wr by linarith+
    ultimately have "unat ?off \<le> length (overwrite bs (unat offset) a)" "mx \<le> unat (bc_max_write_payload c1)"
      "unat ?off + length b < 2 ^ 64" "unat (written + ?n) + length b \<le> u32_max" "length b < length data" by blast+
    from less.hyps [OF this(5) fl this(1) less.prems(3) this(2-4)]
    obtain c' where c': "write_in_chunks_loop mx ?w ?off b (written + ?n) c1 = (Inr (written + ?n + word_of_nat (length b)), c')"
      "file_linked ft f q content (overwrite (overwrite bs (unat offset) a) (unat ?off) b) c'" by blast
    have "checked_add written ?n = Some (written + ?n)" "checked_advance_offset offset (ucast ?n) = Inr ?off" "?n \<noteq> 0"
      using n wr off k(1,2) less.prems(5,6) by (auto simp: checked_add_Some_iff checked_advance_offset_Inr u32_max_def)
    moreover have "write_in_chunks_loop mx ?w offset data written c = write_in_chunks_loop mx ?w ?off b (written + ?n) c1"
      unfolding b_def by (rule write_loop_step [where w = ?w, OF False k_def [symmetric] w [unfolded a_def] n calculation(3,1,2)])
    moreover have "overwrite (overwrite bs (unat offset) a) (unat ?off) b = overwrite bs (unat offset) data"
      using overwrite_append [OF less.prems(2), of a b] off k(4,6) by simp
    moreover have "written + ?n + word_of_nat (length b) = written + word_of_nat (length data)"
    proof -
      have "k + length b = length data" using k(2,5) by simp
      then show ?thesis by (simp only: add.assoc of_nat_add [symmetric])
    qed
    ultimately show ?thesis using c' by simp
  qed
qed

text \<open>C4: Data written through the whole stack is read back through it. With the blocking client connected to a
  served tree and a fid open on a file, writing any data at an offset within the file, in as many
  chunks as the message size asks for, succeeds and counts all of it; reading the whole file
  afterwards, page by page, returns the old contents with the data in place.\<close>

theorem written_file_reads_back:
  assumes "file_linked ft f q content bs c" and "unat offset \<le> length bs"
    and "unat offset + length data < 2 ^ 64" and "length data \<le> u32_max"
  shows "\<exists>c1 c2. bc_write (d\<lparr>peer := serve_file_tree ft\<rparr>) f offset data c = (Inr (word_of_nat (length data)), c1)
    \<and> read_all (d\<lparr>peer := serve_file_tree ft\<rparr>) f c1 = (Inr (overwrite bs (unat offset) data), c2)"
proof -
  let ?env = "d\<lparr>peer := serve_file_tree ft\<rparr>"
  have "1 \<le> bc_max_write_payload c" by (simp add: bc_max_write_payload_def)
  then have "0 < unat (bc_max_write_payload c)" by (simp add: word_le_nat_alt)
  then have "\<exists>c1. bc_write ?env f offset data c = (Inr (word_of_nat (length data)), c1)
      \<and> file_linked ft f q content (overwrite bs (unat offset) data) c1"
    using write_loop_file [OF assms(1,2) _ order.refl assms(3), of 0 d] write_once_file [OF assms(1,2), of "[]" d] assms(3,4)
    by (cases "data = []") (auto simp: bc_write_def write_in_chunks_def)
  then obtain c1 where c1: "bc_write ?env f offset data c = (Inr (word_of_nat (length data)), c1)"
    "file_linked ft f q content (overwrite bs (unat offset) data) c1" by blast
  with file_pages.read_all_contents [OF c1(2), of d] show ?thesis by blast
qed

definition sample_file_tree :: "bytes file_tree" where
  "sample_file_tree = (file_tree_defaults (\<lambda>_ _ _. return_s (Qid_dir 1)) (\<lambda>_ _ _ _. return_s [])
     (\<lambda>_ q _. return_s \<lparr>of_qid = q, of_iounit = 0\<rparr>)
     (\<lambda>_ _ offset count t. (Inr (Read_Bytes (take (unat count) (drop (unat offset) t))), t)) (\<lambda>_. throw_s (Error ENOENT)))
     \<lparr>ft_write := (\<lambda>_ _ offset data t. (Inr (word_of_nat (length data)), overwrite t (unat offset) data))\<rparr>"

definition sample_file_server :: "bytes server" where
  "sample_file_server =
     \<lparr>sv_session = (sample_negotiated R)\<lparr>fids := fmupd 5 (FidState_opened (Qid_file 2) ORDWR) fmempty\<rparr>, sv_tree = [7, 8, 9]\<rparr>"

definition sample_linked :: "'t server \<Rightarrow> 't server option bclient" where
  "sample_linked sv = \<lparr>bc_out = \<lparr>sent = [], script = []\<rparr>, bc_in = [], bc_peer = Some sv, protocol = sample_client,
     bc_variant = R, root_fid = 1, root_qid = Qid_dir 1\<rparr>"

lemma sample_client_msize: "cl_msize sample_client = 8192" "\<not> is_live (pending sample_client) t"
  by (simp_all add: sample_client_def receive_version_def version_request_for_def MIN_MSIZE_def Let_def table_reset_def is_live_def)

lemma sample_file_linked: "file_linked sample_file_tree 5 (Qid_file 2) id [7, 8, 9] (sample_linked sample_file_server)"
  unfolding file_linked_def
  by (intro exI [of _ sample_file_server])
    (simp add: linked_def wired_def at_rest_def sample_linked_def sample_file_server_def sample_negotiated_def sample_client_msize
      MIN_MSIZE_def open_file_fid_def validate_read_def validate_write_def is_dir_def is_auth_def Qid_file_def Qid_new_def QTFILE_def
      QTDIR_def QTAUTH_def permits_read_def permits_write_def ORDWR_def ACCESS_MASK_def byte_file_def sample_file_tree_def
      file_tree_defaults_def)

theorem written_file_reads_back_witness:
  "\<exists>c1 c2. bc_write \<lparr>peer = serve_file_tree sample_file_tree, debug_completion = \<lambda>_. [], debug_response = \<lambda>_. [], debug_str = id\<rparr>
       5 1 [1, 2, 3] (sample_linked sample_file_server) = (Inr 3, c1)
    \<and> read_all \<lparr>peer = serve_file_tree sample_file_tree, debug_completion = \<lambda>_. [], debug_response = \<lambda>_. [], debug_str = id\<rparr> 5 c1
        = (Inr [7, 1, 2, 3], c2)"
  using written_file_reads_back [OF sample_file_linked, of 1 "[1, 2, 3]"
      "\<lparr>peer = serve_file_tree sample_file_tree, debug_completion = \<lambda>_. [], debug_response = \<lambda>_. [], debug_str = id\<rparr>"]
  by (simp add: overwrite_def u32_max_def)

section \<open>Directories\<close>

text \<open>The client has read the directory up to byte \<open>n\<close>, the end of an entry; the tree lists \<open>stats\<close>, encoded as
  \<open>es\<close>, and each entry alone fits a page.\<close>

definition lists :: "'t file_tree \<Rightarrow> fid \<Rightarrow> qid \<Rightarrow> stat list \<Rightarrow> bool" where
  "lists ft f q stats \<longleftrightarrow> (\<forall>t offset count. \<exists>t'. ft_read ft f q offset count t = (Inr (Read_Directory stats), t'))"

definition dir_state :: "fid \<Rightarrow> qid \<Rightarrow> stat list \<Rightarrow> bytes list \<Rightarrow> nat \<Rightarrow> session \<Rightarrow> bool" where
  "dir_state f q stats es n s \<longleftrightarrow>
     MIN_MSIZE \<le> msize s \<and> (\<forall>e \<in> set es. length e \<le> unat (clamp_read_count (msize s) DEFAULT_READ_CHUNK))
     \<and> (\<exists>v. sess_variant s = Some v \<and> for_each (validate_stat_variant v) stats = Inr ())
     \<and> (\<exists>st. fmlookup (fids s) f = Some st \<and> fid_qid st = q \<and> is_dir q \<and> validate_read st (word_of_nat n) = Inr ())"

definition dir_linked :: "'t file_tree \<Rightarrow> fid \<Rightarrow> qid \<Rightarrow> stat list \<Rightarrow> bytes list \<Rightarrow> nat \<Rightarrow> 't server option bclient \<Rightarrow> bool" where
  "dir_linked ft f q stats es n c \<longleftrightarrow>
     lists ft f q stats \<and> encodes stats es \<and> length (concat es) < 2 ^ 64
     \<and> (\<exists>i \<le> length es. n = length (concat (take i es))) \<and> (\<exists>sv. linked sv c \<and> dir_state f q stats es n (sv_session sv))"

lemma validate_read_next:
  "validate_read st offset = Inr () \<Longrightarrow> validate_read (with_directory_offset st nxt) nxt = Inr ()"
  by (auto simp: validate_read_def and_then_Inr_iff with_directory_offset_def split: if_splits)

lemma dir_state_next:
  assumes "dir_state f q stats es n s" and "fmlookup (fids s) f = Some st" and "n' = unat nxt"
  shows "dir_state f q stats es n' ((ticked s)\<lparr>fids := fmupd f (with_directory_offset st nxt) (fids s)\<rparr>)"
  using assms validate_read_next by (auto simp: dir_state_def)

lemma encodes_nonempty: "encodes sts es \<Longrightarrow> e \<in> set es \<Longrightarrow> 0 < length e"
proof (induction sts arbitrary: es)
  case (Cons st sts)
  then obtain e' es' where es: "es = e' # es'" "Stat_encode st = Inr e'" "encodes sts es'" by (auto simp: encodes_Cons1)
  have "0 < length e'" using Stat_encode_length [OF es(2)] by linarith
  with Cons es show ?case by auto
qed simp

lemma dir_page_split:
  assumes "i \<le> length es" and "page = concat (fit_entries m (drop i es))" and "\<forall>e \<in> set es. 0 < length e \<and> length e \<le> m"
  obtains j where "j \<le> length es" "length (concat (take i es)) + length page = length (concat (take j es))"
    "drop (length (concat (take i es))) (concat es) = page @ drop (length (concat (take j es))) (concat es)"
    "page = [] \<Longrightarrow> i = length es"
proof -
  let ?fit = "fit_entries m (drop i es)" let ?j = "i + length ?fit"
  have fit: "?fit = take (length ?fit) (drop i es)" by (rule fit_entries_take)
  then have len: "length ?fit \<le> length (drop i es)" by (metis length_take min.cobounded1)
  have tk: "take ?j es = take i es @ ?fit"
    using fit by (simp add: take_add)
  have drops: "drop (length (concat (take k es))) (concat es) = concat (drop k es)" for k
    by (metis append_eq_conv_conj append_take_drop_id concat_append)
  have "concat (drop i es) = page @ concat (drop ?j es)"
    using fit by (metis append_take_drop_id assms(2) concat_append drop_drop add.commute)
  moreover have "i = length es" if "page = []"
  proof (rule ccontr)
    assume "i \<noteq> length es"
    with assms(1) have "drop i es \<noteq> []" "hd (drop i es) \<in> set es" by (auto simp: hd_drop_conv_nth)
    then have "?fit \<noteq> []" "hd (drop i es) \<noteq> []"
      using fit_entries_nonempty [of "drop i es" m] assms(3) by auto
    moreover from this have "hd ?fit = hd (drop i es)" using fit by (metis hd_take length_greater_0_conv)
    ultimately show False using that assms(2) by (cases ?fit) auto
  qed
  moreover have "?j \<le> length es" using len assms(1) by simp
  moreover have "length (concat (take i es)) + length page = length (concat (take ?j es))"
    by (simp add: tk assms(2))
  ultimately show thesis using drops that by metis
qed

lemma dir_page:
  assumes dl: "dir_linked ft f q stats es n c"
  shows "\<exists>data c'. bc_read (d\<lparr>peer := serve_file_tree ft\<rparr>) f (word_of_nat n) DEFAULT_READ_CHUNK c = (Inr data, c')
    \<and> dir_linked ft f q stats es (n + length data) c'
    \<and> drop n (concat es) = data @ drop (n + length data) (concat es) \<and> (data = [] \<longrightarrow> length (concat es) \<le> n)"
proof -
  from dl obtain sv i where lst: "lists ft f q stats" and enc: "encodes stats es" and big: "length (concat es) < 2 ^ 64"
    and i: "i \<le> length es" "n = length (concat (take i es))" and link: "linked sv c"
    and ds: "dir_state f q stats es n (sv_session sv)" unfolding dir_linked_def by blast
  from ds obtain v st where v: "sess_variant (sv_session sv) = Some v" "for_each (validate_stat_variant v) stats = Inr ()"
    and st: "fmlookup (fids (sv_session sv)) f = Some st" "fid_qid st = q" "is_dir q" "validate_read st (word_of_nat n) = Inr ()"
    and msz: "MIN_MSIZE \<le> msize (sv_session sv)"
    and fits: "\<forall>e \<in> set es. length e \<le> unat (clamp_read_count (msize (sv_session sv)) DEFAULT_READ_CHUNK)"
    unfolding dir_state_def by blast
  let ?m = "clamp_read_count (msize (sv_session sv)) DEFAULT_READ_CHUNK"
  let ?page = "concat (fit_entries (unat ?m) (drop i es))"
  have "\<forall>e \<in> set es. 0 < length e \<and> length e \<le> unat ?m"
    using fits enc encodes_nonempty by blast
  from dir_page_split [OF i(1) refl this] obtain j where j: "j \<le> length es" "n + length ?page = length (concat (take j es))"
    "drop n (concat es) = ?page @ drop (length (concat (take j es))) (concat es)" "?page = [] \<Longrightarrow> i = length es"
    unfolding i(2) by blast
  have le: "length (concat (take k es)) \<le> length (concat es)" for k
    by (metis append_take_drop_id concat_append le_add1 length_append)
  have n: "unat (word_of_nat n :: u64) = n" using le [of i] big i(2) by (intro unat_u64) simp
  let ?nxt = "word_of_nat (n + length ?page) :: u64"
  have nxt: "unat ?nxt = n + length ?page" using le [of j] big j(2) by (intro unat_u64) simp
  have add: "checked_add (word_of_nat n) (word_of_nat (length ?page)) = Some ?nxt"
    using n nxt unat_u64 [of "length ?page"] le [of j] big j(2) by (simp add: checked_add_Some_iff del: of_nat_add)
  obtain t where t: "ft_read ft f q (word_of_nat n) ?m (sv_tree sv) = (Inr (Read_Directory stats), t)"
    using lst unfolding lists_def by metis
  have pay: "read_payload v (word_of_nat n) ?m (Read_Directory stats) = Inr ?page"
    unfolding read_payload_def read_data.case v(2) and_then_simps
    by (rule dirread_chunk_boundary [OF enc big i(1)]) (use n i(2) in simp)
  have rest: "at_rest (sv_session sv)" using link by (simp add: linked_def)
  let ?sv = "sv\<lparr>sv_session := (ticked (sv_session sv))\<lparr>fids := fmupd f (with_directory_offset st ?nxt) (fids (sv_session sv))\<rparr>, sv_tree := t\<rparr>"
  have srv: "serve_message ft (T_Read tag f (word_of_nat n) ?m) sv = (Inr (Some (R_Read tag ?page)), ?sv)" if "tag \<noteq> NOTAG" for tag
    using serve_read_directory [OF rest that st(1) _ st(4) v(1), of ft ?m "Read_Directory stats" t ?page ?nxt] st(2,3) t pay add by simp
  obtain c' where c': "bc_read (d\<lparr>peer := serve_file_tree ft\<rparr>) f (word_of_nat n) DEFAULT_READ_CHUNK c = (Inr ?page, c')" "linked ?sv c'"
    by (rule bc_read_served [where env = "d\<lparr>peer := serve_file_tree ft\<rparr>", OF _ link msz refl srv])
      (use at_restD [OF rest] fit_entries_size [of "unat ?m" "drop i es"] in simp_all)
  have "dir_linked ft f q stats es (n + length ?page) c'"
    unfolding dir_linked_def using lst enc big j(1,2) c'(2) dir_state_next [OF ds st(1) nxt [symmetric]]
    by (auto intro!: exI [of _ ?sv])
  moreover have "length (concat es) \<le> n" if "?page = []"
    using j(4) [OF that] i(2) by simp
  ultimately show ?thesis using c'(1) j(2,3) by auto
qed

interpretation dir_pages: paged_file "d\<lparr>peer := serve_file_tree ft\<rparr>" f "concat es" "dir_linked ft f q stats es"
  for d ft f q stats es
proof unfold_locales
  show "dir_linked ft f q stats es n c \<Longrightarrow> length (concat es) < 2 ^ 64" for n c
    by (simp add: dir_linked_def)
qed (rule dir_page)

text \<open>C5: A directory listed through the whole stack is the directory. With the blocking client connected to a
  served tree and a fid just opened on a directory whose entries each fit a page, reading the listing, in as many
  pages as the message size asks for, returns exactly the entries of the tree, in order.\<close>

theorem listing_is_the_directory:
  assumes "dir_linked ft f q stats es 0 c"
  shows "\<exists>c'. read_dir_stats (d\<lparr>peer := serve_file_tree ft\<rparr>) f c = (Inr stats, c')"
proof -
  have "encodes stats es" "length (concat es) \<le> usize_max"
    using assms by (simp_all add: dir_linked_def usize_max_def)
  then have "decode_dir_entries (concat es) = Inr stats"
    by (rule decode_dir_entries_encodes)
  with dir_pages.read_all_contents [OF assms, of d] show ?thesis
    by (auto simp: read_dir_stats_def bind_s_def stateful_simps)
qed

definition sample_dir_server :: "unit server" where
  "sample_dir_server =
     \<lparr>sv_session = (sample_negotiated R)\<lparr>fids := fmupd 5 (FidState_opened (Qid_dir 1) OREAD) fmempty\<rparr>, sv_tree = ()\<rparr>"

definition sample_dir_tree :: "unit file_tree" where
  "sample_dir_tree = file_tree_defaults (\<lambda>_ _ _. return_s (Qid_dir 1)) (\<lambda>_ _ _ _. return_s [])
     (\<lambda>_ q _. return_s \<lparr>of_qid = q, of_iounit = 0\<rparr>) (\<lambda>_ _ _ _. return_s (Read_Directory [sample_stat, sample_stat]))
     (\<lambda>_. throw_s (Error ENOENT))"

lemma sample_dir_linked:
  "dir_linked sample_dir_tree 5 (Qid_dir 1) [sample_stat, sample_stat] [sample_entry, sample_entry] 0 (sample_linked sample_dir_server)"
proof -
  have "validate_stat_variant R sample_stat = Inr ()"
    by (simp add: validate_stat_variant_def validate_qid_variant_def supports_symlinks_def)
  moreover have "validate_read (FidState_opened (Qid_dir 1) OREAD) 0 = Inr ()"
    by (simp add: validate_read_def is_auth_def Qid_dir_def Qid_new_def QTDIR_def QTAUTH_def permits_read_def OREAD_def ACCESS_MASK_def)
  moreover have "is_dir (Qid_dir 1)" by (simp add: is_dir_def Qid_dir_def Qid_new_def QTDIR_def)
  moreover have "unat (clamp_read_count 8192 DEFAULT_READ_CHUNK) = 8181"
    by (simp add: clamp_read_count_def DEFAULT_READ_CHUNK_def saturating_sub_def RREAD_HEADER_SIZE_def)
  ultimately have "dir_state 5 (Qid_dir 1) [sample_stat, sample_stat] [sample_entry, sample_entry] 0 (sv_session sample_dir_server)"
    by (simp add: dir_state_def sample_dir_server_def sample_negotiated_def MIN_MSIZE_def sample_entry_length)
  moreover have "linked sample_dir_server (sample_linked sample_dir_server)"
    by (simp add: linked_def wired_def at_rest_def sample_linked_def sample_dir_server_def sample_negotiated_def sample_client_msize)
  moreover have "lists sample_dir_tree 5 (Qid_dir 1) [sample_stat, sample_stat]"
    by (simp add: lists_def sample_dir_tree_def file_tree_defaults_def return_s_def)
  ultimately show ?thesis
    unfolding dir_linked_def using sample_entry by (auto simp: sample_entry_length intro!: exI [of _ 0])
qed

theorem listing_is_the_directory_witness:
  "\<exists>c'. read_dir_stats \<lparr>peer = serve_file_tree sample_dir_tree, debug_completion = \<lambda>_. [], debug_response = \<lambda>_. [], debug_str = id\<rparr>
     5 (sample_linked sample_dir_server) = (Inr [sample_stat, sample_stat], c')"
  using listing_is_the_directory [OF sample_dir_linked,
      of "\<lparr>peer = serve_file_tree sample_dir_tree, debug_completion = \<lambda>_. [], debug_response = \<lambda>_. [], debug_str = id\<rparr>"]
  by simp

end
