(* ===== verification/R9P_Stores.thy ===== *)
theory R9P_Stores
  imports R9P_Types
begin

text \<open>
  The stores a backend keeps beside its files: bounded byte snapshots per opened fid
  (\<^verbatim>\<open>server/read_snapshot.rs\<close>), a stream that every reader sees from the moment it joined
  (\<^verbatim>\<open>server/stream.rs\<close>), and the bounds of write-then-read requests (\<^verbatim>\<open>rpc.rs\<close>).
\<close>

section \<open>Read snapshots\<close>

record fid_read_snapshots =
  snapshots :: "(fid, bytes) fmap"
  snapshot_bytes :: usize
  max_bytes :: usize

definition FidReadSnapshots_new :: "usize \<Rightarrow> fid_read_snapshots" where
  "FidReadSnapshots_new limit = \<lparr>snapshots = fmempty, snapshot_bytes = 0, max_bytes = limit\<rparr>"

definition snapshots_contains :: "fid \<Rightarrow> fid_read_snapshots \<Rightarrow> bool" where
  "snapshots_contains f t \<longleftrightarrow> fmlookup (snapshots t) f \<noteq> None"

definition snapshots_capture :: "fid \<Rightarrow> bytes \<Rightarrow> (fid_read_snapshots, unit) fallible" where
  "snapshots_capture f bs t =
     (if snapshots_contains f t then (Inl (Error_from ''read snapshot already captured''), t)
      else case (case usize_checked_add (snapshot_bytes t) (length bs) of
                   Some projected \<Rightarrow> if projected \<le> max_bytes t then Some projected else None
                 | None \<Rightarrow> None) of
        None \<Rightarrow> (Inl (Error_from ''read snapshot capacity exhausted''), t)
      | Some projected \<Rightarrow>
          (Inr (), t\<lparr>snapshot_bytes := projected, snapshots := fmupd f bs (snapshots t)\<rparr>))"

definition snapshots_read :: "fid \<Rightarrow> u64 \<Rightarrow> u32 \<Rightarrow> fid_read_snapshots \<Rightarrow> bytes result" where
  "snapshots_read f offset count t =
     and_then (ok_or (fmlookup (snapshots t) f) (Error EBADFID)) (\<lambda>bs.
       let offset = unat offset in
       if offset \<ge> length bs \<or> count = 0 then Inr []
       else let stop = min (usize_saturating_add offset (unat count)) (length bs) in
         Inr (drop offset (take stop bs)))"

definition snapshots_remove :: "fid \<Rightarrow> fid_read_snapshots \<Rightarrow> fid_read_snapshots" where
  "snapshots_remove f t =
     (case fmlookup (snapshots t) f of
        Some bs \<Rightarrow> t\<lparr>snapshots := fmdrop f (snapshots t), snapshot_bytes := snapshot_bytes t - length bs\<rparr>
      | None \<Rightarrow> t)"

definition snapshots_clear :: "fid_read_snapshots \<Rightarrow> fid_read_snapshots" where
  "snapshots_clear t = t\<lparr>snapshots := fmempty, snapshot_bytes := 0\<rparr>"

definition snapshots_len :: "fid_read_snapshots \<Rightarrow> usize" where
  "snapshots_len t = fcard (fmdom (snapshots t))"

definition snapshots_is_empty :: "fid_read_snapshots \<Rightarrow> bool" where
  "snapshots_is_empty t \<longleftrightarrow> snapshots t = fmempty"

text \<open>The store as an alphabet of operations.\<close>

datatype snapshot_op = Capture fid bytes | Remove fid | Clear

fun snapshot_step :: "snapshot_op \<Rightarrow> fid_read_snapshots \<Rightarrow> fid_read_snapshots" where
  "snapshot_step (Capture f bs) t = snd (snapshots_capture f bs t)"
| "snapshot_step (Remove f) t = snapshots_remove f t"
| "snapshot_step Clear t = snapshots_clear t"

definition stored :: "(fid, bytes) fmap \<Rightarrow> nat" where
  "stored m = (\<Sum>f \<in> fset (fmdom m). length (the (fmlookup m f)))"

lemma stored_empty [simp]: "stored fmempty = 0"
  by (simp add: stored_def)

lemma stored_upd: "fmlookup m f = None \<Longrightarrow> stored (fmupd f bs m) = stored m + length bs"
proof -
  assume new: "fmlookup m f = None"
  then have f: "f \<notin> fset (fmdom m)" by (simp add: fmlookup_dom_iff)
  then have "(\<Sum>x \<in> fset (fmdom m). length (the (fmlookup (fmupd f bs m) x))) = stored m"
    unfolding stored_def by (intro sum.cong) auto
  with f show ?thesis by (simp add: stored_def)
qed

lemma stored_drop: "fmlookup m f = Some bs \<Longrightarrow> stored m = stored (fmdrop f m) + length bs"
proof -
  assume f: "fmlookup m f = Some bs"
  have "fmupd f bs (fmdrop f m) = m"
    using f by (intro fmap_ext) auto
  then show ?thesis using stored_upd [of "fmdrop f m" f bs] by simp
qed

definition snapshots_ok :: "fid_read_snapshots \<Rightarrow> bool" where
  "snapshots_ok t \<longleftrightarrow> 
     snapshot_bytes t = stored (snapshots t) \<and> snapshot_bytes t \<le> max_bytes t \<and> snapshot_bytes t \<le> usize_max"

lemma snapshots_ok_step: "snapshots_ok t \<Longrightarrow> snapshots_ok (snapshot_step op t) \<and> max_bytes (snapshot_step op t) = max_bytes t"
proof (cases op)
  case (Capture f bs)
  moreover assume "snapshots_ok t"
  ultimately show ?thesis
    by (auto simp: snapshots_ok_def snapshots_capture_def snapshots_contains_def usize_checked_add_def stored_upd
        split: option.splits if_splits)
next
  case (Remove f)
  moreover assume "snapshots_ok t"
  ultimately show ?thesis
    using stored_drop [of "snapshots t" f]
    by (auto simp: snapshots_ok_def snapshots_remove_def split: option.splits)
qed (simp add: snapshots_ok_def snapshots_clear_def)

lemma snapshots_ok_run:
  "snapshots_ok t \<Longrightarrow> snapshots_ok (fold snapshot_step ops t) \<and> max_bytes (fold snapshot_step ops t) = max_bytes t"
  by (induction ops arbitrary: t) (use snapshots_ok_step in fastforce)+

text \<open>What a step may do to the snapshot of a fid: it appears by a capture, stays as it is, or goes by a
  removal of that fid or a clear.\<close>

fun releases :: "fid \<Rightarrow> snapshot_op \<Rightarrow> bool" where
  "releases f (Capture _ _) = False"
| "releases f (Remove g) = (g = f)"
| "releases f Clear = True"

lemma snapshot_stays:
  "fmlookup (snapshots t) f = Some bs \<Longrightarrow> \<not> releases f op \<Longrightarrow> fmlookup (snapshots (snapshot_step op t)) f = Some bs"
  by (cases op)
    (auto simp: snapshots_capture_def snapshots_contains_def snapshots_remove_def split: option.splits if_splits)

lemma snapshot_stays_run:
  "fmlookup (snapshots t) f = Some bs \<Longrightarrow> list_all (\<lambda>op. \<not> releases f op) ops \<Longrightarrow>
     fmlookup (snapshots (fold snapshot_step ops t)) f = Some bs"
  by (induction ops arbitrary: t) (auto simp: snapshot_stays)

lemma snapshot_length: "snapshots_ok t \<Longrightarrow> fmlookup (snapshots t) f = Some bs \<Longrightarrow> length bs \<le> usize_max"
  using stored_drop [of "snapshots t" f bs] by (simp add: snapshots_ok_def)

lemma snapshots_read_slice:
  assumes "length bs \<le> usize_max" and "fmlookup (snapshots t) f = Some bs"
  shows "snapshots_read f offset count t = Inr (take (unat count) (drop (unat offset) bs))"
  using assms by (auto simp: snapshots_read_def Let_def usize_saturating_add_def min_def drop_take)

text \<open>C38: Snapshots stay within their budget and do not change under a reader. After any sequence of captures,
  removals and clears of a new store, the byte count is what is stored and within the limit; and
  a captured snapshot, until its fid is removed or the store cleared, is read back slice by slice
  exactly as it was captured, whatever happens to other fids.\<close>

theorem snapshots_bounded_and_coherent:
  assumes "t = fold snapshot_step ops (FidReadSnapshots_new limit)"
    and "snapshots_capture f bs t = (Inr (), t')" and "list_all (\<lambda>op. \<not> releases f op) later"
  shows "snapshot_bytes t' = stored (snapshots t') \<and> snapshot_bytes t' \<le> limit
    \<and> snapshots_read f offset count (fold snapshot_step later t') = Inr (take (unat count) (drop (unat offset) bs))"
proof -
  have "snapshots_ok (FidReadSnapshots_new limit)"
    by (simp add: snapshots_ok_def FidReadSnapshots_new_def)
  then have t: "snapshots_ok t" "max_bytes t = limit"
    using snapshots_ok_run [of "FidReadSnapshots_new limit" ops] assms(1) by (simp_all add: FidReadSnapshots_new_def)
  then have t': "snapshots_ok t'" "max_bytes t' = limit"
    using snapshots_ok_step [OF t(1), of "Capture f bs"] assms(2) by simp_all
  have f: "fmlookup (snapshots t') f = Some bs"
    using assms(2) by (auto simp: snapshots_capture_def split: if_splits option.splits)
  have "snapshots_read f offset count (fold snapshot_step later t') = Inr (take (unat count) (drop (unat offset) bs))"
    using snapshots_read_slice [OF snapshot_length [OF t'(1) f] snapshot_stays_run [OF f assms(3)]] .
  with t' show ?thesis by (simp add: snapshots_ok_def)
qed

theorem snapshots_bounded_and_coherent_witness:
  "\<exists>t'. snapshots_capture 7 [1, 2, 3] (fold snapshot_step [Capture 5 [9], Remove 5] (FidReadSnapshots_new 4)) = (Inr (), t')
     \<and> snapshot_bytes t' \<le> 4 \<and> snapshots_read 7 1 1 (fold snapshot_step [Capture 6 [8], Remove 6] t') = Inr [2]"
proof -
  let ?t = "fold snapshot_step [Capture 5 [9], Remove 5] (FidReadSnapshots_new 4)"
  have "snapshots_capture 7 [1, 2, 3] ?t = (Inr (), snd (snapshots_capture 7 [1, 2, 3] ?t))"
    by (simp add: snapshots_capture_def snapshots_remove_def snapshots_contains_def FidReadSnapshots_new_def
        usize_checked_add_def usize_max_def)
  from snapshots_bounded_and_coherent [OF refl this, of "[Capture 6 [8], Remove 6]" 1 1] this show ?thesis
    by (intro exI [of _ "snd (snapshots_capture 7 [1, 2, 3] ?t)"]) simp
qed

section \<open>Broadcast streams\<close>

record broadcaster =
  readers :: "(fid, bytes) fmap"
  total_pushed :: u64

definition Broadcaster_new :: broadcaster where
  "Broadcaster_new = \<lparr>readers = fmempty, total_pushed = 0\<rparr>"

definition broadcaster_push :: "bytes \<Rightarrow> broadcaster \<Rightarrow> broadcaster" where
  "broadcaster_push bs b =
     (if bs = [] then b
      else b\<lparr>readers := fmmap (\<lambda>queue. queue @ bs) (readers b),
             total_pushed := saturating_add (total_pushed b) (word_of_nat (length bs))\<rparr>)"

definition reader_count :: "broadcaster \<Rightarrow> usize" where
  "reader_count b = fcard (fmdom (readers b))"

definition broadcaster_pending :: "fid \<Rightarrow> broadcaster \<Rightarrow> usize option" where
  "broadcaster_pending f b = map_option length (fmlookup (readers b) f)"

definition broadcaster_length :: "broadcaster \<Rightarrow> u64" where
  "broadcaster_length b = total_pushed b"

definition add_reader :: "fid \<Rightarrow> broadcaster \<Rightarrow> broadcaster" where
  "add_reader f b = b\<lparr>readers := fmupd f [] (readers b)\<rparr>"

definition remove_reader :: "fid \<Rightarrow> broadcaster \<Rightarrow> broadcaster" where
  "remove_reader f b = b\<lparr>readers := fmdrop f (readers b)\<rparr>"

definition broadcaster_read :: "fid \<Rightarrow> u64 \<Rightarrow> u32 \<Rightarrow> (broadcaster, bytes) fallible" where
  "broadcaster_read f offset count b =
     (case fmlookup (readers b) f of
        None \<Rightarrow> (Inl (Error EBADFID), b)
      | Some queue \<Rightarrow>
          let n = min (unat count) (length queue) in
          (Inr (take n queue), b\<lparr>readers := fmupd f (drop n queue) (readers b)\<rparr>))"

datatype broadcast_op = Push bytes | Add fid | Leave fid | Read_stream fid u64 u32

fun broadcast_step :: "broadcast_op \<Rightarrow> broadcaster \<Rightarrow> broadcaster" where
  "broadcast_step (Push bs) b = broadcaster_push bs b"
| "broadcast_step (Add f) b = add_reader f b"
| "broadcast_step (Leave f) b = remove_reader f b"
| "broadcast_step (Read_stream f offset count) b = snd (broadcaster_read f offset count b)"

text \<open>What one operation pushes, and what it hands to the reader \<open>f\<close>.\<close>

fun pushed :: "broadcast_op \<Rightarrow> bytes" where
  "pushed (Push bs) = bs"
| "pushed _ = []"

fun handed :: "fid \<Rightarrow> broadcaster \<Rightarrow> broadcast_op \<Rightarrow> bytes" where
  "handed f b (Read_stream g offset count) =
     (if g = f then (case fst (broadcaster_read g offset count b) of Inr data \<Rightarrow> data | Inl _ \<Rightarrow> []) else [])"
| "handed f b _ = []"

fun delivered :: "fid \<Rightarrow> broadcaster \<Rightarrow> broadcast_op list \<Rightarrow> bytes" where
  "delivered f b [] = []"
| "delivered f b (op # ops) = handed f b op @ delivered f (broadcast_step op b) ops"

definition keeps_reader :: "fid \<Rightarrow> broadcast_op \<Rightarrow> bool" where
  "keeps_reader f op \<longleftrightarrow> op \<noteq> Add f \<and> op \<noteq> Leave f"

lemma broadcast_step_queue:
  assumes "fmlookup (readers b) f = Some queue" and "keeps_reader f op"
  shows "\<exists>queue'. fmlookup (readers (broadcast_step op b)) f = Some queue' \<and> queue @ pushed op = handed f b op @ queue'"
  using assms by (cases op)
    (auto simp: keeps_reader_def broadcaster_push_def add_reader_def remove_reader_def broadcaster_read_def Let_def
      split: option.splits)

lemma broadcast_run_queue:
  "fmlookup (readers b) f = Some queue \<Longrightarrow> list_all (keeps_reader f) ops \<Longrightarrow>
     \<exists>queue'. fmlookup (readers (fold broadcast_step ops b)) f = Some queue'
       \<and> queue @ concat (map pushed ops) = delivered f b ops @ queue'"
proof (induction ops arbitrary: b queue)
  case (Cons op ops)
  then obtain q where q: "fmlookup (readers (broadcast_step op b)) f = Some q" "queue @ pushed op = handed f b op @ q"
    using broadcast_step_queue [OF Cons.prems(1), of op] by auto
  from Cons.IH [OF q(1)] Cons.prems(2) obtain q' where
    "fmlookup (readers (fold broadcast_step ops (broadcast_step op b))) f = Some q'"
    "q @ concat (map pushed ops) = delivered f (broadcast_step op b) ops @ q'" by auto
  moreover from this(2) q(2) have "queue @ pushed op @ concat (map pushed ops) = handed f b op @ delivered f (broadcast_step op b) ops @ q'"
    by (metis append.assoc)
  ultimately show ?case by auto
qed simp

text \<open>C39: A stream reader misses nothing and sees nothing twice: from the moment it is added, what its reads
  return, in order, followed by what is still queued for it, is the concatenation of everything pushed since,
  whatever other readers come, go and read.\<close>

theorem stream_readers_see_every_push:
  assumes "list_all (keeps_reader f) ops"
  shows "\<exists>queue. broadcaster_pending f (fold broadcast_step ops (add_reader f b)) = Some (length queue)
    \<and> delivered f (add_reader f b) ops @ queue = concat (map pushed ops)"
  using broadcast_run_queue [of "add_reader f b" f "[]", OF _ assms]
  by (fastforce simp: add_reader_def broadcaster_pending_def)

theorem stream_readers_see_every_push_witness:
  "delivered 4 (add_reader 4 Broadcaster_new) [Push [1, 2], Add 5, Push [3], Read_stream 4 0 2, Leave 5] = [1, 2]
   \<and> broadcaster_pending 4 (fold broadcast_step [Push [1, 2], Add 5, Push [3], Read_stream 4 0 2, Leave 5] (add_reader 4 Broadcaster_new))
     = Some 1"
proof -
  let ?ops = "[Push [1, 2], Add 5, Push [3], Read_stream 4 0 2, Leave 5]"
  have "list_all (keeps_reader 4) ?ops" by (simp add: keeps_reader_def)
  moreover have "delivered 4 (add_reader 4 Broadcaster_new) ?ops = [1, 2]"
    by (simp add: add_reader_def Broadcaster_new_def broadcaster_push_def broadcaster_read_def)
  ultimately show ?thesis
    using stream_readers_see_every_push [of 4 ?ops Broadcaster_new] by (auto simp del: fold.simps)
qed

section \<open>Request chunks\<close>

record request_limits =
  max_request_bytes :: usize
  max_connection_bytes :: usize

record request_chunk =
  starts_request :: bool
  resulting_request_bytes :: usize
  chunk_count :: u32

definition RequestLimits_new :: "usize \<Rightarrow> usize \<Rightarrow> request_limits result" where
  "RequestLimits_new request connection =
     (if request = 0 \<or> connection = 0 \<or> request > connection then Inl (Error_from ''invalid RPC request limits'')
      else Inr \<lparr>max_request_bytes = request, max_connection_bytes = connection\<rparr>)"

definition validate_request_chunk ::
  "usize option \<Rightarrow> usize \<Rightarrow> u64 \<Rightarrow> usize \<Rightarrow> request_limits \<Rightarrow> request_chunk result" where
  "validate_request_chunk current_request_bytes buffered_elsewhere offset chunk_bytes limits =
     (let offset = unat offset; starts = (offset = 0) in
      and_then (if starts then Inr 0
        else and_then (ok_or current_request_bytes (Error_from ''RPC request must begin at offset zero'')) (\<lambda>current.
          if offset \<noteq> current then Inl (Error_from ''RPC write offset is not contiguous'') else Inr current)) (\<lambda>base.
      and_then (ok_or (usize_checked_add base chunk_bytes) (Error_from ''RPC request size overflow'')) (\<lambda>resulting.
      if resulting > max_request_bytes limits then Inl (Error_from ''RPC request too large'')
      else and_then (ok_or (usize_checked_add buffered_elsewhere resulting)
          (Error_from ''RPC connection buffer size overflow'')) (\<lambda>connection_bytes.
      if connection_bytes > max_connection_bytes limits then Inl (Error_from ''RPC connection buffer limit exceeded'')
      else and_then (if chunk_bytes \<le> u32_max then Inr (word_of_nat chunk_bytes)
          else Inl (Error_from ''RPC request chunk too large'')) (\<lambda>count.
      Inr \<lparr>starts_request = starts, resulting_request_bytes = resulting, chunk_count = count\<rparr>)))))"

lemma validate_request_chunk_Inr:
  assumes "max_connection_bytes limits \<le> usize_max"
  shows "validate_request_chunk buffered elsewhere offset n limits = Inr c \<longleftrightarrow>
     (offset = 0 \<or> buffered = Some (unat offset)) \<and> n \<le> u32_max
     \<and> unat offset + n \<le> max_request_bytes limits \<and> elsewhere + (unat offset + n) \<le> max_connection_bytes limits
     \<and> c = \<lparr>starts_request = (offset = 0), resulting_request_bytes = unat offset + n, chunk_count = word_of_nat n\<rparr>"
  using assms
  by (auto simp: validate_request_chunk_def Let_def and_then_Inr_iff usize_checked_add_def unat_eq_0 split: if_splits)
    (intro exI [of _ "unat offset"], simp)

end
