(* ===== verification/R9P_Front_Data.thy ===== *)
theory R9P_Front_Data
  imports R9P_Codec "HOL-Library.List_Lexorder"
begin

text \<open>
  The state of a front (\<^verbatim>\<open>front/src/model.rs\<close>) as data: the tree of named nodes an owner publishes,
  with its index by qid path, the count of fids bound to each node, the nodes detached from the
  tree that fids still hold, and the queues of requests relayed to the owner.

  Node ids are natural numbers: the code counts them up from 1 in a \<^verbatim>\<open>u64\<close>, one per node ever
  created. Qid paths are supplied by owners and stay 64-bit words. A \<^verbatim>\<open>BTreeMap\<close> is a finite map;
  where the code iterates over one, the model takes the keys in ascending order.
\<close>

definition EEXIST :: bytes where "EEXIST = str ''file exists''"

section \<open>Bodies and nodes\<close>

definition ROOT_ID :: nat where "ROOT_ID = 0"
definition DEFAULT_LOG_CAPACITY :: usize where "DEFAULT_LOG_CAPACITY = 2 ^ 20"
definition DEFAULT_IOUNIT :: u32 where "DEFAULT_IOUNIT = 4096"

datatype child_directory_removal = Forbidden | RelayToOwner

record child_directory_resolver =
  resolution_prefix :: bytes
  resolver_read_prefix :: bytes
  resolver_removal :: child_directory_removal

record directory_body =
  children :: "(bytes, nat) fmap"
  read_relay :: "bytes option"
  child_resolver :: "child_directory_resolver option"

definition DirectoryBody_default :: directory_body where
  "DirectoryBody_default = \<lparr>children = fmempty, read_relay = None, child_resolver = None\<rparr>"

record log_body =
  log_entries :: "bytes list"
  log_start :: u64
  log_retained :: usize

datatype body =
    Dir directory_body
  | File bytes
  | Log log_body
  | IntakeNew nat
  | Rpc bytes
  | ReadRelay bytes
  | SnapshotReadRelay bytes
  | WriteRelay bytes

subsection \<open>Retained logs\<close>

definition LogBody_new :: "bytes \<Rightarrow> log_body" where
  "LogBody_new bs = \<lparr>log_entries = [bs], log_start = 0, log_retained = length bs\<rparr>"

definition LogBody_empty_at :: "u64 \<Rightarrow> log_body" where
  "LogBody_empty_at start = \<lparr>log_entries = [], log_start = start, log_retained = 0\<rparr>"

definition LogBody_empty :: log_body where
  "LogBody_empty = LogBody_empty_at 0"

definition log_end :: "log_body \<Rightarrow> u64" where
  "log_end l = log_start l + word_of_nat (log_retained l)"

function log_evict :: "usize \<Rightarrow> log_body \<Rightarrow> log_body" where
  "log_evict capacity l =
     (if log_retained l > capacity \<and> length (log_entries l) > 1
      then log_evict capacity
             (l\<lparr>log_entries := tl (log_entries l),
                log_start := log_start l + word_of_nat (length (hd (log_entries l))),
                log_retained := log_retained l - length (hd (log_entries l))\<rparr>)
      else l)"
  by pat_completeness auto
termination
  by (relation "measure (\<lambda>(_, l). length (log_entries l))") auto

declare log_evict.simps [simp del]

definition log_append :: "bytes \<Rightarrow> usize \<Rightarrow> log_body \<Rightarrow> log_body" where
  "log_append bs capacity l =
     log_evict capacity
       (l\<lparr>log_retained := log_retained l + length bs, log_entries := log_entries l @ [bs]\<rparr>)"

fun log_read_entries :: "bytes list \<Rightarrow> usize \<Rightarrow> usize \<Rightarrow> bytes \<Rightarrow> bytes" where
  "log_read_entries [] skip count out = out"
| "log_read_entries (entry # entries) skip count out =
     (if skip \<ge> length entry then log_read_entries entries (skip - length entry) count out
      else let n = min (length entry - skip) (count - length out);
               out' = out @ take n (drop skip entry)
           in if length out' = count then out' else log_read_entries entries 0 count out')"

definition log_read :: "u64 \<Rightarrow> usize \<Rightarrow> log_body \<Rightarrow> bytes" where
  "log_read offset count l =
     log_read_entries (log_entries l) (unat (saturating_sub offset (log_start l))) count []"

subsection \<open>Nodes\<close>

record node =
  node_name :: bytes
  node_parent :: nat
  node_qid_path :: u64
  node_version :: u32
  node_generation :: u64
  pushed_mtime :: "u32 option"
  pushed_length :: "u64 option"
  visibility_class :: "bytes option"
  freshness_ref :: "bytes option"
  wake_token :: "bytes option"
  create_relay :: "bytes option"
  write_relay :: "bytes option"
  remove_relay :: "bytes option"
  wstat_relay :: "bytes option"
  node_body :: body

record pushed_entry_metadata =
  meta_qid_path :: u64
  meta_qid_version :: u32
  meta_generation :: u64
  meta_mtime :: u32
  meta_length :: u64
  meta_visibility_class :: bytes
  meta_freshness_ref :: bytes
  meta_wake_token :: bytes

definition plain_node :: "bytes \<Rightarrow> nat \<Rightarrow> u64 \<Rightarrow> u32 \<Rightarrow> u64 \<Rightarrow> body \<Rightarrow> node" where
  "plain_node name parent qid_path version gen body =
     \<lparr>node_name = name, node_parent = parent, node_qid_path = qid_path, node_version = version,
      node_generation = gen, pushed_mtime = None, pushed_length = None,
      visibility_class = None, freshness_ref = None, wake_token = None, create_relay = None,
      write_relay = None, remove_relay = None, wstat_relay = None, node_body = body\<rparr>"

definition with_metadata :: "pushed_entry_metadata \<Rightarrow> node \<Rightarrow> node" where
  "with_metadata m nd =
     nd\<lparr>node_version := meta_qid_version m, node_generation := meta_generation m,
        pushed_mtime := Some (meta_mtime m), pushed_length := Some (meta_length m),
        visibility_class := Some (meta_visibility_class m),
        freshness_ref := Some (meta_freshness_ref m), wake_token := Some (meta_wake_token m)\<rparr>"

fun is_Dir :: "body \<Rightarrow> bool" where
  "is_Dir (Dir _) = True"
| "is_Dir _ = False"

definition is_file_or_write_relay :: "body \<Rightarrow> bool" where
  "is_file_or_write_relay b = (case b of File _ \<Rightarrow> True | WriteRelay _ \<Rightarrow> True | _ \<Rightarrow> False)"

section \<open>Requests relayed to the owner\<close>

record request_context =
  ctx_principal_id :: bytes
  ctx_uname :: bytes
  ctx_aname :: bytes
  ctx_session_id :: u64
  ctx_fid :: fid
  ctx_front_path :: bytes
  ctx_target_path :: bytes
  ctx_offset :: u64
  ctx_count :: u32
  ctx_open_mode :: u8
  ctx_pushed_generation :: u64

record intake_request =
  in_request_id :: u64
  in_prefix :: bytes
  in_bytes :: bytes
  in_context :: request_context

record create_relay_request =
  cr_request_id :: u64
  cr_prefix :: bytes
  cr_name :: bytes
  cr_perm :: u32
  cr_mode :: u8
  cr_context :: request_context

record pending_create =
  pc_parent :: nat
  pc_name :: bytes
  pc_generation :: u64
  pc_prefix :: bytes

record rename_relay_request =
  rr_request_id :: u64
  rr_prefix :: bytes
  rr_old_parent :: request_context
  rr_old_name :: bytes
  rr_new_parent :: request_context
  rr_new_name :: bytes

datatype write_relay_reply = WriteAccepted u32 | WriteRejected bytes

datatype request_reply =
    RequestAccepted bytes
  | DirectoryAccepted "bytes list" bool
  | RequestRejected bytes

datatype child_directory_reply = ChildAccepted pushed_entry_metadata | ChildRejected bytes

record child_directory_resolution =
  res_request_id :: u64
  res_prefix :: bytes
  res_read_prefix :: bytes
  res_removal :: child_directory_removal
  res_reply :: "child_directory_reply option"
  res_waiters :: usize

datatype remove_relay_reply = RemoveAccepted | RemoveRejected bytes
datatype wstat_relay_reply = WstatAccepted | WstatRejected bytes
datatype rename_relay_reply = RenameAccepted | RenameRejected bytes
datatype create_relay_reply = CreateAccepted u8 u32 u64 | CreateRejected bytes

record principal_root =
  pr_root :: nat
  pr_root_path :: bytes
  pr_principal_id :: bytes
  pr_anames :: "bytes fset"

record protocol_config =
  front_max_msize :: u32
  front_iounit :: u32

section \<open>The state\<close>

record front_state =
  nodes :: "(nat, node) fmap"
  qid_index :: "(u64, nat) fmap"
  fid_references :: "(nat, usize) fmap"
  detached_roots :: "nat fset"
  next_id :: nat
  next_request_id :: u64
  intakes :: "(nat, bytes) fmap"
  pending_requests :: "intake_request list"
  create_pending :: "create_relay_request list"
  create_targets :: "(u64, pending_create) fmap"
  rename_pending :: "rename_relay_request list"
  rpc_responses :: "(u64, request_reply option) fmap"
  response_prefixes :: "(u64, bytes) fmap"
  directory_response_requests :: "u64 fset"
  child_directory_resolutions :: "(nat \<times> bytes, child_directory_resolution) fmap"
  child_directory_resolution_requests :: "(u64, nat \<times> bytes) fmap"
  create_relay_responses :: "(u64, create_relay_reply option) fmap"
  write_relay_responses :: "(u64, write_relay_reply option) fmap"
  remove_relay_responses :: "(u64, remove_relay_reply option) fmap"
  wstat_relay_responses :: "(u64, wstat_relay_reply option) fmap"
  rename_relay_responses :: "(u64, bytes \<times> rename_relay_reply option) fmap"
  write_relay_prefixes :: "bytes fset"
  remove_relay_prefixes :: "bytes fset"
  wstat_relay_prefixes :: "bytes fset"
  rename_relay_roots :: "(nat, bytes) fmap"
  principal_roots_required :: bool
  principal_roots :: "(bytes, principal_root) fmap"
  wait_timeout_secs :: nat
  log_capacity :: usize
  protocol :: protocol_config

definition ProtocolConfig_default :: protocol_config where
  "ProtocolConfig_default = \<lparr>front_max_msize = MAX_MSIZE, front_iounit = DEFAULT_IOUNIT\<rparr>"

definition State_new :: front_state where
  "State_new =
     \<lparr>nodes = fmupd ROOT_ID (plain_node [SLASH] ROOT_ID 0 0 0 (Dir DirectoryBody_default)) fmempty,
      qid_index = fmupd 0 ROOT_ID fmempty, fid_references = fmempty, detached_roots = {||},
      next_id = 1, next_request_id = 1, intakes = fmempty, pending_requests = [],
      create_pending = [], create_targets = fmempty, rename_pending = [], rpc_responses = fmempty,
      response_prefixes = fmempty, directory_response_requests = {||},
      child_directory_resolutions = fmempty, child_directory_resolution_requests = fmempty,
      create_relay_responses = fmempty, write_relay_responses = fmempty,
      remove_relay_responses = fmempty, wstat_relay_responses = fmempty,
      rename_relay_responses = fmempty, write_relay_prefixes = {||}, remove_relay_prefixes = {||},
      wstat_relay_prefixes = {||}, rename_relay_roots = fmempty, principal_roots_required = False,
      principal_roots = fmempty, wait_timeout_secs = 30, log_capacity = DEFAULT_LOG_CAPACITY,
      protocol = ProtocolConfig_default\<rparr>"

text \<open>The values of a map in the order of its keys, as \<^verbatim>\<open>BTreeMap::values\<close> gives them.\<close>

definition fm_items :: "('k::linorder, 'v) fmap \<Rightarrow> ('k \<times> 'v) list" where
  "fm_items m = map (\<lambda>k. (k, the (fmlookup m k))) (sorted_list_of_fset (fmdom m))"

definition fm_values :: "('k::linorder, 'v) fmap \<Rightarrow> 'v list" where
  "fm_values m = map snd (fm_items m)"

end
