(* ===== verification/R9P_Front_Model.thy ===== *)
theory R9P_Front_Model
  imports R9P_Front_Data
begin

text \<open>
  The operations on the state of a front (\<^verbatim>\<open>front/src/model.rs\<close>): paths, lookup, placing and
  removing nodes, and the counting of fids bound to nodes. Loops that climb from node to parent,
  and recursion from node to children, are bounded by the number of nodes; \<open>R9P_Front_Inv\<close> shows
  that the bound is never reached in a reachable state.
\<close>

section \<open>Paths\<close>

definition trim_slashes :: "bytes \<Rightarrow> bytes" where
  "trim_slashes path =
     rev (dropWhile (\<lambda>b. b = SLASH) (rev (dropWhile (\<lambda>b. b = SLASH) path)))"

definition trim_end_slashes :: "bytes \<Rightarrow> bytes" where
  "trim_end_slashes path = rev (dropWhile (\<lambda>b. b = SLASH) (rev path))"

fun join_slash :: "bytes list \<Rightarrow> bytes" where
  "join_slash [] = []"
| "join_slash [x] = x"
| "join_slash (x # y # xs) = x @ SLASH # join_slash (y # xs)"

definition split_path :: "bytes \<Rightarrow> bytes list result" where
  "split_path path =
     (let trimmed = trim_slashes path in
      if trimmed = [] then Inl (Error EPERM) else Inr (split_on SLASH trimmed))"

definition canonical_root_path :: "bytes \<Rightarrow> bytes result" where
  "canonical_root_path path =
     (let trimmed = trim_slashes path in
      if trimmed = [] then Inr [SLASH]
      else and_then (split_path trimmed) (\<lambda>_. Inr trimmed))"

definition canonical_path_segments :: "bytes \<Rightarrow> bytes list result" where
  "canonical_path_segments path = (if path = [SLASH] then Inr [] else split_path path)"

definition normalise_request_prefix :: "bytes \<Rightarrow> bytes result" where
  "normalise_request_prefix prefix =
     (let trimmed = trim_slashes prefix in
      if trimmed = [] then Inl (Error EPERM) else Inr trimmed)"

definition created_child_path :: "bytes \<Rightarrow> bytes \<Rightarrow> bytes" where
  "created_child_path parent_path name =
     (if parent_path = [SLASH] then SLASH # name
      else trim_end_slashes parent_path @ SLASH # name)"

text \<open>\<^verbatim>\<open>std::str::from_utf8\<close> succeeds exactly on well-formed text.\<close>

function is_utf8 :: "bytes \<Rightarrow> bool" where
  "is_utf8 s \<longleftrightarrow>
     (if s = [] then True else snd (utf8_step s) \<and> is_utf8 (drop (fst (utf8_step s)) s))"
  by pat_completeness auto
termination
proof (relation "measure length")
  fix s :: bytes
  assume "s \<noteq> []"
  then show "(drop (fst (utf8_step s)) s, s) \<in> measure length"
    using utf8_step_pos [of s "fst (utf8_step s)" "snd (utf8_step s)"] by simp
qed simp

declare is_utf8.simps [simp del]

definition open_allowed :: "node \<Rightarrow> u8 \<Rightarrow> bool" where
  "open_allowed nd mode \<longleftrightarrow>
     (if \<not> mode_is_valid mode \<or> mode AND ORCLOSE \<noteq> 0 then False
      else if write_relay nd \<noteq> None \<and> mode AND ACCESS_MASK = OWRITE then True
      else if mode AND OTRUNC \<noteq> 0 then False
      else case node_body nd of
        IntakeNew _ \<Rightarrow> mode AND ACCESS_MASK = OWRITE
      | WriteRelay _ \<Rightarrow> mode AND ACCESS_MASK = OWRITE
      | Rpc _ \<Rightarrow> mode AND ACCESS_MASK = ORDWR
      | _ \<Rightarrow> mode AND ACCESS_MASK = OREAD)"

section \<open>Lookup and metadata\<close>

definition get_node :: "nat \<Rightarrow> front_state \<Rightarrow> node result" where
  "get_node nid s = ok_or (fmlookup (nodes s) nid) (Error ENOENT)"

definition qid_for :: "nat \<Rightarrow> front_state \<Rightarrow> qid result" where
  "qid_for nid s =
     and_then (get_node nid s) (\<lambda>nd.
       Inr (Qid_new (if is_Dir (node_body nd) then QTDIR else QTFILE) (node_version nd)
              (node_qid_path nd)))"

function next_available_qid_path :: "u64 \<Rightarrow> front_state \<Rightarrow> u64 result" where
  "next_available_qid_path candidate s =
     (if fmlookup (qid_index s) candidate = None then Inr candidate
      else if candidate = - 1 then Inl (Error_from ''qid path space exhausted'')
      else next_available_qid_path (candidate + 1) s)"
  by pat_completeness auto
termination
proof (relation "measure (\<lambda>(c, _). 2 ^ 64 - unat c)")
  fix c :: u64 and s :: front_state
  assume "c \<noteq> - 1"
  then have "unat (c + 1) = unat c + 1"
    using unatSuc [of c] by (auto simp: add.commute eq_neg_iff_add_eq_0)
  then show "((c + 1, s), c, s) \<in> measure (\<lambda>(c, _). 2 ^ 64 - unat c)"
    using unat_less_exp [of c] by simp
qed simp

declare next_available_qid_path.simps [simp del]

definition node_id_for_qid_path :: "u64 \<Rightarrow> front_state \<Rightarrow> nat result" where
  "node_id_for_qid_path qid_path s = ok_or (fmlookup (qid_index s) qid_path) (Error ENOENT)"

text \<open>\<^verbatim>\<open>if let Some(node) = self.nodes.get_mut(&id) \<dots>\<close>\<close>

definition update_node :: "nat \<Rightarrow> (node \<Rightarrow> node) \<Rightarrow> front_state \<Rightarrow> front_state" where
  "update_node nid f s =
     (case fmlookup (nodes s) nid of
        Some nd \<Rightarrow> s\<lparr>nodes := fmupd nid (f nd) (nodes s)\<rparr>
      | None \<Rightarrow> s)"

definition replace_qid_path :: "nat \<Rightarrow> u64 \<Rightarrow> (front_state, unit) fallible" where
  "replace_qid_path nid qid_path s =
     (if (case fmlookup (qid_index s) qid_path of Some owner \<Rightarrow> owner \<noteq> nid | None \<Rightarrow> False)
      then (Inl (Error_from ''qid path already in use''), s)
      else case get_node nid s of
        Inl e \<Rightarrow> (Inl e, s)
      | Inr nd \<Rightarrow>
          (Inr (),
           if node_qid_path nd \<noteq> qid_path
           then update_node nid (\<lambda>nd. nd\<lparr>node_qid_path := qid_path\<rparr>)
                  (s\<lparr>qid_index := fmupd qid_path nid (fmdrop (node_qid_path nd) (qid_index s))\<rparr>)
           else s))"

definition apply_pushed_metadata ::
    "nat \<Rightarrow> pushed_entry_metadata \<Rightarrow> (front_state, unit) fallible" where
  "apply_pushed_metadata nid m =
     bind_s (replace_qid_path nid (meta_qid_path m)) (\<lambda>_.
       modify_s (update_node nid (with_metadata m)))"

fun body_stat :: "node \<Rightarrow> u32 \<times> u64" where
  "body_stat nd =
     (case node_body nd of
        Dir _ \<Rightarrow> (DMDIR OR 0x16D, 0)
      | File bs \<Rightarrow> (if write_relay nd \<noteq> None then 0x1B6 else 0x124, word_of_nat (length bs))
      | Log l \<Rightarrow> (0x124, log_end l)
      | IntakeNew _ \<Rightarrow> (0x92, 0)
      | Rpc _ \<Rightarrow> (0x180, 0)
      | ReadRelay _ \<Rightarrow> (0x124, 0)
      | SnapshotReadRelay _ \<Rightarrow> (0x124, 0)
      | WriteRelay _ \<Rightarrow> (0x92, 0))"

definition stat_for :: "nat \<Rightarrow> front_state \<Rightarrow> stat result" where
  "stat_for nid s =
     and_then (get_node nid s) (\<lambda>nd.
     and_then (qid_for nid s) (\<lambda>q.
       Inr \<lparr>stat_type = 0, stat_dev = 0, stat_qid = q, stat_mode = fst (body_stat nd),
            stat_atime = 0,
            stat_mtime = (case pushed_mtime nd of Some t \<Rightarrow> t | None \<Rightarrow> node_version nd),
            stat_length = (case pushed_length nd of Some n \<Rightarrow> n | None \<Rightarrow> snd (body_stat nd)),
            stat_name = (if nid = ROOT_ID then [DOT] else node_name nd),
            stat_uid = str ''front'', stat_gid = str ''front'', stat_muid = str ''front''\<rparr>))"

text \<open>The child of a directory node: \<^verbatim>\<open>match &self.node(parent)?.body\<close> with an error off a
  directory.\<close>

definition child_of :: "nat \<Rightarrow> bytes \<Rightarrow> front_state \<Rightarrow> nat option result" where
  "child_of parent name s =
     and_then (get_node parent s) (\<lambda>nd.
       case node_body nd of
         Dir d \<Rightarrow> Inr (fmlookup (children d) name)
       | _ \<Rightarrow> Inl (Error ENOTDIR))"

fun lookup_segments :: "nat \<Rightarrow> bytes list \<Rightarrow> front_state \<Rightarrow> nat option result" where
  "lookup_segments current [] s = Inr (Some current)"
| "lookup_segments current (segment # segments) s =
     and_then (child_of current segment s) (\<lambda>c.
       case c of None \<Rightarrow> Inr None | Some child \<Rightarrow> lookup_segments child segments s)"

definition lookup_optional_path :: "bytes \<Rightarrow> front_state \<Rightarrow> nat option result" where
  "lookup_optional_path path s =
     (let trimmed = trim_slashes path in
      if trimmed = [] then Inr (Some ROOT_ID)
      else and_then (split_path trimmed) (\<lambda>segments. lookup_segments ROOT_ID segments s))"

text \<open>\<^verbatim>\<open>lookup_path\<close> is the same loop with a missing child reported as \<^verbatim>\<open>ENOENT\<close>.\<close>

definition lookup_path :: "bytes \<Rightarrow> front_state \<Rightarrow> nat result" where
  "lookup_path path s =
     and_then (lookup_optional_path path s) (\<lambda>r. ok_or r (Error ENOENT))"

section \<open>Climbing the tree\<close>

text \<open>The loops of \<^verbatim>\<open>node_is_detached\<close>, \<^verbatim>\<open>path_relative_to\<close> and \<^verbatim>\<open>rename_relay_for\<close> go from
  a node to its parent. They get one turn per node of the state and one more.\<close>

definition fuel :: "front_state \<Rightarrow> nat" where
  "fuel s = Suc (fcard (fmdom (nodes s)))"

fun node_is_detached_loop :: "nat \<Rightarrow> nat \<Rightarrow> front_state \<Rightarrow> bool" where
  "node_is_detached_loop 0 current s = False"
| "node_is_detached_loop (Suc n) current s =
     (if current |\<in>| detached_roots s then True
      else case fmlookup (nodes s) current of
        None \<Rightarrow> False
      | Some nd \<Rightarrow>
          if node_parent nd = current then False
          else node_is_detached_loop n (node_parent nd) s)"

definition node_is_detached :: "nat \<Rightarrow> front_state \<Rightarrow> bool" where
  "node_is_detached nid s = node_is_detached_loop (fuel s) nid s"

definition out_of_fuel :: error where
  "out_of_fuel = Error_from ''no progress''"

fun path_segments_loop :: "nat \<Rightarrow> nat \<Rightarrow> nat \<Rightarrow> bytes list \<Rightarrow> front_state \<Rightarrow> bytes list result" where
  "path_segments_loop 0 current root segments s = Inl out_of_fuel"
| "path_segments_loop (Suc n) current root segments s =
     (if current = root then Inr segments
      else if current = ROOT_ID then Inl (Error EPERM)
      else and_then (get_node current s) (\<lambda>nd.
        path_segments_loop n (node_parent nd) root (from_utf8_lossy (node_name nd) # segments) s))"

definition path_relative_to :: "nat \<Rightarrow> nat \<Rightarrow> front_state \<Rightarrow> bytes result" where
  "path_relative_to nid root s =
     map_ok (\<lambda>segments. if segments = [] then [SLASH] else SLASH # join_slash segments)
       (path_segments_loop (fuel s) nid root [] s)"

fun rename_relay_loop :: "nat \<Rightarrow> nat \<Rightarrow> nat \<Rightarrow> front_state \<Rightarrow> bytes option" where
  "rename_relay_loop 0 current new_parent s = None"
| "rename_relay_loop (Suc n) current new_parent s =
     (let further =
        (if current = ROOT_ID then None
         else case fmlookup (nodes s) current of
           None \<Rightarrow> None
         | Some nd \<Rightarrow> rename_relay_loop n (node_parent nd) new_parent s)
      in case fmlookup (rename_relay_roots s) current of
           Some prefix \<Rightarrow>
             (case path_relative_to new_parent current s of Inr _ \<Rightarrow> Some prefix | Inl _ \<Rightarrow> further)
         | None \<Rightarrow> further)"

definition rename_relay_for :: "nat \<Rightarrow> nat \<Rightarrow> front_state \<Rightarrow> bytes option" where
  "rename_relay_for old_parent new_parent s = rename_relay_loop (fuel s) old_parent new_parent s"

section \<open>Placing nodes\<close>

text \<open>\<^verbatim>\<open>if let Some(Node { body: Body::Dir(children), .. }) = self.nodes.get_mut(&parent)\<close>\<close>

definition update_children ::
    "nat \<Rightarrow> ((bytes, nat) fmap \<Rightarrow> (bytes, nat) fmap) \<Rightarrow> front_state \<Rightarrow> front_state" where
  "update_children parent f =
     update_node parent (\<lambda>nd.
       case node_body nd of
         Dir d \<Rightarrow> nd\<lparr>node_body := Dir (d\<lparr>children := f (children d)\<rparr>)\<rparr>
       | _ \<Rightarrow> nd)"

text \<open>The common end of the operations that create a node: take the next id, insert the node,
  index its qid path and enter it among its parent's children.\<close>

definition insert_node :: "node \<Rightarrow> (front_state, nat) fallible" where
  "insert_node nd s =
     (Inr (next_id s),
      update_children (node_parent nd) (fmupd (node_name nd) (next_id s))
        (s\<lparr>next_id := next_id s + 1, nodes := fmupd (next_id s) nd (nodes s),
           qid_index := fmupd (node_qid_path nd) (next_id s) (qid_index s)\<rparr>))"

definition ensure_dir :: "nat \<Rightarrow> bytes \<Rightarrow> (front_state, nat) fallible" where
  "ensure_dir parent name =
     bind_s (read_s (child_of parent name)) (\<lambda>c.
       case c of
         Some existing \<Rightarrow>
           bind_s (read_s (get_node existing)) (\<lambda>nd.
             if is_Dir (node_body nd) then return_s existing else throw_s (Error ENOTDIR))
       | None \<Rightarrow>
           bind_s (read_s (\<lambda>s. next_available_qid_path (word_of_nat (next_id s)) s)) (\<lambda>q.
             insert_node (plain_node name parent q 0 0 (Dir DirectoryBody_default))))"

fun ensure_dirs :: "nat \<Rightarrow> bytes list \<Rightarrow> (front_state, nat) fallible" where
  "ensure_dirs current [] = return_s current"
| "ensure_dirs current (segment # segments) =
     bind_s (ensure_dir current segment) (\<lambda>child. ensure_dirs child segments)"

definition ensure_path_dir :: "bytes \<Rightarrow> (front_state, nat) fallible" where
  "ensure_path_dir path =
     bind_s (lift_s (split_path path)) (\<lambda>segments. ensure_dirs ROOT_ID segments)"

text \<open>The common beginning of \<^verbatim>\<open>place\<close> and its variants: create the directories above the last
  segment and look the last segment up.\<close>

definition open_parent :: "nat \<Rightarrow> bytes \<Rightarrow> (front_state, nat \<times> bytes \<times> nat option) fallible" where
  "open_parent base path =
     bind_s (lift_s (split_path path)) (\<lambda>segments.
     bind_s (ensure_dirs base (butlast segments)) (\<lambda>parent.
     bind_s (read_s (child_of parent (last segments))) (\<lambda>existing.
       return_s (parent, last segments, existing))))"

fun merge_body :: "usize \<Rightarrow> body \<Rightarrow> body \<Rightarrow> body option" where
  "merge_body capacity (File _) (File bs) = Some (File bs)"
| "merge_body capacity (Log existing) (Log incoming) =
     Some (Log (fold (\<lambda>entry. log_append entry capacity) (log_entries incoming) existing))"
| "merge_body capacity _ _ = None"

definition replace_body :: "nat \<Rightarrow> body \<Rightarrow> (front_state, nat) fallible" where
  "replace_body nid body s =
     (case fmlookup (nodes s) nid of
        None \<Rightarrow> (Inl (Error ENOENT), s)
      | Some nd \<Rightarrow>
          (case merge_body (log_capacity s) (node_body nd) body of
             None \<Rightarrow> (Inl (Error EPERM), s)
           | Some merged \<Rightarrow>
               (Inr nid, update_node nid
                  (\<lambda>nd. nd\<lparr>node_version := node_version nd + 1, node_body := merged\<rparr>) s)))"

definition place :: "bytes \<Rightarrow> body \<Rightarrow> (front_state, nat) fallible" where
  "place path body =
     bind_s (open_parent ROOT_ID path) (\<lambda>(parent, name, existing).
       case existing of
         Some nid \<Rightarrow> replace_body nid body
       | None \<Rightarrow>
           bind_s (read_s (\<lambda>s. next_available_qid_path (word_of_nat (next_id s)) s)) (\<lambda>q.
             insert_node (plain_node name parent q 0 0 body)))"

section \<open>Removing nodes\<close>

definition forget_node :: "nat \<Rightarrow> node \<Rightarrow> front_state \<Rightarrow> front_state" where
  "forget_node nid nd s =
     s\<lparr>nodes := fmdrop nid (nodes s), detached_roots := detached_roots s |-| {|nid|},
       fid_references := fmdrop nid (fid_references s),
       qid_index := fmdrop (node_qid_path nd) (qid_index s), intakes := fmdrop nid (intakes s),
       rename_relay_roots := fmdrop nid (rename_relay_roots s)\<rparr>"

fun node_children :: "node \<Rightarrow> nat list" where
  "node_children nd = (case node_body nd of Dir d \<Rightarrow> fm_values (children d) | _ \<Rightarrow> [])"

text \<open>\<^verbatim>\<open>remove_node_recursive\<close> with the calls still to be made as a list.\<close>

function remove_nodes :: "nat list \<Rightarrow> front_state \<Rightarrow> front_state" where
  "remove_nodes [] s = s"
| "remove_nodes (nid # ids) s =
     (case fmlookup (nodes s) nid of
        None \<Rightarrow> remove_nodes ids s
      | Some nd \<Rightarrow> remove_nodes (node_children nd @ ids) (forget_node nid nd s))"
  by pat_completeness auto
termination
proof (relation "inv_image (less_than <*lex*> less_than) (\<lambda>(ids, s). (fcard (fmdom (nodes s)), length ids))")
  fix nid :: nat and ids and s :: front_state and nd
  assume "fmlookup (nodes s) nid = Some nd"
  then have "Suc (fcard (fmdom (nodes s) |-| {|nid|})) = fcard (fmdom (nodes s))"
    by (intro fcard_fminus_one fmdomI)
  then show "((node_children nd @ ids, forget_node nid nd s), nid # ids, s)
      \<in> inv_image (less_than <*lex*> less_than) (\<lambda>(ids, s). (fcard (fmdom (nodes s)), length ids))"
    by (simp add: forget_node_def)
next
  show "wf (inv_image (less_than <*lex*> less_than)
      (\<lambda>(ids :: nat list, s :: front_state). (fcard (fmdom (nodes s)), length ids)))"
    by (intro wf_inv_image wf_lex_prod wf_less_than)
qed simp

definition remove_node_recursive :: "nat \<Rightarrow> front_state \<Rightarrow> front_state" where
  "remove_node_recursive nid = remove_nodes [nid]"

fun subtree_reference_loop :: "nat \<Rightarrow> front_state \<Rightarrow> nat \<Rightarrow> bool" where
  "subtree_reference_loop 0 s nid = False"
| "subtree_reference_loop (Suc n) s nid =
     (if fmlookup (fid_references s) nid \<noteq> None then True
      else case fmlookup (nodes s) nid of
        Some nd \<Rightarrow> list_ex (subtree_reference_loop n s) (node_children nd)
      | None \<Rightarrow> False)"

definition subtree_has_fid_reference :: "nat \<Rightarrow> front_state \<Rightarrow> bool" where
  "subtree_has_fid_reference nid s = subtree_reference_loop (fuel s) s nid"

definition retire_detached_subtree :: "nat \<Rightarrow> front_state \<Rightarrow> front_state" where
  "retire_detached_subtree nid s =
     (if subtree_has_fid_reference nid s then s\<lparr>detached_roots := finsert nid (detached_roots s)\<rparr>
      else remove_node_recursive nid s)"

definition collect_unreferenced_detached_subtrees :: "front_state \<Rightarrow> front_state" where
  "collect_unreferenced_detached_subtrees s =
     fold (\<lambda>nid s. remove_node_recursive nid (s\<lparr>detached_roots := detached_roots s |-| {|nid|}\<rparr>))
       (filter (\<lambda>nid. \<not> subtree_has_fid_reference nid s) (sorted_list_of_fset (detached_roots s))) s"

definition remove_subtree_if_exists :: "bytes \<Rightarrow> (front_state, unit) fallible" where
  "remove_subtree_if_exists path =
     bind_s (read_s (lookup_optional_path path)) (\<lambda>found.
       case found of
         None \<Rightarrow> return_s ()
       | Some nid \<Rightarrow>
           if nid = ROOT_ID then throw_s (Error EPERM)
           else bind_s (read_s (get_node nid)) (\<lambda>nd.
             modify_s (\<lambda>s. retire_detached_subtree nid
               (update_children (node_parent nd) (fmdrop (node_name nd)) s))))"

definition retain_fid_node :: "nat \<Rightarrow> (front_state, unit) fallible" where
  "retain_fid_node nid =
     bind_s (read_s (get_node nid)) (\<lambda>_.
       modify_s (\<lambda>s. s\<lparr>fid_references := fmupd nid
         ((case fmlookup (fid_references s) nid of Some n \<Rightarrow> n | None \<Rightarrow> 0) + 1)
         (fid_references s)\<rparr>))"

definition release_fid_node :: "nat \<Rightarrow> (front_state, unit) fallible" where
  "release_fid_node nid s =
     (case fmlookup (fid_references s) nid of
        None \<Rightarrow> (Inl (Error_from ''front fid node reference missing''), s)
      | Some n \<Rightarrow>
          (Inr (), collect_unreferenced_detached_subtrees
             (if n > 1 then s\<lparr>fid_references := fmupd nid (n - 1) (fid_references s)\<rparr>
              else s\<lparr>fid_references := fmdrop nid (fid_references s)\<rparr>)))"

section \<open>Pushed entries\<close>

text \<open>\<^verbatim>\<open>reattach_detached_pushed_node\<close>: a node that was detached while fids held it comes back
  under its old path when the owner pushes the same qid path there.\<close>

definition reattach_detached_pushed_node ::
    "bytes \<Rightarrow> nat \<Rightarrow> bytes \<Rightarrow> u64 \<Rightarrow> (body \<Rightarrow> bool) \<Rightarrow> (front_state, nat option) fallible" where
  "reattach_detached_pushed_node path parent name qid_path body_matches s =
     (case fmlookup (qid_index s) qid_path of
        None \<Rightarrow> (Inr None, s)
      | Some nid \<Rightarrow>
          (if \<not> node_is_detached nid s then (Inl (Error_from ''qid path already in use''), s)
           else case path_relative_to nid ROOT_ID s of
             Inl e \<Rightarrow> (Inl e, s)
           | Inr old_path \<Rightarrow>
               (if old_path \<noteq> SLASH # trim_slashes path
                then (Inl (Error_from ''qid path already in use''), s)
                else case get_node nid s of
                  Inl e \<Rightarrow> (Inl e, s)
                | Inr nd \<Rightarrow>
                    (if \<not> body_matches (node_body nd)
                     then (Inl (Error_from ''qid path already in use''), s)
                     else
                       let s = update_children (node_parent nd)
                                 (\<lambda>cs. if fmlookup cs (node_name nd) = Some nid
                                       then fmdrop (node_name nd) cs else cs) s;
                           s = update_node nid (\<lambda>nd. nd\<lparr>node_parent := parent, node_name := name\<rparr>) s;
                           s = update_children parent (fmupd name nid) s;
                           s = s\<lparr>detached_roots := detached_roots s |-| {|nid|}\<rparr>
                       in (Inr (Some nid), collect_unreferenced_detached_subtrees s)))))"

definition pushed_node :: "bytes \<Rightarrow> nat \<Rightarrow> body \<Rightarrow> pushed_entry_metadata \<Rightarrow> node" where
  "pushed_node name parent body m =
     with_metadata m (plain_node name parent (meta_qid_path m) 0 0 body)"

text \<open>The common course of \<^verbatim>\<open>place_pushed_file\<close> and \<^verbatim>\<open>place_pushed_directory\<close>: refresh the
  node at the path if it is of the right kind, else bring a detached one back, else insert a new
  one.\<close>

definition place_pushed ::
    "bytes \<Rightarrow> u64 \<Rightarrow> (body \<Rightarrow> bool) \<Rightarrow> (nat \<Rightarrow> (front_state, unit) fallible) \<Rightarrow> (bytes \<Rightarrow> nat \<Rightarrow> node)
     \<Rightarrow> (front_state, nat) fallible" where
  "place_pushed path qid_path body_matches refresh fresh =
     bind_s (open_parent ROOT_ID path) (\<lambda>(parent, name, existing).
       case existing of
         Some nid \<Rightarrow>
           bind_s (read_s (get_node nid)) (\<lambda>nd.
             if body_matches (node_body nd) then bind_s (refresh nid) (\<lambda>_. return_s nid)
             else throw_s (Error EPERM))
       | None \<Rightarrow>
           bind_s (reattach_detached_pushed_node path parent name qid_path body_matches) (\<lambda>again.
             case again of
               Some nid \<Rightarrow> bind_s (refresh nid) (\<lambda>_. return_s nid)
             | None \<Rightarrow> insert_node (fresh name parent)))"

definition refresh_file :: "bytes \<Rightarrow> pushed_entry_metadata \<Rightarrow> nat \<Rightarrow> (front_state, unit) fallible" where
  "refresh_file bs m nid =
     bind_s (apply_pushed_metadata nid m) (\<lambda>_.
       modify_s (update_node nid (\<lambda>nd. nd\<lparr>node_body := File bs\<rparr>)))"

definition place_pushed_file ::
    "bytes \<Rightarrow> bytes \<Rightarrow> pushed_entry_metadata \<Rightarrow> (front_state, nat) fallible" where
  "place_pushed_file path bs m =
     place_pushed path (meta_qid_path m) is_file_or_write_relay (refresh_file bs m)
       (\<lambda>name parent. pushed_node name parent (File bs) m)"

definition place_pushed_directory ::
    "bytes \<Rightarrow> pushed_entry_metadata \<Rightarrow> (front_state, nat) fallible" where
  "place_pushed_directory path m =
     (if meta_length m \<noteq> 0 then throw_s (Error_from ''pushed directory length must be zero'')
      else place_pushed path (meta_qid_path m) is_Dir (\<lambda>nid. apply_pushed_metadata nid m)
        (\<lambda>name parent. pushed_node name parent (Dir DirectoryBody_default) m))"

definition note_remove_relay :: "bytes option \<Rightarrow> front_state \<Rightarrow> front_state" where
  "note_remove_relay relay s =
     (case relay of
        None \<Rightarrow> s
      | Some r \<Rightarrow> s\<lparr>remove_relay_prefixes := finsert r (remove_relay_prefixes s)\<rparr>)"

definition child_directory_relay ::
    "nat \<Rightarrow> bytes \<Rightarrow> child_directory_removal \<Rightarrow> front_state \<Rightarrow> bytes option result" where
  "child_directory_relay parent name removal s =
     (case removal of
        Forbidden \<Rightarrow> Inr None
      | RelayToOwner \<Rightarrow>
          and_then (ensure (is_utf8 name) (Error_from ''child directory name must be UTF-8'')) (\<lambda>_.
          and_then (path_relative_to parent ROOT_ID s) (\<lambda>parent_path.
            Inr (Some (trim_slashes (created_child_path parent_path name))))))"

definition place_child_directory ::
    "nat \<Rightarrow> bytes \<Rightarrow> pushed_entry_metadata \<Rightarrow> bytes \<Rightarrow> bytes option \<Rightarrow> nat option \<Rightarrow> (front_state, nat) fallible" where
  "place_child_directory parent name m read_prefix relay existing =
     (case existing of
        Some nid \<Rightarrow>
          bind_s (read_s (get_node nid)) (\<lambda>nd.
            if is_Dir (node_body nd) then
              bind_s (modify_s (\<lambda>s. note_remove_relay relay (update_node nid
                (\<lambda>nd. if relay = None then nd else nd\<lparr>remove_relay := relay\<rparr>) s))) (\<lambda>_.
                return_s nid)
            else throw_s (Error ENOTDIR))
      | None \<Rightarrow>
          bind_s (read_s (\<lambda>s. ensure (fmlookup (qid_index s) (meta_qid_path m) = None)
            (Error_from ''qid path already in use''))) (\<lambda>_.
          bind_s (insert_node ((pushed_node name parent
              (Dir (DirectoryBody_default\<lparr>read_relay := Some read_prefix\<rparr>)) m)\<lparr>remove_relay := relay\<rparr>)) (\<lambda>nid.
          bind_s (modify_s (note_remove_relay relay)) (\<lambda>_.
            return_s nid))))"

definition insert_pushed_child_directory ::
    "nat \<Rightarrow> bytes \<Rightarrow> pushed_entry_metadata \<Rightarrow> bytes \<Rightarrow> child_directory_removal
     \<Rightarrow> (front_state, nat) fallible" where
  "insert_pushed_child_directory parent name m read_prefix removal =
     (if meta_length m \<noteq> 0 then throw_s (Error_from ''pushed directory length must be zero'')
      else
        bind_s (read_s (child_directory_relay parent name removal)) (\<lambda>relay.
        bind_s (read_s (child_of parent name)) (\<lambda>existing.
          place_child_directory parent name m read_prefix relay existing)))"

definition insert_created_relay_node ::
    "nat \<Rightarrow> bytes \<Rightarrow> qid \<Rightarrow> u64 \<Rightarrow> bytes \<Rightarrow> (front_state, nat) fallible" where
  "insert_created_relay_node parent_id name q gen create_prefix =
     bind_s (open_parent parent_id name) (\<lambda>(parent, leaf, existing).
       let directory = (qtype q AND QTDIR \<noteq> 0) in
       case existing of
         Some nid \<Rightarrow>
           bind_s (read_s (get_node nid)) (\<lambda>nd.
           bind_s (read_s (\<lambda>s. ensure (node_qid_path nd = qpath q \<and> fmlookup (qid_index s) (qpath q) = Some nid)
             (Error_from ''create relay existing node identity mismatch''))) (\<lambda>_.
           bind_s (lift_s (ensure (directory = is_Dir (node_body nd))
             (Error_from ''create relay existing node kind mismatch''))) (\<lambda>_.
           bind_s (modify_s (update_node nid (\<lambda>nd.
               let nd = nd\<lparr>node_version := qversion q, node_generation := gen\<rparr> in
               if directory then nd
               else nd\<lparr>write_relay := Some create_prefix, node_body := WriteRelay create_prefix\<rparr>))) (\<lambda>_.
             return_s nid))))
       | None \<Rightarrow>
           bind_s (read_s (\<lambda>s. ensure (fmlookup (qid_index s) (qpath q) = None)
             (Error_from ''qid path already in use''))) (\<lambda>_.
             insert_node ((plain_node leaf parent (qpath q) (qversion q) gen
                 (if directory then Dir DirectoryBody_default else WriteRelay create_prefix))
               \<lparr>write_relay := if directory then None else Some create_prefix\<rparr>)))"

section \<open>Retaining part of a subtree\<close>

fun traverse :: "('a \<Rightarrow> 'b list result) \<Rightarrow> 'a list \<Rightarrow> 'b list result" where
  "traverse f [] = Inr []"
| "traverse f (x # xs) =
     and_then (f x) (\<lambda>ys. and_then (traverse f xs) (\<lambda>zs. Inr (ys @ zs)))"

fun collect_stale_loop ::
    "nat \<Rightarrow> nat \<Rightarrow> nat fset \<Rightarrow> front_state \<Rightarrow> (nat \<times> bytes \<times> nat) list result" where
  "collect_stale_loop 0 parent kept s = Inl out_of_fuel"
| "collect_stale_loop (Suc n) parent kept s =
     and_then (get_node parent s) (\<lambda>nd.
       case node_body nd of
         Dir d \<Rightarrow>
           traverse (\<lambda>(name, child).
             if child |\<in>| kept then
               and_then (get_node child s) (\<lambda>nd.
                 if is_Dir (node_body nd) then collect_stale_loop n child kept s else Inr [])
             else Inr [(parent, name, child)])
             (fm_items (children d))
       | _ \<Rightarrow> Inl (Error ENOTDIR))"

definition collect_stale_subtrees ::
    "nat \<Rightarrow> nat fset \<Rightarrow> front_state \<Rightarrow> (nat \<times> bytes \<times> nat) list result" where
  "collect_stale_subtrees parent kept s = collect_stale_loop (fuel s) parent kept s"

text \<open>The inner loop of \<^verbatim>\<open>retain_subtree_paths\<close>: a kept path keeps its ancestors up to the root of
  the subtree.\<close>

fun keep_ancestors :: "nat \<Rightarrow> nat \<Rightarrow> nat \<Rightarrow> nat fset \<Rightarrow> front_state \<Rightarrow> nat fset result" where
  "keep_ancestors 0 current root kept s = Inl out_of_fuel"
| "keep_ancestors (Suc n) current root kept s =
     (let kept = finsert current kept in
      if current = root then Inr kept
      else and_then (get_node current s) (\<lambda>nd.
        if node_parent nd = current then Inl (Error EPERM)
        else keep_ancestors n (node_parent nd) root kept s))"

definition keep_path :: "bytes list \<Rightarrow> nat \<Rightarrow> bytes \<Rightarrow> nat fset \<Rightarrow> front_state \<Rightarrow> nat fset result" where
  "keep_path root_segments root path kept s =
     and_then (canonical_root_path path) (\<lambda>canonical.
     and_then (canonical_path_segments canonical) (\<lambda>segments.
     and_then (ensure (take (length root_segments) segments = root_segments) (Error EPERM)) (\<lambda>_.
     and_then (lookup_path canonical s) (\<lambda>current.
       keep_ancestors (fuel s) current root kept s))))"

fun keep_paths :: "bytes list \<Rightarrow> nat \<Rightarrow> bytes list \<Rightarrow> nat fset \<Rightarrow> front_state \<Rightarrow> nat fset result" where
  "keep_paths root_segments root [] kept s = Inr kept"
| "keep_paths root_segments root (path # paths) kept s =
     and_then (keep_path root_segments root path kept s) (\<lambda>kept.
       keep_paths root_segments root paths kept s)"

definition stale_below :: "bytes \<Rightarrow> bytes list \<Rightarrow> front_state \<Rightarrow> (nat \<times> bytes \<times> nat) list result" where
  "stale_below root_path paths s =
     and_then (canonical_root_path root_path) (\<lambda>canonical.
     and_then (canonical_path_segments canonical) (\<lambda>root_segments.
     and_then (lookup_path canonical s) (\<lambda>root.
     and_then (get_node root s) (\<lambda>nd.
     and_then (ensure (is_Dir (node_body nd)) (Error ENOTDIR)) (\<lambda>_.
     and_then (keep_paths root_segments root paths {|root|} s) (\<lambda>kept.
       collect_stale_subtrees root kept s))))))"

definition retire_stale :: "nat \<times> bytes \<times> nat \<Rightarrow> front_state \<Rightarrow> front_state" where
  "retire_stale = (\<lambda>(parent, name, nid) s.
     retire_detached_subtree nid (update_children parent (fmdrop name) s))"

definition retain_subtree_paths :: "bytes \<Rightarrow> bytes list \<Rightarrow> (front_state, bool) fallible" where
  "retain_subtree_paths root_path paths =
     bind_s (read_s (stale_below root_path paths)) (\<lambda>stale.
     bind_s (modify_s (fold retire_stale stale)) (\<lambda>_.
     bind_s (modify_s (\<lambda>s. if stale = [] then s
       else s\<lparr>principal_roots :=
         fmfilter (\<lambda>uname. case fmlookup (principal_roots s) uname of
           Some binding \<Rightarrow> fmlookup (nodes s) (pr_root binding) \<noteq> None | None \<Rightarrow> False)
         (principal_roots s)\<rparr>)) (\<lambda>_.
       return_s (stale \<noteq> []))))"

definition attach_root_for :: "bytes \<Rightarrow> bytes \<Rightarrow> front_state \<Rightarrow> nat result" where
  "attach_root_for uname aname s =
     (if \<not> principal_roots_required s then Inr ROOT_ID
      else and_then (ok_or (fmlookup (principal_roots s) uname)
        (Error_from ''principal root unavailable'')) (\<lambda>root.
          if str ''*'' |\<in>| pr_anames root \<or> aname |\<in>| pr_anames root then Inr (pr_root root)
          else Inl (Error_from ''principal aname unavailable'')))"

section \<open>Queues and responses\<close>

definition is_intake_prefix :: "bytes \<Rightarrow> front_state \<Rightarrow> bool" where
  "is_intake_prefix prefix s \<longleftrightarrow> prefix |\<in>| fmran (intakes s)"

definition remove_pending_request :: "u64 \<Rightarrow> front_state \<Rightarrow> front_state" where
  "remove_pending_request request_id s =
     s\<lparr>pending_requests := filter (\<lambda>r. in_request_id r \<noteq> request_id) (pending_requests s)\<rparr>"

definition remove_response_request :: "u64 \<Rightarrow> front_state \<Rightarrow> front_state" where
  "remove_response_request request_id s =
     remove_pending_request request_id
       (s\<lparr>rpc_responses := fmdrop request_id (rpc_responses s),
          response_prefixes := fmdrop request_id (response_prefixes s),
          directory_response_requests := directory_response_requests s |-| {|request_id|}\<rparr>)"

definition finish_child_directory_waiter :: "nat \<times> bytes \<Rightarrow> front_state \<Rightarrow> front_state" where
  "finish_child_directory_waiter key s =
     (case fmlookup (child_directory_resolutions s) key of
        None \<Rightarrow> s
      | Some r \<Rightarrow>
          if res_waiters r > 1 then
            s\<lparr>child_directory_resolutions :=
                fmupd key (r\<lparr>res_waiters := res_waiters r - 1\<rparr>) (child_directory_resolutions s)\<rparr>
          else remove_pending_request (res_request_id r)
            (s\<lparr>child_directory_resolutions := fmdrop key (child_directory_resolutions s),
               child_directory_resolution_requests :=
                 fmdrop (res_request_id r) (child_directory_resolution_requests s)\<rparr>))"

text \<open>The first queued request with a given prefix, and the queue without it.\<close>

fun pop_first :: "('a \<Rightarrow> bool) \<Rightarrow> 'a list \<Rightarrow> 'a option \<times> 'a list" where
  "pop_first P [] = (None, [])"
| "pop_first P (x # xs) =
     (if P x then (Some x, xs) else (case pop_first P xs of (r, ys) \<Rightarrow> (r, x # ys)))"

definition pop_pending_for_prefix :: "bytes \<Rightarrow> front_state \<Rightarrow> intake_request option \<times> front_state" where
  "pop_pending_for_prefix prefix s =
     (case pop_first (\<lambda>r. in_prefix r = prefix) (pending_requests s) of
        (r, queue) \<Rightarrow> (r, s\<lparr>pending_requests := queue\<rparr>))"

definition pop_create_pending_for_prefix ::
    "bytes \<Rightarrow> front_state \<Rightarrow> create_relay_request option \<times> front_state" where
  "pop_create_pending_for_prefix prefix s =
     (case pop_first (\<lambda>r. cr_prefix r = prefix) (create_pending s) of
        (r, queue) \<Rightarrow> (r, s\<lparr>create_pending := queue\<rparr>))"

definition pop_rename_pending_for_prefix ::
    "bytes \<Rightarrow> front_state \<Rightarrow> rename_relay_request option \<times> front_state" where
  "pop_rename_pending_for_prefix prefix s =
     (case pop_first (\<lambda>r. rr_prefix r = prefix) (rename_pending s) of
        (r, queue) \<Rightarrow> (r, s\<lparr>rename_pending := queue\<rparr>))"

end
