(* ===== verification/R9P_Front_Inv.thy ===== *)
theory R9P_Front_Inv
  imports R9P_Front_Model
begin

text \<open>
  The well-formedness of a front's node tree: the links between parents and children, the index by
  qid path, the detached roots and the counted fids agree, and climbing from any node ends. Every
  operation of \<open>R9P_Front_Model\<close> keeps it. Removing a subtree is characterised as dropping the
  set of nodes below its root, and the bounds put on climbing and descending are shown to be enough.
\<close>

section \<open>The tree behind the node table\<close>

definition par :: "front_state \<Rightarrow> nat \<Rightarrow> nat option" where
  "par s i = map_option node_parent (fmlookup (nodes s) i)"

definition nam :: "front_state \<Rightarrow> nat \<Rightarrow> bytes option" where
  "nam s i = map_option node_name (fmlookup (nodes s) i)"

definition qpt :: "front_state \<Rightarrow> nat \<Rightarrow> u64 option" where
  "qpt s i = map_option node_qid_path (fmlookup (nodes s) i)"

definition kids :: "front_state \<Rightarrow> nat \<Rightarrow> (bytes, nat) fmap option" where
  "kids s i =
     (case fmlookup (nodes s) i of
        Some nd \<Rightarrow> (case node_body nd of Dir d \<Rightarrow> Some (children d) | _ \<Rightarrow> None)
      | None \<Rightarrow> None)"

definition child :: "front_state \<Rightarrow> nat \<Rightarrow> bytes \<Rightarrow> nat option" where
  "child s i name = (case kids s i of Some cs \<Rightarrow> fmlookup cs name | None \<Rightarrow> None)"

definition edges :: "front_state \<Rightarrow> (nat \<times> nat) set" where
  "edges s = {(p, c). \<exists>name. child s p name = Some c}"

text \<open>Climbing from a node ends at the root or at a parent that is gone.\<close>

inductive grounded :: "front_state \<Rightarrow> nat \<Rightarrow> bool" for s where
  grounded_root: "grounded s ROOT_ID"
| grounded_gone: "par s i = None \<Longrightarrow> grounded s i"
| grounded_up: "par s i = Some p \<Longrightarrow> grounded s p \<Longrightarrow> grounded s i"

definition tree_ok :: "front_state \<Rightarrow> bool" where
  "tree_ok s \<longleftrightarrow>
     kids s ROOT_ID \<noteq> None \<and> par s ROOT_ID = Some ROOT_ID \<and> ROOT_ID |\<notin>| detached_roots s \<and>
     (\<forall>p name c. child s p name = Some c \<longrightarrow>
        c \<noteq> ROOT_ID \<and> c |\<notin>| detached_roots s \<and> par s c = Some p \<and> nam s c = Some name) \<and>
     (\<forall>c p name. par s c = Some p \<longrightarrow> nam s c = Some name \<longrightarrow> c \<noteq> ROOT_ID \<longrightarrow>
        c |\<notin>| detached_roots s \<longrightarrow> child s p name = Some c) \<and>
     (\<forall>c. c |\<in>| detached_roots s \<longrightarrow> par s c \<noteq> None) \<and>
     (\<forall>q i. fmlookup (qid_index s) q = Some i \<longleftrightarrow> qpt s i = Some q) \<and>
     (\<forall>i p. par s i = Some p \<longrightarrow> i < next_id s \<and> p < next_id s) \<and>
     (\<forall>i. grounded s i) \<and>
     (\<forall>i n. fmlookup (fid_references s) i = Some n \<longrightarrow> 0 < n \<and> par s i \<noteq> None)"

lemma par_iff: "par s i = None \<longleftrightarrow> fmlookup (nodes s) i = None"
  "par s i = Some p \<longleftrightarrow> (\<exists>nd. fmlookup (nodes s) i = Some nd \<and> node_parent nd = p)"
  by (auto simp: par_def)

lemma nam_iff: "nam s i = None \<longleftrightarrow> par s i = None" and qpt_iff: "qpt s i = None \<longleftrightarrow> par s i = None"
  by (auto simp: par_def nam_def qpt_def)

lemma kids_par: "kids s i = Some cs \<Longrightarrow> \<exists>p. par s i = Some p"
  by (auto simp: kids_def par_def split: option.splits)

lemma child_kids: "child s i name = Some c \<Longrightarrow> \<exists>cs. kids s i = Some cs"
  by (auto simp: child_def split: option.splits)

lemma child_par: "child s i name = Some c \<Longrightarrow> \<exists>p. par s i = Some p"
  using child_kids kids_par by blast

lemma is_Dir_kids: "fmlookup (nodes s) i = Some nd \<Longrightarrow> is_Dir (node_body nd) \<longleftrightarrow> kids s i \<noteq> None"
  by (cases "node_body nd") (simp_all add: kids_def)

lemma tree_ok_root:
  assumes "tree_ok s"
  shows "\<exists>cs. kids s ROOT_ID = Some cs" "par s ROOT_ID = Some ROOT_ID"
    "ROOT_ID |\<notin>| detached_roots s"
  using assms unfolding tree_ok_def by blast+

lemma tree_ok_child:
  assumes "tree_ok s" "child s p name = Some c"
  shows "c \<noteq> ROOT_ID" "c |\<notin>| detached_roots s" "par s c = Some p" "nam s c = Some name"
  using assms unfolding tree_ok_def by blast+

lemma tree_ok_linked:
  assumes "tree_ok s" "par s c = Some p" "nam s c = Some name" "c \<noteq> ROOT_ID"
    "c |\<notin>| detached_roots s"
  shows "child s p name = Some c"
  using assms unfolding tree_ok_def by blast

lemma tree_ok_detached: "tree_ok s \<Longrightarrow> c |\<in>| detached_roots s \<Longrightarrow> \<exists>p. par s c = Some p"
  unfolding tree_ok_def by blast

lemma tree_ok_index: "tree_ok s \<Longrightarrow> fmlookup (qid_index s) q = Some i \<longleftrightarrow> qpt s i = Some q"
  unfolding tree_ok_def by blast

lemma qpt_unique: "tree_ok s \<Longrightarrow> qpt s i = Some q \<Longrightarrow> qpt s j = Some q \<Longrightarrow> i = j"
  using tree_ok_index [of s q i] tree_ok_index [of s q j] by simp

lemma tree_ok_fresh: "tree_ok s \<Longrightarrow> par s i = Some p \<Longrightarrow> i < next_id s \<and> p < next_id s"
  unfolding tree_ok_def by blast

lemma tree_ok_grounded: "tree_ok s \<Longrightarrow> grounded s i"
  unfolding tree_ok_def by blast

lemma tree_ok_references:
  "tree_ok s \<Longrightarrow> fmlookup (fid_references s) i = Some n \<Longrightarrow> 0 < n \<and> (\<exists>p. par s i = Some p)"
  unfolding tree_ok_def by blast

text \<open>The invariant looks at the state only through these views.\<close>

lemma grounded_mono:
  assumes "grounded s i" "\<And>i p. par t i = Some p \<Longrightarrow> i \<noteq> ROOT_ID \<Longrightarrow> par s i = Some p"
  shows "grounded t i"
  using assms(1)
proof induction
  case (grounded_gone i)
  then show ?case
    using assms(2) [of i] by (cases "i = ROOT_ID"; cases "par t i") (auto intro: grounded.intros)
next
  case (grounded_up i p)
  then show ?case
    using assms(2) [of i] by (cases "i = ROOT_ID"; cases "par t i") (auto intro: grounded.intros)
qed (rule grounded_root)

lemma tree_ok_cong:
  assumes "par t = par s" "nam t = nam s" "qpt t = qpt s" "kids t = kids s"
    "qid_index t = qid_index s" "detached_roots t = detached_roots s" "next_id t = next_id s"
    "fid_references t = fid_references s"
  shows "tree_ok t = tree_ok s"
proof -
  have "child t = child s"
    using assms by (simp add: child_def fun_eq_iff)
  moreover have "grounded t = grounded s"
    using assms(1) by (auto simp: fun_eq_iff intro: grounded_mono)
  ultimately show ?thesis
    using assms by (simp add: tree_ok_def)
qed

section \<open>Updates of one node\<close>

named_theorems front_simps \<open>the views of a state after an update\<close>

lemma views_nodes:
  assumes "nodes t = nodes s"
  shows "par t = par s" "nam t = nam s" "qpt t = qpt s" "kids t = kids s" "child t = child s"
  using assms by (simp_all add: par_def nam_def qpt_def kids_def child_def fun_eq_iff)

lemma views_fields [front_simps]:
  "par (s\<lparr>detached_roots := x0\<rparr>) = par s"
  "nam (s\<lparr>detached_roots := x0\<rparr>) = nam s"
  "qpt (s\<lparr>detached_roots := x0\<rparr>) = qpt s"
  "kids (s\<lparr>detached_roots := x0\<rparr>) = kids s"
  "child (s\<lparr>detached_roots := x0\<rparr>) = child s"
  "par (s\<lparr>fid_references := x1\<rparr>) = par s"
  "nam (s\<lparr>fid_references := x1\<rparr>) = nam s"
  "qpt (s\<lparr>fid_references := x1\<rparr>) = qpt s"
  "kids (s\<lparr>fid_references := x1\<rparr>) = kids s"
  "child (s\<lparr>fid_references := x1\<rparr>) = child s"
  "par (s\<lparr>qid_index := x2\<rparr>) = par s"
  "nam (s\<lparr>qid_index := x2\<rparr>) = nam s"
  "qpt (s\<lparr>qid_index := x2\<rparr>) = qpt s"
  "kids (s\<lparr>qid_index := x2\<rparr>) = kids s"
  "child (s\<lparr>qid_index := x2\<rparr>) = child s"
  "par (s\<lparr>next_id := x3\<rparr>) = par s"
  "nam (s\<lparr>next_id := x3\<rparr>) = nam s"
  "qpt (s\<lparr>next_id := x3\<rparr>) = qpt s"
  "kids (s\<lparr>next_id := x3\<rparr>) = kids s"
  "child (s\<lparr>next_id := x3\<rparr>) = child s"
  "par (s\<lparr>remove_relay_prefixes := x4\<rparr>) = par s"
  "nam (s\<lparr>remove_relay_prefixes := x4\<rparr>) = nam s"
  "qpt (s\<lparr>remove_relay_prefixes := x4\<rparr>) = qpt s"
  "kids (s\<lparr>remove_relay_prefixes := x4\<rparr>) = kids s"
  "child (s\<lparr>remove_relay_prefixes := x4\<rparr>) = child s"
  "par (s\<lparr>principal_roots := x5\<rparr>) = par s"
  "nam (s\<lparr>principal_roots := x5\<rparr>) = nam s"
  "qpt (s\<lparr>principal_roots := x5\<rparr>) = qpt s"
  "kids (s\<lparr>principal_roots := x5\<rparr>) = kids s"
  "child (s\<lparr>principal_roots := x5\<rparr>) = child s"
  by (rule views_nodes; simp)+

lemma update_node_other [simp]:
  "qid_index (update_node i f s) = qid_index s"
  "detached_roots (update_node i f s) = detached_roots s"
  "next_id (update_node i f s) = next_id s"
  "fid_references (update_node i f s) = fid_references s"
  "fmdom (nodes (update_node i f s)) = fmdom (nodes s)"
  by (auto simp: update_node_def fmdomI split: option.splits)

lemma fmlookup_update_node [front_simps]:
  "fmlookup (nodes (update_node i f s)) j =
     (if i = j then map_option f (fmlookup (nodes s) j) else fmlookup (nodes s) j)"
  by (auto simp: update_node_def split: option.splits)

text \<open>Changing anything but the name, parent, qid path and children of a node.\<close>

definition same_place :: "(node \<Rightarrow> node) \<Rightarrow> node \<Rightarrow> bool" where
  "same_place f nd \<longleftrightarrow>
     node_parent (f nd) = node_parent nd \<and> node_name (f nd) = node_name nd
     \<and> node_qid_path (f nd) = node_qid_path nd
     \<and> (case node_body (f nd) of Dir d \<Rightarrow> Some (children d) | _ \<Rightarrow> None)
       = (case node_body nd of Dir d \<Rightarrow> Some (children d) | _ \<Rightarrow> None)"

lemma views_same_place:
  assumes "\<And>nd. fmlookup (nodes s) i = Some nd \<Longrightarrow> same_place f nd"
  shows "par (update_node i f s) = par s" "nam (update_node i f s) = nam s"
    "qpt (update_node i f s) = qpt s" "kids (update_node i f s) = kids s"
  using assms
  by (cases "fmlookup (nodes s) i";
      auto simp: fun_eq_iff par_def nam_def qpt_def kids_def fmlookup_update_node same_place_def)+

lemma tree_ok_same_place:
  assumes "tree_ok s" "\<And>nd. fmlookup (nodes s) i = Some nd \<Longrightarrow> same_place f nd"
  shows "tree_ok (update_node i f s)"
  using assms(1) by (subst tree_ok_cong) (simp_all add: views_same_place [OF assms(2)])

lemma views_update_children [front_simps]:
  "par (update_children p f s) = par s" "nam (update_children p f s) = nam s"
  "qpt (update_children p f s) = qpt s"
  "kids (update_children p f s) i = (if i = p then map_option f (kids s i) else kids s i)"
  by (cases "fmlookup (nodes s) p";
      auto simp: fun_eq_iff update_children_def par_def nam_def qpt_def kids_def
        fmlookup_update_node split: body.splits)+

lemma update_children_other [simp]:
  "qid_index (update_children p f s) = qid_index s"
  "detached_roots (update_children p f s) = detached_roots s"
  "next_id (update_children p f s) = next_id s"
  "fid_references (update_children p f s) = fid_references s"
  "fmdom (nodes (update_children p f s)) = fmdom (nodes s)"
  by (simp_all add: update_children_def)

lemma child_update_children:
  "child (update_children p f s) i name =
     (if i = p then (case kids s i of Some cs \<Rightarrow> fmlookup (f cs) name | None \<Rightarrow> None)
      else child s i name)"
  by (simp add: child_def front_simps split: option.splits)

lemma child_drop_child [front_simps]:
  "child (update_children p (fmdrop nm) s) i name =
     (if i = p \<and> name = nm then None else child s i name)"
  unfolding child_update_children by (cases "kids s i") (auto simp: child_def)

lemma child_add_child [front_simps]:
  "child (update_children p (fmupd nm c) s) i name =
     (if i = p \<and> name = nm \<and> kids s p \<noteq> None then Some c else child s i name)"
  unfolding child_update_children by (cases "kids s i") (auto simp: child_def)

section \<open>New nodes\<close>

definition childless :: "node \<Rightarrow> bool" where
  "childless nd \<longleftrightarrow> (\<forall>d. node_body nd = Dir d \<longrightarrow> children d = fmempty)"

lemma views_insert_node:
  assumes ok: "tree_ok s" and p: "kids s (node_parent nd) \<noteq> None"
    and body: "childless nd"
  defines "t \<equiv> snd (insert_node nd s)"
  shows "par s (next_id s) = None" "node_parent nd < next_id s"
    "par t i = (if i = next_id s then Some (node_parent nd) else par s i)"
    "nam t i = (if i = next_id s then Some (node_name nd) else nam s i)"
    "qpt t i = (if i = next_id s then Some (node_qid_path nd) else qpt s i)"
    "kids t i = (if i = node_parent nd then map_option (fmupd (node_name nd) (next_id s)) (kids s i)
      else if i = next_id s then (case node_body nd of Dir d \<Rightarrow> Some (children d) | _ \<Rightarrow> None)
      else kids s i)"
    "child t i name = (if i = node_parent nd \<and> name = node_name nd then Some (next_id s)
      else child s i name)"
    "fmlookup (nodes t) i = (if i = next_id s then Some nd
      else if i = node_parent nd then map_option (\<lambda>x. case node_body x of
           Dir d \<Rightarrow> x\<lparr>node_body := Dir (d\<lparr>children := fmupd (node_name nd) (next_id s) (children d)\<rparr>)\<rparr>
         | _ \<Rightarrow> x) (fmlookup (nodes s) i)
      else fmlookup (nodes s) i)"
proof -
  let ?i = "next_id s" and ?p = "node_parent nd"
  show new: "par s ?i = None"
    using tree_ok_fresh [OF ok, of ?i] by (cases "par s ?i") auto
  obtain r where "par s ?p = Some r"
    using p kids_par [of s ?p] by auto
  then show "?p < ?i"
    using tree_ok_fresh [OF ok, of ?p r] by auto
  then have p_ne: "?p \<noteq> ?i" "?i \<noteq> ?p" by auto
  show "par t i = (if i = ?i then Some ?p else par s i)"
    "nam t i = (if i = ?i then Some (node_name nd) else nam s i)"
    "qpt t i = (if i = ?i then Some (node_qid_path nd) else qpt s i)"
    by (simp_all add: t_def insert_node_def front_simps) (simp_all add: par_def nam_def qpt_def)
  show kids: "kids t i = (if i = ?p then map_option (fmupd (node_name nd) ?i) (kids s i)
      else if i = ?i then (case node_body nd of Dir d \<Rightarrow> Some (children d) | _ \<Rightarrow> None)
      else kids s i)" for i
    using p_ne by (simp add: t_def insert_node_def front_simps) (simp add: kids_def)
  have none: "child s ?i name = None" for name
    using new child_par [of s ?i name] by (cases "child s ?i name") auto
  show "child t i name =
      (if i = ?p \<and> name = node_name nd then Some ?i else child s i name)"
  proof -
    consider "i = ?p" | "i = ?i" | "i \<noteq> ?p" "i \<noteq> ?i" by blast
    then show ?thesis
    proof cases
      case 1
      then show ?thesis using p by (cases "kids s ?p") (auto simp: child_def kids)
    next
      case 2
      then show ?thesis using p_ne none body
        by (cases "node_body nd") (auto simp: childless_def child_def [of t] kids)
    next
      case 3
      then show ?thesis by (simp add: child_def kids)
    qed
  qed
  show "fmlookup (nodes t) i = (if i = ?i then Some nd
      else if i = ?p then map_option (\<lambda>x. case node_body x of
           Dir d \<Rightarrow> x\<lparr>node_body := Dir (d\<lparr>children := fmupd (node_name nd) ?i (children d)\<rparr>)\<rparr>
         | _ \<Rightarrow> x) (fmlookup (nodes s) i)
      else fmlookup (nodes s) i)"
    using p_ne by (simp add: t_def insert_node_def update_children_def fmlookup_update_node)
qed

lemma tree_ok_insert_node:
  assumes ok: "tree_ok s" and p: "kids s (node_parent nd) \<noteq> None"
    and free: "child s (node_parent nd) (node_name nd) = None"
    and q: "fmlookup (qid_index s) (node_qid_path nd) = None"
    and body: "childless nd"
  shows "tree_ok (snd (insert_node nd s))"
proof -
  let ?i = "next_id s" and ?t = "snd (insert_node nd s)" and ?p = "node_parent nd"
  note views = views_insert_node [OF ok p body]
  note new = views(1) and p_lt = views(2) and par = views(3) and nam = views(4) and qpt = views(5)
    and kids = views(6) and child = views(7)
  have p_ne: "?p \<noteq> ?i" "?i \<noteq> ?p" using p_lt by auto
  have old: "i \<noteq> ?i" if "par s i = Some r" for i r using that new by auto
  have other [simp]: "detached_roots ?t = detached_roots s" "next_id ?t = Suc ?i"
    "qid_index ?t = fmupd (node_qid_path nd) ?i (qid_index s)" "fid_references ?t = fid_references s"
    by (simp_all add: insert_node_def)
  have root: "ROOT_ID \<noteq> ?i"
    by (rule old [OF tree_ok_root(2) [OF ok]])
  have det: "?i |\<notin>| detached_roots s"
    using tree_ok_detached [OF ok, of ?i] new by auto
  have grounded: "grounded ?t i" for i
  proof -
    have *: "grounded ?t j" if "grounded s j" "j \<noteq> ?i" for j
      using that
    proof induction
      case (grounded_up j r)
      then show ?case
        using tree_ok_fresh [OF ok] by (intro grounded.grounded_up [of ?t j r]) (auto simp: par)
    qed (auto intro: grounded.intros simp: par)
    show ?thesis
      using * [OF tree_ok_grounded [OF ok]] p_ne
      by (cases "i = ?i") (auto intro: grounded.grounded_up simp: par)
  qed
  show ?thesis
    unfolding tree_ok_def
  proof (intro conjI allI impI)
    show "kids ?t ROOT_ID \<noteq> None" "par ?t ROOT_ID = Some ROOT_ID" "ROOT_ID |\<notin>| detached_roots ?t"
      using tree_ok_root [OF ok] root by (auto simp: kids par)
  next
    fix q name c
    assume "child ?t q name = Some c"
    then have "q = ?p \<and> name = node_name nd \<and> c = ?i \<or> child s q name = Some c"
      by (simp add: child split: if_split_asm)
    then have "c \<noteq> ROOT_ID \<and> c |\<notin>| detached_roots ?t \<and> par ?t c = Some q \<and> nam ?t c = Some name"
    proof
      assume "child s q name = Some c"
      from tree_ok_child [OF ok this] old show ?thesis by (auto simp: par nam)
    qed (use root det in \<open>simp add: par nam\<close>)
    then show "c \<noteq> ROOT_ID" "c |\<notin>| detached_roots ?t" "par ?t c = Some q" "nam ?t c = Some name"
      by simp_all
  next
    fix c q name
    assume *: "par ?t c = Some q" "nam ?t c = Some name" "c \<noteq> ROOT_ID" "c |\<notin>| detached_roots ?t"
    show "child ?t q name = Some c"
    proof (cases "c = ?i")
      case False
      with * have "child s q name = Some c"
        by (intro tree_ok_linked [OF ok]) (auto simp: par nam)
      with free show ?thesis by (auto simp: child)
    qed (use * in \<open>simp add: par nam child\<close>)
  next
    fix q i
    show "fmlookup (qid_index ?t) q = Some i \<longleftrightarrow> qpt ?t i = Some q"
      using tree_ok_index [OF ok, of q i] q qpt_iff [of s ?i] new by (auto simp: qpt)
  next
    fix i r
    assume "par ?t i = Some r"
    then show "i < next_id ?t" "r < next_id ?t"
      using tree_ok_fresh [OF ok, of i r] p_lt by (auto simp: par split: if_splits)
  next
    fix i n
    assume "fmlookup (fid_references ?t) i = Some n"
    then show "0 < n" "par ?t i \<noteq> None"
      using tree_ok_references [OF ok, of i n] by (auto simp: par)
  next
    fix c
    assume "c |\<in>| detached_roots ?t"
    then show "par ?t c \<noteq> None"
      using tree_ok_detached [OF ok, of c] by (auto simp: par)
  qed (rule grounded)
qed

section \<open>Removing what is below a node\<close>

definition below :: "front_state \<Rightarrow> nat set \<Rightarrow> nat set" where
  "below s A = {i \<in> (edges s)\<^sup>* `` A. par s i \<noteq> None}"

definition purge :: "nat set \<Rightarrow> front_state \<Rightarrow> front_state" where
  "purge D s =
     s\<lparr>nodes := fmfilter (\<lambda>i. i \<notin> D) (nodes s),
       detached_roots := ffilter (\<lambda>i. i \<notin> D) (detached_roots s),
       fid_references := fmfilter (\<lambda>i. i \<notin> D) (fid_references s),
       qid_index := fmfilter (\<lambda>q. \<forall>i \<in> D. qpt s i \<noteq> Some q) (qid_index s),
       intakes := fmfilter (\<lambda>i. i \<notin> D) (intakes s),
       rename_relay_roots := fmfilter (\<lambda>i. i \<notin> D) (rename_relay_roots s)\<rparr>"

lemma set_fm_values: "set (fm_values m) = fset (fmran m)"
  by (force simp: fm_values_def fm_items_def fmlookup_dom_iff fmlookup_ran_iff image_iff)

lemma set_node_children:
  "fmlookup (nodes s) i = Some nd \<Longrightarrow> set (node_children nd) = edges s `` {i}"
  by (auto simp: edges_def child_def kids_def set_fm_values fmlookup_ran_iff split: body.splits)

lemma views_purge [front_simps]:
  "par (purge D s) i = (if i \<in> D then None else par s i)"
  "nam (purge D s) i = (if i \<in> D then None else nam s i)"
  "qpt (purge D s) i = (if i \<in> D then None else qpt s i)"
  "kids (purge D s) i = (if i \<in> D then None else kids s i)"
  "child (purge D s) i name = (if i \<in> D then None else child s i name)"
  by (simp_all add: purge_def par_def nam_def qpt_def kids_def child_def)

lemma purge_fields [simp]:
  "next_id (purge D s) = next_id s"
  "i |\<in>| detached_roots (purge D s) \<longleftrightarrow> i |\<in>| detached_roots s \<and> i \<notin> D"
  "fmlookup (fid_references (purge D s)) i = (if i \<in> D then None else fmlookup (fid_references s) i)"
  "fmlookup (qid_index (purge D s)) q =
     (if \<exists>i \<in> D. qpt s i = Some q then None else fmlookup (qid_index s) q)"
  by (auto simp: purge_def)

lemma views_forget [front_simps]:
  "par (forget_node j nd s) i = (if i = j then None else par s i)"
  "qpt (forget_node j nd s) i = (if i = j then None else qpt s i)"
  "child (forget_node j nd s) i name = (if i = j then None else child s i name)"
  by (simp_all add: forget_node_def par_def qpt_def kids_def child_def)

lemma forget_is_purge:
  assumes "fmlookup (nodes s) j = Some nd"
  shows "forget_node j nd s = purge {j} s"
proof -
  have drop: "fmdrop j m = fmfilter (\<lambda>i. i \<notin> {j}) m" for m :: "(nat, 'b) fmap"
    by (intro fmap_ext) simp
  have "detached_roots s |-| {|j|} = ffilter (\<lambda>i. i \<notin> {j}) (detached_roots s)"
    by auto
  moreover have "fmdrop (node_qid_path nd) (qid_index s)
      = fmfilter (\<lambda>q. \<forall>i \<in> {j}. qpt s i \<noteq> Some q) (qid_index s)"
    using assms by (intro fmap_ext) (auto simp: qpt_def)
  ultimately show ?thesis
    by (simp add: forget_node_def purge_def drop)
qed

lemma purge_purge: "purge E (purge D s) = purge (D \<union> E) s"
proof (rule front_state.equality)
  show "qid_index (purge E (purge D s)) = qid_index (purge (D \<union> E) s)"
    by (intro fmap_ext) (auto simp: views_purge split: if_splits)
  show "detached_roots (purge E (purge D s)) = detached_roots (purge (D \<union> E) s)"
    by auto
  show "fid_references (purge E (purge D s)) = fid_references (purge (D \<union> E) s)"
    by (intro fmap_ext) simp
  show "nodes (purge E (purge D s)) = nodes (purge (D \<union> E) s)"
    "intakes (purge E (purge D s)) = intakes (purge (D \<union> E) s)"
    "rename_relay_roots (purge E (purge D s)) = rename_relay_roots (purge (D \<union> E) s)"
    by (intro fmap_ext; simp add: purge_def)+
qed (simp_all add: purge_def)

lemma below_forget:
  assumes "fmlookup (nodes s) j = Some nd"
  shows "below s (insert j A) = insert j (below (purge {j} s) (edges s `` {j} \<union> A))"
proof -
  let ?t = "purge {j} s"
  have edges: "(x, y) \<in> edges ?t \<longleftrightarrow> (x, y) \<in> edges s \<and> x \<noteq> j" for x y
    by (auto simp: edges_def views_purge)
  have j: "par s j \<noteq> None" using assms by (simp add: par_def)
  have down: "y = j \<or> y \<in> (edges ?t)\<^sup>* `` (edges s `` {j} \<union> A)"
    if "(x, y) \<in> (edges s)\<^sup>*" "x \<in> insert j A" for x y
    using that
  proof induction
    case (step y z)
    then consider "y = j" | r where "y \<noteq> j" "r \<in> edges s `` {j} \<union> A" "(r, y) \<in> (edges ?t)\<^sup>*"
      by blast
    then show ?case
    proof cases
      case 2
      with step have "(r, z) \<in> (edges ?t)\<^sup>*"
        by (meson edges rtrancl.rtrancl_into_rtrancl)
      with 2 show ?thesis by blast
    qed (use step in blast)
  qed blast
  have "(edges ?t)\<^sup>* \<subseteq> (edges s)\<^sup>*"
    by (intro rtrancl_mono) (auto simp: edges)
  then have up: "y \<in> (edges s)\<^sup>* `` insert j A"
    if "y \<in> (edges ?t)\<^sup>* `` (edges s `` {j} \<union> A)" for y
    using that by (auto intro: converse_rtrancl_into_rtrancl)
  have "(edges s)\<^sup>* `` insert j A = insert j ((edges ?t)\<^sup>* `` (edges s `` {j} \<union> A))"
    using down up by blast
  then show ?thesis
    using j by (auto simp: below_def views_purge)
qed

text \<open>The recursive removal drops exactly the nodes below the given ones.\<close>

lemma remove_nodes_is_purge: "remove_nodes ids s = purge (below s (set ids)) s"
proof (induction ids s rule: remove_nodes.induct)
  case (1 s)
  have "purge {} s = s"
    by (auto simp: purge_def intro!: front_state.equality fmap_ext)
  then show ?case by (simp add: below_def)
next
  case (2 nid ids s)
  show ?case
  proof (cases "fmlookup (nodes s) nid")
    case None
    then have "par s nid = None" "\<And>name. child s nid name = None"
      by (simp_all add: par_def child_def kids_def)
    then have "below s (set (nid # ids)) = below s (set ids)"
      by (auto simp: below_def edges_def elim: converse_rtranclE)
    with 2(1) None show ?thesis by simp
  next
    case (Some nd)
    with 2(2) [OF Some] have "remove_nodes (nid # ids) s
        = purge (below (purge {nid} s) (edges s `` {nid} \<union> set ids)) (purge {nid} s)"
      by (simp add: forget_is_purge set_node_children Image_def del: node_children.simps)
    then show ?thesis
      using below_forget [OF Some, of "set ids"] by (simp add: purge_purge)
  qed
qed

text \<open>The equation the source states: remove the node, then each child in turn.\<close>

lemma remove_nodes_append: "remove_nodes (xs @ ys) s = remove_nodes ys (remove_nodes xs s)"
proof (induction xs s rule: remove_nodes.induct)
  case (2 nid ids s)
  then show ?case by (cases "fmlookup (nodes s) nid") (simp_all del: node_children.simps)
qed simp

lemma remove_node_recursive_eq:
  "remove_node_recursive nid s =
     (case fmlookup (nodes s) nid of
        None \<Rightarrow> s
      | Some nd \<Rightarrow> fold remove_node_recursive (node_children nd) (forget_node nid nd s))"
proof -
  have fold: "remove_nodes ids t = fold remove_node_recursive ids t" for ids t
  proof (induction ids arbitrary: t)
    case (Cons i ids)
    have "remove_nodes (i # ids) t = remove_nodes ids (remove_nodes [i] t)"
      using remove_nodes_append [of "[i]" ids t] by (simp only: append_Cons append_Nil)
    with Cons show ?case
      by (simp only: fold_simps comp_def remove_node_recursive_def)
  qed simp
  show ?thesis
  proof (cases "fmlookup (nodes s) nid")
    case (Some nd)
    then have "remove_node_recursive nid s = remove_nodes (node_children nd) (forget_node nid nd s)"
      by (simp add: remove_node_recursive_def del: node_children.simps)
    with Some show ?thesis by (simp only: fold option.case)
  qed (simp add: remove_node_recursive_def)
qed

lemma tree_ok_purge:
  assumes ok: "tree_ok s" and root: "ROOT_ID \<notin> D"
    and closed: "\<And>p c. (p, c) \<in> edges s \<Longrightarrow> p \<in> D \<longleftrightarrow> c \<in> D"
  shows "tree_ok (purge D s)"
proof -
  have edge: "(p, c) \<in> edges s" if "child s p name = Some c" for p name c
    using that by (auto simp: edges_def)
  have grounded: "grounded (purge D s) i" for i
    by (rule grounded_mono [OF tree_ok_grounded [OF ok]]) (simp add: views_purge split: if_splits)
  show ?thesis
    unfolding tree_ok_def
  proof (intro conjI allI impI)
    show "kids (purge D s) ROOT_ID \<noteq> None" "par (purge D s) ROOT_ID = Some ROOT_ID"
      "ROOT_ID |\<notin>| detached_roots (purge D s)"
      using tree_ok_root [OF ok] root by (simp_all add: views_purge)
  next
    fix p name c
    assume "child (purge D s) p name = Some c"
    then have "child s p name = Some c" "p \<notin> D"
      by (simp_all add: views_purge split: if_splits)
    then show "c \<noteq> ROOT_ID" "c |\<notin>| detached_roots (purge D s)" "par (purge D s) c = Some p"
      "nam (purge D s) c = Some name"
      using tree_ok_child [OF ok, of p name c] closed [OF edge, of p name c]
      by (simp_all add: views_purge)
  next
    fix c p name
    assume "par (purge D s) c = Some p" "nam (purge D s) c = Some name" "c \<noteq> ROOT_ID"
      "c |\<notin>| detached_roots (purge D s)"
    then have "child s p name = Some c" "c \<notin> D"
      using tree_ok_linked [OF ok, of c p name] by (auto simp: views_purge split: if_splits)
    then show "child (purge D s) p name = Some c"
      using closed [OF edge, of p name c] by (simp add: views_purge)
  next
    fix q i
    show "fmlookup (qid_index (purge D s)) q = Some i \<longleftrightarrow> qpt (purge D s) i = Some q"
      using tree_ok_index [OF ok, of q i] qpt_unique [OF ok, of _ q i] by (auto simp: views_purge)
  next
    fix i p
    assume "par (purge D s) i = Some p"
    then show "i < next_id (purge D s)" "p < next_id (purge D s)"
      using tree_ok_fresh [OF ok, of i p] by (simp_all add: views_purge split: if_splits)
  next
    fix i n
    assume "fmlookup (fid_references (purge D s)) i = Some n"
    then show "0 < n" "par (purge D s) i \<noteq> None"
      using tree_ok_references [OF ok, of i n] by (auto simp: views_purge split: if_splits)
  next
    fix c
    assume "c |\<in>| detached_roots (purge D s)"
    then show "par (purge D s) c \<noteq> None"
      using tree_ok_detached [OF ok, of c] by (auto simp: views_purge)
  qed (rule grounded)
qed

lemma edges_existing: "tree_ok s \<Longrightarrow> (p, c) \<in> edges s \<Longrightarrow> par s c = Some p"
  using tree_ok_child(3) by (auto simp: edges_def)

lemma below_detached:
  assumes ok: "tree_ok s" and c: "c |\<in>| detached_roots s"
  shows "below s {c} = (edges s)\<^sup>* `` {c}" and "ROOT_ID \<notin> below s {c}"
    and "(x, y) \<in> edges s \<Longrightarrow> x \<in> below s {c} \<longleftrightarrow> y \<in> below s {c}"
    and "d |\<in>| detached_roots s \<Longrightarrow> d \<in> below s {c} \<Longrightarrow> d = c"
proof -
  have reach: "y = c \<or> (\<exists>x. (c, x) \<in> (edges s)\<^sup>* \<and> (x, y) \<in> edges s)" if "(c, y) \<in> (edges s)\<^sup>*" for y
    using that by (auto elim: rtranclE)
  have c_par: "\<exists>p. par s c = Some p"
    by (rule tree_ok_detached [OF ok c])
  show all: "below s {c} = (edges s)\<^sup>* `` {c}"
    using reach c_par edges_existing [OF ok] by (fastforce simp: below_def)
  show "ROOT_ID \<notin> below s {c}"
    using reach [of ROOT_ID] c tree_ok_root(3) [OF ok] tree_ok_child(1) [OF ok]
    by (auto simp: all edges_def)
  show "d = c" if "d |\<in>| detached_roots s" "d \<in> below s {c}" for d
    using reach [of d] that tree_ok_child(2) [OF ok] by (auto simp: all edges_def)
  show "x \<in> below s {c} \<longleftrightarrow> y \<in> below s {c}" if "(x, y) \<in> edges s" for x y
  proof
    assume "y \<in> below s {c}"
    then have "(c, y) \<in> (edges s)\<^sup>*" by (simp add: all)
    moreover have "y \<noteq> c" using that c tree_ok_child(2) [OF ok] by (auto simp: edges_def)
    ultimately obtain z where "(c, z) \<in> (edges s)\<^sup>*" "(z, y) \<in> edges s"
      using reach by blast
    with that edges_existing [OF ok, of z y] edges_existing [OF ok, of x y]
    show "x \<in> below s {c}" by (simp add: all)
  qed (use that in \<open>auto simp: all intro: rtrancl_into_rtrancl\<close>)
qed

lemma tree_ok_remove_detached:
  assumes "tree_ok s" "c |\<in>| detached_roots s"
  shows "tree_ok (remove_node_recursive c s)"
  unfolding remove_node_recursive_def remove_nodes_is_purge
  using below_detached(2,3) [OF assms] by (intro tree_ok_purge assms(1)) simp_all

section \<open>The references below a node\<close>

definition unreferenced :: "front_state \<Rightarrow> nat \<Rightarrow> bool" where
  "unreferenced s i \<longleftrightarrow> (\<forall>j. (i, j) \<in> (edges s)\<^sup>* \<longrightarrow> fmlookup (fid_references s) j = None)"

lemma relpow_Suc_iff: "(i, j) \<in> E ^^ Suc k \<longleftrightarrow> (\<exists>c. (i, c) \<in> E \<and> (c, j) \<in> E ^^ k)"
  by (metis relpow_Suc_D2 relpow_Suc_I2)

lemma rtrancl_bounded:
  assumes "finite E" "card E \<le> m"
  shows "(i, j) \<in> E\<^sup>* \<longleftrightarrow> (\<exists>k < Suc m. (i, j) \<in> E ^^ k)"
proof
  assume "(i, j) \<in> E\<^sup>*"
  then obtain k where "k \<le> card E" "(i, j) \<in> E ^^ k"
    unfolding rtrancl_finite_eq_relpow [OF assms(1)] by auto
  with assms(2) show "\<exists>k < Suc m. (i, j) \<in> E ^^ k"
    by (intro exI [of _ k]) simp
qed (auto dest: relpow_imp_rtrancl)

lemma subtree_reference_loop_iff:
  "subtree_reference_loop n s i \<longleftrightarrow>
     (\<exists>k < n. \<exists>j. (i, j) \<in> edges s ^^ k \<and> fmlookup (fid_references s) j \<noteq> None)"
proof (induction n arbitrary: i)
  case (Suc n)
  show ?case
  proof (cases "fmlookup (nodes s) i")
    case None
    then have "(i, c) \<notin> edges s" for c
      by (simp add: edges_def child_def kids_def)
    with None show ?thesis
      by (simp add: Ex_less_Suc2 relpow_Suc_iff del: relpow.simps(2))
  next
    case (Some nd)
    have "list_ex P (node_children nd) \<longleftrightarrow> (\<exists>c. (i, c) \<in> edges s \<and> P c)" for P
      using set_node_children [OF Some] by (auto simp: list_ex_iff simp del: node_children.simps)
    with Some show ?thesis
      by (simp add: Ex_less_Suc2 relpow_Suc_iff Suc del: relpow.simps(2) node_children.simps) blast
  qed
qed simp

lemma finite_edges: "tree_ok s \<Longrightarrow> finite (edges s) \<and> card (edges s) \<le> fcard (fmdom (nodes s))"
proof -
  assume ok: "tree_ok s"
  let ?C = "snd ` edges s"
  have "?C \<subseteq> fset (fmdom (nodes s))"
    using edges_existing [OF ok] by (force simp: par_iff intro: fmdomI)
  then have "finite ?C" "card ?C \<le> fcard (fmdom (nodes s))"
    using finite_subset [OF _ finite_fset] card_mono [OF finite_fset] by (auto simp: fcard.rep_eq)
  moreover have "inj_on snd (edges s)"
  proof (rule inj_onI)
    fix x y
    assume "x \<in> edges s" "y \<in> edges s" "snd x = snd y"
    then show "x = y"
      using edges_existing [OF ok] by (cases x; cases y) fastforce
  qed
  ultimately show ?thesis
    by (simp add: finite_image_iff card_image)
qed

text \<open>In a well-formed state the recursion never needs more turns than the bound gives it.\<close>

lemma subtree_has_fid_reference_iff:
  assumes "tree_ok s"
  shows "subtree_has_fid_reference i s \<longleftrightarrow> \<not> unreferenced s i"
proof -
  have reach: "(i, j) \<in> (edges s)\<^sup>* \<longleftrightarrow> (\<exists>k < fuel s. (i, j) \<in> edges s ^^ k)" for j
    unfolding fuel_def using finite_edges [OF assms] by (intro rtrancl_bounded) simp_all
  have "subtree_has_fid_reference i s \<longleftrightarrow>
      (\<exists>j. (\<exists>k < fuel s. (i, j) \<in> edges s ^^ k) \<and> fmlookup (fid_references s) j \<noteq> None)"
    unfolding subtree_has_fid_reference_def subtree_reference_loop_iff by (rule iffI; elim exE conjE; intro exI conjI)
  then show ?thesis
    by (simp add: unreferenced_def flip: reach)
qed

section \<open>Detaching and collecting\<close>

lemma tree_ok_detach:
  assumes ok: "tree_ok s" and c: "child s p name = Some c"
  shows "tree_ok ((update_children p (fmdrop name) s)\<lparr>detached_roots := finsert c (detached_roots s)\<rparr>)"
    (is "tree_ok ?t")
proof -
  have views: "par ?t = par s" "nam ?t = nam s" "qpt ?t = qpt s"
    "\<And>i nm. child ?t i nm = (if i = p \<and> nm = name then None else child s i nm)"
    "\<And>i. kids ?t i = (if i = p then map_option (fmdrop name) (kids s i) else kids s i)"
    by (simp_all add: front_simps)
  have grounded: "grounded ?t i" for i
    by (rule grounded_mono [OF tree_ok_grounded [OF ok]]) (simp add: views)
  show ?thesis
    unfolding tree_ok_def
  proof (intro conjI allI impI)
    show "kids ?t ROOT_ID \<noteq> None" "par ?t ROOT_ID = Some ROOT_ID" "ROOT_ID |\<notin>| detached_roots ?t"
      using tree_ok_root [OF ok] tree_ok_child(1) [OF ok c] by (auto simp: views)
  next
    fix q nm d
    assume "child ?t q nm = Some d"
    then have d: "child s q nm = Some d" "\<not> (q = p \<and> nm = name)"
      by (auto simp: views split: if_splits)
    then have "d \<noteq> c"
      using tree_ok_child [OF ok d(1)] tree_ok_child [OF ok c] by auto
    with tree_ok_child [OF ok d(1)]
    show "d \<noteq> ROOT_ID" "d |\<notin>| detached_roots ?t" "par ?t d = Some q" "nam ?t d = Some nm"
      by (simp_all add: views)
  next
    fix d q nm
    assume "par ?t d = Some q" "nam ?t d = Some nm" "d \<noteq> ROOT_ID" "d |\<notin>| detached_roots ?t"
    then show "child ?t q nm = Some d"
      using tree_ok_linked [OF ok, of d q nm] c by (auto simp: views)
  next
    fix d
    assume "d |\<in>| detached_roots ?t"
    then show "par ?t d \<noteq> None"
      using tree_ok_detached [OF ok, of d] tree_ok_child(3) [OF ok c] by (auto simp: views)
  next
    fix i n
    assume "fmlookup (fid_references ?t) i = Some n"
    then show "0 < n" "par ?t i \<noteq> None"
      using tree_ok_references [OF ok, of i n] by (auto simp: views)
  next
    fix i r
    assume "par ?t i = Some r"
    then show "i < next_id ?t" "r < next_id ?t"
      using tree_ok_fresh [OF ok, of i r] by (simp_all add: views)
  qed (use tree_ok_index [OF ok] grounded in \<open>simp_all add: views\<close>)
qed

end
