(* ===== verification/R9P_Front_Ops.thy ===== *)
theory R9P_Front_Ops
  imports R9P_Front_Inv
begin

text \<open>
  The operations of a front keep its tree well-formed and never drop a node some fid holds: first
  retiring and collecting subtrees, then reattaching, placing and pushing nodes, and the counting
  of fids itself.
\<close>

section \<open>Retiring and collecting\<close>

definition attached :: "front_state \<Rightarrow> nat \<Rightarrow> bool" where
  "attached s i \<longleftrightarrow> (ROOT_ID, i) \<in> (edges s)\<^sup>*"

lemma attached_root [simp]: "attached s ROOT_ID"
  by (simp add: attached_def)

lemma attached_child: "attached s p \<Longrightarrow> child s p name = Some c \<Longrightarrow> attached s c"
  by (auto simp: attached_def edges_def intro: rtrancl_into_rtrancl)

lemma attached_cases:
  assumes "tree_ok s" "attached s i" "i \<noteq> ROOT_ID"
  obtains p name where "attached s p" "child s p name = Some i"
  using assms(2,3) unfolding attached_def by (auto elim: rtranclE simp: edges_def)

lemma attached_not_detached: "tree_ok s \<Longrightarrow> attached s i \<Longrightarrow> i |\<notin>| detached_roots s"
  by (metis attached_cases tree_ok_child(2) tree_ok_root(3))

lemma attached_par: "tree_ok s \<Longrightarrow> attached s i \<Longrightarrow> \<exists>p. par s i = Some p"
  by (metis attached_cases tree_ok_child(3) tree_ok_root(2))

lemma attached_not_below_detached:
  assumes "tree_ok s" "c |\<in>| detached_roots s" "attached s i"
  shows "i \<notin> below s {c}"
  using assms(3) unfolding attached_def
  by (induction rule: rtrancl_induct) (use below_detached(2,3) [OF assms(1,2)] in auto)

text \<open>Only the root of the removed subtree could be listed as detached, so listing it or not makes
  no difference.\<close>

lemma edges_detached [simp]: "edges (s\<lparr>detached_roots := A\<rparr>) = edges s"
  by (simp add: edges_def front_simps)

lemma remove_node_relisted:
  assumes "par s c \<noteq> None" "A |-| {|c|} = detached_roots s |-| {|c|}"
  shows "remove_node_recursive c (s\<lparr>detached_roots := A\<rparr>) = remove_node_recursive c s"
proof -
  let ?D = "below s {c}"
  have "c \<in> ?D" using assms(1) by (simp add: below_def)
  with assms(2) have "ffilter (\<lambda>i. i \<notin> ?D) A = ffilter (\<lambda>i. i \<notin> ?D) (detached_roots s)"
    by (auto simp: fset_eq_iff)
  moreover have "below (s\<lparr>detached_roots := A\<rparr>) {c} = ?D"
    by (simp add: below_def front_simps)
  ultimately show ?thesis
    by (simp add: remove_node_recursive_def remove_nodes_is_purge purge_def front_simps
        cong del: fmfilter_cong)
qed

lemma remove_node_references:
  assumes "unreferenced s c"
  shows "fid_references (remove_node_recursive c s) = fid_references s"
  using assms
  by (intro fmap_ext)
     (auto simp: remove_node_recursive_def remove_nodes_is_purge unreferenced_def below_def)

lemma subtree_reference_detached:
  "subtree_has_fid_reference i (s\<lparr>detached_roots := A\<rparr>) = subtree_has_fid_reference i s"
  by (simp add: subtree_has_fid_reference_def subtree_reference_loop_iff fuel_def)

lemma unreferenced_detached [simp]: "unreferenced (s\<lparr>detached_roots := A\<rparr>) i = unreferenced s i"
  by (simp add: unreferenced_def)

text \<open>No garbage: below every detached root some fid holds a node.\<close>

definition no_garbage :: "front_state \<Rightarrow> bool" where
  "no_garbage s \<longleftrightarrow> (\<forall>c. c |\<in>| detached_roots s \<longrightarrow> \<not> unreferenced s c)"

lemma reaches_same:
  assumes "(d, i) \<in> (edges s)\<^sup>*" "\<And>x nm. (d, x) \<in> (edges s)\<^sup>* \<Longrightarrow> child t x nm = child s x nm"
  shows "(d, i) \<in> (edges t)\<^sup>*"
  using assms(1)
proof (induction rule: rtrancl_induct)
  case (step x y)
  with assms(2) [of x] have "(x, y) \<in> edges t" by (auto simp: edges_def)
  with step show ?case by (simp add: rtrancl_into_rtrancl)
qed simp

lemma no_garbage_transfer:
  assumes "no_garbage s" "fid_references t = fid_references s"
    "\<And>d. d |\<in>| detached_roots t \<Longrightarrow> d |\<notin>| detached_roots s \<Longrightarrow> \<not> unreferenced t d"
    "\<And>d x nm. d |\<in>| detached_roots t \<Longrightarrow> d |\<in>| detached_roots s \<Longrightarrow> (d, x) \<in> (edges s)\<^sup>* \<Longrightarrow>
       child t x nm = child s x nm"
  shows "no_garbage t"
  unfolding no_garbage_def
proof (intro allI impI)
  fix d
  assume d: "d |\<in>| detached_roots t"
  show "\<not> unreferenced t d"
  proof (cases "d |\<in>| detached_roots s")
    case True
    with assms(1) obtain i where i: "(d, i) \<in> (edges s)\<^sup>*" "fmlookup (fid_references s) i \<noteq> None"
      by (auto simp: no_garbage_def unreferenced_def)
    from reaches_same [OF i(1)] assms(4) [OF d True] have "(d, i) \<in> (edges t)\<^sup>*" by blast
    with i(2) assms(2) show ?thesis by (auto simp: unreferenced_def)
  qed (use assms(3) d in blast)
qed

lemma no_garbage_views:
  "no_garbage s \<Longrightarrow> fid_references t = fid_references s \<Longrightarrow> detached_roots t = detached_roots s \<Longrightarrow>
   child t = child s \<Longrightarrow> no_garbage t"
  by (rule no_garbage_transfer [of s]) simp_all

lemma reaches_apart:
  assumes "tree_ok s" "c |\<in>| detached_roots s" "d |\<in>| detached_roots s" "d \<noteq> c" "(d, x) \<in> (edges s)\<^sup>*"
  shows "x \<notin> below s {c}"
  using assms(5)
  by (induction rule: rtrancl_induct)
     (use below_detached(3,4) [OF assms(1,2)] assms(3,4) in blast)+

lemma retire_detached_subtree_ok:
  assumes ok: "tree_ok s" and c: "child s p name = Some c"
  defines "t \<equiv> retire_detached_subtree c (update_children p (fmdrop name) s)"
  shows "tree_ok t" "fid_references t = fid_references s" "attached s p \<Longrightarrow> no_garbage s \<Longrightarrow> no_garbage t"
proof -
  let ?u = "update_children p (fmdrop name) s"
  let ?v = "?u\<lparr>detached_roots := finsert c (detached_roots s)\<rparr>"
  have v: "tree_ok ?v" by (rule tree_ok_detach [OF ok c])
  have refs: "subtree_has_fid_reference c ?u \<longleftrightarrow> \<not> unreferenced ?u c"
    using subtree_has_fid_reference_iff [OF v, of c] by (simp add: subtree_reference_detached)
  have "par ?u c \<noteq> None"
    using tree_ok_child(3) [OF ok c] by (simp add: front_simps)
  then have removed: "remove_node_recursive c ?u = remove_node_recursive c ?v"
    by (intro remove_node_relisted [symmetric]) auto
  have "tree_ok (remove_node_recursive c ?v)"
    by (rule tree_ok_remove_detached [OF v]) simp
  moreover have "fid_references (remove_node_recursive c ?u) = fid_references s" if "unreferenced ?u c"
    using remove_node_references [OF that] by simp
  ultimately show t: "tree_ok t" "fid_references t = fid_references s"
    using v by (auto simp: t_def retire_detached_subtree_def refs removed)
  show "no_garbage t" if p: "attached s p" and no_garbage: "no_garbage s"
  proof (rule no_garbage_transfer [OF no_garbage t(2)])
    fix d
    assume "d |\<in>| detached_roots t" "d |\<notin>| detached_roots s"
    then show "\<not> unreferenced t d"
      by (auto simp: t_def retire_detached_subtree_def refs remove_node_recursive_def remove_nodes_is_purge
          split: if_splits)
  next
    fix d x nm
    assume d: "d |\<in>| detached_roots t" "d |\<in>| detached_roots s" "(d, x) \<in> (edges s)\<^sup>*"
    have "d \<noteq> c" using d(2) tree_ok_child(2) [OF ok c] by blast
    have "x \<in> below s {d}" using d(3) by (simp add: below_detached(1) [OF ok d(2)])
    then have "x \<noteq> p" using attached_not_below_detached [OF ok d(2) p] by blast
    have "(edges ?u) \<subseteq> edges s" by (auto simp: edges_def front_simps split: if_splits)
    then have "(d, y) \<in> (edges ?v)\<^sup>*" if "(d, y) \<in> (edges s)\<^sup>*" for y
    proof (intro reaches_same [OF that])
      fix z nm
      assume "(d, z) \<in> (edges s)\<^sup>*"
      then have "z \<in> below s {d}" by (simp add: below_detached(1) [OF ok d(2)])
      then have "z \<noteq> p" using attached_not_below_detached [OF ok d(2) p] by blast
      then show "child ?v z nm = child s z nm" by (simp add: front_simps child_def)
    qed
    then have "x \<notin> below ?v {c}"
      using reaches_apart [OF v, of c d x] d(2,3) \<open>d \<noteq> c\<close> by simp
    then show "child t x nm = child s x nm"
      using \<open>x \<noteq> p\<close> unfolding t_def retire_detached_subtree_def removed
      by (simp add: remove_node_recursive_def remove_nodes_is_purge front_simps child_def)
  qed
qed

lemma collect_fold_ok:
  assumes "tree_ok s" "distinct xs" "\<And>c. c \<in> set xs \<Longrightarrow> c |\<in>| detached_roots s \<and> unreferenced s c"
  defines "step \<equiv> \<lambda>c s. remove_node_recursive c (s\<lparr>detached_roots := detached_roots s |-| {|c|}\<rparr>)"
  shows "tree_ok (fold step xs s) \<and> fid_references (fold step xs s) = fid_references s \<and>
    (\<forall>i. attached s i \<longrightarrow> fmlookup (nodes (fold step xs s)) i = fmlookup (nodes s) i) \<and>
    ((\<forall>c. c |\<in>| detached_roots s \<longrightarrow> c \<notin> set xs \<longrightarrow> \<not> unreferenced s c) \<longrightarrow> no_garbage (fold step xs s))"
  using assms(1-3)
proof (induction xs arbitrary: s)
  case (Cons c xs)
  have c: "c |\<in>| detached_roots s" "unreferenced s c" using Cons.prems by auto
  let ?D = "below s {c}"
  have "par s c \<noteq> None" using tree_ok_detached [OF Cons.prems(1) c(1)] by auto
  then have step: "step c s = remove_node_recursive c s"
    unfolding step_def by (intro remove_node_relisted) auto
  also have purge: "\<dots> = purge ?D s"
    by (simp add: remove_node_recursive_def remove_nodes_is_purge)
  finally have t: "step c s = purge ?D s" .
  have edges: "edges (purge ?D s) \<subseteq> edges s"
    by (auto simp: edges_def views_purge split: if_splits)
  have refs: "fid_references (step c s) = fid_references s"
    unfolding step by (rule remove_node_references [OF c(2)])
  have keep: "d |\<in>| detached_roots (step c s) \<and> unreferenced (step c s) d" if "d \<in> set xs" for d
  proof
    show "d |\<in>| detached_roots (step c s)"
      using that Cons.prems below_detached(4) [OF Cons.prems(1) c(1), of d] by (auto simp: t)
    show "unreferenced (step c s) d"
      using that Cons.prems(3) [of d] rtrancl_mono [OF edges] refs by (auto simp: unreferenced_def t)
  qed
  have ok: "tree_ok (step c s)"
    unfolding step by (rule tree_ok_remove_detached [OF Cons.prems(1) c(1)])
  have stays: "attached (step c s) i \<and> fmlookup (nodes (step c s)) i = fmlookup (nodes s) i"
    if "attached s i" for i
    using that unfolding attached_def
  proof (induction rule: rtrancl_induct)
    case base
    show ?case
      using below_detached(2) [OF Cons.prems(1) c(1)] by (simp add: t purge_def)
  next
    case (step p i)
    then have "attached s p" "attached s i"
      by (simp_all add: attached_def rtrancl_into_rtrancl)
    then have "p \<notin> ?D" "i \<notin> ?D"
      using attached_not_below_detached [OF Cons.prems(1) c(1)] by blast+
    moreover from this step have "(p, i) \<in> edges (purge ?D s)"
      by (auto simp: edges_def views_purge)
    ultimately show ?case
      using step by (auto simp: t purge_def intro: rtrancl_into_rtrancl)
  qed
  have "\<not> unreferenced (step c s) d" if d: "d |\<in>| detached_roots (step c s)" "\<not> unreferenced s d" for d
  proof -
    from d(1) have "d |\<in>| detached_roots s" "d \<noteq> c"
      using below_detached(1) [OF Cons.prems(1) c(1)] by (auto simp: t)
    from d(2) obtain i where i: "(d, i) \<in> (edges s)\<^sup>*" "fmlookup (fid_references s) i \<noteq> None"
      by (auto simp: unreferenced_def)
    have "(d, i) \<in> (edges (step c s))\<^sup>*"
      by (rule reaches_same [OF i(1)])
         (use reaches_apart [OF Cons.prems(1) c(1) \<open>d |\<in>| detached_roots s\<close> \<open>d \<noteq> c\<close>] in \<open>simp add: t views_purge\<close>)
    with i(2) refs show ?thesis by (auto simp: unreferenced_def)
  qed
  moreover have "d |\<in>| detached_roots s \<and> d \<noteq> c" if "d |\<in>| detached_roots (step c s)" for d
    using that below_detached(1) [OF Cons.prems(1) c(1)] by (auto simp: t)
  ultimately have "(\<forall>d. d |\<in>| detached_roots s \<longrightarrow> d \<notin> set (c # xs) \<longrightarrow> \<not> unreferenced s d) \<Longrightarrow>
      (\<forall>d. d |\<in>| detached_roots (step c s) \<longrightarrow> d \<notin> set xs \<longrightarrow> \<not> unreferenced (step c s) d)"
    by auto
  with Cons.IH [OF ok _ keep] Cons.prems(2) refs stays show ?case by auto
qed (auto simp: no_garbage_def)

lemma collect_ok:
  assumes "tree_ok s"
  defines "t \<equiv> collect_unreferenced_detached_subtrees s"
  shows "tree_ok t" "fid_references t = fid_references s"
    "\<And>i. attached s i \<Longrightarrow> fmlookup (nodes t) i = fmlookup (nodes s) i" "no_garbage t"
proof -
  let ?xs = "filter (\<lambda>i. \<not> subtree_has_fid_reference i s) (sorted_list_of_fset (detached_roots s))"
  have "distinct ?xs" "\<And>c. c \<in> set ?xs \<Longrightarrow> c |\<in>| detached_roots s \<and> unreferenced s c"
    using subtree_has_fid_reference_iff [OF assms(1)] by (auto simp: sorted_list_of_fset.rep_eq)
  note all = collect_fold_ok [OF assms(1) this, folded collect_unreferenced_detached_subtrees_def t_def]
  then show "tree_ok t" "fid_references t = fid_references s"
    "\<And>i. attached s i \<Longrightarrow> fmlookup (nodes t) i = fmlookup (nodes s) i"
    by blast+
  have "\<not> unreferenced s c" if "c |\<in>| detached_roots s" "c \<notin> set ?xs" for c
    using that subtree_has_fid_reference_iff [OF assms(1)] by (auto simp: sorted_list_of_fset.rep_eq)
  with all show "no_garbage t" by blast
qed

section \<open>Moving a detached node back\<close>

definition relink :: "nat \<Rightarrow> node \<Rightarrow> nat \<Rightarrow> bytes \<Rightarrow> front_state \<Rightarrow> front_state" where
  "relink i nd p name s =
     (let s = update_children (node_parent nd)
                (\<lambda>cs. if fmlookup cs (node_name nd) = Some i then fmdrop (node_name nd) cs else cs) s;
          s = update_node i (\<lambda>nd. nd\<lparr>node_parent := p, node_name := name\<rparr>) s;
          s = update_children p (fmupd name i) s
      in s\<lparr>detached_roots := detached_roots s |-| {|i|}\<rparr>)"

lemma views_move [front_simps]:
  "par (update_node i (\<lambda>nd. nd\<lparr>node_parent := p, node_name := name\<rparr>) s) j =
     (if j = i then map_option (\<lambda>_. p) (par s j) else par s j)"
  "nam (update_node i (\<lambda>nd. nd\<lparr>node_parent := p, node_name := name\<rparr>) s) j =
     (if j = i then map_option (\<lambda>_. name) (par s j) else nam s j)"
  "qpt (update_node i (\<lambda>nd. nd\<lparr>node_parent := p, node_name := name\<rparr>) s) = qpt s"
  "kids (update_node i (\<lambda>nd. nd\<lparr>node_parent := p, node_name := name\<rparr>) s) = kids s"
  by (cases "fmlookup (nodes s) i";
      auto simp: fun_eq_iff par_def nam_def qpt_def kids_def fmlookup_update_node)+

lemma views_relink:
  assumes i: "fmlookup (nodes s) i = Some nd" and p: "kids s p \<noteq> None"
  shows "par (relink i nd p name s) j = (if j = i then Some p else par s j)"
    "nam (relink i nd p name s) j = (if j = i then Some name else nam s j)"
    "qpt (relink i nd p name s) = qpt s"
    "kids (relink i nd p name s) j = None \<longleftrightarrow> kids s j = None"
    "child (relink i nd p name s) q nm =
       (if q = p \<and> nm = name then Some i
        else if q = node_parent nd \<and> nm = node_name nd \<and> child s q nm = Some i then None
        else child s q nm)"
    "qid_index (relink i nd p name s) = qid_index s" "next_id (relink i nd p name s) = next_id s"
    "fid_references (relink i nd p name s) = fid_references s"
    "detached_roots (relink i nd p name s) = detached_roots s |-| {|i|}"
proof -
  have "par s i = Some (node_parent nd)" using i by (simp add: par_def)
  then show "par (relink i nd p name s) j = (if j = i then Some p else par s j)"
    "nam (relink i nd p name s) j = (if j = i then Some name else nam s j)"
    "qpt (relink i nd p name s) = qpt s"
    "kids (relink i nd p name s) j = None \<longleftrightarrow> kids s j = None"
    "qid_index (relink i nd p name s) = qid_index s" "next_id (relink i nd p name s) = next_id s"
    "fid_references (relink i nd p name s) = fid_references s"
    "detached_roots (relink i nd p name s) = detached_roots s |-| {|i|}"
    by (auto simp: relink_def Let_def front_simps)
  show "child (relink i nd p name s) q nm =
       (if q = p \<and> nm = name then Some i
        else if q = node_parent nd \<and> nm = node_name nd \<and> child s q nm = Some i then None
        else child s q nm)"
    using p by (cases "kids s q") (auto simp: relink_def Let_def front_simps child_def)
qed

lemma tree_ok_relink:
  assumes ok: "tree_ok s" and i: "fmlookup (nodes s) i = Some nd" "\<not> attached s i"
    and p: "attached s p" "kids s p \<noteq> None" "child s p name = None"
  shows "tree_ok (relink i nd p name s)" (is "tree_ok ?t")
proof -
  note views = views_relink [OF i(1) p(2)]
  have i_par: "par s i = Some (node_parent nd)" "nam s i = Some (node_name nd)"
    using i(1) by (simp_all add: par_def nam_def)
  have root: "i \<noteq> ROOT_ID" using i(2) by auto
  have "grounded ?t q" if "attached s q" for q
    using that unfolding attached_def
  proof (induction rule: rtrancl_induct)
    case (step x y)
    then have "y \<noteq> i" using i(2) by (auto simp: attached_def intro: rtrancl_into_rtrancl)
    with step edges_existing [OF ok step(2)] show ?case
      by (intro grounded_up [of _ y x]) (simp_all add: views)
  qed (rule grounded_root)
  then have i_grounded: "grounded ?t i"
    using p(1) by (intro grounded_up [of _ i p]) (simp_all add: views)
  have grounded: "grounded ?t j" for j
    using tree_ok_grounded [OF ok, of j]
  proof induction
    case (grounded_gone j)
    with i_par show ?case by (intro grounded.grounded_gone) (auto simp: views)
  next
    case (grounded_up j r)
    with i_grounded show ?case
      by (cases "j = i") (auto intro: grounded.grounded_up simp: views)
  qed (rule grounded_root)
  show ?thesis
    unfolding tree_ok_def
  proof (intro conjI allI impI)
    show "kids ?t ROOT_ID \<noteq> None" "par ?t ROOT_ID = Some ROOT_ID" "ROOT_ID |\<notin>| detached_roots ?t"
      using tree_ok_root [OF ok] root by (auto simp: views)
  next
    fix q nm c
    assume c: "child ?t q nm = Some c"
    have "c \<noteq> ROOT_ID \<and> c |\<notin>| detached_roots ?t \<and> par ?t c = Some q \<and> nam ?t c = Some nm"
    proof (cases "q = p \<and> nm = name")
      case True
      with c have c_i: "c = i" by (simp add: views)
      show ?thesis unfolding c_i using True root by (simp add: views)
    next
      case False
      with c have old: "child s q nm = Some c"
        "\<not> (q = node_parent nd \<and> nm = node_name nd \<and> child s q nm = Some i)"
        by (auto simp: views split: if_splits)
      with tree_ok_child [OF ok old(1)] i_par have "c \<noteq> i" by auto
      with tree_ok_child [OF ok old(1)] show ?thesis by (simp add: views)
    qed
    then show "c \<noteq> ROOT_ID" "c |\<notin>| detached_roots ?t" "par ?t c = Some q" "nam ?t c = Some nm"
      by simp_all
  next
    fix c q nm
    assume *: "par ?t c = Some q" "nam ?t c = Some nm" "c \<noteq> ROOT_ID" "c |\<notin>| detached_roots ?t"
    show "child ?t q nm = Some c"
    proof (cases "c = i")
      case True
      have "p = q" using *(1) unfolding True by (simp add: views)
      moreover have "name = nm" using *(2) unfolding True by (simp add: views)
      ultimately
      show ?thesis unfolding True using views(5) [of name q nm] by simp
    next
      case False
      with * have "child s q nm = Some c"
        by (intro tree_ok_linked [OF ok]) (auto simp: views)
      with p(3) False show ?thesis by (auto simp: views)
    qed
  next
    fix c
    assume "c |\<in>| detached_roots ?t"
    then show "par ?t c \<noteq> None"
      using tree_ok_detached [OF ok, of c] by (auto simp: views)
  next
    fix j r
    assume "par ?t j = Some r"
    moreover obtain r' where "par s p = Some r'" using attached_par [OF ok p(1)] by blast
    ultimately show "j < next_id ?t" "r < next_id ?t"
      using tree_ok_fresh [OF ok, of j r] tree_ok_fresh [OF ok i_par(1)] tree_ok_fresh [OF ok, of p r']
      by (auto simp: views split: if_splits)
  next
    fix j n
    assume "fmlookup (fid_references ?t) j = Some n"
    then show "0 < n" "par ?t j \<noteq> None"
      using tree_ok_references [OF ok, of j n] by (auto simp: views)
  qed (use tree_ok_index [OF ok] grounded in \<open>simp_all add: views\<close>)
qed

lemma node_is_detached_not_attached:
  assumes ok: "tree_ok s"
  shows "node_is_detached i s \<Longrightarrow> \<not> attached s i"
proof -
  have "\<not> node_is_detached_loop n i s" if "attached s i" for n
    using that
  proof (induction n arbitrary: i)
    case (Suc n)
    show ?case
    proof (cases "i = ROOT_ID")
      case True
      then show ?thesis
        using tree_ok_root(2,3) [OF ok] by (auto simp: par_iff)
    next
      case False
      with Suc.prems obtain p name where p: "attached s p" "child s p name = Some i"
        using attached_cases [OF ok] by blast
      with tree_ok_child(3) [OF ok p(2)] Suc.IH [OF p(1)] attached_not_detached [OF ok Suc.prems]
      show ?thesis by (auto simp: par_iff)
    qed
  qed simp
  then show "node_is_detached i s \<Longrightarrow> \<not> attached s i"
    by (auto simp: node_is_detached_def)
qed

lemma reattach_ok:
  assumes ok: "tree_ok s" and p: "attached s p" "kids s p \<noteq> None" "child s p name = None"
    and run: "reattach_detached_pushed_node path p name q body_matches s = (r, t)"
  shows "tree_ok t" "fid_references t = fid_references s" "no_garbage s \<Longrightarrow> no_garbage t"
    "r = Inr None \<Longrightarrow> t = s \<and> fmlookup (qid_index s) q = None"
    "r = Inr (Some i) \<Longrightarrow> attached t i \<and> child t p name = Some i \<and> qpt t i = Some q \<and>
       (\<exists>nd. fmlookup (nodes s) i = Some nd \<and> body_matches (node_body nd) \<and>
          (kids t i = None \<longleftrightarrow> \<not> is_Dir (node_body nd)))"
proof -
  have cases: "t = s \<and> (r = Inr None \<and> fmlookup (qid_index s) q = None \<or> (\<exists>e. r = Inl e))
      \<or> (\<exists>i nd. r = Inr (Some i) \<and> fmlookup (qid_index s) q = Some i \<and> node_is_detached i s
            \<and> fmlookup (nodes s) i = Some nd \<and> body_matches (node_body nd)
            \<and> t = collect_unreferenced_detached_subtrees (relink i nd p name s))"
    using run unfolding reattach_detached_pushed_node_def relink_def
    by (auto simp: get_node_def Let_def split: option.splits if_splits sum.splits)
  have "tree_ok t \<and> fid_references t = fid_references s \<and> (no_garbage s \<longrightarrow> no_garbage t)
      \<and> (r = Inr None \<longrightarrow> t = s \<and> fmlookup (qid_index s) q = None)
      \<and> (\<forall>i. r = Inr (Some i) \<longrightarrow> attached t i \<and> child t p name = Some i \<and> qpt t i = Some q \<and>
       (\<exists>nd. fmlookup (nodes s) i = Some nd \<and> body_matches (node_body nd) \<and>
          (kids t i = None \<longleftrightarrow> \<not> is_Dir (node_body nd))))"
    using cases
  proof (elim disjE conjE exE)
    fix j nd
    assume *: "r = Inr (Some j)" "fmlookup (qid_index s) q = Some j" "node_is_detached j s"
      "fmlookup (nodes s) j = Some nd"
      "t = collect_unreferenced_detached_subtrees (relink j nd p name s)" "body_matches (node_body nd)"
    let ?u = "relink j nd p name s"
    note views = views_relink [OF *(4) p(2)]
    have j: "\<not> attached s j" by (rule node_is_detached_not_attached [OF ok *(3)])
    have u: "tree_ok ?u" by (rule tree_ok_relink [OF ok *(4) j p])
    have "attached ?u x" if "attached s x" for x
      using that unfolding attached_def
    proof (induction rule: rtrancl_induct)
      case (step x y)
      then have "y \<noteq> j" using j by (auto simp: attached_def intro: rtrancl_into_rtrancl)
      obtain nm where "child s x nm = Some y" using step(2) by (auto simp: edges_def)
      with \<open>y \<noteq> j\<close> p(3) have "child ?u x nm = Some y" by (auto simp: views(5))
      then have "(x, y) \<in> edges ?u" by (auto simp: edges_def)
      with step(3) show ?case by (rule rtrancl_into_rtrancl)
    qed simp
    then have att: "attached ?u p" "attached ?u j"
      using p(1) attached_child [of ?u p name j] by (simp_all add: views)
    note c = collect_ok [OF u, folded *(5)]
    have "tree_ok t" "fid_references t = fid_references s" "no_garbage t"
      using c by (simp_all add: views)
    moreover have "child t p name = Some j"
      using c(3) [OF att(1)] views(5) [where q = p and nm = name and name = name]
      by (simp add: child_def kids_def)
    moreover have "qpt t j = Some q"
      using c(3) [OF att(2)] tree_ok_index [OF ok, of q j] *(2) views(3) [where name = name]
      by (simp add: qpt_def fun_eq_iff)
    moreover have "kids t j = None \<longleftrightarrow> \<not> is_Dir (node_body nd)"
      using c(3) [OF att(2)] views(4) [where j = j and name = name] is_Dir_kids [OF *(4)]
      by (simp add: kids_def)
    moreover have "attached t x" if "attached ?u x" for x
      using that unfolding attached_def
    proof (induction rule: rtrancl_induct)
      case (step x y)
      then have "(x, y) \<in> edges t"
        using c(3) [of x] by (auto simp: attached_def edges_def child_def kids_def)
      with step(3) show ?case by (rule rtrancl_into_rtrancl)
    qed simp
    ultimately show ?thesis
      using *(1,4,6) att(2) by simp
  qed (use ok in auto)
  then show "tree_ok t" "fid_references t = fid_references s" "no_garbage s \<Longrightarrow> no_garbage t"
    "r = Inr None \<Longrightarrow> t = s \<and> fmlookup (qid_index s) q = None"
    "r = Inr (Some i) \<Longrightarrow> attached t i \<and> child t p name = Some i \<and> qpt t i = Some q \<and>
       (\<exists>nd. fmlookup (nodes s) i = Some nd \<and> body_matches (node_body nd) \<and>
          (kids t i = None \<longleftrightarrow> \<not> is_Dir (node_body nd)))"
    by blast+
qed

section \<open>Growing the tree\<close>

text \<open>What creating nodes keeps: everything that was there, with the children it had.\<close>

definition grows :: "front_state \<Rightarrow> front_state \<Rightarrow> bool" where
  "grows s t \<longleftrightarrow>
     tree_ok t \<and> fid_references t = fid_references s \<and> detached_roots t = detached_roots s
     \<and> (\<forall>i p. par s i = Some p \<longrightarrow> par t i = Some p)
     \<and> (\<forall>i. kids s i \<noteq> None \<longrightarrow> kids t i \<noteq> None)
     \<and> (\<forall>p name c. child s p name = Some c \<longrightarrow> child t p name = Some c)
     \<and> (\<forall>i nd. fmlookup (nodes s) i = Some nd \<longrightarrow> \<not> is_Dir (node_body nd) \<longrightarrow>
          fmlookup (nodes t) i = Some nd)"

lemma grows_refl: "tree_ok s \<Longrightarrow> grows s s"
  by (simp add: grows_def)

lemma grows_trans: "grows s t \<Longrightarrow> grows t u \<Longrightarrow> grows s u"
  unfolding grows_def by fastforce

lemma grows_ok: "grows s t \<Longrightarrow> tree_ok t"
  by (simp add: grows_def)

lemma grows_attached: "grows s t \<Longrightarrow> attached s i \<Longrightarrow> attached t i"
proof -
  assume "grows s t"
  then have "edges s \<subseteq> edges t" by (fastforce simp: grows_def edges_def)
  then show "attached s i \<Longrightarrow> attached t i"
    using rtrancl_mono by (auto simp: attached_def)
qed

lemma child_of_iff:
  "child_of p name s = Inr (Some c) \<longleftrightarrow> child s p name = Some c"
  "child_of p name s = Inr None \<longleftrightarrow> kids s p \<noteq> None \<and> child s p name = None"
  by (auto simp: child_of_def child_def kids_def get_node_def and_then_Inr_iff
      split: option.splits body.splits)

lemma insert_node_grows:
  assumes "tree_ok s" "kids s (node_parent nd) \<noteq> None"
    "child s (node_parent nd) (node_name nd) = None"
    "fmlookup (qid_index s) (node_qid_path nd) = None"
    "childless nd"
    and run: "insert_node nd s = (r, t)"
  shows "grows s t" "r = Inr (next_id s)" "child t (node_parent nd) (node_name nd) = Some (next_id s)"
    "kids t (next_id s) \<noteq> None \<longleftrightarrow> is_Dir (node_body nd)"
    "\<not> is_Dir (node_body nd) \<Longrightarrow> fmlookup (nodes t) (next_id s) = Some nd"
proof -
  have t: "t = snd (insert_node nd s)" using run by simp
  note views = views_insert_node [OF assms(1,2,5), folded t]
  show "r = Inr (next_id s)" using run by (simp add: insert_node_def)
  show "child t (node_parent nd) (node_name nd) = Some (next_id s)" by (simp add: views)
  show "kids t (next_id s) \<noteq> None \<longleftrightarrow> is_Dir (node_body nd)"
    using views(2) by (cases "node_body nd") (simp_all add: views(6))
  show "fmlookup (nodes t) (next_id s) = Some nd" by (simp add: views)
  have files: "fmlookup (nodes t) i = Some x"
    if "fmlookup (nodes s) i = Some x" "\<not> is_Dir (node_body x)" for i x
    using that views(1) by (cases "node_body x") (auto simp: views(8) par_def)
  have "tree_ok t" unfolding t by (rule tree_ok_insert_node [OF assms(1-5)])
  moreover have "fid_references t = fid_references s" "detached_roots t = detached_roots s"
    by (simp_all add: t insert_node_def)
  moreover have "par t i = Some q" if "par s i = Some q" for i q
    using that views(1) by (auto simp: views(3))
  moreover have "kids t i \<noteq> None" if "kids s i \<noteq> None" for i
    using that views(1) kids_par [of s i] by (auto simp: views(6))
  moreover have "child t q name = Some c" if "child s q name = Some c" for q name c
    using that assms(3) by (auto simp: views(7))
  ultimately show "grows s t"
    using files unfolding grows_def by blast
qed

lemma next_available_qid_path_free:
  "next_available_qid_path q s = Inr r \<Longrightarrow> fmlookup (qid_index s) r = None"
  by (induction q s rule: next_available_qid_path.induct)
     (subst (asm) next_available_qid_path.simps, auto split: if_splits)

lemma ensure_dir_ok:
  assumes ok: "tree_ok s" and run: "ensure_dir p name s = (r, t)"
  shows "grows s t" "r = Inr c \<Longrightarrow> child t p name = Some c \<and> kids t c \<noteq> None"
proof -
  let ?new = "\<lambda>q. plain_node name p q 0 0 (Dir DirectoryBody_default)"
  have childless: "childless (?new q)" for q
    by (simp add: childless_def plain_node_def DirectoryBody_default_def)
  consider (same) "t = s" "\<And>c. r = Inr c \<Longrightarrow> child s p name = Some c \<and> kids s c \<noteq> None"
    | (new) q where "kids s p \<noteq> None" "child s p name = None"
        "fmlookup (qid_index s) q = None" "insert_node (?new q) s = (r, t)"
  proof (cases "child_of p name s")
    case (Inl e)
    with run show ?thesis
      by (intro same) (simp_all add: ensure_dir_def bind_s_def stateful_simps)
  next
    case (Inr x)
    show ?thesis
    proof (cases x)
      case None
      with Inr have "kids s p \<noteq> None" "child s p name = None"
        by (simp_all add: child_of_iff)
      with Inr None run show ?thesis
        by (cases "next_available_qid_path (word_of_nat (next_id s)) s")
           (auto simp: ensure_dir_def bind_s_def stateful_simps
             intro: same new dest: next_available_qid_path_free)
    next
      case (Some c)
      with Inr have "child s p name = Some c"
        by (simp add: child_of_iff)
      with Inr Some run show ?thesis
        by (intro same)
           (auto simp: ensure_dir_def bind_s_def stateful_simps get_node_def ok_or_def
             is_Dir_kids split: option.splits if_splits)
    qed
  qed
  then have "grows s t \<and> (\<forall>c. r = Inr c \<longrightarrow> child t p name = Some c \<and> kids t c \<noteq> None)"
  proof cases
    case same
    with grows_refl [OF ok] show ?thesis by simp
  next
    case (new q)
    from new insert_node_grows [OF ok, of "?new q", OF _ _ _ childless new(4)]
    show ?thesis by (simp add: plain_node_def)
  qed
  then show "grows s t" "r = Inr c \<Longrightarrow> child t p name = Some c \<and> kids t c \<noteq> None" by blast+
qed

lemma lookup_segments_child:
  "lookup_segments i (seg # segs) s = Inr (Some j) \<longleftrightarrow>
     (\<exists>c. child s i seg = Some c \<and> lookup_segments c segs s = Inr (Some j))"
  by (auto simp: and_then_Inr_iff child_of_iff split: option.splits)

lemma lookup_segments_append:
  "lookup_segments i (xs @ ys) s = Inr (Some j) \<longleftrightarrow>
     (\<exists>c. lookup_segments i xs s = Inr (Some c) \<and> lookup_segments c ys s = Inr (Some j))"
  by (induction xs arbitrary: i)
     (auto simp: lookup_segments_child simp del: lookup_segments.simps(2))

lemma grows_lookup:
  assumes "grows s t" "lookup_segments i segs s = Inr (Some j)"
  shows "lookup_segments i segs t = Inr (Some j)"
  using assms(2)
proof (induction segs arbitrary: i)
  case (Cons seg segs)
  then show ?case
    using assms(1) unfolding lookup_segments_child grows_def by blast
qed simp

lemma lookup_attached:
  "lookup_segments i segs s = Inr (Some j) \<Longrightarrow> attached s i \<Longrightarrow> attached s j"
  by (induction segs arbitrary: i)
     (auto simp: lookup_segments_child simp del: lookup_segments.simps(2) intro: attached_child)

lemma ensure_dirs_ok:
  assumes "tree_ok s" "ensure_dirs p segs s = (r, t)"
  shows "grows s t \<and> (\<forall>c. r = Inr c \<longrightarrow> lookup_segments p segs t = Inr (Some c))"
  using assms
proof (induction segs arbitrary: p s)
  case Nil
  then show ?case by (auto simp: stateful_simps grows_refl)
next
  case (Cons seg segs)
  obtain r1 s1 where run: "ensure_dir p seg s = (r1, s1)" by fastforce
  note dir = ensure_dir_ok [OF Cons.prems(1) run]
  show ?case
  proof (cases r1)
    case (Inl e)
    with Cons.prems(2) run dir(1) show ?thesis by (auto simp: bind_s_def)
  next
    case (Inr c)
    with Cons.prems(2) run have "ensure_dirs c segs s1 = (r, t)" by (simp add: bind_s_def)
    with Cons.IH grows_ok [OF dir(1)] have "grows s1 t"
      "\<forall>c'. r = Inr c' \<longrightarrow> lookup_segments c segs t = Inr (Some c')" by blast+
    moreover from this dir(2) [OF Inr] have "child t p seg = Some c"
      unfolding grows_def by blast
    ultimately show ?thesis
      using grows_trans [OF dir(1)] unfolding lookup_segments_child by blast
  qed
qed

lemma split_path_nonempty: "split_path path = Inr segs \<Longrightarrow> segs \<noteq> []"
proof -
  have "split_on c xs \<noteq> []" for c xs by (induction xs) auto
  then show "split_path path = Inr segs \<Longrightarrow> segs \<noteq> []"
    by (auto simp: split_path_def Let_def split: if_splits)
qed

lemma open_parent_ok:
  assumes ok: "tree_ok s" and run: "open_parent b path s = (r, t)"
  shows "grows s t"
    "r = Inr (p, name, existing) \<Longrightarrow>
       kids t p \<noteq> None \<and> existing = child t p name \<and>
       (\<exists>segs. split_path path = Inr (segs @ [name]) \<and> lookup_segments b segs t = Inr (Some p))"
proof -
  have "grows s t \<and> (\<forall>p name existing. r = Inr (p, name, existing) \<longrightarrow>
       kids t p \<noteq> None \<and> existing = child t p name \<and>
       (\<exists>segs. split_path path = Inr (segs @ [name]) \<and> lookup_segments b segs t = Inr (Some p)))"
  proof (cases "split_path path")
    case (Inl e)
    with run grows_refl [OF ok] show ?thesis
      by (auto simp: open_parent_def stateful_simps)
  next
    case (Inr segs)
    obtain r1 s1 where dirs: "ensure_dirs b (butlast segs) s = (r1, s1)" by fastforce
    note d = ensure_dirs_ok [OF ok dirs]
    have segs: "segs = butlast segs @ [last segs]"
      using split_path_nonempty [OF Inr] by simp
    show ?thesis
    proof (cases "r1")
      case (Inl e)
      with Inr run dirs d show ?thesis
        by (auto simp: open_parent_def bind_s_def stateful_simps)
    next
      case (Inr q)
      have run': "(r, t) = (case child_of q (last segs) s1 of
          Inl e \<Rightarrow> (Inl e, s1) | Inr x \<Rightarrow> (Inr (q, last segs, x), s1))"
        using run \<open>split_path path = Inr segs\<close> dirs Inr
        by (auto simp: open_parent_def bind_s_def stateful_simps split: sum.splits)
      show ?thesis
      proof (cases "child_of q (last segs) s1")
        case (Inr x)
        then have "kids s1 q \<noteq> None \<and> x = child s1 q (last segs)"
          by (cases x) (auto simp: child_of_iff dest: child_kids)
        with Inr run' d \<open>r1 = Inr q\<close> \<open>split_path path = Inr segs\<close> segs show ?thesis by auto
      qed (use run' d in simp)
    qed
  qed
  then show "grows s t"
    "r = Inr (p, name, existing) \<Longrightarrow>
       kids t p \<noteq> None \<and> existing = child t p name \<and>
       (\<exists>segs. split_path path = Inr (segs @ [name]) \<and> lookup_segments b segs t = Inr (Some p))"
    by blast+
qed

section \<open>Every operation keeps the tree and the fids' hold on it\<close>

definition tree_keeps :: "front_state \<Rightarrow> front_state \<Rightarrow> bool" where
  "tree_keeps s t \<longleftrightarrow> tree_ok t \<and> fid_references t = fid_references s \<and> (no_garbage s \<longrightarrow> no_garbage t)"

lemma keeps_refl: "tree_ok s \<Longrightarrow> tree_keeps s s"
  by (simp add: tree_keeps_def)

lemma keeps_trans: "tree_keeps s t \<Longrightarrow> tree_keeps t u \<Longrightarrow> tree_keeps s u"
  by (simp add: tree_keeps_def)

lemma keeps_ok: "tree_keeps s t \<Longrightarrow> tree_ok t"
  by (simp add: tree_keeps_def)

lemma grows_keeps:
  assumes "grows s t"
  shows "tree_keeps s t"
proof -
  have "edges s \<subseteq> edges t" using assms by (fastforce simp: grows_def edges_def)
  then have "(edges s)\<^sup>* \<subseteq> (edges t)\<^sup>*" by (rule rtrancl_mono)
  moreover have t: "tree_ok t" "fid_references t = fid_references s" "detached_roots t = detached_roots s"
    using assms by (simp_all add: grows_def)
  ultimately have "unreferenced t c \<Longrightarrow> unreferenced s c" for c
    by (auto simp: unreferenced_def)
  with t show ?thesis by (auto simp: tree_keeps_def no_garbage_def)
qed

lemma keeps_update_node:
  "tree_ok s \<Longrightarrow> (\<And>nd. fmlookup (nodes s) i = Some nd \<Longrightarrow> same_place f nd) \<Longrightarrow> tree_keeps s (update_node i f s)"
  by (auto simp: tree_keeps_def tree_ok_same_place child_def fun_eq_iff views_same_place intro: no_garbage_views)

text \<open>Sequencing: an operation that keeps the tree whatever it answers.\<close>

definition keeping :: "(front_state, 'a) fallible \<Rightarrow> bool" where
  "keeping m \<longleftrightarrow> (\<forall>s r t. tree_ok s \<longrightarrow> m s = (r, t) \<longrightarrow> tree_keeps s t)"

lemma keepingD: "keeping m \<Longrightarrow> tree_ok s \<Longrightarrow> m s = (r, t) \<Longrightarrow> tree_keeps s t"
  by (simp add: keeping_def)

lemma bind_s_cases:
  assumes "bind_s m f s = (r, t)"
  obtains e where "m s = (Inl e, t)" "r = Inl e" | x s' where "m s = (Inr x, s')" "f x s' = (r, t)"
  using assms by (cases "m s"; cases "fst (m s)") (auto simp: bind_s_def)

lemma keeping_bind: "keeping m \<Longrightarrow> (\<And>x. keeping (f x)) \<Longrightarrow> keeping (bind_s m f)"
  unfolding keeping_def
  by (blast elim: bind_s_cases intro: keeps_trans dest: keeps_ok)

lemma keeping_basic:
  "keeping (return_s x)" "keeping (throw_s e)" "keeping (lift_s r)" "keeping (read_s h)"
  by (simp_all add: keeping_def stateful_simps keeps_refl)

lemma keeping_modify: "(\<And>s. tree_ok s \<Longrightarrow> tree_keeps s (g s)) \<Longrightarrow> keeping (modify_s g)"
  by (auto simp: keeping_def stateful_simps)

lemma replace_qid_path_keeping: "keeping (replace_qid_path i q)"
  unfolding keeping_def
proof (intro allI impI)
  fix s r t
  assume ok: "tree_ok s" and run: "replace_qid_path i q s = (r, t)"
  show "tree_keeps s t"
  proof (cases "t = s")
    case False
    with run obtain nd where nd: "fmlookup (nodes s) i = Some nd" "node_qid_path nd \<noteq> q"
      and owner: "fmlookup (qid_index s) q \<in> {None, Some i}"
      and t: "t = update_node i (\<lambda>nd. nd\<lparr>node_qid_path := q\<rparr>)
         (s\<lparr>qid_index := fmupd q i (fmdrop (node_qid_path nd) (qid_index s))\<rparr>)"
      by (auto simp: replace_qid_path_def get_node_def ok_or_def split: if_splits option.splits)
    have "qpt s i = Some (node_qid_path nd)" using nd by (simp add: qpt_def)
    with owner nd tree_ok_index [OF ok, of q i] have free: "fmlookup (qid_index s) q = None" by auto
    have views: "par t = par s" "nam t = nam s" "kids t = kids s" "child t = child s"
      "\<And>j. qpt t j = (if j = i then Some q else qpt s j)"
      using nd(1) by (auto simp: t par_def nam_def kids_def child_def qpt_def fun_eq_iff fmlookup_update_node)
    have idx: "qid_index t = fmupd q i (fmdrop (node_qid_path nd) (qid_index s))"
      by (simp add: t)
    have index: "fmlookup (qid_index t) q' = Some j \<longleftrightarrow> qpt t j = Some q'" for q' j
    proof -
      have "qpt s j = Some (node_qid_path nd) \<longleftrightarrow> j = i"
        using \<open>qpt s i = _\<close> qpt_unique [OF ok] by blast
      moreover have "qpt s j \<noteq> Some q"
        using free tree_ok_index [OF ok, of q j] by auto
      ultimately show ?thesis
        using tree_ok_index [OF ok, of q' j] nd(2) unfolding idx views by auto
    qed
    have same: "grounded t = grounded s"
      using views(1) by (auto simp: fun_eq_iff intro: grounded_mono)
    have other: "detached_roots t = detached_roots s" "next_id t = next_id s"
      "fid_references t = fid_references s"
      by (simp_all add: t)
    have index_all: "\<forall>q i. fmlookup (qid_index t) q = Some i \<longleftrightarrow> qpt t i = Some q"
      using index by blast
    have "tree_ok t"
      unfolding tree_ok_def [of t] views(1-4) other same
      using ok [unfolded tree_ok_def] by (intro conjI index_all refl) (elim conjE, assumption)+
    with other views(4) show ?thesis by (auto simp: tree_keeps_def intro: no_garbage_views)
  qed (simp add: keeps_refl ok)
qed

lemma apply_pushed_metadata_keeping: "keeping (apply_pushed_metadata i m)"
  unfolding apply_pushed_metadata_def
  by (intro keeping_bind replace_qid_path_keeping keeping_modify keeps_update_node)
     (auto simp: same_place_def with_metadata_def)

lemma same_place_body:
  "\<not> is_Dir (node_body nd) \<Longrightarrow> \<not> is_Dir b \<Longrightarrow> same_place (\<lambda>nd. nd\<lparr>node_version := f nd, node_body := b\<rparr>) nd"
  "\<not> is_Dir (node_body nd) \<Longrightarrow> \<not> is_Dir b \<Longrightarrow> same_place (\<lambda>nd. nd\<lparr>node_body := b\<rparr>) nd"
  by (cases "node_body nd"; cases b; simp add: same_place_def)+

lemma merge_body_file:
  "merge_body capacity b b' = Some b'' \<Longrightarrow> \<not> is_Dir b \<and> \<not> is_Dir b' \<and> \<not> is_Dir b''"
  by (cases "(capacity, b, b')" rule: merge_body.cases) auto

lemma replace_body_keeping: "keeping (replace_body i b)"
  unfolding keeping_def
proof (intro allI impI)
  fix s r t
  assume ok: "tree_ok s" and run: "replace_body i b s = (r, t)"
  show "tree_keeps s t"
  proof (cases "fmlookup (nodes s) i")
    case (Some nd)
    show ?thesis
    proof (cases "merge_body (log_capacity s) (node_body nd) b")
      case (Some b')
      from run \<open>fmlookup (nodes s) i = Some nd\<close> Some
      have "t = update_node i (\<lambda>nd. nd\<lparr>node_version := node_version nd + 1, node_body := b'\<rparr>) s"
        by (simp add: replace_body_def)
      with merge_body_file [OF Some] \<open>fmlookup (nodes s) i = Some nd\<close> show ?thesis
        by (auto intro!: keeps_update_node [OF ok] same_place_body(1))
    qed (use run Some ok in \<open>simp add: replace_body_def keeps_refl\<close>)
  qed (use run ok in \<open>simp add: replace_body_def keeps_refl\<close>)
qed

lemma open_parent_keeping: "keeping (open_parent b path)"
  using open_parent_ok(1) grows_keeps by (auto simp: keeping_def)

text \<open>A fresh leaf under an opened parent.\<close>

lemma insert_after_open:
  assumes "tree_ok s" "open_parent b path s = (Inr (p, name, None), s')"
    "fmlookup (qid_index s') (node_qid_path nd) = None" "childless nd"
    "node_parent nd = p" "node_name nd = name" "insert_node nd s' = (r, t)"
  shows "grows s t" "r = Inr (next_id s')" "child t p name = Some (next_id s')"
    "\<not> is_Dir (node_body nd) \<Longrightarrow> fmlookup (nodes t) (next_id s') = Some nd"
proof -
  note p = open_parent_ok [OF assms(1,2)]
  from p(2) [OF refl] have "kids s' (node_parent nd) \<noteq> None" "child s' (node_parent nd) (node_name nd) = None"
    by (auto simp: assms(5,6))
  note i = insert_node_grows [OF grows_ok [OF p(1)] this assms(3,4,7)]
  show "grows s t" "r = Inr (next_id s')" "child t p name = Some (next_id s')"
    "\<not> is_Dir (node_body nd) \<Longrightarrow> fmlookup (nodes t) (next_id s') = Some nd"
    using i grows_trans [OF p(1) i(1)] by (simp_all add: assms(5,6))
qed

definition opened :: "nat \<Rightarrow> nat \<Rightarrow> bytes \<Rightarrow> front_state \<Rightarrow> bool" where
  "opened b p name s \<longleftrightarrow>
     tree_ok s \<and> kids s p \<noteq> None \<and> child s p name = None \<and> (b = ROOT_ID \<longrightarrow> attached s p)"

lemma keeping_open:
  assumes "\<And>p name i. keeping (g p name (Some i))"
    and "\<And>s p name r t. opened b p name s \<Longrightarrow> g p name None s = (r, t) \<Longrightarrow> tree_keeps s t"
  shows "keeping (bind_s (open_parent b path) (\<lambda>(p, name, existing). g p name existing))"
  unfolding keeping_def
proof (intro allI impI)
  fix s r t
  assume ok: "tree_ok s"
    and "bind_s (open_parent b path) (\<lambda>(p, name, existing). g p name existing) s = (r, t)"
  from this(2) show "tree_keeps s t"
  proof (cases rule: bind_s_cases)
    case 1
    then show ?thesis using keepingD [OF open_parent_keeping ok] by blast
  next
    case (2 x s')
    obtain p name existing where x: "x = (p, name, existing)" by (cases x)
    note o = open_parent_ok [OF ok 2(1)]
    note o2 = o(2) [unfolded x, OF refl]
    have "tree_keeps s' t"
    proof (cases existing)
      case (Some i)
      with 2(2) x show ?thesis
        using keepingD [OF assms(1) grows_ok [OF o(1)]] by simp
    next
      case None
      then have "opened b p name s'"
        using o2 grows_ok [OF o(1)] lookup_attached [of ROOT_ID _ s' p] by (auto simp: opened_def)
      with 2(2) x None show ?thesis using assms(2) by simp
    qed
    with grows_keeps [OF o(1)] show ?thesis by (rule keeps_trans)
  qed
qed

lemma insert_keeps:
  assumes "opened b p name s" "fmlookup (qid_index s) (node_qid_path nd) = None" "childless nd"
    "node_parent nd = p" "node_name nd = name" "insert_node nd s = (r, t)"
  shows "tree_keeps s t"
  using assms insert_node_grows(1) [of s nd r t] grows_keeps by (auto simp: opened_def)

lemma node_fields [simp]:
  "node_parent (plain_node name p q v g b) = p" "node_name (plain_node name p q v g b) = name"
  "node_qid_path (plain_node name p q v g b) = q" "node_body (plain_node name p q v g b) = b"
  "node_parent (pushed_node name p b m) = p" "node_name (pushed_node name p b m) = name"
  "node_qid_path (pushed_node name p b m) = meta_qid_path m" "node_body (pushed_node name p b m) = b"
  by (simp_all add: plain_node_def pushed_node_def with_metadata_def)

lemma childless_simps [simp]:
  "\<not> is_Dir b \<Longrightarrow> node_body nd = b \<Longrightarrow> childless nd"
  "node_body nd = Dir DirectoryBody_default \<Longrightarrow> childless nd"
  "node_body nd = Dir (DirectoryBody_default\<lparr>read_relay := x\<rparr>) \<Longrightarrow> childless nd"
  by (auto simp: childless_def DirectoryBody_default_def)

lemma place_keeping: "\<not> is_Dir b \<Longrightarrow> keeping (place path b)"
  unfolding place_def
proof (rule keeping_open)
  fix s p name r t
  assume b: "\<not> is_Dir b" and o: "opened ROOT_ID p name s"
    and run: "(case None of
        None \<Rightarrow> bind_s (read_s (\<lambda>s. next_available_qid_path (word_of_nat (next_id s)) s))
          (\<lambda>q. insert_node (plain_node name p q 0 0 b))
      | Some i \<Rightarrow> replace_body i b) s = (r, t)"
  show "tree_keeps s t"
    using run unfolding option.case
  proof (cases rule: bind_s_cases)
    case 1
    then show ?thesis using o by (simp add: stateful_simps opened_def keeps_refl)
  next
    case (2 q s')
    then show ?thesis
      using b by (intro insert_keeps [OF o]) (auto simp: stateful_simps next_available_qid_path_free)
  qed
qed (simp add: replace_body_keeping)

lemma is_file_or_write_relay_file: "is_file_or_write_relay b \<Longrightarrow> \<not> is_Dir b"
  by (cases b) (simp_all add: is_file_or_write_relay_def)

lemma refresh_file_keeps:
  assumes "tree_ok s" "kids s i = None" "refresh_file bs m i s = (r, t)"
  shows "tree_keeps s t"
  using assms(3) unfolding refresh_file_def
proof (cases rule: bind_s_cases)
  case 1
  then show ?thesis using keepingD [OF apply_pushed_metadata_keeping assms(1)] by blast
next
  case (2 x u)
  have u: "tree_keeps s u" by (rule keepingD [OF apply_pushed_metadata_keeping assms(1) 2(1)])
  have "kids u i = None"
    using 2(1) assms(2)
    by (auto simp: apply_pushed_metadata_def bind_s_def stateful_simps replace_qid_path_def get_node_def
        ok_or_def kids_def fmlookup_update_node with_metadata_def split: if_splits option.splits)
  then have "tree_keeps u (update_node i (\<lambda>nd. nd\<lparr>node_body := File bs\<rparr>) u)"
    using is_Dir_kids [of u i] by (intro keeps_update_node keeps_ok [OF u] same_place_body(2)) auto
  with 2(2) u show ?thesis
    by (auto simp: stateful_simps intro: keeps_trans)
qed

lemma place_pushed_keeping:
  assumes refresh: "\<And>s i r t (nd :: node). tree_ok s \<Longrightarrow> body_matches (node_body nd) \<Longrightarrow>
      (kids s i = None \<longleftrightarrow> \<not> is_Dir (node_body nd)) \<Longrightarrow> refresh i s = (r, t) \<Longrightarrow> tree_keeps s t"
    and fresh: "\<And>name p. node_parent (fresh name p) = p \<and> node_name (fresh name p) = name
      \<and> node_qid_path (fresh name p) = q \<and> childless (fresh name p)"
  shows "keeping (place_pushed path q body_matches refresh fresh)"
proof -
  have again: "tree_keeps s t" if "tree_ok s" "body_matches (node_body nd)"
    "kids s i = None \<longleftrightarrow> \<not> is_Dir (node_body nd)"
    "bind_s (refresh i) (\<lambda>_. return_s i) s = (r, t)" for s i r t and nd :: node
  proof -
    have "\<exists>r'. refresh i s = (r', t)"
      using that(4) by (cases rule: bind_s_cases) (auto simp: stateful_simps)
    then show ?thesis using refresh [OF that(1-3)] by blast
  qed
  show ?thesis
    unfolding place_pushed_def
  proof (rule keeping_open)
    fix p name i
    have "keeping (bind_s (read_s (get_node i)) (\<lambda>nd. if body_matches (node_body nd)
        then bind_s (refresh i) (\<lambda>_. return_s i) else throw_s (Error EPERM)))"
      unfolding keeping_def
    proof (intro allI impI)
      fix s r t
      assume ok: "tree_ok s" and "bind_s (read_s (get_node i)) (\<lambda>nd. if body_matches (node_body nd)
        then bind_s (refresh i) (\<lambda>_. return_s i) else throw_s (Error EPERM)) s = (r, t)"
      from this(2) show "tree_keeps s t"
      proof (cases rule: bind_s_cases)
        case (2 nd u)
        then have "fmlookup (nodes s) i = Some nd" "u = s"
          by (auto simp: stateful_simps get_node_def)
        with 2(2) again [OF ok, of nd i] is_Dir_kids [of s i nd] keeps_refl [OF ok] show ?thesis
          by (auto simp: stateful_simps split: if_splits)
      qed (use keeps_refl [OF ok] in \<open>simp add: stateful_simps\<close>)
    qed
    then show "keeping (case Some i of
        None \<Rightarrow> bind_s (reattach_detached_pushed_node path p name q body_matches)
          (case_option (insert_node (fresh name p)) (\<lambda>i. bind_s (refresh i) (\<lambda>_. return_s i)))
      | Some i \<Rightarrow> bind_s (read_s (get_node i)) (\<lambda>nd. if body_matches (node_body nd)
          then bind_s (refresh i) (\<lambda>_. return_s i) else throw_s (Error EPERM)))"
      by simp
  next
    fix s p name r t
    assume o: "opened ROOT_ID p name s"
    then have o': "tree_ok s" "attached s p" "kids s p \<noteq> None" "child s p name = None"
      by (auto simp: opened_def)
    assume "(case None of
        None \<Rightarrow> bind_s (reattach_detached_pushed_node path p name q body_matches)
          (case_option (insert_node (fresh name p)) (\<lambda>i. bind_s (refresh i) (\<lambda>_. return_s i)))
      | Some i \<Rightarrow> bind_s (read_s (get_node i)) (\<lambda>nd. if body_matches (node_body nd)
          then bind_s (refresh i) (\<lambda>_. return_s i) else throw_s (Error EPERM))) s = (r, t)"
    then show "tree_keeps s t"
      unfolding option.case
    proof (cases rule: bind_s_cases)
      case 1
      then show ?thesis using reattach_ok(1-3) [OF o'] by (simp add: tree_keeps_def)
    next
      case (2 x u)
      note re = reattach_ok [OF o' 2(1)]
      show ?thesis
      proof (cases x)
        case None
        with 2 re(4) fresh show ?thesis by (intro insert_keeps [OF o]) auto
      next
        case (Some i)
        with re(5) [of i] obtain nd :: node where nd: "body_matches (node_body nd)"
          "kids u i = None \<longleftrightarrow> \<not> is_Dir (node_body nd)" by auto
        from Some 2(2) have "tree_keeps u t" by (intro again [OF re(1) nd]) simp
        with re(1-3) show ?thesis by (simp add: tree_keeps_def)
      qed
    qed
  qed
qed

lemma place_pushed_file_keeping: "keeping (place_pushed_file path bs m)"
  unfolding place_pushed_file_def
  by (rule place_pushed_keeping)
     (use refresh_file_keeps is_file_or_write_relay_file in \<open>auto simp: childless_def\<close>)

lemma place_pushed_directory_keeping: "keeping (place_pushed_directory path m)"
proof -
  have "keeping (place_pushed path (meta_qid_path m) is_Dir (\<lambda>nid. apply_pushed_metadata nid m)
        (\<lambda>name parent. pushed_node name parent (Dir DirectoryBody_default) m))"
    by (rule place_pushed_keeping)
       (use keepingD [OF apply_pushed_metadata_keeping] in auto)
  then show ?thesis
    by (simp add: place_pushed_directory_def keeping_basic)
qed

lemma keeps_other:
  assumes "tree_ok s" "nodes t = nodes s" "qid_index t = qid_index s"
    "detached_roots t = detached_roots s" "next_id t = next_id s" "fid_references t = fid_references s"
  shows "tree_keeps s t"
proof -
  have "tree_ok t"
    using assms(1) by (subst tree_ok_cong [of t s]) (simp_all add: views_nodes [OF assms(2)] assms)
  then show ?thesis
    using assms views_nodes(5) [OF assms(2)] by (auto simp: tree_keeps_def intro: no_garbage_views)
qed

lemma keeping_read_bind:
  assumes "\<And>x s r t. tree_ok s \<Longrightarrow> h s = Inr x \<Longrightarrow> f x s = (r, t) \<Longrightarrow> tree_keeps s t"
  shows "keeping (bind_s (read_s h) f)"
  unfolding keeping_def
proof (intro allI impI)
  fix s r t
  assume ok: "tree_ok s" and "bind_s (read_s h) f s = (r, t)"
  from this(2) show "tree_keeps s t"
    by (cases rule: bind_s_cases) (use assms [OF ok] keeps_refl [OF ok] in \<open>auto simp: stateful_simps\<close>)
qed

lemma insert_node_keeps:
  assumes "tree_ok s" "child_of (node_parent nd) (node_name nd) s = Inr None"
    "fmlookup (qid_index s) (node_qid_path nd) = None" "childless nd" "insert_node nd s = (r, t)"
  shows "tree_keeps s t"
  using assms by (intro grows_keeps insert_node_grows(1) [of s nd]) (simp_all add: child_of_iff)

lemma note_remove_relay_keeps: "tree_ok s \<Longrightarrow> tree_keeps s (note_remove_relay relay s)"
  by (cases relay) (auto simp: note_remove_relay_def keeps_refl intro: keeps_other)

lemma insert_pushed_child_directory_keeping:
  "keeping (insert_pushed_child_directory p name m read_prefix removal)"
proof -
  let ?nd = "\<lambda>relay. (pushed_node name p (Dir (DirectoryBody_default\<lparr>read_relay := Some read_prefix\<rparr>)) m)
        \<lparr>remove_relay := relay\<rparr>"
  have some: "keeping (place_child_directory p name m read_prefix relay (Some i))" for relay i
  proof -
    have "tree_keeps s (note_remove_relay relay (update_node i
        (\<lambda>nd. if relay = None then nd else nd\<lparr>remove_relay := relay\<rparr>) s))" if "tree_ok s" for s
      using keeps_trans [OF keeps_update_node note_remove_relay_keeps [OF tree_ok_same_place]] that
      by (simp add: same_place_def)
    then show ?thesis
      unfolding place_child_directory_def option.case
      by (intro keeping_bind keeping_basic) (auto intro!: keeping_bind keeping_basic keeping_modify)
  qed
  have none: "tree_keeps s t" if ok: "tree_ok s" and free: "child_of p name s = Inr None"
    and run: "place_child_directory p name m read_prefix relay None s = (r, t)" for relay s r t
  proof -
    have ins: "tree_keeps s u" if "fmlookup (qid_index s) (meta_qid_path m) = None"
        "insert_node (?nd relay) s = (r', u)" for r' u
      using that free ok
      by (intro insert_node_keeps [of s "?nd relay"]) (auto simp: childless_def DirectoryBody_default_def)
    from run [unfolded place_child_directory_def option.case] show ?thesis
    proof (cases rule: bind_s_cases)
      case (2 _ s')
      then have q: "fmlookup (qid_index s) (meta_qid_path m) = None" "s' = s"
        by (auto simp: stateful_simps)
      from 2(2) [unfolded q(2)] show ?thesis
      proof (cases rule: bind_s_cases)
        case (2 nid u)
        note u = ins [OF q(1) 2(1)]
        with 2(2) note_remove_relay_keeps [OF keeps_ok [OF u]] show ?thesis
          by (auto simp: stateful_simps intro: keeps_trans)
      qed (use ins [OF q(1)] in blast)
    qed (use keeps_refl [OF ok] in \<open>simp add: stateful_simps\<close>)
  qed
  have "keeping (bind_s (read_s (child_of p name)) (place_child_directory p name m read_prefix relay))" for relay
  proof (rule keeping_read_bind)
    fix x s r t
    assume "tree_ok s" "child_of p name s = Inr x" "place_child_directory p name m read_prefix relay x s = (r, t)"
    then show "tree_keeps s t"
      using keepingD [OF some] none by (cases x) blast+
  qed
  then have "keeping (bind_s (read_s (child_directory_relay p name removal)) (\<lambda>relay.
      bind_s (read_s (child_of p name)) (place_child_directory p name m read_prefix relay)))"
    by (rule keeping_bind [OF keeping_basic(4)])
  then show ?thesis
    by (simp add: insert_pushed_child_directory_def keeping_basic)
qed

lemma insert_created_relay_node_keeping:
  "keeping (insert_created_relay_node parent_id name q gen create_prefix)"
  unfolding insert_created_relay_node_def Let_def
proof (rule keeping_open, goal_cases)
  case (1 p leaf i)
  let ?dir = "qtype q AND QTDIR \<noteq> 0"
  let ?f = "\<lambda>nd. let nd = nd\<lparr>node_version := qversion q, node_generation := gen\<rparr> in
      if ?dir then nd else nd\<lparr>write_relay := Some create_prefix, node_body := WriteRelay create_prefix\<rparr>"
  have "tree_keeps s (update_node i ?f s)"
    if "tree_ok s" "fmlookup (nodes s) i = Some nd" "?dir = is_Dir (node_body nd)" for s nd
    using that by (intro keeps_update_node) (cases "node_body nd"; auto simp: same_place_def Let_def)+
  then show ?case
    unfolding option.case Let_def
    apply (intro keeping_read_bind)
    apply (auto simp: bind_s_def stateful_simps ensure_def get_node_def keeps_refl split: if_splits)
    done
next
  case (2 s p leaf r t)
  from 2(2) show ?case
    unfolding option.case
  proof (cases rule: bind_s_cases)
    case 1
    then show ?thesis using 2(1) by (simp add: stateful_simps opened_def keeps_refl)
  next
    case (2 x s')
    then show ?thesis
      by (intro insert_keeps [OF \<open>opened _ _ _ _\<close>]) (auto simp: stateful_simps childless_def DirectoryBody_default_def)
  qed
qed

end
