(* ===== verification/R9P_Front_Retain.thy ===== *)
theory R9P_Front_Retain
  imports R9P_Front_Ops
begin

text \<open>
  Removing subtrees of a front: \<^verbatim>\<open>remove_subtree_if_exists\<close> and \<^verbatim>\<open>retain_subtree_paths\<close>, with the
  paths that resolve afterwards, and the climbing loops with the turns they need.
\<close>

section \<open>Paths in a well-formed tree\<close>

lemma edges_acyclic:
  assumes ok: "tree_ok s"
  shows "(i, i) \<notin> (edges s)\<^sup>+"
  using tree_ok_grounded [OF ok, of i]
proof induction
  case grounded_root
  have "(i, ROOT_ID) \<notin> edges s" for i
    using tree_ok_child(1) [OF ok] by (auto simp: edges_def)
  then show ?case by (metis tranclE)
next
  case (grounded_gone i)
  then show ?case using edges_existing [OF ok] by (metis option.distinct(1) tranclE)
next
  case (grounded_up i p)
  show ?case
  proof
    assume "(i, i) \<in> (edges s)\<^sup>+"
    then obtain q where "(i, q) \<in> (edges s)\<^sup>*" "(q, i) \<in> edges s"
      by (meson tranclD2)
    moreover from this(2) grounded_up.hyps have "q = p"
      using edges_existing [OF ok] by fastforce
    ultimately have "(p, p) \<in> (edges s)\<^sup>+" by (simp add: rtrancl_into_trancl2)
    with grounded_up.IH show False ..
  qed
qed

lemma lookup_reaches: "lookup_segments i segs s = Inr (Some j) \<Longrightarrow> (i, j) \<in> (edges s)\<^sup>*"
proof (induction segs arbitrary: i)
  case (Cons seg segs)
  then obtain c where "child s i seg = Some c" "(c, j) \<in> (edges s)\<^sup>*"
    by (auto simp: lookup_segments_child simp del: lookup_segments.simps(2))
  then show ?case
    by (auto simp: edges_def intro: converse_rtrancl_into_rtrancl)
qed simp

lemma reaches_lookup: "(i, j) \<in> (edges s)\<^sup>* \<Longrightarrow> \<exists>segs. lookup_segments i segs s = Inr (Some j)"
proof (induction rule: converse_rtrancl_induct)
  case base
  show ?case by (rule exI [of _ "[]"]) simp
next
  case (step i c)
  then obtain seg segs where "child s i seg = Some c" "lookup_segments c segs s = Inr (Some j)"
    by (auto simp: edges_def)
  then show ?case by (intro exI [of _ "seg # segs"]) (unfold lookup_segments_child, blast)
qed

lemma lookup_unique:
  assumes ok: "tree_ok s"
  shows "lookup_segments i xs s = Inr (Some j) \<Longrightarrow> lookup_segments i ys s = Inr (Some j) \<Longrightarrow> xs = ys"
proof (induction xs arbitrary: j ys rule: rev_induct)
  case Nil
  then have "lookup_segments i ys s = Inr (Some i)" by simp
  moreover have False if "ys = z # zs" for z zs
  proof -
    from that calculation obtain c where "child s i z = Some c" "lookup_segments c zs s = Inr (Some i)"
      by (auto simp: lookup_segments_child simp del: lookup_segments.simps(2))
    then have "(i, i) \<in> (edges s)\<^sup>+"
      using lookup_reaches by (auto simp: edges_def intro: rtrancl_into_trancl2)
    with edges_acyclic [OF ok] show False by blast
  qed
  ultimately show ?case by (cases ys) auto
next
  case (snoc x xs)
  from snoc.prems(1) obtain p where p: "lookup_segments i xs s = Inr (Some p)" "child s p x = Some j"
    by (auto simp: lookup_segments_append lookup_segments_child simp del: lookup_segments.simps(2))
  show ?case
  proof (cases ys rule: rev_cases)
    case Nil
    with snoc.prems(2) have "j = i" by simp
    with p lookup_reaches [OF p(1)] have "(i, i) \<in> (edges s)\<^sup>+"
      by (auto simp: edges_def intro: rtrancl_into_trancl1)
    with edges_acyclic [OF ok] show ?thesis by blast
  next
    case (snoc zs z)
    with snoc.prems(2) obtain q where q: "lookup_segments i zs s = Inr (Some q)" "child s q z = Some j"
      by (auto simp: lookup_segments_append lookup_segments_child simp del: lookup_segments.simps(2))
    have "q = p" "z = x"
      using tree_ok_child(3,4) [OF ok p(2)] tree_ok_child(3,4) [OF ok q(2)] by auto
    with snoc.IH [OF p(1), of zs] q(1) \<open>ys = zs @ [z]\<close> show ?thesis by simp
  qed
qed

lemma lookup_prefix:
  assumes "tree_ok s" "lookup_segments r xs s = Inr (Some i)" "(i, j) \<in> (edges s)\<^sup>*"
    "lookup_segments r ys s = Inr (Some j)"
  obtains zs where "ys = xs @ zs"
proof -
  obtain zs where "lookup_segments i zs s = Inr (Some j)" using reaches_lookup [OF assms(3)] by blast
  with assms(2) have "lookup_segments r (xs @ zs) s = Inr (Some j)"
    unfolding lookup_segments_append by blast
  then have "ys = xs @ zs" using lookup_unique [OF assms(1,4)] by blast
  with that show ?thesis .
qed

section \<open>Climbing\<close>

text \<open>The parent links as a relation; it is single-valued, so a climb is determined by its start.\<close>

definition links :: "front_state \<Rightarrow> (nat \<times> nat) set" where
  "links s = {(i, p). i \<noteq> ROOT_ID \<and> par s i = Some p}"

lemma finite_links: "finite (links s) \<and> card (links s) \<le> fcard (fmdom (nodes s))"
proof -
  have "fst ` links s \<subseteq> fset (fmdom (nodes s))"
    by (force simp: links_def par_iff intro: fmdomI)
  then have "finite (fst ` links s)" "card (fst ` links s) \<le> fcard (fmdom (nodes s))"
    using finite_subset [OF _ finite_fset] card_mono [OF finite_fset] by (auto simp: fcard.rep_eq)
  moreover have "inj_on fst (links s)"
    by (auto simp: inj_on_def links_def)
  ultimately show ?thesis by (simp add: finite_image_iff card_image)
qed

lemma climb_ends:
  assumes "tree_ok s"
  obtains k j where "k < fuel s" "(i, j) \<in> links s ^^ k" "j = ROOT_ID \<or> par s j = None"
proof -
  have "\<exists>j. (i, j) \<in> (links s)\<^sup>* \<and> (j = ROOT_ID \<or> par s j = None)"
    using tree_ok_grounded [OF assms, of i]
  proof induction
    case (grounded_up i p)
    then show ?case
      by (cases "i = ROOT_ID") (auto simp: links_def intro: converse_rtrancl_into_rtrancl)
  qed auto
  with rtrancl_bounded [of "links s" "fcard (fmdom (nodes s))" i] finite_links [of s] that
  show ?thesis by (auto simp: fuel_def)
qed

lemma path_segments_loop_ends:
  assumes "(i, j) \<in> links s ^^ k" "k < n" "j = ROOT_ID \<or> par s j = None"
  shows "path_segments_loop n i root segs s \<noteq> Inl out_of_fuel"
  using assms
proof (induction n arbitrary: i k segs)
  case (Suc n)
  have errors: "Error EPERM \<noteq> out_of_fuel" "Error ENOENT \<noteq> out_of_fuel"
    by (code_simp)+
  show ?case
  proof (cases k)
    case 0
    with Suc.prems show ?thesis
      by (auto simp: errors par_def get_node_def)
  next
    case (Suc m)
    with Suc.prems obtain p where p: "(i, p) \<in> links s" "(p, j) \<in> links s ^^ m"
      by (auto simp: relpow_Suc_iff simp del: relpow.simps)
    with Suc.IH [OF p(2)] Suc.prems \<open>k = Suc m\<close> show ?thesis
      by (auto simp: links_def par_iff get_node_def errors)
  qed
qed simp

text \<open>In a well-formed state the path of a node is always found or refused, never cut short by the
  bound on the climb.\<close>

lemma path_relative_to_ends:
  assumes "tree_ok s"
  shows "path_relative_to i root s \<noteq> Inl out_of_fuel"
proof -
  obtain k j where "k < fuel s" "(i, j) \<in> links s ^^ k" "j = ROOT_ID \<or> par s j = None"
    by (rule climb_ends [OF assms])
  then have "path_segments_loop (fuel s) i root [] s \<noteq> Inl out_of_fuel"
    by (intro path_segments_loop_ends)
  then show ?thesis
    by (cases "path_segments_loop (fuel s) i root [] s") (simp_all add: path_relative_to_def)
qed

section \<open>Retiring one subtree\<close>

lemma retire_elsewhere:
  assumes ok: "tree_ok s" and c: "child s p name = Some c" and x: "(c, x) \<notin> (edges s)\<^sup>*"
  defines "t \<equiv> retire_detached_subtree c (update_children p (fmdrop name) s)"
  shows "child t x nm = (if x = p \<and> nm = name then None else child s x nm)"
    and "kids t x = None \<longleftrightarrow> kids s x = None"
    and "x \<noteq> p \<Longrightarrow> fmlookup (nodes t) x = fmlookup (nodes s) x"
    and "edges t \<subseteq> edges s"
proof -
  let ?u = "update_children p (fmdrop name) s"
  have edges: "edges ?u \<subseteq> edges s"
    by (auto simp: edges_def front_simps split: if_splits)
  have "x \<notin> below ?u {c}"
    using x rtrancl_mono [OF edges] by (auto simp: below_def)
  then have views: "child t x nm = child ?u x nm" "kids t x = kids ?u x"
    "fmlookup (nodes t) x = fmlookup (nodes ?u) x"
    by (auto simp: t_def retire_detached_subtree_def remove_node_recursive_def remove_nodes_is_purge
        front_simps) (simp_all add: purge_def)
  have "edges t \<subseteq> edges ?u"
    by (auto simp: t_def retire_detached_subtree_def remove_node_recursive_def remove_nodes_is_purge
        edges_def front_simps split: if_splits)
  with edges show "edges t \<subseteq> edges s" by blast
  show "child t x nm = (if x = p \<and> nm = name then None else child s x nm)"
    "kids t x = None \<longleftrightarrow> kids s x = None"
    by (simp_all add: views front_simps)
  show "fmlookup (nodes t) x = fmlookup (nodes s) x" if "x \<noteq> p"
    using that by (simp add: views update_children_def fmlookup_update_node)
qed

lemma retire_attached:
  assumes ok: "tree_ok s" and c: "child s p name = Some c" and "attached s x" "(c, x) \<notin> (edges s)\<^sup>*"
  shows "attached (retire_detached_subtree c (update_children p (fmdrop name) s)) x"
  using assms(3,4) unfolding attached_def
proof (induction rule: rtrancl_induct)
  case (step y x)
  have y: "(c, y) \<notin> (edges s)\<^sup>*" using step(2,4) by (meson rtrancl_into_rtrancl)
  obtain nm where nm: "child s y nm = Some x" using step(2) by (auto simp: edges_def)
  with step(4) c have "\<not> (y = p \<and> nm = name)" by auto
  with nm retire_elsewhere(1) [OF ok c y, of nm]
  have "(y, x) \<in> edges (retire_detached_subtree c (update_children p (fmdrop name) s))"
    by (auto simp: edges_def)
  with step(3) [OF y] show ?case by (rule rtrancl_into_rtrancl)
qed simp

lemma not_below_sibling:
  assumes "tree_ok s" "child s p n1 = Some c1" "child s p n2 = Some c2"
    "(c1, q) \<in> (edges s)\<^sup>*" "(c2, q) \<in> (edges s)\<^sup>*"
  shows "n1 = n2" "c1 = c2"
proof -
  obtain xs ys where "lookup_segments c1 xs s = Inr (Some q)" "lookup_segments c2 ys s = Inr (Some q)"
    using reaches_lookup assms(4,5) by blast
  with assms(2,3) have "lookup_segments p (n1 # xs) s = Inr (Some q)" "lookup_segments p (n2 # ys) s = Inr (Some q)"
    unfolding lookup_segments_child by blast+
  then show "n1 = n2" using lookup_unique [OF assms(1)] by blast
  with assms(2,3) show "c1 = c2" by simp
qed

lemma not_below_child: "tree_ok s \<Longrightarrow> child s p name = Some c \<Longrightarrow> (c, p) \<notin> (edges s)\<^sup>*"
  using edges_acyclic [of s p] by (auto simp: edges_def intro: rtrancl_into_trancl2)

lemma remove_subtree_ok:
  assumes ok: "tree_ok s" and run: "remove_subtree_if_exists path s = (r, t)"
  shows "tree_keeps s t"
  using run unfolding remove_subtree_if_exists_def
proof (cases rule: bind_s_cases)
  case (2 found s')
  then have found: "lookup_optional_path path s = Inr found" "s' = s"
    by (auto simp: stateful_simps)
  show ?thesis
  proof (cases "\<exists>i nd. found = Some i \<and> i \<noteq> ROOT_ID \<and> fmlookup (nodes s) i = Some nd")
    case True
    then obtain i nd where i: "found = Some i" "i \<noteq> ROOT_ID" "fmlookup (nodes s) i = Some nd" by blast
    have "attached s i"
      using found(1) i(1) lookup_attached [of ROOT_ID _ s i]
      by (auto simp: lookup_optional_path_def Let_def and_then_Inr_iff split: if_splits)
    then obtain p name where p: "child s p name = Some i" "attached s p"
      using attached_cases [OF ok] i(2) by blast
    with tree_ok_child(3,4) [OF ok p(1)] i(3) have nd: "node_parent nd = p" "node_name nd = name"
      by (simp_all add: par_def nam_def)
    with 2(2) i found(2) have "t = retire_detached_subtree i (update_children p (fmdrop name) s)"
      by (auto simp: bind_s_def stateful_simps get_node_def)
    with retire_detached_subtree_ok [OF ok p(1)] p(2) show ?thesis by (simp add: tree_keeps_def)
  next
    case False
    with 2(2) found(2) have "t = s"
      by (auto simp: bind_s_def stateful_simps get_node_def split: option.splits if_splits)
    with ok show ?thesis by (simp add: keeps_refl)
  qed
qed (use ok in \<open>simp add: stateful_simps keeps_refl\<close>)

section \<open>Retiring what is stale\<close>

lemma fold_retire_ok:
  assumes "tree_ok s" "distinct xs"
    "\<And>q nm c. (q, nm, c) \<in> set xs \<Longrightarrow> child s q nm = Some c"
    "\<And>q nm c q' nm' c'. (q, nm, c) \<in> set xs \<Longrightarrow> (q', nm', c') \<in> set xs \<Longrightarrow> (c', q) \<notin> (edges s)\<^sup>*"
    "\<And>q nm c. (q, nm, c) \<in> set xs \<Longrightarrow> attached s q"
  shows "tree_keeps s (fold retire_stale xs s) \<and>
    (\<forall>x. (\<forall>q nm c. (q, nm, c) \<in> set xs \<longrightarrow> (c, x) \<notin> (edges s)\<^sup>*) \<longrightarrow>
      (\<forall>nm. child (fold retire_stale xs s) x nm =
        (if \<exists>c. (x, nm, c) \<in> set xs then None else child s x nm)))"
  using assms
proof (induction xs arbitrary: s)
  case (Cons y xs)
  obtain p name c where y: "y = (p, name, c)" by (cases y)
  have c: "child s p name = Some c" using Cons.prems(3) y by simp
  let ?t = "retire_detached_subtree c (update_children p (fmdrop name) s)"
  have step: "retire_stale y s = ?t" by (simp add: y retire_stale_def)
  have "attached s p" using Cons.prems(5) [of p name c] y by simp
  then have t: "tree_ok ?t" "tree_keeps s ?t"
    using retire_detached_subtree_ok [OF Cons.prems(1) c] by (simp_all add: tree_keeps_def)
  note here = retire_elsewhere [OF Cons.prems(1) c]
  have edges: "edges ?t \<subseteq> edges s"
    using here(4) not_below_child [OF Cons.prems(1) c] by blast
  have kept: "child ?t q nm = Some d" if "(q, nm, d) \<in> set xs" for q nm d
  proof -
    have "(c, q) \<notin> (edges s)\<^sup>*" "child s q nm = Some d"
      using Cons.prems(3,4) that y by (meson list.set_intros)+
    moreover have "\<not> (q = p \<and> nm = name)"
      using that Cons.prems(2) c y calculation(2) by auto
    ultimately show ?thesis using here(1) by simp
  qed
  have apart: "(c', q) \<notin> (edges ?t)\<^sup>*" if "(q, nm, d) \<in> set xs" "(q', nm', c') \<in> set xs" for q nm d q' nm' c'
    using Cons.prems(4) [of q nm d q' nm' c'] that rtrancl_mono [OF edges] by auto
  have att: "attached ?t q" if "(q, nm, d) \<in> set xs" for q nm d
    using retire_attached [OF Cons.prems(1) c] Cons.prems(4) [of q nm d p name c] Cons.prems(5) [of q nm d] that y
    by simp
  have IH: "tree_keeps ?t (fold retire_stale xs ?t)"
    "\<And>x nm. (\<forall>q nm c. (q, nm, c) \<in> set xs \<longrightarrow> (c, x) \<notin> (edges ?t)\<^sup>*) \<Longrightarrow>
      child (fold retire_stale xs ?t) x nm = (if \<exists>c. (x, nm, c) \<in> set xs then None else child ?t x nm)"
    using Cons.IH [OF t(1) _ kept apart att] Cons.prems(2) by auto
  have "child (fold retire_stale xs ?t) x nm = (if \<exists>d. (x, nm, d) \<in> set (y # xs) then None else child s x nm)"
    if x: "\<forall>q nm d. (q, nm, d) \<in> set (y # xs) \<longrightarrow> (d, x) \<notin> (edges s)\<^sup>*" for x nm
  proof -
    have "(c, x) \<notin> (edges s)\<^sup>*" using x y by auto
    note c_elsewhere = here(1) [OF this, of nm]
    have "\<forall>q nm d. (q, nm, d) \<in> set xs \<longrightarrow> (d, x) \<notin> (edges ?t)\<^sup>*"
      using x rtrancl_mono [OF edges] by (meson list.set_intros(2) subsetD)
    from IH(2) [OF this, of nm] have u: "child (fold retire_stale xs ?t) x nm =
      (if \<exists>d. (x, nm, d) \<in> set xs then None else child ?t x nm)" .
    show ?thesis
    proof (cases "x = p \<and> nm = name")
      case True
      with c_elsewhere u have "child (fold retire_stale xs ?t) x nm = None" by (simp split: if_splits)
      with True y show ?thesis by auto
    next
      case False
      with c_elsewhere u show ?thesis by (auto simp: y)
    qed
  qed
  moreover have "tree_keeps s (fold retire_stale xs ?t)"
    using IH(1) t(2) keeps_trans by blast
  ultimately show ?case by (simp add: step)
qed (simp add: keeps_refl)

lemma fm_items_iff [simp]: "(k, v) \<in> set (fm_items m) \<longleftrightarrow> fmlookup m k = Some v"
  by (force simp: fm_items_def fmlookup_dom_iff image_iff)

lemma distinct_fm_items: "distinct (map fst (fm_items m))"
  by (simp add: fm_items_def comp_def sorted_list_of_fset.rep_eq)

lemma traverse_Inr:
  "traverse f xs = Inr ys \<Longrightarrow> \<exists>g. (\<forall>x \<in> set xs. f x = Inr (g x)) \<and> ys = concat (map g xs)"
proof -
  assume "traverse f xs = Inr ys"
  then have "(\<forall>x \<in> set xs. f x = Inr (projr (f x))) \<and> ys = concat (map (\<lambda>x. projr (f x)) xs)"
    by (induction xs arbitrary: ys) (auto simp: and_then_Inr_iff)
  then show ?thesis by (intro exI [of _ "\<lambda>x. projr (f x)"])
qed

lemma distinct_concat_map:
  "distinct xs \<Longrightarrow> (\<And>x. x \<in> set xs \<Longrightarrow> distinct (g x)) \<Longrightarrow>
   (\<And>x y. x \<in> set xs \<Longrightarrow> y \<in> set xs \<Longrightarrow> x \<noteq> y \<Longrightarrow> set (g x) \<inter> set (g y) = {}) \<Longrightarrow>
   distinct (concat (map g xs))"
proof (induction xs)
  case (Cons x xs)
  then have "distinct (concat (map g xs))" by simp
  moreover have "set (g x) \<inter> set (g y) = {}" if "y \<in> set xs" for y
    using Cons.prems(1,3) that by fastforce
  ultimately show ?case using Cons.prems(2) by auto
qed simp

text \<open>The links between kept nodes, and the entries at which a kept directory has a child not kept.\<close>

definition kept_edges :: "nat fset \<Rightarrow> front_state \<Rightarrow> (nat \<times> nat) set" where
  "kept_edges kept s = {(p, c). (p, c) \<in> edges s \<and> c |\<in>| kept}"

definition stale_entries :: "nat \<Rightarrow> nat fset \<Rightarrow> front_state \<Rightarrow> (nat \<times> bytes \<times> nat) set" where
  "stale_entries r kept s = {(p, name, c). (r, p) \<in> (kept_edges kept s)\<^sup>* \<and> child s p name = Some c \<and> c |\<notin>| kept}"

lemma kept_edges_subset: "(kept_edges kept s)\<^sup>* \<subseteq> (edges s)\<^sup>*"
  by (rule rtrancl_mono) (auto simp: kept_edges_def)

lemma converse_rtrancl_iff: "(x, z) \<in> r\<^sup>* \<longleftrightarrow> z = x \<or> (\<exists>y. (x, y) \<in> r \<and> (y, z) \<in> r\<^sup>*)"
  by (auto elim: converse_rtranclE intro: converse_rtrancl_into_rtrancl)

lemma stale_iff:
  "z \<in> stale_entries p kept s \<longleftrightarrow> (\<exists>name c. child s p name = Some c \<and>
     z \<in> (if c |\<in>| kept then stale_entries c kept s else {(p, name, c)}))"
proof -
  let ?K = "kept_edges kept s"
  have "(p, q) \<in> ?K\<^sup>* \<longleftrightarrow> q = p \<or> (\<exists>name c. child s p name = Some c \<and> c |\<in>| kept \<and> (c, q) \<in> ?K\<^sup>*)" for q
    unfolding converse_rtrancl_iff [of p] by (auto simp: kept_edges_def edges_def)
  then have "z \<in> stale_entries p kept s \<longleftrightarrow> (\<exists>name c. z = (p, name, c) \<and> child s p name = Some c \<and> c |\<notin>| kept) \<or>
      (\<exists>name c. child s p name = Some c \<and> c |\<in>| kept \<and> z \<in> stale_entries c kept s)"
    by (cases z) (auto simp: stale_entries_def)
  then show ?thesis by (auto split: if_splits)
qed

lemma get_node_Inr: "get_node i s = Inr nd \<longleftrightarrow> fmlookup (nodes s) i = Some nd"
  by (simp add: get_node_def)

lemma stale_leaf: "kids s p = None \<Longrightarrow> stale_entries p kept s = {}"
  by (auto simp: set_eq_iff stale_iff [of _ p] child_def)

lemma collect_stale_loop_spec:
  assumes ok: "tree_ok s"
  shows "collect_stale_loop n p kept s = Inr xs \<Longrightarrow> set xs = stale_entries p kept s \<and> distinct xs"
proof (induction n arbitrary: p xs)
  case (Suc n)
  let ?f = "\<lambda>(name, c). if c |\<in>| kept then and_then (get_node c s) (\<lambda>nd.
    if is_Dir (node_body nd) then collect_stale_loop n c kept s else Inr []) else Inr [(p, name, c)]"
  from Suc.prems obtain nd where nd: "fmlookup (nodes s) p = Some nd"
    "(case node_body nd of Dir d \<Rightarrow> traverse ?f (fm_items (children d)) | _ \<Rightarrow> Inl (Error ENOTDIR)) = Inr xs"
    by (auto simp: and_then_Inr_iff get_node_Inr)
  from nd(2) obtain d where d: "node_body nd = Dir d"
    and run: "traverse ?f (fm_items (children d)) = Inr xs"
    by (cases "node_body nd") simp_all
  from nd(1) d have "kids s p = Some (children d)" by (simp add: kids_def)
  then have items: "(name, c) \<in> set (fm_items (children d)) \<longleftrightarrow> child s p name = Some c" for name c
    by (simp add: child_def)
  obtain g where g: "\<And>x. x \<in> set (fm_items (children d)) \<Longrightarrow> ?f x = Inr (g x)"
    and xs: "xs = concat (map g (fm_items (children d)))"
    using traverse_Inr [OF run] by blast
  have part: "set (g (name, c)) = (if c |\<in>| kept then stale_entries c kept s else {(p, name, c)}) \<and> distinct (g (name, c))"
    if "child s p name = Some c" for name c
  proof -
    have run: "?f (name, c) = Inr (g (name, c))" using g items that by blast
    show ?thesis
    proof (cases "c |\<in>| kept")
      case True
      with run obtain nd where nd: "get_node c s = Inr nd"
        "(if is_Dir (node_body nd) then collect_stale_loop n c kept s else Inr []) = Inr (g (name, c))"
        by (auto simp: and_then_Inr_iff)
      show ?thesis
      proof (cases "is_Dir (node_body nd)")
        case True
        with nd Suc.IH \<open>c |\<in>| kept\<close> show ?thesis by auto
      next
        case False
        with nd(1) have "kids s c = None" by (auto simp: get_node_Inr is_Dir_kids)
        with False nd(2) \<open>c |\<in>| kept\<close> show ?thesis by (simp add: stale_leaf)
      qed
    next
      case False
      with run have "g (name, c) = [(p, name, c)]" by simp
      with False show ?thesis by simp
    qed
  qed
  have "z \<in> set xs \<longleftrightarrow> (\<exists>x \<in> set (fm_items (children d)). z \<in> set (g x))" for z
    by (auto simp: xs)
  then have "z \<in> set xs \<longleftrightarrow> (\<exists>name c. child s p name = Some c \<and> z \<in> set (g (name, c)))" for z
    unfolding Bex_def split_paired_Ex items .
  then have "z \<in> set xs \<longleftrightarrow> (\<exists>name c. child s p name = Some c \<and>
      z \<in> (if c |\<in>| kept then stale_entries c kept s else {(p, name, c)}))" for z
    using part by metis
  then have "set xs = stale_entries p kept s"
    unfolding set_eq_iff stale_iff by blast
  moreover have "distinct xs" unfolding xs
  proof (rule distinct_concat_map)
    show "distinct (fm_items (children d))" using distinct_fm_items distinct_map by blast
    show "distinct (g x)" if "x \<in> set (fm_items (children d))" for x
      using that part items by (metis surj_pair)
    show "set (g x) \<inter> set (g y) = {}"
      if xy: "x \<in> set (fm_items (children d))" "y \<in> set (fm_items (children d))" "x \<noteq> y" for x y
    proof -
      obtain n1 c1 n2 c2 where eqs: "x = (n1, c1)" "y = (n2, c2)" by (cases x, cases y)
      with xy items have cs: "child s p n1 = Some c1" "child s p n2 = Some c2" by auto
      with xy(3) eqs have "n1 \<noteq> n2" by auto
      then have "c1 \<noteq> c2" using not_below_sibling [OF ok cs] by blast
      have below: "(c, q) \<in> (edges s)\<^sup>*" if "(q, nm, e) \<in> stale_entries c kept s" for c q nm e
        using that kept_edges_subset by (auto simp: stale_entries_def)
      have "(q, nm, e) \<notin> set (g x) \<or> (q, nm, e) \<notin> set (g y)" for q nm e
        using part [OF cs(1)] part [OF cs(2)] below [of q nm e c1] below [of q nm e c2]
          not_below_sibling(2) [OF ok cs, of q] not_below_child [OF ok cs(1)] not_below_child [OF ok cs(2)]
          \<open>c1 \<noteq> c2\<close> by (auto simp: eqs split: if_splits)
      then show ?thesis by auto
    qed
  qed
  ultimately show ?case ..
qed simp

section \<open>What is kept\<close>

lemma edges_antisym:
  "tree_ok s \<Longrightarrow> (x, y) \<in> (edges s)\<^sup>* \<Longrightarrow> (y, x) \<in> (edges s)\<^sup>* \<Longrightarrow> x = y"
  using edges_acyclic [of s x] by (metis rtranclD trancl_rtrancl_trancl)

lemma reaches_child:
  "tree_ok s \<Longrightarrow> child s p name = Some c \<Longrightarrow> (x, c) \<in> (edges s)\<^sup>* \<longleftrightarrow> x = c \<or> (x, p) \<in> (edges s)\<^sup>*"
proof
  assume ok: "tree_ok s" and c: "child s p name = Some c" and "(x, c) \<in> (edges s)\<^sup>*"
  then consider "x = c" | q where "(x, q) \<in> (edges s)\<^sup>*" "(q, c) \<in> edges s" by (meson rtranclE)
  then show "x = c \<or> (x, p) \<in> (edges s)\<^sup>*"
    by cases (use edges_existing [OF ok] tree_ok_child(3) [OF ok c] in force)+
qed (auto simp: edges_def intro: rtrancl_into_rtrancl)

lemma keep_ancestors_spec:
  assumes ok: "tree_ok s"
  shows "attached s i \<Longrightarrow> keep_ancestors n i r kept s = Inr kept' \<Longrightarrow>
    (r, i) \<in> (edges s)\<^sup>* \<and> fset kept' = fset kept \<union> {x. (r, x) \<in> (edges s)\<^sup>* \<and> (x, i) \<in> (edges s)\<^sup>*}"
proof (induction n arbitrary: i kept)
  case (Suc n)
  show ?case
  proof (cases "i = r")
    case True
    with Suc.prems(2) edges_antisym [OF ok] show ?thesis by (auto simp: Let_def)
  next
    case False
    with Suc.prems(2) obtain nd where nd: "fmlookup (nodes s) i = Some nd" "node_parent nd \<noteq> i"
      "keep_ancestors n (node_parent nd) r (finsert i kept) s = Inr kept'"
      by (auto simp: Let_def and_then_Inr_iff get_node_Inr split: if_splits)
    then have par: "par s i = Some (node_parent nd)" by (simp add: par_def)
    with nd(2) tree_ok_root(2) [OF ok] have "i \<noteq> ROOT_ID" by auto
    with attached_cases [OF ok Suc.prems(1)] obtain p name
      where p: "attached s p" "child s p name = Some i" by blast
    with par tree_ok_child(3) [OF ok p(2)] have "node_parent nd = p" by simp
    with Suc.IH [OF p(1)] nd(3) reaches_child [OF ok p(2)] show ?thesis by auto
  qed
qed simp

text \<open>The segments a path is looked up by, after the slashes around it are trimmed.\<close>

definition segments_of :: "bytes \<Rightarrow> bytes list" where
  "segments_of path = (let trimmed = trim_slashes path in if trimmed = [] then [] else split_on SLASH trimmed)"

lemma trim_slashes_idem [simp]: "trim_slashes (trim_slashes path) = trim_slashes path"
proof -
  have hd_trim: "trim_slashes path = [] \<or> hd (trim_slashes path) \<noteq> SLASH \<and> last (trim_slashes path) \<noteq> SLASH" for path
  proof (cases "dropWhile (\<lambda>b. b = SLASH) path")
    case (Cons b bs)
    then have b: "b \<noteq> SLASH" using hd_dropWhile [of "\<lambda>b. b = SLASH" path] by simp
    have "dropWhile (\<lambda>b. b = SLASH) (rev bs @ [b]) =
        dropWhile (\<lambda>b. b = SLASH) (rev bs) @ [b]"
      using b by (simp add: dropWhile_append)
    then have eq: "trim_slashes path = b # rev (dropWhile (\<lambda>b. b = SLASH) (rev bs))"
      by (simp add: trim_slashes_def Cons)
    show ?thesis
    proof (cases "dropWhile (\<lambda>b. b = SLASH) (rev bs)")
      case (Cons y ys)
      then have "y \<noteq> SLASH" using hd_dropWhile [of "\<lambda>b. b = SLASH" "rev bs"] by simp
      with b eq Cons show ?thesis by simp
    qed (use b eq in simp)
  next
    case Nil
    then show ?thesis by (simp only: trim_slashes_def) simp
  qed
  have same: "xs = [] \<or> hd xs \<noteq> SLASH \<and> last xs \<noteq> SLASH \<Longrightarrow> trim_slashes xs = xs" for xs
  proof -
    assume "xs = [] \<or> hd xs \<noteq> SLASH \<and> last xs \<noteq> SLASH"
    then have "dropWhile (\<lambda>b. b = SLASH) xs = xs" "dropWhile (\<lambda>b. b = SLASH) (rev xs) = rev xs"
      by (auto simp: dropWhile_eq_self_iff hd_rev)
    then show "trim_slashes xs = xs" by (simp add: trim_slashes_def)
  qed
  show ?thesis by (rule same [OF hd_trim])
qed

lemma trim_slash [simp]: "trim_slashes [SLASH] = []"
  by (simp add: trim_slashes_def)

lemma canonical_root_path_eq:
  "canonical_root_path path = Inr (if trim_slashes path = [] then [SLASH] else trim_slashes path)"
  by (simp add: canonical_root_path_def split_path_def Let_def)

lemma canonical_segments:
  assumes "canonical_root_path path = Inr canonical"
  shows "canonical_path_segments canonical = Inr (segments_of path)"
    "lookup_path canonical s = lookup_path path s"
  using assms
  by (auto simp: canonical_root_path_eq canonical_path_segments_def split_path_def segments_of_def Let_def
      lookup_path_def lookup_optional_path_def split: if_splits)

lemma lookup_path_segments: "lookup_path path s = Inr i \<longleftrightarrow> lookup_segments ROOT_ID (segments_of path) s = Inr (Some i)"
  by (auto simp: lookup_path_def lookup_optional_path_def split_path_def segments_of_def Let_def and_then_Inr_iff)

definition names_below :: "nat \<Rightarrow> bytes list \<Rightarrow> front_state \<Rightarrow> nat set" where
  "names_below r paths s = {x. (r, x) \<in> (edges s)\<^sup>* \<and>
     (\<exists>path \<in> set paths. \<exists>i. lookup_path path s = Inr i \<and> (x, i) \<in> (edges s)\<^sup>*)}"

lemma keep_paths_spec:
  assumes ok: "tree_ok s"
  shows "keep_paths segs r paths kept s = Inr kept' \<Longrightarrow>
    fset kept' = fset kept \<union> names_below r paths s \<and>
    (\<forall>path \<in> set paths. take (length segs) (segments_of path) = segs \<and> (\<exists>i. lookup_path path s = Inr i))"
proof (induction paths arbitrary: kept)
  case (Cons path paths)
  from Cons.prems obtain mid canonical i where run: "canonical_root_path path = Inr canonical"
    "lookup_path canonical s = Inr i" "take (length segs) (segments_of path) = segs"
    "keep_ancestors (fuel s) i r kept s = Inr mid" "keep_paths segs r paths mid s = Inr kept'"
    by (auto simp: keep_path_def and_then_Inr_iff canonical_segments ensure_def split: if_splits)
  have i: "lookup_path path s = Inr i" using canonical_segments(2) [OF run(1)] run(2) by simp
  then have "attached s i" by (auto simp: lookup_path_segments intro: lookup_attached)
  from keep_ancestors_spec [OF ok this run(4)] Cons.IH [OF run(5)] i run(3) show ?case
    by (auto simp: names_below_def)
qed (simp add: names_below_def)

section \<open>The paths a retained subtree has\<close>

lemma kept_reach_not_below_stale:
  assumes ok: "tree_ok s" and x: "(r, x) \<in> (kept_edges kept s)\<^sup>*" and r: "r |\<in>| kept"
    and stale: "(q, nm, c) \<in> stale_entries r kept s"
  shows "(c, x) \<notin> (edges s)\<^sup>*"
proof
  assume "(c, x) \<in> (edges s)\<^sup>*"
  moreover from stale have c: "(r, q) \<in> (kept_edges kept s)\<^sup>*" "child s q nm = Some c" "c |\<notin>| kept"
    by (auto simp: stale_entries_def)
  then have "(r, c) \<in> (edges s)\<^sup>*" "r \<noteq> c"
    using kept_edges_subset r by (auto simp: edges_def intro: rtrancl_into_rtrancl)
  ultimately show False using x
  proof (induction rule: rtrancl_induct [OF x, consumes 0])
    case 1
    then show ?case using edges_antisym [OF ok] by blast
  next
    case (2 y z)
    from 2(2) obtain name where z: "child s y name = Some z" "z |\<in>| kept"
      by (auto simp: kept_edges_def edges_def)
    with c(3) have "c \<noteq> z" by auto
    with reaches_child [OF ok z(1)] 2(4) have "(c, y) \<in> (edges s)\<^sup>*" by blast
    with 2(1,3,5,6) show ?case by blast
  qed
qed

lemma lookup_snoc:
  "lookup_segments i (segs @ [nm]) s = Inr (Some c) \<longleftrightarrow>
   (\<exists>y. lookup_segments i segs s = Inr (Some y) \<and> child s y nm = Some c)"
  by (simp add: lookup_segments_append lookup_segments_child del: lookup_segments.simps(2))

text \<open>The state after the stale subtrees below a directory are retired.\<close>

definition stale_retired :: "nat \<Rightarrow> nat fset \<Rightarrow> front_state \<Rightarrow> front_state \<Rightarrow> bool" where
  "stale_retired r kept s u \<longleftrightarrow> tree_keeps s u \<and>
     (\<forall>x nm. (r, x) \<in> (kept_edges kept s)\<^sup>* \<longrightarrow>
       child u x nm = (case child s x nm of Some c \<Rightarrow> if c |\<in>| kept then Some c else None | None \<Rightarrow> None)) \<and>
     (\<forall>x nm. (r, x) \<notin> (edges s)\<^sup>* \<longrightarrow> child u x nm = child s x nm)"

lemma retire_all:
  assumes ok: "tree_ok s" and r: "r |\<in>| kept" "attached s r" and run: "collect_stale_loop n r kept s = Inr xs"
  shows "stale_retired r kept s (fold retire_stale xs s)"
proof -
  have xs: "set xs = stale_entries r kept s" "distinct xs"
    using collect_stale_loop_spec [OF ok run] by blast+
  have entry: "(r, q) \<in> (kept_edges kept s)\<^sup>*" "child s q nm = Some c" "c |\<notin>| kept" "(r, c) \<in> (edges s)\<^sup>*"
    if "(q, nm, c) \<in> stale_entries r kept s" for q nm c
    using that kept_edges_subset by (auto simp: stale_entries_def edges_def intro: rtrancl_into_rtrancl)
  let ?u = "fold retire_stale xs s"
  have held: "child s q nm = Some c" if "(q, nm, c) \<in> set xs" for q nm c
    using that entry(2) unfolding xs(1) by blast
  have apart: "(c', q) \<notin> (edges s)\<^sup>*" if "(q, nm, c) \<in> set xs" "(q', nm', c') \<in> set xs" for q nm c q' nm' c'
    using that kept_reach_not_below_stale [OF ok entry(1) r(1)] unfolding xs(1) by blast
  have under: "attached s q" if "(q, nm, c) \<in> set xs" for q nm c
    using entry(1) [of q nm c] that r(2) kept_edges_subset unfolding xs(1) attached_def by (meson rtrancl_trans subsetD)
  have "tree_keeps s ?u \<and> (\<forall>x. (\<forall>q nm c. (q, nm, c) \<in> set xs \<longrightarrow> (c, x) \<notin> (edges s)\<^sup>*) \<longrightarrow>
      (\<forall>nm. child ?u x nm = (if \<exists>c. (x, nm, c) \<in> set xs then None else child s x nm)))"
    by (rule fold_retire_ok [OF ok xs(2)]) (use held apart under in blast)+
  then have u: "tree_keeps s ?u"
    "\<And>x nm. \<forall>q nm c. (q, nm, c) \<in> set xs \<longrightarrow> (c, x) \<notin> (edges s)\<^sup>* \<Longrightarrow>
       child ?u x nm = (if \<exists>c. (x, nm, c) \<in> set xs then None else child s x nm)"
    by blast+
  have "child ?u x nm = (case child s x nm of Some c \<Rightarrow> if c |\<in>| kept then Some c else None | None \<Rightarrow> None)"
    if x: "(r, x) \<in> (kept_edges kept s)\<^sup>*" for x nm
  proof -
    have "(\<exists>c. (x, nm, c) \<in> set xs) \<longleftrightarrow> (\<exists>c. child s x nm = Some c \<and> c |\<notin>| kept)"
      using x by (auto simp: xs stale_entries_def)
    moreover have "\<forall>q nm c. (q, nm, c) \<in> set xs \<longrightarrow> (c, x) \<notin> (edges s)\<^sup>*"
      using kept_reach_not_below_stale [OF ok x r(1)] by (simp add: xs)
    ultimately show ?thesis
      using u(2) [of x nm] by (cases "child s x nm") auto
  qed
  moreover have "child ?u x nm = child s x nm" if x: "(r, x) \<notin> (edges s)\<^sup>*" for x nm
  proof -
    have "\<not> (\<exists>c. (x, nm, c) \<in> set xs)"
      using x entry(1) kept_edges_subset unfolding xs by blast
    moreover have "(c, x) \<notin> (edges s)\<^sup>*" if "(q, nm, c) \<in> set xs" for q nm c
      using x entry(4) that unfolding xs by (meson rtrancl_trans)
    ultimately show ?thesis using u(2) [of x nm] by auto
  qed
  ultimately show ?thesis using u(1) by (simp add: stale_retired_def)
qed

lemma retired_below:
  assumes ok: "tree_ok s" and t: "stale_retired r kept s u"
  shows "lookup_segments r segs u = Inr (Some i) \<longleftrightarrow>
    lookup_segments r segs s = Inr (Some i) \<and> (r, i) \<in> (kept_edges kept s)\<^sup>*"
proof (induction segs arbitrary: i rule: rev_induct)
  case (snoc nm segs)
  have child: "child u y nm = Some i \<longleftrightarrow> child s y nm = Some i \<and> i |\<in>| kept"
    if "(r, y) \<in> (kept_edges kept s)\<^sup>*" for y
    using t that by (auto simp: stale_retired_def split: option.splits if_splits)
  have up: "(r, y) \<in> (kept_edges kept s)\<^sup>* \<and> i |\<in>| kept"
    if y: "lookup_segments r segs s = Inr (Some y)" "child s y nm = Some i" and i: "(r, i) \<in> (kept_edges kept s)\<^sup>*" for y
  proof -
    have "r \<noteq> i" using lookup_reaches [OF y(1)] not_below_child [OF ok y(2)] by auto
    with i obtain q where "(r, q) \<in> (kept_edges kept s)\<^sup>*" "(q, i) \<in> kept_edges kept s"
      by (meson rtranclE)
    moreover from this have "q = y"
      using edges_existing [OF ok, of q i] tree_ok_child(3) [OF ok y(2)] by (auto simp: kept_edges_def)
    ultimately show ?thesis by (auto simp: kept_edges_def)
  qed
  have down: "(r, i) \<in> (kept_edges kept s)\<^sup>*"
    if "(r, y) \<in> (kept_edges kept s)\<^sup>*" "child s y nm = Some i" "i |\<in>| kept" for y
    using that by (auto simp: kept_edges_def edges_def intro: rtrancl_into_rtrancl)
  show ?case
    unfolding lookup_snoc snoc.IH using child up down by blast
qed auto

lemma retired_outside:
  assumes ok: "tree_ok s" and t: "stale_retired r kept s u" and rs: "lookup_segments ROOT_ID rs s = Inr (Some r)"
  shows "\<nexists>zs. segs = rs @ zs \<Longrightarrow> 
      lookup_segments ROOT_ID segs u = Inr (Some i) \<longleftrightarrow> lookup_segments ROOT_ID segs s = Inr (Some i)"
proof (induction segs arbitrary: i rule: rev_induct)
  case (snoc nm segs)
  then have "\<nexists>zs. segs = rs @ zs" by (metis append_assoc)
  note IH = snoc.IH [OF this]
  have "child u y nm = child s y nm" if "lookup_segments ROOT_ID segs s = Inr (Some y)" for y
  proof -
    have "(r, y) \<notin> (edges s)\<^sup>*" using \<open>\<nexists>zs. segs = rs @ zs\<close> lookup_prefix [OF ok rs _ that] by metis
    with t show ?thesis by (simp add: stale_retired_def)
  qed
  then show ?case
    unfolding lookup_snoc using IH by auto
qed simp

lemma kept_closed:
  assumes ok: "tree_ok s" and kept: "fset kept = {r} \<union> names_below r paths s" and i: "(r, i) \<in> (edges s)\<^sup>*"
  shows "(r, i) \<in> (kept_edges kept s)\<^sup>* \<longleftrightarrow> i |\<in>| kept"
proof
  assume "i |\<in>| kept"
  with i show "(r, i) \<in> (kept_edges kept s)\<^sup>*"
  proof (induction rule: rtrancl_induct)
    case (step y z)
    have "z \<noteq> r"
      using step.hyps edges_acyclic [OF ok, of r] by (meson rtrancl_into_trancl1)
    then have "y |\<in>| kept"
      using step.hyps step.prems unfolding kept names_below_def
      by (auto intro: converse_rtrancl_into_rtrancl)
    with step show ?case
      by (auto simp: kept_edges_def intro: rtrancl_into_rtrancl)
  qed simp
next
  assume "(r, i) \<in> (kept_edges kept s)\<^sup>*"
  then show "i |\<in>| kept"
    by (cases rule: rtranclE) (auto simp: kept_edges_def kept)
qed

lemma retained_root:
  assumes ok: "tree_ok s" and t: "stale_retired r kept s u" and rs: "lookup_segments ROOT_ID rs s = Inr (Some r)"
  shows "lookup_segments ROOT_ID rs u = Inr (Some r)"
proof (cases rs rule: rev_cases)
  case (snoc segs nm)
  with rs obtain y where y: "lookup_segments ROOT_ID segs s = Inr (Some y)" "child s y nm = Some r"
    by (auto simp: lookup_snoc)
  have "lookup_segments ROOT_ID segs u = Inr (Some y)"
    using retired_outside [OF ok t rs, of segs y] y(1) snoc by auto
  moreover have "child u y nm = Some r"
    using t y(2) not_below_child [OF ok y(2)] by (simp add: stale_retired_def)
  ultimately show ?thesis by (auto simp: snoc lookup_snoc)
qed (use rs in simp)

lemma lookup_nodes_cong:
  assumes "nodes t = nodes s"
  shows "lookup_segments i segs t = lookup_segments i segs s"
  using assms by (induction segs arbitrary: i) (simp_all add: child_of_def get_node_def)

lemma stale_below_spec:
  assumes ok: "tree_ok s" and run: "stale_below root_path paths s = Inr xs"
  shows "\<exists>r kept. lookup_segments ROOT_ID (segments_of root_path) s = Inr (Some r) \<and>
    fset kept = {r} \<union> names_below r paths s \<and>
    (\<forall>path \<in> set paths. take (length (segments_of root_path)) (segments_of path) = segments_of root_path \<and>
      (\<exists>i. lookup_path path s = Inr i)) \<and>
    stale_retired r kept s (fold retire_stale xs s)"
proof -
  from run obtain canonical r kept where run: "canonical_root_path root_path = Inr canonical"
    "lookup_path canonical s = Inr r" "keep_paths (segments_of root_path) r paths {|r|} s = Inr kept"
    "collect_stale_subtrees r kept s = Inr xs"
    by (auto simp: stale_below_def and_then_Inr_iff canonical_segments)
  have r: "lookup_path root_path s = Inr r" using canonical_segments(2) [OF run(1)] run(2) by simp
  note kept = keep_paths_spec [OF ok run(3)]
  have "r |\<in>| kept" using kept by auto
  moreover have "attached s r" using r by (auto simp: lookup_path_segments intro: lookup_attached)
  ultimately have "stale_retired r kept s (fold retire_stale xs s)"
    using retire_all [OF ok] run(4) by (simp add: collect_stale_subtrees_def)
  with r kept show ?thesis
    by (intro exI [of _ r] exI [of _ kept]) (simp add: lookup_path_segments)
qed

lemma retained_below:
  assumes ok: "tree_ok s" and r: "lookup_segments ROOT_ID rs s = Inr (Some r)"
    and kept: "fset kept = {r} \<union> names_below r paths s"
      "\<forall>path \<in> set paths. take (length rs) (segments_of path) = rs \<and> (\<exists>i. lookup_path path s = Inr i)"
    and stale_retired: "stale_retired r kept s u"
  shows "lookup_segments ROOT_ID (rs @ segs) u = Inr (Some i) \<longleftrightarrow>
    lookup_segments ROOT_ID (rs @ segs) s = Inr (Some i) \<and>
    (segs = [] \<or> (\<exists>path \<in> set paths. \<exists>more. segments_of path = rs @ segs @ more))"
proof -
  have at: "lookup_segments ROOT_ID (rs @ segs) s = Inr (Some i) \<longleftrightarrow> lookup_segments r segs s = Inr (Some i)"
    "lookup_segments ROOT_ID (rs @ segs) u = Inr (Some i) \<longleftrightarrow> lookup_segments r segs u = Inr (Some i)"
    using r retained_root [OF ok stale_retired r] by (simp_all add: lookup_segments_append)
  have "i |\<in>| kept \<longleftrightarrow> segs = [] \<or> (\<exists>path \<in> set paths. \<exists>more. segments_of path = rs @ segs @ more)"
    if i: "lookup_segments r segs s = Inr (Some i)"
  proof
    assume "i |\<in>| kept"
    then consider "i = r" | path j where "path \<in> set paths" "lookup_path path s = Inr j" "(i, j) \<in> (edges s)\<^sup>*"
      by (auto simp: kept(1) names_below_def)
    then show "segs = [] \<or> (\<exists>path \<in> set paths. \<exists>more. segments_of path = rs @ segs @ more)"
    proof cases
      case 1
      with i lookup_unique [OF ok i, of "[]"] show ?thesis by simp
    next
      case 2
      with lookup_prefix [OF ok _ 2(3), of ROOT_ID "rs @ segs" "segments_of path"] at(1) i
      show ?thesis by (auto simp: lookup_path_segments)
    qed
  next
    assume "segs = [] \<or> (\<exists>path \<in> set paths. \<exists>more. segments_of path = rs @ segs @ more)"
    then show "i |\<in>| kept"
    proof
      assume "\<exists>path \<in> set paths. \<exists>more. segments_of path = rs @ segs @ more"
      then obtain path more j where "path \<in> set paths" "segments_of path = (rs @ segs) @ more"
        "lookup_path path s = Inr j" using kept(2) by auto
      moreover from this have "lookup_segments ROOT_ID ((rs @ segs) @ more) s = Inr (Some j)"
        by (simp add: lookup_path_segments)
      then have "lookup_segments i more s = Inr (Some j)"
        using at(1) i unfolding lookup_segments_append [of _ "rs @ segs"] by simp
      then have "(i, j) \<in> (edges s)\<^sup>*" by (rule lookup_reaches)
      ultimately show ?thesis using lookup_reaches [OF i] by (auto simp: kept(1) names_below_def)
    qed (use i in \<open>simp add: kept(1)\<close>)
  qed
  with kept_closed [OF ok kept(1)] lookup_reaches [of r segs s i] show ?thesis
    unfolding at retired_below [OF ok stale_retired] by blast
qed

lemma retain_effect:
  assumes run: "retain_subtree_paths root_path paths s = (res, t)" and stale: "stale_below root_path paths s = Inr xs"
  defines "u \<equiv> fold retire_stale xs s"
  shows "res = Inr (xs \<noteq> [])" "nodes t = nodes u" "tree_ok u \<Longrightarrow> tree_keeps u t"
proof -
  have changed: "res = Inr (xs \<noteq> [])" "nodes t = nodes u" "qid_index t = qid_index u"
    "detached_roots t = detached_roots u" "next_id t = next_id u" "fid_references t = fid_references u"
    using run stale unfolding u_def
    by (cases "xs = []"; force simp: retain_subtree_paths_def bind_s_def stateful_simps)+
  then show "res = Inr (xs \<noteq> [])" "nodes t = nodes u" by blast+
  show "tree_ok u \<Longrightarrow> tree_keeps u t" by (rule keeps_other) (use changed in auto)
qed

lemma retain_subtree_ok:
  assumes ok: "tree_ok s" and run: "retain_subtree_paths root_path paths s = (r, t)"
  shows "tree_keeps s t"
proof (cases "stale_below root_path paths s")
  case (Inl e)
  with run ok show ?thesis
    by (auto simp: retain_subtree_paths_def bind_s_def stateful_simps keeps_refl)
next
  case (Inr xs)
  with stale_below_spec [OF ok Inr] have "tree_keeps s (fold retire_stale xs s)" by (auto simp: stale_retired_def)
  with retain_effect(3) [OF run Inr] show ?thesis by (meson keeps_ok keeps_trans)
qed

text \<open>C8: \<^verbatim>\<open>retain_subtree_paths\<close> is all or nothing and exact. On an error the state is as it was. Otherwise a
  path at or below the given root resolves afterwards exactly when it resolved before, to the same
  node, and is the root or an ancestor-or-self of one of the retained paths. Every path outside the root
  resolves as before, and the tree stays well-formed with its fid references.\<close>
theorem retained_paths:
  assumes ok: "tree_ok s" and run: "retain_subtree_paths root_path paths s = (res, t)"
  shows "case res of Inl e \<Rightarrow> t = s
    | Inr changed \<Rightarrow> tree_ok t \<and> fid_references t = fid_references s \<and>
        (\<forall>segs i. lookup_segments ROOT_ID (segments_of root_path @ segs) t = Inr (Some i) \<longleftrightarrow>
          lookup_segments ROOT_ID (segments_of root_path @ segs) s = Inr (Some i) \<and>
          (segs = [] \<or> (\<exists>path \<in> set paths. \<exists>more. segments_of path = segments_of root_path @ segs @ more))) \<and>
        (\<forall>segs i. (\<nexists>more. segs = segments_of root_path @ more) \<longrightarrow>
          (lookup_segments ROOT_ID segs t = Inr (Some i) \<longleftrightarrow> lookup_segments ROOT_ID segs s = Inr (Some i)))"
proof (cases "stale_below root_path paths s")
  case (Inl e)
  with run show ?thesis by (auto simp: retain_subtree_paths_def bind_s_def stateful_simps)
next
  case (Inr xs)
  then obtain r kept where r: "lookup_segments ROOT_ID (segments_of root_path) s = Inr (Some r)"
    and kept: "fset kept = {r} \<union> names_below r paths s"
      "\<forall>path \<in> set paths. take (length (segments_of root_path)) (segments_of path) = segments_of root_path \<and>
        (\<exists>i. lookup_path path s = Inr i)"
    and stale_retired: "stale_retired r kept s (fold retire_stale xs s)"
    using stale_below_spec [OF ok] by blast
  note changed = retain_effect [OF run Inr]
  from stale_retired have "tree_keeps s t" using changed(3) by (auto simp: stale_retired_def intro: keeps_trans dest: keeps_ok)
  note same = lookup_nodes_cong [OF changed(2)]
  have "lookup_segments ROOT_ID (segments_of root_path @ segs) t = Inr (Some i) \<longleftrightarrow>
      lookup_segments ROOT_ID (segments_of root_path @ segs) s = Inr (Some i) \<and>
      (segs = [] \<or> (\<exists>path \<in> set paths. \<exists>more. segments_of path = segments_of root_path @ segs @ more))" for segs i
    unfolding same using retained_below [OF ok r kept stale_retired] .
  moreover have "lookup_segments ROOT_ID segs t = Inr (Some i) \<longleftrightarrow> lookup_segments ROOT_ID segs s = Inr (Some i)"
    if "\<nexists>more. segs = segments_of root_path @ more" for segs i
    unfolding same using retired_outside [OF ok stale_retired r that] .
  ultimately show ?thesis
    using changed(1) \<open>tree_keeps s t\<close> by (simp add: tree_keeps_def)
qed

end
