(* ===== verification/R9P_Front_Place.thy ===== *)
theory R9P_Front_Place
  imports R9P_Front_Retain
begin

text \<open>
  What an owner's publication shows to a reader: a file that has been set is found under its path
  with its bytes and disturbs nothing else, and a log is a window on an append-only stream of bytes.
\<close>

section \<open>Published files\<close>

lemma split_path_segments: "split_path path = Inr segs \<Longrightarrow> segments_of path = segs"
  by (auto simp: split_path_def segments_of_def Let_def split: if_splits)

lemma lookup_same_children:
  assumes "child t = child s"
  shows "lookup_segments i segs t = Inr (Some j) \<longleftrightarrow> lookup_segments i segs s = Inr (Some j)"
  by (induction segs arbitrary: i)
     (auto simp: lookup_segments_child assms simp del: lookup_segments.simps(2))

definition extends :: "front_state \<Rightarrow> nat \<Rightarrow> front_state \<Rightarrow> bool" where
  "extends s i t \<longleftrightarrow>
     (\<forall>segs j. lookup_segments ROOT_ID segs s = Inr (Some j) \<longrightarrow> lookup_segments ROOT_ID segs t = Inr (Some j)) \<and>
     (\<forall>j nd. j \<noteq> i \<longrightarrow> fmlookup (nodes s) j = Some nd \<longrightarrow> \<not> is_Dir (node_body nd) \<longrightarrow>
        fmlookup (nodes t) j = Some nd)"

lemma grows_extends: "grows s t \<Longrightarrow> extends s i t"
  unfolding extends_def using grows_lookup by (auto simp: grows_def)

lemma replace_body_spec:
  assumes run: "replace_body i b s = (Inr j, t)"
  shows "j = i" "child t = child s" "\<And>x. x \<noteq> i \<Longrightarrow> fmlookup (nodes t) x = fmlookup (nodes s) x"
    "\<exists>nd nd'. fmlookup (nodes s) i = Some nd \<and> fmlookup (nodes t) i = Some nd' \<and> \<not> is_Dir (node_body nd') \<and>
       merge_body (log_capacity s) (node_body nd) b = Some (node_body nd') \<and> node_version nd' = node_version nd + 1"
proof -
  from run obtain nd merged where nd: "fmlookup (nodes s) i = Some nd"
    "merge_body (log_capacity s) (node_body nd) b = Some merged" "j = i"
    "t = update_node i (\<lambda>nd. nd\<lparr>node_version := node_version nd + 1, node_body := merged\<rparr>) s"
    by (auto simp: replace_body_def split: option.splits)
  note files = merge_body_file [OF nd(2)]
  have "kids t = kids s"
    unfolding nd(4) by (rule views_same_place(4)) (use files nd(1) in \<open>auto intro: same_place_body(1)\<close>)
  then show "child t = child s" by (simp add: child_def fun_eq_iff)
  show "j = i" by fact
  show "fmlookup (nodes t) x = fmlookup (nodes s) x" if "x \<noteq> i" for x
    using that by (simp add: nd(4) fmlookup_update_node)
  show "\<exists>nd nd'. fmlookup (nodes s) i = Some nd \<and> fmlookup (nodes t) i = Some nd' \<and> \<not> is_Dir (node_body nd') \<and>
       merge_body (log_capacity s) (node_body nd) b = Some (node_body nd') \<and> node_version nd' = node_version nd + 1"
    using nd files by (auto simp: fmlookup_update_node)
qed

lemma merge_file: "merge_body capacity b (File bs) = Some b' \<Longrightarrow> b' = File bs"
  by (cases b) simp_all

lemma place_spec:
  assumes ok: "tree_ok s" and b: "\<not> is_Dir b" and run: "place path b s = (Inr i, t)"
  shows "lookup_segments ROOT_ID (segments_of path) t = Inr (Some i)" "extends s i t"
    "\<exists>nd. fmlookup (nodes t) i = Some nd \<and> \<not> is_Dir (node_body nd) \<and> (\<forall>bs. b = File bs \<longrightarrow> node_body nd = b)"
proof -
  from run obtain p name existing s' where o: "open_parent ROOT_ID path s = (Inr (p, name, existing), s')"
    and go: "(case existing of Some nid \<Rightarrow> replace_body nid b
       | None \<Rightarrow> bind_s (read_s (\<lambda>s. next_available_qid_path (word_of_nat (next_id s)) s)) (\<lambda>q.
             insert_node (plain_node name p q 0 0 b))) s' = (Inr i, t)"
    unfolding place_def bind_s_Inr_iff by auto
  note parent = open_parent_ok [OF ok o]
  from parent(2) [OF refl] obtain segs where segs: "segments_of path = segs @ [name]"
    "lookup_segments ROOT_ID segs s' = Inr (Some p)" "existing = child s' p name"
    by (auto dest: split_path_segments)
  have "lookup_segments ROOT_ID (segments_of path) t = Inr (Some i) \<and> extends s i t \<and>
    (\<exists>nd. fmlookup (nodes t) i = Some nd \<and> \<not> is_Dir (node_body nd) \<and> (\<forall>bs. b = File bs \<longrightarrow> node_body nd = b))"
  proof (cases existing)
    case (Some j)
    with go have r: "replace_body j b s' = (Inr i, t)" by simp
    note spec = replace_body_spec [OF r]
    note look = lookup_same_children [OF spec(2)]
    from Some segs spec(1) have "lookup_segments ROOT_ID (segments_of path) t = Inr (Some i)"
      unfolding segs(1) lookup_snoc look spec(2) by auto
    moreover have "extends s i t"
      using grows_extends [OF parent(1), of i] spec(1,3) unfolding extends_def look by auto
    ultimately show ?thesis
      using spec(1,4) merge_file by auto
  next
    case None
    with go obtain q where q: "fmlookup (qid_index s') q = None" "insert_node (plain_node name p q 0 0 b) s' = (Inr i, t)"
      by (auto simp: bind_s_Inr_iff stateful_simps dest: next_available_qid_path_free)
    have "childless (plain_node name p q 0 0 b)" using b by (auto simp: childless_def)
    note ins = insert_after_open [OF ok o [unfolded None] _ this _ _ q(2), simplified, OF q(1)]
    have "grows s' t"
      using insert_node_grows(1) [OF grows_ok [OF parent(1)], of "plain_node name p q 0 0 b" "Inr i" t]
        parent(2) [OF refl] None q segs(3) \<open>childless _\<close> by simp
    with ins(2,3) segs(2) have "lookup_segments ROOT_ID (segments_of path) t = Inr (Some i)"
      unfolding segs(1) lookup_snoc using grows_lookup by blast
    with ins b show ?thesis using grows_extends by auto
  qed
  then show "lookup_segments ROOT_ID (segments_of path) t = Inr (Some i)" "extends s i t"
    "\<exists>nd. fmlookup (nodes t) i = Some nd \<and> \<not> is_Dir (node_body nd) \<and> (\<forall>bs. b = File bs \<longrightarrow> node_body nd = b)"
    by blast+
qed

section \<open>Logs\<close>

text \<open>The bytes a log retains, and the bookkeeping the code relies on: the retained length is that of the
  entries, and the absolute offset of the end fits in 64 bits.\<close>

definition log_bytes :: "log_body \<Rightarrow> bytes" where
  "log_bytes l = concat (log_entries l)"

definition log_ok :: "log_body \<Rightarrow> bool" where
  "log_ok l \<longleftrightarrow> log_retained l = length (log_bytes l) \<and> unat (log_start l) + log_retained l < 2 ^ 64"

lemma log_read_entries_spec:
  "length out \<le> count \<Longrightarrow> (length out < count \<or> count = 0 \<and> out = []) \<Longrightarrow>
   log_read_entries es skip count out = out @ take (count - length out) (drop skip (concat es))"
proof (induction es skip count out rule: log_read_entries.induct)
  case (2 entry es skip count out)
  show ?case
  proof (cases "skip \<ge> length entry")
    case True
    with 2 show ?thesis by simp
  next
    case False
    let ?n = "min (length entry - skip) (count - length out)"
    let ?out = "out @ take ?n (drop skip entry)"
    have n: "?n \<le> length entry - skip" by simp
    show ?thesis
    proof (cases "length ?out = count")
      case True
      with False n have "count - length out \<le> length entry - skip" by auto
      with True False show ?thesis by (simp add: Let_def)
    next
      case neq: False
      with False 2(3,4) have less: "length entry - skip < count - length out" by (auto simp: min_def split: if_splits)
      with False have out: "?out = out @ drop skip entry" by simp
      from neq less have "log_read_entries es 0 count ?out = ?out @ take (count - length ?out) (drop 0 (concat es))"
        by (intro 2(2) [OF False refl refl neq]) auto
      with False neq less out show ?thesis by (simp add: Let_def)
    qed
  qed
qed auto

lemma log_read_spec:
  assumes "log_start l \<le> offset"
  shows "log_read offset count l = take count (drop (unat (offset - log_start l)) (log_bytes l))"
  using assms log_read_entries_spec [of "[]" count]
  by (cases "count = 0") (simp_all add: log_read_def log_bytes_def saturating_sub_def)

lemma log_evict_spec:
  "log_ok l \<Longrightarrow> log_ok (log_evict capacity l) \<and>
     (\<exists>k. k \<le> length (log_bytes l) \<and> log_bytes (log_evict capacity l) = drop k (log_bytes l) \<and>
        unat (log_start (log_evict capacity l)) = unat (log_start l) + k) \<and>
     (log_entries l \<noteq> [] \<longrightarrow> last (log_entries (log_evict capacity l)) = last (log_entries l) \<and>
        log_entries (log_evict capacity l) \<noteq> []) \<and>
     (log_retained (log_evict capacity l) \<le> capacity \<or> length (log_entries (log_evict capacity l)) \<le> 1)"
proof (induction capacity l rule: log_evict.induct)
  case (1 capacity l)
  show ?case
  proof (cases "log_retained l > capacity \<and> length (log_entries l) > 1")
    case True
    then obtain e es where e: "log_entries l = e # es" "es \<noteq> []" by (cases "log_entries l") auto
    let ?l = "l\<lparr>log_entries := tl (log_entries l), log_start := log_start l + word_of_nat (length (hd (log_entries l))),
                log_retained := log_retained l - length (hd (log_entries l))\<rparr>"
    have "length e \<le> log_retained l" using 1(2) e by (simp add: log_ok_def log_bytes_def)
    with 1(2) have "unat (log_start l) + length e < 2 ^ 64" by (simp add: log_ok_def)
    then have start: "unat (log_start ?l) = unat (log_start l) + length e"
      using e by (simp add: unat_word_ariths unat_of_nat mod_less)
    have ok: "log_ok ?l" using 1(2) e start by (simp add: log_ok_def log_bytes_def)
    from 1(1) [OF True ok] obtain k where k: "k \<le> length (log_bytes ?l)"
      "log_bytes (log_evict capacity ?l) = drop k (log_bytes ?l)"
      "unat (log_start (log_evict capacity ?l)) = unat (log_start ?l) + k" by blast
    have "log_bytes l = e @ log_bytes ?l" using e by (simp add: log_bytes_def)
    with k start have "length e + k \<le> length (log_bytes l)"
      "log_bytes (log_evict capacity ?l) = drop (length e + k) (log_bytes l)"
      "unat (log_start (log_evict capacity ?l)) = unat (log_start l) + (length e + k)" by auto
    moreover have evict: "log_evict capacity l = log_evict capacity ?l"
      using True by (subst log_evict.simps) simp
    moreover have "last (log_entries ?l) = last (log_entries l)" "log_entries ?l \<noteq> []"
      using e by simp_all
    ultimately show ?thesis
      unfolding evict using 1(1) [OF True ok] by (intro conjI) auto
  next
    case False
    then have "log_evict capacity l = l" by (subst log_evict.simps) auto
    with False 1(2) show ?thesis by auto
  qed
qed



end
