(* ===== verification/R9P_Front_Api.thy ===== *)
theory R9P_Front_Api
  imports R9P_Front_Place R9P_Server
begin

text \<open>
  The methods of \<^verbatim>\<open>Front\<close> (\<^verbatim>\<open>front/src/front.rs\<close>, \<^verbatim>\<open>front/rename.rs\<close> and
  \<^verbatim>\<open>front/child_directory_resolution.rs\<close>), each a transformer of the state behind the front's
  lock. A method that takes the lock once is one transformer. A method that waits on the condition
  variable is a loop over turns: what the other threads did to the state since the last turn, and
  whether the request has been cancelled and the deadline has passed by now. Notifying the condition
  variable has no effect on the state.
\<close>

section \<open>Publishing\<close>

definition Front_set :: "bytes \<Rightarrow> bytes \<Rightarrow> (front_state, unit) fallible" where
  "Front_set path bs = bind_s (place path (File bs)) (\<lambda>_. return_s ())"

definition Front_set_pushed_file ::
    "bytes \<Rightarrow> bytes \<Rightarrow> pushed_entry_metadata \<Rightarrow> (front_state, unit) fallible" where
  "Front_set_pushed_file path bs m = bind_s (place_pushed_file path bs m) (\<lambda>_. return_s ())"

definition Front_set_pushed_directory ::
    "bytes \<Rightarrow> pushed_entry_metadata \<Rightarrow> (front_state, unit) fallible" where
  "Front_set_pushed_directory path m = bind_s (place_pushed_directory path m) (\<lambda>_. return_s ())"

definition Front_qid_path :: "bytes \<Rightarrow> front_state \<Rightarrow> u64 result" where
  "Front_qid_path path s =
     and_then (lookup_path path s) (\<lambda>nid. and_then (qid_for nid s) (\<lambda>q. Inr (qpath q)))"

definition Front_remove_subtree_if_exists :: "bytes \<Rightarrow> (front_state, unit) fallible" where
  "Front_remove_subtree_if_exists path = remove_subtree_if_exists path"

definition Front_retain_subtree_paths :: "bytes \<Rightarrow> bytes list \<Rightarrow> (front_state, unit) fallible" where
  "Front_retain_subtree_paths root_path paths =
     bind_s (retain_subtree_paths root_path paths) (\<lambda>_. return_s ())"

definition Front_append_event :: "bytes \<Rightarrow> bytes \<Rightarrow> (front_state, unit) fallible" where
  "Front_append_event path bs = bind_s (place path (Log (LogBody_new bs))) (\<lambda>_. return_s ())"

definition Front_set_log_capacity :: "usize \<Rightarrow> (front_state, unit) fallible" where
  "Front_set_log_capacity capacity = modify_s (\<lambda>s. s\<lparr>log_capacity := max capacity 1\<rparr>)"

definition Front_set_wait_timeout :: "nat \<Rightarrow> (front_state, unit) fallible" where
  "Front_set_wait_timeout timeout = modify_s (\<lambda>s. s\<lparr>wait_timeout_secs := timeout\<rparr>)"

definition Front_set_protocol_limits :: "u32 \<Rightarrow> u32 \<Rightarrow> (front_state, unit) fallible" where
  "Front_set_protocol_limits largest iounit =
     (if \<not> (MIN_MSIZE \<le> largest \<and> largest \<le> MAX_MSIZE) then throw_s (Error_from ''invalid max msize'')
      else if iounit > largest then throw_s (Error_from ''invalid iounit'')
      else modify_s (\<lambda>s. s\<lparr>protocol := \<lparr>front_max_msize = largest, front_iounit = iounit\<rparr>\<rparr>))"

section \<open>Registering relays\<close>

definition set_body :: "nat \<Rightarrow> body \<Rightarrow> front_state \<Rightarrow> front_state" where
  "set_body nid b = update_node nid (\<lambda>nd. nd\<lparr>node_body := b\<rparr>)"

definition Front_register_intake :: "bytes \<Rightarrow> (front_state, unit) fallible" where
  "Front_register_intake prefix =
     (let trimmed = trim_slashes prefix in
      if trimmed = [] then throw_s (Error EPERM)
      else bind_s (place (trimmed @ SLASH # str ''new'') (IntakeNew 0)) (\<lambda>nid.
        modify_s (\<lambda>s. let s = set_body nid (IntakeNew nid) s in
          s\<lparr>intakes := fmupd nid trimmed (intakes s)\<rparr>)))"

definition Front_register_rpc :: "bytes \<Rightarrow> (front_state, unit) fallible" where
  "Front_register_rpc path =
     (let trimmed = trim_slashes path in
      if trimmed = [] then throw_s (Error EPERM)
      else bind_s (place trimmed (Rpc trimmed)) (\<lambda>_. return_s ()))"

fun is_ReadRelay :: "body \<Rightarrow> bool" where
  "is_ReadRelay (ReadRelay _) = True"
| "is_ReadRelay _ = False"

fun is_SnapshotReadRelay :: "body \<Rightarrow> bool" where
  "is_SnapshotReadRelay (SnapshotReadRelay _) = True"
| "is_SnapshotReadRelay _ = False"

fun is_WriteRelay :: "body \<Rightarrow> bool" where
  "is_WriteRelay (WriteRelay _) = True"
| "is_WriteRelay _ = False"

text \<open>The common course of the three read relay registrations: a node already there must be a relay
  of the same kind and gets the new prefix, else a new node is placed.\<close>

definition register_relay ::
    "bytes \<Rightarrow> (body \<Rightarrow> bool) \<Rightarrow> (bytes \<Rightarrow> body) \<Rightarrow> (front_state, nat) fallible" where
  "register_relay path is_kind kind =
     bind_s (lift_s (normalise_request_prefix path)) (\<lambda>trimmed.
     bind_s (read_s (lookup_optional_path trimmed)) (\<lambda>found.
       case found of
         Some nid \<Rightarrow>
           bind_s (read_s (get_node nid)) (\<lambda>nd.
             if \<not> is_kind (node_body nd) then throw_s (Error EPERM)
             else bind_s (modify_s (set_body nid (kind trimmed))) (\<lambda>_. return_s nid))
       | None \<Rightarrow> place trimmed (kind trimmed)))"

definition Front_register_read_relay :: "bytes \<Rightarrow> (front_state, unit) fallible" where
  "Front_register_read_relay path =
     bind_s (register_relay path is_ReadRelay ReadRelay) (\<lambda>_. return_s ())"

definition Front_register_read_relay_with_metadata ::
    "bytes \<Rightarrow> pushed_entry_metadata \<Rightarrow> (front_state, unit) fallible" where
  "Front_register_read_relay_with_metadata path m =
     bind_s (register_relay path is_ReadRelay ReadRelay) (\<lambda>nid. apply_pushed_metadata nid m)"

definition Front_register_snapshot_read_relay :: "bytes \<Rightarrow> (front_state, unit) fallible" where
  "Front_register_snapshot_read_relay path =
     bind_s (register_relay path is_SnapshotReadRelay SnapshotReadRelay) (\<lambda>_. return_s ())"

text \<open>\<^verbatim>\<open>let Body::Dir(directory) = &mut node.body else { ENOTDIR }\<close> on a node that must exist.\<close>

definition update_directory ::
    "nat \<Rightarrow> (directory_body \<Rightarrow> directory_body) \<Rightarrow> (front_state, unit) fallible" where
  "update_directory nid f =
     bind_s (read_s (get_node nid)) (\<lambda>nd.
       case node_body nd of
         Dir d \<Rightarrow> modify_s (set_body nid (Dir (f d)))
       | _ \<Rightarrow> throw_s (Error ENOTDIR))"

definition Front_register_directory_read_relay :: "bytes \<Rightarrow> (front_state, unit) fallible" where
  "Front_register_directory_read_relay path =
     bind_s (lift_s (normalise_request_prefix path)) (\<lambda>trimmed.
     bind_s (ensure_path_dir trimmed) (\<lambda>nid.
       update_directory nid (\<lambda>d. d\<lparr>read_relay := Some trimmed\<rparr>)))"

definition Front_register_write_relay :: "bytes \<Rightarrow> (front_state, unit) fallible" where
  "Front_register_write_relay path =
     bind_s (lift_s (normalise_request_prefix path)) (\<lambda>trimmed.
     bind_s (modify_s (\<lambda>s. s\<lparr>write_relay_prefixes := finsert trimmed (write_relay_prefixes s)\<rparr>)) (\<lambda>_.
     bind_s (read_s (lookup_optional_path trimmed)) (\<lambda>found.
       case found of
         Some nid \<Rightarrow>
           bind_s (read_s (get_node nid)) (\<lambda>nd.
             if is_Dir (node_body nd) then throw_s (Error EPERM)
             else modify_s (update_node nid (\<lambda>nd.
               (if is_WriteRelay (node_body nd) then nd\<lparr>node_body := WriteRelay trimmed\<rparr> else nd)
               \<lparr>write_relay := Some trimmed\<rparr>)))
       | None \<Rightarrow>
           bind_s (place trimmed (WriteRelay trimmed)) (\<lambda>nid.
             modify_s (update_node nid (\<lambda>nd. nd\<lparr>write_relay := Some trimmed\<rparr>))))))"

definition Front_register_remove_relay :: "bytes \<Rightarrow> (front_state, unit) fallible" where
  "Front_register_remove_relay path =
     bind_s (lift_s (normalise_request_prefix path)) (\<lambda>trimmed.
     bind_s (read_s (lookup_path trimmed)) (\<lambda>nid.
       modify_s (\<lambda>s. update_node nid (\<lambda>nd. nd\<lparr>remove_relay := Some trimmed\<rparr>)
         (s\<lparr>remove_relay_prefixes := finsert trimmed (remove_relay_prefixes s)\<rparr>))))"

definition Front_register_wstat_relay :: "bytes \<Rightarrow> (front_state, unit) fallible" where
  "Front_register_wstat_relay path =
     bind_s (lift_s (normalise_request_prefix path)) (\<lambda>trimmed.
     bind_s (read_s (lookup_path trimmed)) (\<lambda>nid.
       modify_s (\<lambda>s. update_node nid (\<lambda>nd. nd\<lparr>wstat_relay := Some trimmed\<rparr>)
         (s\<lparr>wstat_relay_prefixes := finsert trimmed (wstat_relay_prefixes s)\<rparr>))))"

definition Front_register_create_relay :: "bytes \<Rightarrow> (front_state, unit) fallible" where
  "Front_register_create_relay path =
     bind_s (lift_s (normalise_request_prefix path)) (\<lambda>trimmed.
     bind_s (ensure_path_dir trimmed) (\<lambda>nid.
     bind_s (read_s (get_node nid)) (\<lambda>nd.
       if \<not> is_Dir (node_body nd) then throw_s (Error ENOTDIR)
       else modify_s (\<lambda>s. let s = update_node nid (\<lambda>nd. nd\<lparr>create_relay := Some trimmed\<rparr>) s in
         s\<lparr>write_relay_prefixes := finsert trimmed (write_relay_prefixes s)\<rparr>))))"

definition Front_register_log :: "bytes \<Rightarrow> (front_state, unit) fallible" where
  "Front_register_log path =
     (let trimmed = trim_slashes path in
      if trimmed = [] then throw_s (Error EPERM)
      else bind_s (place trimmed (Log LogBody_empty)) (\<lambda>_. return_s ()))"

definition Front_register_log_at :: "bytes \<Rightarrow> u64 \<Rightarrow> (front_state, unit) fallible" where
  "Front_register_log_at path start_offset =
     (let trimmed = trim_slashes path in
      if trimmed = [] then throw_s (Error EPERM)
      else bind_s (read_s (lookup_optional_path trimmed)) (\<lambda>found.
        if found \<noteq> None then throw_s (Error EPERM)
        else bind_s (place trimmed (Log (LogBody_empty_at start_offset))) (\<lambda>_. return_s ())))"

definition Front_register_rename_relay :: "bytes \<Rightarrow> bytes \<Rightarrow> (front_state, unit) fallible" where
  "Front_register_rename_relay path request_prefix =
     bind_s (lift_s (normalise_request_prefix request_prefix)) (\<lambda>request_prefix.
     let trimmed = trim_slashes path in
     bind_s (if trimmed = [] then return_s ROOT_ID else ensure_path_dir trimmed) (\<lambda>root.
     bind_s (read_s (get_node root)) (\<lambda>nd.
       if \<not> is_Dir (node_body nd) then throw_s (Error ENOTDIR)
       else modify_s (\<lambda>s. s\<lparr>rename_relay_roots := fmupd root request_prefix (rename_relay_roots s)\<rparr>))))"

definition Front_register_child_directory_resolver ::
    "bytes \<Rightarrow> bytes \<Rightarrow> bytes \<Rightarrow> child_directory_removal \<Rightarrow> (front_state, unit) fallible" where
  "Front_register_child_directory_resolver path resolving read_prefix removal =
     (let path = trim_slashes path in
      if path = [] then throw_s (Error EPERM)
      else
        bind_s (lift_s (normalise_request_prefix resolving)) (\<lambda>resolving.
        bind_s (lift_s (normalise_request_prefix read_prefix)) (\<lambda>read_prefix.
          if resolving = read_prefix
          then throw_s (Error_from ''child resolution and directory read prefixes must be distinct'')
          else bind_s (ensure_path_dir path) (\<lambda>nid.
            update_directory nid (\<lambda>d. d\<lparr>child_resolver := Some \<lparr>resolution_prefix = resolving,
              resolver_read_prefix = read_prefix, resolver_removal = removal\<rparr>\<rparr>)))))"

section \<open>Principals\<close>

definition Front_set_principal_class_aname ::
    "bytes \<Rightarrow> bytes \<Rightarrow> bytes \<Rightarrow> bytes \<Rightarrow> (front_state, unit) fallible" where
  "Front_set_principal_class_aname uname principal_id aname root_path =
     (if uname = [] \<or> principal_id = [] then throw_s (Error EPERM)
      else if aname = [] then throw_s (Error EPERM)
      else
        bind_s (read_s (lookup_path root_path)) (\<lambda>root.
        bind_s (read_s (get_node root)) (\<lambda>nd.
          if \<not> is_Dir (node_body nd) then throw_s (Error ENOTDIR)
          else bind_s (lift_s (canonical_root_path root_path)) (\<lambda>root_path.
          bind_s (modify_s (\<lambda>s. s\<lparr>principal_roots_required := True\<rparr>)) (\<lambda>_.
          bind_s (read_s (\<lambda>s. Inr (fmlookup (principal_roots s) uname))) (\<lambda>existing.
            case existing of
              Some binding \<Rightarrow>
                if pr_root_path binding \<noteq> root_path
                then throw_s (Error_from ''principal root path mismatch'')
                else if pr_principal_id binding \<noteq> principal_id
                then throw_s (Error_from ''principal id mismatch'')
                else modify_s (\<lambda>s. s\<lparr>principal_roots := fmupd uname
                  (binding\<lparr>pr_root := root, pr_anames := finsert aname (pr_anames binding)\<rparr>)
                  (principal_roots s)\<rparr>)
            | None \<Rightarrow>
                modify_s (\<lambda>s. s\<lparr>principal_roots := fmupd uname
                  \<lparr>pr_root = root, pr_root_path = root_path, pr_principal_id = principal_id,
                   pr_anames = {|aname|}\<rparr> (principal_roots s)\<rparr>)))))))"

definition Front_set_principal_root_aname :: "bytes \<Rightarrow> bytes \<Rightarrow> bytes \<Rightarrow> (front_state, unit) fallible" where
  "Front_set_principal_root_aname uname aname root_path =
     Front_set_principal_class_aname uname uname aname root_path"

definition Front_set_principal_root :: "bytes \<Rightarrow> bytes \<Rightarrow> (front_state, unit) fallible" where
  "Front_set_principal_root uname root_path =
     Front_set_principal_class_aname uname uname (str ''*'') root_path"

definition Front_retain_principal_roots :: "bytes list \<Rightarrow> (front_state, unit) fallible" where
  "Front_retain_principal_roots unames =
     modify_s (\<lambda>s. s\<lparr>principal_roots := fmfilter (\<lambda>uname. uname \<in> set unames) (principal_roots s)\<rparr>)"

section \<open>Waiting\<close>

text \<open>A loop that waits on the condition variable. A turn is what the other threads did while the
  lock was free, whether the request is cancelled, and whether the deadline has passed. The loop
  body either returns or goes on waiting; with no turn left it is still waiting.\<close>

type_synonym 's turn = "('s \<Rightarrow> 's) \<times> bool \<times> bool"
type_synonym ('s, 'a) poll = "bool \<Rightarrow> bool \<Rightarrow> 's \<Rightarrow> 'a result option \<times> 's"

fun wait_loop :: "('s, 'a) poll \<Rightarrow> 's turn list \<Rightarrow> 's \<Rightarrow> 'a result option \<times> 's" where
  "wait_loop poll [] s = (None, s)"
| "wait_loop poll ((others, cancelled, expired) # turns) s =
     (case poll cancelled expired (others s) of
        (Some r, t) \<Rightarrow> (Some r, t)
      | (None, t) \<Rightarrow> wait_loop poll turns t)"

subsection \<open>Owners taking requests\<close>

definition poll_next_request :: "(front_state, intake_request option) poll" where
  "poll_next_request cancelled expired s =
     (case pending_requests s of
        request # queue \<Rightarrow> (Some (Inr (Some request)), s\<lparr>pending_requests := queue\<rparr>)
      | [] \<Rightarrow> (if expired then Some (Inr None) else None, s))"

definition Front_next_request ::
    "front_state turn list \<Rightarrow> front_state \<Rightarrow> intake_request option result option \<times> front_state" where
  "Front_next_request = wait_loop poll_next_request"

definition Front_next_request_blocking ::
    "front_state turn list \<Rightarrow> front_state \<Rightarrow> intake_request option result option \<times> front_state" where
  "Front_next_request_blocking = wait_loop (\<lambda>cancelled _. poll_next_request cancelled False)"

text \<open>The waits for a queued request with a prefix differ in the queue and in whether a deadline, or
  the end of an RPC, makes them give up.\<close>

definition poll_queue ::
    "('s \<Rightarrow> 'a option \<times> 's) \<Rightarrow> (bool \<Rightarrow> bool) \<Rightarrow> ('s \<Rightarrow> bool) \<Rightarrow> ('s, 'a option) poll" where
  "poll_queue pop gives_up ended cancelled expired s =
     (if ended s then (Some (Inr None), s)
      else case pop s of
        (Some request, t) \<Rightarrow> (Some (Inr (Some request)), t)
      | (None, t) \<Rightarrow> (if gives_up expired then Some (Inr None) else None, t))"

definition wait_prefix ::
    "bytes \<Rightarrow> (bytes \<Rightarrow> ('s, 'a) poll) \<Rightarrow> 's turn list \<Rightarrow> 's \<Rightarrow> 'a result option \<times> 's" where
  "wait_prefix prefix poll turns s =
     (case normalise_request_prefix prefix of
        Inl e \<Rightarrow> (Some (Inl e), s)
      | Inr trimmed \<Rightarrow> wait_loop (poll trimmed) turns s)"

definition Front_next_request_for_prefix ::
    "bytes \<Rightarrow> front_state turn list \<Rightarrow> front_state \<Rightarrow> intake_request option result option \<times> front_state" where
  "Front_next_request_for_prefix prefix =
     wait_prefix prefix (\<lambda>p. poll_queue (pop_pending_for_prefix p) (\<lambda>expired. expired) (\<lambda>_. False))"

definition Front_next_request_for_prefix_blocking ::
    "bytes \<Rightarrow> front_state turn list \<Rightarrow> front_state \<Rightarrow> intake_request option result option \<times> front_state" where
  "Front_next_request_for_prefix_blocking prefix =
     wait_prefix prefix (\<lambda>p. poll_queue (pop_pending_for_prefix p) (\<lambda>_. False) (\<lambda>_. False))"

definition Front_next_create_request_for_prefix_blocking ::
    "bytes \<Rightarrow> front_state turn list \<Rightarrow> front_state \<Rightarrow> create_relay_request option result option \<times> front_state" where
  "Front_next_create_request_for_prefix_blocking prefix =
     wait_prefix prefix (\<lambda>p. poll_queue (pop_create_pending_for_prefix p) (\<lambda>_. False) (\<lambda>_. False))"

definition Front_next_request_for_prefix_while_rpc_pending ::
    "bytes \<Rightarrow> u64 \<Rightarrow> front_state turn list \<Rightarrow> front_state \<Rightarrow> intake_request option result option \<times> front_state" where
  "Front_next_request_for_prefix_while_rpc_pending prefix rpc_request_id =
     wait_prefix prefix (\<lambda>p. poll_queue (pop_pending_for_prefix p) (\<lambda>_. False)
       (\<lambda>s. fmlookup (rpc_responses s) rpc_request_id = None))"

definition Front_next_rename_request_for_prefix ::
    "bytes \<Rightarrow> front_state turn list \<Rightarrow> front_state \<Rightarrow> rename_relay_request option result option \<times> front_state" where
  "Front_next_rename_request_for_prefix prefix =
     wait_prefix prefix (\<lambda>p. poll_queue (pop_rename_pending_for_prefix p) (\<lambda>expired. expired) (\<lambda>_. False))"

definition Front_next_rename_request_for_prefix_blocking ::
    "bytes \<Rightarrow> front_state turn list \<Rightarrow> front_state \<Rightarrow> rename_relay_request option result option \<times> front_state" where
  "Front_next_rename_request_for_prefix_blocking prefix =
     wait_prefix prefix (\<lambda>p. poll_queue (pop_rename_pending_for_prefix p) (\<lambda>_. False) (\<lambda>_. False))"

subsection \<open>Clients awaiting replies\<close>

definition read_window :: "bytes \<Rightarrow> u64 \<Rightarrow> u32 \<Rightarrow> bytes" where
  "read_window bs offset count = take (unat count) (drop (min (unat offset) (length bs)) bs)"

definition poll_rpc :: "u64 \<Rightarrow> u64 \<Rightarrow> u32 \<Rightarrow> (front_state, read_data) poll" where
  "poll_rpc request_id offset count cancelled expired s =
     (if cancelled then (Some (Inl (Error_from ''request flushed'')), remove_response_request request_id s)
      else case fmlookup (rpc_responses s) request_id of
        None \<Rightarrow> (Some (Inl (Error ENOENT)), s)
      | Some (Some (RequestAccepted bs)) \<Rightarrow> (Some (Inr (Read_Bytes (read_window bs offset count))), s)
      | Some (Some (DirectoryAccepted _ _)) \<Rightarrow>
          (Some (Inl (Error_from ''directory response used as a file response'')), s)
      | Some (Some (RequestRejected message)) \<Rightarrow> (Some (Inl (Error message)), s)
      | Some None \<Rightarrow>
          (if expired then
             (Some (Inl (Error_from ''rpc request timed out awaiting response'')),
              remove_response_request request_id s)
           else (None, s)))"

text \<open>\<^verbatim>\<open>response_read\<close> takes the lock again to consume the response; \<open>others\<close> is what happens until
  then.\<close>

definition response_read ::
    "u64 \<Rightarrow> u64 \<Rightarrow> u32 \<Rightarrow> bool \<Rightarrow> front_state turn list \<Rightarrow> (front_state \<Rightarrow> front_state) \<Rightarrow> front_state
     \<Rightarrow> read_data result option \<times> front_state" where
  "response_read request_id offset count consume turns others s =
     (case wait_loop (poll_rpc request_id offset count) turns s of
        (None, t) \<Rightarrow> (None, t)
      | (Some r, t) \<Rightarrow> (Some r, if consume then remove_response_request request_id (others t) else t))"

definition poll_directory_response :: "u64 \<Rightarrow> (front_state, bytes list \<times> bool) poll" where
  "poll_directory_response request_id cancelled expired s =
     (if cancelled then (Some (Inl (Error_from ''request flushed'')), remove_response_request request_id s)
      else case fmlookup (rpc_responses s) request_id of
        None \<Rightarrow> (Some (Inl (Error ENOENT)), s)
      | Some (Some (DirectoryAccepted names eof)) \<Rightarrow> (Some (Inr (names, eof)), s)
      | Some (Some (RequestRejected message)) \<Rightarrow> (Some (Inl (Error message)), s)
      | Some (Some (RequestAccepted _)) \<Rightarrow>
          (Some (Inl (Error_from ''file response used as a directory response'')), s)
      | Some None \<Rightarrow>
          (if expired then
             (Some (Inl (Error_from ''directory request timed out awaiting response'')),
              remove_response_request request_id s)
           else (None, s)))"

definition directory_response ::
    "u64 \<Rightarrow> front_state turn list \<Rightarrow> front_state \<Rightarrow> (bytes list \<times> bool) result option \<times> front_state" where
  "directory_response request_id = wait_loop (poll_directory_response request_id)"

definition poll_write_relay :: "u64 \<Rightarrow> usize \<Rightarrow> (front_state, u32) poll" where
  "poll_write_relay request_id data_len cancelled expired s =
     (let taken = s\<lparr>write_relay_responses := fmdrop request_id (write_relay_responses s)\<rparr> in
      if cancelled then
        (Some (Inl (Error_from ''request flushed'')), remove_pending_request request_id taken)
      else case fmlookup (write_relay_responses s) request_id of
        None \<Rightarrow> (Some (Inl (Error ENOENT)), s)
      | Some (Some (WriteAccepted count)) \<Rightarrow>
          (Some (if unat count > data_len then Inl (Error EPERM) else Inr count), taken)
      | Some (Some (WriteRejected message)) \<Rightarrow> (Some (Inl (Error message)), taken)
      | Some None \<Rightarrow>
          (if expired then
             (Some (Inl (Error_from ''write relay unavailable'')), remove_pending_request request_id taken)
           else (None, s)))"

definition poll_remove_relay :: "u64 \<Rightarrow> (front_state, unit) poll" where
  "poll_remove_relay request_id cancelled expired s =
     (let taken = s\<lparr>remove_relay_responses := fmdrop request_id (remove_relay_responses s)\<rparr> in
      case fmlookup (remove_relay_responses s) request_id of
        None \<Rightarrow> (Some (Inl (Error ENOENT)), s)
      | Some (Some RemoveAccepted) \<Rightarrow> (Some (Inr ()), taken)
      | Some (Some (RemoveRejected message)) \<Rightarrow> (Some (Inl (Error message)), taken)
      | Some None \<Rightarrow>
          (if expired then
             (Some (Inl (Error_from ''remove relay unavailable'')), remove_pending_request request_id taken)
           else (None, s)))"

definition poll_wstat_relay :: "u64 \<Rightarrow> (front_state, unit) poll" where
  "poll_wstat_relay request_id cancelled expired s =
     (let taken = s\<lparr>wstat_relay_responses := fmdrop request_id (wstat_relay_responses s)\<rparr> in
      case fmlookup (wstat_relay_responses s) request_id of
        None \<Rightarrow> (Some (Inl (Error ENOENT)), s)
      | Some (Some WstatAccepted) \<Rightarrow> (Some (Inr ()), taken)
      | Some (Some (WstatRejected message)) \<Rightarrow> (Some (Inl (Error message)), taken)
      | Some None \<Rightarrow>
          (if expired then
             (Some (Inl (Error_from ''wstat relay unavailable'')), remove_pending_request request_id taken)
           else (None, s)))"

definition poll_create_relay :: "u64 \<Rightarrow> (front_state, qid) poll" where
  "poll_create_relay request_id cancelled expired s =
     (let taken = s\<lparr>create_relay_responses := fmdrop request_id (create_relay_responses s)\<rparr> in
      case fmlookup (create_relay_responses s) request_id of
        None \<Rightarrow> (Some (Inl (Error ENOENT)), s)
      | Some (Some (CreateAccepted qt qv qp)) \<Rightarrow> (Some (Inr (Qid_new qt qv qp)), taken)
      | Some (Some (CreateRejected message)) \<Rightarrow> (Some (Inl (Error message)), taken)
      | Some None \<Rightarrow>
          (if expired then
             (Some (Inl (Error_from ''create relay unavailable'')),
              taken\<lparr>create_targets := fmdrop request_id (create_targets s),
                create_pending := filter (\<lambda>r. cr_request_id r \<noteq> request_id) (create_pending s)\<rparr>)
           else (None, s)))"

definition poll_rename_relay :: "u64 \<Rightarrow> (front_state, unit) poll" where
  "poll_rename_relay request_id cancelled expired s =
     (let taken = s\<lparr>rename_relay_responses := fmdrop request_id (rename_relay_responses s)\<rparr> in
      case fmlookup (rename_relay_responses s) request_id of
        None \<Rightarrow> (Some (Inl (Error ENOENT)), s)
      | Some (_, Some RenameAccepted) \<Rightarrow> (Some (Inr ()), taken)
      | Some (_, Some (RenameRejected message)) \<Rightarrow> (Some (Inl (Error message)), taken)
      | Some (_, None) \<Rightarrow>
          (if expired then
             (Some (Inl (Error_from ''rename relay unavailable'')),
              taken\<lparr>rename_pending := filter (\<lambda>r. rr_request_id r \<noteq> request_id) (rename_pending s)\<rparr>)
           else (None, s)))"

definition poll_log :: "nat \<Rightarrow> u64 \<Rightarrow> u32 \<Rightarrow> (front_state, read_data) poll" where
  "poll_log nid offset count cancelled expired s =
     (if cancelled then (Some (Inl (Error_from ''request flushed'')), s)
      else case get_node nid s of
        Inl e \<Rightarrow> (Some (Inl e), s)
      | Inr nd \<Rightarrow>
          (case node_body nd of
             Log l \<Rightarrow>
               if offset < log_start l then
                 (Some (Inl (Error (str ''log window passed: earliest retained offset '' @ dec (unat (log_start l))))), s)
               else if offset < log_end l then (Some (Inr (Read_Bytes (log_read offset (unat count) l))), s)
               else if expired then (Some (Inr (Read_Bytes [])), s)
               else (None, s)
           | _ \<Rightarrow> (Some (Inl (Error ENOENT)), s)))"

fun collect_results :: "('a \<Rightarrow> 'b result) \<Rightarrow> 'a list \<Rightarrow> 'b list result" where
  "collect_results f [] = Inr []"
| "collect_results f (x # xs) = and_then (f x) (\<lambda>y. and_then (collect_results f xs) (\<lambda>ys. Inr (y # ys)))"

definition read_node ::
    "nat \<Rightarrow> u64 \<Rightarrow> u32 \<Rightarrow> front_state turn list \<Rightarrow> front_state \<Rightarrow> read_data result option \<times> front_state" where
  "read_node nid offset count turns s =
     (case get_node nid s of
        Inl e \<Rightarrow> (Some (Inl e), s)
      | Inr nd \<Rightarrow>
          (case node_body nd of
             Dir d \<Rightarrow> (Some (map_ok Read_Directory (collect_results (\<lambda>c. stat_for c s) (fm_values (children d)))), s)
           | File bs \<Rightarrow> (Some (Inr (Read_Bytes (read_window bs offset count))), s)
           | Log _ \<Rightarrow> wait_loop (poll_log nid offset count) turns s
           | _ \<Rightarrow> (Some (Inl (Error EPERM)), s)))"

section \<open>Owners completing requests\<close>

text \<open>Fill the empty slot of a request: \<^verbatim>\<open>ENOENT\<close> without one, an error on a full one.\<close>

definition fill_response :: "u64 \<Rightarrow> request_reply \<Rightarrow> (front_state, unit) fallible" where
  "fill_response request_id reply s =
     (case fmlookup (rpc_responses s) request_id of
        None \<Rightarrow> (Inl (Error ENOENT), s)
      | Some (Some _) \<Rightarrow> (Inl (Error_from ''request already completed''), s)
      | Some None \<Rightarrow> (Inr (), s\<lparr>rpc_responses := fmupd request_id (Some reply) (rpc_responses s)\<rparr>))"

text \<open>\<^verbatim>\<open>complete_request\<close> answers an RPC or relayed read under one lock; for an intake it releases the
  lock and publishes the result as a file. \<open>others\<close> is what other threads do in between.\<close>

definition Front_complete_request ::
    "bytes \<Rightarrow> u64 \<Rightarrow> bytes \<Rightarrow> (front_state \<Rightarrow> front_state) \<Rightarrow> (front_state, unit) fallible" where
  "Front_complete_request prefix request_id bs others =
     bind_s (read_s (\<lambda>s. Inr (fmlookup (rpc_responses s) request_id \<noteq> None))) (\<lambda>response.
       if response then
         bind_s (read_s (\<lambda>s. ensure (request_id |\<notin>| directory_response_requests s)
           (Error_from ''directory request requires directory completion''))) (\<lambda>_.
         bind_s (lift_s (normalise_request_prefix prefix)) (\<lambda>trimmed.
         bind_s (read_s (\<lambda>s. ensure (fmlookup (response_prefixes s) request_id = Some trimmed) (Error ENOENT))) (\<lambda>_.
           fill_response request_id (RequestAccepted bs))))
       else
         bind_s (read_s (\<lambda>s. ensure (is_intake_prefix (trim_slashes prefix) s) (Error ENOENT))) (\<lambda>_.
         bind_s (modify_s others) (\<lambda>_.
           Front_set (trim_slashes prefix @ SLASH # dec (unat request_id) @ SLASH # str ''result'') bs)))"

definition valid_child_name :: "bytes \<Rightarrow> bool" where
  "valid_child_name name \<longleftrightarrow>
     \<not> (name = [] \<or> name = [DOT] \<or> name = [DOT, DOT] \<or> SLASH \<in> set name \<or> length name > u16_max)"

definition Front_complete_directory_request ::
    "bytes \<Rightarrow> u64 \<Rightarrow> bytes list \<Rightarrow> bool \<Rightarrow> (front_state, unit) fallible" where
  "Front_complete_directory_request prefix request_id names eof =
     bind_s (lift_s (ensure (list_all valid_child_name names)
       (Error_from ''invalid directory response child name''))) (\<lambda>_.
     bind_s (lift_s (normalise_request_prefix prefix)) (\<lambda>trimmed.
     bind_s (read_s (\<lambda>s. ensure (fmlookup (response_prefixes s) request_id = Some trimmed \<and>
         request_id |\<in>| directory_response_requests s) (Error ENOENT))) (\<lambda>_.
       fill_response request_id (DirectoryAccepted names eof))))"

definition Front_reject_request :: "bytes \<Rightarrow> u64 \<Rightarrow> bytes \<Rightarrow> (front_state, unit) fallible" where
  "Front_reject_request prefix request_id message =
     bind_s (lift_s (normalise_request_prefix prefix)) (\<lambda>trimmed.
     bind_s (read_s (\<lambda>s. ensure (fmlookup (response_prefixes s) request_id = Some trimmed) (Error ENOENT))) (\<lambda>_.
       fill_response request_id (RequestRejected message)))"

definition complete_write_result :: "bytes \<Rightarrow> u64 \<Rightarrow> write_relay_reply \<Rightarrow> (front_state, unit) fallible" where
  "complete_write_result prefix request_id reply =
     bind_s (lift_s (normalise_request_prefix prefix)) (\<lambda>prefix.
     bind_s (read_s (\<lambda>s. ensure (prefix |\<in>| write_relay_prefixes s) (Error ENOENT))) (\<lambda>_.
     bind_s (read_s (\<lambda>s. ensure (fmlookup (write_relay_responses s) request_id \<noteq> None) (Error ENOENT))) (\<lambda>_.
       modify_s (\<lambda>s. s\<lparr>write_relay_responses := fmupd request_id (Some reply) (write_relay_responses s)\<rparr>))))"

definition Front_complete_write :: "bytes \<Rightarrow> u64 \<Rightarrow> u32 \<Rightarrow> (front_state, unit) fallible" where
  "Front_complete_write prefix request_id count = complete_write_result prefix request_id (WriteAccepted count)"

definition Front_reject_write :: "bytes \<Rightarrow> u64 \<Rightarrow> bytes \<Rightarrow> (front_state, unit) fallible" where
  "Front_reject_write prefix request_id message = complete_write_result prefix request_id (WriteRejected message)"

definition complete_remove_result :: "bytes \<Rightarrow> u64 \<Rightarrow> remove_relay_reply \<Rightarrow> (front_state, unit) fallible" where
  "complete_remove_result prefix request_id reply =
     bind_s (lift_s (normalise_request_prefix prefix)) (\<lambda>prefix.
     bind_s (read_s (\<lambda>s. ensure (prefix |\<in>| remove_relay_prefixes s) (Error ENOENT))) (\<lambda>_.
     bind_s (read_s (\<lambda>s. ensure (fmlookup (remove_relay_responses s) request_id \<noteq> None) (Error ENOENT))) (\<lambda>_.
       modify_s (\<lambda>s. s\<lparr>remove_relay_responses := fmupd request_id (Some reply) (remove_relay_responses s)\<rparr>))))"

definition Front_complete_remove :: "bytes \<Rightarrow> u64 \<Rightarrow> (front_state, unit) fallible" where
  "Front_complete_remove prefix request_id = complete_remove_result prefix request_id RemoveAccepted"

definition Front_reject_remove :: "bytes \<Rightarrow> u64 \<Rightarrow> bytes \<Rightarrow> (front_state, unit) fallible" where
  "Front_reject_remove prefix request_id message = complete_remove_result prefix request_id (RemoveRejected message)"

definition complete_wstat_result :: "bytes \<Rightarrow> u64 \<Rightarrow> wstat_relay_reply \<Rightarrow> (front_state, unit) fallible" where
  "complete_wstat_result prefix request_id reply =
     bind_s (lift_s (normalise_request_prefix prefix)) (\<lambda>prefix.
     bind_s (read_s (\<lambda>s. ensure (prefix |\<in>| wstat_relay_prefixes s) (Error ENOENT))) (\<lambda>_.
     bind_s (read_s (\<lambda>s. ensure (fmlookup (wstat_relay_responses s) request_id \<noteq> None) (Error ENOENT))) (\<lambda>_.
       modify_s (\<lambda>s. s\<lparr>wstat_relay_responses := fmupd request_id (Some reply) (wstat_relay_responses s)\<rparr>))))"

definition Front_complete_wstat :: "bytes \<Rightarrow> u64 \<Rightarrow> (front_state, unit) fallible" where
  "Front_complete_wstat prefix request_id = complete_wstat_result prefix request_id WstatAccepted"

definition Front_reject_wstat :: "bytes \<Rightarrow> u64 \<Rightarrow> bytes \<Rightarrow> (front_state, unit) fallible" where
  "Front_reject_wstat prefix request_id message = complete_wstat_result prefix request_id (WstatRejected message)"

definition complete_create_result :: "bytes \<Rightarrow> u64 \<Rightarrow> create_relay_reply \<Rightarrow> (front_state, unit) fallible" where
  "complete_create_result prefix request_id reply =
     bind_s (lift_s (normalise_request_prefix prefix)) (\<lambda>prefix.
     bind_s (read_s (\<lambda>s. ensure (prefix |\<in>| write_relay_prefixes s) (Error ENOENT))) (\<lambda>_.
     bind_s (read_s (\<lambda>s. ensure (fmlookup (create_relay_responses s) request_id \<noteq> None) (Error ENOENT))) (\<lambda>_.
       modify_s (\<lambda>s. s\<lparr>create_relay_responses := fmupd request_id (Some reply) (create_relay_responses s)\<rparr>))))"

definition drop_create_target :: "u64 \<Rightarrow> front_state \<Rightarrow> front_state" where
  "drop_create_target request_id s = s\<lparr>create_targets := fmdrop request_id (create_targets s)\<rparr>"

text \<open>\<^verbatim>\<open>reject_create\<close> takes the lock twice.\<close>

definition Front_reject_create ::
    "bytes \<Rightarrow> u64 \<Rightarrow> bytes \<Rightarrow> (front_state \<Rightarrow> front_state) \<Rightarrow> (front_state, unit) fallible" where
  "Front_reject_create prefix request_id message others =
     bind_s (modify_s (drop_create_target request_id)) (\<lambda>_.
     bind_s (modify_s others) (\<lambda>_.
       complete_create_result prefix request_id (CreateRejected message)))"

text \<open>\<^verbatim>\<open>complete_create_with\<close> inserts the accepted node, lets the owner publish below it with the lock
  free, and then makes the reply visible. \<open>publish\<close> stands for the owner's closure together with what
  other threads do until the lock is taken again.\<close>

definition accept_create :: "bytes \<Rightarrow> u64 \<Rightarrow> qid \<Rightarrow> (front_state, pending_create) fallible" where
  "accept_create prefix request_id q =
     bind_s (read_s (\<lambda>s. ensure (prefix |\<in>| write_relay_prefixes s \<and>
       fmlookup (create_relay_responses s) request_id = Some None) (Error ENOENT))) (\<lambda>_.
     bind_s (read_s (\<lambda>s. ok_or (fmlookup (create_targets s) request_id) (Error ENOENT))) (\<lambda>target.
       if pc_prefix target \<noteq> prefix then throw_s (Error ENOENT)
       else bind_s (insert_created_relay_node (pc_parent target) (pc_name target) q
         (pc_generation target) (pc_prefix target)) (\<lambda>_. return_s target)))"

definition withdraw_create :: "u64 \<Rightarrow> qid \<Rightarrow> error \<Rightarrow> (front_state, unit) fallible" where
  "withdraw_create request_id q e =
     bind_s (read_s (\<lambda>s. and_then (node_id_for_qid_path (qpath q) s) (\<lambda>nid. path_relative_to nid ROOT_ID s))) (\<lambda>target_path.
     bind_s (remove_subtree_if_exists target_path) (\<lambda>_.
     bind_s (modify_s (drop_create_target request_id)) (\<lambda>_.
     bind_s (modify_s (\<lambda>s. if fmlookup (create_relay_responses s) request_id = None then s
       else s\<lparr>create_relay_responses := fmupd request_id
         (Some (CreateRejected (from_utf8_lossy (error_message e)))) (create_relay_responses s)\<rparr>)) (\<lambda>_.
       throw_s e))))"

definition announce_create :: "u64 \<Rightarrow> qid \<Rightarrow> pending_create \<Rightarrow> (front_state, unit) fallible" where
  "announce_create request_id q target =
     bind_s (modify_s (drop_create_target request_id)) (\<lambda>_.
     bind_s (read_s (\<lambda>s. Inr (fmlookup (create_relay_responses s) request_id = Some None))) (\<lambda>waiting.
       if waiting then
         modify_s (\<lambda>s. s\<lparr>create_relay_responses := fmupd request_id
           (Some (CreateAccepted (qtype q) (qversion q) (qpath q))) (create_relay_responses s)\<rparr>)
       else
         bind_s (read_s (path_relative_to (pc_parent target) ROOT_ID)) (\<lambda>parent_path.
         bind_s (remove_subtree_if_exists (created_child_path parent_path (pc_name target))) (\<lambda>_.
           throw_s (Error ENOENT)))))"

definition Front_complete_create_with ::
    "bytes \<Rightarrow> u64 \<Rightarrow> qid \<Rightarrow> (front_state, unit) fallible \<Rightarrow> (front_state, unit) fallible" where
  "Front_complete_create_with prefix request_id q publish =
     bind_s (lift_s (normalise_request_prefix prefix)) (\<lambda>prefix.
     bind_s (accept_create prefix request_id q) (\<lambda>target s.
       case publish s of
         (Inl e, t) \<Rightarrow> withdraw_create request_id q e t
       | (Inr _, t) \<Rightarrow> announce_create request_id q target t))"

definition Front_complete_create ::
    "bytes \<Rightarrow> u64 \<Rightarrow> qid \<Rightarrow> (front_state \<Rightarrow> front_state) \<Rightarrow> (front_state, unit) fallible" where
  "Front_complete_create prefix request_id q others =
     Front_complete_create_with prefix request_id q (modify_s others)"

definition complete_child_directory_resolution_result ::
    "bytes \<Rightarrow> u64 \<Rightarrow> child_directory_reply \<Rightarrow> (front_state, unit) fallible" where
  "complete_child_directory_resolution_result prefix request_id reply =
     bind_s (lift_s (normalise_request_prefix prefix)) (\<lambda>prefix.
     bind_s (read_s (\<lambda>s. ok_or (fmlookup (child_directory_resolution_requests s) request_id) (Error ENOENT))) (\<lambda>key.
     bind_s (read_s (\<lambda>s. ok_or (fmlookup (child_directory_resolutions s) key) (Error ENOENT))) (\<lambda>resolution.
       if res_prefix resolution \<noteq> prefix then throw_s (Error ENOENT)
       else if res_reply resolution \<noteq> None
       then throw_s (Error_from ''child directory resolution already completed'')
       else modify_s (\<lambda>s. s\<lparr>child_directory_resolutions :=
         fmupd key (resolution\<lparr>res_reply := Some reply\<rparr>) (child_directory_resolutions s)\<rparr>))))"

definition Front_complete_child_directory_resolution ::
    "bytes \<Rightarrow> u64 \<Rightarrow> pushed_entry_metadata \<Rightarrow> (front_state, unit) fallible" where
  "Front_complete_child_directory_resolution prefix request_id m =
     (if meta_length m \<noteq> 0 then throw_s (Error_from ''pushed directory length must be zero'')
      else complete_child_directory_resolution_result prefix request_id (ChildAccepted m))"

definition Front_reject_child_directory_resolution ::
    "bytes \<Rightarrow> u64 \<Rightarrow> bytes \<Rightarrow> (front_state, unit) fallible" where
  "Front_reject_child_directory_resolution prefix request_id message =
     complete_child_directory_resolution_result prefix request_id (ChildRejected message)"

definition complete_rename_result :: "bytes \<Rightarrow> u64 \<Rightarrow> rename_relay_reply \<Rightarrow> (front_state, unit) fallible" where
  "complete_rename_result prefix request_id reply =
     bind_s (lift_s (normalise_request_prefix prefix)) (\<lambda>prefix.
     bind_s (read_s (\<lambda>s. ok_or (fmlookup (rename_relay_responses s) request_id) (Error ENOENT))) (\<lambda>(request_prefix, slot).
       if request_prefix \<noteq> prefix then throw_s (Error ENOENT)
       else if slot \<noteq> None then throw_s (Error_from ''rename relay already completed'')
       else modify_s (\<lambda>s. s\<lparr>rename_relay_responses :=
         fmupd request_id (request_prefix, Some reply) (rename_relay_responses s)\<rparr>)))"

definition Front_complete_rename :: "bytes \<Rightarrow> u64 \<Rightarrow> (front_state, unit) fallible" where
  "Front_complete_rename prefix request_id = complete_rename_result prefix request_id RenameAccepted"

definition Front_reject_rename :: "bytes \<Rightarrow> u64 \<Rightarrow> bytes \<Rightarrow> (front_state, unit) fallible" where
  "Front_reject_rename prefix request_id message = complete_rename_result prefix request_id (RenameRejected message)"

end
