(* ===== verification/R9P_Front_Tree.thy ===== *)
theory R9P_Front_Tree
  imports R9P_Front_Api
begin

text \<open>
  The file tree a front serves to one session (\<^verbatim>\<open>front/src/tree.rs\<close>, \<^verbatim>\<open>tree/rename.rs\<close> and
  \<^verbatim>\<open>tree/child_directory_resolution.rs\<close>). A handler works on the shared state, under the front's
  lock, and on the session's own tables. A handler that relays to the owner takes the lock several
  times: each hold of the lock is one transformer, and the handler strings them together with the
  turns of its wait and with what other threads do while the lock is free.
\<close>

section \<open>A session\<close>

record fid_binding =
  fb_node :: nat
  fb_root :: nat
  fb_session_id :: u64
  fb_uname :: bytes
  fb_aname :: bytes
  fb_principal_id :: bytes

record relay_buffer =
  rb_prefix :: bytes
  rb_bytes :: bytes
  rb_context :: request_context

record directory_relay_snapshot =
  ds_node :: nat
  ds_entries :: "nat list"
  ds_names :: "bytes fset"
  ds_eof :: bool
  ds_inflight :: "u64 option"

definition DirectoryRelaySnapshot_new :: "nat \<Rightarrow> directory_relay_snapshot" where
  "DirectoryRelaySnapshot_new nid =
     \<lparr>ds_node = nid, ds_entries = [], ds_names = {||}, ds_eof = False, ds_inflight = None\<rparr>"

record front_tree =
  ft_session_id :: u64
  ft_fids :: "(fid, fid_binding) fmap"
  ft_open_modes :: "(fid, u8) fmap"
  ft_rpc_buffers :: "(fid, relay_buffer) fmap"
  ft_rpc_inflight :: "(fid, u64) fmap"
  ft_snapshot_inflight :: "(fid, u64) fmap"
  ft_directory_snapshots :: "(fid, directory_relay_snapshot) fmap"
  ft_write_buffers :: "(fid, relay_buffer) fmap"

definition FrontTree_new :: "u64 \<Rightarrow> front_tree" where
  "FrontTree_new session_id =
     \<lparr>ft_session_id = session_id, ft_fids = fmempty, ft_open_modes = fmempty, ft_rpc_buffers = fmempty,
      ft_rpc_inflight = fmempty, ft_snapshot_inflight = fmempty, ft_directory_snapshots = fmempty,
      ft_write_buffers = fmempty\<rparr>"

type_synonym tree_state = "front_state \<times> front_tree"
type_synonym 'a tree_op = "(tree_state, 'a) fallible"

definition on_state :: "(front_state, 'a) fallible \<Rightarrow> 'a tree_op" where
  "on_state m = (\<lambda>(s, ft). case m s of (r, t) \<Rightarrow> (r, (t, ft)))"

definition on_tree :: "(front_tree \<Rightarrow> front_tree) \<Rightarrow> unit tree_op" where
  "on_tree f = (\<lambda>(s, ft). (Inr (), (s, f ft)))"

definition the_binding :: "fid \<Rightarrow> fid_binding tree_op" where
  "the_binding fid = read_s (\<lambda>(s, ft). ok_or (fmlookup (ft_fids ft) fid) (Error EBADFID))"

definition ask :: "(front_state \<Rightarrow> 'a result) \<Rightarrow> 'a tree_op" where
  "ask h = read_s (\<lambda>(s, ft). h s)"

definition front_bind_fid :: "fid \<Rightarrow> fid_binding \<Rightarrow> unit tree_op" where
  "front_bind_fid fid binding =
     bind_s (on_state (retain_fid_node (fb_node binding))) (\<lambda>_.
     bind_s (read_s (\<lambda>(s, ft). Inr (fmlookup (ft_fids ft) fid))) (\<lambda>previous.
     bind_s (on_tree (\<lambda>ft. ft\<lparr>ft_fids := fmupd fid binding (ft_fids ft)\<rparr>)) (\<lambda>_.
       case previous of
         Some b \<Rightarrow> on_state (release_fid_node (fb_node b))
       | None \<Rightarrow> return_s ())))"

definition front_unbind_fid :: "fid \<Rightarrow> unit tree_op" where
  "front_unbind_fid fid =
     bind_s (read_s (\<lambda>(s, ft). Inr (fmlookup (ft_fids ft) fid))) (\<lambda>binding.
     bind_s (on_tree (\<lambda>ft. ft\<lparr>ft_fids := fmdrop fid (ft_fids ft)\<rparr>)) (\<lambda>_.
       case binding of
         Some b \<Rightarrow> on_state (release_fid_node (fb_node b))
       | None \<Rightarrow> return_s ()))"

definition accepts_open_mode :: "fid \<Rightarrow> u8 \<Rightarrow> bool tree_op" where
  "accepts_open_mode fid mode =
     bind_s (the_binding fid) (\<lambda>b. ask (\<lambda>s. map_ok (\<lambda>nd. open_allowed nd mode) (get_node (fb_node b) s)))"

definition request_context_for ::
    "fid_binding \<Rightarrow> fid \<Rightarrow> bytes \<Rightarrow> bytes \<Rightarrow> u64 \<Rightarrow> u32 \<Rightarrow> u8 \<Rightarrow> u64 \<Rightarrow> request_context" where
  "request_context_for b fid front_path target_path offset count mode gen =
     \<lparr>ctx_principal_id = fb_principal_id b, ctx_uname = from_utf8_lossy (fb_uname b),
      ctx_aname = from_utf8_lossy (fb_aname b), ctx_session_id = fb_session_id b, ctx_fid = fid,
      ctx_front_path = front_path, ctx_target_path = target_path, ctx_offset = offset,
      ctx_count = count, ctx_open_mode = mode, ctx_pushed_generation = gen\<rparr>"

text \<open>The context of a request on the node a fid is bound to: its path from the principal's root, its
  path from the root of the front, and the generation it was pushed with.\<close>

definition node_context ::
    "fid_binding \<Rightarrow> fid \<Rightarrow> u64 \<Rightarrow> u32 \<Rightarrow> u8 \<Rightarrow> front_state \<Rightarrow> request_context result" where
  "node_context b fid offset count mode s =
     and_then (path_relative_to (fb_node b) (fb_root b) s) (\<lambda>target_path.
     and_then (path_relative_to (fb_node b) ROOT_ID s) (\<lambda>front_path.
     and_then (get_node (fb_node b) s) (\<lambda>nd.
       Inr (request_context_for b fid front_path target_path offset count mode (node_generation nd)))))"

definition open_mode_of :: "fid \<Rightarrow> front_tree \<Rightarrow> u8" where
  "open_mode_of fid ft = (case fmlookup (ft_open_modes ft) fid of Some m \<Rightarrow> m | None \<Rightarrow> 0)"

text \<open>\<^verbatim>\<open>let request_id = state.next_request_id; state.next_request_id = \<dots>.saturating_add(1)\<close>\<close>

definition take_request_id :: "(front_state, u64) fallible" where
  "take_request_id s = (Inr (next_request_id s), s\<lparr>next_request_id := saturating_add (next_request_id s) 1\<rparr>)"

definition queue_request :: "u64 \<Rightarrow> bytes \<Rightarrow> bytes \<Rightarrow> request_context \<Rightarrow> front_state \<Rightarrow> front_state" where
  "queue_request request_id prefix bs context s =
     s\<lparr>pending_requests := pending_requests s @
        [\<lparr>in_request_id = request_id, in_prefix = prefix, in_bytes = bs, in_context = context\<rparr>]\<rparr>"

section \<open>Attach, open, stat\<close>

definition front_attach :: "fid \<Rightarrow> bytes \<Rightarrow> bytes \<Rightarrow> qid tree_op" where
  "front_attach fid uname aname =
     bind_s (ask (attach_root_for uname aname)) (\<lambda>root.
     bind_s (ask (\<lambda>s. Inr (case fmlookup (principal_roots s) uname of
         Some r \<Rightarrow> pr_principal_id r | None \<Rightarrow> from_utf8_lossy uname))) (\<lambda>principal_id.
     bind_s (ask (qid_for root)) (\<lambda>q.
     bind_s (read_s (\<lambda>(s, ft). Inr (ft_session_id ft))) (\<lambda>session_id.
     bind_s (front_bind_fid fid \<lparr>fb_node = root, fb_root = root, fb_session_id = session_id,
         fb_uname = uname, fb_aname = aname, fb_principal_id = principal_id\<rparr>) (\<lambda>_.
       return_s q)))))"

definition front_open :: "fid \<Rightarrow> qid \<Rightarrow> u8 \<Rightarrow> open_file tree_op" where
  "front_open fid q mode =
     bind_s (the_binding fid) (\<lambda>b.
     bind_s (ask (qid_for (fb_node b))) (\<lambda>held.
       if qpath held \<noteq> qpath q then throw_s (Error EBADFID)
       else bind_s (ask (get_node (fb_node b))) (\<lambda>nd.
         if \<not> open_allowed nd mode then throw_s (Error EPERM)
         else bind_s (on_tree (\<lambda>ft. ft\<lparr>ft_open_modes := fmupd fid mode (ft_open_modes ft)\<rparr>)) (\<lambda>_.
           ask (\<lambda>s. Inr \<lparr>of_qid = q, of_iounit = front_iounit (protocol s)\<rparr>)))))"

definition front_stat :: "qid \<Rightarrow> stat tree_op" where
  "front_stat q = ask (\<lambda>s. and_then (node_id_for_qid_path (qpath q) s) (\<lambda>nid. stat_for nid s))"

section \<open>Walking\<close>

definition MAX_PENDING_RESOLUTIONS :: usize where "MAX_PENDING_RESOLUTIONS = 256"

definition append_path :: "bytes \<Rightarrow> bytes \<Rightarrow> bytes" where
  "append_path parent name = (if parent = [] then name else parent @ SLASH # name)"

text \<open>The first hold of the lock in \<^verbatim>\<open>resolve_child_directory\<close>: the child may be there by now, or
  there is no resolver, or the request joins the resolution in progress or starts one.\<close>

datatype resolution_start = Resolved "nat option" | Awaiting

definition start_resolution ::
    "fid_binding \<Rightarrow> fid \<Rightarrow> nat \<Rightarrow> bytes \<Rightarrow> child_directory_resolver \<Rightarrow> (front_state, unit) fallible" where
  "start_resolution b fid parent name resolver =
     bind_s (read_s (\<lambda>s. ensure (fcard (fmdom (child_directory_resolutions s)) < MAX_PENDING_RESOLUTIONS)
       (Error_from ''child directory resolution capacity reached''))) (\<lambda>_.
     bind_s (lift_s (ensure (is_utf8 name) (Error_from ''child directory name must be UTF-8''))) (\<lambda>_.
     bind_s (read_s (path_relative_to parent (fb_root b))) (\<lambda>target.
     bind_s (read_s (path_relative_to parent ROOT_ID)) (\<lambda>front_path.
     bind_s (read_s (get_node parent)) (\<lambda>nd.
     bind_s take_request_id (\<lambda>request_id.
       modify_s (\<lambda>s. queue_request request_id (resolution_prefix resolver) name
           (request_context_for b fid (append_path front_path name) (append_path target name) 0 0 0 (node_generation nd))
         (s\<lparr>child_directory_resolutions := fmupd (parent, name)
              \<lparr>res_request_id = request_id, res_prefix = resolution_prefix resolver,
               res_read_prefix = resolver_read_prefix resolver, res_removal = resolver_removal resolver,
               res_reply = None, res_waiters = 1\<rparr> (child_directory_resolutions s),
            child_directory_resolution_requests :=
              fmupd request_id (parent, name) (child_directory_resolution_requests s)\<rparr>))))))))"

definition join_resolution ::
    "fid_binding \<Rightarrow> fid \<Rightarrow> nat \<Rightarrow> bytes \<Rightarrow> child_directory_resolver \<Rightarrow> (front_state, unit) fallible" where
  "join_resolution b fid parent name resolver s =
     (case fmlookup (child_directory_resolutions s) (parent, name) of
        Some r \<Rightarrow>
          (Inr (), s\<lparr>child_directory_resolutions := fmupd (parent, name)
             (r\<lparr>res_waiters := usize_saturating_add (res_waiters r) 1\<rparr>) (child_directory_resolutions s)\<rparr>)
      | None \<Rightarrow> start_resolution b fid parent name resolver s)"

definition begin_resolution ::
    "fid_binding \<Rightarrow> fid \<Rightarrow> nat \<Rightarrow> bytes \<Rightarrow> (front_state, resolution_start) fallible" where
  "begin_resolution b fid parent name =
     bind_s (read_s (\<lambda>s. ensure (\<not> node_is_detached parent s) (Error ENOENT))) (\<lambda>_.
     bind_s (read_s (get_node parent)) (\<lambda>nd.
       case node_body nd of
         Dir d \<Rightarrow>
           (case fmlookup (children d) name of
              Some c \<Rightarrow> return_s (Resolved (Some c))
            | None \<Rightarrow>
                (case child_resolver d of
                   None \<Rightarrow> return_s (Resolved None)
                 | Some resolver \<Rightarrow>
                     bind_s (join_resolution b fid parent name resolver) (\<lambda>_. return_s Awaiting)))
       | _ \<Rightarrow> return_s (Resolved None)))"

definition note_rejected :: "nat \<times> bytes \<Rightarrow> error \<Rightarrow> front_state \<Rightarrow> front_state" where
  "note_rejected key e s =
     (case fmlookup (child_directory_resolutions s) key of
        None \<Rightarrow> s
      | Some r \<Rightarrow> s\<lparr>child_directory_resolutions := fmupd key
          (r\<lparr>res_reply := Some (ChildRejected (from_utf8_lossy (error_message e)))\<rparr>)
          (child_directory_resolutions s)\<rparr>)"

definition wait_on :: "nat \<times> bytes \<Rightarrow> bool \<Rightarrow> front_state \<Rightarrow> nat option result option \<times> front_state" where
  "wait_on key expired s =
     (if expired then
        (Some (Inl (Error_from ''child directory resolution timed out awaiting response'')),
         finish_child_directory_waiter key s)
      else (None, s))"

definition poll_child_directory :: "nat \<Rightarrow> bytes \<Rightarrow> (front_state, nat option) poll" where
  "poll_child_directory parent name cancelled expired s =
     (let key = (parent, name); finish = finish_child_directory_waiter key in
      if node_is_detached parent s then (Some (Inl (Error ENOENT)), finish s)
      else case child_of parent name s of
        Inl e \<Rightarrow> (Some (Inl e), finish s)
      | Inr (Some c) \<Rightarrow> (Some (Inr (Some c)), finish s)
      | Inr None \<Rightarrow>
          (case fmlookup (child_directory_resolutions s) key of
             None \<Rightarrow> (Some (Inl (Error ENOENT)), s)
           | Some r \<Rightarrow>
               (case res_reply r of
                  None \<Rightarrow> wait_on key expired s
                | Some (ChildRejected message) \<Rightarrow> (Some (Inl (Error message)), finish s)
                | Some (ChildAccepted m) \<Rightarrow>
                    (case insert_pushed_child_directory parent name m (res_read_prefix r) (res_removal r) s of
                       (Inr c, t) \<Rightarrow> (Some (Inr (Some c)), finish t)
                     | (Inl e, t) \<Rightarrow> wait_on key expired (note_rejected key e t)))))"

definition resolve_child_directory ::
    "fid_binding \<Rightarrow> fid \<Rightarrow> nat \<Rightarrow> bytes \<Rightarrow> front_state turn list \<Rightarrow> front_state
     \<Rightarrow> nat option result option \<times> front_state" where
  "resolve_child_directory b fid parent name turns s =
     (case begin_resolution b fid parent name s of
        (Inl e, t) \<Rightarrow> (Some (Inl e), t)
      | (Inr (Resolved c), t) \<Rightarrow> (Some (Inr c), t)
      | (Inr Awaiting, t) \<Rightarrow> wait_loop (poll_child_directory parent name) turns t)"

text \<open>One name of a walk takes the lock to look the child up, again if the child has to be resolved,
  and again for the child's qid. The environment of a name is what other threads do before each of
  them, with the turns of the resolution.\<close>

type_synonym walk_env =
  "(front_state \<Rightarrow> front_state) \<times> (front_state \<Rightarrow> front_state) \<times> front_state turn list \<times> (front_state \<Rightarrow> front_state)"

definition calm_env :: walk_env where
  "calm_env = ((\<lambda>s. s), (\<lambda>s. s), [(\<lambda>s. s, False, True)], (\<lambda>s. s))"

datatype walk_child = To nat | Missing

definition find_child :: "fid_binding \<Rightarrow> nat \<Rightarrow> bytes \<Rightarrow> front_state \<Rightarrow> walk_child result" where
  "find_child b here name s =
     (if name = [DOT, DOT] then
        (if here = fb_root b then Inr (To here)
         else map_ok (\<lambda>nd. To (node_parent nd)) (get_node here s))
      else
        map_ok (\<lambda>nd. case node_body nd of
            Dir d \<Rightarrow> (case fmlookup (children d) name of Some c \<Rightarrow> To c | None \<Rightarrow> Missing)
          | _ \<Rightarrow> Missing) (get_node here s))"

text \<open>A walk that cannot go on answers the qids it has, unless it has none.\<close>

definition short_walk :: "error \<Rightarrow> nat \<Rightarrow> qid list \<Rightarrow> (nat \<times> qid list) result" where
  "short_walk e here qids = (if qids = [] then Inl e else Inr (here, qids))"

fun walk_loop ::
    "fid_binding \<Rightarrow> fid \<Rightarrow> bytes list \<Rightarrow> walk_env list \<Rightarrow> nat \<Rightarrow> qid list \<Rightarrow> front_state
     \<Rightarrow> (nat \<times> qid list) result option \<times> front_state"
and walk_to ::
    "fid_binding \<Rightarrow> fid \<Rightarrow> bytes list \<Rightarrow> walk_env list \<Rightarrow> nat \<Rightarrow> qid list \<Rightarrow> front_state
     \<Rightarrow> (nat \<times> qid list) result option \<times> front_state" where
  "walk_loop b fid [] envs here qids s = (Some (Inr (here, qids)), s)"
| "walk_loop b fid (name # names) [] here qids s = (None, s)"
| "walk_loop b fid (name # names) ((before, between, turns, after) # envs) here qids s =
     (let s = before s in
      case find_child b here name s of
        Inl e \<Rightarrow> (Some (Inl e), s)
      | Inr (To nid) \<Rightarrow> walk_to b fid names envs nid qids (after s)
      | Inr Missing \<Rightarrow>
          (case resolve_child_directory b fid here name turns (between s) of
             (None, t) \<Rightarrow> (None, t)
           | (Some (Inl e), t) \<Rightarrow> (Some (short_walk e here qids), t)
           | (Some (Inr None), t) \<Rightarrow> (Some (short_walk (Error ENOENT) here qids), t)
           | (Some (Inr (Some nid)), t) \<Rightarrow> walk_to b fid names envs nid qids (after t)))"
| "walk_to b fid names envs nid qids s =
     (case qid_for nid s of
        Inl e \<Rightarrow> (Some (Inl e), s)
      | Inr q \<Rightarrow> walk_loop b fid names envs nid (qids @ [q]) s)"

definition front_walk ::
    "fid \<Rightarrow> fid \<Rightarrow> bytes list \<Rightarrow> walk_env list \<Rightarrow> (front_state \<Rightarrow> front_state) \<Rightarrow> tree_state
     \<Rightarrow> qid list result option \<times> tree_state" where
  "front_walk fid newfid names envs others = (\<lambda>(s, ft).
     case fmlookup (ft_fids ft) fid of
       None \<Rightarrow> (Some (Inl (Error EBADFID)), (s, ft))
     | Some b \<Rightarrow>
         (case walk_loop b fid names envs (fb_node b) [] s of
            (None, t) \<Rightarrow> (None, (t, ft))
          | (Some (Inl e), t) \<Rightarrow> (Some (Inl e), (t, ft))
          | (Some (Inr (here, qids)), t) \<Rightarrow>
              (if length qids = length names then
                 (case front_bind_fid newfid (b\<lparr>fb_node := here\<rparr>) (others t, ft) of
                    (Inl e, st) \<Rightarrow> (Some (Inl e), st)
                  | (Inr _, st) \<Rightarrow> (Some (Inr qids), st))
               else (Some (Inr qids), (t, ft)))))"

section \<open>Relayed operations\<close>

text \<open>A handler that waits: a first hold of the lock that queues the request, the wait, and what
  follows a reply. \<open>None\<close> is the handler still waiting.\<close>

definition await ::
    "'a tree_op \<Rightarrow> ('a \<Rightarrow> (front_state, 'b) poll) \<Rightarrow> front_state turn list \<Rightarrow> ('a \<Rightarrow> 'b \<Rightarrow> 'c tree_op)
     \<Rightarrow> tree_state \<Rightarrow> 'c result option \<times> tree_state" where
  "await first poll turns finish st =
     (case first st of
        (Inl e, st) \<Rightarrow> (Some (Inl e), st)
      | (Inr x, (s, ft)) \<Rightarrow>
          (case wait_loop (poll x) turns s of
             (None, t) \<Rightarrow> (None, (t, ft))
           | (Some (Inl e), t) \<Rightarrow> (Some (Inl e), (t, ft))
           | (Some (Inr y), t) \<Rightarrow>
               (case finish x y (t, ft) of (r, st) \<Rightarrow> (Some r, st))))"

text \<open>The check every relayed operation starts with: the fid is bound, and to the node of the qid.\<close>

definition checked_binding :: "fid \<Rightarrow> qid \<Rightarrow> fid_binding tree_op" where
  "checked_binding fid q =
     bind_s (the_binding fid) (\<lambda>b.
     bind_s (ask (qid_for (fb_node b))) (\<lambda>held.
       if qpath held \<noteq> qpath q then throw_s (Error EBADFID) else return_s b))"

subsection \<open>Create\<close>

definition create_prefix_of :: "nat \<Rightarrow> bytes \<Rightarrow> front_state \<Rightarrow> bytes result" where
  "create_prefix_of parent name s =
     and_then (get_node parent s) (\<lambda>nd.
       case node_body nd of
         Dir d \<Rightarrow>
           (case create_relay nd of
              Some prefix \<Rightarrow> Inr prefix
            | None \<Rightarrow> if fmlookup (children d) name \<noteq> None then Inl (Error EEXIST) else Inl (Error EPERM))
       | _ \<Rightarrow> Inl (Error ENOTDIR))"

definition create_request ::
    "fid \<Rightarrow> qid \<Rightarrow> bytes \<Rightarrow> u32 \<Rightarrow> u8 \<Rightarrow> (u64 \<times> fid_binding) tree_op" where
  "create_request fid q name perm mode =
     bind_s (checked_binding fid q) (\<lambda>b.
     bind_s (ask (create_prefix_of (fb_node b) name)) (\<lambda>prefix.
     bind_s (lift_s (ensure (is_utf8 name) (Error_from ''create name is not utf-8''))) (\<lambda>_.
     bind_s (ask (path_relative_to (fb_node b) (fb_root b))) (\<lambda>parent_path.
     bind_s (ask (path_relative_to (fb_node b) ROOT_ID)) (\<lambda>parent_front_path.
     bind_s (ask (get_node (fb_node b))) (\<lambda>nd.
     bind_s (on_state take_request_id) (\<lambda>request_id.
     bind_s (on_state (modify_s (\<lambda>s.
       s\<lparr>create_relay_responses := fmupd request_id None (create_relay_responses s),
         create_targets := fmupd request_id \<lparr>pc_parent = fb_node b, pc_name = name,
           pc_generation = node_generation nd, pc_prefix = prefix\<rparr> (create_targets s),
         create_pending := create_pending s @ [\<lparr>cr_request_id = request_id, cr_prefix = prefix,
           cr_name = name, cr_perm = perm, cr_mode = mode,
           cr_context = request_context_for b fid (created_child_path parent_front_path name)
             (created_child_path parent_path name) 0 0 mode (node_generation nd)\<rparr>]\<rparr>))) (\<lambda>_.
       return_s (request_id, b)))))))))"

definition create_finish :: "fid \<Rightarrow> u8 \<Rightarrow> fid_binding \<Rightarrow> qid \<Rightarrow> open_file tree_op" where
  "create_finish fid mode b q =
     bind_s (ask (node_id_for_qid_path (qpath q))) (\<lambda>nid.
     bind_s (front_bind_fid fid (b\<lparr>fb_node := nid\<rparr>)) (\<lambda>_.
     bind_s (on_tree (\<lambda>ft. ft\<lparr>ft_open_modes := fmupd fid mode (ft_open_modes ft)\<rparr>)) (\<lambda>_.
       ask (\<lambda>s. Inr \<lparr>of_qid = q, of_iounit = front_iounit (protocol s)\<rparr>))))"

definition front_create ::
    "fid \<Rightarrow> qid \<Rightarrow> bytes \<Rightarrow> u32 \<Rightarrow> u8 \<Rightarrow> front_state turn list \<Rightarrow> (front_state \<Rightarrow> front_state) \<Rightarrow> tree_state
     \<Rightarrow> open_file result option \<times> tree_state" where
  "front_create fid q name perm mode turns others =
     await (create_request fid q name perm mode) (\<lambda>(request_id, b). poll_create_relay request_id) turns
       (\<lambda>(request_id, b) made. bind_s (on_state (modify_s others)) (\<lambda>_. create_finish fid mode b made))"

subsection \<open>Read\<close>

datatype read_target =
    Target_Node nat
  | Target_Directory "stat list"
  | Target_Response u64 u64 bool
  | Target_DirectoryResponse u64 fid nat

text \<open>Queue a request whose response is kept under its id.\<close>

definition request_response ::
    "fid_binding \<Rightarrow> fid \<Rightarrow> u64 \<Rightarrow> u32 \<Rightarrow> bytes \<Rightarrow> u64 tree_op" where
  "request_response b fid offset count prefix =
     bind_s (read_s (\<lambda>(s, ft). node_context b fid offset count (open_mode_of fid ft) s)) (\<lambda>context.
     bind_s (on_state take_request_id) (\<lambda>request_id.
     bind_s (on_state (modify_s (\<lambda>s. queue_request request_id prefix [] context
       (s\<lparr>rpc_responses := fmupd request_id None (rpc_responses s),
          response_prefixes := fmupd request_id prefix (response_prefixes s)\<rparr>)))) (\<lambda>_.
       return_s request_id)))"

definition encoded_length :: "stat list \<Rightarrow> u64 result" where
  "encoded_length stats =
     map_ok (\<lambda>es. fold (\<lambda>e n. saturating_add n (word_of_nat (length e))) es 0) (collect_results Stat_encode stats)"

definition read_directory_relay ::
    "fid_binding \<Rightarrow> fid \<Rightarrow> u64 \<Rightarrow> u32 \<Rightarrow> bytes \<Rightarrow> read_target tree_op" where
  "read_directory_relay b fid offset count prefix =
     (let nid = fb_node b in
     bind_s (on_tree (\<lambda>ft. case fmlookup (ft_directory_snapshots ft) fid of
         Some snap \<Rightarrow> if ds_node snap = nid then ft
           else ft\<lparr>ft_directory_snapshots := fmupd fid (DirectoryRelaySnapshot_new nid) (ft_directory_snapshots ft)\<rparr>
       | None \<Rightarrow> ft\<lparr>ft_directory_snapshots := fmupd fid (DirectoryRelaySnapshot_new nid) (ft_directory_snapshots ft)\<rparr>)) (\<lambda>_.
     bind_s (read_s (\<lambda>(s, ft). ok_or (fmlookup (ft_directory_snapshots ft) fid) (Error EBADFID))) (\<lambda>snap.
     bind_s (ask (\<lambda>s. collect_results (\<lambda>c. stat_for c s) (ds_entries snap))) (\<lambda>stats.
     bind_s (lift_s (encoded_length stats)) (\<lambda>observed.
       if offset < observed \<or> ds_eof snap then return_s (Target_Directory stats)
       else case ds_inflight snap of
         Some request_id \<Rightarrow> return_s (Target_DirectoryResponse request_id fid nid)
       | None \<Rightarrow>
           bind_s (request_response b fid offset count prefix) (\<lambda>request_id.
           bind_s (on_state (modify_s (\<lambda>s.
             s\<lparr>directory_response_requests := finsert request_id (directory_response_requests s)\<rparr>))) (\<lambda>_.
           bind_s (on_tree (\<lambda>ft. ft\<lparr>ft_directory_snapshots :=
             fmupd fid (snap\<lparr>ds_inflight := Some request_id\<rparr>) (ft_directory_snapshots ft)\<rparr>)) (\<lambda>_.
             return_s (Target_DirectoryResponse request_id fid nid)))))))))"

definition submit_rpc :: "fid \<Rightarrow> u64 tree_op" where
  "submit_rpc fid =
     bind_s (read_s (\<lambda>(s, ft). ok_or (fmlookup (ft_rpc_buffers ft) fid)
       (Error_from ''rpc read before write on this fid''))) (\<lambda>buffer.
     bind_s (on_tree (\<lambda>ft. ft\<lparr>ft_rpc_buffers := fmdrop fid (ft_rpc_buffers ft)\<rparr>)) (\<lambda>_.
     bind_s (on_state take_request_id) (\<lambda>request_id.
     bind_s (on_state (modify_s (\<lambda>s. queue_request request_id (rb_prefix buffer) (rb_bytes buffer) (rb_context buffer)
       (s\<lparr>rpc_responses := fmupd request_id None (rpc_responses s),
          response_prefixes := fmupd request_id (rb_prefix buffer) (response_prefixes s)\<rparr>)))) (\<lambda>_.
     bind_s (on_tree (\<lambda>ft. ft\<lparr>ft_rpc_inflight := fmupd fid request_id (ft_rpc_inflight ft)\<rparr>)) (\<lambda>_.
       return_s request_id)))))"

definition read_snapshot_relay ::
    "fid_binding \<Rightarrow> fid \<Rightarrow> u64 \<Rightarrow> u32 \<Rightarrow> bytes \<Rightarrow> read_target tree_op" where
  "read_snapshot_relay b fid offset count prefix =
     bind_s (read_s (\<lambda>(s, ft). Inr (case fmlookup (ft_snapshot_inflight ft) fid of
         Some request_id \<Rightarrow> if fmlookup (rpc_responses s) request_id \<noteq> None then Some request_id else None
       | None \<Rightarrow> None))) (\<lambda>inflight.
       case inflight of
         Some request_id \<Rightarrow> return_s (Target_Response request_id offset False)
       | None \<Rightarrow>
           bind_s (on_tree (\<lambda>ft. ft\<lparr>ft_snapshot_inflight := fmdrop fid (ft_snapshot_inflight ft)\<rparr>)) (\<lambda>_.
           bind_s (request_response b fid offset count prefix) (\<lambda>request_id.
           bind_s (on_tree (\<lambda>ft. ft\<lparr>ft_snapshot_inflight := fmupd fid request_id (ft_snapshot_inflight ft)\<rparr>)) (\<lambda>_.
             return_s (Target_Response request_id offset False)))))"

definition read_target_at :: "fid \<Rightarrow> u64 \<Rightarrow> u32 \<Rightarrow> read_target tree_op" where
  "read_target_at fid offset count =
     bind_s (the_binding fid) (\<lambda>b.
     bind_s (ask (get_node (fb_node b))) (\<lambda>nd.
       case node_body nd of
         Dir d \<Rightarrow>
           (case read_relay d of
              Some prefix \<Rightarrow> read_directory_relay b fid offset count prefix
            | None \<Rightarrow> return_s (Target_Node (fb_node b)))
       | Rpc _ \<Rightarrow>
           bind_s (read_s (\<lambda>(s, ft). Inr (fmlookup (ft_rpc_inflight ft) fid))) (\<lambda>inflight.
           bind_s (case inflight of Some request_id \<Rightarrow> return_s request_id | None \<Rightarrow> submit_rpc fid) (\<lambda>request_id.
             return_s (Target_Response request_id offset False)))
       | ReadRelay prefix \<Rightarrow>
           bind_s (request_response b fid offset count prefix) (\<lambda>request_id.
             return_s (Target_Response request_id 0 True))
       | SnapshotReadRelay prefix \<Rightarrow> read_snapshot_relay b fid offset count prefix
       | _ \<Rightarrow> return_s (Target_Node (fb_node b))))"

text \<open>The loop of \<^verbatim>\<open>apply_directory_response\<close> over the names of a page: a name already listed is
  skipped, a name that is not published is an error after the names before it have been noted.\<close>

fun note_names ::
    "(bytes, nat) fmap \<Rightarrow> bytes list \<Rightarrow> bytes fset \<Rightarrow> nat list \<Rightarrow> nat list option \<times> bytes fset" where
  "note_names cs [] seen appended = (Some appended, seen)"
| "note_names cs (name # names) seen appended =
     (case fmlookup cs name of
        None \<Rightarrow> (None, seen)
      | Some c \<Rightarrow>
          (if name |\<in>| seen then note_names cs names seen appended
           else note_names cs names (finsert name seen) (appended @ [c])))"

definition put_snapshot :: "fid \<Rightarrow> directory_relay_snapshot \<Rightarrow> unit tree_op" where
  "put_snapshot fid snap =
     on_tree (\<lambda>ft. ft\<lparr>ft_directory_snapshots := fmupd fid snap (ft_directory_snapshots ft)\<rparr>)"

definition drop_response :: "u64 \<Rightarrow> unit tree_op" where
  "drop_response request_id = on_state (modify_s (remove_response_request request_id))"

definition list_page ::
    "fid \<Rightarrow> u64 \<Rightarrow> directory_relay_snapshot \<Rightarrow> (bytes, nat) fmap \<Rightarrow> bytes list \<Rightarrow> bool \<Rightarrow> read_data tree_op" where
  "list_page fid request_id snap cs names eof =
     (case note_names cs names (ds_names snap) [] of
        (None, seen) \<Rightarrow>
          bind_s (put_snapshot fid (snap\<lparr>ds_names := seen\<rparr>)) (\<lambda>_.
          bind_s (drop_response request_id) (\<lambda>_.
            throw_s (Error_from ''directory response child is not published'')))
      | (Some appended, seen) \<Rightarrow>
          bind_s (put_snapshot fid (snap\<lparr>ds_names := seen, ds_entries := ds_entries snap @ appended, ds_eof := eof\<rparr>)) (\<lambda>_.
          bind_s (ask (\<lambda>s. Inr (collect_results (\<lambda>c. stat_for c s) (ds_entries snap @ appended)))) (\<lambda>stats.
          bind_s (drop_response request_id) (\<lambda>_.
            lift_s (map_ok Read_Directory stats)))))"

definition apply_directory_response ::
    "fid \<Rightarrow> nat \<Rightarrow> u64 \<Rightarrow> (bytes list \<times> bool) result \<Rightarrow> read_data tree_op" where
  "apply_directory_response fid nid request_id response =
     bind_s (read_s (\<lambda>(s, ft). ok_or (fmlookup (ft_directory_snapshots ft) fid) (Error EBADFID))) (\<lambda>snap.
       if ds_node snap \<noteq> nid \<or> ds_inflight snap \<noteq> Some request_id then
         bind_s (drop_response request_id) (\<lambda>_.
           throw_s (Error_from ''directory response no longer matches its fid''))
       else
         let snap = snap\<lparr>ds_inflight := None\<rparr> in
         bind_s (put_snapshot fid snap) (\<lambda>_.
           case response of
             Inl e \<Rightarrow> bind_s (drop_response request_id) (\<lambda>_. throw_s e)
           | Inr (names, eof) \<Rightarrow>
               bind_s (ask (get_node nid)) (\<lambda>nd.
                 case node_body nd of
                   Dir d \<Rightarrow>
                     if read_relay d \<noteq> None then list_page fid request_id snap (children d) names eof
                     else bind_s (drop_response request_id) (\<lambda>_.
                       throw_s (Error_from ''directory relay target is no longer a relayed directory''))
                 | _ \<Rightarrow> bind_s (drop_response request_id) (\<lambda>_.
                       throw_s (Error_from ''directory relay target is no longer a relayed directory'')))))"

text \<open>\<^verbatim>\<open>read\<close> and \<^verbatim>\<open>read_with_cancel\<close>: the target is chosen under the lock, then read with the turns of
  whichever wait it needs.\<close>

definition read_from :: "u64 \<Rightarrow> u32 \<Rightarrow> front_state turn list \<Rightarrow> (front_state \<Rightarrow> front_state)
    \<Rightarrow> (front_state \<Rightarrow> front_state) \<Rightarrow> read_target \<Rightarrow> tree_state \<Rightarrow> read_data result option \<times> tree_state" where
  "read_from offset count turns before after target = (\<lambda>(s, ft).
     case target of
       Target_Node nid \<Rightarrow>
         (case read_node nid offset count turns (before s) of (r, t) \<Rightarrow> (r, (t, ft)))
     | Target_Directory stats \<Rightarrow> (Some (Inr (Read_Directory stats)), (s, ft))
     | Target_Response request_id start consume \<Rightarrow>
         (case response_read request_id start count consume turns after (before s) of (r, t) \<Rightarrow> (r, (t, ft)))
     | Target_DirectoryResponse request_id fid nid \<Rightarrow>
         (case directory_response request_id turns (before s) of
            (None, t) \<Rightarrow> (None, (t, ft))
          | (Some response, t) \<Rightarrow>
              (case apply_directory_response fid nid request_id response (after t, ft) of (r, st) \<Rightarrow> (Some r, st))))"

definition front_read :: "fid \<Rightarrow> u64 \<Rightarrow> u32 \<Rightarrow> front_state turn list \<Rightarrow> (front_state \<Rightarrow> front_state)
    \<Rightarrow> (front_state \<Rightarrow> front_state) \<Rightarrow> tree_state \<Rightarrow> read_data result option \<times> tree_state" where
  "front_read fid offset count turns before after st =
     (case read_target_at fid offset count st of
        (Inl e, st) \<Rightarrow> (Some (Inl e), st)
      | (Inr target, st) \<Rightarrow> read_from offset count turns before after target st)"

subsection \<open>Write\<close>

definition write_rpc :: "fid \<Rightarrow> u64 \<Rightarrow> bytes \<Rightarrow> bytes \<Rightarrow> request_context \<Rightarrow> unit tree_op" where
  "write_rpc fid offset bs prefix context =
     bind_s (read_s (\<lambda>(s, ft). Inr (fmlookup (ft_rpc_inflight ft) fid))) (\<lambda>previous.
     bind_s (case previous of
         None \<Rightarrow> return_s ()
       | Some request_id \<Rightarrow>
           if offset \<noteq> 0 then throw_s (Error_from ''rpc request already submitted'')
           else bind_s (on_tree (\<lambda>ft. ft\<lparr>ft_rpc_inflight := fmdrop fid (ft_rpc_inflight ft)\<rparr>)) (\<lambda>_.
             drop_response request_id)) (\<lambda>_.
       if offset = 0 then
         on_tree (\<lambda>ft. ft\<lparr>ft_rpc_buffers := fmupd fid
           \<lparr>rb_prefix = prefix, rb_bytes = bs, rb_context = context\<rparr> (ft_rpc_buffers ft)\<rparr>)
       else
         bind_s (read_s (\<lambda>(s, ft). ok_or (fmlookup (ft_rpc_buffers ft) fid)
           (Error_from ''rpc write offset without request start''))) (\<lambda>buffer.
           if rb_prefix buffer \<noteq> prefix then throw_s (Error_from ''rpc path changed while buffering'')
           else if unat offset \<noteq> length (rb_bytes buffer) then throw_s (Error_from ''rpc write offset is not sequential'')
           else on_tree (\<lambda>ft. ft\<lparr>ft_rpc_buffers := fmupd fid
             (buffer\<lparr>rb_bytes := rb_bytes buffer @ bs\<rparr>) (ft_rpc_buffers ft)\<rparr>))))"

definition write_relayed :: "fid \<Rightarrow> u64 \<Rightarrow> bytes \<Rightarrow> bytes \<Rightarrow> request_context \<Rightarrow> unit tree_op" where
  "write_relayed fid offset bs prefix context =
     bind_s (read_s (\<lambda>(s, ft). Inr (fmlookup (ft_write_buffers ft) fid))) (\<lambda>existing.
       case existing of
         None \<Rightarrow> on_tree (\<lambda>ft. ft\<lparr>ft_write_buffers := fmupd fid
           \<lparr>rb_prefix = prefix, rb_bytes = bs, rb_context = context\<rparr> (ft_write_buffers ft)\<rparr>)
       | Some buffer \<Rightarrow>
           (if rb_prefix buffer \<noteq> prefix then throw_s (Error_from ''write relay path changed while buffering'')
            else if unat (ctx_offset (rb_context buffer)) + length (rb_bytes buffer) \<ge> 2 ^ 64 then throw_s (Error EPERM)
            else if unat offset \<noteq> unat (ctx_offset (rb_context buffer)) + length (rb_bytes buffer)
            then throw_s (Error_from ''write relay offset is not sequential'')
            else on_tree (\<lambda>ft. ft\<lparr>ft_write_buffers := fmupd fid
              (buffer\<lparr>rb_bytes := rb_bytes buffer @ bs\<rparr>) (ft_write_buffers ft)\<rparr>)))"

definition write_intake :: "nat \<Rightarrow> bytes \<Rightarrow> request_context \<Rightarrow> (front_state, unit) fallible" where
  "write_intake intake_id bs context =
     bind_s (read_s (\<lambda>s. ok_or (fmlookup (intakes s) intake_id) (Error ENOENT))) (\<lambda>prefix.
     bind_s take_request_id (\<lambda>request_id.
     bind_s (place (prefix @ SLASH # dec (unat request_id) @ SLASH # str ''request'') (File bs)) (\<lambda>_.
     bind_s (place (prefix @ SLASH # str ''created'') (File (dec (unat request_id)))) (\<lambda>_.
       modify_s (queue_request request_id prefix bs context)))))"

definition node_write_relay :: "node \<Rightarrow> bytes option" where
  "node_write_relay nd =
     (case write_relay nd of
        Some prefix \<Rightarrow> Some prefix
      | None \<Rightarrow> (case node_body nd of WriteRelay prefix \<Rightarrow> Some prefix | _ \<Rightarrow> None))"

definition front_write :: "fid \<Rightarrow> u64 \<Rightarrow> bytes \<Rightarrow> u32 tree_op" where
  "front_write fid offset bs =
     bind_s (the_binding fid) (\<lambda>b.
     bind_s (read_s (\<lambda>(s, ft). node_context b fid offset (word_of_nat (length bs)) (open_mode_of fid ft) s)) (\<lambda>context.
     bind_s (lift_s (ensure (length bs \<le> u32_max) (Error EPERM))) (\<lambda>_.
     bind_s (ask (get_node (fb_node b))) (\<lambda>nd.
     bind_s (case node_body nd of
         Rpc prefix \<Rightarrow> write_rpc fid offset bs prefix context
       | _ \<Rightarrow>
           (case node_write_relay nd of
              Some prefix \<Rightarrow> write_relayed fid offset bs prefix context
            | None \<Rightarrow>
                (case node_body nd of
                   IntakeNew intake_id \<Rightarrow> on_state (write_intake intake_id bs context)
                 | _ \<Rightarrow> throw_s (Error EPERM)))) (\<lambda>_.
       return_s (word_of_nat (length bs)))))))"

subsection \<open>Clunk\<close>

definition commit_write_relay :: "relay_buffer \<Rightarrow> (front_state, u64) fallible" where
  "commit_write_relay buffer =
     bind_s take_request_id (\<lambda>request_id.
     bind_s (modify_s (\<lambda>s. queue_request request_id (rb_prefix buffer) (rb_bytes buffer) (rb_context buffer)
       (s\<lparr>write_relay_responses := fmupd request_id None (write_relay_responses s)\<rparr>))) (\<lambda>_.
       return_s request_id))"

definition drop_inflight :: "fid \<Rightarrow> unit tree_op" where
  "drop_inflight fid =
     bind_s (read_s (\<lambda>(s, ft). Inr (fmlookup (ft_rpc_inflight ft) fid, fmlookup (ft_snapshot_inflight ft) fid))) (\<lambda>found.
       case found of
         (Some request_id, _) \<Rightarrow>
           bind_s (on_tree (\<lambda>ft. ft\<lparr>ft_rpc_inflight := fmdrop fid (ft_rpc_inflight ft)\<rparr>)) (\<lambda>_. drop_response request_id)
       | (None, Some request_id) \<Rightarrow>
           bind_s (on_tree (\<lambda>ft. ft\<lparr>ft_snapshot_inflight := fmdrop fid (ft_snapshot_inflight ft)\<rparr>)) (\<lambda>_. drop_response request_id)
       | (None, None) \<Rightarrow> return_s ())"

definition drop_snapshot :: "fid \<Rightarrow> unit tree_op" where
  "drop_snapshot fid =
     bind_s (read_s (\<lambda>(s, ft). Inr (fmlookup (ft_directory_snapshots ft) fid))) (\<lambda>found.
     bind_s (on_tree (\<lambda>ft. ft\<lparr>ft_directory_snapshots := fmdrop fid (ft_directory_snapshots ft)\<rparr>)) (\<lambda>_.
       case found of
         Some snap \<Rightarrow> (case ds_inflight snap of Some request_id \<Rightarrow> drop_response request_id | None \<Rightarrow> return_s ())
       | None \<Rightarrow> return_s ()))"

definition clunk_fid :: "fid \<Rightarrow> unit tree_op" where
  "clunk_fid fid =
     bind_s (front_unbind_fid fid) (\<lambda>_.
     bind_s (on_tree (\<lambda>ft. ft\<lparr>ft_open_modes := fmdrop fid (ft_open_modes ft),
       ft_rpc_buffers := fmdrop fid (ft_rpc_buffers ft)\<rparr>)) (\<lambda>_.
     bind_s (drop_snapshot fid) (\<lambda>_.
       drop_inflight fid)))"

definition finish_clunk :: "fid \<Rightarrow> unit result \<Rightarrow> unit tree_op" where
  "finish_clunk fid relayed = bind_s (clunk_fid fid) (\<lambda>_. lift_s relayed)"

definition front_clunk ::
    "fid \<Rightarrow> front_state turn list \<Rightarrow> (front_state \<Rightarrow> front_state) \<Rightarrow> tree_state \<Rightarrow> unit result option \<times> tree_state" where
  "front_clunk fid turns others = (\<lambda>(s, ft).
     case fmlookup (ft_write_buffers ft) fid of
       None \<Rightarrow> (case finish_clunk fid (Inr ()) (s, ft) of (r, st) \<Rightarrow> (Some r, st))
     | Some buffer \<Rightarrow>
         let ft = ft\<lparr>ft_write_buffers := fmdrop fid (ft_write_buffers ft)\<rparr> in
         (case commit_write_relay buffer s of
            (Inl e, s) \<Rightarrow> (case finish_clunk fid (Inl e) (s, ft) of (r, st) \<Rightarrow> (Some r, st))
          | (Inr request_id, s) \<Rightarrow>
              (case wait_loop (\<lambda>_. poll_write_relay request_id (length (rb_bytes buffer)) False) turns s of
                 (None, s) \<Rightarrow> (None, (s, ft))
               | (Some relayed, s) \<Rightarrow>
                   (case finish_clunk fid (map_ok (\<lambda>_. ()) relayed) (others s, ft) of (r, st) \<Rightarrow> (Some r, st)))))"

subsection \<open>Remove, wstat, rename\<close>

definition remove_request :: "fid \<Rightarrow> qid \<Rightarrow> (u64 \<times> bytes) tree_op" where
  "remove_request fid q =
     bind_s (checked_binding fid q) (\<lambda>b.
     bind_s (ask (\<lambda>s. and_then (get_node (fb_node b) s) (\<lambda>nd. ok_or (remove_relay nd) (Error EPERM)))) (\<lambda>prefix.
     bind_s (ask (node_context b fid 0 0 0)) (\<lambda>context.
     bind_s (on_state take_request_id) (\<lambda>request_id.
     bind_s (on_state (modify_s (\<lambda>s. queue_request request_id prefix [] context
       (s\<lparr>remove_relay_responses := fmupd request_id None (remove_relay_responses s)\<rparr>)))) (\<lambda>_.
       return_s (request_id, ctx_front_path context))))))"

definition remove_finish :: "fid \<Rightarrow> bytes \<Rightarrow> unit tree_op" where
  "remove_finish fid front_path =
     bind_s (on_state (remove_subtree_if_exists front_path)) (\<lambda>_.
     bind_s (front_unbind_fid fid) (\<lambda>_.
     bind_s (on_tree (\<lambda>ft. ft\<lparr>ft_open_modes := fmdrop fid (ft_open_modes ft),
       ft_rpc_buffers := fmdrop fid (ft_rpc_buffers ft),
       ft_write_buffers := fmdrop fid (ft_write_buffers ft)\<rparr>)) (\<lambda>_.
     bind_s (read_s (\<lambda>(s, ft). Inr (fmlookup (ft_rpc_inflight ft) fid))) (\<lambda>inflight.
     bind_s (on_tree (\<lambda>ft. ft\<lparr>ft_rpc_inflight := fmdrop fid (ft_rpc_inflight ft)\<rparr>)) (\<lambda>_.
       case inflight of Some request_id \<Rightarrow> drop_response request_id | None \<Rightarrow> return_s ())))))"

definition front_remove ::
    "fid \<Rightarrow> qid \<Rightarrow> front_state turn list \<Rightarrow> (front_state \<Rightarrow> front_state) \<Rightarrow> tree_state \<Rightarrow> unit result option \<times> tree_state" where
  "front_remove fid q turns others =
     await (remove_request fid q) (\<lambda>(request_id, front_path). poll_remove_relay request_id) turns
       (\<lambda>(request_id, front_path) _. bind_s (on_state (modify_s others)) (\<lambda>_. remove_finish fid front_path))"

definition wstat_request :: "fid \<Rightarrow> qid \<Rightarrow> stat \<Rightarrow> u64 tree_op" where
  "wstat_request fid q st =
     bind_s (checked_binding fid q) (\<lambda>b.
     bind_s (ask (\<lambda>s. and_then (get_node (fb_node b) s) (\<lambda>nd. ok_or (wstat_relay nd) (Error EPERM)))) (\<lambda>prefix.
     bind_s (read_s (\<lambda>(s, ft). node_context b fid 0 0 (open_mode_of fid ft) s)) (\<lambda>context.
     bind_s (lift_s (Stat_encode st)) (\<lambda>bs.
     bind_s (lift_s (ensure (length bs \<le> u32_max) (Error EPERM))) (\<lambda>_.
     bind_s (on_state take_request_id) (\<lambda>request_id.
     bind_s (on_state (modify_s (\<lambda>s. queue_request request_id prefix bs (context\<lparr>ctx_count := word_of_nat (length bs)\<rparr>)
       (s\<lparr>wstat_relay_responses := fmupd request_id None (wstat_relay_responses s)\<rparr>)))) (\<lambda>_.
       return_s request_id)))))))"

definition front_wstat ::
    "fid \<Rightarrow> qid \<Rightarrow> stat \<Rightarrow> front_state turn list \<Rightarrow> tree_state \<Rightarrow> unit result option \<times> tree_state" where
  "front_wstat fid q st turns = await (wstat_request fid q st) poll_wstat_relay turns (\<lambda>_ _. return_s ())"

definition same_principal :: "fid_binding \<Rightarrow> fid_binding \<Rightarrow> bool" where
  "same_principal a b \<longleftrightarrow> fb_root a = fb_root b \<and> fb_principal_id a = fb_principal_id b \<and>
     fb_uname a = fb_uname b \<and> fb_aname a = fb_aname b"

definition rename_parents ::
    "fid_binding \<Rightarrow> qid \<Rightarrow> bytes \<Rightarrow> fid_binding \<Rightarrow> qid \<Rightarrow> front_state \<Rightarrow> unit result" where
  "rename_parents old oldq oldname new newq s =
     and_then (qid_for (fb_node old) s) (\<lambda>q.
     and_then (ensure (q = oldq) (Error EBADFID)) (\<lambda>_.
     and_then (qid_for (fb_node new) s) (\<lambda>q.
     and_then (ensure (q = newq) (Error EBADFID)) (\<lambda>_.
     and_then (child_of (fb_node old) oldname s) (\<lambda>c.
     and_then (ensure (c \<noteq> None) (Error ENOENT)) (\<lambda>_.
     and_then (get_node (fb_node new) s) (\<lambda>nd. ensure (is_Dir (node_body nd)) (Error ENOTDIR))))))))"

definition rename_context :: "fid_binding \<Rightarrow> fid \<Rightarrow> bytes \<Rightarrow> front_state \<Rightarrow> request_context result" where
  "rename_context b fid name s =
     and_then (path_relative_to (fb_node b) ROOT_ID s) (\<lambda>front_path.
     and_then (path_relative_to (fb_node b) (fb_root b) s) (\<lambda>target_path.
     and_then (ensure (length name \<le> u32_max) (Error EPERM)) (\<lambda>_.
     and_then (get_node (fb_node b) s) (\<lambda>nd.
       Inr (request_context_for b fid front_path target_path 0 (word_of_nat (length name)) 0 (node_generation nd))))))"

text \<open>The first hold of the lock in \<^verbatim>\<open>relay_rename_at\<close>; a rename of a name to itself in one directory
  needs no request.\<close>

definition rename_request ::
    "fid \<Rightarrow> qid \<Rightarrow> bytes \<Rightarrow> fid \<Rightarrow> qid \<Rightarrow> bytes \<Rightarrow> u64 option tree_op" where
  "rename_request oldfid oldq oldname newfid newq newname =
     bind_s (the_binding oldfid) (\<lambda>old.
     bind_s (the_binding newfid) (\<lambda>new.
       if \<not> same_principal old new then throw_s (Error EPERM)
       else if fb_node old = fb_node new \<and> oldname = newname then return_s None
       else
         bind_s (ask (rename_parents old oldq oldname new newq)) (\<lambda>_.
         bind_s (ask (\<lambda>s. ok_or (rename_relay_for (fb_node old) (fb_node new) s) (Error EPERM))) (\<lambda>prefix.
         bind_s (ask (rename_context old oldfid oldname)) (\<lambda>old_parent.
         bind_s (ask (rename_context new newfid newname)) (\<lambda>new_parent.
         bind_s (on_state take_request_id) (\<lambda>request_id.
         bind_s (on_state (modify_s (\<lambda>s.
           s\<lparr>rename_relay_responses := fmupd request_id (prefix, None) (rename_relay_responses s),
             rename_pending := rename_pending s @ [\<lparr>rr_request_id = request_id, rr_prefix = prefix,
               rr_old_parent = old_parent, rr_old_name = oldname, rr_new_parent = new_parent,
               rr_new_name = newname\<rparr>]\<rparr>))) (\<lambda>_.
           return_s (Some request_id)))))))))"

definition relay_rename_at ::
    "fid \<Rightarrow> qid \<Rightarrow> bytes \<Rightarrow> fid \<Rightarrow> qid \<Rightarrow> bytes \<Rightarrow> front_state turn list \<Rightarrow> tree_state
     \<Rightarrow> unit result option \<times> tree_state" where
  "relay_rename_at oldfid oldq oldname newfid newq newname turns st =
     (case rename_request oldfid oldq oldname newfid newq newname st of
        (Inl e, st) \<Rightarrow> (Some (Inl e), st)
      | (Inr None, st) \<Rightarrow> (Some (Inr ()), st)
      | (Inr (Some request_id), st) \<Rightarrow>
          await (return_s request_id) poll_rename_relay turns (\<lambda>_ _. return_s ()) st)"

section \<open>The end of a session\<close>

definition release_all :: "fid_binding list \<Rightarrow> front_state \<Rightarrow> front_state" where
  "release_all = fold (\<lambda>b s. snd (release_fid_node (fb_node b) s))"

definition drop_tree :: "front_tree \<Rightarrow> front_state \<Rightarrow> front_state" where
  "drop_tree ft s =
     (let s = release_all (fm_values (ft_fids ft)) s;
          s = fold remove_response_request (fm_values (ft_rpc_inflight ft)) s;
          s = fold remove_response_request (fm_values (ft_snapshot_inflight ft)) s
      in fold (\<lambda>snap s. case ds_inflight snap of
            Some request_id \<Rightarrow> remove_response_request request_id s | None \<Rightarrow> s)
           (fm_values (ft_directory_snapshots ft)) s)"

text \<open>\<^verbatim>\<open>reset\<close> puts a tree with the next session id in the place of this one, which is dropped.\<close>

definition reset_tree :: "u64 \<Rightarrow> tree_state \<Rightarrow> tree_state" where
  "reset_tree session_id = (\<lambda>(s, ft). (drop_tree ft s, FrontTree_new session_id))"

end
