(* ===== verification/R9P_Front_World.thy ===== *)
theory R9P_Front_World
  imports R9P_Front_Tree
begin

text \<open>
  A front with its sessions as a transition system: owners publish, register and complete requests,
  sessions run their handlers, and each hold of the front's lock is one step. Whatever the order of
  the steps, the tree stays well-formed, its reference counts are exactly the fids bound to each
  node, and a detached subtree is kept exactly as long as a fid holds a node of it.
\<close>

section \<open>The owner's operations keep the tree\<close>

named_theorems keeping_intros \<open>operations that keep the tree and the fids' hold on it\<close>

declare keeping_basic [keeping_intros] keeping_bind [keeping_intros]
  apply_pushed_metadata_keeping [keeping_intros] place_pushed_file_keeping [keeping_intros]
  place_pushed_directory_keeping [keeping_intros] insert_pushed_child_directory_keeping [keeping_intros]
  insert_created_relay_node_keeping [keeping_intros]

lemma place_file_keeping [keeping_intros]:
  "keeping (place path (File bs))" "keeping (place path (Log l))" "keeping (place path (IntakeNew i))"
  "keeping (place path (Rpc p))" "keeping (place path (ReadRelay p))"
  "keeping (place path (SnapshotReadRelay p))" "keeping (place path (WriteRelay p))"
  by (simp_all add: place_keeping)

lemma remove_subtree_keeping [keeping_intros]: "keeping (remove_subtree_if_exists path)"
  using remove_subtree_ok by (auto simp: keeping_def)

lemma retain_subtree_keeping [keeping_intros]: "keeping (retain_subtree_paths root_path paths)"
  using retain_subtree_ok by (auto simp: keeping_def)

lemma ensure_path_dir_keeping [keeping_intros]: "keeping (ensure_path_dir path)"
proof -
  have "keeping (ensure_dirs p segs)" for p segs
    using ensure_dirs_ok grows_keeps by (auto simp: keeping_def)
  then show ?thesis unfolding ensure_path_dir_def by (intro keeping_intros)
qed

lemma keeping_if [keeping_intros]: "(b \<Longrightarrow> keeping m) \<Longrightarrow> (\<not> b \<Longrightarrow> keeping n) \<Longrightarrow> keeping (if b then m else n)"
  by simp

lemma keeping_option [keeping_intros]:
  "keeping m \<Longrightarrow> (\<And>x. keeping (f x)) \<Longrightarrow> keeping (case v of None \<Rightarrow> m | Some x \<Rightarrow> f x)"
  by (cases v) simp_all

text \<open>Updates of the queues and tables beside the tree.\<close>

definition beside :: "(front_state \<Rightarrow> front_state) \<Rightarrow> bool" where
  "beside g \<longleftrightarrow> (\<forall>s. nodes (g s) = nodes s \<and> qid_index (g s) = qid_index s \<and>
     detached_roots (g s) = detached_roots s \<and> next_id (g s) = next_id s \<and>
     fid_references (g s) = fid_references s)"

lemma beside_keeps: "beside g \<Longrightarrow> tree_ok s \<Longrightarrow> tree_keeps s (g s)"
  by (rule keeps_other) (simp_all add: beside_def)

lemma beside_keeping: "beside g \<Longrightarrow> keeping (modify_s g)"
  by (rule keeping_modify) (rule beside_keeps)

lemma beside_intros:
  "beside (remove_pending_request i)" "beside (remove_response_request i)"
  "beside (finish_child_directory_waiter k)" "beside (drop_create_target i)"
  "beside (queue_request i p bs c)" "beside (note_rejected k e)"
  by (auto simp: beside_def remove_pending_request_def remove_response_request_def
      finish_child_directory_waiter_def drop_create_target_def queue_request_def note_rejected_def
      split: option.splits)

lemma same_place_fields:
  "same_place (\<lambda>nd. nd\<lparr>write_relay := r\<rparr>) nd" "same_place (\<lambda>nd. nd\<lparr>remove_relay := r\<rparr>) nd"
  "same_place (\<lambda>nd. nd\<lparr>wstat_relay := r\<rparr>) nd" "same_place (\<lambda>nd. nd\<lparr>create_relay := r\<rparr>) nd"
  by (simp_all add: same_place_def)

lemma set_body_keeps:
  assumes "tree_ok s" "kids s i = (case b of Dir d \<Rightarrow> Some (children d) | _ \<Rightarrow> None)"
  shows "tree_keeps s (set_body i b s)"
  unfolding set_body_def
  by (rule keeps_update_node [OF assms(1)])
     (use assms(2) in \<open>auto simp: same_place_def kids_def split: body.splits\<close>)

text \<open>A step of an operation that is only known to keep the tree after what has been read or placed.\<close>

lemma keeping_after:
  assumes "keeping m" "\<And>x s t u r. tree_ok s \<Longrightarrow> m s = (Inr x, t) \<Longrightarrow> tree_ok t \<Longrightarrow> f x t = (r, u) \<Longrightarrow> tree_keeps t u"
  shows "keeping (bind_s m f)"
  unfolding keeping_def
proof (intro allI impI)
  fix s r u
  assume ok: "tree_ok s" and "bind_s m f s = (r, u)"
  from this(2) show "tree_keeps s u"
  proof (cases rule: bind_s_cases)
    case (2 x t)
    then have t: "tree_keeps s t" using keepingD [OF assms(1) ok] by blast
    with assms(2) [OF ok 2(1) keeps_ok [OF t] 2(2)] show ?thesis using keeps_trans by blast
  qed (use keepingD [OF assms(1) ok] in blast)
qed

lemma get_node_kids: "get_node i s = Inr nd \<Longrightarrow> kids s i = (case node_body nd of Dir d \<Rightarrow> Some (children d) | _ \<Rightarrow> None)"
  by (simp add: get_node_Inr kids_def)

lemma kinds_file:
  "is_ReadRelay b \<Longrightarrow> \<not> is_Dir b" "is_SnapshotReadRelay b \<Longrightarrow> \<not> is_Dir b" "is_WriteRelay b \<Longrightarrow> \<not> is_Dir b"
  by (cases b; simp)+

lemma get_node_file: "get_node i s = Inr nd \<Longrightarrow> \<not> is_Dir (node_body nd) \<Longrightarrow> kids s i = None"
  by (cases "node_body nd") (simp_all add: get_node_kids)

lemma register_relay_keeping [keeping_intros]:
  assumes kind: "\<And>b. is_kind b \<Longrightarrow> \<not> is_Dir b" "\<And>p. \<not> is_Dir (kind p)"
  shows "keeping (register_relay path is_kind kind)"
proof -
  have set: "tree_keeps s (set_body i (kind p) s)" if "tree_ok s" "get_node i s = Inr nd" "is_kind (node_body nd)" for s i nd p
    using that kind(1) kind(2) [of p] by (intro set_body_keeps) (auto simp: get_node_file split: body.splits)
  have found: "keeping (bind_s (read_s (get_node i)) (\<lambda>nd. if \<not> is_kind (node_body nd) then throw_s (Error EPERM)
      else bind_s (modify_s (set_body i (kind p))) (\<lambda>_. return_s i)))" for i p
    by (rule keeping_read_bind) (auto simp: stateful_simps keeps_refl set split: if_splits)
  show ?thesis
    unfolding register_relay_def
    by (rule keeping_bind [OF keeping_basic(3)], rule keeping_bind [OF keeping_basic(4)], rule keeping_option,
        rule place_keeping [OF kind(2)], rule found)
qed

lemma update_directory_keeping [keeping_intros]:
  assumes "\<And>d. children (f d) = children d"
  shows "keeping (update_directory i f)"
  unfolding update_directory_def
  by (rule keeping_read_bind)
     (use assms in \<open>auto simp: stateful_simps keeps_refl get_node_kids split: body.splits intro!: set_body_keeps\<close>)

lemma keeping_update [keeping_intros]: "(\<And>nd. same_place f nd) \<Longrightarrow> keeping (modify_s (update_node i f))"
  by (intro keeping_modify keeps_update_node)

lemma owner_keeping:
  "keeping (Front_set path bs)" "keeping (Front_set_pushed_file path bs m)"
  "keeping (Front_set_pushed_directory path m)" "keeping (Front_remove_subtree_if_exists path)"
  "keeping (Front_retain_subtree_paths path paths)" "keeping (Front_append_event path bs)"
  unfolding Front_set_def Front_set_pushed_file_def Front_set_pushed_directory_def
    Front_remove_subtree_if_exists_def Front_retain_subtree_paths_def Front_append_event_def
  by (intro keeping_intros)+

lemma limits_keeping:
  "keeping (Front_set_log_capacity capacity)" "keeping (Front_set_wait_timeout timeout)"
  "keeping (Front_set_protocol_limits largest iounit)"
  unfolding Front_set_log_capacity_def Front_set_wait_timeout_def Front_set_protocol_limits_def
  by (intro keeping_intros beside_keeping; simp add: beside_def)+

lemma register_keeping:
  "keeping (Front_register_rpc path)" "keeping (Front_register_read_relay path)"
  "keeping (Front_register_read_relay_with_metadata path m)" "keeping (Front_register_snapshot_read_relay path)"
  "keeping (Front_register_directory_read_relay path)" "keeping (Front_register_log path)"
  "keeping (Front_register_log_at path offset)"
  "keeping (Front_register_child_directory_resolver path rp pp removal)"
  unfolding Front_register_rpc_def Front_register_read_relay_def
    Front_register_read_relay_with_metadata_def Front_register_snapshot_read_relay_def
    Front_register_directory_read_relay_def Front_register_log_def Front_register_log_at_def
    Front_register_child_directory_resolver_def Let_def
  by (intro keeping_intros; simp add: kinds_file)+

lemma register_intake_keeping: "keeping (Front_register_intake prefix)"
proof -
  have "keeping (bind_s (place path (IntakeNew 0)) (\<lambda>nid.
      modify_s (\<lambda>s. let s = set_body nid (IntakeNew nid) s in s\<lparr>intakes := fmupd nid trimmed (intakes s)\<rparr>)))" for path trimmed
  proof (rule keeping_after)
    fix i s t u r
    assume run: "tree_ok s" "place path (IntakeNew 0) s = (Inr i, t)" "tree_ok t"
      "modify_s (\<lambda>s. let s = set_body i (IntakeNew i) s in s\<lparr>intakes := fmupd i trimmed (intakes s)\<rparr>) t = (r, u)"
    from place_spec(3) [OF run(1) _ run(2)] have "kids t i = None"
      by (auto simp: is_Dir_kids)
    then have body: "tree_keeps t (set_body i (IntakeNew i) t)" by (intro set_body_keeps run(3)) simp
    have "tree_keeps (set_body i (IntakeNew i) t) u"
      using run(4) by (intro keeps_other keeps_ok [OF body]) (auto simp: stateful_simps Let_def)
    with body show "tree_keeps t u" using keeps_trans by blast
  qed (intro keeping_intros)
  then show ?thesis
    unfolding Front_register_intake_def Let_def by (simp add: keeping_basic)
qed

lemma keeps_update_beside:
  assumes "tree_ok s" "beside g" "\<And>nd. same_place f nd"
  shows "tree_keeps s (update_node i f (g s))" "tree_keeps s (g (update_node i f s))"
  using keeps_trans [OF beside_keeps [OF assms(2,1)] keeps_update_node [OF keeps_ok [OF beside_keeps [OF assms(2,1)]]]]
    keeps_trans [OF keeps_update_node [OF assms(1)] beside_keeps [OF assms(2) keeps_ok [OF keeps_update_node [OF assms(1)]]]]
    assms(3) by blast+

lemma write_relay_keeping: "keeping (Front_register_write_relay path)"
proof -
  have "same_place (\<lambda>nd. (if is_WriteRelay (node_body nd) then nd\<lparr>node_body := WriteRelay p\<rparr> else nd)
        \<lparr>write_relay := Some p\<rparr>) nd" for nd :: node and p
    by (cases "node_body nd") (simp_all add: same_place_def)
  then show ?thesis
    unfolding Front_register_write_relay_def
    by (intro keeping_intros beside_keeping same_place_fields) (simp_all add: beside_def)
qed

lemma other_relays_keeping:
  "keeping (Front_register_remove_relay path)" "keeping (Front_register_wstat_relay path)"
  "keeping (Front_register_create_relay path)"
proof -
  have add: "beside (\<lambda>s. s\<lparr>remove_relay_prefixes := finsert x (remove_relay_prefixes s)\<rparr>)"
    "beside (\<lambda>s. s\<lparr>wstat_relay_prefixes := finsert x (wstat_relay_prefixes s)\<rparr>)"
    "beside (\<lambda>s. s\<lparr>write_relay_prefixes := finsert x (write_relay_prefixes s)\<rparr>)" for x
    by (simp_all add: beside_def)
  show "keeping (Front_register_remove_relay path)" "keeping (Front_register_wstat_relay path)"
    unfolding Front_register_remove_relay_def Front_register_wstat_relay_def
    by (intro keeping_intros keeping_modify keeps_update_beside(1) [OF _ add(1)] keeps_update_beside(1) [OF _ add(2)]
        same_place_fields; assumption)+
  show "keeping (Front_register_create_relay path)"
    unfolding Front_register_create_relay_def Let_def
    by (intro keeping_intros keeping_modify keeps_update_beside(2) [OF _ add(3)] same_place_fields)
qed

lemma rename_relay_keeping: "keeping (Front_register_rename_relay path prefix)"
  unfolding Front_register_rename_relay_def Let_def
  by (intro keeping_intros beside_keeping) (simp_all add: beside_def)

lemma principal_keeping:
  "keeping (Front_set_principal_class_aname uname pid aname path)" "keeping (Front_retain_principal_roots unames)"
  unfolding Front_set_principal_class_aname_def Front_retain_principal_roots_def
  by (intro keeping_intros beside_keeping; simp add: beside_def)+

lemma fill_response_keeping [keeping_intros]: "keeping (fill_response i reply)"
  unfolding keeping_def
  by (auto simp: fill_response_def keeps_refl split: option.splits intro!: keeps_other)

lemma completion_keeping:
  "keeping (Front_complete_request prefix i bs (\<lambda>s. s))" "keeping (Front_complete_directory_request prefix i names eof)"
  "keeping (Front_reject_request prefix i message)" "keeping (complete_write_result prefix i wr)"
  "keeping (complete_remove_result prefix i rr)" "keeping (complete_wstat_result prefix i sr)"
  "keeping (complete_create_result prefix i cr)" "keeping (complete_child_directory_resolution_result prefix i dr)"
  "keeping (complete_rename_result prefix i nr)"
  unfolding Front_complete_request_def Front_complete_directory_request_def Front_reject_request_def
    complete_write_result_def complete_remove_result_def complete_wstat_result_def complete_create_result_def
    complete_child_directory_resolution_result_def complete_rename_result_def split_beta
  by (intro keeping_intros owner_keeping(1) beside_keeping; simp add: beside_def)+

lemma create_keeping:
  "keeping (accept_create prefix i q)" "keeping (withdraw_create i q e)" "keeping (announce_create i q target)"
  unfolding accept_create_def withdraw_create_def announce_create_def
  by (intro keeping_intros beside_keeping beside_intros; simp add: beside_def)+

section \<open>The fids' hold on the tree\<close>

definition refs :: "front_state \<Rightarrow> nat \<Rightarrow> nat" where
  "refs s n = (case fmlookup (fid_references s) n of None \<Rightarrow> 0 | Some k \<Rightarrow> k)"

definition holders :: "(fid, fid_binding) fmap \<Rightarrow> nat \<Rightarrow> fid set" where
  "holders F n = {fid. \<exists>b. fmlookup F fid = Some b \<and> fb_node b = n}"

definition bound :: "front_tree \<Rightarrow> nat \<Rightarrow> nat" where
  "bound ft n = card (holders (ft_fids ft) n)"

lemma finite_holders: "finite (holders F n)"
proof -
  have "holders F n \<subseteq> fmdom' F" by (auto simp: holders_def fmlookup_dom'_iff)
  then show ?thesis by (rule finite_subset) (rule finite_fmdom')
qed

lemma card_holders_drop:
  assumes "fmlookup F fid = Some b"
  shows "card (holders F n) = card (holders (fmdrop fid F) n) + (if fb_node b = n then 1 else 0)"
proof -
  have "holders F n = holders (fmdrop fid F) n \<union> (if fb_node b = n then {fid} else {})"
    using assms by (auto simp: holders_def split: if_splits)
  moreover have "fid \<notin> holders (fmdrop fid F) n" by (simp add: holders_def)
  ultimately show ?thesis using finite_holders by simp
qed

lemma card_holders_upd:
  "card (holders (fmupd fid b F) n) = card (holders (fmdrop fid F) n) + (if fb_node b = n then 1 else 0)"
proof -
  have "fmdrop fid (fmupd fid b F) = fmdrop fid F" by (intro fmap_ext) simp
  then show ?thesis using card_holders_drop [of "fmupd fid b F" fid b n] by simp
qed

lemma fmdrop_absent: "fmlookup F k = None \<Longrightarrow> fmdrop k F = F"
  by (intro fmap_ext) auto

lemma tree_ok_refs:
  assumes "tree_ok s" "\<And>i n. fmlookup f i = Some n \<Longrightarrow> 0 < n \<and> par s i \<noteq> None"
  shows "tree_ok (s\<lparr>fid_references := f\<rparr>)"
proof -
  let ?t = "s\<lparr>fid_references := f\<rparr>"
  have views: "par ?t = par s" "nam ?t = nam s" "qpt ?t = qpt s" "kids ?t = kids s" "child ?t = child s"
    by (rule views_nodes; simp)+
  have same: "grounded ?t = grounded s"
    using views(1) by (auto simp: fun_eq_iff intro: grounded_mono)
  have new: "\<forall>i n. fmlookup (fid_references ?t) i = Some n \<longrightarrow> 0 < n \<and> par s i \<noteq> None"
    using assms(2) by simp
  have other: "detached_roots ?t = detached_roots s" "qid_index ?t = qid_index s" "next_id ?t = next_id s"
    by simp_all
  show ?thesis
    unfolding tree_ok_def [of ?t] views same other
    using assms(1) [unfolded tree_ok_def] by (intro conjI new) (elim conjE, assumption)+
qed

lemma refs_upd: "refs (s\<lparr>fid_references := fmupd n k (fid_references s)\<rparr>) m = (if m = n then k else refs s m)"
  "refs (s\<lparr>fid_references := fmdrop n (fid_references s)\<rparr>) m = (if m = n then 0 else refs s m)"
  by (simp_all add: refs_def)

lemma retain_fid_node_ok:
  assumes ok: "tree_ok s" and run: "retain_fid_node n s = (r, t)"
  shows "(\<exists>e. r = Inl e \<and> t = s) \<or>
    r = Inr () \<and> tree_ok t \<and> (no_garbage s \<longrightarrow> no_garbage t) \<and> (\<forall>m. refs t m = refs s m + (if n = m then 1 else 0))"
proof (cases "fmlookup (nodes s) n")
  case None
  with run show ?thesis by (auto simp: retain_fid_node_def bind_s_def stateful_simps get_node_def)
next
  case (Some nd)
  let ?k = "(case fmlookup (fid_references s) n of Some k \<Rightarrow> k | None \<Rightarrow> 0) + 1"
  from Some run have t: "r = Inr ()" "t = s\<lparr>fid_references := fmupd n ?k (fid_references s)\<rparr>"
    by (auto simp: retain_fid_node_def bind_s_def stateful_simps get_node_def)
  have "tree_ok t"
    unfolding t(2) using Some tree_ok_references [OF ok]
    by (intro tree_ok_refs ok) (auto simp: par_iff split: if_splits)
  moreover have "no_garbage s \<longrightarrow> no_garbage t"
    by (auto simp: no_garbage_def unreferenced_def edges_def t(2) front_simps split: if_splits)
  moreover have "refs t m = refs s m + (if n = m then 1 else 0)" for m
    unfolding t(2) refs_upd by (simp add: refs_def split: option.splits)
  ultimately show ?thesis using t(1) by blast
qed

lemma release_fid_node_ok:
  assumes ok: "tree_ok s" and some: "0 < refs s n" and run: "release_fid_node n s = (r, t)"
  shows "r = Inr () \<and> tree_ok t \<and> no_garbage t \<and> (\<forall>m. refs s m = refs t m + (if n = m then 1 else 0))"
proof -
  from some obtain k where k: "fmlookup (fid_references s) n = Some k" by (auto simp: refs_def split: option.splits)
  define u where "u = (if k > 1 then s\<lparr>fid_references := fmupd n (k - 1) (fid_references s)\<rparr>
    else s\<lparr>fid_references := fmdrop n (fid_references s)\<rparr>)"
  have t: "r = Inr ()" "t = collect_unreferenced_detached_subtrees u"
    using run k by (auto simp: release_fid_node_def u_def)
  have "tree_ok u"
    using tree_ok_references [OF ok] k unfolding u_def
    by (auto intro!: tree_ok_refs ok split: if_splits)
  moreover have "refs s m = refs u m + (if n = m then 1 else 0)" for m
    using some k unfolding u_def by (auto simp: refs_upd) (simp_all add: refs_def)
  moreover have "refs t m = refs u m" for m
    using collect_ok(2) [OF \<open>tree_ok u\<close>] by (simp add: t(2) refs_def)
  ultimately show ?thesis using collect_ok(1,4) [OF \<open>tree_ok u\<close>] t by simp
qed

section \<open>The sessions' handlers keep the accounts\<close>

text \<open>Each node's count is the number of this session's fids bound to it, and those of the others.\<close>

definition accounts :: "(nat \<Rightarrow> nat) \<Rightarrow> tree_state \<Rightarrow> bool" where
  "accounts others = (\<lambda>(s, ft). tree_ok s \<and> no_garbage s \<and> (\<forall>n. refs s n = others n + bound ft n))"

definition accounting :: "'a tree_op \<Rightarrow> bool" where
  "accounting m \<longleftrightarrow> (\<forall>k st r st'. accounts k st \<longrightarrow> m st = (r, st') \<longrightarrow> accounts k st')"

named_theorems accounting_intros \<open>handlers that keep the accounts\<close>

lemma accountingI: "(\<And>k st r st'. accounts k st \<Longrightarrow> m st = (r, st') \<Longrightarrow> accounts k st') \<Longrightarrow> accounting m"
  by (auto simp: accounting_def)

lemma accountingD: "accounting m \<Longrightarrow> accounts k st \<Longrightarrow> m st = (r, st') \<Longrightarrow> accounts k st'"
  unfolding accounting_def by blast

lemma accounting_bind [accounting_intros]:
  assumes "accounting m" "\<And>x. accounting (f x)"
  shows "accounting (bind_s m f)"
proof (rule accountingI)
  fix k st r st'
  assume ok: "accounts k st" and "bind_s m f st = (r, st')"
  from this(2) show "accounts k st'"
    by (cases rule: bind_s_cases) (use accountingD [OF assms(1) ok] accountingD [OF assms(2)] in blast)+
qed

lemma accounting_basic [accounting_intros]:
  "accounting (return_s x)" "accounting (throw_s e)" "accounting (lift_s r)" "accounting (read_s h)"
  by (simp_all add: accounting_def stateful_simps)

lemma accounting_lookups [accounting_intros]: "accounting (the_binding fid)" "accounting (ask g)"
  by (simp_all add: the_binding_def ask_def accounting_basic)

lemma accounting_if [accounting_intros]:
  "(b \<Longrightarrow> accounting m) \<Longrightarrow> (\<not> b \<Longrightarrow> accounting n) \<Longrightarrow> accounting (if b then m else n)"
  by simp

lemma accounting_option [accounting_intros]:
  "accounting m \<Longrightarrow> (\<And>x. accounting (f x)) \<Longrightarrow> accounting (case v of None \<Rightarrow> m | Some x \<Rightarrow> f x)"
  by (cases v) simp_all

lemma accounting_body [accounting_intros]:
  assumes "\<And>d. accounting (f1 d)" "\<And>x. accounting (f2 x)" "\<And>x. accounting (f3 x)" "\<And>x. accounting (f4 x)"
    "\<And>x. accounting (f5 x)" "\<And>x. accounting (f6 x)" "\<And>x. accounting (f7 x)" "\<And>x. accounting (f8 x)"
  shows "accounting (case_body f1 f2 f3 f4 f5 f6 f7 f8 b)"
  using assms by (cases b) simp_all

lemma accounting_state [accounting_intros]: "keeping m \<Longrightarrow> accounting (on_state m)"
  by (rule accountingI)
     (auto simp: on_state_def accounts_def refs_def split: prod.splits dest!: keepingD simp: tree_keeps_def)

lemma accounting_tree [accounting_intros]: "(\<And>ft. ft_fids (f ft) = ft_fids ft) \<Longrightarrow> accounting (on_tree f)"
  by (rule accountingI) (auto simp: on_tree_def accounts_def bound_def split: prod.splits)

lemma accounts_refs: "accounts k (s, ft) \<Longrightarrow> fmlookup (ft_fids ft) fid = Some b \<Longrightarrow> 0 < refs s (fb_node b)"
  using card_holders_drop [of "ft_fids ft" fid b "fb_node b"] by (simp add: accounts_def bound_def)

lemma front_bind_fid_accounting [accounting_intros]: "accounting (front_bind_fid fid b)"
proof (rule accountingI)
  fix k st r st'
  assume ok: "accounts k st" and run: "front_bind_fid fid b st = (r, st')"
  obtain s ft where st: "st = (s, ft)" by (cases st)
  obtain r1 s1 where keep: "retain_fid_node (fb_node b) s = (r1, s1)" by (cases "retain_fid_node (fb_node b) s")
  let ?ft = "ft\<lparr>ft_fids := fmupd fid b (ft_fids ft)\<rparr>"
  from ok st have ok': "tree_ok s" "no_garbage s" "\<And>n. refs s n = k n + card (holders (ft_fids ft) n)"
    by (simp_all add: accounts_def bound_def)
  from retain_fid_node_ok [OF ok'(1) keep] show "accounts k st'"
  proof (elim disjE exE conjE)
    fix e
    assume "r1 = Inl e" "s1 = s"
    with run keep ok show ?thesis by (simp add: st front_bind_fid_def bind_s_def on_state_def)
  next
    assume s1: "r1 = Inr ()" "tree_ok s1" "no_garbage s \<longrightarrow> no_garbage s1"
      "\<forall>m. refs s1 m = refs s m + (if fb_node b = m then 1 else 0)"
    show ?thesis
    proof (cases "fmlookup (ft_fids ft) fid")
      case None
      with run keep s1(1) have "st' = (s1, ?ft)"
        by (simp add: st front_bind_fid_def bind_s_def on_state_def on_tree_def stateful_simps)
      with s1 ok' None show ?thesis
        by (simp add: accounts_def bound_def card_holders_upd fmdrop_absent)
    next
      case (Some p)
      have "0 < refs s1 (fb_node p)"
        using s1(4) accounts_refs [OF ok [unfolded st] Some] by simp
      moreover obtain r2 s2 where free: "release_fid_node (fb_node p) s1 = (r2, s2)"
        by (cases "release_fid_node (fb_node p) s1")
      moreover have "st' = (s2, ?ft)"
        using run keep s1(1) Some free
        by (simp add: st front_bind_fid_def bind_s_def on_state_def on_tree_def stateful_simps split: sum.splits)
      ultimately have s2: "st' = (s2, ?ft)" "tree_ok s2" "no_garbage s2"
        "\<And>m. refs s1 m = refs s2 m + (if fb_node p = m then 1 else 0)"
        using release_fid_node_ok [OF s1(2), of "fb_node p" r2 s2] by blast+
      have "refs s2 m = k m + card (holders (ft_fids ?ft) m)" for m
        using s1(4) [rule_format, of m] s2(4) [of m] ok'(3) [of m] card_holders_drop [OF Some, of m]
          card_holders_upd [of fid b "ft_fids ft" m] by simp
      with s2 show ?thesis by (simp add: accounts_def bound_def)
    qed
  qed
qed

lemma front_unbind_fid_accounting [accounting_intros]: "accounting (front_unbind_fid fid)"
proof (rule accountingI)
  fix k st r st'
  assume ok: "accounts k st" and run: "front_unbind_fid fid st = (r, st')"
  obtain s ft where st: "st = (s, ft)" by (cases st)
  let ?ft = "ft\<lparr>ft_fids := fmdrop fid (ft_fids ft)\<rparr>"
  show "accounts k st'"
  proof (cases "fmlookup (ft_fids ft) fid")
    case None
    with run ok show ?thesis
      by (auto simp: st front_unbind_fid_def bind_s_def on_tree_def stateful_simps accounts_def bound_def fmdrop_absent)
  next
    case (Some p)
    obtain r2 s2 where free: "release_fid_node (fb_node p) s = (r2, s2)"
      by (cases "release_fid_node (fb_node p) s")
    have "st' = (s2, ?ft)"
      using run Some free
      by (simp add: st front_unbind_fid_def bind_s_def on_state_def on_tree_def stateful_simps split: sum.splits)
    have s: "tree_ok s" "\<And>m. refs s m = k m + card (holders (ft_fids ft) m)"
      using ok by (simp_all add: st accounts_def bound_def)
    note s2 = release_fid_node_ok [OF s(1) accounts_refs [OF ok [unfolded st] Some] free]
    have "refs s2 m = k m + card (holders (ft_fids ?ft) m)" for m
      using s2 s(2) [of m] card_holders_drop [OF Some, of m] by simp
    with s2 \<open>st' = (s2, ?ft)\<close> show ?thesis by (simp add: accounts_def bound_def)
  qed
qed

lemma take_request_id_keeping [keeping_intros]: "keeping take_request_id"
  by (auto simp: keeping_def take_request_id_def intro!: keeps_other)

lemma queue_request_beside: "beside g \<Longrightarrow> beside (\<lambda>s. queue_request i p bs c (g s))"
  by (simp add: beside_def queue_request_def)

lemma write_intake_keeping [keeping_intros]: "keeping (write_intake i bs c)"
  unfolding write_intake_def by (intro keeping_intros beside_keeping beside_intros)

lemma commit_write_relay_keeping [keeping_intros]: "keeping (commit_write_relay buffer)"
  unfolding commit_write_relay_def
  by (intro keeping_intros beside_keeping queue_request_beside) (simp add: beside_def)

lemma begin_resolution_keeping [keeping_intros]: "keeping (begin_resolution b fid parent name)"
proof -
  have start: "keeping (start_resolution b fid parent name resolver)" for resolver
    unfolding start_resolution_def
    by (intro keeping_intros beside_keeping queue_request_beside) (simp add: beside_def)
  have "keeping (join_resolution b fid parent name resolver)" for resolver
    unfolding keeping_def join_resolution_def
    using keepingD [OF start] by (auto split: option.splits intro!: keeps_other)
  note join = this
  have "keeping (bind_s (join_resolution b fid parent name resolver) (\<lambda>_. return_s Awaiting))" for resolver
    by (intro keeping_intros join)
  then show ?thesis
    unfolding begin_resolution_def
    by (intro keeping_bind keeping_basic) (auto split: body.splits option.splits intro!: keeping_basic)
qed

lemma drop_response_accounting [accounting_intros]: "accounting (drop_response i)"
  unfolding drop_response_def by (intro accounting_intros beside_keeping beside_intros)

lemma put_snapshot_accounting [accounting_intros]: "accounting (put_snapshot fid snap)"
  unfolding put_snapshot_def by (intro accounting_intros) simp

lemma request_response_accounting [accounting_intros]: "accounting (request_response b fid offset count prefix)"
  unfolding request_response_def
  by (intro accounting_intros keeping_intros beside_keeping queue_request_beside) (simp add: beside_def)

lemma checked_binding_accounting [accounting_intros]: "accounting (checked_binding fid q)"
  unfolding checked_binding_def by (intro accounting_intros)

lemma simple_accounting:
  "accounting (accepts_open_mode fid mode)" "accounting (front_attach fid uname aname)"
  "accounting (front_open fid q mode)" "accounting (front_stat q)"
  unfolding accepts_open_mode_def front_attach_def front_open_def front_stat_def
  by (intro accounting_intros; simp)+

lemma create_accounting:
  "accounting (create_request fid q name perm mode)" "accounting (create_finish fid mode b made)"
  unfolding create_request_def create_finish_def
  by (intro accounting_intros keeping_intros beside_keeping; simp add: beside_def)+

lemma read_target_accounting: "accounting (read_target_at fid offset count)"
proof -
  have "accounting (read_directory_relay b fid offset count prefix)" for b prefix
    unfolding read_directory_relay_def Let_def
    by (intro accounting_intros keeping_intros beside_keeping) (simp_all add: beside_def split: option.splits)
  moreover have "accounting (submit_rpc fid)"
    unfolding submit_rpc_def
    by (intro accounting_intros keeping_intros beside_keeping queue_request_beside) (simp_all add: beside_def)
  moreover have "accounting (read_snapshot_relay b fid offset count prefix)" for b prefix
    unfolding read_snapshot_relay_def by (intro accounting_intros) simp_all
  ultimately show ?thesis
    unfolding read_target_at_def by (intro accounting_intros)
qed

lemma directory_response_accounting: "accounting (apply_directory_response fid nid i response)"
proof -
  have page: "accounting (list_page fid i snap cs names eof)" for snap cs names eof
    unfolding list_page_def
    by (cases "note_names cs names (ds_names snap) []"; cases "fst (note_names cs names (ds_names snap) [])")
       (auto intro!: accounting_intros)
  show ?thesis
    unfolding apply_directory_response_def Let_def
    by (cases response) (auto intro!: accounting_intros page split: prod.splits)
qed

lemma write_accounting: "accounting (front_write fid offset bs)"
proof -
  have "accounting (write_rpc fid offset bs prefix c)" "accounting (write_relayed fid offset bs prefix c)" for prefix c
    unfolding write_rpc_def write_relayed_def by (intro accounting_intros; simp)+
  then show ?thesis
    unfolding front_write_def by (intro accounting_intros keeping_intros)
qed

lemma clunk_accounting: "accounting (finish_clunk fid relayed)"
proof -
  have "accounting (drop_snapshot fid)" unfolding drop_snapshot_def
    by (intro accounting_intros) simp
  moreover have "accounting (drop_inflight fid)"
    unfolding drop_inflight_def
    by (rule accounting_bind [OF accounting_basic(4)]) (auto split: option.splits intro!: accounting_intros)
  ultimately show ?thesis
    unfolding finish_clunk_def clunk_fid_def by (intro accounting_intros) simp_all
qed

lemma remove_accounting: "accounting (remove_request fid q)" "accounting (remove_finish fid path)"
  unfolding remove_request_def remove_finish_def
  by (intro accounting_intros keeping_intros beside_keeping queue_request_beside; simp add: beside_def)+

lemma wstat_accounting: "accounting (wstat_request fid q st)"
  unfolding wstat_request_def
  by (intro accounting_intros keeping_intros beside_keeping queue_request_beside) (simp add: beside_def)

lemma rename_accounting: "accounting (rename_request oldfid oldq oldname newfid newq newname)"
  unfolding rename_request_def
  by (intro accounting_intros keeping_intros beside_keeping) (simp add: beside_def)

subsection \<open>Turns of the waiting loops\<close>

definition polling :: "(front_state, 'a) poll \<Rightarrow> bool" where
  "polling p \<longleftrightarrow> (\<forall>cancelled expired s r t. tree_ok s \<longrightarrow> p cancelled expired s = (r, t) \<longrightarrow> tree_keeps s t)"

lemma beside_id: "beside (\<lambda>s. s)"
  by (simp add: beside_def)

lemma poll_next_request_polling: "polling poll_next_request"
  unfolding polling_def
  by (auto simp: poll_next_request_def keeps_refl split: list.splits if_splits intro!: keeps_other)

lemma pops_polling:
  "polling (poll_queue (pop_pending_for_prefix p) g1 h)" "polling (poll_queue (pop_create_pending_for_prefix p) g1 h)"
  "polling (poll_queue (pop_rename_pending_for_prefix p) g1 h)"
  unfolding polling_def
  by (auto simp: poll_queue_def pop_pending_for_prefix_def pop_create_pending_for_prefix_def
      pop_rename_pending_for_prefix_def keeps_refl split: prod.splits option.splits if_splits intro!: keeps_other)

lemma keeps_beside: "tree_ok s \<Longrightarrow> beside g \<Longrightarrow> t = g s \<Longrightarrow> tree_keeps s t"
  using beside_keeps by blast

lemma reply_polling:
  "polling (poll_rpc i offset count)" "polling (poll_directory_response i)"
  unfolding polling_def poll_rpc_def poll_directory_response_def
  by (auto simp: keeps_refl split: option.splits request_reply.splits if_splits
      intro: keeps_beside [OF _ beside_intros(2)])

lemma take_remove: "tree_ok s \<Longrightarrow> nodes t = nodes s \<Longrightarrow> qid_index t = qid_index s \<Longrightarrow> detached_roots t = detached_roots s \<Longrightarrow>
    next_id t = next_id s \<Longrightarrow> fid_references t = fid_references s \<Longrightarrow> tree_keeps s (remove_pending_request i t)"
  by (rule keeps_other) (simp_all add: remove_pending_request_def)

lemma relay_polling:
  "polling (poll_write_relay i n)" "polling (poll_remove_relay i)" "polling (poll_wstat_relay i)"
  "polling (poll_create_relay i)" "polling (poll_rename_relay i)"
  unfolding polling_def poll_write_relay_def poll_remove_relay_def poll_wstat_relay_def poll_create_relay_def
    poll_rename_relay_def Let_def
  by (auto simp: keeps_refl split: option.splits write_relay_reply.splits remove_relay_reply.splits
      wstat_relay_reply.splits create_relay_reply.splits rename_relay_reply.splits if_splits
      intro!: take_remove; auto intro!: keeps_other)+

lemma log_polling: "polling (poll_log i offset count)"
  unfolding polling_def poll_log_def
  by (auto simp: keeps_refl split: sum.splits body.splits if_splits)

lemma child_directory_polling: "polling (poll_child_directory parent name)"
proof -
  have finish: "tree_keeps s (finish_child_directory_waiter k t)" if "tree_keeps s t" for s t k
    using that beside_keeps [OF beside_intros(3) keeps_ok [OF that]] keeps_trans by blast
  have rejected: "tree_keeps s (note_rejected k e t)" if "tree_keeps s t" for s t k e
    using that beside_keeps [OF beside_intros(6) keeps_ok [OF that]] keeps_trans by blast
  have wait: "tree_keeps s u" if "tree_keeps s t" "wait_on k expired t = (r, u)" for s t u k r expired
    using that finish [of s t k] by (auto simp: wait_on_def split: if_splits)
  have insert: "tree_keeps s t" if "tree_ok s" "insert_pushed_child_directory parent name m rp rem s = (r, t)" for s t m rp rem r
    using keepingD [OF insert_pushed_child_directory_keeping that] .
  show ?thesis
    unfolding polling_def poll_child_directory_def Let_def
    by (auto split: if_splits sum.splits option.splits child_directory_reply.splits prod.splits
        intro: finish [OF keeps_refl] keeps_refl wait [OF keeps_refl] finish [OF insert] wait [OF rejected [OF insert]])
qed

subsection \<open>The end of a session\<close>

lemma holders_count: "card (holders F n) = length (filter (\<lambda>b. fb_node b = n) (fm_values F))"
proof -
  have "holders F n = fst ` set (filter (\<lambda>(fid, b). fb_node b = n) (fm_items F))"
    by (force simp: holders_def image_iff)
  moreover have "distinct (map fst (filter (\<lambda>(fid, b). fb_node b = n) (fm_items F)))"
    using distinct_fm_items by (rule distinct_map_filter)
  ultimately have "card (holders F n) = length (filter (\<lambda>(fid, b). fb_node b = n) (fm_items F))"
    by (metis distinct_card length_map list.set_map)
  then show ?thesis
    by (simp add: fm_values_def filter_map comp_def split_def)
qed

lemma release_all_ok:
  assumes "tree_ok s" "no_garbage s" "\<And>n. refs s n = k n + length (filter (\<lambda>b. fb_node b = n) bs)"
  shows "tree_ok (release_all bs s) \<and> no_garbage (release_all bs s) \<and> (\<forall>n. refs (release_all bs s) n = k n)"
  using assms
proof (induction bs arbitrary: s)
  case Nil
  then show ?case by (simp add: release_all_def)
next
  case (Cons b bs)
  obtain r t where run: "release_fid_node (fb_node b) s = (r, t)" by (cases "release_fid_node (fb_node b) s")
  have "0 < refs s (fb_node b)" using Cons.prems(3) by simp
  note t = release_fid_node_ok [OF Cons.prems(1) this run]
  have "refs t n = k n + length (filter (\<lambda>b. fb_node b = n) bs)" for n
    using t Cons.prems(3) [of n] by (auto split: if_splits)
  with Cons.IH t show ?case by (simp add: release_all_def run)
qed

lemma keeps_refs: "tree_keeps s t \<Longrightarrow> refs t n = refs s n"
  by (simp add: tree_keeps_def refs_def)

lemma fold_beside:
  assumes "\<And>x. beside (g x)" "tree_ok s"
  shows "tree_keeps s (fold g xs s)"
  using assms(2)
proof (induction xs arbitrary: s)
  case (Cons x xs)
  have "tree_keeps s (g x s)" by (rule beside_keeps [OF assms(1) Cons.prems])
  with Cons.IH [OF keeps_ok] show ?case using keeps_trans by fastforce
qed (simp add: keeps_refl)

lemma drop_tree_ok:
  assumes "accounts k (s, ft)"
  shows "tree_ok (drop_tree ft s)" "no_garbage (drop_tree ft s)" "refs (drop_tree ft s) n = k n"
proof -
  let ?a = "release_all (fm_values (ft_fids ft)) s"
  let ?b = "fold remove_response_request (fm_values (ft_rpc_inflight ft)) ?a"
  let ?c = "fold remove_response_request (fm_values (ft_snapshot_inflight ft)) ?b"
  have a: "tree_ok ?a" "no_garbage ?a" "\<And>n. refs ?a n = k n"
    using assms release_all_ok [of s k "fm_values (ft_fids ft)"]
    by (simp_all add: accounts_def bound_def holders_count)
  have b: "tree_keeps ?a ?b" by (rule fold_beside [OF beside_intros(2) a(1)])
  have c: "tree_keeps ?b ?c" by (rule fold_beside [OF beside_intros(2) keeps_ok [OF b]])
  have drop: "beside (\<lambda>s. case ds_inflight snap of Some i \<Rightarrow> remove_response_request i s | None \<Rightarrow> s)" for snap
    using beside_intros(2) beside_id by (cases "ds_inflight snap") auto
  have d: "tree_keeps ?c (drop_tree ft s)"
    unfolding drop_tree_def Let_def by (rule fold_beside [OF drop keeps_ok [OF c]])
  have all: "tree_keeps ?a (drop_tree ft s)" using b c d keeps_trans by blast
  with a show "tree_ok (drop_tree ft s)" "no_garbage (drop_tree ft s)" "refs (drop_tree ft s) n = k n"
    by (simp_all add: tree_keeps_def keeps_refs [OF all])
qed

section \<open>The transition system\<close>

text \<open>What the owner does under one hold of the lock. A method that takes the lock several times gives
  one rule per hold.\<close>

inductive owner_step :: "front_state \<Rightarrow> front_state \<Rightarrow> bool" where
  set: "Front_set path bs s = (r, t) \<Longrightarrow> owner_step s t"
| set_pushed_file: "Front_set_pushed_file path bs m s = (r, t) \<Longrightarrow> owner_step s t"
| set_pushed_directory: "Front_set_pushed_directory path m s = (r, t) \<Longrightarrow> owner_step s t"
| remove_subtree: "Front_remove_subtree_if_exists path s = (r, t) \<Longrightarrow> owner_step s t"
| retain_subtree: "Front_retain_subtree_paths path paths s = (r, t) \<Longrightarrow> owner_step s t"
| append_event: "Front_append_event path bs s = (r, t) \<Longrightarrow> owner_step s t"
| set_log_capacity: "Front_set_log_capacity capacity s = (r, t) \<Longrightarrow> owner_step s t"
| set_wait_timeout: "Front_set_wait_timeout timeout s = (r, t) \<Longrightarrow> owner_step s t"
| set_protocol_limits: "Front_set_protocol_limits largest iounit s = (r, t) \<Longrightarrow> owner_step s t"
| register_intake: "Front_register_intake path s = (r, t) \<Longrightarrow> owner_step s t"
| register_rpc: "Front_register_rpc path s = (r, t) \<Longrightarrow> owner_step s t"
| register_read_relay: "Front_register_read_relay path s = (r, t) \<Longrightarrow> owner_step s t"
| register_read_relay_with_metadata: "Front_register_read_relay_with_metadata path m s = (r, t) \<Longrightarrow> owner_step s t"
| register_snapshot_read_relay: "Front_register_snapshot_read_relay path s = (r, t) \<Longrightarrow> owner_step s t"
| register_directory_read_relay: "Front_register_directory_read_relay path s = (r, t) \<Longrightarrow> owner_step s t"
| register_write_relay: "Front_register_write_relay path s = (r, t) \<Longrightarrow> owner_step s t"
| register_remove_relay: "Front_register_remove_relay path s = (r, t) \<Longrightarrow> owner_step s t"
| register_wstat_relay: "Front_register_wstat_relay path s = (r, t) \<Longrightarrow> owner_step s t"
| register_create_relay: "Front_register_create_relay path s = (r, t) \<Longrightarrow> owner_step s t"
| register_rename_relay: "Front_register_rename_relay path prefix s = (r, t) \<Longrightarrow> owner_step s t"
| register_log: "Front_register_log path s = (r, t) \<Longrightarrow> owner_step s t"
| register_log_at: "Front_register_log_at path offset s = (r, t) \<Longrightarrow> owner_step s t"
| register_child_directory_resolver:
    "Front_register_child_directory_resolver path resolving reading removal s = (r, t) \<Longrightarrow> owner_step s t"
| set_principal_root: "Front_set_principal_class_aname uname principal_id aname path s = (r, t) \<Longrightarrow> owner_step s t"
| retain_principal_roots: "Front_retain_principal_roots unames s = (r, t) \<Longrightarrow> owner_step s t"
| next_request: "poll_next_request cancelled expired s = (r, t) \<Longrightarrow> owner_step s t"
| next_request_for: "poll_queue (pop_pending_for_prefix p) gives_up ended cancelled expired s = (r, t) \<Longrightarrow> owner_step s t"
| next_create_request:
    "poll_queue (pop_create_pending_for_prefix p) gives_up ended cancelled expired s = (r', t) \<Longrightarrow> owner_step s t"
| next_rename_request:
    "poll_queue (pop_rename_pending_for_prefix p) gives_up ended cancelled expired s = (r'', t) \<Longrightarrow> owner_step s t"
| complete_request: "Front_complete_request prefix i bs (\<lambda>s. s) s = (r, t) \<Longrightarrow> owner_step s t"
| complete_directory_request: "Front_complete_directory_request prefix i names eof s = (r, t) \<Longrightarrow> owner_step s t"
| reject_request: "Front_reject_request prefix i message s = (r, t) \<Longrightarrow> owner_step s t"
| complete_write: "complete_write_result prefix i wr s = (r, t) \<Longrightarrow> owner_step s t"
| complete_remove: "complete_remove_result prefix i rr s = (r, t) \<Longrightarrow> owner_step s t"
| complete_wstat: "complete_wstat_result prefix i sr s = (r, t) \<Longrightarrow> owner_step s t"
| complete_rename: "complete_rename_result prefix i nr s = (r, t) \<Longrightarrow> owner_step s t"
| complete_child: "complete_child_directory_resolution_result prefix i dr s = (r, t) \<Longrightarrow> owner_step s t"
| complete_create: "complete_create_result prefix i cr s = (r, t) \<Longrightarrow> owner_step s t"
| drop_target: "owner_step s (drop_create_target i s)"
| accept_create: "accept_create prefix i q s = (target, t) \<Longrightarrow> owner_step s t"
| withdraw_create: "withdraw_create i q e s = (r, t) \<Longrightarrow> owner_step s t"
| announce_create: "announce_create i q target s = (r, t) \<Longrightarrow> owner_step s t"

text \<open>What a session does under one hold of the lock.\<close>

inductive session_step :: "tree_state \<Rightarrow> tree_state \<Rightarrow> bool" where
  attach: "front_attach fid uname aname st = (q, st') \<Longrightarrow> session_step st st'"
| walk_resolve: "begin_resolution b fid parent name s = (start, t) \<Longrightarrow> session_step (s, ft) (t, ft)"
| walk_await: "poll_child_directory parent name cancelled expired s = (c, t) \<Longrightarrow> session_step (s, ft) (t, ft)"
| walk_bind: "fmlookup (ft_fids ft) fid = Some b \<Longrightarrow> front_bind_fid newfid (b\<lparr>fb_node := nid\<rparr>) (s, ft) = (r, st') \<Longrightarrow>
    session_step (s, ft) st'"
| open_fid: "front_open fid q mode st = (f, st') \<Longrightarrow> session_step st st'"
| create_ask: "create_request fid q name perm mode st = (asked, st') \<Longrightarrow> session_step st st'"
| create_await: "poll_create_relay i cancelled expired s = (made, t) \<Longrightarrow> session_step (s, ft) (t, ft)"
| create_end: "create_finish fid mode b q st = (f, st') \<Longrightarrow> session_step st st'"
| read_target: "read_target_at fid offset count st = (target, st') \<Longrightarrow> session_step st st'"
| read_log: "poll_log nid offset count cancelled expired s = (got, t) \<Longrightarrow> session_step (s, ft) (t, ft)"
| read_response: "poll_rpc i offset count cancelled expired s = (got, t) \<Longrightarrow> session_step (s, ft) (t, ft)"
| read_consume: "session_step (s, ft) (remove_response_request i s, ft)"
| read_directory: "poll_directory_response i cancelled expired s = (names, t) \<Longrightarrow> session_step (s, ft) (t, ft)"
| read_listing: "apply_directory_response fid nid i response st = (got, st') \<Longrightarrow> session_step st st'"
| write_fid: "front_write fid offset bs st = (n, st') \<Longrightarrow> session_step st st'"
| clunk_commit: "fmlookup (ft_write_buffers ft) fid = Some buffer \<Longrightarrow> commit_write_relay buffer s = (i, t) \<Longrightarrow>
    session_step (s, ft) (t, ft\<lparr>ft_write_buffers := fmdrop fid (ft_write_buffers ft)\<rparr>)"
| clunk_await: "poll_write_relay i n cancelled expired s = (written, t) \<Longrightarrow> session_step (s, ft) (t, ft)"
| clunk_end: "finish_clunk fid relayed st = (r, st') \<Longrightarrow> session_step st st'"
| remove_ask: "remove_request fid q st = (asked', st') \<Longrightarrow> session_step st st'"
| remove_await: "poll_remove_relay i cancelled expired s = (r', t) \<Longrightarrow> session_step (s, ft) (t, ft)"
| remove_end: "remove_finish fid path st = (r, st') \<Longrightarrow> session_step st st'"
| wstat_ask: "wstat_request fid q stat st = (i', st') \<Longrightarrow> session_step st st'"
| wstat_await: "poll_wstat_relay i cancelled expired s = (r', t) \<Longrightarrow> session_step (s, ft) (t, ft)"
| rename_ask: "rename_request oldfid oldq oldname newfid newq newname st = (i'', st') \<Longrightarrow> session_step st st'"
| rename_await: "poll_rename_relay i cancelled expired s = (r', t) \<Longrightarrow> session_step (s, ft) (t, ft)"

text \<open>A front and the sessions on it, each under a number of its own.\<close>

type_synonym front_world = "front_state \<times> (nat, front_tree) fmap"

inductive world_step :: "front_world \<Rightarrow> front_world \<Rightarrow> bool" where
  owner: "owner_step s t \<Longrightarrow> world_step (s, W) (t, W)"
| connect: "fmlookup W c = None \<Longrightarrow> world_step (s, W) (s, fmupd c (FrontTree_new session_id) W)"
| session: "fmlookup W c = Some ft \<Longrightarrow> session_step (s, ft) (t, ft') \<Longrightarrow> world_step (s, W) (t, fmupd c ft' W)"
| reset: "fmlookup W c = Some ft \<Longrightarrow> reset_tree session_id (s, ft) = (t, ft') \<Longrightarrow> world_step (s, W) (t, fmupd c ft' W)"
| disconnect: "fmlookup W c = Some ft \<Longrightarrow> world_step (s, W) (drop_tree ft s, fmdrop c W)"

inductive front_reachable :: "front_world \<Rightarrow> bool" where
  start: "front_reachable (State_new, fmempty)"
| further: "front_reachable w \<Longrightarrow> world_step w w' \<Longrightarrow> front_reachable w'"

section \<open>The invariant of the transition system\<close>

lemmas owner_facts = owner_keeping limits_keeping register_intake_keeping register_keeping
  write_relay_keeping other_relays_keeping rename_relay_keeping principal_keeping completion_keeping
  create_keeping poll_next_request_polling pops_polling

lemmas session_facts = simple_accounting create_accounting read_target_accounting directory_response_accounting
  write_accounting clunk_accounting remove_accounting wstat_accounting rename_accounting front_bind_fid_accounting

lemmas session_polls = reply_polling relay_polling log_polling child_directory_polling

lemma pollingD: "polling p \<Longrightarrow> tree_ok s \<Longrightarrow> p cancelled expired s = (r, t) \<Longrightarrow> tree_keeps s t"
  unfolding polling_def by blast

lemma polling_accounts:
  "polling p \<Longrightarrow> accounts k (s, ft) \<Longrightarrow> p cancelled expired s = (r, t) \<Longrightarrow> accounts k (t, ft)"
  using pollingD [of p s cancelled expired r t] keeps_refs [of s t] by (auto simp: accounts_def tree_keeps_def)

lemma polling_step:
  "st = (s, ft) \<Longrightarrow> st' = (t, ft) \<Longrightarrow> p cancelled expired s = (r, t) \<Longrightarrow> polling p \<Longrightarrow> accounts k st \<Longrightarrow> accounts k st'"
  using polling_accounts by blast

lemma owner_step_keeps:
  assumes "owner_step s t" "tree_ok s"
  shows "tree_keeps s t"
  using assms
proof cases
  case (drop_target i)
  then show ?thesis using beside_keeps [OF beside_intros(4) assms(2)] by simp
qed (erule keepingD [OF _ assms(2), rotated] pollingD [OF _ assms(2), rotated], rule owner_facts)+

lemma session_step_accounts:
  assumes "session_step st st'" "accounts k st"
  shows "accounts k st'"
  using assms(1)
proof cases
  case (read_consume s ft i)
  then show ?thesis
    using accountingD [OF drop_response_accounting assms(2), of i "Inr ()" st']
    by (simp add: drop_response_def on_state_def stateful_simps)
next
  case (clunk_commit ft fid buffer s i t)
  moreover from this have "accounts k (t, ft)"
    using accountingD [OF accounting_state [OF commit_write_relay_keeping [of buffer]] assms(2), of i "(t, ft)"]
    by (simp add: on_state_def)
  ultimately show ?thesis by (simp add: accounts_def bound_def)
next
  case (walk_resolve b fid parent name s start t ft)
  then show ?thesis
    using accountingD [OF accounting_state [OF begin_resolution_keeping] assms(2), of b fid parent name start st']
    by (simp add: on_state_def)
next
  case (walk_bind ft fid b newfid nid s r)
  then show ?thesis
    using accountingD [OF front_bind_fid_accounting assms(2)] by blast
qed ((erule accountingD [OF _ assms(2), rotated], rule session_facts) |
    (erule (2) polling_step [OF _ _ _ _ assms(2)], rule session_polls))+

definition others_bound :: "(nat, front_tree) fmap \<Rightarrow> nat \<Rightarrow> nat \<Rightarrow> nat" where
  "others_bound W c n = (\<Sum>d \<in> fmdom' W - {c}. bound (the (fmlookup W d)) n)"

definition world_bound :: "(nat, front_tree) fmap \<Rightarrow> nat \<Rightarrow> nat" where
  "world_bound W n = (\<Sum>d \<in> fmdom' W. bound (the (fmlookup W d)) n)"

lemma world_bound_at: "fmlookup W c = Some ft \<Longrightarrow> world_bound W n = others_bound W c n + bound ft n"
  unfolding world_bound_def others_bound_def
  by (subst sum.remove [of _ c]) (auto simp: fmlookup_dom'_iff)

lemma others_bound_upd: "others_bound (fmupd c ft W) c n = others_bound W c n"
  unfolding others_bound_def by (rule sum.cong) auto

lemma world_bound_drop: "world_bound (fmdrop c W) n = others_bound W c n"
  unfolding world_bound_def others_bound_def by (rule sum.cong) auto

lemma world_bound_upd: "world_bound (fmupd c ft W) n = others_bound W c n + bound ft n"
  using world_bound_at [of "fmupd c ft W" c ft n] others_bound_upd by simp

lemma others_bound_absent: "fmlookup W c = None \<Longrightarrow> others_bound W c n = world_bound W n"
  unfolding world_bound_def others_bound_def by (rule sum.cong) (auto simp: fmlookup_dom'_iff)

lemma bound_new [simp]: "bound (FrontTree_new i) n = 0"
  by (simp add: bound_def holders_def FrontTree_new_def)

definition world_ok :: "front_world \<Rightarrow> bool" where
  "world_ok = (\<lambda>(s, W). tree_ok s \<and> no_garbage s \<and> (\<forall>n. refs s n = world_bound W n))"

lemma world_accounts:
  "fmlookup W c = Some ft \<Longrightarrow> world_ok (s, W) \<longleftrightarrow> accounts (others_bound W c) (s, ft)"
  by (simp add: world_ok_def accounts_def world_bound_at)

lemma world_ok_upd: "accounts (others_bound W c) (s, ft) \<Longrightarrow> world_ok (s, fmupd c ft W)"
  by (simp add: world_ok_def accounts_def world_bound_upd)

lemma world_step_ok:
  assumes "world_step w w'" "world_ok w"
  shows "world_ok w'"
  using assms(1)
proof cases
  case (owner s t W)
  with assms(2) owner_step_keeps [of s t] keeps_refs [of s t] show ?thesis
    by (auto simp: world_ok_def tree_keeps_def)
next
  case (connect W c s session_id)
  with assms(2) show ?thesis by (simp add: world_ok_def world_bound_upd others_bound_absent)
next
  case (session W c ft s t ft')
  with assms(2) show ?thesis
    by (auto simp: world_accounts intro!: world_ok_upd elim: session_step_accounts)
next
  case (reset W c ft session_id s t ft')
  with assms(2) drop_tree_ok [of "others_bound W c" s ft] show ?thesis
    by (auto simp: world_accounts reset_tree_def accounts_def intro!: world_ok_upd)
next
  case (disconnect W c ft s)
  with assms(2) drop_tree_ok [of "others_bound W c" s ft] show ?thesis
    by (simp add: world_accounts) (simp add: world_ok_def world_bound_drop)
qed

text \<open>A new front.\<close>

lemma new_views:
  "par State_new i = (if i = ROOT_ID then Some ROOT_ID else None)"
  "nam State_new i = (if i = ROOT_ID then Some [SLASH] else None)"
  "qpt State_new i = (if i = ROOT_ID then Some 0 else None)"
  "kids State_new i = (if i = ROOT_ID then Some fmempty else None)" "child State_new i name = None"
  by (simp_all add: State_new_def par_def nam_def qpt_def kids_def child_def plain_node_def DirectoryBody_default_def)

lemma new_fields [simp]:
  "detached_roots State_new = {||}" "fid_references State_new = fmempty" "next_id State_new = 1"
  "qid_index State_new = fmupd 0 ROOT_ID fmempty"
  by (simp_all add: State_new_def)

lemma tree_ok_new: "tree_ok State_new"
proof -
  have "grounded State_new i" for i
    by (cases "i = ROOT_ID") (auto simp: new_views intro: grounded.intros)
  then show ?thesis
    by (auto simp: tree_ok_def new_views ROOT_ID_def)
qed

lemma world_ok_new: "world_ok (State_new, fmempty)"
  by (simp add: world_ok_def tree_ok_new no_garbage_def refs_def world_bound_def)

lemma reachable_ok: "front_reachable w \<Longrightarrow> world_ok w"
  by (induction rule: front_reachable.induct) (auto simp: world_ok_new intro: world_step_ok)

lemma bound_pos: "0 < bound ft n \<longleftrightarrow> (\<exists>fid b. fmlookup (ft_fids ft) fid = Some b \<and> fb_node b = n)"
  using finite_holders [of "ft_fids ft" n] by (auto simp: bound_def card_gt_0_iff holders_def)

lemma refs_pos: "tree_ok s \<Longrightarrow> 0 < refs s n \<longleftrightarrow> fmlookup (fid_references s) n \<noteq> None"
  using tree_ok_references [of s n] by (auto simp: refs_def split: option.splits)

lemma world_bound_pos:
  "0 < world_bound W n \<longleftrightarrow> (\<exists>c ft fid b. fmlookup W c = Some ft \<and> fmlookup (ft_fids ft) fid = Some b \<and> fb_node b = n)"
proof -
  have "0 < world_bound W n \<longleftrightarrow> (\<exists>c \<in> fmdom' W. 0 < bound (the (fmlookup W c)) n)"
    unfolding world_bound_def neq0_conv [symmetric] sum_eq_0_iff [OF finite_fmdom'] by simp
  also have "\<dots> \<longleftrightarrow> (\<exists>c ft. fmlookup W c = Some ft \<and> 0 < bound ft n)"
    by (force simp: fmlookup_dom'_iff)
  finally show ?thesis by (simp add: bound_pos)
qed

lemma held_node:
  assumes "tree_ok s" "0 < refs s n"
  shows "\<exists>nd st. get_node n s = Inr nd \<and> stat_for n s = Inr st"
proof -
  from assms obtain nd where "fmlookup (nodes s) n = Some nd"
    using tree_ok_references [OF assms(1)] by (auto simp: refs_pos par_iff)
  then show ?thesis by (simp add: stat_for_def qid_for_def get_node_def)
qed

text \<open>C7: Whatever owners and sessions do, in whatever order, in every state a front can reach: the tree is
  well-formed; the count kept for a node is exactly the number of fids of all sessions bound to it; a
  node that any fid is bound to exists, and its stat answers; and below every detached subtree that is
  still kept there is a node some fid is bound to.\<close>
theorem front_holds_what_fids_hold:
  assumes "front_reachable (s, W)"
  shows "tree_ok s \<and>
    (\<forall>n. refs s n = (\<Sum>c \<in> fmdom' W. bound (the (fmlookup W c)) n)) \<and>
    (\<forall>c ft fid b. fmlookup W c = Some ft \<longrightarrow> fmlookup (ft_fids ft) fid = Some b \<longrightarrow>
      (\<exists>nd st. get_node (fb_node b) s = Inr nd \<and> stat_for (fb_node b) s = Inr st)) \<and>
    (\<forall>d. d |\<in>| detached_roots s \<longrightarrow> (\<exists>n c ft fid b. (d, n) \<in> (edges s)\<^sup>* \<and>
      fmlookup W c = Some ft \<and> fmlookup (ft_fids ft) fid = Some b \<and> fb_node b = n))"
proof -
  have ok: "tree_ok s" "no_garbage s" "\<And>n. refs s n = world_bound W n"
    using reachable_ok [OF assms] by (simp_all add: world_ok_def)
  have held: "\<exists>nd st. get_node (fb_node b) s = Inr nd \<and> stat_for (fb_node b) s = Inr st"
    if "fmlookup W c = Some ft" "fmlookup (ft_fids ft) fid = Some b" for c ft fid b
  proof (rule held_node [OF ok(1)])
    show "0 < refs s (fb_node b)" unfolding ok(3) world_bound_pos using that by blast
  qed
  have kept: "\<exists>n c ft fid b. (d, n) \<in> (edges s)\<^sup>* \<and>
      fmlookup W c = Some ft \<and> fmlookup (ft_fids ft) fid = Some b \<and> fb_node b = n"
    if "d |\<in>| detached_roots s" for d
  proof -
    from ok(2) that obtain n where n: "(d, n) \<in> (edges s)\<^sup>*" "fmlookup (fid_references s) n \<noteq> None"
      unfolding no_garbage_def unreferenced_def by blast
    then have "0 < world_bound W n" using ok(3) [of n] refs_pos [OF ok(1), of n] by simp
    with n(1) show ?thesis unfolding world_bound_pos by blast
  qed
  show ?thesis
    by (intro conjI allI impI ok(1) ok(3) [unfolded world_bound_def]) ((erule (1) held | erule kept)+)
qed

end
