(* ===== verification/R9P_Front_Walk.thy ===== *)
theory R9P_Front_Walk
  imports R9P_Front_World
begin

text \<open>
  Where a walk can lead. A fid carries the root its session attached at, and \<^verbatim>\<open>..\<close> stops there. As long
  as no one changes the parent of a node, a walk from below the root stays below it. An owner
  that pushes a detached directory again under a new parent does change it, and then \<^verbatim>\<open>..\<close> leads out.
\<close>

section \<open>Descending from a root\<close>

definition descends :: "front_state \<Rightarrow> nat \<Rightarrow> nat \<Rightarrow> bool" where
  "descends s root n \<longleftrightarrow> (n, root) \<in> (links s)\<^sup>*"

lemma path_segments_climb:
  "(i, root) \<in> links s ^^ k \<Longrightarrow> k < n \<Longrightarrow> \<exists>segs. path_segments_loop n i root acc s = Inr segs"
proof (induction n arbitrary: i k acc)
  case (Suc n)
  show ?case
  proof (cases "i = root")
    case False
    then obtain m where m: "k = Suc m" using Suc.prems(1) by (cases k) auto
    from relpow_Suc_D2 [OF Suc.prems(1) [unfolded m]] obtain j
      where j: "(i, j) \<in> links s" "(j, root) \<in> links s ^^ m" by blast
    then obtain nd where "fmlookup (nodes s) i = Some nd" "node_parent nd = j" "i \<noteq> ROOT_ID"
      by (auto simp: links_def par_iff)
    moreover have "\<exists>segs. path_segments_loop n j root (from_utf8_lossy (node_name nd) # acc) s = Inr segs" for nd :: node
      using Suc.IH [OF j(2)] m Suc.prems(2) by simp
    ultimately show ?thesis using False by (auto simp: get_node_def)
  qed simp
qed simp

lemma path_segments_descends: "path_segments_loop n i root acc s = Inr segs \<Longrightarrow> descends s root i"
proof (induction n arbitrary: i acc)
  case (Suc n)
  then show ?case
    by (cases "i = root"; cases "i = ROOT_ID")
       (auto simp: descends_def and_then_Inr_iff get_node_Inr links_def par_def intro: converse_rtrancl_into_rtrancl)
qed simp

lemma path_relative_descends: "(\<exists>p. path_relative_to i root s = Inr p) \<longleftrightarrow> descends s root i"
proof
  assume "descends s root i"
  then obtain k where "k < fuel s" "(i, root) \<in> links s ^^ k"
    using rtrancl_bounded [of "links s" "fcard (fmdom (nodes s))" i] finite_links [of s]
    by (auto simp: descends_def fuel_def)
  with path_segments_climb show "\<exists>p. path_relative_to i root s = Inr p"
    by (auto simp: path_relative_to_def map_ok_Inr_iff)
qed (auto simp: path_relative_to_def map_ok_Inr_iff dest: path_segments_descends)

lemma descends_up:
  assumes "descends s root i" "i \<noteq> root" "par s i = Some p"
  shows "descends s root p"
  using assms by (auto simp: descends_def links_def elim: converse_rtranclE)

lemma descends_down: "descends s root p \<Longrightarrow> par s c = Some p \<Longrightarrow> c \<noteq> ROOT_ID \<Longrightarrow> descends s root c"
  by (auto simp: descends_def links_def intro: converse_rtrancl_into_rtrancl)

section \<open>Calm surroundings\<close>

definition parents_kept :: "front_state \<Rightarrow> front_state \<Rightarrow> bool" where
  "parents_kept s t \<longleftrightarrow> tree_ok t \<and> (\<forall>i p. par s i = Some p \<longrightarrow> par t i = Some p)"

lemma parents_kept_trans: "parents_kept s t \<Longrightarrow> parents_kept t u \<Longrightarrow> parents_kept s u"
  by (simp add: parents_kept_def)

lemma parents_kept_refl: "tree_ok s \<Longrightarrow> parents_kept s s"
  by (simp add: parents_kept_def)

lemma descends_kept:
  assumes "parents_kept s t" "descends s root i"
  shows "descends t root i"
proof -
  have "links s \<subseteq> links t" using assms(1) by (auto simp: parents_kept_def links_def)
  with assms(2) show ?thesis unfolding descends_def by (meson rtrancl_mono subsetD)
qed

text \<open>Surroundings that never change the parent of a node, nor remove one.\<close>

definition calm :: "(front_state \<Rightarrow> front_state) \<Rightarrow> bool" where
  "calm f \<longleftrightarrow> (\<forall>s. tree_ok s \<longrightarrow> parents_kept s (f s))"

definition calm_walk :: "walk_env \<Rightarrow> bool" where
  "calm_walk = (\<lambda>(before, between, turns, after). calm before \<and> calm between \<and> calm after \<and>
     (\<forall>(others, cancelled, expired) \<in> set turns. calm others))"

lemma beside_parents: "beside g \<Longrightarrow> tree_ok s \<Longrightarrow> parents_kept s (g s)"
  using beside_keeps [of g s] views_nodes(1) [of "g s" s] by (simp add: parents_kept_def tree_keeps_def beside_def)

lemma insert_node_par:
  assumes "tree_ok s" "insert_node nd s = (r, t)"
  shows "par t (next_id s) = Some (node_parent nd)" "par s i = Some p \<Longrightarrow> par t i = Some p" "r = Inr (next_id s)"
proof -
  have "par t i = (if i = next_id s then Some (node_parent nd) else par s i)" for i
    using assms(2) by (auto simp: insert_node_def front_simps) (auto simp: par_def)
  moreover have "par s i = Some p \<Longrightarrow> i \<noteq> next_id s" using tree_ok_fresh [OF assms(1)] by fastforce
  ultimately show "par t (next_id s) = Some (node_parent nd)" "par s i = Some p \<Longrightarrow> par t i = Some p" by auto
  show "r = Inr (next_id s)" using assms(2) by (simp add: insert_node_def)
qed

lemma update_node_par: "(\<And>nd. node_parent (f nd) = node_parent nd) \<Longrightarrow> par (update_node j f s) i = par s i"
  by (cases "fmlookup (nodes s) i") (simp_all add: par_def fmlookup_update_node)

lemma note_remove_relay_par: "par (note_remove_relay relay s) = par s"
  by (rule views_nodes) (simp add: note_remove_relay_def split: option.splits)

lemma insert_child_par:
  assumes ok: "tree_ok s" and run: "insert_pushed_child_directory parent name m rp removal s = (r, t)"
  shows "parents_kept s t" "r = Inr c \<Longrightarrow> par t c = Some parent"
proof -
  have t: "tree_ok t" using keepingD [OF insert_pushed_child_directory_keeping ok run] by (simp add: tree_keeps_def)
  have "t = s \<and> (\<exists>e. r = Inl e) \<or> (\<exists>i. r = Inr i \<and> par t i = Some parent \<and> (\<forall>i p. par s i = Some p \<longrightarrow> par t i = Some p))"
  proof (cases "\<exists>relay existing. meta_length m = 0 \<and> child_directory_relay parent name removal s = Inr relay \<and>
      child_of parent name s = Inr existing")
    case True
    then obtain relay existing where pre: "meta_length m = 0" "child_directory_relay parent name removal s = Inr relay"
      "child_of parent name s = Inr existing" by blast
    with run have place: "place_child_directory parent name m rp relay existing s = (r, t)"
      by (simp add: insert_pushed_child_directory_def bind_s_def stateful_simps)
    show ?thesis
    proof (cases existing)
      case None
      let ?nd = "(pushed_node name parent (Dir (DirectoryBody_default\<lparr>read_relay := Some rp\<rparr>)) m)\<lparr>remove_relay := relay\<rparr>"
      show ?thesis
      proof (cases "fmlookup (qid_index s) (meta_qid_path m) = None")
        case True
        obtain r1 u where ins: "insert_node ?nd s = (r1, u)" by (cases "insert_node ?nd s")
        note par = insert_node_par [OF ok ins]
        from place None True ins par(3) have "t = note_remove_relay relay u" "r = Inr (next_id s)"
          by (simp_all add: place_child_directory_def bind_s_def stateful_simps)
        with par show ?thesis by (simp add: note_remove_relay_par)
      next
        case False
        with place None show ?thesis by (auto simp: place_child_directory_def bind_s_def stateful_simps)
      qed
    next
      case (Some c)
      then have c: "par s c = Some parent"
        using pre(3) tree_ok_child(3) [OF ok] by (auto simp: child_of_iff)
      show ?thesis
      proof (cases "\<exists>nd. get_node c s = Inr nd \<and> is_Dir (node_body nd)")
        case True
        with place Some have "r = Inr c" "par t i = par s i" for i
          by (auto simp: place_child_directory_def bind_s_def stateful_simps note_remove_relay_par update_node_par)
        with c show ?thesis by simp
      next
        case False
        with place Some show ?thesis
          by (cases "get_node c s") (auto simp: place_child_directory_def bind_s_def stateful_simps)
      qed
    qed
  next
    case False
    with run show ?thesis
      by (cases "child_directory_relay parent name removal s"; cases "child_of parent name s")
         (auto simp: insert_pushed_child_directory_def bind_s_def stateful_simps split: if_splits)
  qed
  with t show "parents_kept s t" "r = Inr c \<Longrightarrow> par t c = Some parent"
    by (auto simp: parents_kept_def)
qed

section \<open>A walk step by step\<close>

lemma begin_resolution_nodes:
  "begin_resolution b fid parent name s = (r, t) \<Longrightarrow> nodes t = nodes s"
  "begin_resolution b fid parent name s = (Inr (Resolved (Some c)), t) \<Longrightarrow> child s parent name = Some c"
proof -
  have start: "nodes t = nodes s" if "start_resolution b fid parent name resolver s = (r, t)" for resolver s r t
    using that unfolding start_resolution_def
    by (auto simp: bind_s_def stateful_simps take_request_id_def queue_request_def split: sum.splits prod.splits)
  then have join: "nodes t = nodes s" if "join_resolution b fid parent name resolver s = (r, t)" for resolver s r t
    using that by (auto simp: join_resolution_def split: option.splits)
  show "nodes t = nodes s" if run: "begin_resolution b fid parent name s = (r, t)"
    using run unfolding begin_resolution_def
    by (auto simp: bind_s_def stateful_simps split: sum.splits prod.splits body.splits option.splits dest: join)
  show "child s parent name = Some c" if run: "begin_resolution b fid parent name s = (Inr (Resolved (Some c)), t)"
    using run unfolding begin_resolution_def
    by (auto simp: bind_s_def stateful_simps child_def kids_def get_node_def ok_or_def
        split: sum.splits prod.splits body.splits option.splits)
qed

lemma begin_resolution_parents: "tree_ok s \<Longrightarrow> begin_resolution b fid parent name s = (r, t) \<Longrightarrow> parents_kept s t"
  using keepingD [OF begin_resolution_keeping] views_nodes(1) [OF begin_resolution_nodes(1)]
  by (simp add: parents_kept_def tree_keeps_def)

lemma finish_parents: "parents_kept s t \<Longrightarrow> parents_kept s (finish_child_directory_waiter k t)"
  using beside_parents [OF beside_intros(3)] parents_kept_trans by (auto simp: parents_kept_def)

lemma beside_par: "beside g \<Longrightarrow> par (g s) = par s"
  by (rule views_nodes) (simp add: beside_def)

lemma wait_on_spec:
  "tree_ok s \<Longrightarrow> wait_on k expired s = (r, t) \<Longrightarrow> parents_kept s t \<and> r \<noteq> Some (Inr c)"
  by (auto simp: wait_on_def parents_kept_refl finish_parents split: if_splits)

lemma poll_child_spec:
  assumes ok: "tree_ok s" and run: "poll_child_directory parent name cancelled expired s = (r, t)"
  shows "parents_kept s t \<and> (\<forall>c. r = Some (Inr (Some c)) \<longrightarrow> par t c = Some parent)"
proof -
  let ?k = "(parent, name)"
  have finish: "parents_kept s (finish_child_directory_waiter ?k s)" by (rule finish_parents [OF parents_kept_refl [OF ok]])
  show ?thesis
  proof (cases "\<exists>r0 m. \<not> node_is_detached parent s \<and> child_of parent name s = Inr None \<and>
      fmlookup (child_directory_resolutions s) ?k = Some r0 \<and> res_reply r0 = Some (ChildAccepted m)")
    case True
    then obtain r0 m where pre: "\<not> node_is_detached parent s" "child_of parent name s = Inr None"
      "fmlookup (child_directory_resolutions s) ?k = Some r0" "res_reply r0 = Some (ChildAccepted m)" by blast
    obtain r1 u where ins: "insert_pushed_child_directory parent name m (res_read_prefix r0) (res_removal r0) s = (r1, u)"
      by (cases "insert_pushed_child_directory parent name m (res_read_prefix r0) (res_removal r0) s")
    note u = insert_child_par [OF ok ins]
    then have "tree_ok u" by (simp add: parents_kept_def)
    show ?thesis
    proof (cases r1)
      case (Inr c)
      with run pre ins have "r = Some (Inr (Some c))" "t = finish_child_directory_waiter ?k u"
        by (simp_all add: poll_child_directory_def Let_def)
      with u Inr show ?thesis by (simp add: finish_parents beside_par [OF beside_intros(3)])
    next
      case (Inl e)
      let ?v = "note_rejected ?k e u"
      have v: "parents_kept s ?v"
        using parents_kept_trans [OF u(1) beside_parents [OF beside_intros(6) \<open>tree_ok u\<close>]] .
      with run pre ins Inl have "wait_on ?k expired ?v = (r, t)" by (simp add: poll_child_directory_def Let_def)
      with v wait_on_spec [of ?v ?k expired r t] parents_kept_trans [OF v] show ?thesis
        by (auto simp: parents_kept_def)
    qed
  next
    case False
    with run ok finish wait_on_spec [OF ok, of ?k expired r t] tree_ok_child(3) [OF ok] show ?thesis
      unfolding poll_child_directory_def Let_def
      by (auto simp: parents_kept_refl child_of_iff beside_par [OF beside_intros(3)]
          split: if_splits sum.splits option.splits child_directory_reply.splits)
  qed
qed

lemma wait_child_spec:
  assumes "tree_ok s" "wait_loop (poll_child_directory parent name) turns s = (r, t)"
    "\<forall>(others, cancelled, expired) \<in> set turns. calm others"
  shows "parents_kept s t \<and> (\<forall>c. r = Some (Inr (Some c)) \<longrightarrow> par t c = Some parent)"
  using assms
proof (induction turns arbitrary: s)
  case (Cons turn turns)
  obtain others cancelled expired where turn: "turn = (others, cancelled, expired)" by (cases turn)
  have u: "parents_kept s (others s)" using Cons.prems(1,3) turn by (simp add: calm_def)
  then have "tree_ok (others s)" by (simp add: parents_kept_def)
  obtain r1 v where poll: "poll_child_directory parent name cancelled expired (others s) = (r1, v)"
    by (cases "poll_child_directory parent name cancelled expired (others s)")
  note v = poll_child_spec [OF \<open>tree_ok (others s)\<close> poll]
  then have sv: "parents_kept s v" "tree_ok v" using u parents_kept_trans by (auto simp: parents_kept_def)
  show ?case
  proof (cases r1)
    case None
    with Cons.prems(2) turn poll have "wait_loop (poll_child_directory parent name) turns v = (r, t)" by simp
    with Cons.IH [OF sv(2)] Cons.prems(3) sv(1) parents_kept_trans show ?thesis by auto
  qed (use Cons.prems(2) turn poll v sv in auto)
qed (simp add: parents_kept_refl)

lemma resolve_spec:
  assumes ok: "tree_ok s" and run: "resolve_child_directory b fid parent name turns s = (r, t)"
    and turns: "\<forall>(others, cancelled, expired) \<in> set turns. calm others"
  shows "parents_kept s t \<and> (\<forall>c. r = Some (Inr (Some c)) \<longrightarrow> par t c = Some parent)"
proof -
  obtain r1 u where start: "begin_resolution b fid parent name s = (r1, u)" by (cases "begin_resolution b fid parent name s")
  have u: "parents_kept s u" "par u = par s"
    by (rule begin_resolution_parents [OF ok start]) (rule views_nodes(1) [OF begin_resolution_nodes(1) [OF start]])
  then have "tree_ok u" by (simp add: parents_kept_def)
  note wait = wait_child_spec [OF this _ turns]
  have found: "par s c = Some parent" if "r1 = Inr (Resolved (Some c))" for c
    using begin_resolution_nodes(2) start that tree_ok_child(3) [OF ok] by blast
  show ?thesis
    using run start u found wait parents_kept_trans [OF u(1)]
    by (auto simp: resolve_child_directory_def split: sum.splits resolution_start.splits)
qed

lemma descends_child: "tree_ok s \<Longrightarrow> descends s root p \<Longrightarrow> par s c = Some p \<Longrightarrow> descends s root c"
  using descends_down [of s root p c] tree_ok_root(2) [of s] by (cases "c = ROOT_ID") auto

lemma find_child_spec:
  assumes ok: "tree_ok s" and here: "descends s (fb_root b) here" and run: "find_child b here name s = Inr (To nid)"
  shows "descends s (fb_root b) nid"
proof (cases "name = [DOT, DOT]")
  case True
  then show ?thesis
    using run here descends_up [OF here]
    by (auto simp: find_child_def map_ok_Inr_iff get_node_Inr par_def split: if_splits)
next
  case False
  with run obtain n where n: "fmlookup (nodes s) here = Some n"
    by (auto simp: find_child_def get_node_def ok_or_def split: option.splits)
  with run False have "child s here name = Some nid"
    by (cases "node_body n")
      (auto simp: find_child_def get_node_def child_def kids_def split: option.splits if_splits)
  with ok here show ?thesis using descends_child tree_ok_child(3) by blast
qed

lemma walk_loop_spec:
  assumes "tree_ok s" "descends s (fb_root b) here" "\<forall>env \<in> set envs. calm_walk env"
    "walk_loop b fid names envs here qids s = (Some (Inr (there, qids')), t)"
  shows "tree_ok t \<and> descends t (fb_root b) there"
  using assms
proof (induction names arbitrary: envs here qids s)
  case (Cons name names)
  then obtain before between turns after envs' where envs: "envs = (before, between, turns, after) # envs'"
    by (cases envs) auto
  have calm: "calm before" "calm between" "calm after" "\<forall>(others, cancelled, expired) \<in> set turns. calm others"
    using Cons.prems(3) by (auto simp: envs calm_walk_def)
  let ?s = "before s"
  have s: "parents_kept s ?s" using calm(1) Cons.prems(1) by (simp add: calm_def)
  then have ok: "tree_ok ?s" and here: "descends ?s (fb_root b) here"
    using descends_kept Cons.prems(2) by (auto simp: parents_kept_def)
  have arrive: "tree_ok t \<and> descends t (fb_root b) there"
    if u: "tree_ok u" "descends u (fb_root b) nid"
      and go: "walk_to b fid names envs' nid qids (after u) = (Some (Inr (there, qids')), t)" for u nid
  proof -
    have "parents_kept u (after u)" using calm(3) u(1) by (simp add: calm_def)
    then have "tree_ok (after u)" "descends (after u) (fb_root b) nid"
      using descends_kept u(2) by (auto simp: parents_kept_def)
    moreover obtain q where "walk_loop b fid names envs' nid (qids @ [q]) (after u) = (Some (Inr (there, qids')), t)"
      using go by (auto split: sum.splits)
    ultimately show ?thesis using Cons.IH Cons.prems(3) envs by fastforce
  qed
  note run = Cons.prems(4) [unfolded envs walk_loop.simps Let_def]
  show ?case
  proof (cases "find_child b here name ?s")
    case (Inl e)
    with run show ?thesis by simp
  next
    case (Inr c)
    show ?thesis
    proof (cases c)
      case (To nid)
      with Inr run have "walk_to b fid names envs' nid qids (after ?s) = (Some (Inr (there, qids')), t)" by simp
      with arrive [OF ok find_child_spec [OF ok here]] Inr To show ?thesis by simp
    next
      case Missing
      have v: "parents_kept ?s (between ?s)" using calm(2) ok by (simp add: calm_def)
      then have okv: "tree_ok (between ?s)" by (simp add: parents_kept_def)
      obtain r1 u where res: "resolve_child_directory b fid here name turns (between ?s) = (r1, u)"
        by (cases "resolve_child_directory b fid here name turns (between ?s)")
      note u = resolve_spec [OF okv res calm(4)]
      have "parents_kept ?s u" using parents_kept_trans [OF v] u by blast
      then have su: "tree_ok u" "descends u (fb_root b) here"
        using descends_kept [OF _ here] by (simp_all add: parents_kept_def)
      consider nid where "r1 = Some (Inr (Some nid))" | e where "t = u" "short_walk e here qids = Inr (there, qids')"
        using run Inr Missing res by (auto split: option.splits sum.splits)
      then show ?thesis
      proof cases
        case 1
        with run Inr Missing res have "walk_to b fid names envs' nid qids (after u) = (Some (Inr (there, qids')), t)"
          by simp
        moreover have "par u nid = Some here" using u 1 by blast
        ultimately show ?thesis using arrive [OF su(1) descends_child [OF su]] by blast
      next
        case 2
        with su show ?thesis by (auto simp: short_walk_def split: if_splits)
      qed
    qed
  qed
qed auto

text \<open>C9: As long as the surroundings of a walk change no parent, a walk that starts at or below the root
  its session attached at ends at or below that root: the path from the root to where the walk has
  come exists, as the code itself computes it.\<close>
theorem walk_stays_below_root:
  assumes "tree_ok s" "path_relative_to (fb_node b) (fb_root b) s = Inr path" "\<forall>env \<in> set envs. calm_walk env"
    "walk_loop b fid names envs (fb_node b) [] s = (Some (Inr (there, qids)), t)"
  shows "\<exists>path. path_relative_to there (fb_root b) t = Inr path"
proof -
  have "descends s (fb_root b) (fb_node b)" using assms(1,2) by (simp add: path_relative_descends [symmetric])
  then have "tree_ok t \<and> descends t (fb_root b) there" by (rule walk_loop_spec [OF assms(1) _ assms(3,4)])
  then show ?thesis by (simp add: path_relative_descends)
qed

end
