(* ===== verification/R9P_Front_Props.thy ===== *)
theory R9P_Front_Props
  imports R9P_Front_Walk
begin

text \<open>
  What a front shows to its readers, over the methods an owner calls and the handlers a session
  calls, and runs of a front on concrete publications.
\<close>

section \<open>Publishing is visible and local\<close>

text \<open>C12: A file that has been set is found under its path and reads back its bytes, at any offset and
  count. Every path that resolved before resolves to the same node, and every other file, log or relay
  is untouched.\<close>
theorem front_set_shows:
  assumes ok: "tree_ok s" and run: "Front_set path bs s = (Inr (), t)"
  shows "\<exists>i. lookup_path path t = Inr i \<and>
    (\<forall>offset count turns. read_node i offset count turns t =
       (Some (Inr (Read_Bytes (take (unat count) (drop (unat offset) bs)))), t)) \<and>
    (\<forall>other j. lookup_path other s = Inr j \<longrightarrow> lookup_path other t = Inr j) \<and>
    (\<forall>j nd. j \<noteq> i \<longrightarrow> fmlookup (nodes s) j = Some nd \<longrightarrow> \<not> is_Dir (node_body nd) \<longrightarrow>
       fmlookup (nodes t) j = Some nd)"
proof -
  from run obtain i where i: "place path (File bs) s = (Inr i, t)"
    by (auto simp: Front_set_def bind_s_Inr_iff stateful_simps)
  note placed = place_spec [OF ok _ i, simplified]
  from placed(3) obtain nd where nd: "fmlookup (nodes t) i = Some nd" "node_body nd = File bs" by blast
  have "read_window bs offset count = take (unat count) (drop (unat offset) bs)" for offset count
    by (cases "unat offset \<le> length bs") (simp_all add: read_window_def min_def)
  with nd have "read_node i offset count turns t =
      (Some (Inr (Read_Bytes (take (unat count) (drop (unat offset) bs)))), t)" for offset count turns
    by (simp add: read_node_def get_node_def)
  with placed(1,2) show ?thesis unfolding lookup_path_segments extends_def by blast
qed

section \<open>Removal, recursively and at once\<close>

text \<open>C14: \<^verbatim>\<open>remove_node_recursive\<close> satisfies the recursion of the source (forget the node, then remove
  each child in turn) and equals the removal, in one go, of exactly the nodes that can be reached from
  the node, from the tree and from all its indexes. It does so on every state, cyclic ones included, and
  so always terminates.\<close>
theorem removal_is_purge:
  "remove_node_recursive nid s = purge (below s {nid}) s \<and>
   remove_node_recursive nid s =
     (case fmlookup (nodes s) nid of
        None \<Rightarrow> s
      | Some nd \<Rightarrow> fold remove_node_recursive (node_children nd) (forget_node nid nd s))"
  using remove_nodes_is_purge [of "[nid]" s] remove_node_recursive_eq [of nid s]
  by (simp add: remove_node_recursive_def)

section \<open>Runs\<close>

text \<open>The definitions that the evaluation of a run unfolds.\<close>

lemmas run_simps = ROOT_ID_def State_new_def DirectoryBody_default_def plain_node_def with_metadata_def
  stateful_simps bind_s_def Let_def get_node_def child_of_def update_node_def update_children_def
  next_available_qid_path.simps insert_node_def ensure_dir_def open_parent_def place_def
  lookup_path_def lookup_optional_path_def canonical_root_path_def normalise_request_prefix_def
  Front_set_def set_body_def

lemmas session_simps = FrontTree_new_def ask_def on_state_def on_tree_def attach_root_for_def qid_for_def
  Qid_new_def retain_fid_node_def front_attach_def front_bind_fid_def front_walk_def find_child_def
  calm_env_def

lemma sorted_one [simp]: "sorted_list_of_fset {|x|} = [x]"
  by (simp add: sorted_list_of_fset.rep_eq)

lemma run_paths:
  "split_path [1] = Inr [[1]]" "split_path [2] = Inr [[2]]" "split_path [3] = Inr [[3]]"
  "split_path [1, SLASH, 2] = Inr [[1], [2]]"
  "trim_slashes [1] = [1]" "trim_slashes [2] = [2]" "trim_slashes [3] = [3]"
  "trim_slashes [1, SLASH, 2] = [1, SLASH, 2]" "trim_slashes [SLASH, 1] = [1]"
  "from_utf8_lossy [1] = [1]" "from_utf8_lossy [2] = [2]" "from_utf8_lossy [3] = [3]" "from_utf8_lossy [4] = [4]"
  "str ''*'' \<noteq> []" "[DOT, DOT] \<noteq> [1]" "[DOT, DOT] \<noteq> [2]" "[3] \<noteq> [DOT, DOT]"
  by code_simp+

theorem front_set_shows_witness:
  "\<exists>t. Front_set [1, SLASH, 2] [9, 8] State_new = (Inr (), t) \<and>
    (\<exists>i. read_node i 1 5 [] t = (Some (Inr (Read_Bytes [8])), t))"
proof -
  obtain t where t: "Front_set [1, SLASH, 2] [9, 8] State_new = (Inr (), t)"
    by (simp add: run_simps run_paths)
  from front_set_shows [OF tree_ok_new t] obtain i where
    "read_node i 1 5 [] t = (Some (Inr (Read_Bytes (take (unat (5 :: u32)) (drop (unat (1 :: u64)) [9, 8])))), t)"
    by blast
  with t show ?thesis by auto
qed

lemma owner_further: "front_reachable (s, W) \<Longrightarrow> owner_step s t \<Longrightarrow> front_reachable (t, W)"
  by (rule front_reachable.further [OF _ world_step.owner])

lemma connect_further: "front_reachable (s, fmempty) \<Longrightarrow> front_reachable (s, fmupd 0 (FrontTree_new session_id) fmempty)"
  by (rule front_reachable.further [OF _ world_step.connect]) simp_all

lemma session_further:
  "front_reachable (s, fmupd 0 ft fmempty) \<Longrightarrow> session_step (s, ft) (t, ft') \<Longrightarrow>
    front_reachable (t, fmupd 0 ft' fmempty)"
  using front_reachable.further [OF _ world_step.session, of s "fmupd 0 ft fmempty" 0 ft t ft'] by simp

lemmas owner_runs =
  owner_further [OF _ owner_step.set [OF prod.collapse [symmetric]]]
  owner_further [OF _ owner_step.set_pushed_directory [OF prod.collapse [symmetric]]]
  owner_further [OF _ owner_step.remove_subtree [OF prod.collapse [symmetric]]]
  owner_further [OF _ owner_step.set_principal_root [OF prod.collapse [symmetric]]]
  owner_further [OF _ owner_step.register_snapshot_read_relay [OF prod.collapse [symmetric]]]
  owner_further [OF _ owner_step.register_remove_relay [OF prod.collapse [symmetric]]]
  owner_further [OF _ owner_step.complete_request [OF prod.collapse [symmetric]]]
  owner_further [OF _ owner_step.complete_remove [OF prod.collapse [symmetric]]]

subsection \<open>A root that is pushed again\<close>

text \<open>An owner pushes a directory \<open>1\<close> with a directory \<open>1/2\<close> in it, sets a file \<open>3\<close> next to it, and
  makes \<open>1\<close> the root of a principal. The principal attaches and walks to \<open>2\<close>. The owner removes \<open>1\<close>
  and pushes \<open>1/2\<close> again, with the qid path it had.\<close>

definition at_qid :: "u64 \<Rightarrow> pushed_entry_metadata" where
  "at_qid q = \<lparr>meta_qid_path = q, meta_qid_version = 0, meta_generation = 0, meta_mtime = 0, meta_length = 0,
     meta_visibility_class = [], meta_freshness_ref = [], meta_wake_token = []\<rparr>"

definition rooted :: front_state where
  "rooted = snd (Front_set_principal_root [4] [1] (snd (Front_set [3] [9]
     (snd (Front_set_pushed_directory [1, SLASH, 2] (at_qid 200) (snd (Front_set_pushed_directory [1] (at_qid 100) State_new)))))))"

definition walked :: tree_state where
  "walked = snd (front_walk 1 2 [[2]] [calm_env] (\<lambda>s. s) (snd (front_attach 1 [4] [] (rooted, FrontTree_new 7))))"

definition pushed_again :: front_state where
  "pushed_again = snd (Front_set_pushed_directory [1, SLASH, 2] (at_qid 200)
     (snd (Front_remove_subtree_if_exists [1] (fst walked))))"

lemmas push_simps = run_simps session_simps Front_set_pushed_directory_def place_pushed_directory_def place_pushed_def
  reattach_detached_pushed_node_def pushed_node_def at_qid_def Front_set_principal_root_def
  Front_set_principal_class_aname_def Front_remove_subtree_if_exists_def remove_subtree_if_exists_def
  retire_detached_subtree_def subtree_has_fid_reference_def fuel_def fcard_finsert_if node_is_detached_def
  path_relative_to_def collect_unreferenced_detached_subtrees_def apply_pushed_metadata_def replace_qid_path_def
  run_paths

lemma rooted_reachable: "front_reachable (rooted, fmempty)"
  unfolding rooted_def Front_set_principal_root_def
  by (rule owner_runs front_reachable.start)+

lemma walked_reachable: "front_reachable (fst walked, fmupd 0 (snd walked) fmempty)"
proof -
  let ?st = "snd (front_attach 1 [4] [] (rooted, FrontTree_new 7))"
  have "front_reachable (fst ?st, fmupd 0 (snd ?st) fmempty)"
    by (rule session_further [OF connect_further [OF rooted_reachable]])
       (rule session_step.attach, simp add: prod_eq_iff)
  moreover have "walked = snd (front_bind_fid 2 ((the (fmlookup (ft_fids (snd ?st)) 1))\<lparr>fb_node := Suc (Suc 0)\<rparr>) ?st)"
    "fmlookup (ft_fids (snd ?st)) 1 \<noteq> None"
    unfolding walked_def rooted_def by (simp_all add: push_simps)
  ultimately show ?thesis
    by (elim session_further) (rule session_step.walk_bind [of _ 1], auto simp: prod_eq_iff)
qed

lemma pushed_again_reachable: "front_reachable (pushed_again, fmupd 0 (snd walked) fmempty)"
  unfolding pushed_again_def
  by (rule owner_runs walked_reachable)+


subsection \<open>A snapshot that outlives its fid\<close>

text \<open>An owner registers snapshot relays \<open>1\<close> and \<open>2\<close>, the first with a remove relay. A session opens
  \<open>1\<close> under a fid and reads it, the owner answers, the session removes the file, the owner agrees. The
  session walks the same fid number to \<open>2\<close>.\<close>

definition relays :: front_state where
  "relays = snd (Front_register_snapshot_read_relay [2] (snd (Front_register_remove_relay [1]
     (snd (Front_register_snapshot_read_relay [1] State_new)))))"

definition reading :: tree_state where
  "reading = snd (read_target_at 2 0 8 (snd (front_walk 1 2 [[1]] [calm_env] (\<lambda>s. s)
     (snd (front_attach 1 [4] [] (relays, FrontTree_new 7))))))"

definition answered :: front_state where
  "answered = snd (Front_complete_request [1] 1 [9] (\<lambda>s. s) (fst reading))"

lemma one_plus_one: "saturating_add 1 1 = (2 :: u64)" by (simp add: saturating_add_def)

lemmas relay_simps = run_simps session_simps Front_register_snapshot_read_relay_def register_relay_def
  Front_register_remove_relay_def read_target_at_def the_binding_def read_snapshot_relay_def request_response_def
  node_context_def request_context_for_def open_mode_of_def take_request_id_def queue_request_def
  Front_complete_request_def fill_response_def front_remove_def await_def remove_request_def checked_binding_def
  complete_remove_result_def poll_remove_relay_def remove_finish_def remove_subtree_if_exists_def front_unbind_fid_def
  release_fid_node_def retire_detached_subtree_def subtree_has_fid_reference_def fuel_def fcard_finsert_if
  path_relative_to_def collect_unreferenced_detached_subtrees_def remove_node_recursive_def forget_node_def
  drop_response_def front_read_def read_from_def response_read_def poll_rpc_def read_window_def run_paths one_plus_one

lemma relays_reachable: "front_reachable (relays, fmempty)"
  unfolding relays_def by (rule owner_runs front_reachable.start)+

lemma answered_reachable: "front_reachable (answered, fmupd 0 (snd reading) fmempty)"
proof -
  let ?st = "snd (front_attach 1 [4] [] (relays, FrontTree_new 7))"
  let ?b = "(the (fmlookup (ft_fids (snd ?st)) 1))\<lparr>fb_node := Suc 0\<rparr>"
  let ?st' = "snd (front_bind_fid 2 ?b ?st)"
  have "front_reachable (fst ?st, fmupd 0 (snd ?st) fmempty)"
    by (rule session_further [OF connect_further [OF relays_reachable]])
       (rule session_step.attach, simp add: prod_eq_iff)
  moreover have st': "snd (front_walk 1 2 [[1]] [calm_env] (\<lambda>s. s) ?st) = ?st'"
    "fmlookup (ft_fids (snd ?st)) 1 \<noteq> None"
    unfolding relays_def by (simp_all add: relay_simps)
  ultimately have "front_reachable (fst ?st', fmupd 0 (snd ?st') fmempty)"
    by (elim session_further) (rule session_step.walk_bind [of _ 1], auto simp: prod_eq_iff)
  then have "front_reachable (fst reading, fmupd 0 (snd reading) fmempty)"
    unfolding reading_def st'(1)
    by (rule session_further) (rule session_step.read_target, simp add: prod_eq_iff)
  then show ?thesis unfolding answered_def by (rule owner_runs)
qed


section \<open>The theorems on concrete runs\<close>

theorem front_holds_what_fids_hold_witness:
  "front_reachable (pushed_again, fmupd 0 (snd walked) fmempty) \<and> tree_ok pushed_again \<and>
    refs pushed_again 1 = 1 \<and> 1 |\<in>| detached_roots pushed_again"
proof -
  let ?W = "fmupd 0 (snd walked) fmempty"
  have "refs pushed_again 1 = 1" "1 |\<in>| detached_roots pushed_again"
    unfolding pushed_again_def walked_def rooted_def by (simp_all add: push_simps refs_def)
  with front_holds_what_fids_hold [OF pushed_again_reachable] pushed_again_reachable show ?thesis by blast
qed

lemma calm_env_calm: "calm_walk calm_env"
  by (auto simp: calm_walk_def calm_env_def calm_def parents_kept_refl)

theorem walk_stays_below_root_witness:
  "\<exists>there qids t path. walk_loop (the (fmlookup (ft_fids (snd walked)) 1)) 1 [[2], [DOT, DOT], [DOT, DOT]]
      [calm_env, calm_env, calm_env] 1 [] (fst walked) = (Some (Inr (there, qids)), t) \<and>
    length qids = 3 \<and> path_relative_to there 1 t = Inr path"
proof -
  let ?b = "the (fmlookup (ft_fids (snd walked)) 1)"
  let ?run = "walk_loop ?b 1 [[2], [DOT, DOT], [DOT, DOT]] [calm_env, calm_env, calm_env] 1 [] (fst walked)"
  have "tree_ok (fst walked)" using reachable_ok [OF walked_reachable] by (simp add: world_ok_def)
  moreover have b: "fb_node ?b = 1" "fb_root ?b = 1" "\<exists>path. path_relative_to 1 1 (fst walked) = Inr path"
    and run: "\<exists>there qids t. ?run = (Some (Inr (there, qids)), t) \<and> length qids = 3"
    unfolding walked_def rooted_def by (simp_all add: push_simps)
  ultimately show ?thesis
    using walk_stays_below_root [of "fst walked" ?b _ "[calm_env, calm_env, calm_env]" 1 "[[2], [DOT, DOT], [DOT, DOT]]"]
    by (force simp: calm_env_calm)
qed

theorem retained_paths_witness:
  "\<exists>t. retain_subtree_paths [1] [] (snd (Front_set [1, SLASH, 2] [9] State_new)) = (Inr True, t) \<and> tree_ok t \<and>
    lookup_segments ROOT_ID [[1], [2]] t \<noteq> Inr (Some 2)"
proof -
  let ?s = "snd (Front_set [1, SLASH, 2] [9] State_new)"
  have "front_reachable (?s, fmempty)" by (rule owner_runs front_reachable.start)+
  then have ok: "tree_ok ?s" using reachable_ok by (fastforce simp: world_ok_def)
  have segs: "segments_of [1] = [[1]]" by code_simp
  have "fst (retain_subtree_paths [1] [] ?s) = Inr True"
    by (simp add: retain_subtree_paths_def stale_below_def canonical_path_segments_def collect_stale_subtrees_def
        fm_items_def push_simps)
  then obtain t where t: "retain_subtree_paths [1] [] ?s = (Inr True, t)" by (cases "retain_subtree_paths [1] [] ?s") simp
  with retained_paths [OF ok t] show ?thesis
    by (auto simp: segs dest: spec [of _ "[[2]]"])
qed

end
