(* ===== verification/R9P_Multiplex.thy ===== *)
theory R9P_Multiplex
  imports R9P_System R9P_Client_Support
begin

text \<open>
  The multiplexed client (\<^verbatim>\<open>multiplex/client.rs\<close>, \<^verbatim>\<open>multiplex/client/calls.rs\<close>, \<^verbatim>\<open>multiplex/reader.rs\<close>,
  \<^verbatim>\<open>multiplex/util.rs\<close>): any number of threads call on one connection, and a reader thread hands each
  response to the call that waits for its tag. The protocol state, the table of waiting calls and
  the writer are behind a lock each, and a thread holds one at a time. A thread is where it stands
  between two holds of a lock, and one hold is one step.

  A channel of the standard library is a number: its sender is in the table of waiting calls, or in
  the hands of a thread that is about to send on it, or gone; what was sent and not yet received is a
  list.
\<close>

section \<open>Waiting calls\<close>

type_synonym reply = "client_response result"

record responses =
  waiters :: "(tag, nat) fmap"
  terminal_error :: "error option"

definition ResponseState_default :: responses where
  "ResponseState_default = \<lparr>waiters = fmempty, terminal_error = None\<rparr>"

definition register :: "tag \<Rightarrow> nat \<Rightarrow> (responses, unit) fallible" where
  "register tag sender s =
     (case terminal_error s of
        Some e \<Rightarrow> (Inl e, s)
      | None \<Rightarrow>
          (if fmlookup (waiters s) tag \<noteq> None
           then Inl (Error (str ''duplicate waiter for tag '' @ dec (unat tag))) else Inr (),
           s\<lparr>waiters := fmupd tag sender (waiters s)\<rparr>))"

definition remove_waiter :: "tag \<Rightarrow> responses \<Rightarrow> nat option \<times> responses" where
  "remove_waiter tag s = (fmlookup (waiters s) tag, s\<lparr>waiters := fmdrop tag (waiters s)\<rparr>)"

definition terminate :: "error \<Rightarrow> responses \<Rightarrow> nat list \<times> responses" where
  "terminate e s =
     (map (\<lambda>tag. the (fmlookup (waiters s) tag)) (sorted_list_of_fset (fmdom (waiters s))),
      s\<lparr>waiters := fmempty,
        terminal_error := (case terminal_error s of None \<Rightarrow> Some e | Some old \<Rightarrow> Some old)\<rparr>)"

fun response_tag :: "client_response \<Rightarrow> tag" where
  "response_tag (Resp_Completion tag _) = tag"
| "response_tag (Resp_Error tag _) = tag"

section \<open>The shared state\<close>

record mux =
  mx_protocol :: client
  mx_responses :: responses
  mx_sending :: "(nat \<times> reply) list"
  mx_channels :: "nat \<Rightarrow> reply list"
  mx_next :: nat

text \<open>\<^verbatim>\<open>let (sender, receiver) = mpsc::channel()\<close> and \<^verbatim>\<open>register\<close>: a sender that is refused is dropped, one that
  replaces another drops that.\<close>

definition register_call :: "tag \<Rightarrow> (mux, nat) fallible" where
  "register_call tag m =
     (let channel = mx_next m in
      case register tag channel (mx_responses m) of
        (r, s) \<Rightarrow> (map_ok (\<lambda>_. channel) r, m\<lparr>mx_responses := s, mx_next := channel + 1\<rparr>))"

definition fail_all :: "error \<Rightarrow> mux \<Rightarrow> mux" where
  "fail_all e m =
     (case terminate e (mx_responses m) of
        (senders, s) \<Rightarrow>
          m\<lparr>mx_responses := s, mx_sending := mx_sending m @ map (\<lambda>sender. (sender, Inl e)) senders\<rparr>)"

text \<open>The common course of \<^verbatim>\<open>cancel_waiter\<close> and of the end of the reader's loop: take the waiter away and
  send to it if there was one.\<close>

definition answer_waiter :: "tag \<Rightarrow> reply \<Rightarrow> mux \<Rightarrow> mux" where
  "answer_waiter tag r m =
     (case remove_waiter tag (mx_responses m) of
        (Some sender, s) \<Rightarrow> m\<lparr>mx_responses := s, mx_sending := mx_sending m @ [(sender, r)]\<rparr>
      | (None, s) \<Rightarrow> m\<lparr>mx_responses := s\<rparr>)"

definition cancel_waiter :: "tag \<Rightarrow> error \<Rightarrow> mux \<Rightarrow> mux" where
  "cancel_waiter tag e = answer_waiter tag (Inl e)"

definition abandon_call :: "tag \<Rightarrow> mux \<Rightarrow> mux" where
  "abandon_call tag m = m\<lparr>mx_protocol := abandon tag (mx_protocol m)\<rparr>"

text \<open>All senders of the channel are gone and nothing is left in it.\<close>

definition channel_closed :: "nat \<Rightarrow> mux \<Rightarrow> bool" where
  "channel_closed channel m \<longleftrightarrow>
     mx_channels m channel = [] \<and> channel \<notin> fst ` set (mx_sending m) \<and>
     channel |\<notin>| fmran (waiters (mx_responses m))"

section \<open>Calls\<close>

text \<open>Where a thread stands in \<^verbatim>\<open>submit_message\<close> and \<^verbatim>\<open>wait_pending_response_timeout\<close>.\<close>

datatype call_pc =
    Framing op
  | Registering op
  | Writing op nat
  | Failing tag nat error
  | Abandoning tag error
  | Waiting tag nat
  | TimedOut tag nat
  | Cancelling tag nat error
  | Returned "nat option" reply

text \<open>A call can be that of a flush: on behalf of the thread's own call that has timed out, which then has
  its tag and channel, or of another thread's call, with its tag only.\<close>

type_synonym flush_for = "(tag \<times> nat option) option"
type_synonym thread = "call_pc \<times> flush_for"

datatype reader_pc = Reading | Delivering client_response | Reader_Failing error | Stopped

text \<open>The peer takes requests in the order of the stream and answers each at most once, in any order. It
  answers a flush when it takes it, and answers nothing after that to the request it names.\<close>

record mux_world =
  mw_mux :: mux
  threads :: "(nat, thread) fmap"
  reader_at :: reader_pc
  wire :: "(tmessage \<times> nat) list"
  at_peer :: "(tag, nat) fmap"
  arriving :: "(rmessage \<times> nat) list"
  written :: "(nat \<times> tmessage) set"
  answers :: "(nat \<times> rmessage) set"

fun pc_tag :: "call_pc \<Rightarrow> tag option" where
  "pc_tag (Framing op) = Some (op_tag op)"
| "pc_tag (Registering op) = Some (op_tag op)"
| "pc_tag (Writing op _) = Some (op_tag op)"
| "pc_tag (Failing tag _ _) = Some tag"
| "pc_tag (Abandoning tag _) = Some tag"
| "pc_tag (Waiting tag _) = Some tag"
| "pc_tag (TimedOut tag _) = Some tag"
| "pc_tag (Cancelling tag _ _) = Some tag"
| "pc_tag (Returned _ _) = None"

definition mentions :: "thread \<Rightarrow> tag \<Rightarrow> bool" where
  "mentions thr tag \<longleftrightarrow> pc_tag (fst thr) = Some tag \<or> (\<exists>x. snd thr = Some (tag, x))"

text \<open>The protocol state hands out tags in turn and skips those with a pending request. That a tag is also
  not one that a flush, a thread or the reader still deals with is not checked by the code: it holds
  unless all 65535 tags are handed out while one call is brought to an end.\<close>

definition tag_unused :: "tag \<Rightarrow> mux_world \<Rightarrow> bool" where
  "tag_unused tag w \<longleftrightarrow>
     unnamed (mx_protocol (mw_mux w)) tag \<and>
     (\<forall>thr \<in> fmran' (threads w). \<not> mentions thr tag) \<and>
     (\<forall>resp. reader_at w = Delivering resp \<longrightarrow> response_tag resp \<noteq> tag)"

definition go :: "nat \<Rightarrow> call_pc \<Rightarrow> flush_for \<Rightarrow> mux \<Rightarrow> mux_world \<Rightarrow> mux_world" where
  "go i pc ctx m w = w\<lparr>mw_mux := m, threads := fmupd i (pc, ctx) (threads w)\<rparr>"

text \<open>The error texts that carry a number of seconds are left open.\<close>

definition flushed_error :: error where
  "flushed_error = Error_from ''9P request flushed''"

definition is_flushed :: "reply \<Rightarrow> bool" where
  "is_flushed r \<longleftrightarrow> (case r of Inr (Resp_Completion _ Done_Flush) \<Rightarrow> True | _ \<Rightarrow> False)"

section \<open>Steps\<close>

text \<open>A call is a thread of its own, also where one thread of the program has several in flight
  (\<^verbatim>\<open>submit_read\<close>, \<^verbatim>\<open>write_once_then_read_timeout\<close>). The wait for a flush gives up when it times out, and so does the write
  of a pipelined pair whose read could not be submitted (\<open>give_up\<close>); the read of a pair whose write could
  not be submitted is dropped (\<open>drop_built\<close>). A write that fails leaves nothing on the wire that the peer
  takes for a request.\<close>

inductive call_step :: "nat \<Rightarrow> mux_world \<Rightarrow> mux_world \<Rightarrow> bool" for i where
  build: "fmlookup (threads w) i = None \<Longrightarrow> client_call (mx_protocol (mw_mux w)) op p \<Longrightarrow> tag_unused (op_tag op) w \<Longrightarrow>
    call_step i w (go i (Framing op) None ((mw_mux w)\<lparr>mx_protocol := p\<rparr>) w)"
| build_refused: "alloc_tag (mx_protocol (mw_mux w)) = (Inl e, p) \<Longrightarrow>
    call_step i w (w\<lparr>mw_mux := (mw_mux w)\<lparr>mx_protocol := p\<rparr>\<rparr>)"
| build_flush: "fmlookup (threads w) i = None \<Longrightarrow> fmlookup (threads w) j = Some (Waiting old channel, ctx) \<Longrightarrow>
    client_flush old (mx_protocol (mw_mux w)) = (Inr op, p) \<Longrightarrow> tag_unused (op_tag op) w \<Longrightarrow>
    call_step i w (go i (Framing op) (Some (old, None)) ((mw_mux w)\<lparr>mx_protocol := p\<rparr>) w)"
| frame: "fmlookup (threads w) i = Some (Framing op, ctx) \<Longrightarrow>
    encode_tmessage_checked (op_message op) (cl_msize (mx_protocol (mw_mux w))) = Inr frame \<Longrightarrow>
    call_step i w (go i (Registering op) ctx (mw_mux w) w)"
| frame_refused: "fmlookup (threads w) i = Some (Framing op, ctx) \<Longrightarrow>
    encode_tmessage_checked (op_message op) (cl_msize (mx_protocol (mw_mux w))) = Inl e \<Longrightarrow>
    call_step i w (go i (Abandoning (op_tag op) (Error (str ''encode 9P frame: '' @ from_utf8_lossy (error_message e)))) ctx (mw_mux w) w)"
| drop_built: "fmlookup (threads w) i = Some (Framing op, ctx) \<Longrightarrow>
    call_step i w (go i (Abandoning (op_tag op) e) ctx (mw_mux w) w)"
| register: "fmlookup (threads w) i = Some (Registering op, ctx) \<Longrightarrow> register_call (op_tag op) (mw_mux w) = (Inr channel, m) \<Longrightarrow>
    call_step i w (go i (Writing op channel) ctx m w)"
| register_refused: "fmlookup (threads w) i = Some (Registering op, ctx) \<Longrightarrow> register_call (op_tag op) (mw_mux w) = (Inl e, m) \<Longrightarrow>
    call_step i w (go i (Abandoning (op_tag op) e) ctx m w)"
| write_frame: "fmlookup (threads w) i = Some (Writing op channel, ctx) \<Longrightarrow>
    call_step i w ((go i (Waiting (op_tag op) channel) ctx (mw_mux w) w)
      \<lparr>wire := wire w @ [(op_message op, channel)], written := insert (channel, op_message op) (written w)\<rparr>)"
| write_failed: "fmlookup (threads w) i = Some (Writing op channel, ctx) \<Longrightarrow>
    call_step i w (go i (Failing (op_tag op) channel e) ctx (mw_mux w) w)"
| fail: "fmlookup (threads w) i = Some (Failing tag channel e, ctx) \<Longrightarrow>
    call_step i w (go i (Abandoning tag e) ctx (fail_all e (mw_mux w)) w)"
| abandon: "fmlookup (threads w) i = Some (Abandoning tag e, ctx) \<Longrightarrow>
    call_step i w (go i (Returned None (Inl e)) ctx (abandon_call tag (mw_mux w)) w)"
| recv: "fmlookup (threads w) i = Some (Waiting tag channel, ctx) \<Longrightarrow> mx_channels (mw_mux w) channel = r # rs \<Longrightarrow>
    call_step i w (go i (Returned (Some channel) r) ctx
      ((mw_mux w)\<lparr>mx_channels := (mx_channels (mw_mux w))(channel := rs)\<rparr>) w)"
| disconnected: "fmlookup (threads w) i = Some (Waiting tag channel, ctx) \<Longrightarrow> channel_closed channel (mw_mux w) \<Longrightarrow>
    call_step i w (go i (Returned (Some channel) (Inl (Error_from ''9P reader stopped before response''))) ctx (mw_mux w) w)"
| timeout: "fmlookup (threads w) i = Some (Waiting tag channel, None) \<Longrightarrow>
    call_step i w (go i (TimedOut tag channel) None (mw_mux w) w)"
| give_up: "fmlookup (threads w) i = Some (Waiting tag channel, ctx) \<Longrightarrow>
    call_step i w (go i (Cancelling tag channel e) ctx (mw_mux w) w)"
| flush_own: "fmlookup (threads w) i = Some (TimedOut tag channel, None) \<Longrightarrow>
    client_flush tag (mx_protocol (mw_mux w)) = (Inr op, p) \<Longrightarrow> tag_unused (op_tag op) w \<Longrightarrow>
    call_step i w (go i (Framing op) (Some (tag, Some channel)) ((mw_mux w)\<lparr>mx_protocol := p\<rparr>) w)"
| flush_refused: "fmlookup (threads w) i = Some (TimedOut tag channel, None) \<Longrightarrow>
    client_flush tag (mx_protocol (mw_mux w)) = (Inl e, p) \<Longrightarrow>
    call_step i w (go i (Cancelling tag channel e') None ((mw_mux w)\<lparr>mx_protocol := p\<rparr>) w)"
| cancel: "fmlookup (threads w) i = Some (Cancelling tag channel e, ctx) \<Longrightarrow>
    call_step i w (go i (Returned (Some channel) (Inl e)) ctx (cancel_waiter tag e (mw_mux w)) w)"
| flushed: "fmlookup (threads w) i = Some (Returned ch r, Some (old, Some channel)) \<Longrightarrow>
    call_step i w (go i (Cancelling old channel e) None
      (if is_flushed r then cancel_waiter old flushed_error (mw_mux w) else mw_mux w) w)"
| flushed_other: "fmlookup (threads w) i = Some (Returned ch r, Some (old, None)) \<Longrightarrow>
    call_step i w (go i (Returned ch r) None
      (if is_flushed r then cancel_waiter old flushed_error (mw_mux w) else mw_mux w) w)"
| call_end: "fmlookup (threads w) i = Some (Returned ch r, None) \<Longrightarrow>
    call_step i w (w\<lparr>threads := fmdrop i (threads w)\<rparr>)"

text \<open>\<^verbatim>\<open>reader_loop\<close>: the lock of the protocol state for the response, then that of the waiting calls.\<close>

inductive reader_step :: "mux_world \<Rightarrow> mux_world \<Rightarrow> bool" where
  receive: "reader_at w = Reading \<Longrightarrow> arriving w = (r, channel) # rs \<Longrightarrow> receive r (mx_protocol (mw_mux w)) = (Inr resp, p) \<Longrightarrow>
    reader_step w (w\<lparr>mw_mux := (mw_mux w)\<lparr>mx_protocol := p\<rparr>, reader_at := Delivering resp, arriving := rs\<rparr>)"
| receive_refused: "reader_at w = Reading \<Longrightarrow> arriving w = (r, channel) # rs \<Longrightarrow> receive r (mx_protocol (mw_mux w)) = (Inl e, p) \<Longrightarrow>
    reader_step w (w\<lparr>mw_mux := (mw_mux w)\<lparr>mx_protocol := p\<rparr>, arriving := rs,
      reader_at := (if error_message (protocol_error e) = str ''9P client state: unknown response tag'' then Reading
        else Reader_Failing (protocol_error e))\<rparr>)"
| transport_error: "reader_at w = Reading \<Longrightarrow> reader_step w (w\<lparr>reader_at := Reader_Failing e\<rparr>)"
| deliver: "reader_at w = Delivering resp \<Longrightarrow>
    reader_step w (w\<lparr>mw_mux := answer_waiter (response_tag resp) (Inr resp) (mw_mux w), reader_at := Reading\<rparr>)"
| fail_reader: "reader_at w = Reader_Failing e \<Longrightarrow>
    reader_step w (w\<lparr>mw_mux := fail_all e (mw_mux w), reader_at := Stopped\<rparr>)"

inductive peer_step :: "mux_world \<Rightarrow> mux_world \<Rightarrow> bool" where
  accept: "wire w = (m, channel) # ms \<Longrightarrow> \<not> is_flush m \<Longrightarrow>
    peer_step w (w\<lparr>wire := ms, at_peer := fmupd (t_tag m) channel (at_peer w)\<rparr>)"
| refuse: "wire w = (m, channel) # ms \<Longrightarrow> r_tag r = t_tag m \<Longrightarrow> r \<noteq> R_Flush (r_tag r) \<Longrightarrow>
    peer_step w (w\<lparr>wire := ms, arriving := arriving w @ [(r, channel)], answers := insert (channel, r) (answers w)\<rparr>)"
| flush: "wire w = (T_Flush tag old, channel) # ms \<Longrightarrow>
    peer_step w (w\<lparr>wire := ms, at_peer := fmdrop old (at_peer w),
      arriving := arriving w @ [(R_Flush tag, channel)], answers := insert (channel, R_Flush tag) (answers w)\<rparr>)"
| answer: "fmlookup (at_peer w) (r_tag r) = Some channel \<Longrightarrow> r \<noteq> R_Flush (r_tag r) \<Longrightarrow>
    peer_step w (w\<lparr>at_peer := fmdrop (r_tag r) (at_peer w), arriving := arriving w @ [(r, channel)],
      answers := insert (channel, r) (answers w)\<rparr>)"

text \<open>A sender is used after the lock of the waiting calls has been released; \<^verbatim>\<open>shutdown\<close> and dropping the client
  fail all calls.\<close>

inductive mux_step :: "mux_world \<Rightarrow> mux_world \<Rightarrow> bool" where
  call: "call_step i w w' \<Longrightarrow> mux_step w w'"
| reader: "reader_step w w' \<Longrightarrow> mux_step w w'"
| peer: "peer_step w w' \<Longrightarrow> mux_step w w'"
| send: "mx_sending (mw_mux w) = xs @ (channel, r) # ys \<Longrightarrow>
    mux_step w (w\<lparr>mw_mux := (mw_mux w)\<lparr>mx_sending := xs @ ys,
      mx_channels := (mx_channels (mw_mux w))(channel := mx_channels (mw_mux w) channel @ [r])\<rparr>\<rparr>)"
| shutdown: "mux_step w (w\<lparr>mw_mux := fail_all (Error_from ''9P transport closed by client'') (mw_mux w)\<rparr>)"

text \<open>A connection starts after the version and attach exchange, with no request pending.\<close>

definition mux_start :: "client \<Rightarrow> mux_world" where
  "mux_start p =
     \<lparr>mw_mux = \<lparr>mx_protocol = p, mx_responses = ResponseState_default, mx_sending = [],
        mx_channels = (\<lambda>_. []), mx_next = 0\<rparr>,
      threads = fmempty, reader_at = Reading, wire = [], at_peer = fmempty, arriving = [],
      written = {}, answers = {}\<rparr>"

inductive mux_reachable :: "mux_world \<Rightarrow> bool" where
  start: "live_tags (pending p) = {} \<Longrightarrow> flush_targets p = fmempty \<Longrightarrow> mux_reachable (mux_start p)"
| further: "mux_reachable w \<Longrightarrow> mux_step w w' \<Longrightarrow> mux_reachable w'"

end
