(* ===== verification/R9P_Multiplex_Inv.thy ===== *)
theory R9P_Multiplex_Inv
  imports R9P_Multiplex
begin

text \<open>
  Invariants of the multiplexed client: every tag and every channel has one owner among the threads, a
  reply is in exactly one place, and the tags that are pending in the protocol state are those of
  requests that are still to be sent, on the wire, with the peer, or answered.
\<close>

section \<open>Tags that are built and not yet sent\<close>

text \<open>A tag that has been handed out and is not on the wire counts with those the peer holds.\<close>

lemma tags_build:
  assumes inv: "tags_inv L ft S ts rs" and "t \<notin> L" and guard: "\<And>f. ft f \<noteq> Some t"
  shows "tags_inv (insert t L) ft (insert t S) ts rs"
proof (rule tags_invI)
  show "\<exists>y. ft u = Some y \<and> y \<notin> fst ` set bs \<and> y \<notin> insert t S \<and> y \<notin> fst ` set ts"
    if "rs = as @ (u, True) # bs" for as u bs
    using tags_invD(11) [OF inv that] guard by auto
  show "u \<in> insert t S \<or> u \<in> fst ` set ts \<or> u \<in> fst ` set rs \<or> (\<exists>f. ft f = Some u \<and> (f, True) \<in> set rs)"
    if "u \<in> insert t L" for u
    using that tags_invD(12) [OF inv, of u] by auto
qed (use tags_invD(1-10) [OF inv] assms(2) in auto)

lemma tags_build_flush:
  assumes inv: "tags_inv L ft S ts rs" and "t \<notin> L" and guard: "\<And>f. ft f \<noteq> Some t" and "old \<noteq> t"
  shows "tags_inv (insert t L) (ft(t \<mapsto> old)) (insert t S) ts rs"
proof (rule tags_invI)
  have other: "u \<noteq> t" if "u \<in> fst ` set ts \<or> u \<in> fst ` set rs" for u
    using that assms(2) tags_invD(7,8) [OF inv] by blast
  show "(ft(t \<mapsto> old)) u = Some y \<and> y \<notin> fst ` set bs" if "ts = as @ (u, Some y) # bs" for as u y bs
    using tags_invD(9,10) [OF inv that] other [of u] that by auto
  show "\<exists>y. (ft(t \<mapsto> old)) u = Some y \<and> y \<notin> fst ` set bs \<and> y \<notin> insert t S \<and> y \<notin> fst ` set ts"
    if "rs = as @ (u, True) # bs" for as u bs
    using tags_invD(11) [OF inv that] guard other [of u] that by auto
  show "u \<in> insert t S \<or> u \<in> fst ` set ts \<or> u \<in> fst ` set rs \<or> (\<exists>f. (ft(t \<mapsto> old)) f = Some u \<and> (f, True) \<in> set rs)"
    if "u \<in> insert t L" for u
  proof -
    have "f \<noteq> t" if "(f, True) \<in> set rs" for f
      using other [of f] that by force
    then show ?thesis using that tags_invD(12) [OF inv, of u] by auto
  qed
qed (use tags_invD(1-8) [OF inv] assms(2) in auto)

lemma tags_send:
  assumes inv: "tags_inv L ft S ts rs" and t: "t \<in> S" and guard: "\<And>f. ft f \<noteq> Some t"
    and target: "\<And>y. target = Some y \<Longrightarrow> ft t = Some y"
  shows "tags_inv L ft (S - {t}) (ts @ [(t, target)]) rs"
proof (rule tags_invI)
  show "ft u = Some y \<and> y \<notin> fst ` set bs" if "ts @ [(t, target)] = as @ (u, Some y) # bs" for as u y bs
    using that
  proof (cases rule: snoc_split)
    case (inner cs)
    then show ?thesis using tags_invD(9,10) [OF inv inner(2)] guard by auto
  qed (use target in auto)
  show "\<exists>y. ft u = Some y \<and> y \<notin> fst ` set bs \<and> y \<notin> S - {t} \<and> y \<notin> fst ` set (ts @ [(t, target)])"
    if "rs = as @ (u, True) # bs" for as u bs
    using tags_invD(11) [OF inv that] guard by auto
  show "u \<in> S - {t} \<or> u \<in> fst ` set (ts @ [(t, target)]) \<or> u \<in> fst ` set rs \<or> (\<exists>f. ft f = Some u \<and> (f, True) \<in> set rs)"
    if "u \<in> L" for u
    using tags_invD(12) [OF inv that] by auto
qed (use tags_invD(1-8) [OF inv] t in auto)

lemma tags_abandon:
  assumes inv: "tags_inv L ft S ts rs" and t: "t \<in> S" and keep: "\<And>u. u \<noteq> t \<Longrightarrow> ft' u = ft u"
  shows "tags_inv (L - {t}) ft' (S - {t}) ts rs"
proof (rule tags_invI)
  have other: "u \<noteq> t" if "u \<in> fst ` set ts \<or> u \<in> fst ` set rs" for u
    using that t tags_invD(4,5) [OF inv] by blast
  show "ft' u = Some y \<and> y \<notin> fst ` set bs" if "ts = as @ (u, Some y) # bs" for as u y bs
    using tags_invD(9,10) [OF inv that] keep [OF other, of u] that by simp
  show "\<exists>y. ft' u = Some y \<and> y \<notin> fst ` set bs \<and> y \<notin> S - {t} \<and> y \<notin> fst ` set ts"
    if "rs = as @ (u, True) # bs" for as u bs
    using tags_invD(11) [OF inv that] keep [OF other, of u] that by auto
  show "u \<in> S - {t} \<or> u \<in> fst ` set ts \<or> u \<in> fst ` set rs \<or> (\<exists>f. ft' f = Some u \<and> (f, True) \<in> set rs)"
    if "u \<in> L - {t}" for u
  proof -
    have "ft' f = ft f" if "(f, True) \<in> set rs" for f
      using that by (intro keep other) force
    then have "\<exists>f. ft' f = Some u \<and> (f, True) \<in> set rs" if "\<exists>f. ft f = Some u \<and> (f, True) \<in> set rs"
      using that by metis
    then show ?thesis using that tags_invD(12) [OF inv, of u] by auto
  qed
qed (use tags_invD(1-8) [OF inv] t in auto)

section \<open>Places of a reply\<close>

text \<open>A channel's sender or its message is in how many places: with the waiting calls, about to be
  sent, or sent.\<close>

definition places :: "nat \<Rightarrow> mux \<Rightarrow> nat" where
  "places ch m = card {t. fmlookup (waiters (mx_responses m)) t = Some ch} +
     length (filter (\<lambda>(c, _). c = ch) (mx_sending m)) + length (mx_channels m ch)"

lemma finite_waiting: "finite {t. fmlookup W t = Some ch}"
  by (rule finite_subset [of _ "fset (fmdom W)"]) (auto intro: fmdomI)

lemma places_answer [simp]: "places ch (answer_waiter t r m) = places ch m"
proof -
  let ?W = "waiters (mx_responses m)"
  have eq: "{u. fmlookup (fmdrop t ?W) u = Some c} = {u. fmlookup ?W u = Some c} - {t}" for c by auto
  show ?thesis
  proof (cases "fmlookup ?W t")
    case None
    then have "{u. fmlookup ?W u = Some ch} - {t} = {u. fmlookup ?W u = Some ch}" by auto
    with None show ?thesis
      by (simp add: places_def answer_waiter_def remove_waiter_def eq del: fmlookup_drop)
  next
    case (Some c)
    have "card {u. fmlookup ?W u = Some c} = Suc (card ({u. fmlookup ?W u = Some c} - {t}))"
      using Some by (intro card.remove finite_waiting) simp
    moreover have "{u. fmlookup ?W u = Some ch} - {t} = {u. fmlookup ?W u = Some ch}" if "ch \<noteq> c"
      using Some that by auto
    ultimately show ?thesis
      using Some
      by (cases "ch = c") (simp_all add: places_def answer_waiter_def remove_waiter_def eq del: fmlookup_drop)
  qed
qed

lemma senders_count:
  "length (filter (\<lambda>c. c = ch) (map (\<lambda>t. the (fmlookup W t)) (sorted_list_of_fset (fmdom W)))) =
     card {t. fmlookup W t = Some ch}" for W :: "('k :: linorder, 'v) fmap"
proof -
  let ?tags = "sorted_list_of_fset (fmdom W)"
  have "set (filter (\<lambda>t. the (fmlookup W t) = ch) ?tags) = {t. fmlookup W t = Some ch}"
    by (auto simp: fmlookup_dom_iff)
  then have "card {t. fmlookup W t = Some ch} = length (filter (\<lambda>t. the (fmlookup W t) = ch) ?tags)"
    using distinct_card [of "filter (\<lambda>t. the (fmlookup W t) = ch) ?tags"]
    by (simp add: sorted_list_of_fset.rep_eq)
  then show ?thesis by (simp add: filter_map comp_def)
qed

lemma places_fail [simp]: "places ch (fail_all e m) = places ch m"
proof -
  have "length (filter ((\<lambda>(c, _). c = ch) \<circ> ((\<lambda>c. (c, r)) \<circ> f)) ts) = length (filter ((\<lambda>c. c = ch) \<circ> f) ts)"
    for ts :: "tag list" and r :: reply and f :: "tag \<Rightarrow> nat"
    by (induction ts) auto
  then show ?thesis
    by (simp add: places_def fail_all_def terminate_def senders_count [symmetric])
qed

lemma places_send:
  "mx_sending m = xs @ (channel, r) # ys \<Longrightarrow>
     places ch (m\<lparr>mx_sending := xs @ ys, mx_channels := (mx_channels m)(channel := mx_channels m channel @ [r])\<rparr>) = places ch m"
  by (simp add: places_def)

lemma places_register:
  assumes "fmlookup (waiters (mx_responses m)) t = None" "terminal_error (mx_responses m) = None"
  shows "places ch (snd (register_call t m)) = places ch m + (if ch = mx_next m then 1 else 0)"
proof -
  let ?W = "waiters (mx_responses m)"
  have "{u. fmlookup (fmupd t (mx_next m) ?W) u = Some ch} =
     (if ch = mx_next m then insert t {u. fmlookup ?W u = Some ch} else {u. fmlookup ?W u = Some ch})"
    using assms by auto
  then show ?thesis
    using assms by (simp add: places_def register_call_def register_def Let_def finite_waiting del: fmupd_lookup)
qed

lemma answer_waiter_simps [simp]:
  "mx_protocol (answer_waiter t r m) = mx_protocol m" "mx_next (answer_waiter t r m) = mx_next m"
  "mx_channels (answer_waiter t r m) = mx_channels m"
  "waiters (mx_responses (answer_waiter t r m)) = fmdrop t (waiters (mx_responses m))"
  "terminal_error (mx_responses (answer_waiter t r m)) = terminal_error (mx_responses m)"
  by (simp_all add: answer_waiter_def remove_waiter_def split: option.splits)

lemma answer_waiter_sending:
  "set (mx_sending (answer_waiter t r m)) =
     set (mx_sending m) \<union> {(ch, r) |ch. fmlookup (waiters (mx_responses m)) t = Some ch}"
  by (auto simp: answer_waiter_def remove_waiter_def split: option.splits)

lemma fail_all_simps [simp]:
  "mx_protocol (fail_all e m) = mx_protocol m" "mx_next (fail_all e m) = mx_next m"
  "mx_channels (fail_all e m) = mx_channels m"
  "waiters (mx_responses (fail_all e m)) = fmempty"
  "terminal_error (mx_responses (fail_all e m)) \<noteq> None"
  by (simp_all add: fail_all_def terminate_def split: option.splits)

lemma fail_all_error: "\<exists>x. terminal_error (mx_responses (fail_all e m)) = Some x"
  by (simp add: fail_all_def terminate_def split: option.splits)

lemma fail_all_sending: "(ch, Inr resp) \<in> set (mx_sending (fail_all e m)) \<Longrightarrow> (ch, Inr resp) \<in> set (mx_sending m)"
  by (auto simp: fail_all_def terminate_def)

section \<open>Whose tag and whose channel\<close>

fun pc_calls :: "call_pc \<Rightarrow> (tag \<times> nat) set" where
  "pc_calls (Writing op channel) = {(op_tag op, channel)}"
| "pc_calls (Failing tag channel _) = {(tag, channel)}"
| "pc_calls (Waiting tag channel) = {(tag, channel)}"
| "pc_calls (TimedOut tag channel) = {(tag, channel)}"
| "pc_calls (Cancelling tag channel _) = {(tag, channel)}"
| "pc_calls _ = {}"

fun ctx_calls :: "flush_for \<Rightarrow> (tag \<times> nat) set" where
  "ctx_calls (Some (tag, Some channel)) = {(tag, channel)}"
| "ctx_calls _ = {}"

fun ctx_tags :: "flush_for \<Rightarrow> tag list" where
  "ctx_tags (Some (tag, Some channel)) = [tag]"
| "ctx_tags _ = []"

text \<open>The tags and the calls of a thread: those of the call it is at and of the call it flushes.\<close>

definition tags_at :: "mux_world \<Rightarrow> nat \<Rightarrow> tag list" where
  "tags_at w i = (case fmlookup (threads w) i of
     None \<Rightarrow> [] | Some (pc, ctx) \<Rightarrow> (case pc_tag pc of None \<Rightarrow> [] | Some t \<Rightarrow> [t]) @ ctx_tags ctx)"

definition calls_at :: "mux_world \<Rightarrow> nat \<Rightarrow> (tag \<times> nat) set" where
  "calls_at w i = (case fmlookup (threads w) i of None \<Rightarrow> {} | Some (pc, ctx) \<Rightarrow> pc_calls pc \<union> ctx_calls ctx)"

lemma calls_tags: "(t, ch) \<in> calls_at w i \<Longrightarrow> t \<in> set (tags_at w i)"
proof -
  have "(t, ch) \<in> pc_calls pc \<Longrightarrow> pc_tag pc = Some t" for pc by (cases pc) auto
  moreover have "(t, ch) \<in> ctx_calls ctx \<Longrightarrow> t \<in> set (ctx_tags ctx)" for ctx by (cases ctx rule: ctx_calls.cases) auto
  ultimately show "(t, ch) \<in> calls_at w i \<Longrightarrow> t \<in> set (tags_at w i)"
    by (fastforce simp: calls_at_def tags_at_def split: option.splits)
qed

definition threads_inv :: "mux_world \<Rightarrow> bool" where
  "threads_inv w \<longleftrightarrow>
     (\<forall>i. distinct (tags_at w i))
     \<and> (\<forall>i j. i \<noteq> j \<longrightarrow> set (tags_at w i) \<inter> set (tags_at w j) = {})
     \<and> (\<forall>t ch. fmlookup (waiters (mx_responses (mw_mux w))) t = Some ch \<longrightarrow> (\<exists>i. (t, ch) \<in> calls_at w i))
     \<and> (terminal_error (mx_responses (mw_mux w)) \<noteq> None \<longrightarrow> waiters (mx_responses (mw_mux w)) = fmempty)
     \<and> (\<forall>i t ch. (t, ch) \<in> calls_at w i \<longrightarrow> places ch (mw_mux w) = 1 \<and> ch < mx_next (mw_mux w))
     \<and> (\<forall>ch \<ge> mx_next (mw_mux w). places ch (mw_mux w) = 0)
     \<and> (\<forall>i j t u ch. (t, ch) \<in> calls_at w i \<longrightarrow> (u, ch) \<in> calls_at w j \<longrightarrow> t = u)"

lemma threads_invD:
  assumes "threads_inv w"
  shows "distinct (tags_at w i)" "t \<in> set (tags_at w i) \<Longrightarrow> t \<in> set (tags_at w j) \<Longrightarrow> i = j"
    "fmlookup (waiters (mx_responses (mw_mux w))) t = Some ch \<Longrightarrow> \<exists>i. (t, ch) \<in> calls_at w i"
    "terminal_error (mx_responses (mw_mux w)) \<noteq> None \<Longrightarrow> waiters (mx_responses (mw_mux w)) = fmempty"
    "(t, ch) \<in> calls_at w i \<Longrightarrow> places ch (mw_mux w) = 1" "(t, ch) \<in> calls_at w i \<Longrightarrow> ch < mx_next (mw_mux w)"
    "ch \<ge> mx_next (mw_mux w) \<Longrightarrow> places ch (mw_mux w) = 0"
    "(t, ch) \<in> calls_at w i \<Longrightarrow> (u, ch) \<in> calls_at w j \<Longrightarrow> t = u"
  using assms unfolding threads_inv_def by blast+

text \<open>A step of thread \<open>i\<close> that opens no channel.\<close>

lemma threads_go:
  assumes inv: "threads_inv w" and thr: "\<And>j. j \<noteq> i \<Longrightarrow> fmlookup (threads w') j = fmlookup (threads w) j"
    and tags: "distinct (tags_at w' i)" "\<And>t. t \<in> set (tags_at w' i) \<Longrightarrow> t \<in> set (tags_at w i) \<or> (\<forall>j. t \<notin> set (tags_at w j))"
    and calls: "calls_at w' i \<subseteq> calls_at w i"
    and waiting: "\<And>t ch. fmlookup (waiters (mx_responses (mw_mux w'))) t = Some ch \<Longrightarrow>
      fmlookup (waiters (mx_responses (mw_mux w))) t = Some ch \<and> ((t, ch) \<in> calls_at w i \<longrightarrow> (t, ch) \<in> calls_at w' i)"
    and failed: "terminal_error (mx_responses (mw_mux w')) \<noteq> None \<Longrightarrow> waiters (mx_responses (mw_mux w')) = fmempty"
    and nxt: "mx_next (mw_mux w) \<le> mx_next (mw_mux w')"
    and places: "\<And>c. places c (mw_mux w') = places c (mw_mux w) \<or> (\<exists>t. (t, c) \<in> calls_at w i \<and> (t, c) \<notin> calls_at w' i)"
  shows "threads_inv w'"
proof -
  note D = threads_invD [OF inv]
  have same: "tags_at w' j = tags_at w j" "calls_at w' j = calls_at w j" if "j \<noteq> i" for j
    using thr [OF that] by (simp_all add: tags_at_def calls_at_def)
  have sub: "calls_at w' j \<subseteq> calls_at w j" for j
    using same(2) [of j] calls by (cases "j = i") auto
  have held: "places ch (mw_mux w') = 1" if a: "(t, ch) \<in> calls_at w' j" for t ch j
  proof -
    have "False" if b: "(u, ch) \<in> calls_at w i" "(u, ch) \<notin> calls_at w' i" for u
    proof -
      have "u = t" using D(8) [OF b(1)] a sub by blast
      then have "j = i" using D(2) [of t i j] calls_tags b(1) a sub by blast
      then show False using a b(2) \<open>u = t\<close> by simp
    qed
    moreover have "places ch (mw_mux w) = 1" using D(5) a sub by blast
    ultimately show ?thesis using places [of ch] by auto
  qed
  have none: "places ch (mw_mux w') = 0" if "ch \<ge> mx_next (mw_mux w)" for ch
    using places [of ch] D(6,7) that by (metis leD)
  have apart: "i' = j" if "t \<in> set (tags_at w' i')" "t \<in> set (tags_at w' j)" for t i' j
    using that tags(2) [of t] D(2) same(1) by metis
  have wait: "\<exists>j. (t, ch) \<in> calls_at w' j" if "fmlookup (waiters (mx_responses (mw_mux w'))) t = Some ch" for t ch
    using waiting [OF that] D(3) same(2) by metis
  show ?thesis
    unfolding threads_inv_def
  proof (intro conjI allI impI)
    show "distinct (tags_at w' j)" for j using tags(1) same(1) D(1) by (cases "j = i") auto
    show "set (tags_at w' i') \<inter> set (tags_at w' j) = {}" if "i' \<noteq> j" for i' j using apart that by blast
    show "ch < mx_next (mw_mux w')" if "(t, ch) \<in> calls_at w' j" for j t ch using D(6) that sub nxt by fastforce
    show "t = u" if "(t, ch) \<in> calls_at w' i'" "(u, ch) \<in> calls_at w' j" for i' j t u ch using D(8) that sub by blast
  qed (use wait failed held none nxt in auto)
qed

lemma threads_still:
  assumes "threads_inv w" "threads w' = threads w"
    and "\<And>t ch. fmlookup (waiters (mx_responses (mw_mux w'))) t = Some ch \<Longrightarrow> fmlookup (waiters (mx_responses (mw_mux w))) t = Some ch"
    and "terminal_error (mx_responses (mw_mux w')) \<noteq> None \<Longrightarrow> waiters (mx_responses (mw_mux w')) = fmempty"
    and "mx_next (mw_mux w') = mx_next (mw_mux w)" "\<And>c. places c (mw_mux w') = places c (mw_mux w)"
  shows "threads_inv w'"
proof -
  have "tags_at w' = tags_at w" "calls_at w' = calls_at w"
    using assms(2) by (simp_all add: tags_at_def calls_at_def fun_eq_iff)
  then show ?thesis
    using assms by (intro threads_go [of w 0 w']) (simp_all add: threads_invD(1))
qed

lemma registering_free:
  assumes inv: "threads_inv w" and i: "fmlookup (threads w) i = Some (Registering op, ctx)"
  shows "fmlookup (waiters (mx_responses (mw_mux w))) (op_tag op) = None"
proof (rule ccontr)
  assume "\<not> ?thesis"
  then obtain ch j where c: "(op_tag op, ch) \<in> calls_at w j" using threads_invD(3) [OF inv] by fastforce
  have "op_tag op \<in> set (tags_at w i)" using i by (simp add: tags_at_def)
  then have "j = i" using threads_invD(2) [OF inv] calls_tags [OF c] by blast
  then have "(op_tag op, ch) \<in> ctx_calls ctx" using c i by (simp add: calls_at_def)
  then have "op_tag op \<in> set (ctx_tags ctx)" by (cases ctx rule: ctx_calls.cases) auto
  then show False using threads_invD(1) [OF inv, of i] i by (simp add: tags_at_def)
qed

lemma threads_register:
  assumes inv: "threads_inv w" and i: "fmlookup (threads w) i = Some (Registering op, ctx)"
    and reg: "register_call (op_tag op) (mw_mux w) = (Inr channel, m)"
  shows "threads_inv (go i (Writing op channel) ctx m w)" (is "threads_inv ?w")
proof -
  note D = threads_invD [OF inv]
  have ok: "terminal_error (mx_responses (mw_mux w)) = None" and ch: "channel = mx_next (mw_mux w)"
    and m: "waiters (mx_responses m) = fmupd (op_tag op) channel (waiters (mx_responses (mw_mux w)))"
      "terminal_error (mx_responses m) = None" "mx_next m = Suc channel"
    using reg by (auto simp: register_call_def register_def Let_def result_simps split: option.splits if_splits)
  have places: "places c m = places c (mw_mux w) + (if c = channel then 1 else 0)" for c
    using places_register [OF registering_free [OF inv i] ok, of c] reg ch by simp
  have tags: "tags_at ?w j = tags_at w j" for j using i by (auto simp: tags_at_def go_def)
  have calls: "calls_at ?w j = (if j = i then insert (op_tag op, channel) (calls_at w j) else calls_at w j)" for j
    using i by (auto simp: calls_at_def go_def)
  have old: "c < channel" if "(t, c) \<in> calls_at w j" for t c j using D(6) [OF that] ch by simp
  show ?thesis
    unfolding threads_inv_def tags calls
  proof (intro conjI allI impI)
    show "set (tags_at w i') \<inter> set (tags_at w j) = {}" if "i' \<noteq> j" for i' j using D(2) that by blast
    show "\<exists>j. (t, c) \<in> (if j = i then insert (op_tag op, channel) (calls_at w j) else calls_at w j)"
      if "fmlookup (waiters (mx_responses (mw_mux ?w))) t = Some c" for t c
      using that D(3) [of t c] m by (auto simp: go_def split: if_splits)
    show "t = u" if "(t, c) \<in> (if i' = i then insert (op_tag op, channel) (calls_at w i') else calls_at w i')"
        "(u, c) \<in> (if j = i then insert (op_tag op, channel) (calls_at w j) else calls_at w j)" for i' j t u c
      using that old D(8) by (auto split: if_splits)
  qed (use D(1) m ch places old D(5,7) in \<open>auto simp: go_def less_SucI split: if_splits\<close>)
qed

lemma tag_unused_tags:
  assumes "tag_unused t w"
  shows "t \<notin> set (tags_at w j)"
proof (cases "fmlookup (threads w) j")
  case (Some thr)
  then have "\<not> mentions thr t" using assms by (auto simp: tag_unused_def fmran'I)
  moreover have "t \<in> set (ctx_tags ctx) \<Longrightarrow> \<exists>x. ctx = Some (t, x)" for ctx by (cases ctx rule: ctx_tags.cases) auto
  ultimately show ?thesis using Some by (cases thr) (auto simp: mentions_def tags_at_def split: option.splits)
qed (simp add: tags_at_def)

lemma ctx_apart:
  assumes "threads_inv w" "fmlookup (threads w) i = Some (pc, ctx)" "pc_tag pc = Some t"
  shows "(t, ch) \<notin> ctx_calls ctx"
proof -
  have "(t, ch) \<in> ctx_calls ctx \<Longrightarrow> t \<in> set (ctx_tags ctx)" by (cases ctx rule: ctx_calls.cases) auto
  then show ?thesis using threads_invD(1) [OF assms(1), of i] assms(2,3) by (auto simp: tags_at_def)
qed

lemma one_place:
  assumes "places ch m = 1" "fmlookup (waiters (mx_responses m)) t = Some ch"
  shows "mx_channels m ch = []" "(ch, r) \<notin> set (mx_sending m)"
proof -
  have "0 < card {u. fmlookup (waiters (mx_responses m)) u = Some ch}"
    using assms(2) finite_waiting [of "waiters (mx_responses m)" ch] by (auto simp: card_gt_0_iff)
  then have "length (mx_channels m ch) = 0" "length (filter (\<lambda>(c, _). c = ch) (mx_sending m)) = 0"
    using assms(1) unfolding places_def by linarith+
  then show "mx_channels m ch = []" "(ch, r) \<notin> set (mx_sending m)" by (auto simp: filter_empty_conv)
qed

lemmas at_defs = tags_at_def calls_at_def go_def

lemma places_protocol [simp]: "places c (m\<lparr>mx_protocol := p\<rparr>) = places c m"
  by (simp add: places_def)

text \<open>A step that changes nothing but where thread \<open>i\<close> is and, it may be, takes waiters away.\<close>

lemma threads_move:
  assumes inv: "threads_inv w" and w': "threads w' = fmupd i (pc, ctx) (threads w)"
    and tags: "tags_at w' i = tags_at w i \<or> tags_at w' i = [] \<or>
      (\<exists>t. tag_unused t w \<and> tags_at w' i = t # tags_at w i)"
    and "calls_at w' i = calls_at w i" "mx_next (mw_mux w') = mx_next (mw_mux w)"
    and "\<And>c. places c (mw_mux w') = places c (mw_mux w)"
    and "waiters (mx_responses (mw_mux w')) = waiters (mx_responses (mw_mux w)) \<and>
        terminal_error (mx_responses (mw_mux w')) = terminal_error (mx_responses (mw_mux w))
      \<or> (\<exists>t. waiters (mx_responses (mw_mux w')) = fmdrop t (waiters (mx_responses (mw_mux w))) \<and>
        terminal_error (mx_responses (mw_mux w')) = terminal_error (mx_responses (mw_mux w)))
      \<or> waiters (mx_responses (mw_mux w')) = fmempty"
  shows "threads_inv w'"
proof (rule threads_go [OF inv, of i])
  show "distinct (tags_at w' i)"
    using tags threads_invD(1) [OF inv, of i] tag_unused_tags [of _ w i] by auto
  show "t \<in> set (tags_at w i) \<or> (\<forall>j. t \<notin> set (tags_at w j))" if "t \<in> set (tags_at w' i)" for t
    using tags tag_unused_tags [of t w] that by auto
qed (use assms threads_invD(4) [OF inv] in \<open>auto split: if_splits\<close>)

lemma threads_recv:
  assumes inv: "threads_inv w" and i: "fmlookup (threads w) i = Some (Waiting tag channel, ctx)"
    and w': "threads w' = fmupd i (Returned ch r, ctx) (threads w)" "mx_responses (mw_mux w') = mx_responses (mw_mux w)"
      "mx_next (mw_mux w') = mx_next (mw_mux w)" "\<And>c. c \<noteq> channel \<Longrightarrow> places c (mw_mux w') = places c (mw_mux w)"
    and gone: "\<And>t. fmlookup (waiters (mx_responses (mw_mux w))) t \<noteq> Some channel"
  shows "threads_inv w'"
proof -
  have "(tag, channel) \<notin> ctx_calls ctx" using ctx_apart [OF inv i] by simp
  then have "places c (mw_mux w') = places c (mw_mux w) \<or> (\<exists>t. (t, c) \<in> calls_at w i \<and> (t, c) \<notin> calls_at w' i)" for c
    using i w'(1,4) by (cases "c = channel") (auto simp: at_defs)
  then show ?thesis
    using i w'(1-3) gone threads_invD(1) [OF inv, of i] threads_invD(4) [OF inv]
    by (intro threads_go [OF inv, of i]) (auto simp: at_defs)
qed

lemma threads_call:
  assumes "call_step i w w'" and inv: "threads_inv w"
  shows "threads_inv w'"
  using assms(1)
proof cases
  case (register op ctx channel m)
  then show ?thesis using threads_register [OF inv] by simp
next
  case refused: (register_refused op ctx e m)
  have "waiters (mx_responses m) = waiters (mx_responses (mw_mux w)) \<and> terminal_error (mx_responses m) = terminal_error (mx_responses (mw_mux w))
    \<and> mx_next m = Suc (mx_next (mw_mux w)) \<and> (\<forall>c. places c m = places c (mw_mux w))"
    using refused(3) registering_free [OF inv refused(2)]
    by (auto simp: register_call_def register_def Let_def result_simps places_def split: option.splits if_splits)
  then show ?thesis
    using refused threads_invD(1) [OF inv, of i] threads_invD(4) [OF inv]
    by (intro threads_go [OF inv, of i]) (auto simp: at_defs)
next
  case r: (recv tag channel ctx r rs)
  have "places channel (mw_mux w) = 1"
    using threads_invD(5) [OF inv, of tag channel i] r(2) by (simp add: calls_at_def)
  then have "fmlookup (waiters (mx_responses (mw_mux w))) t \<noteq> Some channel" for t
    using one_place(1) r(3) by fastforce
  then show ?thesis using r by (intro threads_recv [OF inv r(2)]) (simp_all add: go_def places_def)
next
  case d: (disconnected tag channel ctx)
  then have "fmlookup (waiters (mx_responses (mw_mux w))) t \<noteq> Some channel" for t
    by (auto simp: channel_closed_def intro: fmranI)
  then show ?thesis using d by (intro threads_recv [OF inv d(2)]) (simp_all add: go_def)
next
  case (fail tag channel e ctx)
  then show ?thesis
    using threads_invD(1) [OF inv, of i] by (intro threads_go [OF inv, of i]) (auto simp: at_defs)
next
  case (cancel tag channel e ctx)
  then show ?thesis
    using threads_invD(1) [OF inv, of i] threads_invD(4) [OF inv]
    by (intro threads_go [OF inv, of i]) (auto simp: at_defs cancel_waiter_def split: if_splits)
next
  case (abandon tag e ctx)
  then show ?thesis
    using threads_invD(1) [OF inv, of i] threads_invD(4) [OF inv]
    by (intro threads_go [OF inv, of i]) (auto simp: at_defs abandon_call_def)
next
  case (call_end ch r)
  then show ?thesis
    using threads_invD(4) [OF inv] by (intro threads_go [OF inv, of i]) (auto simp: at_defs)
next
  case (build_refused e p)
  then show ?thesis using threads_invD(4) [OF inv] by (intro threads_still [OF inv]) simp_all
qed (rule threads_move [OF inv, of _ i]; auto simp: at_defs cancel_waiter_def)+

lemma threads_step:
  assumes "mux_step w w'" and inv: "threads_inv w"
  shows "threads_inv w'"
  using assms(1)
proof cases
  case (call i)
  then show ?thesis using threads_call [OF _ inv] by blast
next
  case reader
  then show ?thesis
    by cases (intro threads_still [OF inv]; use threads_invD(4) [OF inv] in \<open>auto split: if_splits\<close>)+
next
  case peer
  then show ?thesis
    by cases (intro threads_still [OF inv]; use threads_invD(4) [OF inv] in \<open>auto\<close>)+
next
  case (send xs channel r ys)
  then show ?thesis
    using threads_invD(4) [OF inv] by (intro threads_still [OF inv]) (auto simp: places_send)
next
  case shutdown
  then show ?thesis by (intro threads_still [OF inv]) auto
qed

section \<open>Tags of the connection\<close>

fun pc_op :: "call_pc \<Rightarrow> op option" where
  "pc_op (Framing op) = Some op"
| "pc_op (Registering op) = Some op"
| "pc_op (Writing op _) = Some op"
| "pc_op _ = None"

fun pc_unsent :: "call_pc \<Rightarrow> tag set" where
  "pc_unsent (Failing tag _ _) = {tag}"
| "pc_unsent (Abandoning tag _) = {tag}"
| "pc_unsent pc = (case pc_op pc of Some op \<Rightarrow> {op_tag op} | None \<Rightarrow> {})"

definition unsent_at :: "mux_world \<Rightarrow> nat \<Rightarrow> tag set" where
  "unsent_at w i = (case fmlookup (threads w) i of None \<Rightarrow> {} | Some (pc, _) \<Rightarrow> pc_unsent pc)"

definition unsent :: "mux_world \<Rightarrow> tag set" where
  "unsent w = (\<Union>i. unsent_at w i)"

definition ops :: "mux_world \<Rightarrow> op set" where
  "ops w = {op. \<exists>i pc ctx. fmlookup (threads w) i = Some (pc, ctx) \<and> pc_op pc = Some op}"

lemma unsent_tags: "unsent_at w i \<subseteq> set (tags_at w i)"
proof -
  have "t \<in> pc_unsent pc \<Longrightarrow> pc_tag pc = Some t" for t pc by (cases pc) auto
  then show ?thesis by (fastforce simp: unsent_at_def tags_at_def split: option.splits)
qed

lemma unsent_go:
  assumes inv: "threads_inv w" and "\<And>j. j \<noteq> i \<Longrightarrow> fmlookup (threads w') j = fmlookup (threads w) j"
  shows "unsent w' = unsent_at w' i \<union> (unsent w - unsent_at w i)"
proof -
  have same: "unsent_at w' j = unsent_at w j" if "j \<noteq> i" for j using assms(2) [OF that] by (simp add: unsent_at_def)
  have apart: "t \<notin> unsent_at w i" if "t \<in> unsent_at w j" "j \<noteq> i" for t j
    using threads_invD(2) [OF inv, of t i j] unsent_tags [of w] that by blast
  show ?thesis
  proof (intro equalityI subsetI)
    fix t assume "t \<in> unsent w'"
    then obtain j where "t \<in> unsent_at w' j" by (auto simp: unsent_def)
    then show "t \<in> unsent_at w' i \<union> (unsent w - unsent_at w i)"
      using same [of j] apart [of t j] by (cases "j = i") (auto simp: unsent_def)
  next
    fix t assume "t \<in> unsent_at w' i \<union> (unsent w - unsent_at w i)"
    then consider "t \<in> unsent_at w' i" | j where "t \<in> unsent_at w j" "j \<noteq> i" by (auto simp: unsent_def)
    then show "t \<in> unsent w'" by cases (auto simp: unsent_def simp flip: same)
  qed
qed

text \<open>A request, or the answer to it, that is under way on behalf of a channel.\<close>

definition under_way :: "mux_world \<Rightarrow> tag \<Rightarrow> nat \<Rightarrow> bool" where
  "under_way w t ch \<longleftrightarrow> fmlookup (at_peer w) t = Some ch \<or> (\<exists>m. (m, ch) \<in> set (wire w) \<and> t_tag m = t)
     \<or> (\<exists>r. (r, ch) \<in> set (arriving w) \<and> r_tag r = t)"

abbreviation conn_tags :: "mux_world \<Rightarrow> client \<Rightarrow> tag set \<Rightarrow> bool" where
  "conn_tags w p S \<equiv> tags_inv (live_tags (pending p)) (fmlookup (flush_targets p)) S
     (map (t_view \<circ> fst) (wire w)) (map (r_view \<circ> fst) (arriving w))"

definition traffic :: "mux_world \<Rightarrow> bool" where
  "traffic w \<longleftrightarrow>
     \<not> is_live (pending (mx_protocol (mw_mux w))) NOTAG
     \<and> conn_tags w (mx_protocol (mw_mux w)) (fset (fmdom (at_peer w)) \<union> unsent w)
     \<and> fset (fmdom (at_peer w)) \<inter> unsent w = {}
     \<and> (\<forall>t \<in> unsent w. unnamed (mx_protocol (mw_mux w)) t)
     \<and> (\<forall>op \<in> ops w. t_tag (op_message op) = op_tag op \<and>
          (\<forall>y. snd (t_view (op_message op)) = Some y \<longrightarrow> fmlookup (flush_targets (mx_protocol (mw_mux w))) (op_tag op) = Some y))
     \<and> (\<forall>t ch ch'. under_way w t ch \<longrightarrow> fmlookup (waiters (mx_responses (mw_mux w))) t = Some ch' \<longrightarrow> ch' = ch)
     \<and> (\<forall>resp. reader_at w = Delivering resp \<longrightarrow> response_tag resp \<notin> unsent w)"

lemma trafficD:
  assumes "traffic w"
  shows "\<not> is_live (pending (mx_protocol (mw_mux w))) NOTAG"
    "conn_tags w (mx_protocol (mw_mux w)) (fset (fmdom (at_peer w)) \<union> unsent w)"
    "fset (fmdom (at_peer w)) \<inter> unsent w = {}"
    "t \<in> unsent w \<Longrightarrow> fmlookup (flush_targets (mx_protocol (mw_mux w))) f \<noteq> Some t"
    "op \<in> ops w \<Longrightarrow> t_tag (op_message op) = op_tag op"
    "op \<in> ops w \<Longrightarrow> snd (t_view (op_message op)) = Some y \<Longrightarrow> fmlookup (flush_targets (mx_protocol (mw_mux w))) (op_tag op) = Some y"
    "under_way w t ch \<Longrightarrow> fmlookup (waiters (mx_responses (mw_mux w))) t = Some ch' \<Longrightarrow> ch' = ch"
    "reader_at w = Delivering resp \<Longrightarrow> response_tag resp \<notin> unsent w"
  using assms unfolding traffic_def unnamed_def by blast+

lemma trafficI:
  assumes "\<not> is_live (pending (mx_protocol (mw_mux w))) NOTAG"
    "conn_tags w (mx_protocol (mw_mux w)) (fset (fmdom (at_peer w)) \<union> unsent w)"
    "fset (fmdom (at_peer w)) \<inter> unsent w = {}"
    "\<And>t f. t \<in> unsent w \<Longrightarrow> fmlookup (flush_targets (mx_protocol (mw_mux w))) f \<noteq> Some t"
    "\<And>op. op \<in> ops w \<Longrightarrow> t_tag (op_message op) = op_tag op"
    "\<And>op y. op \<in> ops w \<Longrightarrow> snd (t_view (op_message op)) = Some y \<Longrightarrow> fmlookup (flush_targets (mx_protocol (mw_mux w))) (op_tag op) = Some y"
    "\<And>t ch ch'. under_way w t ch \<Longrightarrow> fmlookup (waiters (mx_responses (mw_mux w))) t = Some ch' \<Longrightarrow> ch' = ch"
    "\<And>resp. reader_at w = Delivering resp \<Longrightarrow> response_tag resp \<notin> unsent w"
  shows "traffic w"
  using assms unfolding traffic_def unnamed_def by blast

lemma conn_tag_sets:
  "fst ` set (map (t_view \<circ> fst) xs) = (\<lambda>(m, _). t_tag m) ` set xs"
  "fst ` set (map (r_view \<circ> fst) ys) = (\<lambda>(r, _). r_tag r) ` set ys"
  by (simp_all add: image_image case_prod_unfold)

lemma unsent_not_under_way:
  assumes "traffic w" "t \<in> unsent w"
  shows "\<not> under_way w t ch"
proof -
  note tags = trafficD(2) [OF assms(1)]
  have "t \<notin> (\<lambda>(m, _). t_tag m) ` set (wire w)" "t \<notin> (\<lambda>(r, _). r_tag r) ` set (arriving w)"
    using tags_invD(4,5) [OF tags] assms(2) unfolding conn_tag_sets by blast+
  moreover have "fmlookup (at_peer w) t = None"
    using trafficD(3) [OF assms(1)] assms(2) by (auto simp: fmdom_notD)
  ultimately show ?thesis by (auto simp: under_way_def)
qed

text \<open>Steps that change no tag: what the threads have still to send stays, and so does the connection.\<close>

lemma traffic_still:
  assumes inv: "traffic w" and "pending (mx_protocol (mw_mux w')) = pending (mx_protocol (mw_mux w))"
    "flush_targets (mx_protocol (mw_mux w')) = flush_targets (mx_protocol (mw_mux w))"
    and same: "at_peer w' = at_peer w" "wire w' = wire w" "arriving w' = arriving w"
    and "unsent w' = unsent w" "ops w' \<subseteq> ops w"
    and waiting: "\<And>t ch. fmlookup (waiters (mx_responses (mw_mux w'))) t = Some ch \<Longrightarrow>
      fmlookup (waiters (mx_responses (mw_mux w))) t = Some ch \<or> t \<in> unsent w"
    and "\<And>resp. reader_at w' = Delivering resp \<Longrightarrow> reader_at w = Delivering resp"
  shows "traffic w'"
proof (rule trafficI)
  show "ch' = ch" if "under_way w' t ch" "fmlookup (waiters (mx_responses (mw_mux w'))) t = Some ch'" for t ch ch'
  proof -
    have "under_way w t ch" using that(1) same by (simp add: under_way_def)
    then show ?thesis using waiting [OF that(2)] trafficD(7) [OF inv] unsent_not_under_way [OF inv] by blast
  qed
qed (use assms trafficD [OF inv] in \<open>auto simp: subset_iff\<close>)

end
