(* ===== verification/R9P_Multiplex_Props.thy ===== *)
theory R9P_Multiplex_Props
  imports R9P_Multiplex_Inv
begin

text \<open>
  What the multiplexed client promises to the threads that call on it: a call that gets a response gets
  the peer's answer to its own request, however calls, timeouts, flushes and late responses interleave,
  and no call is forgotten, also when the connection fails.
\<close>

section \<open>Steps of the threads\<close>

lemma ops_unsent: "op \<in> ops w \<Longrightarrow> op_tag op \<in> unsent w"
proof -
  have "pc_op pc = Some op \<Longrightarrow> op_tag op \<in> pc_unsent pc" for pc by (cases pc) auto
  moreover assume "op \<in> ops w"
  then obtain i pc ctx where "fmlookup (threads w) i = Some (pc, ctx)" "pc_op pc = Some op" by (auto simp: ops_def)
  ultimately show "op_tag op \<in> unsent w" by (auto simp: unsent_def unsent_at_def intro!: exI [of _ i])
qed

lemma opsI: "fmlookup (threads w) i = Some (pc, ctx) \<Longrightarrow> pc_op pc = Some op \<Longrightarrow> op \<in> ops w"
  unfolding ops_def by blast

lemma unsentI: "fmlookup (threads w) i = Some (pc, ctx) \<Longrightarrow> t \<in> pc_unsent pc \<Longrightarrow> t \<in> unsent w"
  by (auto simp: unsent_def unsent_at_def intro!: exI [of _ i])

lemma threads_fields: "threads w' = threads w \<Longrightarrow> unsent w' = unsent w \<and> ops w' = ops w"
  by (simp add: unsent_def unsent_at_def ops_def)

lemma unsent_upd [simp]:
  "unsent (w\<lparr>mw_mux := m\<rparr>) = unsent w" "unsent (w\<lparr>wire := ms\<rparr>) = unsent w" "unsent (w\<lparr>written := W\<rparr>) = unsent w"
  "unsent (w\<lparr>arriving := rs\<rparr>) = unsent w" "unsent (w\<lparr>reader_at := pc\<rparr>) = unsent w"
  by (simp_all add: unsent_def unsent_at_def)

lemma ops_upd [simp]:
  "ops (w\<lparr>mw_mux := m\<rparr>) = ops w" "ops (w\<lparr>wire := ms\<rparr>) = ops w" "ops (w\<lparr>written := W\<rparr>) = ops w"
  "ops (w\<lparr>arriving := rs\<rparr>) = ops w" "ops (w\<lparr>reader_at := pc\<rparr>) = ops w"
  by (simp_all add: ops_def)

lemma ops_go: "ops (go i pc ctx m w) \<subseteq> ops w \<union> {op. pc_op pc = Some op}"
  by (auto simp: ops_def go_def split: if_splits)

lemma unsent_go':
  "threads_inv w \<Longrightarrow> unsent (go i pc ctx m w) = pc_unsent pc \<union> (unsent w - unsent_at w i)"
  by (subst unsent_go [of w i]) (simp_all add: go_def unsent_at_def)

lemma sent_tag:
  assumes inv: "threads_inv w" and i: "fmlookup (threads w) i = Some (pc, ctx)" "pc_tag pc = Some t" "pc_unsent pc = {}"
  shows "t \<notin> unsent w"
proof
  assume "t \<in> unsent w"
  then obtain j where j: "t \<in> unsent_at w j" by (auto simp: unsent_def)
  have "t \<in> set (tags_at w i)" using i by (simp add: tags_at_def)
  then have "j = i" using threads_invD(2) [OF inv] unsent_tags j by blast
  then show False using j i by (simp add: unsent_at_def)
qed

lemma go_simps [simp]:
  "mw_mux (go i pc ctx m w) = m" "threads (go i pc ctx m w) = fmupd i (pc, ctx) (threads w)"
  "reader_at (go i pc ctx m w) = reader_at w" "wire (go i pc ctx m w) = wire w" "at_peer (go i pc ctx m w) = at_peer w"
  "arriving (go i pc ctx m w) = arriving w" "written (go i pc ctx m w) = written w" "answers (go i pc ctx m w) = answers w"
  by (simp_all add: go_def)

lemma under_way_go [simp]: "under_way (go i pc ctx m w) = under_way w"
  by (simp add: under_way_def fun_eq_iff)

lemma traffic_build:
  assumes thr: "threads_inv w" and inv: "traffic w" and at: "unsent_at w i = {}"
    and taken: "takes_tag (mx_protocol (mw_mux w)) (op_tag op) p" and fresh: "tag_unused (op_tag op) w"
    and op: "t_tag (op_message op) = op_tag op"
    and kind: "\<not> is_flush (op_message op) \<and> flush_targets p = flush_targets (mx_protocol (mw_mux w))
      \<or> (\<exists>old. op_message op = T_Flush (op_tag op) old \<and> old \<notin> unsent w \<and> old \<noteq> op_tag op
          \<and> flush_targets p = fmupd (op_tag op) old (flush_targets (mx_protocol (mw_mux w))))"
  shows "traffic (go i (Framing op) ctx ((mw_mux w)\<lparr>mx_protocol := p\<rparr>) w)" (is "traffic ?w")
proof -
  note T = trafficD [OF inv]
  let ?t = "op_tag op" and ?p = "mx_protocol (mw_mux w)" and ?S = "fset (fmdom (at_peer w)) \<union> unsent w"
  have un: "unsent ?w = insert ?t (unsent w)" using unsent_go' [OF thr] at by simp
  have free: "fmlookup (flush_targets ?p) f \<noteq> Some ?t" for f using fresh by (simp add: tag_unused_def unnamed_def)
  have tag: "?t \<notin> live_tags (pending ?p)" using takes_tag_live(2) [OF taken] .
  have live: "live_tags (pending p) = insert ?t (live_tags (pending ?p))" using takes_tag_live(1) [OF taken] .
  have "?t \<notin> ?S" using tags_invD(6) [OF T(2)] tag by blast
  then have peer: "?t \<notin> fset (fmdom (at_peer w))" by blast
  have upd: "fmlookup (fmupd ?t old (flush_targets ?p)) = (fmlookup (flush_targets ?p))(?t \<mapsto> old)" for old
    by (simp add: fun_eq_iff)
  have tags: "conn_tags w p (insert ?t ?S)"
    using kind tags_build [OF T(2) tag free] tags_build_flush [OF T(2) tag free] unfolding live by (auto simp: upd)
  have ft: "fmlookup (flush_targets p) f \<noteq> Some u" if "u \<in> insert ?t (unsent w)" for f u
    using kind that free T(4) by (auto split: if_splits)
  have kept: "fmlookup (flush_targets p) (op_tag o') = Some y"
    if "o' \<in> ops ?w" "snd (t_view (op_message o')) = Some y" for o' y
  proof (cases "o' = op")
    case True
    then show ?thesis using kind that(2) by (auto simp: t_view_plain)
  next
    case False
    then have "o' \<in> ops w" using that(1) ops_go [of i "Framing op"] by auto
    then show ?thesis using T(6) that(2) kind ops_unsent [of o' w] \<open>?t \<notin> ?S\<close> by auto
  qed
  show ?thesis
  proof (rule trafficI)
    show "t_tag (op_message o') = op_tag o'" if "o' \<in> ops ?w" for o'
      using that ops_go [of i "Framing op"] op T(5) by fastforce
    show "response_tag resp \<notin> unsent ?w" if "reader_at ?w = Delivering resp" for resp
      using that fresh T(8) un by (auto simp: tag_unused_def)
    show "\<not> is_live (pending (mx_protocol (mw_mux ?w))) NOTAG"
      using taken T(1) by (auto simp: takes_tag_def)
  qed (use tags un peer T(3) T(7) ft kept in auto)
qed

lemma traffic_write:
  assumes thr: "threads_inv w" and inv: "traffic w" and i: "fmlookup (threads w) i = Some (Writing op channel, ctx)"
  shows "traffic ((go i (Waiting (op_tag op) channel) ctx (mw_mux w) w)
    \<lparr>wire := wire w @ [(op_message op, channel)], written := W\<rparr>)" (is "traffic ?w")
proof -
  note T = trafficD [OF inv]
  let ?g = "go i (Waiting (op_tag op) channel) ctx (mw_mux w) w"
  have op: "op \<in> ops w" using i by (rule opsI) simp
  have same: "unsent ?w = unsent ?g \<and> ops ?w = ops ?g" by (rule threads_fields) simp
  have un: "unsent ?w = unsent w - {op_tag op}"
    using same unsent_go' [OF thr] i by (simp add: unsent_at_def)
  have ops: "ops ?w \<subseteq> ops w" using same ops_go [of i "Waiting (op_tag op) channel"] by auto
  have peer: "op_tag op \<notin> fset (fmdom (at_peer w))" using T(3) ops_unsent [OF op] by blast
  have view: "(op_tag op, snd (t_view (op_message op))) = t_view (op_message op)"
    using T(5) [OF op] by (metis prod.collapse view_fst(1))
  have "conn_tags ?w (mx_protocol (mw_mux w)) (fset (fmdom (at_peer w)) \<union> unsent w - {op_tag op})"
    using tags_send [OF T(2) _ T(4) [OF ops_unsent [OF op]] T(6) [OF op], where target = "snd (t_view (op_message op))"]
      ops_unsent [OF op] by (simp add: view)
  moreover have "fset (fmdom (at_peer w)) \<union> unsent w - {op_tag op} = fset (fmdom (at_peer w)) \<union> (unsent w - {op_tag op})"
    using peer by blast
  ultimately have tags: "conn_tags ?w (mx_protocol (mw_mux w)) (fset (fmdom (at_peer w)) \<union> unsent ?w)"
    using un by simp
  have wait: "ch' = channel" if a: "fmlookup (waiters (mx_responses (mw_mux w))) (op_tag op) = Some ch'" for ch'
  proof -
    obtain j where j: "(op_tag op, ch') \<in> calls_at w j" using threads_invD(3) [OF thr a] by blast
    have "op_tag op \<in> set (tags_at w i)" using i by (simp add: tags_at_def)
    then have "j = i" using threads_invD(2) [OF thr] calls_tags [OF j] by blast
    then show ?thesis using j i ctx_apart [OF thr i, of "op_tag op" ch'] by (simp add: calls_at_def)
  qed
  show ?thesis
  proof (rule trafficI)
    show "ch' = ch" if "under_way ?w t ch" "fmlookup (waiters (mx_responses (mw_mux ?w))) t = Some ch'" for t ch ch'
    proof -
      have "under_way w t ch \<or> (ch = channel \<and> t = op_tag op)"
        using that(1) T(5) [OF op] by (auto simp: under_way_def)
      then show ?thesis using that(2) T(7) wait by auto
    qed
  qed (use tags un ops T(1,3,4,5,6,8) in auto)
qed

lemma abandon_tags:
  assumes "\<not> is_live (pending p) NOTAG" "t \<noteq> NOTAG"
  shows "live_tags (pending (abandon t p)) = live_tags (pending p) - {t}"
    "u \<noteq> t \<Longrightarrow> fmlookup (flush_targets (abandon t p)) u = fmlookup (flush_targets p) u"
    "fmlookup (flush_targets (abandon t p)) u = Some v \<Longrightarrow> fmlookup (flush_targets p) u = Some v"
  using assms by (auto simp: abandon_def table_flush_def live_tags_def is_live_def split: if_splits)

lemma traffic_abandon:
  assumes thr: "threads_inv w" and inv: "traffic w" and i: "fmlookup (threads w) i = Some (Abandoning tag e, ctx)"
  shows "traffic (go i (Returned None r) ctx (abandon_call tag (mw_mux w)) w)" (is "traffic ?w")
proof -
  note T = trafficD [OF inv]
  let ?p = "mx_protocol (mw_mux w)"
  have t: "tag \<in> unsent w" using i by (rule unsentI) simp
  have un: "unsent ?w = unsent w - {tag}" using unsent_go' [OF thr] i by (simp add: unsent_at_def)
  have ops: "ops ?w \<subseteq> ops w" using ops_go [of i "Returned None r"] by auto
  have peer: "tag \<notin> fset (fmdom (at_peer w))" using T(3) t by blast
  have "tag \<in> live_tags (pending ?p)" using tags_invD(6) [OF T(2)] t by blast
  then have "tag \<noteq> NOTAG" using T(1) by (auto simp: live_tags_def)
  note A = abandon_tags [OF T(1) this]
  have "conn_tags w (abandon tag ?p) (fset (fmdom (at_peer w)) \<union> unsent w - {tag})"
    unfolding A(1) using tags_abandon [OF T(2) _ A(2)] t by auto
  moreover have "fset (fmdom (at_peer w)) \<union> unsent w - {tag} = fset (fmdom (at_peer w)) \<union> (unsent w - {tag})"
    using peer by blast
  ultimately have tags: "conn_tags ?w (abandon tag ?p) (fset (fmdom (at_peer w)) \<union> unsent ?w)"
    using un by simp
  have other: "op_tag op \<noteq> tag" if "op \<in> ops ?w" for op
    using that ops_unsent [OF that] un by blast
  show ?thesis
  proof (rule trafficI)
    show "\<not> is_live (pending (mx_protocol (mw_mux ?w))) NOTAG"
      using A(1) T(1) by (auto simp: abandon_call_def live_tags_def)
    show "fmlookup (flush_targets (mx_protocol (mw_mux ?w))) f \<noteq> Some t" if "t \<in> unsent ?w" for t f
      using that un T(4) [of t f] A(3) [of f t] by (auto simp: abandon_call_def)
    show "fmlookup (flush_targets (mx_protocol (mw_mux ?w))) (op_tag op) = Some y"
      if "op \<in> ops ?w" "snd (t_view (op_message op)) = Some y" for op y
      using that ops T(6) A(2) [OF other] by (auto simp: abandon_call_def)
  qed (use tags un ops T(3,5,7,8) in \<open>auto simp: abandon_call_def\<close>)
qed

text \<open>A step of a thread that keeps its unsent tag, if it has one, and touches no tag.\<close>

lemma traffic_go:
  assumes thr: "threads_inv w" and inv: "traffic w" and at: "pc_unsent pc = unsent_at w i"
    and ops: "\<And>op. pc_op pc = Some op \<Longrightarrow> op \<in> ops w"
    and p: "pending (mx_protocol m) = pending (mx_protocol (mw_mux w))" "flush_targets (mx_protocol m) = flush_targets (mx_protocol (mw_mux w))"
    and waiting: "\<And>t ch. fmlookup (waiters (mx_responses m)) t = Some ch \<Longrightarrow>
      fmlookup (waiters (mx_responses (mw_mux w))) t = Some ch \<or> t \<in> unsent w"
  shows "traffic (go i pc ctx m w)"
proof (rule traffic_still [OF inv])
  show "unsent (go i pc ctx m w) = unsent w"
    using unsent_go' [OF thr] at by (auto simp: unsent_def)
  show "ops (go i pc ctx m w) \<subseteq> ops w" using ops_go ops by blast
qed (use p waiting in auto)

lemma refused_tags:
  "alloc_tag p = (Inl e, p') \<Longrightarrow> pending p' = pending p \<and> flush_targets p' = flush_targets p"
  "client_flush old p = (Inl e, p') \<Longrightarrow> pending p' = pending p \<and> flush_targets p' = flush_targets p"
proof -
  have loop: "alloc_tag_loop n p = (Inl e, p') \<Longrightarrow> pending p' = pending p \<and> flush_targets p' = flush_targets p" for n p p' e
    by (induction n arbitrary: p) (auto simp: Let_def table_defs is_live_def split: if_splits prod.splits sum.splits option.splits)
  then show "alloc_tag p = (Inl e, p') \<Longrightarrow> pending p' = pending p \<and> flush_targets p' = flush_targets p"
    unfolding alloc_tag_def by blast
  show "client_flush old p = (Inl e, p') \<Longrightarrow> pending p' = pending p \<and> flush_targets p' = flush_targets p"
    using loop unfolding client_flush_def alloc_tag_def
    by (auto simp: bind_s_def stateful_simps split: if_splits prod.splits sum.splits)
qed

lemma traffic_call:
  assumes "call_step i w w'" and thr: "threads_inv w" and inv: "traffic w"
  shows "traffic w'"
  using assms(1)
proof cases
  case (build op p)
  then show ?thesis
    using client_call_takes [OF build(3)] by (auto intro!: traffic_build [OF thr inv] simp: unsent_at_def)
next
  case (build_refused e p)
  then show ?thesis
    using refused_tags(1) [OF build_refused(2)] by (intro traffic_still [OF inv]) simp_all
next
  case (build_flush j old channel ctx op p)
  have "old \<notin> unsent w" using sent_tag [OF thr build_flush(3)] by simp
  moreover have "old \<noteq> op_tag op"
    using tag_unused_tags [OF build_flush(5), of j] build_flush(3) by (auto simp: tags_at_def)
  ultimately show ?thesis
    using build_flush client_flush_takes [OF build_flush(4)] by (auto intro!: traffic_build [OF thr inv] simp: unsent_at_def)
next
  case (flush_own tag channel op p)
  have "tag \<notin> unsent w" using sent_tag [OF thr flush_own(2)] by simp
  moreover have "tag \<noteq> op_tag op"
    using tag_unused_tags [OF flush_own(4), of i] flush_own(2) by (auto simp: tags_at_def)
  ultimately show ?thesis
    using flush_own client_flush_takes [OF flush_own(3)] by (auto intro!: traffic_build [OF thr inv] simp: unsent_at_def)
next
  case (write_frame op channel ctx)
  then show ?thesis using traffic_write [OF thr inv] by simp
next
  case (abandon tag e ctx)
  then show ?thesis using traffic_abandon [OF thr inv] by simp
next
  case (call_end ch r)
  have "unsent w' = unsent w" using unsent_go [OF thr, of i w'] call_end by (simp add: unsent_at_def)
  moreover have "ops w' \<subseteq> ops w" using call_end by (auto simp: ops_def)
  ultimately show ?thesis using call_end by (intro traffic_still [OF inv]) simp_all
next
  case (register op ctx channel m)
  have "op_tag op \<in> unsent w" using unsentI [OF register(2)] by simp
  then show ?thesis
    using register opsI [OF register(2)]
    by (auto intro!: traffic_go [OF thr inv] simp: unsent_at_def register_call_def register_def Let_def result_simps
        split: if_splits option.splits)
next
  case (register_refused op ctx e m)
  have "op_tag op \<in> unsent w" using unsentI [OF register_refused(2)] by simp
  then show ?thesis
    using register_refused
    by (auto intro!: traffic_go [OF thr inv] simp: unsent_at_def register_call_def register_def Let_def result_simps
        split: if_splits option.splits)
next
  case (flush_refused tag channel e p e')
  then show ?thesis
    using refused_tags(2) [OF flush_refused(3)] by (auto intro!: traffic_go [OF thr inv] simp: unsent_at_def)
next
  case (frame op ctx frame)
  then show ?thesis using opsI [OF frame(2)] by (auto intro!: traffic_go [OF thr inv] simp: unsent_at_def)
qed (auto intro!: traffic_go [OF thr inv] simp: unsent_at_def cancel_waiter_def split: if_splits)

section \<open>Steps of the peer and of the reader\<close>

lemma traffic_peer:
  assumes "peer_step w w'" and inv: "traffic w"
  shows "traffic w'"
proof -
  note T = trafficD [OF inv]
  have goal: "traffic w'" if "mw_mux w' = mw_mux w" "threads w' = threads w" "reader_at w' = reader_at w"
    "conn_tags w' (mx_protocol (mw_mux w)) (fset (fmdom (at_peer w')) \<union> unsent w)"
    "fset (fmdom (at_peer w')) \<inter> unsent w = {}" and way: "\<And>t ch. under_way w' t ch \<Longrightarrow> under_way w t ch"
  proof (rule trafficI)
    show "ch' = ch" if "under_way w' t ch" "fmlookup (waiters (mx_responses (mw_mux w'))) t = Some ch'" for t ch ch'
      using T(7) [OF way [OF that(1)]] that(2) \<open>mw_mux w' = mw_mux w\<close> by simp
  qed (use that(1-5) T(1,4-6,8) threads_fields [OF that(2)] in auto)
  show ?thesis
    using assms(1)
  proof cases
    case (accept m channel ms)
    have S: "fset (fmdom (at_peer w')) \<union> unsent w = insert (t_tag m) (fset (fmdom (at_peer w)) \<union> unsent w)"
      using accept by simp
    have "under_way w (t_tag m) channel" using accept by (auto simp: under_way_def)
    then have "t_tag m \<notin> unsent w" using unsent_not_under_way [OF inv] by blast
    moreover have "conn_tags w' (mx_protocol (mw_mux w)) (fset (fmdom (at_peer w')) \<union> unsent w)"
      unfolding S using T(2) accept tags_dispatch by (simp add: t_view_plain)
    ultimately show ?thesis
      using accept T(3) by (intro goal) (auto simp: under_way_def split: if_splits)
  next
    case (refuse m channel ms r)
    have "t_view m = (t_tag m, snd (t_view m))" by (metis prod.collapse view_fst(1))
    then have "conn_tags w' (mx_protocol (mw_mux w)) (fset (fmdom (at_peer w')) \<union> unsent w)"
      using T(2) refuse tags_answer [of _ _ _ "t_tag m" "snd (t_view m)"] by (simp add: r_view_def)
    then show ?thesis
      using refuse T(3) by (intro goal) (auto simp: under_way_def)
  next
    case (flush tag old channel ms)
    note tags = T(2) [unfolded flush(2), simplified]
    have "fmlookup (flush_targets (mx_protocol (mw_mux w))) tag = Some old"
      using tags_invD(9) [OF tags, of "[]"] by simp
    then have S: "fset (fmdom (at_peer w')) \<union> unsent w = fset (fmdom (at_peer w)) \<union> unsent w - {old}"
      using T(4) [of old tag] flush by auto
    have "conn_tags w' (mx_protocol (mw_mux w)) (fset (fmdom (at_peer w')) \<union> unsent w)"
      unfolding S using tags_flushed [OF tags] flush by (simp add: r_view_def)
    then show ?thesis
      using flush T(3) by (intro goal) (auto simp: under_way_def split: if_splits)
  next
    case (answer r channel)
    have t: "r_tag r \<in> fset (fmdom (at_peer w))" using answer(2) by (auto intro: fmdomI)
    then have S: "fset (fmdom (at_peer w')) \<union> unsent w = fset (fmdom (at_peer w)) \<union> unsent w - {r_tag r}"
      using T(3) answer by auto
    have "conn_tags w' (mx_protocol (mw_mux w)) (fset (fmdom (at_peer w')) \<union> unsent w)"
      unfolding S using tags_complete [OF T(2), of "r_tag r"] t answer by (simp add: r_view_def)
    then show ?thesis
      using answer T(3) by (intro goal) (auto simp: under_way_def split: if_splits)
  qed
qed

text \<open>A response to a pending request leaves the protocol state, also one that is refused for its contents,
  except for an \<^verbatim>\<open>Rversion\<close>.\<close>

definition tag_left :: "rmessage \<Rightarrow> client \<Rightarrow> client \<Rightarrow> bool" where
  "tag_left r p p' \<longleftrightarrow>
     (\<forall>t. is_live (pending p') t \<longleftrightarrow> is_live (pending p) t \<and> t \<noteq> r_tag r
       \<and> \<not> (r = R_Flush (r_tag r) \<and> fmlookup (flush_targets p) (r_tag r) = Some t))
     \<and> (\<forall>t. t \<noteq> r_tag r \<longrightarrow> fmlookup (flush_targets p') t = fmlookup (flush_targets p) t)
     \<and> (\<forall>t u. fmlookup (flush_targets p') t = Some u \<longrightarrow> fmlookup (flush_targets p) t = Some u)"

lemma receive_forms:
  obtains (version) tag msz ver where "r = R_Version tag msz ver"
  | (error) tag ename where "r = R_Error tag ename"
  | (flush) tag where "r = R_Flush tag"
  | (opened) iounit c where "receive r = receive_opened (r_tag r) iounit c" "r \<noteq> R_Flush (r_tag r)"
  | (completed) c where "receive r = receive_done (r_tag r) c" "r \<noteq> R_Flush (r_tag r)"
  by (cases r) (fastforce simp: fun_eq_iff)+

lemma receive_state:
  assumes fin: "client_finish (r_tag r) p = (Inr (), p1)" and t: "r_tag r \<noteq> NOTAG" and "receive r p = (x, p')"
  obtains (version) "x = Inl (Error_from ''Rversion did not use NOTAG'')"
  | (plain) "r \<noteq> R_Flush (r_tag r)" "p' = p1 \<or> p' = p1\<lparr>flush_targets := fmdrop (r_tag r) (flush_targets p1)\<rparr>"
      "\<And>resp. x = Inr resp \<Longrightarrow> response_tag resp = r_tag r"
  | (flush) "r = R_Flush (r_tag r)" "x = Inr (Resp_Completion (r_tag r) Done_Flush)"
      "p' = (case fmlookup (flush_targets p1) (r_tag r) of None \<Rightarrow> p1
         | Some old \<Rightarrow> p1\<lparr>flush_targets := fmdrop (r_tag r) (flush_targets p1), pending := snd (table_flush old (pending p1))\<rparr>)"
proof (cases r rule: receive_forms)
  case (version tag msz ver)
  then show thesis using assms by (intro that(1)) (simp add: receive_version_def)
next
  case (flush tag)
  then show thesis using assms(3) fin
    by (intro that(3)) (simp_all add: receive_flush_def stateful_simps bind_s_def split: option.splits)
next
  case (error tag ename)
  then show thesis using assms(3) fin t
    by (intro that(2)) (auto simp: receive_error_def stateful_simps bind_s_def)
next
  case (opened iounit c)
  then show thesis using assms(3) fin
    by (intro that(2)) (auto simp: receive_opened_def stateful_simps bind_s_def split: sum.splits)
next
  case (completed c)
  then show thesis using assms(3) fin
    by (intro that(2)) (auto simp: receive_done_def stateful_simps bind_s_def)
qed

lemma receive_outcome:
  assumes "is_live (pending p) (r_tag r)" "\<not> is_live (pending p) NOTAG" "receive r p = (x, p')"
  shows "tag_left r p p' \<and> (\<forall>resp. x = Inr resp \<longrightarrow> response_tag resp = r_tag r)
    \<or> x = Inl (Error_from ''Rversion did not use NOTAG'')"
proof -
  let ?p1 = "p\<lparr>pending := snd (table_flush (r_tag r) (pending p))\<rparr>"
  have t: "r_tag r \<noteq> NOTAG" using assms(1,2) by auto
  have fin: "client_finish (r_tag r) p = (Inr (), ?p1)" using assms(1) t by (simp add: client_finish_Inr)
  have live: "is_live (snd (table_flush old tb)) u \<longleftrightarrow> is_live tb u \<and> u \<noteq> old" if "\<not> is_live tb NOTAG" for old tb u
    using that by (auto simp: table_flush_def is_live_def)
  from fin t assms(3) show ?thesis
  proof (cases rule: receive_state)
    case flush
    then show ?thesis using assms(2) by (auto simp: tag_left_def live split: option.splits if_splits)
  qed (use assms(2) in \<open>auto simp: tag_left_def live split: if_splits\<close>)
qed

lemma rversion_error_known:
  "error_message (protocol_error (Error_from ''Rversion did not use NOTAG'')) \<noteq> str ''9P client state: unknown response tag''"
proof -
  have "from_utf8_lossy (error_message (Error_from ''Rversion did not use NOTAG'')) =
      82 # from_utf8_lossy (tl (error_message (Error_from ''Rversion did not use NOTAG'')))"
    by (subst from_utf8_lossy.simps) (simp add: Error_from_def str_def utf8_width_def)
  then show ?thesis by (simp add: protocol_error_def str_def)
qed

lemma traffic_receive:
  assumes inv: "traffic w" and rs: "arriving w = (r, channel) # rs" and left: "tag_left r (mx_protocol (mw_mux w)) p"
    and pc: "\<And>resp. pc = Delivering resp \<Longrightarrow> response_tag resp = r_tag r"
  shows "traffic (w\<lparr>mw_mux := (mw_mux w)\<lparr>mx_protocol := p\<rparr>, reader_at := pc, arriving := rs\<rparr>)" (is "traffic ?w")
proof -
  note T = trafficD [OF inv]
  note L = left [unfolded tag_left_def]
  have keep: "u \<noteq> r_tag r \<Longrightarrow> fmlookup (flush_targets p) u = fmlookup (flush_targets (mx_protocol (mw_mux w))) u" for u
    using L by blast
  have "under_way w (r_tag r) channel" using rs by (auto simp: under_way_def)
  then have t: "r_tag r \<notin> unsent w" using unsent_not_under_way [OF inv] by blast
  have "tags_inv (live_tags (pending (mx_protocol (mw_mux w)))) (fmlookup (flush_targets (mx_protocol (mw_mux w))))
     (fset (fmdom (at_peer w)) \<union> unsent w) (map (t_view \<circ> fst) (wire w)) ((r_tag r, r = R_Flush (r_tag r)) # map (r_view \<circ> fst) rs)"
    using T(2) rs by (simp add: r_view_def)
  from tags_deliver [OF this keep] have tags: "conn_tags ?w p (fset (fmdom (at_peer w)) \<union> unsent w)"
    using L by (simp add: live_tags_def)
  have way: "under_way ?w u ch \<Longrightarrow> under_way w u ch" for u ch using rs by (auto simp: under_way_def)
  show ?thesis
  proof (rule trafficI)
    show "fmlookup (flush_targets (mx_protocol (mw_mux ?w))) (op_tag op) = Some y"
      if "op \<in> ops ?w" "snd (t_view (op_message op)) = Some y" for op y
    proof -
      have op: "op \<in> ops w" using that(1) by simp
      then have "op_tag op \<noteq> r_tag r" using ops_unsent t by metis
      then show ?thesis using T(6) [OF op that(2)] keep by simp
    qed
    show "ch' = ch" if "under_way ?w u ch" "fmlookup (waiters (mx_responses (mw_mux ?w))) u = Some ch'" for u ch ch'
      using T(7) [OF way [OF that(1)]] that(2) by simp
    show "fmlookup (flush_targets (mx_protocol (mw_mux ?w))) f \<noteq> Some u" if "u \<in> unsent ?w" for u f
      using that T(4) [of u f] L by auto
    show "\<not> is_live (pending (mx_protocol (mw_mux ?w))) NOTAG" using T(1) L by simp
  qed (use T(3,5) tags pc t in simp_all)
qed

section \<open>Requests and answers\<close>

definition own_answer :: "mux_world \<Rightarrow> nat \<Rightarrow> client_response \<Rightarrow> bool" where
  "own_answer w ch resp \<longleftrightarrow>
     (\<exists>m r p p'. (ch, m) \<in> written w \<and> (ch, r) \<in> answers w \<and> t_tag m = response_tag resp \<and> r_tag r = response_tag resp
       \<and> receive r p = (Inr resp, p'))"

text \<open>A response that a call has, or that is on its way to it.\<close>

definition replied :: "mux_world \<Rightarrow> nat \<Rightarrow> client_response \<Rightarrow> bool" where
  "replied w ch resp \<longleftrightarrow>
     (ch, Inr resp) \<in> set (mx_sending (mw_mux w)) \<or> Inr resp \<in> set (mx_channels (mw_mux w) ch)
     \<or> (\<exists>i ctx. fmlookup (threads w) i = Some (Returned (Some ch) (Inr resp), ctx))
     \<or> (reader_at w = Delivering resp \<and> fmlookup (waiters (mx_responses (mw_mux w))) (response_tag resp) = Some ch)"

definition data_inv :: "mux_world \<Rightarrow> bool" where
  "data_inv w \<longleftrightarrow>
     (\<forall>ch m m'. (ch, m) \<in> written w \<longrightarrow> (ch, m') \<in> written w \<longrightarrow> m' = m)
     \<and> (\<forall>ch m. (ch, m) \<in> written w \<longrightarrow>
          ch < mx_next (mw_mux w) \<and> (\<forall>i op ctx. fmlookup (threads w) i \<noteq> Some (Writing op ch, ctx)))
     \<and> (\<forall>t ch. fmlookup (at_peer w) t = Some ch \<longrightarrow> (\<exists>m. (ch, m) \<in> written w \<and> t_tag m = t))
     \<and> (\<forall>m ch. (m, ch) \<in> set (wire w) \<longrightarrow> (ch, m) \<in> written w)
     \<and> (\<forall>r ch. (r, ch) \<in> set (arriving w) \<longrightarrow> (ch, r) \<in> answers w \<and> (\<exists>m. (ch, m) \<in> written w \<and> t_tag m = r_tag r))
     \<and> (\<forall>ch resp. replied w ch resp \<longrightarrow> own_answer w ch resp)
     \<and> (reader_at w = Stopped \<longrightarrow> terminal_error (mx_responses (mw_mux w)) \<noteq> None)"

lemma data_invD:
  assumes "data_inv w"
  shows "(ch, m) \<in> written w \<Longrightarrow> (ch, m') \<in> written w \<Longrightarrow> m' = m"
    "(ch, m) \<in> written w \<Longrightarrow> ch < mx_next (mw_mux w)" "(ch, m) \<in> written w \<Longrightarrow> fmlookup (threads w) i \<noteq> Some (Writing op ch, ctx)"
    "fmlookup (at_peer w) t = Some ch \<Longrightarrow> \<exists>m. (ch, m) \<in> written w \<and> t_tag m = t"
    "(m, ch) \<in> set (wire w) \<Longrightarrow> (ch, m) \<in> written w"
    "(r, ch) \<in> set (arriving w) \<Longrightarrow> (ch, r) \<in> answers w" "(r, ch) \<in> set (arriving w) \<Longrightarrow> \<exists>m. (ch, m) \<in> written w \<and> t_tag m = r_tag r"
    "replied w ch resp \<Longrightarrow> own_answer w ch resp"
    "reader_at w = Stopped \<Longrightarrow> terminal_error (mx_responses (mw_mux w)) \<noteq> None"
  using assms unfolding data_inv_def by blast+

lemma own_answer_mono: "own_answer w ch resp \<Longrightarrow> written w \<subseteq> written w' \<Longrightarrow> answers w \<subseteq> answers w' \<Longrightarrow> own_answer w' ch resp"
  unfolding own_answer_def by blast

lemma data_step:
  assumes inv: "data_inv w" and "written w' = written w" "answers w \<subseteq> answers w'" "mx_next (mw_mux w) \<le> mx_next (mw_mux w')"
    and "\<And>i op ch ctx. fmlookup (threads w') i = Some (Writing op ch, ctx) \<Longrightarrow>
      fmlookup (threads w) i = Some (Writing op ch, ctx) \<or> mx_next (mw_mux w) \<le> ch"
    and "\<And>t ch. fmlookup (at_peer w') t = Some ch \<Longrightarrow> \<exists>m. (ch, m) \<in> written w \<and> t_tag m = t"
    and "set (wire w') \<subseteq> set (wire w)"
    and "\<And>r ch. (r, ch) \<in> set (arriving w') \<Longrightarrow> (ch, r) \<in> answers w' \<and> (\<exists>m. (ch, m) \<in> written w \<and> t_tag m = r_tag r)"
    and "\<And>ch resp. replied w' ch resp \<Longrightarrow> replied w ch resp \<or> own_answer w ch resp"
    and "reader_at w' = Stopped \<Longrightarrow> terminal_error (mx_responses (mw_mux w')) \<noteq> None"
  shows "data_inv w'"
proof -
  note D = data_invD [OF inv]
  have "own_answer w' ch resp" if "replied w' ch resp" for ch resp
    using assms(2,3) assms(9) [OF that] D(8) own_answer_mono [of w ch resp w'] by blast
  moreover have "fmlookup (threads w') i \<noteq> Some (Writing op ch, ctx)" if "(ch, m) \<in> written w'" for ch m i op ctx
    using assms(2,5) that D(2) [of ch m] D(3) [of ch m] by (metis leD)
  moreover have "ch < mx_next (mw_mux w')" if "(ch, m) \<in> written w'" for ch m
    using assms(2,4) that D(2) [of ch m] by auto
  ultimately show ?thesis
    unfolding data_inv_def assms(2) using D(1) D(5) assms(6-8,10) by blast
qed

lemma data_go:
  assumes inv: "data_inv w" and "\<And>ch resp. (ch, Inr resp) \<in> set (mx_sending m) \<Longrightarrow> (ch, Inr resp) \<in> set (mx_sending (mw_mux w))"
    and "\<And>ch resp. Inr resp \<in> set (mx_channels m ch) \<Longrightarrow> Inr resp \<in> set (mx_channels (mw_mux w) ch)"
    and "\<And>t ch. fmlookup (waiters (mx_responses m)) t = Some ch \<Longrightarrow> fmlookup (waiters (mx_responses (mw_mux w))) t = Some ch"
    and "mx_next (mw_mux w) \<le> mx_next m" "terminal_error (mx_responses (mw_mux w)) \<noteq> None \<Longrightarrow> terminal_error (mx_responses m) \<noteq> None"
    and pc: "\<And>ch resp. pc = Returned (Some ch) (Inr resp) \<Longrightarrow> replied w ch resp" "\<And>op ch. pc \<noteq> Writing op ch"
  shows "data_inv (go i pc ctx m w)"
proof (rule data_step [OF inv])
  show "replied w ch resp \<or> own_answer w ch resp" if "replied (go i pc ctx m w) ch resp" for ch resp
    using that assms(2-4) pc(1) [of ch resp] by (auto simp: replied_def split: if_splits)
qed (use assms data_invD [OF inv] in \<open>auto split: if_splits\<close>)

lemma data_register:
  assumes inv: "data_inv w" and un: "\<And>resp. reader_at w = Delivering resp \<Longrightarrow> response_tag resp \<noteq> op_tag op"
    and reg: "register_call (op_tag op) (mw_mux w) = (Inr channel, m)"
  shows "data_inv (go i (Writing op channel) ctx m w)"
proof (rule data_step [OF inv])
  have m: "mx_sending m = mx_sending (mw_mux w)" "mx_channels m = mx_channels (mw_mux w)" "mx_next m = Suc (mx_next (mw_mux w))"
      "channel = mx_next (mw_mux w)" "terminal_error (mx_responses m) = terminal_error (mx_responses (mw_mux w))"
      "waiters (mx_responses m) = fmupd (op_tag op) channel (waiters (mx_responses (mw_mux w)))"
    using reg by (auto simp: register_call_def register_def Let_def result_simps split: option.splits if_splits)
  show "replied w ch resp \<or> own_answer w ch resp" if "replied (go i (Writing op channel) ctx m w) ch resp" for ch resp
    using that un [of resp] by (auto simp: replied_def m split: if_splits)
  show "mx_next (mw_mux w) \<le> mx_next (mw_mux (go i (Writing op channel) ctx m w))" using m by simp
  show "fmlookup (threads w) j = Some (Writing op' ch, ctx') \<or> mx_next (mw_mux w) \<le> ch"
    if "fmlookup (threads (go i (Writing op channel) ctx m w)) j = Some (Writing op' ch, ctx')" for j op' ch ctx'
    using that m by (auto split: if_splits)
  show "terminal_error (mx_responses (mw_mux (go i (Writing op channel) ctx m w))) \<noteq> None"
    if "reader_at (go i (Writing op channel) ctx m w) = Stopped"
    using that m data_invD(9) [OF inv] by simp
qed (use data_invD [OF inv] in auto)

lemma data_write:
  assumes thr: "threads_inv w" and inv: "data_inv w" and i: "fmlookup (threads w) i = Some (Writing op channel, ctx)"
  shows "data_inv ((go i (Waiting (op_tag op) channel) ctx (mw_mux w) w)
    \<lparr>wire := wire w @ [(op_message op, channel)], written := insert (channel, op_message op) (written w)\<rparr>)" (is "data_inv ?w")
proof -
  note D = data_invD [OF inv]
  have c: "(op_tag op, channel) \<in> calls_at w i" using i by (simp add: calls_at_def)
  have new: "(channel, m) \<notin> written w" for m using D(3) i by blast
  have writing: "fmlookup (threads ?w) j \<noteq> Some (Writing op' channel, ctx')" for j op' ctx'
  proof
    assume a: "fmlookup (threads ?w) j = Some (Writing op' channel, ctx')"
    then have j: "j \<noteq> i" "fmlookup (threads w) j = Some (Writing op' channel, ctx')" by (auto split: if_splits)
    then have d: "(op_tag op', channel) \<in> calls_at w j" by (simp add: calls_at_def)
    then have "op_tag op' = op_tag op" using threads_invD(8) [OF thr c d] by simp
    then show False using threads_invD(2) [OF thr, of "op_tag op" i j] calls_tags [OF c] calls_tags [OF d] j by simp
  qed
  have "replied ?w ch resp \<Longrightarrow> replied w ch resp" for ch resp
    using i by (auto simp: replied_def split: if_splits)
  then have rep: "replied ?w ch resp \<Longrightarrow> own_answer ?w ch resp" for ch resp
    using D(8) own_answer_mono [of w ch resp ?w] by (auto simp: subset_iff)
  have other: "fmlookup (threads ?w) j \<noteq> Some (Writing op' ch, ctx')" if "(ch, m) \<in> written w" for ch m j op' ctx'
    using D(3) [OF that] by auto
  show ?thesis
    unfolding data_inv_def
  proof (intro conjI allI impI)
    show "m' = m" if "(ch, m) \<in> written ?w" "(ch, m') \<in> written ?w" for ch m m' using that new D(1) by auto
    show "ch < mx_next (mw_mux ?w)" if "(ch, m) \<in> written ?w" for ch m
      using that D(2) threads_invD(6) [OF thr c] by auto
    show "fmlookup (threads ?w) j \<noteq> Some (Writing op' ch, ctx')" if "(ch, m) \<in> written ?w" for ch m j op' ctx'
    proof -
      have "(ch, m) \<in> written w \<or> ch = channel" using that by auto
      then show ?thesis using writing other by blast
    qed
    show "\<exists>m. (ch, m) \<in> written ?w \<and> t_tag m = t" if "fmlookup (at_peer ?w) t = Some ch" for t ch
      using D(4) [of t ch] that by auto
    show "\<exists>m. (ch, m) \<in> written ?w \<and> t_tag m = r_tag r" if "(r, ch) \<in> set (arriving ?w)" for r ch
      using D(7) [of r ch] that by auto
  qed (use D(5,6,9) rep in auto)
qed

lemma data_call:
  assumes "call_step i w w'" and thr: "threads_inv w" and inv: "data_inv w"
    and un: "\<And>resp. reader_at w = Delivering resp \<Longrightarrow> response_tag resp \<notin> unsent w"
  shows "data_inv w'"
  using assms(1)
proof cases
  case (register op ctx channel m)
  have "op_tag op \<in> unsent w" using unsentI [OF register(2)] by simp
  then have "response_tag resp \<noteq> op_tag op" if "reader_at w = Delivering resp" for resp using un [OF that] by auto
  then show ?thesis using data_register [OF inv _ register(3)] register(1) by simp
next
  case (register_refused op ctx e m)
  then show ?thesis
    using registering_free [OF thr register_refused(2)]
    by (auto intro!: data_go [OF inv] simp: register_call_def register_def Let_def result_simps split: if_splits option.splits)
next
  case (write_frame op channel ctx)
  then show ?thesis using data_write [OF thr inv] by simp
next
  case (build_refused e p)
  then show ?thesis using data_invD [OF inv] by (intro data_step [OF inv]) (auto simp: replied_def)
next
  case (call_end ch r)
  then show ?thesis
    using data_invD [OF inv] by (intro data_step [OF inv]) (auto simp: replied_def split: if_splits)
next
  case (fail tag channel e ctx)
  then show ?thesis using fail_all_sending by (auto intro!: data_go [OF inv] simp: fail_all_error)
next
  case (recv tag channel ctx r rs)
  then show ?thesis by (auto intro!: data_go [OF inv] simp: replied_def split: if_splits)
next
  case (flushed_other ch r old)
  then show ?thesis
    by (auto intro!: data_go [OF inv] simp: replied_def cancel_waiter_def answer_waiter_sending split: if_splits)
qed (auto intro!: data_go [OF inv] simp: abandon_call_def cancel_waiter_def answer_waiter_sending split: if_splits)

lemma data_peer:
  assumes "peer_step w w'" and inv: "data_inv w"
  shows "data_inv w'"
proof -
  note D = data_invD [OF inv]
  have goal: "data_inv w'" if "mw_mux w' = mw_mux w" "threads w' = threads w" "reader_at w' = reader_at w"
    "written w' = written w" "answers w \<subseteq> answers w'" "set (wire w') \<subseteq> set (wire w)"
    "\<And>t ch. fmlookup (at_peer w') t = Some ch \<Longrightarrow> \<exists>m. (ch, m) \<in> written w \<and> t_tag m = t"
    "\<And>r ch. (r, ch) \<in> set (arriving w') \<Longrightarrow> (ch, r) \<in> answers w' \<and> (\<exists>m. (ch, m) \<in> written w \<and> t_tag m = r_tag r)"
    using that D(9) by (intro data_step [OF inv]) (simp_all add: replied_def)
  show ?thesis
    using assms(1)
  proof cases
    case (accept m channel ms)
    then show ?thesis using D(4,6,7) D(5) [of m channel] by (intro goal) (auto split: if_splits)
  next
    case (refuse m channel ms r)
    then show ?thesis using D(4,6,7) D(5) [of m channel] by (intro goal) auto
  next
    case (flush tag old channel ms)
    then have "\<exists>m. (channel, m) \<in> written w \<and> t_tag m = tag" using D(5) [of "T_Flush tag old" channel] by fastforce
    then show ?thesis using flush D(4,6,7) by (intro goal) (auto split: if_splits)
  next
    case (answer r channel)
    then show ?thesis using D(4,6,7) D(4) [of "r_tag r" channel] by (intro goal) (auto split: if_splits)
  qed
qed

lemma data_receive:
  assumes inv: "data_inv w" and tr: "traffic w" and rs: "arriving w = (r, channel) # rs"
    and rec: "receive r (mx_protocol (mw_mux w)) = (x, p)"
    and resp: "\<And>resp. pc = Delivering resp \<Longrightarrow> x = Inr resp \<and> response_tag resp = r_tag r" "pc \<noteq> Stopped"
  shows "data_inv (w\<lparr>mw_mux := (mw_mux w)\<lparr>mx_protocol := p\<rparr>, reader_at := pc, arriving := rs\<rparr>)" (is "data_inv ?w")
proof (rule data_step [OF inv])
  note D = data_invD [OF inv]
  have way: "under_way w (r_tag r) channel" using rs by (auto simp: under_way_def)
  show "replied w ch resp \<or> own_answer w ch resp" if "replied ?w ch resp" for ch resp
  proof (cases "pc = Delivering resp \<and> fmlookup (waiters (mx_responses (mw_mux w))) (response_tag resp) = Some ch")
    case True
    then have "ch = channel" "x = Inr resp" "response_tag resp = r_tag r"
      using resp(1) [of resp] trafficD(7) [OF tr way, of ch] by auto
    moreover have "(channel, r) \<in> answers w" "\<exists>m. (channel, m) \<in> written w \<and> t_tag m = r_tag r"
      using D(6,7) [of r channel] rs by auto
    ultimately show ?thesis using rec unfolding own_answer_def by metis
  qed (use that in \<open>auto simp: replied_def\<close>)
qed (use data_invD [OF inv] rs resp(2) in auto)

section \<open>The invariant of the connection\<close>

definition alive :: "mux_world \<Rightarrow> bool" where
  "alive w \<longleftrightarrow> reader_at w = Reading \<or> (\<exists>resp. reader_at w = Delivering resp)"

definition mux_inv :: "mux_world \<Rightarrow> bool" where
  "mux_inv w \<longleftrightarrow> threads_inv w \<and> data_inv w \<and> (alive w \<longrightarrow> traffic w)"

lemma call_reader: "call_step i w w' \<Longrightarrow> reader_at w' = reader_at w"
  by (induction rule: call_step.induct) simp_all

lemma arriving_live:
  assumes "traffic w" "arriving w = (r, channel) # rs"
  shows "is_live (pending (mx_protocol (mw_mux w))) (r_tag r)"
  using tags_invD(8) [OF trafficD(2) [OF assms(1)]] assms(2) by (simp add: live_tags_def)

lemma reader_inv:
  assumes "reader_step w w'" and thr: "threads_inv w" and dat: "data_inv w" and tr: "alive w \<Longrightarrow> traffic w"
  shows "data_inv w' \<and> (alive w' \<longrightarrow> traffic w')"
  using assms(1)
proof cases
  case (receive r channel rs resp p)
  have tr: "traffic w" using tr receive(2) by (simp add: alive_def)
  have "tag_left r (mx_protocol (mw_mux w)) p \<and> response_tag resp = r_tag r"
    using receive_outcome [OF arriving_live [OF tr receive(3)] trafficD(1) [OF tr] receive(4)] by auto
  then show ?thesis
    using receive data_receive [OF dat tr receive(3,4), of "Delivering resp"]
      traffic_receive [OF tr receive(3), of p "Delivering resp"] by simp
next
  case (receive_refused r channel rs e p)
  have tr: "traffic w" using tr receive_refused(2) by (simp add: alive_def)
  let ?pc = "if error_message (protocol_error e) = str ''9P client state: unknown response tag'' then Reading
        else Reader_Failing (protocol_error e)"
  have w': "w' = w\<lparr>mw_mux := (mw_mux w)\<lparr>mx_protocol := p\<rparr>, reader_at := ?pc, arriving := rs\<rparr>" using receive_refused by simp
  have "tag_left r (mx_protocol (mw_mux w)) p" if "?pc = Reading"
    using receive_outcome [OF arriving_live [OF tr receive_refused(3)] trafficD(1) [OF tr] receive_refused(4)]
      rversion_error_known that by (auto split: if_splits)
  then have "alive w' \<longrightarrow> traffic w'"
    unfolding w' using traffic_receive [OF tr receive_refused(3), of p Reading] by (auto simp: alive_def)
  moreover have "data_inv w'"
    unfolding w' by (rule data_receive [OF dat tr receive_refused(3,4)]) (auto split: if_splits)
  ultimately show ?thesis by blast
next
  case (transport_error e)
  then show ?thesis
    using data_invD [OF dat] by (auto intro!: data_step [OF dat] simp: replied_def alive_def)
next
  case (deliver resp)
  have tr: "traffic w" using tr deliver by (simp add: alive_def)
  have "traffic w'" using deliver by (intro traffic_still [OF tr]) (auto split: if_splits)
  moreover have "data_inv w'"
    using deliver data_invD(4,6,7) [OF dat]
    by (intro data_step [OF dat]) (auto simp: replied_def answer_waiter_sending)
  ultimately show ?thesis by blast
next
  case (fail_reader e)
  then show ?thesis
    using data_invD(4,6,7) [OF dat] fail_all_sending [of _ _ e "mw_mux w"]
    by (auto intro!: data_step [OF dat] simp: replied_def alive_def fail_all_error)
qed

lemma mux_inv_step:
  assumes "mux_step w w'" and inv: "mux_inv w"
  shows "mux_inv w'"
proof -
  have thr: "threads_inv w" and dat: "data_inv w" and tr: "alive w \<Longrightarrow> traffic w" using inv by (auto simp: mux_inv_def)
  have un: "reader_at w = Delivering resp \<Longrightarrow> response_tag resp \<notin> unsent w" for resp
    using tr trafficD(8) by (auto simp: alive_def)
  have "data_inv w' \<and> (alive w' \<longrightarrow> traffic w')"
    using assms(1)
  proof cases
    case (call i)
    then show ?thesis
      using data_call [OF call thr dat un] traffic_call [OF call thr] tr call_reader [OF call] by (simp add: alive_def)
  next
    case reader
    then show ?thesis using reader_inv [OF _ thr dat tr] by blast
  next
    case peer
    then have "reader_at w' = reader_at w" by cases simp_all
    then show ?thesis using data_peer [OF peer dat] traffic_peer [OF peer] tr by (simp add: alive_def)
  next
    case (send xs channel r ys)
    then have "traffic w'" if "alive w"
      using tr [OF that] by (intro traffic_still [OF tr [OF that]]) auto
    moreover have "data_inv w'"
      using send data_invD(4,6,7,9) [OF dat] by (intro data_step [OF dat]) (auto simp: replied_def split: if_splits)
    ultimately show ?thesis using send by (simp add: alive_def)
  next
    case shutdown
    then have "traffic w'" if "alive w"
      using tr [OF that] by (intro traffic_still [OF tr [OF that]]) auto
    moreover have "data_inv w'"
      using shutdown data_invD(4,6,7) [OF dat] fail_all_sending [of _ _ _ "mw_mux w"]
      by (intro data_step [OF dat]) (auto simp: replied_def fail_all_error)
    ultimately show ?thesis using shutdown by (simp add: alive_def)
  qed
  then show ?thesis using threads_step [OF assms(1) thr] by (simp add: mux_inv_def)
qed

lemma mux_inv_start:
  assumes "live_tags (pending p) = {}" "flush_targets p = fmempty"
  shows "mux_inv (mux_start p)"
proof -
  have "threads_inv (mux_start p)"
    by (auto simp: threads_inv_def tags_at_def calls_at_def places_def mux_start_def ResponseState_default_def)
  moreover have "data_inv (mux_start p)"
    by (auto simp: data_inv_def replied_def mux_start_def ResponseState_default_def)
  moreover have "traffic (mux_start p)"
    using assms by (auto simp: traffic_def unsent_def unsent_at_def ops_def under_way_def tags_inv_def live_tags_def
        mux_start_def ResponseState_default_def)
  ultimately show ?thesis by (simp add: mux_inv_def)
qed

lemma mux_inv_reachable: "mux_reachable w \<Longrightarrow> mux_inv w"
  by (induction rule: mux_reachable.induct) (auto intro: mux_inv_start mux_inv_step)

section \<open>Answers and waiting calls\<close>


lemma place_found:
  assumes "places ch m = 1"
  shows "(\<exists>t. fmlookup (waiters (mx_responses m)) t = Some ch) \<or> (\<exists>r. (ch, r) \<in> set (mx_sending m)) \<or> mx_channels m ch \<noteq> []"
proof (rule ccontr)
  assume "\<not> ?thesis"
  then have "places ch m = 0" by (auto simp: places_def filter_empty_conv)
  then show False using assms by simp
qed

lemma sent_reply_returns:
  assumes i: "fmlookup (threads w) i = Some (Waiting tag ch, ctx)"
    and "(\<exists>r. (ch, r) \<in> set (mx_sending (mw_mux w))) \<or> mx_channels (mw_mux w) ch \<noteq> []"
  shows "\<exists>w1 w2 r. mux_step\<^sup>*\<^sup>* w w1 \<and> call_step i w1 w2 \<and> fmlookup (threads w2) i = Some (Returned (Some ch) r, ctx)"
proof -
  have take: "\<exists>w2 r. call_step i v w2 \<and> fmlookup (threads w2) i = Some (Returned (Some ch) r, ctx)"
    if "fmlookup (threads v) i = Some (Waiting tag ch, ctx)" and ne: "mx_channels (mw_mux v) ch \<noteq> []" for v
  proof -
    obtain r rs where "mx_channels (mw_mux v) ch = r # rs" using ne by (cases "mx_channels (mw_mux v) ch") auto
    from recv [OF that(1) this] show ?thesis by fastforce
  qed
  show ?thesis
  proof (cases "mx_channels (mw_mux w) ch = []")
    case True
    then obtain r xs ys where "mx_sending (mw_mux w) = xs @ (ch, r) # ys" using assms(2) by (auto dest: split_list)
    from send [OF this] obtain w1 where "mux_step w w1" "threads w1 = threads w" "mx_channels (mw_mux w1) ch \<noteq> []" by fastforce
    then show ?thesis using take [of w1] i by (metis r_into_rtranclp)
  qed (use take [OF i] in blast)
qed


section \<open>A run\<close>

text \<open>One thread clunks a fid; the states of its call, the answer and the reader follow.\<close>

definition clunk_op :: op where
  "clunk_op = \<lparr>op_tag = 0, op_fid_opt = Some 1, op_message = T_Clunk 0 1\<rparr>"

definition clunking_client :: client where
  "clunking_client = snd (client_clunk 1 Client_new)"

lemma clunking_client_fields:
  "pending clunking_client = snd (table_begin 0 RequestTable_new)" "flush_targets clunking_client = fmempty"
  "cl_msize clunking_client = DEFAULT_MSIZE" "client_clunk 1 Client_new = (Inr clunk_op, clunking_client)"
  by (simp_all add: clunking_client_def client_clunk_def tagged_op_def bind_s_def return_s_def alloc_tag_free Client_new_def
      NOTAG_def is_live_def RequestTable_new_def clunk_op_def)

lemma clunk_frame: "\<exists>frame. encode_tmessage_checked (T_Clunk 0 1) DEFAULT_MSIZE = Inr frame"
  unfolding encode_tmessage_checked_Inr
  by (simp add: encode_tmessage_def DEFAULT_MSIZE_def finish_frame_def frame_prefix_def push_u32_def push_u16_def push_u8_def
      u32_try_from_def u32_max_def result_simps)

lemma clunk_waiting:
  obtains w where "mux_reachable w" "fmlookup (threads w) 0 = Some (Waiting 0 0, None)"
    "mx_protocol (mw_mux w) = clunking_client" "fmlookup (waiters (mx_responses (mw_mux w))) 0 = Some 0"
    "mx_sending (mw_mux w) = []" "mx_channels (mw_mux w) 0 = []" "reader_at w = Reading"
    "wire w = [(T_Clunk 0 1, 0)]" "arriving w = []" "written w = {(0, T_Clunk 0 1)}" "answers w = {}"
proof -
  let ?m = "(mw_mux (mux_start Client_new))\<lparr>mx_protocol := clunking_client\<rparr>"
  let ?w1 = "go 0 (Framing clunk_op) None ?m (mux_start Client_new)"
  let ?w2 = "go 0 (Registering clunk_op) None ?m ?w1"
  let ?m3 = "?m\<lparr>mx_responses := \<lparr>waiters = fmupd 0 0 fmempty, terminal_error = None\<rparr>, mx_next := 1\<rparr>"
  let ?w3 = "go 0 (Writing clunk_op 0) None ?m3 ?w2"
  let ?w4 = "(go 0 (Waiting 0 0) None ?m3 ?w3)\<lparr>wire := [(T_Clunk 0 1, 0)], written := {(0, T_Clunk 0 1)}\<rparr>"
  have "mux_reachable (mux_start Client_new)"
    by (rule mux_reachable.start) (simp_all add: Client_new_def live_tags_def is_live_def RequestTable_new_def)
  moreover have "call_step 0 (mux_start Client_new) ?w1"
  proof (rule build)
    show "client_call (mx_protocol (mw_mux (mux_start Client_new))) clunk_op clunking_client"
      using clunking_client_fields(4) by (auto simp: client_call_def mux_start_def)
  qed (auto simp: mux_start_def tag_unused_def unnamed_def Client_new_def fmran'_def)
  ultimately have r: "mux_reachable ?w1" using mux_reachable.further mux_step.call by blast
  obtain frame where "encode_tmessage_checked (T_Clunk 0 1) DEFAULT_MSIZE = Inr frame" using clunk_frame by blast
  then have "call_step 0 ?w1 ?w2"
    using frame [of ?w1 0 clunk_op None frame] by (simp add: clunk_op_def clunking_client_fields)
  from mux_reachable.further [OF r mux_step.call [OF this]] have r: "mux_reachable ?w2" .
  have "register_call (op_tag clunk_op) ?m = (Inr 0, ?m3)"
    by (simp add: register_call_def register_def mux_start_def ResponseState_default_def clunk_op_def result_simps)
  then have "call_step 0 ?w2 ?w3" by (intro register) simp_all
  from mux_reachable.further [OF r mux_step.call [OF this]] have r: "mux_reachable ?w3" .
  have "call_step 0 ?w3 ?w4"
    using write_frame [of ?w3 0 clunk_op 0 None] by (simp add: clunk_op_def mux_start_def)
  from mux_reachable.further [OF r mux_step.call [OF this]] have "mux_reachable ?w4" .
  then show thesis by (rule that) (simp_all add: mux_start_def)
qed

lemma clunk_received:
  "receive (R_Clunk 0) clunking_client =
     (Inr (Resp_Completion 0 Done_Clunk), snd (receive (R_Clunk 0) clunking_client))"
  by (simp add: receive_done_def bind_s_def return_s_def client_finish_def clunking_client_fields table_begin_def
      table_flush_def RequestTable_new_def NOTAG_def Let_def)

lemma clunk_answered:
  obtains w where "mux_reachable w" "fmlookup (threads w) 0 = Some (Returned (Some 0) (Inr (Resp_Completion 0 Done_Clunk)), None)"
    "written w = {(0, T_Clunk 0 1)}" "answers w = {(0, R_Clunk 0)}"
proof -
  obtain w where w: "mux_reachable w" "fmlookup (threads w) 0 = Some (Waiting 0 0, None)"
    "mx_protocol (mw_mux w) = clunking_client" "fmlookup (waiters (mx_responses (mw_mux w))) 0 = Some 0"
    "mx_sending (mw_mux w) = []" "mx_channels (mw_mux w) 0 = []" "reader_at w = Reading"
    "wire w = [(T_Clunk 0 1, 0)]" "arriving w = []" "written w = {(0, T_Clunk 0 1)}" "answers w = {}"
    by (rule clunk_waiting)
  let ?resp = "Resp_Completion 0 Done_Clunk"
  let ?w1 = "w\<lparr>wire := [], at_peer := fmupd 0 0 (at_peer w)\<rparr>"
  let ?w2 = "?w1\<lparr>at_peer := fmdrop 0 (at_peer ?w1), arriving := [(R_Clunk 0, 0)], answers := {(0, R_Clunk 0)}\<rparr>"
  let ?m3 = "(mw_mux w)\<lparr>mx_protocol := snd (receive (R_Clunk 0) clunking_client)\<rparr>"
  let ?w3 = "?w2\<lparr>mw_mux := ?m3, reader_at := Delivering ?resp, arriving := []\<rparr>"
  let ?m4 = "answer_waiter 0 (Inr ?resp) ?m3"
  let ?w4 = "?w3\<lparr>mw_mux := ?m4, reader_at := Reading\<rparr>"
  let ?m5 = "?m4\<lparr>mx_sending := [], mx_channels := (mx_channels ?m4)(0 := [Inr ?resp])\<rparr>"
  let ?w5 = "?w4\<lparr>mw_mux := ?m5\<rparr>"
  have "peer_step w ?w1" using accept [OF w(8)] by simp
  then have "peer_step ?w1 ?w2" using answer [of ?w1 "R_Clunk 0" 0] w(9,11) by simp
  have "mux_reachable ?w1" using mux_reachable.further [OF w(1) mux_step.peer [OF \<open>peer_step w ?w1\<close>]] .
  from mux_reachable.further [OF this mux_step.peer [OF \<open>peer_step ?w1 ?w2\<close>]] have r: "mux_reachable ?w2" .
  have "reader_step ?w2 ?w3" using receive [of ?w2 "R_Clunk 0" 0 "[]"] clunk_received w(3,7) by simp
  from mux_reachable.further [OF r mux_step.reader [OF this]] have r: "mux_reachable ?w3" .
  have "reader_step ?w3 ?w4" using deliver [of ?w3 ?resp] by simp
  from mux_reachable.further [OF r mux_step.reader [OF this]] have r: "mux_reachable ?w4" .
  have "mx_sending ?m4 = [(0, Inr ?resp)]" using w(4,5) by (simp add: answer_waiter_def remove_waiter_def)
  then have "mux_step ?w4 ?w5" using send [of ?w4 "[]" 0 "Inr ?resp" "[]"] w(6) by simp
  from mux_reachable.further [OF r this] have r: "mux_reachable ?w5" .
  have "call_step 0 ?w5 (go 0 (Returned (Some 0) (Inr ?resp)) None (?m5\<lparr>mx_channels := (mx_channels ?m5)(0 := [])\<rparr>) ?w5)"
    using recv [of ?w5 0 0 0 None "Inr ?resp" "[]"] w(2) by simp
  from mux_reachable.further [OF r mux_step.call [OF this]] show thesis by (rule that) (simp_all add: w(10))
qed



end
