(* ===== verification/R9P_Multiplex_Api.thy ===== *)
theory R9P_Multiplex_Api
  imports R9P_Blocking
begin

text \<open>
  The operations of the multiplexed client (\<^verbatim>\<open>multiplex/client.rs\<close>, \<^verbatim>\<open>multiplex/client/calls.rs\<close>) as one calling
  thread sees them. How a request is submitted and its response awaited, while other threads use the
  connection, is the matter of the theories on the connection itself; here \<^verbatim>\<open>submit_op\<close>, \<^verbatim>\<open>PendingCall::wait\<close>,
  \<^verbatim>\<open>wait_pending_response_timeout\<close> and \<^verbatim>\<open>cancel_waiter\<close> are functions of an environment, on a state that contains the
  protocol client and in which anything else may change from one call to the next.
\<close>

section \<open>The environment\<close>

text \<open>A pending call is of type \<open>'q\<close>; times are nanoseconds.\<close>

record ('s, 'q) mux_env =
  me_protocol :: "'s \<Rightarrow> client"
  me_set_protocol :: "client \<Rightarrow> 's \<Rightarrow> 's"
  me_submit :: "op \<Rightarrow> ('s, 'q) fallible"
  me_wait :: "'q \<Rightarrow> ('s, client_response) fallible"
  me_wait_timeout :: "'q \<Rightarrow> nat \<Rightarrow> ('s, client_response) fallible"
  me_cancel :: "tag \<Rightarrow> error \<Rightarrow> 's \<Rightarrow> 's"
  me_now :: "'s \<Rightarrow> nat"
  me_variant :: variant
  me_root_fid :: fid
  me_debug_completion :: "completion \<Rightarrow> bytes"
  me_debug_response :: "client_response \<Rightarrow> bytes"
  me_debug_str :: "bytes \<Rightarrow> bytes"

text \<open>The lock on the protocol state held for one method of it.\<close>

definition mx_build :: "('s, 'q) mux_env \<Rightarrow> (client, op) fallible \<Rightarrow> ('s, op) fallible" where
  "mx_build env f s =
     (case f (me_protocol env s) of
        (Inl e, p) \<Rightarrow> (Inl (protocol_error e), me_set_protocol env p s)
      | (Inr op, p) \<Rightarrow> (Inr op, me_set_protocol env p s))"

definition mx_msize :: "('s, 'q) mux_env \<Rightarrow> 's \<Rightarrow> u32" where
  "mx_msize env s = cl_msize (me_protocol env s)"

definition mx_max_write_payload :: "('s, 'q) mux_env \<Rightarrow> 's \<Rightarrow> u32" where
  "mx_max_write_payload env s = max (max_write_payload (mx_msize env s)) 1"

section \<open>Calls\<close>

definition mx_expect :: "('s, 'q) mux_env \<Rightarrow> tag \<Rightarrow> client_response \<Rightarrow> ('s, completion) fallible" where
  "mx_expect env expected_tag response =
     (case response of
        Resp_Completion tag completion \<Rightarrow>
          (if tag = expected_tag then return_s completion
           else throw_s (Error (str ''response tag mismatch or unexpected response: '' @ me_debug_response env response)))
      | Resp_Error tag ename \<Rightarrow>
          (if tag = expected_tag then throw_s (Error ename)
           else throw_s (Error (str ''response tag mismatch or unexpected response: '' @ me_debug_response env response))))"

definition mx_call_op :: "('s, 'q) mux_env \<Rightarrow> op \<Rightarrow> ('s, completion) fallible" where
  "mx_call_op env op =
     bind_s (me_submit env op) (\<lambda>awaited.
     bind_s (me_wait env awaited) (mx_expect env (op_tag op)))"

definition mx_wait_pending_timeout :: "('s, 'q) mux_env \<Rightarrow> tag \<Rightarrow> 'q \<Rightarrow> nat \<Rightarrow> ('s, completion) fallible" where
  "mx_wait_pending_timeout env expected_tag awaited timeout =
     bind_s (me_wait_timeout env awaited timeout) (mx_expect env expected_tag)"

definition mx_call_op_timeout :: "('s, 'q) mux_env \<Rightarrow> op \<Rightarrow> nat \<Rightarrow> ('s, completion) fallible" where
  "mx_call_op_timeout env op timeout =
     bind_s (me_submit env op) (\<lambda>awaited. mx_wait_pending_timeout env (op_tag op) awaited timeout)"

text \<open>Most operations exist with and without a timeout; \<open>t\<close> is which.\<close>

definition mx_call :: "('s, 'q) mux_env \<Rightarrow> nat option \<Rightarrow> op \<Rightarrow> ('s, completion) fallible" where
  "mx_call env t op = (case t of Some timeout \<Rightarrow> mx_call_op_timeout env op timeout | None \<Rightarrow> mx_call_op env op)"

section \<open>Requests\<close>

definition mx_clunk :: "('s, 'q) mux_env \<Rightarrow> nat option \<Rightarrow> fid \<Rightarrow> ('s, unit) fallible" where
  "mx_clunk env t f =
     bind_s (mx_build env (client_clunk f)) (\<lambda>op.
     bind_s (mx_call env t op) (\<lambda>completion. case completion of
       Done_Clunk \<Rightarrow> return_s ()
     | other \<Rightarrow> throw_s (unexpected ''Rclunk'' (me_debug_completion env other))))"

definition mx_release :: "('s, 'q) mux_env \<Rightarrow> nat option \<Rightarrow> fid \<Rightarrow> ('s, unit) fallible" where
  "mx_release env t f = ignore_s (mx_clunk env t f)"

definition mx_walk_short :: "('s, 'q) mux_env \<Rightarrow> nat option \<Rightarrow> fid \<Rightarrow> bytes list \<Rightarrow> ('s, usize + fid) fallible" where
  "mx_walk_short env t f names =
     bind_s (mx_build env (client_walk f names)) (\<lambda>op.
     bind_s (lift_s (op_fid op)) (\<lambda>newfid.
     bind_s (mx_call env t op) (\<lambda>completion. case completion of
       Done_Walk qids \<Rightarrow>
         (if length qids = length names then return_s (Inr newfid)
          else bind_s (mx_release env t newfid) (\<lambda>_. return_s (Inl (length qids))))
     | other \<Rightarrow>
         bind_s (mx_release env t newfid) (\<lambda>_.
         throw_s (unexpected ''Rwalk'' (me_debug_completion env other))))))"

definition mx_walk_refusal :: "('s, 'q) mux_env \<Rightarrow> nat option \<Rightarrow> fid \<Rightarrow> bytes list \<Rightarrow> usize \<Rightarrow> 's \<Rightarrow> error option \<times> 's" where
  "mx_walk_refusal env t f names walked s =
     (if \<not> walked < length names then (None, s)
      else let stopped = names ! walked in
        case mx_walk_short env t f (take walked names) s of
          (Inr (Inr prefix), s) \<Rightarrow>
            (case mx_walk_short env t prefix [stopped] s of
               (r, s) \<Rightarrow>
                 let (refusal, s) =
                       (case r of
                          Inr (Inr reached) \<Rightarrow> (None, snd (mx_release env t reached s))
                        | Inr (Inl _) \<Rightarrow> (None, s)
                        | Inl e \<Rightarrow> (Some e, s))
                 in (refusal, snd (mx_release env t prefix s)))
        | (_, s) \<Rightarrow> (None, s))"

definition mx_walk :: "('s, 'q) mux_env \<Rightarrow> nat option \<Rightarrow> fid \<Rightarrow> bytes list \<Rightarrow> ('s, fid) fallible" where
  "mx_walk env t f names =
     bind_s (mx_walk_short env t f names) (\<lambda>r. case r of
       Inr newfid \<Rightarrow> return_s newfid
     | Inl walked \<Rightarrow> (\<lambda>s. case mx_walk_refusal env t f names walked s of
         (refusal, s) \<Rightarrow> (Inl (partial_walk (me_debug_str env) names walked refusal), s)))"

definition mx_clone_fid :: "('s, 'q) mux_env \<Rightarrow> nat option \<Rightarrow> fid \<Rightarrow> ('s, fid) fallible" where
  "mx_clone_fid env t f = mx_walk env t f []"

definition mx_walk_path :: "('s, 'q) mux_env \<Rightarrow> bytes \<Rightarrow> ('s, fid) fallible" where
  "mx_walk_path env path =
     (let names = path_names path in
      if names = [] then mx_clone_fid env None (me_root_fid env) else mx_walk env None (me_root_fid env) names)"

definition mx_walk_one :: "('s, 'q) mux_env \<Rightarrow> nat option \<Rightarrow> fid \<Rightarrow> bytes \<Rightarrow> ('s, fid) fallible" where
  "mx_walk_one env t f name = mx_walk env t f [name]"

definition mx_referrals_timeout :: "('s, 'q) mux_env \<Rightarrow> fid \<Rightarrow> nat \<Rightarrow> ('s, namespace_referral list) fallible" where
  "mx_referrals_timeout env f timeout =
     (if \<not> supports_referrals (me_variant env)
      then throw_s (Error_from ''server did not negotiate namespace referrals'')
      else bind_s (mx_build env (client_referrals f)) (\<lambda>op.
        bind_s (mx_call_op_timeout env op timeout) (\<lambda>completion. case completion of
          Done_Referrals rs \<Rightarrow> return_s rs
        | other \<Rightarrow> throw_s (unexpected ''Rreferrals'' (me_debug_completion env other)))))"

definition mx_open :: "('s, 'q) mux_env \<Rightarrow> nat option \<Rightarrow> fid \<Rightarrow> u8 \<Rightarrow> ('s, qid) fallible" where
  "mx_open env t f mode =
     bind_s (mx_build env (client_open f mode)) (\<lambda>op.
     bind_s (mx_call env t op) (\<lambda>completion. case completion of
       Done_Open q _ \<Rightarrow> return_s q
     | other \<Rightarrow> throw_s (unexpected ''Ropen'' (me_debug_completion env other))))"

definition mx_create :: "('s, 'q) mux_env \<Rightarrow> nat option \<Rightarrow> fid \<Rightarrow> bytes \<Rightarrow> u32 \<Rightarrow> u8 \<Rightarrow> ('s, fid \<times> qid) fallible" where
  "mx_create env t parent_fid name perm mode =
     bind_s (mx_clone_fid env t parent_fid) (\<lambda>f.
     bind_s (mx_build env (client_create f name perm mode)) (\<lambda>op.
     bind_s (attempt_s (mx_call env t op)) (\<lambda>reply. case reply of
       Inr (Done_Create q _) \<Rightarrow> return_s (f, q)
     | Inr other \<Rightarrow>
         bind_s (ignore_s (mx_clunk env t f)) (\<lambda>_.
         throw_s (unexpected ''Rcreate'' (me_debug_completion env other)))
     | Inl e \<Rightarrow> bind_s (ignore_s (mx_clunk env t f)) (\<lambda>_. throw_s e))))"

definition mx_remove :: "('s, 'q) mux_env \<Rightarrow> nat option \<Rightarrow> fid \<Rightarrow> ('s, unit) fallible" where
  "mx_remove env t f =
     bind_s (mx_build env (client_remove f)) (\<lambda>op.
     bind_s (mx_call env t op) (\<lambda>completion. case completion of
       Done_Remove \<Rightarrow> return_s ()
     | other \<Rightarrow> throw_s (unexpected ''Rremove'' (me_debug_completion env other))))"

definition mx_stat :: "('s, 'q) mux_env \<Rightarrow> nat option \<Rightarrow> fid \<Rightarrow> ('s, stat) fallible" where
  "mx_stat env t f =
     bind_s (mx_build env (client_stat f)) (\<lambda>op.
     bind_s (mx_call env t op) (\<lambda>completion. case completion of
       Done_Stat st \<Rightarrow> return_s st
     | other \<Rightarrow> throw_s (unexpected ''Rstat'' (me_debug_completion env other))))"

definition mx_wstat :: "('s, 'q) mux_env \<Rightarrow> nat option \<Rightarrow> fid \<Rightarrow> stat \<Rightarrow> ('s, unit) fallible" where
  "mx_wstat env t f st =
     bind_s (mx_build env (client_wstat f st)) (\<lambda>op.
     bind_s (mx_call env t op) (\<lambda>completion. case completion of
       Done_Wstat \<Rightarrow> return_s ()
     | other \<Rightarrow> throw_s (unexpected ''Rwstat'' (me_debug_completion env other))))"

definition mx_rename_at :: "('s, 'q) mux_env \<Rightarrow> nat option \<Rightarrow> fid \<Rightarrow> bytes \<Rightarrow> fid \<Rightarrow> bytes \<Rightarrow> ('s, unit) fallible" where
  "mx_rename_at env t olddirfid oldname newdirfid newname =
     (if \<not> supports_rename_at (me_variant env)
      then throw_s (Error_from ''server did not negotiate atomic renameat'')
      else bind_s (mx_build env (client_rename_at olddirfid oldname newdirfid newname)) (\<lambda>op.
        bind_s (mx_call env t op) (\<lambda>completion. case completion of
          Done_RenameAt \<Rightarrow> return_s ()
        | other \<Rightarrow> throw_s (unexpected ''Rrenameat'' (me_debug_completion env other)))))"

section \<open>Reading\<close>

definition mx_read :: "('s, 'q) mux_env \<Rightarrow> fid \<Rightarrow> u64 \<Rightarrow> u32 \<Rightarrow> ('s, bytes) fallible" where
  "mx_read env f offset count s =
     (let count = clamp_read_count (mx_msize env s) count in
      bind_s (mx_build env (client_read f offset count)) (\<lambda>op.
      bind_s (mx_call_op env op) (\<lambda>completion. case completion of
        Done_Read data \<Rightarrow> lift_s (checked_read_data data count)
      | other \<Rightarrow> throw_s (unexpected ''Rread'' (me_debug_completion env other)))) s)"

record 'q pending_read =
  pr_call :: 'q
  pr_tag :: tag
  pr_requested :: u32

definition mx_submit_read :: "('s, 'q) mux_env \<Rightarrow> fid \<Rightarrow> u64 \<Rightarrow> u32 \<Rightarrow> ('s, 'q pending_read) fallible" where
  "mx_submit_read env f offset count s =
     (let count = clamp_read_count (mx_msize env s) count in
      bind_s (mx_build env (client_read f offset count)) (\<lambda>op.
      bind_s (me_submit env op) (\<lambda>call.
      return_s \<lparr>pr_call = call, pr_tag = op_tag op, pr_requested = count\<rparr>)) s)"

definition mx_wait_read_timeout :: "('s, 'q) mux_env \<Rightarrow> 'q pending_read \<Rightarrow> nat \<Rightarrow> ('s, bytes) fallible" where
  "mx_wait_read_timeout env awaited timeout =
     bind_s (mx_wait_pending_timeout env (pr_tag awaited) (pr_call awaited) timeout) (\<lambda>completion. case completion of
       Done_Read data \<Rightarrow> lift_s (checked_read_data data (pr_requested awaited))
     | other \<Rightarrow> throw_s (unexpected ''Rread'' (me_debug_completion env other)))"

definition mx_wait_read :: "('s, 'q) mux_env \<Rightarrow> 'q pending_read \<Rightarrow> ('s, bytes) fallible" where
  "mx_wait_read env awaited =
     bind_s (me_wait env (pr_call awaited)) (\<lambda>response.
     bind_s (mx_expect env (pr_tag awaited) response) (\<lambda>completion. case completion of
       Done_Read data \<Rightarrow> lift_s (checked_read_data data (pr_requested awaited))
     | other \<Rightarrow> throw_s (unexpected ''Rread'' (me_debug_completion env other))))"

definition mx_read_timeout :: "('s, 'q) mux_env \<Rightarrow> fid \<Rightarrow> u64 \<Rightarrow> u32 \<Rightarrow> nat \<Rightarrow> ('s, bytes) fallible" where
  "mx_read_timeout env f offset count timeout =
     bind_s (mx_submit_read env f offset count) (\<lambda>awaited. mx_wait_read_timeout env awaited timeout)"

text \<open>The loops of \<open>read_full\<close> and \<open>read_full_timeout\<close>, which differ in the single read.\<close>

function mx_read_full_loop ::
  "(u64 \<Rightarrow> u32 \<Rightarrow> ('s, bytes) fallible) \<Rightarrow> u64 \<Rightarrow> u32 \<Rightarrow> bytes \<Rightarrow> ('s, bytes) fallible" where
  "mx_read_full_loop read_once offset left out s =
     (if left = 0 then (Inr out, s)
      else case read_once offset left s of
        (Inl e, s) \<Rightarrow> (Inl e, s)
      | (Inr data, s) \<Rightarrow>
          (if data = [] then (Inr out, s)
           else case u32_try_from (length data) of
             None \<Rightarrow> (Inl (Error_from ''read count overflow''), s)
           | Some n \<Rightarrow>
               (case checked_advance_offset offset (ucast n) of
                  Inl e \<Rightarrow> (Inl e, s)
                | Inr offset \<Rightarrow> mx_read_full_loop read_once offset (saturating_sub left n) (out @ data) s)))"
  by pat_completeness auto
termination
  by (relation "measure (\<lambda>(_, _, left, _, _). unat left)")
    (auto dest!: u32_try_from_pos simp: saturating_sub_def unat_gt_0 word_le_nat_alt unat_sub eq_commute [of _ "u32_try_from _"])

declare mx_read_full_loop.simps [simp del]

definition mx_read_full :: "('s, 'q) mux_env \<Rightarrow> fid \<Rightarrow> u64 \<Rightarrow> u32 \<Rightarrow> ('s, bytes) fallible" where
  "mx_read_full env f offset count = mx_read_full_loop (mx_read env f) offset count []"

definition mx_read_full_timeout :: "('s, 'q) mux_env \<Rightarrow> fid \<Rightarrow> u64 \<Rightarrow> u32 \<Rightarrow> nat \<Rightarrow> ('s, bytes) fallible" where
  "mx_read_full_timeout env f offset count timeout =
     mx_read_full_loop (\<lambda>offset left. mx_read_timeout env f offset left timeout) offset count []"

definition mx_read_delimited :: "('s, 'q) mux_env \<Rightarrow> fid \<Rightarrow> u64 \<Rightarrow> u32 \<Rightarrow> u8 \<Rightarrow> ('s, bytes) fallible" where
  "mx_read_delimited env f offset count delimiter = read_delimited_with offset count delimiter (mx_read env f)"

definition mx_read_delimited_timeout :: "('s, 'q) mux_env \<Rightarrow> fid \<Rightarrow> u64 \<Rightarrow> u32 \<Rightarrow> u8 \<Rightarrow> nat \<Rightarrow> ('s, bytes) fallible" where
  "mx_read_delimited_timeout env f offset count delimiter timeout =
     read_delimited_with offset count delimiter (\<lambda>offset left. mx_read_timeout env f offset left timeout)"

section \<open>Pipelined reads\<close>

text \<open>The loop of \<open>exact_read_segments\<close>; the check of the payload limit stands in it, so that it ends.\<close>

function exact_read_segments_loop :: "u64 \<Rightarrow> u32 \<Rightarrow> u32 \<Rightarrow> u32 \<Rightarrow> (u64 \<times> u32) list \<Rightarrow> (u64 \<times> u32) list result" where
  "exact_read_segments_loop offset count mx consumed segments =
     (if mx = 0 then Inl (Error_from ''invalid 9P read payload limit: zero'')
      else if consumed < count then
        (let segment_count = min mx (count - consumed) in
         case checked_add offset (ucast consumed) of
           None \<Rightarrow> Inl (Error_from ''parallel read offset overflow'')
         | Some segment_offset \<Rightarrow>
             exact_read_segments_loop offset count mx (saturating_add consumed segment_count)
               (segments @ [(segment_offset, segment_count)]))
      else Inr segments)"
  by pat_completeness auto

lemma segment_advance:
  assumes "consumed < count" "mx \<noteq> 0"
  shows "unat (saturating_add consumed (min mx (count - consumed))) = unat consumed + unat (min mx (count - consumed))"
    and "0 < unat (min mx (count - consumed))" "unat consumed + unat (min mx (count - consumed)) \<le> unat count"
proof -
  have "unat (count - consumed) = unat count - unat consumed" using assms(1) by (simp add: unat_sub order_less_imp_le)
  then have m: "unat (min mx (count - consumed)) = min (unat mx) (unat count - unat consumed)"
    by (simp add: min_def word_le_nat_alt)
  have c: "unat consumed < unat count" using assms(1) by (simp add: word_less_nat_alt)
  show "0 < unat (min mx (count - consumed))" using m c assms(2) by (simp add: unat_gt_0)
  show le: "unat consumed + unat (min mx (count - consumed)) \<le> unat count" using m c by simp
  show "unat (saturating_add consumed (min mx (count - consumed))) = unat consumed + unat (min mx (count - consumed))"
    using order.strict_trans1 [OF le unat_less_exp [of count]] by (simp add: saturating_add_def unat_word_ariths(1))
qed

termination exact_read_segments_loop
proof (relation "measure (\<lambda>(_, count, _, consumed, _). unat count - unat consumed)", goal_cases)
  case (2 offset count mx consumed segments segment_count segment_offset)
  then show ?case using segment_advance [of consumed count mx] by (simp add: word_less_nat_alt)
qed simp

declare exact_read_segments_loop.simps [simp del]

definition exact_read_segments :: "u64 \<Rightarrow> u32 \<Rightarrow> u32 \<Rightarrow> (u64 \<times> u32) list result" where
  "exact_read_segments offset count mx = exact_read_segments_loop offset count mx 0 []"

text \<open>\<^verbatim>\<open>slice::chunks\<close>.\<close>

function slice_chunks :: "nat \<Rightarrow> 'a list \<Rightarrow> 'a list list" where
  "slice_chunks n xs = (if xs = [] \<or> n = 0 then [] else take n xs # slice_chunks n (drop n xs))"
  by pat_completeness auto
termination by (relation "measure (\<lambda>(_, xs). length xs)") auto

declare slice_chunks.simps [simp del]

fun mx_submit_window ::
  "('s, 'q) mux_env \<Rightarrow> fid \<Rightarrow> (u64 \<times> u32) list \<Rightarrow> 's \<Rightarrow> (u32 \<times> 'q pending_read result) list \<times> 's" where
  "mx_submit_window env f [] s = ([], s)"
| "mx_submit_window env f ((segment_offset, segment_count) # segments) s =
     (case mx_submit_read env f segment_offset segment_count s of
        (r, s) \<Rightarrow> (case mx_submit_window env f segments s of (rs, s) \<Rightarrow> ((segment_count, r) # rs, s)))"

definition get_or_insert :: "'a option \<Rightarrow> 'a \<Rightarrow> 'a option" where
  "get_or_insert x y = (case x of None \<Rightarrow> Some y | Some z \<Rightarrow> Some z)"

definition mx_resolve_read :: "('s, 'q) mux_env \<Rightarrow> nat \<Rightarrow> nat \<Rightarrow> 'q pending_read result \<Rightarrow> ('s, bytes) fallible" where
  "mx_resolve_read env timeout started p s =
     (case p of
        Inr awaited \<Rightarrow>
          (if timeout = 0 then mx_wait_read env awaited s
           else mx_wait_read_timeout env awaited (max (timeout - (me_now env s - started)) 1) s)
      | Inl e \<Rightarrow> (Inl e, s))"

fun mx_drain_window ::
  "('s, 'q) mux_env \<Rightarrow> nat \<Rightarrow> nat \<Rightarrow> (u32 \<times> 'q pending_read result) list \<Rightarrow> bytes \<Rightarrow> error option \<Rightarrow> 's \<Rightarrow>
     (bytes \<times> error option) \<times> 's" where
  "mx_drain_window env timeout started [] output first_error s = ((output, first_error), s)"
| "mx_drain_window env timeout started ((expected, p) # ps) output first_error s =
     (case mx_resolve_read env timeout started p s of
        (Inr data, s) \<Rightarrow>
          (if length data = unat expected then mx_drain_window env timeout started ps (output @ data) first_error s
           else mx_drain_window env timeout started ps output
             (get_or_insert first_error (Error_from ''parallel read input/output incomplete'')) s)
      | (Inl e, s) \<Rightarrow> mx_drain_window env timeout started ps output (get_or_insert first_error e) s)"

fun mx_read_windows ::
  "('s, 'q) mux_env \<Rightarrow> fid \<Rightarrow> nat \<Rightarrow> nat \<Rightarrow> (u64 \<times> u32) list list \<Rightarrow> bytes \<Rightarrow> ('s, bytes) fallible" where
  "mx_read_windows env f timeout started [] output s = (Inr output, s)"
| "mx_read_windows env f timeout started (segments # windows) output s =
     (case mx_submit_window env f segments s of
        (ps, s) \<Rightarrow>
          (case mx_drain_window env timeout started ps output None s of
             ((output, Some e), s) \<Rightarrow> (Inl e, s)
           | ((output, None), s) \<Rightarrow> mx_read_windows env f timeout started windows output s))"

definition mx_read_exact_parallel_timeout ::
  "('s, 'q) mux_env \<Rightarrow> fid \<Rightarrow> u64 \<Rightarrow> u32 \<Rightarrow> u32 \<Rightarrow> nat \<Rightarrow> ('s, bytes) fallible" where
  "mx_read_exact_parallel_timeout env f offset count max_in_flight timeout s =
     (if count = 0 then (Inr [], s)
      else if max_in_flight = 0 then (Inl (Error_from ''invalid parallel read in-flight bound: expected nonzero''), s)
      else case exact_read_segments offset count (max_iounit (mx_msize env s)) of
        Inl e \<Rightarrow> (Inl e, s)
      | Inr segments \<Rightarrow>
          mx_read_windows env f timeout (me_now env s) (slice_chunks (unat max_in_flight) segments) [] s)"

section \<open>Writing\<close>

definition mx_write_once :: "('s, 'q) mux_env \<Rightarrow> nat option \<Rightarrow> fid \<Rightarrow> u64 \<Rightarrow> bytes \<Rightarrow> ('s, u32) fallible" where
  "mx_write_once env t f offset data =
     bind_s (mx_build env (client_write f offset data)) (\<lambda>op.
     bind_s (mx_call env t op) (\<lambda>completion. case completion of
       Done_Write count \<Rightarrow> lift_s (checked_write_count count (length data))
     | other \<Rightarrow> throw_s (unexpected ''Rwrite'' (me_debug_completion env other))))"

definition mx_write :: "('s, 'q) mux_env \<Rightarrow> nat option \<Rightarrow> fid \<Rightarrow> u64 \<Rightarrow> bytes \<Rightarrow> ('s, u32) fallible" where
  "mx_write env t f offset data s =
     write_in_chunks (mx_max_write_payload env s) offset data (mx_write_once env t f) s"

datatype write_then_read_error = Rejected error | DeliveryUnknown error

fun into_error :: "write_then_read_error \<Rightarrow> error" where
  "into_error (Rejected e) = e"
| "into_error (DeliveryUnknown e) = e"

type_synonym ('s, 'a) delivery = "'s \<Rightarrow> (write_then_read_error + 'a) \<times> 's"

text \<open>The pair of requests is built under one hold of the lock.\<close>

definition mx_build_pair ::
  "('s, 'q) mux_env \<Rightarrow> fid \<Rightarrow> u64 \<Rightarrow> bytes \<Rightarrow> u64 \<Rightarrow> u32 \<Rightarrow> ('s, op \<times> op) delivery" where
  "mx_build_pair env f write_offset data read_offset read_count s =
     (case client_write f write_offset data (me_protocol env s) of
        (Inl e, p) \<Rightarrow> (Inl (Rejected (protocol_error e)), me_set_protocol env p s)
      | (Inr write, p) \<Rightarrow>
          (case client_read f read_offset read_count p of
             (Inr read, p) \<Rightarrow> (Inr (write, read), me_set_protocol env p s)
           | (Inl e, p) \<Rightarrow> (Inl (Rejected (protocol_error e)), me_set_protocol env (abandon (op_tag write) p) s)))"

definition map_delivery :: "(error \<Rightarrow> write_then_read_error) \<Rightarrow> 'a result \<Rightarrow> write_then_read_error + 'a" where
  "map_delivery f r = (case r of Inl e \<Rightarrow> Inl (f e) | Inr x \<Rightarrow> Inr x)"

definition classify_write ::
  "('s, 'q) mux_env \<Rightarrow> tag \<Rightarrow> bytes \<Rightarrow> client_response result \<Rightarrow> write_then_read_error + u32" where
  "classify_write env write_tag data r =
     (case r of
        Inl e \<Rightarrow> Inl (DeliveryUnknown e)
      | Inr response \<Rightarrow>
          (let other = Inl (DeliveryUnknown (Error (str ''expected Rwrite, got '' @ me_debug_response env response))) in
           case response of
             Resp_Completion tag (Done_Write count) \<Rightarrow>
               (if tag = write_tag then map_delivery DeliveryUnknown (checked_write_count count (length data)) else other)
           | Resp_Error tag ename \<Rightarrow> (if tag = write_tag then Inl (Rejected (Error ename)) else other)
           | _ \<Rightarrow> other))"

definition classify_read ::
  "('s, 'q) mux_env \<Rightarrow> tag \<Rightarrow> u32 \<Rightarrow> client_response result \<Rightarrow> write_then_read_error + bytes" where
  "classify_read env read_tag read_count r =
     (case r of
        Inl e \<Rightarrow> Inl (DeliveryUnknown e)
      | Inr response \<Rightarrow>
          (let other = Inl (DeliveryUnknown (Error (str ''expected Rread, got '' @ me_debug_response env response))) in
           case response of
             Resp_Completion tag (Done_Read data) \<Rightarrow>
               (if tag = read_tag then map_delivery DeliveryUnknown (checked_read_data data read_count) else other)
           | Resp_Error tag ename \<Rightarrow> (if tag = read_tag then Inl (DeliveryUnknown (Error ename)) else other)
           | _ \<Rightarrow> other))"

text \<open>Both replies are awaited before either is looked at.\<close>

definition mx_write_once_then_read_timeout ::
  "('s, 'q) mux_env \<Rightarrow> fid \<Rightarrow> u64 \<Rightarrow> bytes \<Rightarrow> u64 \<Rightarrow> u32 \<Rightarrow> nat \<Rightarrow> ('s, u32 \<times> bytes) delivery" where
  "mx_write_once_then_read_timeout env f write_offset data read_offset read_count timeout s =
     (let read_count = clamp_read_count (mx_msize env s) read_count in
      case mx_build_pair env f write_offset data read_offset read_count s of
        (Inl e, s) \<Rightarrow> (Inl e, s)
      | (Inr (write, read), s) \<Rightarrow>
          (case me_submit env write s of
             (Inl e, s) \<Rightarrow>
               (Inl (DeliveryUnknown e), me_set_protocol env (abandon (op_tag read) (me_protocol env s)) s)
           | (Inr write_awaited, s) \<Rightarrow>
               (case me_submit env read s of
                  (Inl e, s) \<Rightarrow>
                    (Inl (DeliveryUnknown e),
                     me_cancel env (op_tag write) (Error_from ''pipelined 9P read could not be submitted'') s)
                | (Inr read_awaited, s) \<Rightarrow>
                    (case me_wait_timeout env write_awaited timeout s of
                       (write_result, s) \<Rightarrow>
                         (case me_wait_timeout env read_awaited timeout s of
                            (read_result, s) \<Rightarrow>
                              (case classify_write env (op_tag write) data write_result of
                                 Inl e \<Rightarrow> (Inl e, s)
                               | Inr written \<Rightarrow>
                                   (case classify_read env (op_tag read) read_count read_result of
                                      Inl e \<Rightarrow> (Inl e, s)
                                    | Inr response \<Rightarrow> (Inr (written, response), s))))))))"

text \<open>The loop over the chunks before the last one; the payload is at least one byte.\<close>

function mx_write_prefix ::
  "('s, 'q) mux_env \<Rightarrow> fid \<Rightarrow> nat \<Rightarrow> nat \<Rightarrow> u64 \<Rightarrow> bytes \<Rightarrow> u32 \<Rightarrow> ('s, u64 \<times> bytes \<times> u32) delivery" where
  "mx_write_prefix env f timeout mx write_offset data sum_written s =
     (if 0 < mx \<and> mx < length data then
        (case mx_write_once env (Some timeout) f write_offset (take mx data) s of
           (Inl e, s) \<Rightarrow> (Inl (DeliveryUnknown e), s)
         | (Inr count, s) \<Rightarrow>
             (if unat count \<noteq> mx then (Inl (DeliveryUnknown (Error_from ''short 9P write before pipelined read'')), s)
              else case checked_add sum_written count of
                None \<Rightarrow> (Inl (DeliveryUnknown (Error_from ''aggregate write count overflow'')), s)
              | Some sum_written \<Rightarrow>
                  (case checked_advance_offset write_offset (ucast count) of
                     Inl e \<Rightarrow> (Inl (DeliveryUnknown e), s)
                   | Inr write_offset \<Rightarrow> mx_write_prefix env f timeout mx write_offset (drop mx data) sum_written s)))
      else (Inr (write_offset, data, sum_written), s))"
  by pat_completeness auto
termination by (relation "measure (\<lambda>(_, _, _, _, _, data, _, _). length data)") auto

declare mx_write_prefix.simps [simp del]

definition mx_write_then_read_timeout ::
  "('s, 'q) mux_env \<Rightarrow> fid \<Rightarrow> u64 \<Rightarrow> bytes \<Rightarrow> u64 \<Rightarrow> u32 \<Rightarrow> nat \<Rightarrow> ('s, u32 \<times> bytes) delivery" where
  "mx_write_then_read_timeout env f write_offset data read_offset read_count timeout s =
     (case mx_write_prefix env f timeout (unat (mx_max_write_payload env s)) write_offset data 0 s of
        (Inl e, s) \<Rightarrow> (Inl e, s)
      | (Inr (write_offset, data, sum_written), s) \<Rightarrow>
          (case mx_write_once_then_read_timeout env f write_offset data read_offset read_count timeout s of
             (Inl e, s) \<Rightarrow> (Inl e, s)
           | (Inr (count, response), s) \<Rightarrow>
               (case checked_add sum_written count of
                  None \<Rightarrow> (Inl (DeliveryUnknown (Error_from ''aggregate write count overflow'')), s)
                | Some sum_written \<Rightarrow> (Inr (sum_written, response), s))))"

text \<open>The closure of \<open>write_then_read_delimited_timeout\<close> hands out the pipelined response first; what is left of
  it is part of the closure's state.\<close>

definition mx_first_then_read ::
  "('s, 'q) mux_env \<Rightarrow> fid \<Rightarrow> nat \<Rightarrow> u64 \<Rightarrow> u32 \<Rightarrow> (bytes option \<times> 's, bytes) fallible" where
  "mx_first_then_read env f timeout offset left st =
     (case st of
        (Some first, s) \<Rightarrow> (Inr first, (None, s))
      | (None, s) \<Rightarrow> (case mx_read_timeout env f offset left timeout s of (r, s) \<Rightarrow> (r, (None, s))))"

definition mx_write_then_read_delimited_timeout ::
  "('s, 'q) mux_env \<Rightarrow> fid \<Rightarrow> u64 \<Rightarrow> bytes \<Rightarrow> u64 \<Rightarrow> u32 \<Rightarrow> u8 \<Rightarrow> nat \<Rightarrow> ('s, u32 \<times> bytes) delivery" where
  "mx_write_then_read_delimited_timeout env f write_offset data read_offset read_count delimiter timeout s =
     (case mx_write_then_read_timeout env f write_offset data read_offset read_count timeout s of
        (Inl e, s) \<Rightarrow> (Inl e, s)
      | (Inr (written, first), s) \<Rightarrow>
          (case read_delimited_with read_offset read_count delimiter (mx_first_then_read env f timeout) (Some first, s) of
             (Inl e, (_, s)) \<Rightarrow> (Inl (DeliveryUnknown e), s)
           | (Inr response, (_, s)) \<Rightarrow> (Inr (written, response), s)))"

section \<open>Connecting\<close>

text \<open>Before the reader thread is started, the two ends of the stream are used in turn, as by the blocking
  client; \<open>read_response\<close> is the same function.\<close>

definition call_message_sync :: "'p env \<Rightarrow> tmessage \<Rightarrow> ('p bclient, client_response) fallible" where
  "call_message_sync env m c =
     (case encode_tmessage_checked m (cl_msize (protocol c)) of
        Inl e \<Rightarrow> (Inl (Error (str ''encode 9P frame: '' @ from_utf8_lossy (error_message e))), c\<lparr>protocol := abandon (t_tag m) (protocol c)\<rparr>)
      | Inr frame \<Rightarrow>
          (case write_all frame (bc_out c) of
             (Inl e, w) \<Rightarrow> (Inl (io_error (str ''write 9P frame'') e), c\<lparr>bc_out := w, protocol := abandon (t_tag m) (protocol c)\<rparr>)
           | (Inr _, w) \<Rightarrow>
               bind_s read_response (\<lambda>response. protocol_op (receive response)) (exchange env (c\<lparr>bc_out := w\<rparr>))))"

definition call_op_sync :: "'p env \<Rightarrow> op \<Rightarrow> ('p bclient, completion) fallible" where
  "call_op_sync env op =
     bind_s (call_message_sync env (op_message op)) (\<lambda>response.
       case response of
         Resp_Completion tag completion \<Rightarrow>
           (if tag = op_tag op then return_s completion
            else throw_s (Error (str ''response tag mismatch or unexpected response: '' @ debug_response env response)))
       | Resp_Error tag ename \<Rightarrow>
           (if tag = op_tag op then throw_s (Error ename)
            else throw_s (Error (str ''response tag mismatch or unexpected response: '' @ debug_response env response))))"

definition mx_connect_with_variant ::
  "'p env \<Rightarrow> bytes \<Rightarrow> bytes \<Rightarrow> u32 \<Rightarrow> variant \<Rightarrow> writer \<Rightarrow> reader \<Rightarrow> 'p \<Rightarrow> unit result \<times> 'p bclient" where
  "mx_connect_with_variant env uname aname msz requested_variant w r p =
     (let fresh = \<lparr>bc_out = w, bc_in = r, bc_peer = p, protocol = Client_new, bc_variant = Plain,
                   root_fid = NOFID, root_qid = Qid_file 0\<rparr>;
          (version_msg, proto) = version_request_for msz requested_variant (protocol fresh) in
      bind_s (call_message_sync env version_msg) (\<lambda>response.
      bind_s (case response of
          Resp_Completion _ (Done_Version _ ver) \<Rightarrow>
            lift_s (ok_or (accept_response requested_variant ver)
              (Error (str ''server negotiated unsupported version '' @ from_utf8_lossy ver)))
        | other \<Rightarrow> throw_s (unexpected ''Rversion'' (debug_response env other))) (\<lambda>negotiated_variant.
      bind_s (modify_s (\<lambda>c. c\<lparr>bc_variant := negotiated_variant\<rparr>)) (\<lambda>_.
      bind_s (protocol_op (client_attach uname aname)) (\<lambda>attach.
      bind_s (lift_s (op_fid attach)) (\<lambda>f.
      bind_s (call_op_sync env attach) (\<lambda>completion. case completion of
        Done_Attach q \<Rightarrow> modify_s (\<lambda>c. c\<lparr>root_fid := f, root_qid := q\<rparr>)
      | other \<Rightarrow> throw_s (unexpected ''Rattach'' (debug_completion env other)))))))) (fresh\<lparr>protocol := proto\<rparr>))"

end
