(* ===== verification/R9P_Multiplex_Api_Props.thy ===== *)
theory R9P_Multiplex_Api_Props
  imports R9P_Multiplex_Api R9P_System
begin

text \<open>
  What the operations of the multiplexed client do: over a connection that answers one call at a time they
  are those of the blocking client, a pipelined read returns exactly the bytes asked for, and what the two
  kinds of errors of a pipelined write and read mean.
\<close>

section \<open>One call at a time\<close>

definition serial_env :: "'p env \<Rightarrow> fid \<Rightarrow> variant \<Rightarrow> ('p bclient, op) mux_env" where
  "serial_env env f v =
     \<lparr>me_protocol = protocol, me_set_protocol = (\<lambda>p c. c\<lparr>protocol := p\<rparr>), me_submit = return_s,
      me_wait = (\<lambda>op. call_message env (op_message op)), me_wait_timeout = (\<lambda>op _. call_message env (op_message op)),
      me_cancel = (\<lambda>_ _ c. c), me_now = (\<lambda>_. 0), me_variant = v, me_root_fid = f,
      me_debug_completion = debug_completion env, me_debug_response = debug_response env, me_debug_str = debug_str env\<rparr>"

lemma bind_return: "bind_s (return_s x) f = f x"
  by (simp add: bind_s_def return_s_def fun_eq_iff)

lemma serial_build: "mx_build (serial_env env f v) = protocol_op"
  by (intro ext) (simp add: mx_build_def protocol_op_def serial_env_def split: prod.splits sum.splits)

lemma serial_fields:
  "me_debug_completion (serial_env env f v) = debug_completion env" "me_debug_str (serial_env env f v) = debug_str env"
  "me_root_fid (serial_env env f v) = f" "me_variant (serial_env env f v) = v"
  "mx_msize (serial_env env f v) c = cl_msize (protocol c)" "me_debug_response (serial_env env f v) = debug_response env"
  by (simp_all add: serial_env_def mx_msize_def)

lemma serial_expect: "bind_s (call_message env (op_message op)) (mx_expect (serial_env env f v) (op_tag op)) = call_op env op"
  unfolding call_op_def mx_expect_def [abs_def] serial_fields ..

lemma serial_call: "mx_call (serial_env env f v) t op = call_op env op" "mx_call_op (serial_env env f v) op = call_op env op"
proof -
  show b: "mx_call_op (serial_env env f v) op = call_op env op"
    unfolding mx_call_op_def serial_expect [of env op f v, symmetric] by (simp add: serial_env_def bind_return)
  have "mx_call_op_timeout (serial_env env f v) op d = call_op env op" for d
    unfolding mx_call_op_timeout_def mx_wait_pending_timeout_def serial_expect [of env op f v, symmetric] by (simp add: serial_env_def bind_return)
  with b show "mx_call (serial_env env f v) t op = call_op env op" by (simp add: mx_call_def split: option.splits)
qed

lemmas serial_simps = serial_build serial_call serial_fields

lemma serial_clunk: "mx_clunk (serial_env env f v) t = bc_clunk env"
  unfolding mx_clunk_def [abs_def] bc_clunk_def [abs_def] serial_simps ..

lemma serial_walk_short: "mx_walk_short (serial_env env f v) t = walk_short env"
  unfolding mx_walk_short_def [abs_def] walk_short_def [abs_def] mx_release_def serial_clunk serial_simps ..

lemma serial_walk_refusal: "mx_walk_refusal (serial_env env f v) t = walk_refusal env"
  unfolding mx_walk_refusal_def [abs_def] walk_refusal_def [abs_def] mx_release_def serial_clunk serial_walk_short ignore_s_def snd_conv ..

lemma serial_walk: "mx_walk (serial_env env f v) t = bc_walk env"
  unfolding mx_walk_def [abs_def] bc_walk_def [abs_def] serial_walk_short serial_walk_refusal serial_simps ..

lemma serial_write_once: "mx_write_once (serial_env env f v) t = write_once env"
  unfolding mx_write_once_def [abs_def] write_once_def [abs_def] serial_simps ..

lemma serial_read: "mx_read (serial_env env f v) = bc_read env"
  unfolding mx_read_def [abs_def] bc_read_def [abs_def] serial_simps ..


section \<open>Pipelined reads\<close>

text \<open>Segments that follow each other from position \<open>a\<close> up to \<open>b\<close>.\<close>

fun tiles :: "nat \<Rightarrow> nat \<Rightarrow> (u64 \<times> u32) list \<Rightarrow> bool" where
  "tiles a b [] \<longleftrightarrow> a = b"
| "tiles a b ((off, n) # segs) \<longleftrightarrow> unat off = a \<and> tiles (a + unat n) b segs"

lemma tiles_append: "tiles a b (xs @ ys) \<longleftrightarrow> (\<exists>m. tiles a m xs \<and> tiles m b ys)"
  by (induction a b xs rule: tiles.induct) auto

lemma segments_loop_tile:
  assumes "exact_read_segments_loop offset count mx consumed acc = Inr segs" "consumed \<le> count"
    "tiles (unat offset) (unat offset + unat consumed) acc"
  shows "tiles (unat offset) (unat offset + unat count) segs"
  using assms
proof (induction offset count mx consumed acc rule: exact_read_segments_loop.induct)
  case (1 offset count mx consumed acc)
  show ?case
  proof (cases "consumed < count")
    case True
    let ?n = "min mx (count - consumed)"
    from "1.prems"(1) True obtain off where mx: "mx \<noteq> 0" and off: "checked_add offset (ucast consumed) = Some off"
      and rec: "exact_read_segments_loop offset count mx (saturating_add consumed ?n) (acc @ [(off, ?n)]) = Inr segs"
      by (auto simp: exact_read_segments_loop.simps [of offset count mx consumed] Let_def split: if_splits option.splits)
    note adv = segment_advance [OF True mx]
    have "unat off = unat offset + unat consumed" using off by (simp add: checked_add_Some_iff)
    then show ?thesis
      using "1.IH" [OF mx True refl off rec] adv "1.prems"(3) by (simp add: tiles_append word_le_nat_alt add.assoc)
  next
    case False
    then have "segs = acc" using "1.prems"(1) unfolding exact_read_segments_loop.simps [of offset count mx consumed] by (simp split: if_splits)
    moreover have "consumed = count" using False "1.prems"(2) by simp
    ultimately show ?thesis using "1.prems"(3) by simp
  qed
qed

lemma concat_slice_chunks: "0 < n \<Longrightarrow> concat (slice_chunks n xs) = xs"
proof (induction n xs rule: slice_chunks.induct)
  case (1 n xs)
  then show ?case by (simp add: slice_chunks.simps [of n xs])
qed

text \<open>The file answers reads with its bytes: \<open>answers_from\<close> is what a submitted read may return, \<open>answered\<close> that
  it returns all that was asked for.\<close>

definition answers_from :: "('s, 'q) mux_env \<Rightarrow> bytes \<Rightarrow> u64 \<Rightarrow> 'q pending_read \<Rightarrow> bool" where
  "answers_from env content off pr \<longleftrightarrow>
     (\<forall>timeout started s data s'. mx_resolve_read env timeout started (Inr pr) s = (Inr data, s') \<longrightarrow>
        data = take (length data) (drop (unat off) content))"

definition reads_content :: "('s, 'q) mux_env \<Rightarrow> fid \<Rightarrow> bytes \<Rightarrow> bool" where
  "reads_content env f content \<longleftrightarrow>
     (\<forall>off n s pr s'. mx_submit_read env f off n s = (Inr pr, s') \<longrightarrow> answers_from env content off pr)"

definition answered :: "('s, 'q) mux_env \<Rightarrow> bytes \<Rightarrow> u64 \<Rightarrow> u32 \<Rightarrow> 'q pending_read \<Rightarrow> bool" where
  "answered env content off n pr \<longleftrightarrow>
     (\<forall>timeout started s. \<exists>s'. mx_resolve_read env timeout started (Inr pr) s = (Inr (take (unat n) (drop (unat off) content)), s'))"

definition reads_succeed :: "('s, 'q) mux_env \<Rightarrow> fid \<Rightarrow> bytes \<Rightarrow> bool" where
  "reads_succeed env f content \<longleftrightarrow>
     (\<forall>off n s. unat off + unat n \<le> length content \<longrightarrow>
        (\<exists>pr s'. mx_submit_read env f off n s = (Inr pr, s') \<and> answered env content off n pr))"

abbreviation file_slice :: "bytes \<Rightarrow> u64 \<times> u32 \<Rightarrow> bytes" where
  "file_slice content \<equiv> (\<lambda>(off, n). take (unat n) (drop (unat off) content))"

lemma submit_window_answers:
  assumes "reads_content env f content" "mx_submit_window env f segs s = (ps, s')"
  shows "list_all2 (\<lambda>(off, n) (e, p). e = n \<and> (\<forall>pr. p = Inr pr \<longrightarrow> answers_from env content off pr)) segs ps"
  using assms(2)
proof (induction segs arbitrary: s ps)
  case (Cons seg segs)
  obtain off n where [simp]: "seg = (off, n)" by (cases seg)
  obtain r s1 where r: "mx_submit_read env f off n s = (r, s1)" by fastforce
  obtain rs s2 where rs: "mx_submit_window env f segs s1 = (rs, s2)" by fastforce
  have "ps = (n, r) # rs" using Cons.prems r rs by simp
  moreover have "answers_from env content off pr" if "r = Inr pr" for pr
    using assms(1) r that unfolding reads_content_def by blast
  ultimately show ?case using Cons.IH [of s1 rs] rs Cons.prems r by simp
qed simp

lemma drain_error: "mx_drain_window env timeout started ps acc (Some e) s = ((out, err), s') \<Longrightarrow> err \<noteq> None"
  by (induction ps arbitrary: acc e s) (auto simp: get_or_insert_def split: prod.splits sum.splits if_splits)

lemma drain_window_slices:
  assumes "list_all2 (\<lambda>(off, n) (e, p). e = n \<and> (\<forall>pr. p = Inr pr \<longrightarrow> answers_from env content off pr)) segs ps"
    and "mx_drain_window env timeout started ps acc None s = ((out, None), s')"
  shows "out = acc @ concat (map (file_slice content) segs) \<and> (\<forall>(off, n) \<in> set segs. length (file_slice content (off, n)) = unat n)"
  using assms
proof (induction segs ps arbitrary: acc s rule: list_all2_induct)
  case (Cons seg segs ep ps)
  obtain off n e p where [simp]: "seg = (off, n)" "ep = (e, p)" by (cases seg; cases ep)
  from Cons.prems obtain data s1 where r: "mx_resolve_read env timeout started p s = (Inr data, s1)" "length data = unat e"
    and rest: "mx_drain_window env timeout started ps (acc @ data) None s1 = ((out, None), s')"
    by (auto simp: get_or_insert_def dest!: drain_error split: prod.splits sum.splits if_splits)
  obtain pr where p: "p = Inr pr" using r(1) by (cases p) (auto simp: mx_resolve_read_def)
  have "length data = unat n" "answers_from env content off pr" using Cons.hyps(1) r(2) p by auto
  moreover have "data = take (length data) (drop (unat off) content)"
    using calculation(2) r(1) p unfolding answers_from_def by blast
  ultimately have "length data = unat n" "data = take (unat n) (drop (unat off) content)" by simp_all
  then show ?case using Cons.IH [OF rest] by auto
qed simp

lemma read_windows_slices:
  assumes "reads_content env f content" and "mx_read_windows env f timeout started windows acc s = (Inr out, s')"
  shows "out = acc @ concat (map (file_slice content) (concat windows)) \<and> (\<forall>(off, n) \<in> set (concat windows). length (file_slice content (off, n)) = unat n)"
  using assms(2)
proof (induction windows arbitrary: acc s)
  case (Cons segs windows)
  obtain ps s1 where p: "mx_submit_window env f segs s = (ps, s1)" by fastforce
  with Cons.prems obtain out1 s2 where d: "mx_drain_window env timeout started ps acc None s1 = ((out1, None), s2)"
    and rest: "mx_read_windows env f timeout started windows out1 s2 = (Inr out, s')"
    by (auto split: prod.splits option.splits)
  show ?case
    using drain_window_slices [OF submit_window_answers [OF assms(1) p] d] Cons.IH [OF rest] by auto
qed simp

lemma tiles_slices:
  assumes "tiles a b segs"
  shows "a \<le> b \<and> concat (map (file_slice content) segs) = take (b - a) (drop a content)"
  using assms
proof (induction a b segs rule: tiles.induct)
  case (2 a b off n segs)
  let ?k = "b - (a + unat n)"
  have rest: "a + unat n \<le> b" "concat (map (file_slice content) segs) = take ?k (drop (a + unat n) content)" and off: "unat off = a"
    using 2 by simp_all
  have "take (unat n + ?k) (drop a content) = take (unat n) (drop a content) @ take ?k (drop (a + unat n) content)"
    using take_add [of "unat n" ?k "drop a content"] by (simp add: add.commute)
  moreover have "unat n + ?k = b - a" using rest(1) by linarith
  ultimately show ?case using rest off by simp
qed simp

lemma tiles_within: "tiles a b segs \<Longrightarrow> (off, n) \<in> set segs \<Longrightarrow> unat off + unat n \<le> b"
proof (induction a b segs rule: tiles.induct)
  case (2 a b off' n' segs)
  then show ?case using tiles_slices [of "a + unat n'" b segs] by auto
qed simp

lemma tiles_length:
  "tiles a b segs \<Longrightarrow> \<forall>(off, n) \<in> set segs. length (file_slice content (off, n)) = unat n \<Longrightarrow>
     length (concat (map (file_slice content) segs)) = b - a"
proof (induction a b segs rule: tiles.induct)
  case (2 a b off n segs)
  then have "length (concat (map (file_slice content) segs)) = b - (a + unat n)" "length (file_slice content (off, n)) = unat n"
    "a + unat n \<le> b" using tiles_slices [of "a + unat n" b segs] by auto
  then show ?case by simp
qed simp

lemma segments_exist:
  assumes "mx \<noteq> 0" "unat offset + unat count \<le> 2 ^ 64"
  shows "\<exists>segs. exact_read_segments_loop offset count mx consumed acc = Inr segs"
  using assms
proof (induction offset count mx consumed acc rule: exact_read_segments_loop.induct)
  case (1 offset count mx consumed acc)
  show ?case
  proof (cases "consumed < count")
    case True
    then have "checked_add offset (ucast consumed) = Some (offset + ucast consumed)"
      using "1.prems"(2) by (simp add: checked_add_def word_less_nat_alt)
    then show ?thesis using "1.IH" [OF "1.prems"(1) True refl] "1.prems" True
      by (simp add: exact_read_segments_loop.simps [of offset count mx consumed acc] Let_def)
  qed (simp add: exact_read_segments_loop.simps [of offset count mx consumed acc] "1.prems"(1))
qed

lemma submit_window_succeeds:
  assumes "reads_succeed env f content" "\<forall>(off, n) \<in> set segs. unat off + unat n \<le> length content"
    "mx_submit_window env f segs s = (ps, s')"
  shows "list_all2 (\<lambda>(off, n) (e, p). e = n \<and> (\<exists>pr. p = Inr pr \<and> answered env content off n pr)) segs ps"
  using assms(2,3)
proof (induction segs arbitrary: s ps)
  case (Cons seg segs)
  obtain off n where [simp]: "seg = (off, n)" by (cases seg)
  have "unat off + unat n \<le> length content" using Cons.prems(1) by simp
  then obtain pr s1 where r: "mx_submit_read env f off n s = (Inr pr, s1)" "answered env content off n pr"
    using assms(1) unfolding reads_succeed_def by blast
  obtain rs s2 where rs: "mx_submit_window env f segs s1 = (rs, s2)" by fastforce
  have "ps = (n, Inr pr) # rs" using Cons.prems r rs by simp
  then show ?case using Cons.IH [of s1 rs] rs Cons.prems r by simp
qed simp

lemma drain_window_succeeds:
  assumes "list_all2 (\<lambda>(off, n) (e, p). e = n \<and> (\<exists>pr. p = Inr pr \<and> answered env content off n pr)) segs ps"
    and "\<forall>(off, n) \<in> set segs. unat off + unat n \<le> length content"
  shows "\<exists>s'. mx_drain_window env timeout started ps acc None s = ((acc @ concat (map (file_slice content) segs), None), s')"
  using assms
proof (induction segs ps arbitrary: acc s rule: list_all2_induct)
  case (Cons seg segs ep ps)
  obtain off n e p where [simp]: "seg = (off, n)" "ep = (e, p)" by (cases seg; cases ep)
  obtain pr where p: "p = Inr pr" "answered env content off n pr" and e: "e = n" using Cons.hyps(1) by auto
  obtain s1 where r: "mx_resolve_read env timeout started p s = (Inr (take (unat n) (drop (unat off) content)), s1)"
    using p unfolding answered_def by blast
  have "length (take (unat n) (drop (unat off) content)) = unat n" using Cons.prems by auto
  moreover have "\<forall>(off, n) \<in> set segs. unat off + unat n \<le> length content" using Cons.prems by auto
  ultimately show ?case using Cons.IH [of "acc @ take (unat n) (drop (unat off) content)" s1] r e by (simp del: length_take)
qed simp

lemma read_windows_succeed:
  assumes "reads_succeed env f content" "\<forall>(off, n) \<in> set (concat windows). unat off + unat n \<le> length content"
  shows "\<exists>s'. mx_read_windows env f timeout started windows acc s = (Inr (acc @ concat (map (file_slice content) (concat windows))), s')"
  using assms(2)
proof (induction windows arbitrary: acc s)
  case (Cons segs windows)
  obtain ps s1 where p: "mx_submit_window env f segs s = (ps, s1)" by fastforce
  have w: "\<forall>(off, n) \<in> set segs. unat off + unat n \<le> length content" "\<forall>(off, n) \<in> set (concat windows). unat off + unat n \<le> length content"
    using Cons.prems by auto
  obtain s2 where "mx_drain_window env timeout started ps acc None s1 = ((acc @ concat (map (file_slice content) segs), None), s2)"
    using drain_window_succeeds [OF submit_window_succeeds [OF assms(1) w(1) p] w(1)] by blast
  then show ?case using p Cons.IH [OF w(2), of "acc @ concat (map (file_slice content) segs)" s2] by simp
qed simp

lemma parallel_read_slice:
  assumes "reads_content env f content" and r: "mx_read_exact_parallel_timeout env f offset count k timeout s = (Inr out, s')"
  shows "out = take (unat count) (drop (unat offset) content) \<and> length out = unat count"
proof (cases "count = 0")
  case False
  with r obtain segs where k: "k \<noteq> 0" and segs: "exact_read_segments offset count (max_iounit (mx_msize env s)) = Inr segs"
    and w: "mx_read_windows env f timeout (me_now env s) (slice_chunks (unat k) segs) [] s = (Inr out, s')"
    by (auto simp: mx_read_exact_parallel_timeout_def split: if_splits sum.splits)
  have tile: "tiles (unat offset) (unat offset + unat count) segs"
    using segments_loop_tile [of offset count _ 0 "[]"] segs by (simp add: exact_read_segments_def)
  have c: "concat (slice_chunks (unat k) segs) = segs" using k by (intro concat_slice_chunks) (simp add: unat_gt_0)
  have "out = concat (map (file_slice content) segs)" and len: "\<forall>(off, n) \<in> set segs. length (file_slice content (off, n)) = unat n"
    using read_windows_slices [OF assms(1) w] unfolding c by simp_all
  then show ?thesis using tiles_slices [OF tile, of content] tiles_length [OF tile, of content] by simp
qed (use r in \<open>simp add: mx_read_exact_parallel_timeout_def\<close>)

lemma parallel_read_succeeds:
  assumes a: "reads_succeed env f content" "unat offset + unat count \<le> min (length content) (2 ^ 64)" "k \<noteq> 0"
    "max_iounit (mx_msize env s) \<noteq> 0"
  shows "\<exists>s'. mx_read_exact_parallel_timeout env f offset count k timeout s = (Inr (take (unat count) (drop (unat offset) content)), s')"
proof (cases "count = 0")
  case False
  obtain segs where segs: "exact_read_segments offset count (max_iounit (mx_msize env s)) = Inr segs"
    using segments_exist a(2,4) unfolding exact_read_segments_def by fastforce
  have tile: "tiles (unat offset) (unat offset + unat count) segs"
    using segments_loop_tile [of offset count _ 0 "[]"] segs by (simp add: exact_read_segments_def)
  have c: "concat (slice_chunks (unat k) segs) = segs" using a(3) by (intro concat_slice_chunks) (simp add: unat_gt_0)
  have "\<forall>(off, n) \<in> set (concat (slice_chunks (unat k) segs)). unat off + unat n \<le> length content"
    unfolding c using tiles_within [OF tile] a(2) by fastforce
  from read_windows_succeed [OF a(1) this, of timeout "me_now env s" "[]" s] obtain s' where
    w: "mx_read_windows env f timeout (me_now env s) (slice_chunks (unat k) segs) [] s = (Inr (concat (map (file_slice content) segs)), s')"
    unfolding c by auto
  have "concat (map (file_slice content) segs) = take (unat count) (drop (unat offset) content)"
    using tiles_slices [OF tile, of content] by simp
  then show ?thesis unfolding mx_read_exact_parallel_timeout_def using False a(3) segs w by simp
qed (simp add: mx_read_exact_parallel_timeout_def)

text \<open>C18: A pipelined read is exact. Where the file answers reads with its own bytes, though perhaps with
  fewer than asked for, a pipelined read that succeeds returns exactly the \<open>count\<close> bytes from \<open>offset\<close>,
  whatever the window and in whatever order the segments are answered; and where every read within the
  file is answered in full, a read within the file succeeds.\<close>

theorem parallel_read_is_exact:
  assumes "reads_content env f content"
  shows "(mx_read_exact_parallel_timeout env f offset count k timeout s = (Inr out, s') \<longrightarrow>
      out = take (unat count) (drop (unat offset) content) \<and> length out = unat count)
    \<and> (reads_succeed env f content \<and> unat offset + unat count \<le> min (length content) (2 ^ 64) \<and> k \<noteq> 0
        \<and> max_iounit (mx_msize env s) \<noteq> 0 \<longrightarrow>
      (\<exists>s'. mx_read_exact_parallel_timeout env f offset count k timeout s = (Inr (take (unat count) (drop (unat offset) content)), s')))"
  by (rule conjI; intro impI; (rule parallel_read_slice [OF assms], assumption | elim conjE, rule parallel_read_succeeds; assumption))

text \<open>A connection to one file of three bytes, which answers each read in full.\<close>

definition sample_file :: bytes where "sample_file = [10, 20, 30]"

definition file_env :: "(unit, op) mux_env" where
  "file_env =
     \<lparr>me_protocol = (\<lambda>_. Client_new), me_set_protocol = (\<lambda>_ s. s), me_submit = return_s,
      me_wait = (\<lambda>op. case op_message op of
        T_Read tag f off n \<Rightarrow> return_s (Resp_Completion tag (Done_Read (take (unat n) (drop (unat off) sample_file))))
      | m \<Rightarrow> return_s (Resp_Error (t_tag m) [])),
      me_wait_timeout = (\<lambda>op _. case op_message op of
        T_Read tag f off n \<Rightarrow> return_s (Resp_Completion tag (Done_Read (take (unat n) (drop (unat off) sample_file))))
      | m \<Rightarrow> return_s (Resp_Error (t_tag m) [])),
      me_cancel = (\<lambda>_ _ s. s), me_now = (\<lambda>_. 0), me_variant = Plain, me_root_fid = 0,
      me_debug_completion = (\<lambda>_. []), me_debug_response = (\<lambda>_. []), me_debug_str = (\<lambda>_. [])\<rparr>"

lemma file_env_submit:
  "mx_submit_read file_env f off n s =
     (let c = clamp_read_count DEFAULT_MSIZE n in
      (Inr \<lparr>pr_call = \<lparr>op_tag = 0, op_fid_opt = Some f, op_message = T_Read 0 f off c\<rparr>, pr_tag = 0, pr_requested = c\<rparr>, s))"
  by (simp add: mx_submit_read_def mx_build_def mx_msize_def file_env_def client_read_def tagged_op_def alloc_tag_free Client_new_def
      NOTAG_def is_live_def RequestTable_new_def bind_s_def return_s_def Let_def)

lemma file_env_resolve:
  "mx_resolve_read file_env timeout started
     (Inr \<lparr>pr_call = \<lparr>op_tag = 0, op_fid_opt = Some f, op_message = T_Read 0 f off c\<rparr>, pr_tag = 0, pr_requested = c\<rparr>) s =
     (Inr (take (unat c) (drop (unat off) sample_file)), s)"
proof -
  have "checked_read_data (take (unat c) (drop (unat off) sample_file)) c = Inr (take (unat c) (drop (unat off) sample_file))"
    by (simp add: checked_read_data_Inr)
  then show ?thesis
    by (simp add: mx_resolve_read_def mx_wait_read_def mx_wait_read_timeout_def mx_wait_pending_timeout_def mx_expect_def file_env_def
        bind_s_def return_s_def lift_s_def)
qed

lemma file_env_reads: "reads_content file_env f sample_file" "reads_succeed file_env f sample_file"
proof -
  have "answers_from file_env sample_file off
      \<lparr>pr_call = \<lparr>op_tag = 0, op_fid_opt = Some f, op_message = T_Read 0 f off c\<rparr>, pr_tag = 0, pr_requested = c\<rparr>" for f off c
    unfolding answers_from_def file_env_resolve by (auto simp: min_def)
  then show "reads_content file_env f sample_file" unfolding reads_content_def file_env_submit Let_def by auto
  have "clamp_read_count DEFAULT_MSIZE n = n" if "unat off + unat n \<le> length sample_file" for off :: u64 and n
    using that by (simp add: clamp_read_count_def saturating_sub_def DEFAULT_MSIZE_def RREAD_HEADER_SIZE_def sample_file_def min_def word_le_nat_alt)
  then show "reads_succeed file_env f sample_file"
    unfolding reads_succeed_def file_env_submit answered_def Let_def by (auto simp: file_env_resolve)
qed

theorem parallel_read_is_exact_witness:
  "reads_content file_env 1 sample_file \<and> (\<exists>s'. mx_read_exact_parallel_timeout file_env 1 1 2 1 0 () = (Inr [20, 30], s'))"
proof -
  have "max_iounit (mx_msize file_env ()) \<noteq> 0"
    by (simp add: mx_msize_def file_env_def Client_new_def DEFAULT_MSIZE_def max_iounit_def saturating_sub_def IOUNIT_HEADER_SIZE_def)
  moreover have "unat (1 :: u64) + unat (2 :: u32) \<le> min (length sample_file) (2 ^ 64)" by (simp add: sample_file_def)
  ultimately have "\<exists>s'. mx_read_exact_parallel_timeout file_env 1 1 2 1 0 () =
      (Inr (take (unat (2 :: u32)) (drop (unat (1 :: u64)) sample_file)), s')"
    by (intro parallel_read_is_exact [OF file_env_reads(1), THEN conjunct2, THEN mp] conjI file_env_reads(2)) simp_all
  then show ?thesis using file_env_reads(1) by (simp add: sample_file_def)
qed

section \<open>Rejected and unknown deliveries\<close>

lemma client_write_message:
  "client_write f off data p = (Inr op, p') \<Longrightarrow> op_message op = T_Write (op_tag op) f off data"
  by (auto simp: client_write_def tagged_op_def bind_s_Inr_iff return_s_def)

lemma build_pair_rejected:
  "mx_build_pair env f write_offset data read_offset read_count s = (Inl e, s') \<Longrightarrow> \<exists>p. s' = me_set_protocol env p s"
  by (auto simp: mx_build_pair_def split: prod.splits sum.splits)

lemma build_pair_write:
  "mx_build_pair env f write_offset data read_offset read_count s = (Inr (write, read), s') \<Longrightarrow>
     op_message write = T_Write (op_tag write) f write_offset data"
  by (auto simp: mx_build_pair_def dest: client_write_message split: prod.splits sum.splits)

lemma classify_write_rejected:
  "classify_write env t data r = Inl (Rejected e) \<Longrightarrow> \<exists>ename. r = Inr (Resp_Error t ename) \<and> e = Error ename"
  by (auto simp: classify_write_def map_delivery_def Let_def split: sum.splits client_response.splits completion.splits if_splits)

lemma classify_read_unknown: "classify_read env t n r \<noteq> Inl (Rejected e)"
  by (auto simp: classify_read_def map_delivery_def Let_def split: sum.splits client_response.splits completion.splits if_splits)

lemma rejected_pair:
  assumes "mx_write_once_then_read_timeout env f write_offset data read_offset read_count timeout s = (Inl (Rejected e), s')"
  shows "(\<exists>p. s' = me_set_protocol env p s)
    \<or> (\<exists>op q s1 s2 s3 s4 ename. op_message op = T_Write (op_tag op) f write_offset data \<and> me_submit env op s1 = (Inr q, s2)
        \<and> me_wait_timeout env q timeout s3 = (Inr (Resp_Error (op_tag op) ename), s4) \<and> e = Error ename)"
proof -
  let ?n = "clamp_read_count (mx_msize env s) read_count"
  obtain x s1 where b: "mx_build_pair env f write_offset data read_offset ?n s = (x, s1)" by fastforce
  show ?thesis
  proof (cases x)
    case (Inl e')
    then show ?thesis using assms b build_pair_rejected [of env f write_offset data read_offset ?n s] by (auto simp: mx_write_once_then_read_timeout_def Let_def)
  next
    case (Inr pair)
    obtain wop rop where pair: "pair = (wop, rop)" by fastforce
    obtain y s2 where w: "me_submit env wop s1 = (y, s2)" by fastforce
    obtain wq where y: "y = Inr wq" using assms b Inr pair w by (cases y) (auto simp: mx_write_once_then_read_timeout_def Let_def)
    obtain z s3 where r: "me_submit env rop s2 = (z, s3)" by fastforce
    obtain rq where z: "z = Inr rq" using assms b Inr pair w y r by (cases z) (auto simp: mx_write_once_then_read_timeout_def Let_def)
    obtain wr s4 where wr: "me_wait_timeout env wq timeout s3 = (wr, s4)" by fastforce
    obtain rr s5 where rr: "me_wait_timeout env rq timeout s4 = (rr, s5)" by fastforce
    have "classify_write env (op_tag wop) data wr = Inl (Rejected e)"
      using assms b Inr pair w y r z wr rr classify_read_unknown [of env "op_tag rop" ?n rr e]
      by (auto simp: mx_write_once_then_read_timeout_def Let_def split: sum.splits)
    from classify_write_rejected [OF this] show ?thesis
      using build_pair_write [of env f write_offset data read_offset ?n s wop rop s1] b Inr pair w y wr by blast
  qed
qed

text \<open>C19: What \<open>Rejected\<close> means for a request that fits one frame: a pipelined write and read that is
  rejected with an error either submitted nothing, or the peer answered the write request with
  that error.\<close>

theorem rejected_write_was_refused:
  assumes "mx_write_then_read_timeout env f write_offset data read_offset read_count timeout s = (Inl (Rejected e), s')"
    and "length data \<le> unat (mx_max_write_payload env s)"
  shows "(\<exists>p. s' = me_set_protocol env p s)
    \<or> (\<exists>op q s1 s2 s3 s4 ename. op_message op = T_Write (op_tag op) f write_offset data \<and> me_submit env op s1 = (Inr q, s2)
        \<and> me_wait_timeout env q timeout s3 = (Inr (Resp_Error (op_tag op) ename), s4) \<and> e = Error ename)"
proof -
  have "mx_write_prefix env f timeout (unat (mx_max_write_payload env s)) write_offset data 0 s = (Inr (write_offset, data, 0), s)"
    using assms(2) by (simp add: mx_write_prefix.simps)
  then have "mx_write_once_then_read_timeout env f write_offset data read_offset read_count timeout s = (Inl (Rejected e), s')"
    using assms(1) by (auto simp: mx_write_then_read_timeout_def split: prod.splits sum.splits option.splits)
  then show ?thesis by (rule rejected_pair)
qed

text \<open>A connection of 24 byte messages to a file that takes the first write and refuses any further one; the
  state is what has been written.\<close>

definition one_write_env :: "(bytes list, op) mux_env" where
  "one_write_env =
     \<lparr>me_protocol = (\<lambda>_. Client_new\<lparr>cl_msize := 24\<rparr>), me_set_protocol = (\<lambda>_ s. s), me_submit = return_s,
      me_wait = (\<lambda>_. throw_s (Error [])),
      me_wait_timeout = (\<lambda>op _ s. case op_message op of
        T_Write tag f off data \<Rightarrow>
          (if s = [] then (Inr (Resp_Completion tag (Done_Write (word_of_nat (length data)))), [data])
           else (Inr (Resp_Error tag EPERM), s))
      | m \<Rightarrow> (Inr (Resp_Completion (t_tag m) (Done_Read [])), s)),
      me_cancel = (\<lambda>_ _ s. s), me_now = (\<lambda>_. 0), me_variant = Plain, me_root_fid = 0,
      me_debug_completion = (\<lambda>_. []), me_debug_response = (\<lambda>_. []), me_debug_str = (\<lambda>_. [])\<rparr>"

lemmas one_write_simps = one_write_env_def mx_msize_def client_write_def client_read_def tagged_op_def alloc_tag_free Client_new_def
  NOTAG_def is_live_def table_begin_def RequestTable_new_def bind_s_def return_s_def lift_s_def Let_def

lemma one_write_payload: "mx_max_write_payload one_write_env s = 1"
  by (simp add: mx_max_write_payload_def mx_msize_def one_write_env_def max_write_payload_def saturating_sub_def TWRITE_HEADER_SIZE_def)

lemma one_write_accepted: "mx_write_once one_write_env (Some timeout) 1 0 [65] [] = (Inr 1, [[65]])"
  by (simp add: mx_write_once_def mx_build_def mx_call_def mx_call_op_timeout_def mx_wait_pending_timeout_def mx_expect_def
      checked_write_count_def one_write_simps)

lemma one_write_refused:
  "mx_write_once_then_read_timeout one_write_env 1 off [66] 0 1 timeout [[65]] = (Inl (Rejected (Error EPERM)), [[65]])"
  by (simp add: mx_write_once_then_read_timeout_def mx_build_pair_def classify_write_def clamp_read_count_def one_write_simps)

theorem rejected_write_was_refused_witness:
  "mx_write_then_read_timeout one_write_env 1 0 [66] 0 1 0 [[65]] = (Inl (Rejected (Error EPERM)), [[65]])
    \<and> ((\<exists>p. [[65]] = me_set_protocol one_write_env p [[65]])
      \<or> (\<exists>op q s1 s2 s3 s4 ename. op_message op = T_Write (op_tag op) 1 0 [66] \<and> me_submit one_write_env op s1 = (Inr q, s2)
        \<and> me_wait_timeout one_write_env q 0 s3 = (Inr (Resp_Error (op_tag op) ename), s4) \<and> Error EPERM = Error ename))"
proof -
  have "mx_write_then_read_timeout one_write_env 1 0 [66] 0 1 0 [[65]] = (Inl (Rejected (Error EPERM)), [[65]])"
    by (simp add: mx_write_then_read_timeout_def one_write_payload mx_write_prefix.simps one_write_refused)
  moreover from rejected_write_was_refused [OF this] show ?thesis
    using calculation by (simp add: one_write_payload)
qed


end
