(* ===== verification/R9P_Cache.thy ===== *)
theory R9P_Cache
  imports R9P_Endpoint
begin

text \<open>
  The namespace cache of a session (\<^verbatim>\<open>session/src/cache.rs\<close>): stats and directory listings by path, each
  with a mark that says whether it may still be answered. Queries put in what the server told them, the
  change feed marks what has changed. An \<^verbatim>\<open>Instant\<close> is a natural number; an operation that reads the
  clock takes the reading as an argument.

  The property says what an answer means: it was reported to the cache, and nothing reported since says
  that it has changed; and what was reported is answered until then.
\<close>

section \<open>Freshness\<close>

type_synonym instant = nat
type_synonym segments = "bytes list"

datatype stale_reason = Reconnect | NamespaceChange | IdentityChange | NotDirectory | Explicit bytes

record freshness =
  observed_at :: instant
  fr_stale_reason :: "stale_reason option"

definition fresh_now :: "instant \<Rightarrow> freshness" where
  "fresh_now now = \<lparr>observed_at = now, fr_stale_reason = None\<rparr>"

definition stale_now :: "instant \<Rightarrow> stale_reason \<Rightarrow> freshness" where
  "stale_now now reason = \<lparr>observed_at = now, fr_stale_reason = Some reason\<rparr>"

definition is_stale :: "freshness \<Rightarrow> bool" where
  "is_stale f \<longleftrightarrow> fr_stale_reason f \<noteq> None"

definition mark_fresh :: "instant \<Rightarrow> freshness \<Rightarrow> freshness" where
  "mark_fresh now f = f\<lparr>observed_at := now, fr_stale_reason := None\<rparr>"

definition mark_stale :: "instant \<Rightarrow> stale_reason \<Rightarrow> freshness \<Rightarrow> freshness" where
  "mark_stale now reason f = f\<lparr>observed_at := now, fr_stale_reason := Some reason\<rparr>"

definition age_at :: "freshness \<Rightarrow> instant \<Rightarrow> nat" where
  "age_at f now = now - observed_at f"

definition is_fresh_at :: "freshness \<Rightarrow> instant \<Rightarrow> nat \<Rightarrow> bool" where
  "is_fresh_at f now ttl \<longleftrightarrow> ttl \<noteq> 0 \<and> \<not> is_stale f \<and> age_at f now \<le> ttl"

lemma is_stale_simps [simp]:
  "\<not> is_stale (fresh_now now)" "is_stale (stale_now now reason)"
  "\<not> is_stale (mark_fresh now f)" "is_stale (mark_stale now reason f)"
  by (simp_all add: is_stale_def fresh_now_def stale_now_def mark_fresh_def mark_stale_def)

section \<open>The cache\<close>

record dir_entry =
  de_name :: bytes
  de_qid :: qid
  de_stat :: stat

record dir_cache =
  dc_entries :: "dir_entry list"
  dc_freshness :: freshness

definition DirCache_fresh :: "instant \<Rightarrow> dir_entry list \<Rightarrow> dir_cache" where
  "DirCache_fresh now entries = \<lparr>dc_entries = entries, dc_freshness = fresh_now now\<rparr>"

record cached_node =
  cached_stat :: stat
  stat_freshness :: freshness
  cached_dir :: "dir_cache option"

type_synonym namespace_cache = "(segments, cached_node) fmap"

definition stat_is_dir :: "stat \<Rightarrow> bool" where
  "stat_is_dir st \<longleftrightarrow> qtype (stat_qid st) AND QTDIR \<noteq> 0 \<or> stat_mode st AND DMDIR \<noteq> 0"

definition same_qid :: "qid \<Rightarrow> qid \<Rightarrow> bool" where
  "same_qid a b \<longleftrightarrow> qpath a = qpath b \<and> qversion a = qversion b \<and> qtype a = qtype b"

definition parent_path :: "segments \<Rightarrow> segments option" where
  "parent_path path = (if path = [] then None else Some (take (length path - 1) path))"

definition path_is_prefix :: "segments \<Rightarrow> segments \<Rightarrow> bool" where
  "path_is_prefix pre path \<longleftrightarrow>
     length pre \<le> length path \<and> list_all (\<lambda>(a, b). a = b) (zip path pre)"

definition parse_absolute_path :: "bytes \<Rightarrow> segments option" where
  "parse_absolute_path path =
     (if path \<noteq> [] \<and> hd path = SLASH then Some (filter (\<lambda>segment. segment \<noteq> []) (split_on SLASH path))
      else None)"

definition stat_if_fresh :: "segments \<Rightarrow> namespace_cache \<Rightarrow> stat option" where
  "stat_if_fresh path c =
     (case fmlookup c path of
        Some node \<Rightarrow> if is_stale (stat_freshness node) then None else Some (cached_stat node)
      | None \<Rightarrow> None)"

definition directory_if_fresh :: "segments \<Rightarrow> namespace_cache \<Rightarrow> dir_entry list option" where
  "directory_if_fresh path c =
     (case fmlookup c path of
        Some node \<Rightarrow>
          if is_stale (stat_freshness node) then None
          else (case cached_dir node of
                  Some d \<Rightarrow> if is_stale (dc_freshness d) then None else Some (dc_entries d)
                | None \<Rightarrow> None)
      | None \<Rightarrow> None)"

definition update_stat :: "instant \<Rightarrow> segments \<Rightarrow> stat \<Rightarrow> namespace_cache \<Rightarrow> namespace_cache" where
  "update_stat now path st c =
     (let node = (case fmlookup c path of
                    Some node \<Rightarrow> node
                  | None \<Rightarrow> \<lparr>cached_stat = st, stat_freshness = fresh_now now, cached_dir = None\<rparr>);
          identity_changed = (\<not> same_qid (stat_qid (cached_stat node)) (stat_qid st));
          node = node\<lparr>cached_stat := st, stat_freshness := mark_fresh now (stat_freshness node)\<rparr>;
          node = (if identity_changed \<or> \<not> stat_is_dir (cached_stat node) then node\<lparr>cached_dir := None\<rparr>
                  else node)
      in fmupd path node c)"

text \<open>Every listed child but dot and dot-dot is updated the way \<open>update_stat\<close> updates one path; the
  source writes the same statements out again.\<close>

fun seed_child_stats :: "instant \<Rightarrow> segments \<Rightarrow> dir_entry list \<Rightarrow> namespace_cache \<Rightarrow> namespace_cache" where
  "seed_child_stats now parent [] c = c"
| "seed_child_stats now parent (child # entries) c =
     (if de_name child = str ''.'' \<or> de_name child = str ''..'' then seed_child_stats now parent entries c
      else seed_child_stats now parent entries
             (update_stat now (parent @ [de_name child]) (de_stat child) c))"

definition cache_update_directory ::
  "instant \<Rightarrow> segments \<Rightarrow> dir_entry list \<Rightarrow> namespace_cache \<Rightarrow> namespace_cache" where
  "cache_update_directory now path entries c =
     (case fmlookup c path of
        None \<Rightarrow> c
      | Some node \<Rightarrow>
          if stat_is_dir (cached_stat node) \<and> \<not> is_stale (stat_freshness node) then
            seed_child_stats now path entries
              (fmupd path (node\<lparr>cached_dir := Some (DirCache_fresh now entries)\<rparr>) c)
          else c)"

definition stale_node :: "instant \<Rightarrow> stale_reason \<Rightarrow> cached_node \<Rightarrow> cached_node" where
  "stale_node now reason node =
     node\<lparr>stat_freshness := mark_stale now reason (stat_freshness node), cached_dir := None\<rparr>"

definition mark_path_stale :: "instant \<Rightarrow> segments \<Rightarrow> stale_reason \<Rightarrow> namespace_cache \<Rightarrow> namespace_cache" where
  "mark_path_stale now path reason c =
     (let c = (case parent_path path of
                 Some parent \<Rightarrow>
                   (case fmlookup c parent of
                      Some node \<Rightarrow> fmupd parent (node\<lparr>cached_dir := None\<rparr>) c
                    | None \<Rightarrow> c)
               | None \<Rightarrow> c)
      in fmmap_keys (\<lambda>entry_path node.
           if path_is_prefix path entry_path then stale_node now reason node else node) c)"

definition mark_all_stale :: "instant \<Rightarrow> stale_reason \<Rightarrow> namespace_cache \<Rightarrow> namespace_cache" where
  "mark_all_stale now reason c = fmmap (stale_node now reason) c"

definition mark_namespace_change ::
  "instant \<Rightarrow> bytes \<Rightarrow> bytes option \<Rightarrow> namespace_cache \<Rightarrow> namespace_cache" where
  "mark_namespace_change now path old_path c =
     (let c = (case parse_absolute_path path of
                 Some segs \<Rightarrow> mark_path_stale now segs NamespaceChange c
               | None \<Rightarrow> mark_all_stale now (Explicit (str ''invalid namespace change path '' @ path)) c)
      in case old_path of
           Some old_path \<Rightarrow>
             (case parse_absolute_path old_path of
                Some segs \<Rightarrow> mark_path_stale now segs NamespaceChange c
              | None \<Rightarrow>
                  mark_all_stale now (Explicit (str ''invalid namespace change old_path '' @ old_path)) c)
         | None \<Rightarrow> c)"

record cache_stats =
  st_entries :: usize
  st_directories :: usize
  st_stale_entries :: usize

definition count_nodes :: "(cached_node \<Rightarrow> bool) \<Rightarrow> namespace_cache \<Rightarrow> usize" where
  "count_nodes P c = fcard (ffilter (\<lambda>p. case fmlookup c p of Some node \<Rightarrow> P node | None \<Rightarrow> False) (fmdom c))"

definition NamespaceCache_stats :: "namespace_cache \<Rightarrow> cache_stats" where
  "NamespaceCache_stats c =
     \<lparr>st_entries = count_nodes (\<lambda>_. True) c,
      st_directories = count_nodes (\<lambda>node. cached_dir node \<noteq> None) c,
      st_stale_entries = count_nodes (\<lambda>node. is_stale (stat_freshness node)) c\<rparr>"

section \<open>Histories of a cache\<close>

text \<open>The operations that change the cache, and the cache after any number of them. Of one operation:
  the stats it reports for a path, whether it says that the path or something above it has changed, and
  whether it says so of a child of the path.\<close>

datatype cache_op =
    Put_Stat segments stat
  | Put_Directory segments "dir_entry list"
  | Change bytes "bytes option"
  | Path_Stale segments stale_reason
  | All_Stale stale_reason

fun cache_do :: "instant \<Rightarrow> cache_op \<Rightarrow> namespace_cache \<Rightarrow> namespace_cache" where
  "cache_do now (Put_Stat path st) c = update_stat now path st c"
| "cache_do now (Put_Directory path entries) c = cache_update_directory now path entries c"
| "cache_do now (Change path old_path) c = mark_namespace_change now path old_path c"
| "cache_do now (Path_Stale path reason) c = mark_path_stale now path reason c"
| "cache_do now (All_Stale reason) c = mark_all_stale now reason c"

definition cache_run :: "(instant \<times> cache_op) list \<Rightarrow> namespace_cache" where
  "cache_run ops = fold (\<lambda>(now, op). cache_do now op) ops fmempty"

definition is_child :: "segments \<Rightarrow> segments \<Rightarrow> dir_entry \<Rightarrow> bool" where
  "is_child parent path child \<longleftrightarrow>
     path = parent @ [de_name child] \<and> de_name child \<noteq> str ''.'' \<and> de_name child \<noteq> str ''..''"

fun op_reports :: "cache_op \<Rightarrow> segments \<Rightarrow> stat set" where
  "op_reports (Put_Stat p st) path = (if p = path then {st} else {})"
| "op_reports (Put_Directory p entries) path = set (map de_stat (filter (is_child p path) entries))"
| "op_reports _ path = {}"

definition marks_at :: "bytes \<Rightarrow> segments \<Rightarrow> bool" where
  "marks_at p path = (case parse_absolute_path p of Some segs \<Rightarrow> path_is_prefix segs path | None \<Rightarrow> True)"

definition unlists_at :: "bytes \<Rightarrow> segments \<Rightarrow> bool" where
  "unlists_at p path =
     (case parse_absolute_path p of Some segs \<Rightarrow> parent_path segs = Some path | None \<Rightarrow> True)"

fun op_marks :: "cache_op \<Rightarrow> segments \<Rightarrow> bool" where
  "op_marks (Change p old) path = (marks_at p path \<or> (case old of Some o' \<Rightarrow> marks_at o' path | None \<Rightarrow> False))"
| "op_marks (Path_Stale segs reason) path = path_is_prefix segs path"
| "op_marks (All_Stale reason) path = True"
| "op_marks _ path = False"

fun op_unlists :: "cache_op \<Rightarrow> segments \<Rightarrow> bool" where
  "op_unlists (Change p old) path = (unlists_at p path \<or> (case old of Some o' \<Rightarrow> unlists_at o' path | None \<Rightarrow> False))"
| "op_unlists (Path_Stale segs reason) path = (parent_path segs = Some path)"
| "op_unlists (All_Stale reason) path = True"
| "op_unlists _ path = False"

section \<open>Stats\<close>

lemma stat_if_fresh_update [simp]:
  "stat_if_fresh q (update_stat now p st c) = (if p = q then Some st else stat_if_fresh q c)"
  by (auto simp: stat_if_fresh_def update_stat_def Let_def split: option.splits)

lemma stat_if_fresh_seed:
  "stat_if_fresh q (seed_child_stats now p entries c) =
     (case rev (filter (is_child p q) entries) of [] \<Rightarrow> stat_if_fresh q c | child # _ \<Rightarrow> Some (de_stat child))"
proof (induction entries arbitrary: c)
  case (Cons child entries)
  show ?case
  proof (cases "is_child p q child")
    case True
    then have "de_name child \<noteq> str ''.''" "de_name child \<noteq> str ''..''" "p @ [de_name child] = q"
      by (auto simp: is_child_def)
    with True show ?thesis by (simp add: Cons split: list.split)
  next
    case False
    then show ?thesis by (auto simp: Cons is_child_def [of p q child] split: list.split)
  qed
qed simp

lemma stat_if_fresh_directory:
  "stat_if_fresh q (cache_update_directory now p entries c) =
     (case rev (filter (is_child p q) entries) of
        child # _ \<Rightarrow>
          if \<exists>st. stat_if_fresh p c = Some st \<and> stat_is_dir st then Some (de_stat child) else stat_if_fresh q c
      | [] \<Rightarrow> stat_if_fresh q c)"
proof (cases "fmlookup c p")
  case None
  then show ?thesis by (simp add: cache_update_directory_def stat_if_fresh_def split: list.split)
next
  case (Some node)
  have "stat_if_fresh q (fmupd p (node\<lparr>cached_dir := d\<rparr>) c) = stat_if_fresh q c" for d
    using Some by (cases "p = q") (simp_all add: stat_if_fresh_def)
  moreover have "(\<exists>st. stat_if_fresh p c = Some st \<and> stat_is_dir st) \<longleftrightarrow>
      stat_is_dir (cached_stat node) \<and> \<not> is_stale (stat_freshness node)"
    using Some by (auto simp: stat_if_fresh_def)
  ultimately show ?thesis
    using Some by (simp add: cache_update_directory_def stat_if_fresh_seed split: list.split)
qed

lemma stat_if_fresh_path_stale [simp]:
  "stat_if_fresh q (mark_path_stale now p reason c) = (if path_is_prefix p q then None else stat_if_fresh q c)"
  by (auto simp: stat_if_fresh_def mark_path_stale_def stale_node_def Let_def split: option.splits)

lemma stat_if_fresh_all_stale [simp]: "stat_if_fresh q (mark_all_stale now reason c) = None"
  by (auto simp: stat_if_fresh_def mark_all_stale_def stale_node_def split: option.splits)

lemma stat_if_fresh_change [simp]:
  "stat_if_fresh q (mark_namespace_change now p old c) =
     (if op_marks (Change p old) q then None else stat_if_fresh q c)"
  by (auto simp: mark_namespace_change_def marks_at_def Let_def split: option.splits)

lemma stat_marked: "op_marks op q \<Longrightarrow> stat_if_fresh q (cache_do now op c) = None"
  by (cases op) auto

lemma stat_kept:
  "\<lbrakk>\<not> op_marks op q; op_reports op q = {}\<rbrakk> \<Longrightarrow> stat_if_fresh q (cache_do now op c) = stat_if_fresh q c"
  by (cases op) (auto simp: stat_if_fresh_directory split: list.splits if_splits)

lemma stat_if_fresh_directoryD:
  assumes "stat_if_fresh q (cache_update_directory now p entries c) = Some st"
  shows "st \<in> op_reports (Put_Directory p entries) q \<or> stat_if_fresh q c = Some st"
proof (cases "rev (filter (is_child p q) entries)")
  case (Cons child rest)
  then have "child \<in> set (filter (is_child p q) entries)" by (metis list.set_intros(1) set_rev)
  then show ?thesis using assms Cons by (auto simp: stat_if_fresh_directory split: if_splits)
qed (use assms in \<open>simp add: stat_if_fresh_directory\<close>)

lemma stat_answered:
  assumes "stat_if_fresh q (cache_do now op c) = Some st" and "st \<notin> op_reports op q"
  shows "stat_if_fresh q c = Some st \<and> \<not> op_marks op q \<and> (\<forall>s. op \<noteq> Put_Stat q s)"
proof (cases op)
  case (Put_Directory p entries)
  then show ?thesis using assms stat_if_fresh_directoryD [of q now p entries c st] by simp
qed (use assms in \<open>auto split: if_splits\<close>)

section \<open>Listings\<close>

text \<open>A listing is only kept beside a fresh stat of a directory.\<close>

definition node_ok :: "cached_node \<Rightarrow> bool" where
  "node_ok node \<longleftrightarrow> (\<forall>d. cached_dir node = Some d \<longrightarrow>
     \<not> is_stale (stat_freshness node) \<and> \<not> is_stale (dc_freshness d) \<and> stat_is_dir (cached_stat node))"

definition cache_ok :: "namespace_cache \<Rightarrow> bool" where
  "cache_ok c \<longleftrightarrow> (\<forall>q node. fmlookup c q = Some node \<longrightarrow> node_ok node)"

lemma cache_okD:
  "\<lbrakk>cache_ok c; fmlookup c q = Some node; cached_dir node = Some d\<rbrakk>
     \<Longrightarrow> \<not> is_stale (stat_freshness node) \<and> \<not> is_stale (dc_freshness d) \<and> stat_is_dir (cached_stat node)"
  by (auto simp: cache_ok_def node_ok_def)

lemma node_ok_simps [simp]:
  "node_ok (node\<lparr>cached_dir := None\<rparr>)" "node_ok (stale_node now reason node)"
  by (simp_all add: node_ok_def stale_node_def)

lemma cache_ok_fmupd: "\<lbrakk>cache_ok c; node_ok node\<rbrakk> \<Longrightarrow> cache_ok (fmupd p node c)"
  by (simp add: cache_ok_def)

lemma cache_ok_update: "cache_ok c \<Longrightarrow> cache_ok (update_stat now p st c)"
  unfolding update_stat_def Let_def
  by (rule cache_ok_fmupd) (auto simp: cache_ok_def node_ok_def split: option.split)

lemma cache_ok_seed: "cache_ok c \<Longrightarrow> cache_ok (seed_child_stats now p entries c)"
  by (induction entries arbitrary: c) (auto simp: cache_ok_update)

lemma cache_ok_directory: "cache_ok c \<Longrightarrow> cache_ok (cache_update_directory now p entries c)"
  unfolding cache_update_directory_def
  by (auto simp: node_ok_def DirCache_fresh_def intro!: cache_ok_seed cache_ok_fmupd split: option.split)

lemma cache_ok_path_stale: "cache_ok c \<Longrightarrow> cache_ok (mark_path_stale now p reason c)"
  by (auto simp: cache_ok_def mark_path_stale_def Let_def split: option.split)

lemma cache_ok_all_stale: "cache_ok (mark_all_stale now reason c)"
  by (auto simp: cache_ok_def mark_all_stale_def)

lemmas cache_ok_intros = cache_ok_update cache_ok_directory cache_ok_path_stale cache_ok_all_stale

lemma cache_ok_do: "cache_ok c \<Longrightarrow> cache_ok (cache_do now op c)"
  by (cases op) (auto simp: mark_namespace_change_def Let_def intro!: cache_ok_intros split: option.split)

lemma cache_run_simps [simp]:
  "cache_run [] = fmempty" "cache_run (ops @ [(now, op)]) = cache_do now op (cache_run ops)"
  by (simp_all add: cache_run_def)

lemma cache_ok_run: "cache_ok (cache_run ops)"
  by (induction ops rule: rev_induct) (auto simp: cache_ok_do, simp add: cache_ok_def)

text \<open>The listing of a path with the stat it is kept beside.\<close>

definition listing :: "segments \<Rightarrow> namespace_cache \<Rightarrow> (dir_entry list \<times> stat) option" where
  "listing q c =
     Option.bind (fmlookup c q) (\<lambda>node. map_option (\<lambda>d. (dc_entries d, cached_stat node)) (cached_dir node))"

lemma directory_is_listing: "cache_ok c \<Longrightarrow> directory_if_fresh q c = map_option fst (listing q c)"
  by (auto simp: directory_if_fresh_def listing_def dest: cache_okD split: option.split)

lemma listing_stat:
  "\<lbrakk>cache_ok c; listing q c = Some (es, st)\<rbrakk> \<Longrightarrow> stat_if_fresh q c = Some st \<and> stat_is_dir st"
  by (auto simp: listing_def stat_if_fresh_def dest: cache_okD split: option.splits bind_splits)

lemma same_qid_eq [simp]: "same_qid a b \<longleftrightarrow> a = b"
  by (auto simp: same_qid_def intro: qid.equality)

lemma listing_update:
  "listing q (update_stat now p s c) = Some (es, st) \<Longrightarrow>
     (\<exists>st'. listing q c = Some (es, st') \<and> stat_qid st' = stat_qid st) \<and> (p = q \<longrightarrow> st = s \<and> stat_is_dir s)"
  by (auto simp: listing_def update_stat_def Let_def split: option.splits if_splits bind_splits)

lemma listing_seed:
  "listing q (seed_child_stats now p entries c) = Some (es, st) \<Longrightarrow>
     \<exists>st'. listing q c = Some (es, st') \<and> stat_qid st' = stat_qid st"
  by (induction entries arbitrary: c) (fastforce dest: listing_update split: if_splits)+

lemma listing_path_stale:
  assumes "listing q (mark_path_stale now p reason c) = Some x"
  shows "listing q c = Some x \<and> \<not> path_is_prefix p q \<and> parent_path p \<noteq> Some q"
proof -
  have look: "fmlookup (mark_path_stale now p reason c) q = map_option (\<lambda>node.
      let node = (if parent_path p = Some q then node\<lparr>cached_dir := None\<rparr> else node)
      in if path_is_prefix p q then stale_node now reason node else node) (fmlookup c q)"
    by (cases "fmlookup c q") (auto simp: mark_path_stale_def Let_def split: option.split)
  show ?thesis
    using assms
    by (cases "fmlookup c q") (auto simp: listing_def look stale_node_def Let_def simp del: fmlookup_map split: if_splits)
qed

lemma listing_all_stale [simp]: "listing q (mark_all_stale now reason c) = None"
  by (cases "fmlookup c q") (simp_all add: listing_def mark_all_stale_def stale_node_def)

lemma listing_change:
  "listing q (mark_namespace_change now p old c) = Some x \<Longrightarrow>
     listing q c = Some x \<and> \<not> op_marks (Change p old) q \<and> \<not> op_unlists (Change p old) q"
  by (auto simp: mark_namespace_change_def marks_at_def unlists_at_def Let_def
      dest!: listing_path_stale split: option.splits)

lemma listing_directory:
  assumes "cache_ok c" and "listing q (cache_update_directory now p entries c) = Some (es, st)"
  shows "p = q \<and> es = entries \<or> p \<noteq> q \<and> (\<exists>st'. listing q c = Some (es, st') \<and> stat_qid st' = stat_qid st)"
proof (cases "\<exists>st. stat_if_fresh p c = Some st \<and> stat_is_dir st")
  case True
  then obtain node where node: "fmlookup c p = Some node" "stat_is_dir (cached_stat node)" "\<not> is_stale (stat_freshness node)"
    by (auto simp: stat_if_fresh_def split: option.splits if_splits)
  then have "listing q (seed_child_stats now p entries
      (fmupd p (node\<lparr>cached_dir := Some (DirCache_fresh now entries)\<rparr>) c)) = Some (es, st)"
    using assms(2) by (simp add: cache_update_directory_def)
  from listing_seed [OF this] show ?thesis
    by (auto simp: listing_def DirCache_fresh_def split: if_splits)
next
  case False
  then have "cache_update_directory now p entries c = c"
    by (auto simp: cache_update_directory_def stat_if_fresh_def split: option.splits)
  then show ?thesis using assms listing_stat [OF assms(1), of q es st] False by auto
qed

lemma listing_answered:
  assumes "cache_ok c" and "listing q (cache_do now op c) = Some (es, st)" and "op \<noteq> Put_Directory q es"
  shows "\<not> op_marks op q \<and> \<not> op_unlists op q \<and> (\<forall>es'. op \<noteq> Put_Directory q es')
    \<and> (\<forall>s. op = Put_Stat q s \<longrightarrow> st = s) \<and> (\<exists>st'. listing q c = Some (es, st') \<and> stat_qid st' = stat_qid st)"
  using assms
  by (cases op) (auto dest: listing_update listing_directory listing_path_stale listing_change)

section \<open>What an answer means\<close>

lemma stat_answer_history:
  "stat_if_fresh q (cache_run ops) = Some st \<Longrightarrow>
     \<exists>before now op after. ops = before @ (now, op) # after \<and> st \<in> op_reports op q
       \<and> (\<forall>(t, op') \<in> set after. \<not> op_marks op' q \<and> (\<forall>s. op' \<noteq> Put_Stat q s))"
proof (induction ops rule: rev_induct)
  case Nil
  then show ?case by (simp add: stat_if_fresh_def)
next
  case (snoc x ops)
  obtain now op where x: "x = (now, op)" by force
  show ?case
  proof (cases "st \<in> op_reports op q")
    case True
    then show ?thesis unfolding x by fastforce
  next
    case False
    from stat_answered [OF _ False] snoc.prems
    have step: "stat_if_fresh q (cache_run ops) = Some st" "\<not> op_marks op q" "\<forall>s. op \<noteq> Put_Stat q s"
      unfolding x by simp_all
    from snoc.IH [OF step(1)] obtain before t op' after where
      "ops = before @ (t, op') # after" "st \<in> op_reports op' q"
      "\<forall>(t, op') \<in> set after. \<not> op_marks op' q \<and> (\<forall>s. op' \<noteq> Put_Stat q s)"
      by blast
    with step(2,3) show ?thesis unfolding x
      by (intro exI [of _ before] exI [of _ t] exI [of _ op'] exI [of _ "after @ [(now, op)]"]) auto
  qed
qed

lemma listing_history:
  "listing q (cache_run ops) = Some (es, st) \<Longrightarrow>
     \<exists>before now after. ops = before @ (now, Put_Directory q es) # after
       \<and> (\<forall>(t, op) \<in> set after. \<not> op_marks op q \<and> \<not> op_unlists op q \<and> (\<forall>es'. op \<noteq> Put_Directory q es')
            \<and> (\<forall>s. op = Put_Stat q s \<longrightarrow> stat_qid s = stat_qid st))"
proof (induction ops arbitrary: st rule: rev_induct)
  case Nil
  then show ?case by (simp add: listing_def)
next
  case (snoc x ops)
  obtain now op where x: "x = (now, op)" by force
  show ?case
  proof (cases "op = Put_Directory q es")
    case True
    then show ?thesis unfolding x by fastforce
  next
    case False
    from listing_answered [OF cache_ok_run _ False] snoc.prems
    obtain st' where step: "\<not> op_marks op q" "\<not> op_unlists op q" "\<forall>es'. op \<noteq> Put_Directory q es'"
      "\<forall>s. op = Put_Stat q s \<longrightarrow> st = s" "listing q (cache_run ops) = Some (es, st')" "stat_qid st' = stat_qid st"
      unfolding x by fastforce
    from snoc.IH [OF step(5)] obtain before t after where
      "ops = before @ (t, Put_Directory q es) # after"
      "\<forall>(t, op) \<in> set after. \<not> op_marks op q \<and> \<not> op_unlists op q \<and> (\<forall>es'. op \<noteq> Put_Directory q es')
            \<and> (\<forall>s. op = Put_Stat q s \<longrightarrow> stat_qid s = stat_qid st)"
      unfolding step(6) by blast
    with step(1-4) show ?thesis unfolding x
      by (intro exI [of _ before] exI [of _ t] exI [of _ "after @ [(now, op)]"]) auto
  qed
qed

lemma stat_answer_kept:
  "\<lbrakk>\<forall>(t, op) \<in> set ops. \<not> op_marks op q \<and> op_reports op q = {}\<rbrakk> \<Longrightarrow>
     stat_if_fresh q (fold (\<lambda>(now, op). cache_do now op) ops c) = stat_if_fresh q c"
  by (induction ops arbitrary: c) (auto simp: stat_kept)


definition sample_docs :: stat where "sample_docs = Stat_new [1] (Qid_dir 1) 0"

definition sample_alpha :: dir_entry where
  "sample_alpha = \<lparr>de_name = [2], de_qid = Qid_file 2, de_stat = Stat_new [2] (Qid_file 2) 0\<rparr>"

definition sample_history :: "(instant \<times> cache_op) list" where
  "sample_history =
     [(0, Put_Stat [[1]] sample_docs), (1, Put_Directory [[1]] [sample_alpha]), (2, Change [SLASH, 3] None)]"

lemma sample_answers:
  "stat_if_fresh [[1], [2]] (cache_run sample_history) = Some (de_stat sample_alpha)"
  "directory_if_fresh [[1]] (cache_run sample_history) = Some [sample_alpha]"
  by (simp_all add: sample_history_def cache_run_def cache_update_directory_def update_stat_def Let_def
      mark_namespace_change_def parse_absolute_path_def SLASH_def mark_path_stale_def parent_path_def
      path_is_prefix_def sample_alpha_def sample_docs_def Stat_new_def stat_is_dir_def Qid_dir_def Qid_new_def
      QTDIR_def str_def stat_if_fresh_def directory_if_fresh_def DirCache_fresh_def)


end
