(* ===== verification/R9P_Feed.thy ===== *)
theory R9P_Feed
  imports R9P_Cache R9P_Front_Model
begin

text \<open>
  The change feed of a session (\<^verbatim>\<open>session/src/feed\<close>): the records of a namespace's changes and their
  selection by cursor (\<^verbatim>\<open>record.rs\<close>), the state that is shown to queries (\<^verbatim>\<open>state.rs\<close>), the bus and the wake
  that tell other threads (\<^verbatim>\<open>event.rs\<close>), and the worker that reads the feed and marks the cache (\<^verbatim>\<open>worker.rs\<close>).
  The loop of the worker is a step relation: what the session and the feed files answer is chosen by each
  step. A wait on a condition variable is one look at the state: \<open>None\<close> when the thread has to wait on.
\<close>

section \<open>Errors of a session\<close>

text \<open>\<^verbatim>\<open>session/src/error.rs\<close>; the error numbers of Linux.\<close>

record session_error =
  se_errno :: int
  se_message :: bytes

type_synonym 'a session_result = "session_error + 'a"

definition EINVAL :: int where "EINVAL = 22"
definition ESHUTDOWN :: int where "ESHUTDOWN = 108"
definition ETIMEDOUT :: int where "ETIMEDOUT = 110"

section \<open>Records\<close>

record namespace_change =
  nc_scope :: bytes
  nc_path :: bytes
  nc_change_kind :: bytes
  nc_generation :: u64
  nc_event_id :: bytes
  nc_old_path :: "bytes option"

record selected_records =
  sel_records :: "namespace_change list"
  sel_cursor_advanced_to :: "bytes option"
  sel_cursor_missed :: bool

text \<open>\<^verbatim>\<open>str::parse::<u64>\<close>.\<close>

definition u64_from_str :: "bytes \<Rightarrow> u64 option" where
  "u64_from_str s =
     (let ds = (if s \<noteq> [] \<and> hd s = 0x2B \<and> tl s \<noteq> [] then tl s else s) in
      if ds \<noteq> [] \<and> list_all is_ascii_digit ds \<and> decimal_value ds < 2 ^ 64
      then Some (word_of_nat (decimal_value ds)) else None)"

definition valid_event_id :: "bytes \<Rightarrow> bool" where
  "valid_event_id v \<longleftrightarrow>
     v \<noteq> [] \<and> length v \<le> 256 \<and> v \<noteq> str ''.'' \<and> v \<noteq> str ''..''
     \<and> \<not> list_ex (\<lambda>b. b = SLASH \<or> b = 0 \<or> b < 0x20 \<or> b = 0x7F) v"

record kv_fields =
  kv_scope :: "bytes option"
  kv_path :: "bytes option"
  kv_change_kind :: "bytes option"
  kv_generation :: "u64 option"
  kv_event_id :: "bytes option"
  kv_old_path :: "bytes option"

definition kv_field :: "bytes \<Rightarrow> kv_fields \<Rightarrow> kv_fields" where
  "kv_field field kv =
     (case split_once 0x3D field of
        None \<Rightarrow> kv
      | Some (key, val) \<Rightarrow>
          if key = str ''scope'' then kv\<lparr>kv_scope := Some val\<rparr>
          else if key = str ''path'' then kv\<lparr>kv_path := Some val\<rparr>
          else if key = str ''change_kind'' \<or> key = str ''kind'' then kv\<lparr>kv_change_kind := Some val\<rparr>
          else if key = str ''generation'' then kv\<lparr>kv_generation := u64_from_str val\<rparr>
          else if key = str ''event_id'' then kv\<lparr>kv_event_id := Some val\<rparr>
          else if key = str ''old_path'' \<or> key = str ''from'' then kv\<lparr>kv_old_path := Some val\<rparr>
          else kv)"

definition parse_key_value_record :: "bytes list \<Rightarrow> namespace_change option" where
  "parse_key_value_record fds =
     (let kv = fold kv_field fds
        \<lparr>kv_scope = None, kv_path = None, kv_change_kind = None, kv_generation = None, kv_event_id = None,
         kv_old_path = None\<rparr> in
      case (kv_scope kv, kv_path kv, kv_change_kind kv, kv_generation kv, kv_event_id kv) of
        (Some scope, Some path, Some kind, Some gen, Some event_id) \<Rightarrow>
          Some \<lparr>nc_scope = scope, nc_path = path, nc_change_kind = kind, nc_generation = gen,
                nc_event_id = event_id, nc_old_path = kv_old_path kv\<rparr>
      | _ \<Rightarrow> None)"

definition parse_positional_record :: "bytes list \<Rightarrow> namespace_change option" where
  "parse_positional_record fds =
     (case fds of
        [word, event_id, gen, scope, kind, path] \<Rightarrow>
          if word = str ''namespace_change'' then
            map_option (\<lambda>g. \<lparr>nc_scope = scope, nc_path = path, nc_change_kind = kind, nc_generation = g,
              nc_event_id = event_id, nc_old_path = None\<rparr>) (u64_from_str gen)
          else None
      | [word, event_id, gen, scope, kind, old_path, path] \<Rightarrow>
          if word = str ''namespace_change'' \<and> kind = str ''renamed'' then
            map_option (\<lambda>g. \<lparr>nc_scope = scope, nc_path = path, nc_change_kind = str ''renamed'',
              nc_generation = g, nc_event_id = event_id, nc_old_path = Some old_path\<rparr>) (u64_from_str gen)
          else None
      | _ \<Rightarrow> None)"

definition parse_namespace_change_record :: "bytes \<Rightarrow> namespace_change option" where
  "parse_namespace_change_record line =
     (let fds = split_on 0x09 line;
          change = (case parse_key_value_record fds of
                      Some c \<Rightarrow> Some c
                    | None \<Rightarrow> parse_positional_record fds)
      in case change of
           Some c \<Rightarrow> if valid_event_id (nc_event_id c) then Some c else None
         | None \<Rightarrow> None)"

definition scope_matches :: "bytes option \<Rightarrow> bytes \<Rightarrow> bool" where
  "scope_matches configured event_scope \<longleftrightarrow>
     event_scope = str ''shared'' \<or> (case configured of Some scope \<Rightarrow> scope = event_scope | None \<Rightarrow> True)"

text \<open>\<^verbatim>\<open>str::replace\<close>, from the left, for a pattern that is not empty.\<close>

fun str_replace :: "bytes \<Rightarrow> bytes \<Rightarrow> bytes \<Rightarrow> nat \<Rightarrow> bytes" where
  "str_replace pat rep [] skip = []"
| "str_replace pat rep (b # bs) (Suc skip) = str_replace pat rep bs skip"
| "str_replace pat rep (b # bs) 0 =
     (if strip_prefix pat (b # bs) \<noteq> None then rep @ str_replace pat rep bs (length pat - 1)
      else b # str_replace pat rep bs 0)"

definition feed_catch_up_path :: "bytes \<Rightarrow> bytes option \<Rightarrow> bytes option \<Rightarrow> bytes" where
  "feed_catch_up_path base_path since_event_id cursor_template =
     (case (since_event_id, cursor_template) of
        (Some event_id, Some template) \<Rightarrow> str_replace (str ''{event_id}'') event_id template 0
      | _ \<Rightarrow> base_path)"

text \<open>The records after the first one the predicate holds for: \<^verbatim>\<open>position\<close> and \<^verbatim>\<open>skip(index + 1)\<close>.\<close>

fun after_first :: "('a \<Rightarrow> bool) \<Rightarrow> 'a list \<Rightarrow> 'a list option" where
  "after_first P [] = None"
| "after_first P (x # xs) = (if P x then Some xs else after_first P xs)"

definition last_id :: "namespace_change list \<Rightarrow> bytes option" where
  "last_id records = (if records = [] then None else Some (nc_event_id (last records)))"

definition select_feed_records :: "namespace_change list \<Rightarrow> bytes option \<Rightarrow> bool \<Rightarrow> selected_records" where
  "select_feed_records records since_event_id template_configured =
     (let everything = \<lparr>sel_records = records, sel_cursor_advanced_to = None, sel_cursor_missed = False\<rparr> in
      if template_configured then everything
      else case since_event_id of
        None \<Rightarrow> everything
      | Some cursor \<Rightarrow>
          (case after_first (\<lambda>r. nc_event_id r = cursor) records of
             None \<Rightarrow> \<lparr>sel_records = [], sel_cursor_advanced_to = last_id records,
                      sel_cursor_missed = (records \<noteq> [])\<rparr>
           | Some later \<Rightarrow> everything\<lparr>sel_records := later\<rparr>))"

section \<open>The state shown to queries\<close>

record feed_snapshot =
  fs_state :: bytes
  fs_source :: "bytes option"
  fs_last_event_id :: "bytes option"
  fs_last_generation :: "u64 option"
  fs_last_error :: "bytes option"
  fs_fresh_instance :: bool

definition FeedState_new :: feed_snapshot where
  "FeedState_new = \<lparr>fs_state = str ''disabled'', fs_source = None, fs_last_event_id = None,
     fs_last_generation = None, fs_last_error = None, fs_fresh_instance = False\<rparr>"

definition FeedState_with_cursor :: "bytes \<Rightarrow> u64 \<Rightarrow> feed_snapshot" where
  "FeedState_with_cursor event_id gen =
     FeedState_new\<lparr>fs_last_event_id := Some event_id, fs_last_generation := Some gen\<rparr>"

definition set_disabled :: "feed_snapshot \<Rightarrow> feed_snapshot" where
  "set_disabled s = \<lparr>fs_state = str ''disabled'', fs_source = None, fs_last_event_id = None,
     fs_last_generation = None, fs_last_error = None, fs_fresh_instance = False\<rparr>"

definition set_connecting :: "feed_snapshot \<Rightarrow> feed_snapshot" where
  "set_connecting s = s\<lparr>fs_state := str ''connecting'', fs_source := None, fs_last_error := None\<rparr>"

definition set_connected :: "bytes \<Rightarrow> bytes option \<Rightarrow> u64 option \<Rightarrow> feed_snapshot \<Rightarrow> feed_snapshot" where
  "set_connected source event_id gen s =
     s\<lparr>fs_state := str ''connected'', fs_source := Some source,
       fs_last_event_id := (if event_id \<noteq> None then event_id else fs_last_event_id s),
       fs_last_generation := (if gen \<noteq> None then gen else fs_last_generation s),
       fs_last_error := None\<rparr>"

definition set_degraded :: "bytes \<Rightarrow> feed_snapshot \<Rightarrow> feed_snapshot" where
  "set_degraded message s = s\<lparr>fs_state := str ''degraded'', fs_last_error := Some message\<rparr>"

definition mark_fresh_instance :: "feed_snapshot \<Rightarrow> feed_snapshot" where
  "mark_fresh_instance s = s\<lparr>fs_fresh_instance := True\<rparr>"

section \<open>The bus and the wake\<close>

datatype feed_event =
    Ev_Change (ev_change: namespace_change) (ev_source: bytes) (ev_cursor_complete: bool)
  | Ev_Coarse (ev_reason: bytes)

record feed_subscriber =
  sub_queue :: "feed_event list"
  sub_closed :: bool
  sub_capacity :: usize

text \<open>The bus holds weak references, in order of subscription; \<open>bus_receivers\<close> are the subscribers whose
  receiver still exists.\<close>

record feed_bus =
  bus_capacity :: usize
  bus_subscribers :: "nat list"
  bus_receivers :: "(nat, feed_subscriber) fmap"
  bus_next :: nat

definition FeedEventBus_new :: "usize \<Rightarrow> feed_bus" where
  "FeedEventBus_new capacity =
     \<lparr>bus_capacity = max capacity 1, bus_subscribers = [], bus_receivers = fmempty, bus_next = 0\<rparr>"

definition bus_subscribe :: "feed_bus \<Rightarrow> nat \<times> feed_bus" where
  "bus_subscribe b =
     (bus_next b,
      b\<lparr>bus_subscribers := bus_subscribers b @ [bus_next b],
        bus_receivers := fmupd (bus_next b)
          \<lparr>sub_queue = [], sub_closed = False, sub_capacity = bus_capacity b\<rparr> (bus_receivers b),
        bus_next := bus_next b + 1\<rparr>)"

definition subscriber_publish :: "feed_event \<Rightarrow> feed_subscriber \<Rightarrow> bool \<times> feed_subscriber" where
  "subscriber_publish event s =
     (if sub_closed s \<or> length (sub_queue s) \<ge> sub_capacity s then (False, s)
      else (True, s\<lparr>sub_queue := sub_queue s @ [event]\<rparr>))"

definition subscriber_close :: "feed_subscriber \<Rightarrow> feed_subscriber" where
  "subscriber_close s = s\<lparr>sub_closed := True\<rparr>"

text \<open>The \<^verbatim>\<open>retain\<close> of \<^verbatim>\<open>publish\<close>: whether all were delivered, the references kept, the receivers.\<close>

fun bus_retain :: "feed_event \<Rightarrow> nat list \<Rightarrow> (nat, feed_subscriber) fmap
    \<Rightarrow> bool \<times> nat list \<times> (nat, feed_subscriber) fmap" where
  "bus_retain event [] m = (True, [], m)"
| "bus_retain event (i # is) m =
     (case fmlookup m i of
        None \<Rightarrow> bus_retain event is m
      | Some s \<Rightarrow>
          (case subscriber_publish event s of
             (True, s') \<Rightarrow>
               (case bus_retain event is (fmupd i s' m) of (delivered, kept, m') \<Rightarrow> (delivered, i # kept, m'))
           | (False, s') \<Rightarrow>
               (case bus_retain event is (fmupd i (subscriber_close s') m) of
                  (delivered, kept, m') \<Rightarrow> (False, kept, m'))))"

definition bus_publish :: "feed_event \<Rightarrow> feed_bus \<Rightarrow> bool \<times> feed_bus" where
  "bus_publish event b =
     (case bus_retain event (bus_subscribers b) (bus_receivers b) of
        (delivered, kept, m) \<Rightarrow> (delivered, b\<lparr>bus_subscribers := kept, bus_receivers := m\<rparr>))"

definition bus_drop :: "feed_bus \<Rightarrow> (nat, feed_subscriber) fmap" where
  "bus_drop b = fmmap_keys (\<lambda>i s. if i \<in> set (bus_subscribers b) then subscriber_close s else s) (bus_receivers b)"

text \<open>One look of \<^verbatim>\<open>recv\<close>: an event, the end, or another wait. The deadline of a wait with a timeout has
  passed or not.\<close>

datatype recv_error = Disconnected | Timeout

definition subscriber_recv :: "feed_subscriber \<Rightarrow> (recv_error + feed_event) option \<times> feed_subscriber" where
  "subscriber_recv s =
     (case sub_queue s of
        event # later \<Rightarrow> (Some (Inr event), s\<lparr>sub_queue := later\<rparr>)
      | [] \<Rightarrow> (if sub_closed s then Some (Inl Disconnected) else None, s))"

definition subscriber_recv_timeout ::
  "bool \<Rightarrow> feed_subscriber \<Rightarrow> (recv_error + feed_event) option \<times> feed_subscriber" where
  "subscriber_recv_timeout expired s =
     (case subscriber_recv s of
        (None, s) \<Rightarrow> (if expired then Some (Inl Timeout) else None, s)
      | found \<Rightarrow> found)"

definition recv_until_stopped ::
  "bool \<Rightarrow> feed_subscriber \<Rightarrow> (recv_error + feed_event option) option \<times> feed_subscriber" where
  "recv_until_stopped stop s =
     (if stop then (Some (Inr None), s)
      else case subscriber_recv s of (r, s') \<Rightarrow> (map_option (map_sum id Some) r, s'))"

record feed_wake =
  wake_generation :: u64
  wake_closed :: bool

definition wake_notify :: "feed_wake \<Rightarrow> feed_wake" where
  "wake_notify w = w\<lparr>wake_generation := wake_generation w + 1\<rparr>"

definition wake_close :: "feed_wake \<Rightarrow> feed_wake" where
  "wake_close w = w\<lparr>wake_closed := True\<rparr>"

text \<open>One look of the waits on a wake.\<close>

definition wait_after :: "u64 \<Rightarrow> feed_wake \<Rightarrow> u64 session_result option" where
  "wait_after gen w =
     (if wake_generation w \<noteq> gen then Some (Inr (wake_generation w))
      else if wake_closed w then
        Some (Inl \<lparr>se_errno = ESHUTDOWN, se_message = str ''namespace feed wake is closed''\<rparr>)
      else None)"

definition wait_after_timeout :: "u64 \<Rightarrow> bool \<Rightarrow> feed_wake \<Rightarrow> u64 option session_result option" where
  "wait_after_timeout gen expired w =
     (case wait_after gen w of
        Some r \<Rightarrow> Some (map_sum id Some r)
      | None \<Rightarrow> if expired then Some (Inr None) else None)"

definition wait_until_closed_or_timeout :: "bool \<Rightarrow> feed_wake \<Rightarrow> unit session_result option" where
  "wait_until_closed_or_timeout expired w =
     (if wake_closed w then
        Some (Inl \<lparr>se_errno = ESHUTDOWN, se_message = str ''namespace feed wake is closed''\<rparr>)
      else if expired then Some (Inr ()) else None)"

section \<open>Feed data\<close>

record feed_config =
  fc_path :: bytes
  fc_stream_path :: bytes
  fc_cursor_template :: "bytes option"
  fc_backpressure_limit :: usize

text \<open>What the worker shares with other threads. The cache, the bus and the wake are optional.\<close>

record feed_env =
  fe_cache :: "namespace_cache option"
  fe_bus :: "feed_bus option"
  fe_wake :: "feed_wake option"
  fe_state :: feed_snapshot

definition env_mark_all_stale :: "instant \<Rightarrow> stale_reason \<Rightarrow> feed_env \<Rightarrow> feed_env" where
  "env_mark_all_stale now reason env = env\<lparr>fe_cache := map_option (mark_all_stale now reason) (fe_cache env)\<rparr>"

definition env_state :: "(feed_snapshot \<Rightarrow> feed_snapshot) \<Rightarrow> feed_env \<Rightarrow> feed_env" where
  "env_state f env = env\<lparr>fe_state := f (fe_state env)\<rparr>"

definition publish_feed_event :: "instant \<Rightarrow> feed_event \<Rightarrow> feed_env \<Rightarrow> feed_env" where
  "publish_feed_event now event env =
     (let env = env\<lparr>fe_wake := map_option wake_notify (fe_wake env)\<rparr> in
      case fe_bus env of
        None \<Rightarrow> env
      | Some bus \<Rightarrow>
          (case bus_publish event bus of
             (delivered, bus) \<Rightarrow>
               let env = env\<lparr>fe_bus := Some bus\<rparr> in
               if \<not> delivered then
                 env_state (set_degraded (str ''change feed event subscriber backpressure''))
                   (env_mark_all_stale now (Explicit (str ''change feed event subscriber backpressure'')) env)
               else env))"

text \<open>\<^verbatim>\<open>str::lines\<close>: a line ends with a line feed, which takes a carriage return before it along; nothing
  follows the last line feed but a rest that is not empty.\<close>

definition strip_cr :: "bytes \<Rightarrow> bytes" where
  "strip_cr line = (if line \<noteq> [] \<and> last line = 0x0D then butlast line else line)"

definition str_lines :: "bytes \<Rightarrow> bytes list" where
  "str_lines s =
     (let ls = split_on 0x0A s in
      map strip_cr (butlast ls) @ (if last ls = [] then [] else [last ls]))"

definition parse_feed_records :: "bytes \<Rightarrow> namespace_change list option" where
  "parse_feed_records data =
     (if is_utf8 data then
        those (map parse_namespace_change_record (filter (\<lambda>line. line \<noteq> []) (str_lines data)))
      else None)"

datatype feed_read_mode = FM_Stream | FM_CatchUp "bytes option"

fun mode_source :: "feed_read_mode \<Rightarrow> bytes" where
  "mode_source FM_Stream = str ''stream''"
| "mode_source (FM_CatchUp since_event_id) = str ''catch_up''"

text \<open>The loop over the records; the last one completes the cursor.\<close>

fun feed_changes :: "instant \<Rightarrow> bytes \<Rightarrow> namespace_change list \<Rightarrow> feed_env \<Rightarrow> feed_env" where
  "feed_changes now source [] env = env"
| "feed_changes now source (r # records) env =
     (let env = env\<lparr>fe_cache := map_option (mark_namespace_change now (nc_path r) (nc_old_path r)) (fe_cache env)\<rparr>;
          env = publish_feed_event now (Ev_Change r source (records = [])) env;
          env = env_state (set_connected source (Some (nc_event_id r)) (Some (nc_generation r))) env
      in feed_changes now source records env)"

definition coarse_invalidation :: "instant \<Rightarrow> stale_reason \<Rightarrow> bytes \<Rightarrow> feed_env \<Rightarrow> feed_env" where
  "coarse_invalidation now stale reason env =
     publish_feed_event now (Ev_Coarse reason) (env_mark_all_stale now stale env)"

definition process_selected ::
  "feed_config \<Rightarrow> instant \<Rightarrow> feed_read_mode \<Rightarrow> namespace_change list \<Rightarrow> bytes option \<Rightarrow> feed_env \<Rightarrow> bytes option \<times> feed_env" where
  "process_selected cfg now mode records cursor_advanced_to env =
     (let limit = (if fc_backpressure_limit cfg = 0 then usize_max else fc_backpressure_limit cfg) in
      if length records > limit then
        let message = str ''change feed backpressure limit exceeded'' in
        (last_id records,
         env_state (set_degraded message) (coarse_invalidation now (Explicit message) message env))
      else
        (if cursor_advanced_to \<noteq> None then cursor_advanced_to else last_id records,
         feed_changes now (mode_source mode) records env))"

definition process_feed_data ::
  "feed_config \<Rightarrow> instant \<Rightarrow> bytes \<Rightarrow> feed_read_mode \<Rightarrow> feed_env \<Rightarrow> bytes option \<times> feed_env" where
  "process_feed_data cfg now data mode env =
     (case parse_feed_records data of
        None \<Rightarrow>
          let message = str ''change feed record malformed'' in
          (None, env_state (set_degraded message) (coarse_invalidation now (Explicit message) message env))
      | Some records \<Rightarrow>
          (case mode of
             FM_Stream \<Rightarrow> process_selected cfg now mode records None env
           | FM_CatchUp since_event_id \<Rightarrow>
               let sel = select_feed_records records since_event_id (fc_cursor_template cfg \<noteq> None) in
               if sel_cursor_missed sel then
                 (sel_cursor_advanced_to sel,
                  env_state (set_connected (mode_source mode) (sel_cursor_advanced_to sel) None)
                    (env_state mark_fresh_instance
                      (coarse_invalidation now NamespaceChange
                        (str ''change feed cursor fell outside recent window'') env)))
               else process_selected cfg now mode (sel_records sel) (sel_cursor_advanced_to sel) env))"

section \<open>The worker\<close>

definition parse_namespace_path :: "bytes \<Rightarrow> segments session_result" where
  "parse_namespace_path path =
     (case parse_absolute_path path of
        Some segs \<Rightarrow> Inr segs
      | None \<Rightarrow> Inl \<lparr>se_errno = EINVAL, se_message = str ''namespace change path must be absolute: '' @ path\<rparr>)"

text \<open>What the session and the feed files answer during one turn of the worker.\<close>

record feed_answers =
  fa_attachment :: "unit session_result"
  fa_stream_open :: "unit session_result"
  fa_walk :: "fid session_result"
  fa_open :: "unit session_result"
  fa_read :: "bytes session_result"
  fa_clunk :: "unit session_result"
  fa_reconnect :: "unit session_result"

definition open_feed :: "bytes \<Rightarrow> feed_answers \<Rightarrow> fid session_result" where
  "open_feed path a =
     (case parse_namespace_path path of
        Inl e \<Rightarrow> Inl e
      | Inr segs \<Rightarrow>
          (case fa_walk a of
             Inl e \<Rightarrow> Inl e
           | Inr fid \<Rightarrow> (case fa_open a of Inl e \<Rightarrow> Inl e | Inr _ \<Rightarrow> Inr fid)))"

definition consume_catch_up ::
  "feed_config \<Rightarrow> instant \<Rightarrow> feed_answers \<Rightarrow> bytes \<Rightarrow> bytes option \<Rightarrow> feed_env \<Rightarrow> bytes option session_result \<times> feed_env" where
  "consume_catch_up cfg now a path since_event_id env =
     (case open_feed path a of
        Inl e \<Rightarrow> (Inl e, env)
      | Inr fid \<Rightarrow>
          (case (fa_read a, fa_clunk a) of
             (Inl e, _) \<Rightarrow> (Inl e, env)
           | (Inr data, Inl e) \<Rightarrow> (Inl e, env)
           | (Inr data, Inr _) \<Rightarrow>
               if data = [] then (Inr None, env_state (set_connected (str ''catch_up'') None None) env)
               else (case process_feed_data cfg now data (FM_CatchUp since_event_id) env of
                       (upto_id, env) \<Rightarrow> (Inr upto_id, env))))"

definition publish_connection_loss :: "instant \<Rightarrow> session_error \<Rightarrow> feed_env \<Rightarrow> feed_env" where
  "publish_connection_loss now e env =
     env_state (set_degraded (str ''stream feed degraded: '' @ se_message e))
       (publish_feed_event now (Ev_Coarse (str ''change feed connection lost'')) env)"

definition reconnect_after_failure :: "feed_answers \<Rightarrow> feed_env \<Rightarrow> feed_env" where
  "reconnect_after_failure a env =
     (case fa_reconnect a of
        Inr _ \<Rightarrow> env
      | Inl e \<Rightarrow> env_state (set_degraded (str ''stream feed reconnect degraded: '' @ se_message e)) env)"

text \<open>Where the worker stands: at the head of its loop, with the stream opened, reading it (with the
  last event id read), or at its end.\<close>

datatype feed_pc = F_Attach | F_Opened | F_Stream "bytes option" | F_Ended

record feed_worker =
  fw_env :: feed_env
  fw_since :: "bytes option"
  fw_pc :: feed_pc
  fw_stop :: bool
  fw_ready :: "feed_wake option"

definition feed_begin :: "feed_env \<Rightarrow> feed_wake option \<Rightarrow> feed_worker" where
  "feed_begin env ready =
     (let env = env_state set_connecting env in
      \<lparr>fw_env = env, fw_since = fs_last_event_id (fe_state env), fw_pc = F_Attach, fw_stop = False,
       fw_ready = ready\<rparr>)"

definition or_else :: "'a option \<Rightarrow> 'a option \<Rightarrow> 'a option" where
  "or_else a b = (if a \<noteq> None then a else b)"

definition feed_end :: "feed_worker \<Rightarrow> feed_worker" where
  "feed_end w =
     w\<lparr>fw_env := (fw_env w)\<lparr>fe_wake := map_option wake_close (fe_wake (fw_env w))\<rparr>,
       fw_ready := map_option wake_close (fw_ready w), fw_pc := F_Ended\<rparr>"

definition feed_lost :: "instant \<Rightarrow> feed_answers \<Rightarrow> session_error \<Rightarrow> feed_worker \<Rightarrow> feed_worker" where
  "feed_lost now a e w =
     w\<lparr>fw_env := reconnect_after_failure a (publish_connection_loss now e (fw_env w)), fw_pc := F_Attach\<rparr>"

definition attach_turn :: "instant \<Rightarrow> feed_answers \<Rightarrow> feed_worker \<Rightarrow> feed_worker" where
  "attach_turn now a w =
     (if fw_stop w then feed_end w
      else case fa_attachment a of
        Inl e \<Rightarrow>
          w\<lparr>fw_env := env_state (set_degraded (str ''9P client session unavailable: '' @ se_message e)) (fw_env w)\<rparr>
      | Inr _ \<Rightarrow>
          (case fa_stream_open a of
             Inl e \<Rightarrow> feed_lost now a e w
           | Inr _ \<Rightarrow> w\<lparr>fw_pc := F_Opened\<rparr>))"

definition feed_ready :: "feed_worker \<Rightarrow> feed_worker" where
  "feed_ready w =
     w\<lparr>fw_ready := map_option wake_notify (fw_ready w),
       fw_env := (fw_env w)\<lparr>fe_wake := map_option wake_notify (fe_wake (fw_env w))\<rparr>,
       fw_pc := F_Stream None\<rparr>"

definition opened_turn :: "feed_config \<Rightarrow> bool \<Rightarrow> instant \<Rightarrow> feed_answers \<Rightarrow> feed_worker \<Rightarrow> feed_worker" where
  "opened_turn cfg catch_up_initial now a w =
     (if fw_stop w then feed_end w
      else if fw_since w \<noteq> None \<or> catch_up_initial then
        (let path = feed_catch_up_path (fc_path cfg) (fw_since w) (fc_cursor_template cfg) in
         case consume_catch_up cfg now a path (fw_since w) (fw_env w) of
           (Inr upto_id, env) \<Rightarrow> feed_ready (w\<lparr>fw_env := env, fw_since := or_else upto_id (fw_since w)\<rparr>)
         | (Inl e, env) \<Rightarrow>
             if se_errno e = ETIMEDOUT then feed_ready (w\<lparr>fw_env := env\<rparr>)
             else feed_lost now a e (w\<lparr>fw_env := env\<rparr>))
      else feed_ready w)"

definition stream_turn :: "feed_config \<Rightarrow> instant \<Rightarrow> feed_answers \<Rightarrow> bytes option \<Rightarrow> feed_worker \<Rightarrow> feed_worker" where
  "stream_turn cfg now a last_event_id w =
     (if fw_stop w then feed_end (w\<lparr>fw_since := or_else last_event_id (fw_since w)\<rparr>)
      else case fa_read a of
        Inr data \<Rightarrow>
          if data = [] then w\<lparr>fw_env := env_state (set_connected (str ''stream'') None None) (fw_env w)\<rparr>
          else (case process_feed_data cfg now data FM_Stream (fw_env w) of
                  (event_id, env) \<Rightarrow> w\<lparr>fw_env := env, fw_pc := F_Stream (or_else event_id last_event_id)\<rparr>)
      | Inl e \<Rightarrow>
          if se_errno e = ETIMEDOUT then
            w\<lparr>fw_env := env_state (set_connected (str ''stream'') None None) (fw_env w)\<rparr>
          else feed_lost now a e
            (w\<lparr>fw_since := or_else (fs_last_event_id (fe_state (fw_env w))) (fw_since w)\<rparr>))"

definition feed_turn :: "feed_config \<Rightarrow> bool \<Rightarrow> instant \<Rightarrow> feed_answers \<Rightarrow> feed_worker \<Rightarrow> feed_worker" where
  "feed_turn cfg catch_up_initial now a w =
     (case fw_pc w of
        F_Attach \<Rightarrow> attach_turn now a w
      | F_Opened \<Rightarrow> opened_turn cfg catch_up_initial now a w
      | F_Stream last_event_id \<Rightarrow> stream_turn cfg now a last_event_id w
      | F_Ended \<Rightarrow> w)"

end
