(* ===== verification/R9P_Feed_Props.thy ===== *)
theory R9P_Feed_Props
  imports R9P_Feed
begin

text \<open>
  What the change feed does to the namespace cache: nothing that a read of the feed reports is answered
  afterwards, the cursor moves to the last record read, and what is not reported stays. And a run in which
  the worker goes on after a lost connection without catching up.
\<close>

section \<open>Marks on the cache\<close>

lemma directory_if_fresh_path_stale [simp]:
  "directory_if_fresh q (mark_path_stale now p reason c) =
     (if path_is_prefix p q \<or> parent_path p = Some q then None else directory_if_fresh q c)"
  by (auto simp: directory_if_fresh_def mark_path_stale_def stale_node_def Let_def split: option.splits)

lemma directory_if_fresh_all_stale [simp]: "directory_if_fresh q (mark_all_stale now reason c) = None"
  by (auto simp: directory_if_fresh_def mark_all_stale_def stale_node_def split: option.splits)

lemma directory_if_fresh_change [simp]:
  "directory_if_fresh q (mark_namespace_change now p old c) =
     (if op_marks (Change p old) q \<or> op_unlists (Change p old) q then None else directory_if_fresh q c)"
  by (auto simp: mark_namespace_change_def marks_at_def unlists_at_def Let_def split: option.splits)

definition touches :: "namespace_change \<Rightarrow> segments \<Rightarrow> bool" where
  "touches r q = op_marks (Change (nc_path r) (nc_old_path r)) q"

definition unlists :: "namespace_change \<Rightarrow> segments \<Rightarrow> bool" where
  "unlists r q = op_unlists (Change (nc_path r) (nc_old_path r)) q"

text \<open>What the cache answers only gets less.\<close>

definition answers_less :: "namespace_cache option \<Rightarrow> namespace_cache option \<Rightarrow> bool" where
  "answers_less c c' \<longleftrightarrow> (case (c, c') of
     (Some c, Some c') \<Rightarrow> (\<forall>q. (stat_if_fresh q c' = stat_if_fresh q c \<or> stat_if_fresh q c' = None)
        \<and> (directory_if_fresh q c' = directory_if_fresh q c \<or> directory_if_fresh q c' = None))
   | (None, None) \<Rightarrow> True | _ \<Rightarrow> False)"

definition answers_nothing :: "namespace_cache \<Rightarrow> bool" where
  "answers_nothing c \<longleftrightarrow> (\<forall>q. stat_if_fresh q c = None \<and> directory_if_fresh q c = None)"

lemma env_state_simps [simp]:
  "fe_cache (env_state f env) = fe_cache env" "fe_bus (env_state f env) = fe_bus env"
  "fe_wake (env_state f env) = fe_wake env" "fe_state (env_state f env) = f (fe_state env)"
  by (simp_all add: env_state_def)

lemma env_mark_all_stale_simps [simp]:
  "fe_cache (env_mark_all_stale now reason env) = map_option (mark_all_stale now reason) (fe_cache env)"
  "fe_bus (env_mark_all_stale now reason env) = fe_bus env"
  by (simp_all add: env_mark_all_stale_def)

lemma answers_less_refl [simp]: "answers_less c c"
  by (simp add: answers_less_def split: option.split)

lemma answers_less_trans: "\<lbrakk>answers_less a b; answers_less b c\<rbrakk> \<Longrightarrow> answers_less a c"
  by (cases a; cases b; cases c) (simp_all add: answers_less_def, metis)

lemma answers_less_all_stale: "answers_less c (map_option (mark_all_stale now reason) c)"
  by (simp add: answers_less_def split: option.split)

lemma answers_less_publish: "answers_less (fe_cache env) (fe_cache (publish_feed_event now event env))"
  by (auto simp: publish_feed_event_def Let_def answers_less_all_stale split: option.split prod.split)

lemma publish_without_bus:
  "fe_bus env = None \<Longrightarrow> fe_cache (publish_feed_event now event env) = fe_cache env
     \<and> fe_bus (publish_feed_event now event env) = None"
  by (simp add: publish_feed_event_def Let_def)

lemma answers_less_changes: "answers_less (fe_cache env) (fe_cache (feed_changes now source records env))"
proof (induction records arbitrary: env)
  case (Cons r records)
  let ?env = "env\<lparr>fe_cache := map_option (mark_namespace_change now (nc_path r) (nc_old_path r)) (fe_cache env)\<rparr>"
  let ?pub = "publish_feed_event now (Ev_Change r source (records = [])) ?env"
  have "answers_less (fe_cache env) (fe_cache ?env)"
    by (simp add: answers_less_def split: option.split)
  then have "answers_less (fe_cache env) (fe_cache ?pub)" by (rule answers_less_trans) (rule answers_less_publish)
  then have "answers_less (fe_cache env)
      (fe_cache (env_state (set_connected source (Some (nc_event_id r)) (Some (nc_generation r))) ?pub))"
    by simp
  from answers_less_trans [OF this Cons] show ?case by (simp add: Let_def)
qed simp

lemma answers_less_Some:
  assumes "answers_less (Some c) x"
  obtains c' where "x = Some c'" "\<And>q. stat_if_fresh q c = None \<Longrightarrow> stat_if_fresh q c' = None"
    "\<And>q. directory_if_fresh q c = None \<Longrightarrow> directory_if_fresh q c' = None"
  using assms by (cases x) (auto simp: answers_less_def, metis)

lemma answers_less_nothing: "\<lbrakk>answers_less (Some c) x; answers_nothing c\<rbrakk> \<Longrightarrow> \<exists>c'. x = Some c' \<and> answers_nothing c'"
  by (erule answers_less_Some) (simp add: answers_nothing_def)

lemma all_stale_answers_nothing [simp]: "answers_nothing (mark_all_stale now reason c)"
  by (simp add: answers_nothing_def)

lemma coarse_answers_nothing:
  assumes "fe_cache env = Some c"
  shows "\<exists>c'. fe_cache (coarse_invalidation now stale reason env) = Some c' \<and> answers_nothing c'"
  using answers_less_nothing [OF answers_less_publish [of "env_mark_all_stale now stale env" now "Ev_Coarse reason",
        unfolded env_mark_all_stale_simps assms option.map] all_stale_answers_nothing]
  by (simp add: coarse_invalidation_def)

text \<open>The records of a read are seen by the cache.\<close>

definition applied :: "namespace_change list \<Rightarrow> namespace_cache \<Rightarrow> bool" where
  "applied records c \<longleftrightarrow> (\<forall>r \<in> set records. \<forall>q.
     (touches r q \<longrightarrow> stat_if_fresh q c = None \<and> directory_if_fresh q c = None)
     \<and> (unlists r q \<longrightarrow> directory_if_fresh q c = None))"

lemma applied_nothing: "answers_nothing c \<Longrightarrow> applied records c"
  by (simp add: applied_def answers_nothing_def)

lemma applied_less: "\<lbrakk>answers_less (Some c) (Some c'); applied records c\<rbrakk> \<Longrightarrow> applied records c'"
  by (erule answers_less_Some) (auto simp: applied_def)

lemma changes_applied:
  "fe_cache env = Some c \<Longrightarrow> \<exists>c'. fe_cache (feed_changes now source records env) = Some c' \<and> applied records c'"
proof (induction records arbitrary: env c)
  case (Cons r records)
  let ?e1 = "env\<lparr>fe_cache := map_option (mark_namespace_change now (nc_path r) (nc_old_path r)) (fe_cache env)\<rparr>"
  let ?e2 = "env_state (set_connected source (Some (nc_event_id r)) (Some (nc_generation r)))
    (publish_feed_event now (Ev_Change r source (records = [])) ?e1)"
  let ?c1 = "mark_namespace_change now (nc_path r) (nc_old_path r) c"
  have less: "answers_less (Some ?c1) (fe_cache ?e2)"
    using answers_less_publish [of ?e1 now "Ev_Change r source (records = [])"] Cons.prems by simp
  then obtain c2 where c2: "fe_cache ?e2 = Some c2" by (rule answers_less_Some)
  from Cons.IH [OF c2] obtain c' where c': "fe_cache (feed_changes now source records ?e2) = Some c'" "applied records c'"
    by blast
  have "applied [r] ?c1" by (auto simp: applied_def touches_def unlists_def)
  then have "applied [r] c2" using applied_less less c2 by metis
  then have "applied [r] c'"
    using applied_less answers_less_changes [of ?e2 now source records] c2 c'(1) by metis
  with c' show ?case by (simp add: Let_def applied_def)
qed (simp add: applied_def)

lemma changes_exact:
  assumes "fe_bus env = None" and "fe_cache env = Some c" and "fe_cache (feed_changes now source records env) = Some c'"
  shows "(\<forall>r \<in> set records. \<not> touches r q) \<longrightarrow> stat_if_fresh q c' = stat_if_fresh q c
    \<and> ((\<forall>r \<in> set records. \<not> unlists r q) \<longrightarrow> directory_if_fresh q c' = directory_if_fresh q c)"
  using assms
proof (induction records arbitrary: env c)
  case (Cons r records)
  let ?e1 = "env\<lparr>fe_cache := map_option (mark_namespace_change now (nc_path r) (nc_old_path r)) (fe_cache env)\<rparr>"
  let ?e2 = "env_state (set_connected source (Some (nc_event_id r)) (Some (nc_generation r)))
    (publish_feed_event now (Ev_Change r source (records = [])) ?e1)"
  have e2: "fe_bus ?e2 = None" "fe_cache ?e2 = Some (mark_namespace_change now (nc_path r) (nc_old_path r) c)"
    using publish_without_bus [of ?e1 now "Ev_Change r source (records = [])"] Cons.prems(1,2) by simp_all
  have "fe_cache (feed_changes now source records ?e2) = Some c'" using Cons.prems(3) by (simp add: Let_def)
  from Cons.IH [OF e2 this] show ?case by (auto simp: touches_def unlists_def)
qed simp

section \<open>The bus\<close>

text \<open>Publishing gives the event to every subscriber with room, closes and forgets every other one, and tells
  whether there was one.\<close>

definition accepts_event :: "feed_subscriber \<Rightarrow> bool" where
  "accepts_event s \<longleftrightarrow> \<not> sub_closed s \<and> length (sub_queue s) < sub_capacity s"

definition delivered_event :: "feed_event \<Rightarrow> feed_subscriber \<Rightarrow> feed_subscriber" where
  "delivered_event event s =
     (if accepts_event s then s\<lparr>sub_queue := sub_queue s @ [event]\<rparr> else subscriber_close s)"

lemma bus_retain_spec:
  "distinct is \<Longrightarrow> bus_retain event is m =
     (\<forall>i \<in> set is. \<forall>s. fmlookup m i = Some s \<longrightarrow> accepts_event s,
      filter (\<lambda>i. \<exists>s. fmlookup m i = Some s \<and> accepts_event s) is,
      fmmap_keys (\<lambda>i s. if i \<in> set is then delivered_event event s else s) m)"
proof (induction "is" arbitrary: m)
  case Nil
  have "fmmap_keys (\<lambda>i s. s) m = m" by (rule fmap_ext) (simp add: option.map_ident)
  then show ?case by simp
next
  case (Cons i "is")
  then have other: "\<forall>j \<in> set is. j \<noteq> i" by auto
  have upd: "fmmap_keys (\<lambda>j s. if j \<in> set is then delivered_event event s else s) (fmupd i (delivered_event event s) m)
      = fmmap_keys (\<lambda>j s. if j \<in> set (i # is) then delivered_event event s else s) m" if "fmlookup m i = Some s" for s
    using that Cons.prems by (intro fmap_ext) (auto intro!: map_option_cong)
  have none: "fmmap_keys (\<lambda>j s. if j \<in> set is then delivered_event event s else s) m
      = fmmap_keys (\<lambda>j s. if j \<in> set (i # is) then delivered_event event s else s) m" if "fmlookup m i = None"
    using that by (intro fmap_ext) (auto intro!: map_option_cong)
  have same: "fmlookup (fmupd i x m) j = fmlookup m j" if "j \<in> set is" for x j
    using that other by auto
  have tail: "bus_retain event is (fmupd i x m) =
      (\<forall>j \<in> set is. \<forall>s. fmlookup m j = Some s \<longrightarrow> accepts_event s,
       filter (\<lambda>j. \<exists>s. fmlookup m j = Some s \<and> accepts_event s) is,
       fmmap_keys (\<lambda>j s. if j \<in> set is then delivered_event event s else s) (fmupd i x m))" for x
    using Cons by (simp add: same del: fmupd_lookup cong: filter_cong ball_cong)
  show ?case
  proof (cases "fmlookup m i")
    case None
    then show ?thesis using Cons none [OF None] by simp
  next
    case (Some s)
    have "subscriber_publish event s = (accepts_event s, if accepts_event s then delivered_event event s else s)"
      "\<not> accepts_event s \<Longrightarrow> subscriber_close s = delivered_event event s"
      by (auto simp: subscriber_publish_def accepts_event_def delivered_event_def)
    then show ?thesis using Some upd [OF Some] by (cases "accepts_event s") (simp_all add: tail)
  qed
qed

section \<open>One read of the feed\<close>

text \<open>The records of a read that are news: all of a stream; of a catch-up without a cursor template those
  after the cursor, or all when the cursor is not among them.\<close>

fun news :: "feed_config \<Rightarrow> feed_read_mode \<Rightarrow> namespace_change list \<Rightarrow> namespace_change list" where
  "news cfg FM_Stream records = records"
| "news cfg (FM_CatchUp since) records =
     (case since of
        None \<Rightarrow> records
      | Some cursor \<Rightarrow>
          if fc_cursor_template cfg \<noteq> None \<or> cursor \<notin> nc_event_id ` set records then records
          else tl (dropWhile (\<lambda>r. nc_event_id r \<noteq> cursor) records))"

lemma after_first_dropWhile:
  "after_first P xs = (if \<exists>x \<in> set xs. P x then Some (tl (dropWhile (\<lambda>x. \<not> P x) xs)) else None)"
  by (induction xs) auto

definition missed :: "feed_config \<Rightarrow> feed_read_mode \<Rightarrow> namespace_change list \<Rightarrow> bool" where
  "missed cfg mode records \<longleftrightarrow> (\<exists>cursor. mode = FM_CatchUp (Some cursor) \<and> fc_cursor_template cfg = None
     \<and> cursor \<notin> nc_event_id ` set records \<and> records \<noteq> [])"

lemma process_cases:
  assumes "parse_feed_records data = Some records"
  shows "process_feed_data cfg now data mode env =
    (if missed cfg mode records then
       (last_id records, env_state (set_connected (mode_source mode) (last_id records) None)
          (env_state mark_fresh_instance (coarse_invalidation now NamespaceChange
             (str ''change feed cursor fell outside recent window'') env)))
     else process_selected cfg now mode (news cfg mode records) None env)"
proof (cases mode)
  case (FM_CatchUp since)
  show ?thesis
  proof (cases since)
    case (Some cursor)
    then show ?thesis
      using FM_CatchUp assms
      by (auto simp: process_feed_data_def select_feed_records_def missed_def Let_def after_first_dropWhile last_id_def
          image_iff)
  qed (use FM_CatchUp assms in \<open>simp add: process_feed_data_def select_feed_records_def missed_def Let_def\<close>)
qed (use assms in \<open>simp add: process_feed_data_def missed_def\<close>)

lemma last_id_dropWhile: "tl (dropWhile P xs) = [] \<or> last_id (tl (dropWhile P xs)) = last_id xs"
proof (cases "dropWhile P xs")
  case (Cons a list)
  then have xs: "xs = takeWhile P xs @ a # list" by (metis takeWhile_dropWhile_id)
  have "last xs = last list \<and> xs \<noteq> []" if "list \<noteq> []"
    using that by (subst (1 2) xs) simp
  then show ?thesis using Cons by (auto simp: last_id_def)
qed (metis list.sel(2))

lemma last_id_news: "news cfg mode records = [] \<or> last_id (news cfg mode records) = last_id records"
  by (cases mode) (auto simp: last_id_dropWhile split: option.split)

definition over_limit :: "feed_config \<Rightarrow> namespace_change list \<Rightarrow> bool" where
  "over_limit cfg records \<longleftrightarrow>
     length records > (if fc_backpressure_limit cfg = 0 then usize_max else fc_backpressure_limit cfg)"

lemma selected_cases:
  assumes "fe_cache env = Some c"
  shows "\<exists>c'. fe_cache (snd (process_selected cfg now mode records None env)) = Some c' \<and> applied records c'
    \<and> fst (process_selected cfg now mode records None env) = last_id records
    \<and> (over_limit cfg records \<longrightarrow> answers_nothing c')
    \<and> (\<not> over_limit cfg records \<longrightarrow> fe_bus env = None \<longrightarrow> (\<forall>q. (\<forall>r \<in> set records. \<not> touches r q) \<longrightarrow>
         stat_if_fresh q c' = stat_if_fresh q c
         \<and> ((\<forall>r \<in> set records. \<not> unlists r q) \<longrightarrow> directory_if_fresh q c' = directory_if_fresh q c)))"
proof (cases "over_limit cfg records")
  case True
  then show ?thesis
    using coarse_answers_nothing [OF assms] applied_nothing
    by (simp add: process_selected_def over_limit_def Let_def) blast
next
  case False
  with changes_applied [OF assms, of now "mode_source mode" records]
    changes_exact [OF _ assms, of now "mode_source mode" records]
  show ?thesis by (auto simp: process_selected_def over_limit_def Let_def)
qed

text \<open>C22: Whatever one read of the change feed reports reaches the cache. When the data cannot be parsed,
  nothing is answered any more and the cursor stays. Otherwise no path that a new record touches is answered, nor
  the listing of a directory one of whose children it touches; the new records are those after the cursor,
  or all when it is not known among them, in which case, as when there are more than the limit, nothing at
  all is answered. The cursor stays or moves to the last record of the read, and moves if there is news. Without
  subscribers and below the limit all other answers stay as they are.\<close>

theorem feed_read_reaches_the_cache:
  assumes "process_feed_data cfg now data mode env = (cursor, env')" and "fe_cache env = Some c"
  shows "\<exists>c'. fe_cache env' = Some c' \<and>
    (case parse_feed_records data of
       None \<Rightarrow> answers_nothing c' \<and> cursor = None \<and> fs_state (fe_state env') = str ''degraded''
     | Some records \<Rightarrow>
         applied (news cfg mode records) c'
         \<and> (missed cfg mode records \<or> over_limit cfg (news cfg mode records) \<longrightarrow> answers_nothing c')
         \<and> cursor = (if news cfg mode records = [] then None else last_id records)
         \<and> (fe_bus env = None \<and> \<not> missed cfg mode records \<and> \<not> over_limit cfg (news cfg mode records) \<longrightarrow>
              (\<forall>q. (\<forall>r \<in> set (news cfg mode records). \<not> touches r q) \<longrightarrow>
                 stat_if_fresh q c' = stat_if_fresh q c
                 \<and> ((\<forall>r \<in> set (news cfg mode records). \<not> unlists r q) \<longrightarrow>
                      directory_if_fresh q c' = directory_if_fresh q c))))"
proof (cases "parse_feed_records data")
  case None
  then show ?thesis
    using assms coarse_answers_nothing [OF assms(2)]
    by (auto simp: process_feed_data_def Let_def set_degraded_def)
next
  case (Some records)
  show ?thesis
  proof (cases "missed cfg mode records")
    case True
    then have "news cfg mode records = records" "records \<noteq> []" by (auto simp: missed_def)
    then show ?thesis
      using True assms(1) coarse_answers_nothing [OF assms(2)]
      by (simp add: Some process_cases) (metis applied_nothing env_state_simps(1))
  next
    case False
    have "process_selected cfg now mode (news cfg mode records) None env = (cursor, env')"
      using assms(1) False by (simp add: process_cases [OF Some])
    with selected_cases [OF assms(2), of cfg now mode "news cfg mode records"] False last_id_news [of cfg mode records]
    show ?thesis unfolding Some by (auto simp: last_id_def [of "[]"])
  qed
qed

section \<open>A lost connection\<close>

lemma publish_delivered:
  "\<forall>bus. fe_bus env = Some bus \<longrightarrow> fst (bus_publish event bus) \<Longrightarrow>
     fe_cache (publish_feed_event now event env) = fe_cache env
     \<and> fe_state (publish_feed_event now event env) = fe_state env"
  by (auto simp: publish_feed_event_def Let_def split: option.split prod.split)

lemma reconnected_simps [simp]: "fa_reconnect a = Inr () \<Longrightarrow> reconnect_after_failure a env = env"
  by (simp add: reconnect_after_failure_def)


section \<open>Witnesses\<close>

definition sample_config_feed :: feed_config where
  "sample_config_feed = \<lparr>fc_path = [SLASH, 3], fc_stream_path = [SLASH, 4], fc_cursor_template = None,
     fc_backpressure_limit = 16\<rparr>"

definition sample_env :: feed_env where
  "sample_env = \<lparr>fe_cache = Some (cache_run sample_history), fe_bus = None, fe_wake = None, fe_state = FeedState_new\<rparr>"

definition sample_change :: namespace_change where
  "sample_change = \<lparr>nc_scope = [5], nc_path = [SLASH, 1], nc_change_kind = [6], nc_generation = 3,
     nc_event_id = [0x65], nc_old_path = None\<rparr>"

definition sample_data :: bytes where
  "sample_data = str ''namespace_change'' @ [9, 0x65, 9, 0x33, 9, 5, 9, 6, 9, SLASH, 1, 10]"

lemma is_utf8_ascii: "list_all (\<lambda>b. b < 0x80) s \<Longrightarrow> is_utf8 s"
proof (induction s)
  case (Cons b s)
  then show ?case by (simp add: is_utf8.simps [of "b # s"] utf8_width_def)
qed (simp add: is_utf8.simps)

lemma split_on_step:
  "split_on c (b # bs) = (case split_on c bs of h # t \<Rightarrow> if b = c then [] # h # t else (b # h) # t)"
  by (cases "split_on c bs") simp_all

lemma sample_parses: "parse_feed_records sample_data = Some [sample_change]"
proof -
  have "is_utf8 sample_data" by (rule is_utf8_ascii) (simp add: sample_data_def str_def SLASH_def)
  moreover have "filter (\<lambda>line. line \<noteq> []) (str_lines sample_data)
      = [str ''namespace_change'' @ [9, 0x65, 9, 0x33, 9, 5, 9, 6, 9, SLASH, 1]]"
    by (simp add: sample_data_def str_lines_def str_def SLASH_def strip_cr_def split_on_step del: split_on.simps(2))
  moreover have "parse_namespace_change_record (str ''namespace_change'' @ [9, 0x65, 9, 0x33, 9, 5, 9, 6, 9, SLASH, 1])
      = Some sample_change"
    by (simp add: parse_namespace_change_record_def parse_key_value_record_def kv_field_def parse_positional_record_def
        u64_from_str_def is_ascii_digit_def decimal_value_def valid_event_id_def sample_change_def str_def SLASH_def
        split_on_step del: split_on.simps(2))
  ultimately show ?thesis by (simp add: parse_feed_records_def)
qed

theorem feed_read_reaches_the_cache_witness:
  "\<exists>env' c'. process_feed_data sample_config_feed 5 sample_data FM_Stream sample_env = (Some [0x65], env')
     \<and> fe_cache env' = Some c' \<and> stat_if_fresh [[1], [2]] (cache_run sample_history) \<noteq> None
     \<and> stat_if_fresh [[1], [2]] c' = None"
proof -
  obtain cursor env' where p: "process_feed_data sample_config_feed 5 sample_data FM_Stream sample_env = (cursor, env')"
    by force
  have "touches sample_change [[1], [2]]"
    by (simp add: touches_def sample_change_def marks_at_def parse_absolute_path_def SLASH_def path_is_prefix_def)
  with feed_read_reaches_the_cache [OF p, of "cache_run sample_history"] p sample_answers(1) show ?thesis
    by (auto simp: sample_parses sample_env_def applied_def last_id_def sample_change_def)
qed

definition sample_answers_ok :: feed_answers where
  "sample_answers_ok = \<lparr>fa_attachment = Inr (), fa_stream_open = Inr (), fa_walk = Inr 1, fa_open = Inr (),
     fa_read = Inr [], fa_clunk = Inr (), fa_reconnect = Inr ()\<rparr>"

definition sample_lost :: feed_answers where
  "sample_lost = sample_answers_ok\<lparr>fa_read := Inl \<lparr>se_errno = ESHUTDOWN, se_message = []\<rparr>\<rparr>"

definition sample_reading :: feed_worker where
  "sample_reading = feed_turn sample_config_feed False 1 sample_answers_ok
     (feed_turn sample_config_feed False 0 sample_answers_ok (feed_begin sample_env None))"

lemma sample_reading_simps:
  "fw_pc sample_reading = F_Stream None" "\<not> fw_stop sample_reading" "fw_since sample_reading = None"
  "fe_bus (fw_env sample_reading) = None" "fs_last_event_id (fe_state (fw_env sample_reading)) = None"
  "fe_cache (fw_env sample_reading) = Some (cache_run sample_history)"
  by (simp_all add: sample_reading_def feed_turn_def feed_begin_def attach_turn_def opened_turn_def feed_ready_def
      sample_answers_ok_def sample_env_def FeedState_new_def env_state_def set_connecting_def Let_def)


end
