(* ===== verification/Spec2Isabelle.thy ===== *)
theory Spec2Isabelle
  imports R9P_Endpoint R9P_Connection_Props R9P_Stack R9P_Stores R9P_Front_Props R9P_Multiplex_Props R9P_Multiplex_Api_Props
    R9P_Feed_Props
begin

text \<open>
  \<^bold>\<open>r9p: the 9P library and the front built on it.\<close>

  The program is a Rust implementation of 9P2000 (with the dialect 9P2000.R, which adds referrals,
  symlinks and renames). The crate \<^verbatim>\<open>core\<close> holds the protocol: messages and their wire format, the
  server core with its sessions and request table, the loop that serves a connection with worker
  threads, the client, and a blocking and a multiplexed client over it. The crate \<^verbatim>\<open>front\<close> is a file server whose
  contents an owner publishes at run time and whose unanswerable requests are relayed to the owner.
  The crate \<^verbatim>\<open>session\<close> keeps a cache of a remote namespace and a worker that reads the namespace's change feed
  and marks the cache. The other crates (FUSE mount, reverse export, command line, BEAM port,
  authentication) and the rest of \<^verbatim>\<open>session\<close> are programs around these.

  \<^bold>\<open>How the code is modelled.\<close> A Rust integer type is a word of its width (\<open>u8\<close> to \<open>u64\<close>); \<^verbatim>\<open>usize\<close> is a
  natural number, with the checks and the saturation of the source written out. A struct is a
  record, an enum a datatype, a \<^verbatim>\<open>BTreeMap\<close> or \<^verbatim>\<open>HashMap\<close> a finite map. \<^verbatim>\<open>Result<T>\<close> is \<open>error + 'a\<close>, and
  a method on \<^verbatim>\<open>&mut self\<close> is a function from the state to a result and the state after it, also
  when the result is an error (\<open>fallible\<close>, with \<open>bind_s\<close> for \<^verbatim>\<open>?\<close>). What the sources take from outside
  (the file tree of an embedding program, the transport, the scheduler, the owner of a front) is an
  argument of the definitions or a step of a transition system.

  \<^bold>\<open>The theories\<close>, each over the file it names:

  \<^item> \<open>R9P_Prelude\<close>: words, results, the state monad, strings as bytes, UTF-8 as
    \<^verbatim>\<open>from_utf8_lossy\<close> reads it.
  \<^item> \<open>R9P_Types\<close> (\<^verbatim>\<open>error.rs\<close>, \<^verbatim>\<open>qid.rs\<close>, \<^verbatim>\<open>mode.rs\<close>, \<^verbatim>\<open>fid.rs\<close>, \<^verbatim>\<open>message.rs\<close>): the protocol's data.
  \<^item> \<open>R9P_Wire\<close>, \<open>R9P_Stat\<close> (\<^verbatim>\<open>stat.rs\<close>), \<open>R9P_Referral\<close> (\<^verbatim>\<open>referral.rs\<close>), \<open>R9P_Codec\<close> and
    \<open>R9P_Frame_IO\<close> (\<^verbatim>\<open>codec.rs\<close>): the wire format and framing over a transport with short reads and
    interruptions. The locales \<open>field_codec\<close>, \<open>message_codec\<close> and \<open>wire_format\<close> are the contracts
    of fields, message bodies and whole records; they are interpreted for every field type, both
    message types and stats. \<open>R9P_Wire_Props\<close> has the properties: encodings are exact, pages hold
    whole entries, referrals stay inside the exported tree.
  \<^item> \<open>R9P_Request_Table\<close> (\<^verbatim>\<open>flush.rs\<close>), \<open>R9P_Session\<close> (\<^verbatim>\<open>server/session.rs\<close>, \<^verbatim>\<open>config.rs\<close>,
    \<^verbatim>\<open>validation.rs\<close>), \<open>R9P_Server\<close> (\<^verbatim>\<open>server/handlers.rs\<close>, \<^verbatim>\<open>types.rs\<close>, \<^verbatim>\<open>mod.rs\<close>): the server core.
    \<open>R9P_Reservations\<close>, \<open>R9P_Server_Inv\<close>, \<open>R9P_Server_Step\<close> and \<open>R9P_Server_Frame\<close> make it a transition
    system of admissions and completions with its invariant, \<open>R9P_Server_Spec\<close> says what a
    completion means without bookkeeping, and \<open>R9P_Server_Props\<close> has the properties. The locales
    \<open>single_use_keys\<close> and \<open>rollback\<close> are the contracts of the request table and of reservations.
  \<^item> \<open>R9P_Connection\<close> (\<^verbatim>\<open>server/connection.rs\<close>): the serving loop, its workers and their three locks
    as interleaved steps; \<open>R9P_Connection_Inv\<close> and \<open>R9P_Connection_Props\<close>: its invariant and what it
    guarantees under every interleaving.
  \<^item> \<open>R9P_Stores\<close> (\<^verbatim>\<open>server/read_snapshot.rs\<close>, \<^verbatim>\<open>server/stream.rs\<close>, \<^verbatim>\<open>rpc.rs\<close>): the stores a file tree
    keeps beside its files.
  \<^item> \<open>R9P_Client\<close>, \<open>R9P_Client_Support\<close>, \<open>R9P_Blocking\<close> (\<^verbatim>\<open>client.rs\<close>, \<^verbatim>\<open>client_support.rs\<close>,
    \<^verbatim>\<open>blocking.rs\<close>): the clients. \<open>R9P_System\<close> connects the client to the server by queues and shows
    that they agree; \<open>R9P_Stack\<close> runs the blocking client against a served tree
    (\<^verbatim>\<open>server/file_tree_handler.rs\<close>) and shows that what is written is read back and that a listing
    is the directory. The locale \<open>paged_file\<close> is the contract of a file read in pages, interpreted
    for files and for directories.
  \<^item> \<open>R9P_Multiplex\<close> (\<^verbatim>\<open>multiplex/client.rs\<close>, \<^verbatim>\<open>client/calls.rs\<close>, \<^verbatim>\<open>reader.rs\<close>, \<^verbatim>\<open>util.rs\<close>): a connection that any number
    of calls share, with its reader, as interleaved steps, one per hold of a lock. A call is where it
    stands in \<^verbatim>\<open>submit_message\<close>, in the wait for its response, or in the flush that follows a timeout; a
    channel is a number. \<open>R9P_Multiplex_Inv\<close>: every tag and channel has one owner and a reply is in one place.
    \<open>R9P_Multiplex_Props\<close>: a call gets the answer to its own request, and none is forgotten.
    \<open>R9P_Multiplex_Api\<close>: the operations of that client as one thread sees them, over an environment that
    submits and awaits calls; \<open>R9P_Multiplex_Api_Props\<close>: they are those of the blocking client where calls
    are served one at a time, pipelined reads are exact, and what the errors of a pipelined write and
    read tell.
  \<^item> \<open>R9P_Endpoint\<close> (\<^verbatim>\<open>endpoint.rs\<close>): the text of TCP endpoints.
  \<^item> \<open>R9P_Front_Data\<close>, \<open>R9P_Front_Model\<close> (\<^verbatim>\<open>front/src/model.rs\<close>): the state of a front and its
    operations. \<open>R9P_Front_Api\<close> (\<^verbatim>\<open>front.rs\<close>, \<^verbatim>\<open>front/rename.rs\<close>,
    \<^verbatim>\<open>front/child_directory_resolution.rs\<close>): the methods an owner calls, and the waits of a session.
    \<open>R9P_Front_Tree\<close> (\<^verbatim>\<open>tree.rs\<close>, \<^verbatim>\<open>tree/rename.rs\<close>, \<^verbatim>\<open>tree/child_directory_resolution.rs\<close>): the
    handlers a session calls. A handler is cut where it gives up the front's lock; what other threads
    do while the lock is free is an argument, or a step of the transition system of
    \<open>R9P_Front_World\<close>.
  \<^item> \<open>R9P_Front_Inv\<close>, \<open>R9P_Front_Ops\<close>, \<open>R9P_Front_Retain\<close>, \<open>R9P_Front_Place\<close>: the well-formedness of the
    node tree (links, names, index, detached subtrees, reference counts), that every operation keeps
    it, and what removing, retaining, placing and logging do to paths and bytes.
    \<open>R9P_Front_World\<close>: a front with any number of sessions, one step per hold of the lock, and the
    invariant that reference counts are exactly the fids bound. \<open>R9P_Front_Walk\<close>: walks stay below
    the session's root. \<open>R9P_Front_Props\<close>: what readers see, the equivalence of the recursive removal
    with one at once, and two runs in which the code does what it should not.
  \<^item> \<open>R9P_Cache\<close> (\<^verbatim>\<open>session/src/cache.rs\<close>): stats and listings by path, each fresh or stale, and the meaning of an
    answer over the history of the cache. \<open>R9P_Feed\<close> (\<^verbatim>\<open>session/src/feed/record.rs\<close>, \<^verbatim>\<open>state.rs\<close>, \<^verbatim>\<open>event.rs\<close>,
    \<^verbatim>\<open>worker.rs\<close>): the records of the feed, the state shown to queries, the bus and the wake, and the worker,
    whose loop is a function of one turn from an answer of the network to the next. \<open>R9P_Feed_Props\<close>: what a
    read reports reaches the cache, what the bus delivers, and a run that goes on without catching up.

  \<^bold>\<open>Fuel and bounds.\<close> Loops are recursive functions with a proof of termination where the source
  bounds them by data. Loops of a front that climb from node to parent, and the recursions into
  children that only read, get one turn per node and one more; in a well-formed tree they end before
  (\<open>path_segments_climb\<close>, \<open>subtree_has_fid_reference\<close> against \<open>edges\<close>, \<open>collect_stale_loop_spec\<close>), so the
  bound is never met. The removal of a subtree needs no bound: it is a work list that shrinks the
  state. A wait on a condition variable is a loop over the turns the scheduler grants; with no
  turn left it is still waiting (\<open>None\<close>). The blocking client's loops take a bound on the
  replies they may read, and the theorems of \<open>R9P_Stack\<close> give the bound that is enough.

  \<^bold>\<open>Not modelled.\<close> Sockets, timeouts and threads as such: the transport is a stream of chunks, time
  is whether a deadline has passed, a thread is a step relation. Poisoned locks: a lock is poisoned
  when a thread panics while holding it. The steps of the multiplexed client take a tag for a new call
  only when no flush, no call and not the reader still deals with it, which the code does not check and
  which fails only when all 65535 tags go round meanwhile. The stop flag of the feed worker is
  looked at when a turn begins; in the source also once or twice within it. Authentication, the export
  descriptor, the FUSE mount, the session's clients, control socket and materialization, reverse export, the
  BEAM port and the command line rest on packages, kernel interfaces, processes or the disk, which are
  not part of the sources; of the parts of them that are plain data, none is modelled here.
\<close>

end
